(* ===== verification/IPC_Prelude.thy ===== *)
theory IPC_Prelude
imports Main "HOL-Library.Word"
begin

text \<open>
  What every component theory of the development shares: the machine types of the 32-bit
  SYS/BIOS targets, the faults a run of the C code can end in, the result type that carries
  them, \<open>Assert_isTrue\<close>, array accesses, the rounding macros of \<open>_Ipc.h\<close>, and the
  generic lemmas on those.
\<close>

unbundle bit_operations_syntax

section \<open>Machine types\<close>

text \<open>
  On the 32-bit targets \<open>Ptr\<close>, \<open>UArg\<close>, \<open>SizeT\<close>, \<open>UInt\<close> and
  \<open>SharedRegion_SRPtr\<close> are all 32 bits wide, \<open>UInt16\<close> is 16 bits wide.
\<close>

type_synonym u16 = "16 word"
type_synonym u32 = "32 word"
type_synonym ptr = "32 word"
type_synonym sizeT = "32 word"
type_synonym srptr = "32 word"

abbreviation NULL :: ptr where
  "NULL \<equiv> 0"

section \<open>Faults and results\<close>

text \<open>The assertions the modelled code raises, by their identifiers in the \<open>.xdc\<close> files.\<close>

datatype assert_id =
    A_invParam | A_nullArgument | A_nullPointer | A_internal
  | A_addrNotInSharedRegion | A_addrNotCacheAligned
  | A_idTooLarge | A_addrOutOfRange | A_region0Clear | A_region0Invalid | A_regionInvalid
  | A_reserveTooMuch | A_cacheLineSizeIsZero | A_overlap | A_alreadyExists | A_noHeap
  | A_invBlockFreed | A_badAlignment | A_align | A_zeroBlock | A_invalidFree | A_heapSize
  | A_invArgument | A_notRegistered | A_reservedEvent | A_outOfOrderNesting
  | A_alreadyRegistered | A_notSupported
  | A_invalidLen | A_invalidMultiProcId
  | A_heapIdInvalid | A_invalidMsg | A_cannotFreeStaticMsg | A_invalidQueueId | A_invalidObj
  | A_procIdInvalid | A_unregisteredTransport | A_invalidParam | A_invalidUnblock
  | A_unnamed

text \<open>
  A run ends with a value, with a failed assertion, or in behaviour the C standard leaves
  undefined (an access outside an array or through a bad pointer, a division by zero, a read
  of freed memory). \<open>Out_of_fuel\<close> is the answer of a loop that is still running when the
  number of rounds it is given is used up.
\<close>

datatype fault =
    Assertion assert_id | Bad_access | Div_by_zero | Use_after_free | No_init | Out_of_fuel

datatype 'a res = Ok 'a | Err fault

definition res_bind :: "'a res \<Rightarrow> ('a \<Rightarrow> 'b res) \<Rightarrow> 'b res" where
  "res_bind m f = (case m of Ok x \<Rightarrow> f x | Err e \<Rightarrow> Err e)"

lemma res_bind_simps [simp]:
  "res_bind (Ok x) f = f x"
  "res_bind (Err e) f = Err e"
  by (simp_all add: res_bind_def)

lemma res_bind_eq_Ok: "res_bind m f = Ok y \<longleftrightarrow> (\<exists>x. m = Ok x \<and> f x = Ok y)"
  by (cases m) simp_all

lemma res_bind_OkE [elim]:
  assumes "res_bind m f = Ok y"
  obtains x where "m = Ok x" and "f x = Ok y"
  using assms by (auto simp: res_bind_eq_Ok)

lemma res_bind_assoc: "res_bind (res_bind m f) g = res_bind m (\<lambda>x. res_bind (f x) g)"
  by (cases m) simp_all

text \<open>
  \<open>Assert_isTrue\<close> with the rest of the function as its last argument: where assertions are
  compiled in, a failing one ends the run; where they are not, the code goes on.
\<close>

definition Assert_isTrue :: "bool \<Rightarrow> bool \<Rightarrow> assert_id \<Rightarrow> 'a res \<Rightarrow> 'a res" where
  "Assert_isTrue on c a k = (if on \<and> \<not> c then Err (Assertion a) else k)"

lemma Assert_isTrue_True [simp]: "Assert_isTrue on True a k = k"
  by (simp add: Assert_isTrue_def)

lemma Assert_isTrue_off [simp]: "Assert_isTrue False c a k = k"
  by (simp add: Assert_isTrue_def)

lemma Assert_isTrue_eq_Ok:
  "Assert_isTrue on c a k = Ok x \<longleftrightarrow> (on \<longrightarrow> c) \<and> k = Ok x"
  by (auto simp: Assert_isTrue_def)

section \<open>Arrays\<close>

text \<open>Reading and writing an element of a C array of known length.\<close>

definition arr_get :: "'a list \<Rightarrow> nat \<Rightarrow> 'a res" where
  "arr_get xs i = (if i < length xs then Ok (xs ! i) else Err Bad_access)"

definition arr_set :: "'a list \<Rightarrow> nat \<Rightarrow> 'a \<Rightarrow> 'a list res" where
  "arr_set xs i x = (if i < length xs then Ok (xs[i := x]) else Err Bad_access)"

lemma arr_get_Ok [simp]: "i < length xs \<Longrightarrow> arr_get xs i = Ok (xs ! i)"
  by (simp add: arr_get_def)

lemma arr_get_eq_Ok: "arr_get xs i = Ok x \<longleftrightarrow> i < length xs \<and> x = xs ! i"
  by (auto simp: arr_get_def)

lemma arr_set_Ok [simp]: "i < length xs \<Longrightarrow> arr_set xs i x = Ok (xs[i := x])"
  by (simp add: arr_set_def)

lemma arr_set_eq_Ok: "arr_set xs i x = Ok ys \<longleftrightarrow> i < length xs \<and> ys = xs[i := x]"
  by (auto simp: arr_set_def)

section \<open>Rounding\<close>

text \<open>\<open>_Ipc_roundup(a, b)\<close>: \<open>b\<close> is a power of two.\<close>

definition Ipc_roundup :: "u32 \<Rightarrow> u32 \<Rightarrow> u32" where
  "Ipc_roundup a b = (a + (b - 1)) AND NOT (b - 1)"

section \<open>Words as numbers\<close>

lemma unat_below: "unat (w :: 'a::len word) < 2 ^ LENGTH('a)"
  by (rule unsigned_less)

lemma unat_plus_no_wrap:
  fixes a b :: "'a::len word"
  assumes "unat a + unat b < 2 ^ LENGTH('a)"
  shows "unat (a + b) = unat a + unat b"
  using assms by (simp add: unat_word_ariths)

lemma unat_minus_le:
  fixes a b :: "'a::len word"
  assumes "b \<le> a"
  shows "unat (a - b) = unat a - unat b"
  using assms by (simp add: unat_sub word_le_nat_alt)

lemma word_eq_unat: "(a = b) \<longleftrightarrow> (unat a = unat b)" for a b :: "'a::len word"
  by (simp add: word_unat_eq_iff)

lemma mask_and_unat:
  fixes x :: "'a::len word"
  assumes "m = 2 ^ n - 1" and "n < LENGTH('a)"
  shows "unat (x AND m) = unat x mod 2 ^ n"
proof -
  have "x AND m = take_bit n x"
    using assms(1) by (simp add: take_bit_eq_mask mask_eq_exp_minus_1)
  then have "unat (x AND m) = take_bit n (unat x)"
    by (simp only: unsigned_take_bit_eq)
  then show ?thesis
    by (simp only: take_bit_eq_mod)
qed

lemma unat_of_nat_small:
  "n < 2 ^ LENGTH('a::len) \<Longrightarrow> unat (word_of_nat n :: 'a word) = n"
  by (simp add: unat_of_nat)

lemma unat_pow2:
  "n < LENGTH('a::len) \<Longrightarrow> unat (2 ^ n :: 'a word) = 2 ^ n"
  using unat_of_nat_small [of "2 ^ n", where 'a = 'a] by simp

lemma unat_mask:
  assumes "n \<le> LENGTH('a)"
  shows "unat (mask n :: 'a::len word) = 2 ^ n - 1"
proof -
  have "unat (mask n :: 'a word) = unat (take_bit n (- 1 :: 'a word))"
    by (simp add: take_bit_minus_one_eq_mask)
  also have "\<dots> = take_bit n (mask LENGTH('a))"
    by (simp only: unsigned_take_bit_eq unsigned_minus_1_eq_mask)
  also have "\<dots> = mask n"
    using assms by (simp only: take_bit_of_mask min.absorb1)
  also have "\<dots> = 2 ^ n - 1"
    by (simp only: mask_eq_exp_minus_1)
  finally show ?thesis .
qed

lemma ucast_word_of_nat:
  assumes "n < 2 ^ LENGTH('a)" and "n < 2 ^ LENGTH('b)"
  shows "(ucast (word_of_nat n :: 'a::len word) :: 'b::len word) = word_of_nat n"
proof -
  have "unat (ucast (word_of_nat n :: 'a word) :: 'b word) = n"
    using assms by (simp add: unsigned_ucast_eq unat_of_nat take_bit_nat_eq_self)
  then show ?thesis
    using assms by (simp add: word_unat_eq_iff unat_of_nat_small)
qed

text \<open>Testing a bit of an event mask, as the macros \<open>TEST_BIT\<close>, \<open>SET_BIT\<close>, \<open>CLEAR_BIT\<close>.\<close>

definition SET_BIT :: "u32 \<Rightarrow> u32 \<Rightarrow> u32" where
  "SET_BIT num pos = num OR push_bit (unat pos) 1"

definition CLEAR_BIT :: "u32 \<Rightarrow> u32 \<Rightarrow> u32" where
  "CLEAR_BIT num pos = num AND NOT (push_bit (unat pos) 1)"

definition TEST_BIT :: "u32 \<Rightarrow> u32 \<Rightarrow> bool" where
  "TEST_BIT num pos \<longleftrightarrow> num AND push_bit (unat pos) 1 \<noteq> 0"

lemma TEST_BIT_iff: "unat pos < 32 \<Longrightarrow> TEST_BIT num pos \<longleftrightarrow> bit num (unat pos)"
  by (simp add: TEST_BIT_def push_bit_eq_mult and_exp_eq_0_iff_not_bit)

lemma TEST_SET_BIT:
  "unat p < 32 \<Longrightarrow> unat q < 32 \<Longrightarrow> TEST_BIT (SET_BIT m p) q \<longleftrightarrow> p = q \<or> TEST_BIT m q"
  by (auto simp: TEST_BIT_iff SET_BIT_def bit_or_iff bit_exp_iff word_eq_unat)

lemma TEST_CLEAR_BIT:
  "unat p < 32 \<Longrightarrow> unat q < 32 \<Longrightarrow> TEST_BIT (CLEAR_BIT m p) q \<longleftrightarrow> p \<noteq> q \<and> TEST_BIT m q"
  by (auto simp: TEST_BIT_iff CLEAR_BIT_def bit_and_iff bit_not_iff bit_exp_iff word_eq_unat)

section \<open>Shared-memory events\<close>

text \<open>
  What a shared-memory operation does beside reading and writing its cells, in the order it does
  it: it enters and leaves gates, calls the cache, and executes the memory barrier of the 64P
  targets. Writes are recorded too, so that the position of a write-back relative to the write it
  publishes can be stated. Logs hold the newest event first.
\<close>

datatype ipc_event =
    Gate_enter ptr | Gate_leave ptr
  | Cache_inv ptr sizeT | Cache_wbInv ptr sizeT | Mem_barrier
  | Mem_write ptr

text \<open>
  The target a build is for: an ARM v7A or v8A core (which may speculatively refill its cache)
  and the 64P DSPs (which need explicit fences).
\<close>

record build =
  b_armA :: bool
  b_64P :: bool

text \<open>
  \<open>published c W log\<close>: in the log (newest first) every write to a cell of a cached region is
  followed by a write-back of that cell, the cells of \<open>W\<close> being written back already.
\<close>

fun published :: "(ptr \<Rightarrow> bool) \<Rightarrow> ptr set \<Rightarrow> ipc_event list \<Rightarrow> bool" where
  "published c W [] = True"
| "published c W (Cache_wbInv a n # es) = published c (insert a W) es"
| "published c W (Mem_write a # es) = ((c a \<longrightarrow> a \<in> W) \<and> published c W es)"
| "published c W (Gate_enter g # es) = published c W es"
| "published c W (Gate_leave g # es) = published c W es"
| "published c W (Cache_inv a n # es) = published c W es"
| "published c W (Mem_barrier # es) = published c W es"

text \<open>How often a gate is held at the end of a log that starts with it free.\<close>

fun gate_depth :: "ptr \<Rightarrow> ipc_event list \<Rightarrow> int" where
  "gate_depth g [] = 0"
| "gate_depth g (Gate_enter g' # es) = gate_depth g es + (if g = g' then 1 else 0)"
| "gate_depth g (Gate_leave g' # es) = gate_depth g es - (if g = g' then 1 else 0)"
| "gate_depth g (Cache_inv a n # es) = gate_depth g es"
| "gate_depth g (Cache_wbInv a n # es) = gate_depth g es"
| "gate_depth g (Mem_barrier # es) = gate_depth g es"
| "gate_depth g (Mem_write a # es) = gate_depth g es"

lemma gate_depth_append: "gate_depth g (xs @ ys) = gate_depth g xs + gate_depth g ys"
  by (induction g xs rule: gate_depth.induct) auto

section \<open>Instances\<close>

text \<open>
  How an instance came to be, \<open>Ipc.ObjType\<close>; \<open>ObjType_NONE\<close> is the zero an object
  holds before its \<open>Instance_init\<close> sets the field.
\<close>

datatype Ipc_ObjType =
    ObjType_NONE
  | ObjType_CREATESTATIC | ObjType_CREATESTATIC_REGION
  | ObjType_CREATEDYNAMIC | ObjType_CREATEDYNAMIC_REGION
  | ObjType_OPENDYNAMIC | ObjType_LOCAL

definition created_dynamic :: "Ipc_ObjType \<Rightarrow> bool" where
  "created_dynamic t \<longleftrightarrow> t = ObjType_CREATEDYNAMIC \<or> t = ObjType_CREATEDYNAMIC_REGION"

text \<open>
  What the shared-memory modules call at creation and deletion outside themselves: the default
  gate, the shared address of a gate and the opening of a gate at an address (\<open>GateMP\<close>), the
  allocation from a heap (\<open>Memory_alloc\<close>, of the XDC runtime), and the module's name server,
  which answers a key or \<open>NULL\<close>.
\<close>

record ipc_env =
  env_defaultGate :: ptr
  env_gateAddr :: "ptr \<Rightarrow> srptr"
  env_gateOpen :: "ptr \<Rightarrow> ptr option"
  env_alloc :: "ptr \<Rightarrow> sizeT \<Rightarrow> sizeT \<Rightarrow> ptr"
  env_nsAdd :: "string \<Rightarrow> u32 \<Rightarrow> ptr"

section \<open>Rounding to powers of two\<close>

lemma and_not_mask_unat:
  fixes x :: u32
  assumes "k < 32"
  shows "unat (x AND NOT (2 ^ k - 1)) = (unat x div 2 ^ k) * 2 ^ k"
proof -
  have "x AND NOT (2 ^ k - 1) = push_bit k (drop_bit k x)"
    by (rule bit_word_eqI)
      (auto simp: mask_eq_exp_minus_1 [symmetric] bit_and_iff bit_not_iff bit_mask_iff
        bit_push_bit_iff bit_drop_bit_eq)
  moreover have "take_bit 32 (unat x) = unat x"
    using unat_below [of x] by (simp add: take_bit_nat_eq_self)
  ultimately have "unat (x AND NOT (2 ^ k - 1)) = take_bit 32 (push_bit k (drop_bit k (unat x)))"
    by (simp add: unsigned_push_bit_eq unsigned_drop_bit_eq)
  also have "\<dots> = (unat x div 2 ^ k) * 2 ^ k"
  proof -
    have "(unat x div 2 ^ k) * 2 ^ k \<le> unat x" by simp
    also have "\<dots> < 2 ^ 32" using unat_below [of x] by simp
    finally show ?thesis
      by (simp add: push_bit_eq_mult drop_bit_eq_div take_bit_nat_eq_self)
  qed
  finally show ?thesis .
qed

text \<open>The next multiple of \<open>n\<close>.\<close>

definition round_up :: "nat \<Rightarrow> nat \<Rightarrow> nat" where
  "round_up a n = ((a + (n - 1)) div n) * n"

lemma round_up_bounds:
  assumes "0 < n"
  shows "a \<le> round_up a n" and "round_up a n < a + n" and "n dvd round_up a n"
proof -
  have "(a + (n - 1)) div n * n + (a + (n - 1)) mod n = a + (n - 1)" by simp
  moreover have "(a + (n - 1)) mod n < n" using assms by simp
  ultimately show "a \<le> round_up a n" and "round_up a n < a + n"
    unfolding round_up_def using assms by linarith+
  show "n dvd round_up a n" by (simp add: round_up_def)
qed

lemma round_up_dvd:
  assumes "0 < n" and "n dvd a"
  shows "round_up a n = a"
proof -
  obtain k j where k: "a = n * k" and j: "round_up a n = n * j"
    using assms(2) round_up_bounds(3) [OF assms(1)] by (metis dvd_def)
  have "n * k \<le> n * j" and "n * j < n * Suc k"
    using round_up_bounds(1,2) [OF assms(1), of a] by (auto simp: k [symmetric] j [symmetric])
  then have "j = k" by (metis le_less_Suc_eq mult_le_cancel1 mult_less_cancel1 assms(1) not_le)
  then show ?thesis using k j by simp
qed

lemma unat_Ipc_roundup:
  assumes "b = 2 ^ k" and "k < 32" and "unat a + 2 ^ k \<le> 2 ^ 32"
  shows "unat (Ipc_roundup a b) = round_up (unat a) (2 ^ k)"
proof -
  have b: "unat (b - 1) = 2 ^ k - 1"
    using assms(1,2) unat_pow2 [where 'a = 32, of k]
    by (subst unat_minus_le) (auto simp: word_le_nat_alt)
  have "unat a + unat (b - 1) < 2 ^ 32"
  proof -
    have "(1::nat) \<le> 2 ^ k" by simp
    with assms(3) b show ?thesis by linarith
  qed
  then have "unat (a + (b - 1)) = unat a + (2 ^ k - 1)"
    using b by (subst unat_plus_no_wrap) simp_all
  then show ?thesis
    using and_not_mask_unat [OF assms(2), of "a + (b - 1)"] assms(1)
    by (simp add: Ipc_roundup_def round_up_def)
qed

text \<open>A nesting counter in use goes on counting up to where it would wrap.\<close>

lemma nested_again: "1 < n + 1" if "n \<noteq> 0" and "n \<noteq> -1" for n :: u32
proof -
  have "unat n \<noteq> 2 ^ 32 - 1"
  proof
    assume "unat n = 2 ^ 32 - 1"
    then have "unat n = unat (-1 :: u32)" by (simp add: unsigned_minus_1_eq_mask mask_eq_exp_minus_1)
    with that(2) show False using word_unat_eq_iff by blast
  qed
  moreover have "unat n < 2 ^ LENGTH(32)" by (rule unsigned_less)
  ultimately have "unat n + 1 < 2 ^ LENGTH(32)" by simp
  then have "unat (n + 1) = unat n + 1" by (subst unat_add_lem [THEN iffD1]) simp_all
  moreover have "unat n \<noteq> 0" using that(1) by (simp add: unat_eq_0)
  ultimately show ?thesis by (simp add: word_less_nat_alt)
qed

lemma nested_wraps: "n + 1 = 0 \<longleftrightarrow> n = -1" for n :: u32
  by (simp add: eq_neg_iff_add_eq_0)

end
