(* ===== verification/SharedRegion.thy ===== *)
theory SharedRegion
imports IPC_Prelude
begin

text \<open>
  The shared-region table of \<open>ti/sdo/ipc/SharedRegion.c\<close>: which address ranges are shared
  memory, and the translation between a processor's own pointers and the portable
  \<open>SRPtr\<close>s that live in shared memory. The operations that create, open and delete the
  region heaps are in \<open>SharedRegionHeap\<close>, after the heap they call.
\<close>

section \<open>State\<close>

record SharedRegion_Entry =
  re_base :: ptr
  re_len :: sizeT
  re_ownerProcId :: u16
  re_isValid :: bool
  re_cacheEnable :: bool
  re_cacheLineSize :: sizeT
  re_createHeap :: bool
  re_name :: "string option"

record SharedRegion_Region =
  rg_entry :: SharedRegion_Entry
  rg_reservedSize :: sizeT
  rg_heap :: ptr

text \<open>
  The module state and the configuration it is compiled with: \<open>numEntries\<close> is the length
  of the table, \<open>sr_asserts\<close> says whether assertions are compiled in, \<open>sr_self\<close> is
  \<open>MultiProc_self()\<close>, \<open>sr_typeAlign\<close> is \<open>Memory_getMaxDefaultTypeAlign()\<close>.
\<close>

record SharedRegion_Module =
  sr_regions :: "SharedRegion_Region list"
  sr_translate :: bool
  sr_numOffsetBits :: nat
  sr_offsetMask :: u32
  sr_cacheLineSize :: sizeT
  sr_asserts :: bool
  sr_self :: u16
  sr_typeAlign :: sizeT

definition SharedRegion_INVALIDREGIONID :: u16 where
  "SharedRegion_INVALIDREGIONID = 0xFFFF"

definition SharedRegion_INVALIDSRPTR :: srptr where
  "SharedRegion_INVALIDSRPTR = 0xFFFFFFFF"

text \<open>
  \<open>SharedRegion_invalidSRPtr\<close>: the configuration makes it 0 when translation is off
  (\<open>SharedRegion.xs\<close>), so that it leads to the null pointer in both modes.
\<close>

definition SharedRegion_invalidSRPtr :: "SharedRegion_Module \<Rightarrow> srptr" where
  "SharedRegion_invalidSRPtr M = (if sr_translate M then SharedRegion_INVALIDSRPTR else 0)"

definition SharedRegion_numEntries :: "SharedRegion_Module \<Rightarrow> nat" where
  "SharedRegion_numEntries M = length (sr_regions M)"

datatype SharedRegion_status = SR_SUCCESS | SR_FAIL | SR_MEMORY | SR_ALREADYEXISTS

section \<open>Reading the table\<close>

text \<open>
  \<open>SharedRegion_getCacheLineSize\<close>, \<open>SharedRegion_isCacheEnabled\<close> and
  \<open>SharedRegion_getHeap\<close> share the guard: an invalid id is answered with a default only when
  translation is off.
\<close>

definition SharedRegion_getCacheLineSize :: "SharedRegion_Module \<Rightarrow> u16 \<Rightarrow> sizeT res" where
  "SharedRegion_getCacheLineSize M rid =
     (if sr_translate M \<or> rid \<noteq> SharedRegion_INVALIDREGIONID
      then Assert_isTrue (sr_asserts M) (unat rid < SharedRegion_numEntries M) A_idTooLarge
             (res_bind (arr_get (sr_regions M) (unat rid))
                (\<lambda>region. Ok (re_cacheLineSize (rg_entry region))))
      else Ok 0)"

definition SharedRegion_isCacheEnabled :: "SharedRegion_Module \<Rightarrow> u16 \<Rightarrow> bool res" where
  "SharedRegion_isCacheEnabled M rid =
     (if sr_translate M \<or> rid \<noteq> SharedRegion_INVALIDREGIONID
      then Assert_isTrue (sr_asserts M) (unat rid < SharedRegion_numEntries M) A_idTooLarge
             (res_bind (arr_get (sr_regions M) (unat rid))
                (\<lambda>region. Ok (re_cacheEnable (rg_entry region))))
      else Ok False)"

definition SharedRegion_getHeap :: "SharedRegion_Module \<Rightarrow> u16 \<Rightarrow> ptr res" where
  "SharedRegion_getHeap M rid =
     (if sr_translate M \<or> rid \<noteq> SharedRegion_INVALIDREGIONID
      then Assert_isTrue (sr_asserts M) (unat rid < SharedRegion_numEntries M) A_idTooLarge
             (res_bind (arr_get (sr_regions M) (unat rid)) (\<lambda>region. Ok (rg_heap region)))
      else Ok NULL)"

text \<open>The third argument is the structure the caller passes to be filled, or \<open>NULL\<close>.\<close>

definition SharedRegion_getEntry ::
  "SharedRegion_Module \<Rightarrow> u16 \<Rightarrow> SharedRegion_Entry option \<Rightarrow> SharedRegion_Entry res" where
  "SharedRegion_getEntry M rid entry =
     Assert_isTrue (sr_asserts M) (entry \<noteq> None) A_nullArgument (
     Assert_isTrue (sr_asserts M) (unat rid < SharedRegion_numEntries M) A_idTooLarge (
     res_bind (arr_get (sr_regions M) (unat rid)) (\<lambda>region.
     if entry = None then Err Bad_access else Ok (rg_entry region))))"

text \<open>The larger of the default type alignment and the region's cache line.\<close>

definition min_align :: "SharedRegion_Module \<Rightarrow> u16 \<Rightarrow> sizeT res" where
  "min_align M rid =
     res_bind (SharedRegion_getCacheLineSize M rid) (\<lambda>cls.
       Ok (if sr_typeAlign M < cls then cls else sr_typeAlign M))"

text \<open>The range test of \<open>SharedRegion_getId\<close>: the end of the region is computed in 32 bits.\<close>

definition region_contains :: "SharedRegion_Entry \<Rightarrow> ptr \<Rightarrow> bool" where
  "region_contains e addr \<longleftrightarrow>
     re_isValid e \<and> re_base e \<le> addr \<and> addr < re_base e + re_len e"

fun SharedRegion_getId_loop :: "SharedRegion_Region list \<Rightarrow> nat \<Rightarrow> ptr \<Rightarrow> u16" where
  "SharedRegion_getId_loop [] i addr = SharedRegion_INVALIDREGIONID"
| "SharedRegion_getId_loop (region # rest) i addr =
     (if region_contains (rg_entry region) addr then word_of_nat i
      else SharedRegion_getId_loop rest (Suc i) addr)"

definition SharedRegion_getId :: "SharedRegion_Module \<Rightarrow> ptr \<Rightarrow> u16" where
  "SharedRegion_getId M addr = SharedRegion_getId_loop (sr_regions M) 0 addr"

text \<open>
  \<open>SharedRegion_getIdByName\<close> compares with \<open>strcmp\<close>; a valid region whose name is the
  null pointer makes that call undefined.
\<close>

fun SharedRegion_getIdByName_loop :: "SharedRegion_Region list \<Rightarrow> nat \<Rightarrow> string \<Rightarrow> u16 res" where
  "SharedRegion_getIdByName_loop [] i name = Ok SharedRegion_INVALIDREGIONID"
| "SharedRegion_getIdByName_loop (region # rest) i name =
     (if re_isValid (rg_entry region)
      then (case re_name (rg_entry region) of
              None \<Rightarrow> Err Bad_access
            | Some n \<Rightarrow> if n = name then Ok (word_of_nat i)
                        else SharedRegion_getIdByName_loop rest (Suc i) name)
      else SharedRegion_getIdByName_loop rest (Suc i) name)"

definition SharedRegion_getIdByName :: "SharedRegion_Module \<Rightarrow> string \<Rightarrow> u16 res" where
  "SharedRegion_getIdByName M name = SharedRegion_getIdByName_loop (sr_regions M) 0 name"

section \<open>Translation\<close>

definition SharedRegion_getPtr :: "SharedRegion_Module \<Rightarrow> srptr \<Rightarrow> ptr res" where
  "SharedRegion_getPtr M srPtr =
     (if \<not> sr_translate M then Ok srPtr
      else if srPtr = SharedRegion_INVALIDSRPTR then Ok NULL
      else let regionId = (ucast (drop_bit (sr_numOffsetBits M) srPtr) :: u16) in
           Assert_isTrue (sr_asserts M) (unat regionId < SharedRegion_numEntries M) A_idTooLarge
             (res_bind (arr_get (sr_regions M) (unat regionId)) (\<lambda>region.
                Assert_isTrue (sr_asserts M) (re_isValid (rg_entry region)) A_regionInvalid
                  (Ok ((srPtr AND sr_offsetMask M) + re_base (rg_entry region))))))"

definition SharedRegion_getSRPtr :: "SharedRegion_Module \<Rightarrow> ptr \<Rightarrow> u16 \<Rightarrow> srptr res" where
  "SharedRegion_getSRPtr M addr rid =
     (if \<not> sr_translate M then Ok addr
      else if addr = NULL then Ok SharedRegion_INVALIDSRPTR
      else Assert_isTrue (sr_asserts M) (unat rid < SharedRegion_numEntries M) A_idTooLarge
             (res_bind (arr_get (sr_regions M) (unat rid)) (\<lambda>region.
                let e = rg_entry region in
                if re_base e \<le> addr \<and> addr < re_base e + re_len e
                then Ok (push_bit (sr_numOffsetBits M) (ucast rid) OR (addr - re_base e))
                else Assert_isTrue (sr_asserts M) False A_addrOutOfRange
                       (Ok SharedRegion_INVALIDSRPTR))))"

lemma getPtr_invalid: "SharedRegion_getPtr M (SharedRegion_invalidSRPtr M) = Ok NULL"
  by (simp add: SharedRegion_getPtr_def SharedRegion_invalidSRPtr_def)

lemma getSRPtr_NULL: "SharedRegion_getSRPtr M NULL rid = Ok (SharedRegion_invalidSRPtr M)"
  by (simp add: SharedRegion_getSRPtr_def SharedRegion_invalidSRPtr_def)

section \<open>Updating the table\<close>

fun SharedRegion_checkOverlap_loop :: "SharedRegion_Region list \<Rightarrow> ptr \<Rightarrow> sizeT \<Rightarrow> bool" where
  "SharedRegion_checkOverlap_loop [] b len = False"
| "SharedRegion_checkOverlap_loop (region # rest) b len =
     (let e = rg_entry region in
      if re_isValid e \<and>
         (if re_base e \<le> b then b < re_base e + re_len e else re_base e < b + len)
      then True
      else SharedRegion_checkOverlap_loop rest b len)"

definition SharedRegion_checkOverlap ::
  "SharedRegion_Module \<Rightarrow> ptr \<Rightarrow> sizeT \<Rightarrow> SharedRegion_status res" where
  "SharedRegion_checkOverlap M b len =
     (if SharedRegion_checkOverlap_loop (sr_regions M) b len
      then Assert_isTrue (sr_asserts M) False A_overlap (Ok SR_FAIL)
      else Ok SR_SUCCESS)"

definition SharedRegion_entryInit :: "SharedRegion_Module \<Rightarrow> SharedRegion_Entry" where
  "SharedRegion_entryInit M =
     \<lparr>re_base = NULL, re_len = 0, re_ownerProcId = 0, re_isValid = False, re_cacheEnable = True,
      re_cacheLineSize = sr_cacheLineSize M, re_createHeap = True, re_name = None\<rparr>"

text \<open>Writing one region of the table back.\<close>

definition set_region :: "SharedRegion_Module \<Rightarrow> u16 \<Rightarrow> SharedRegion_Region \<Rightarrow> SharedRegion_Module" where
  "set_region M rid region = M\<lparr>sr_regions := (sr_regions M)[unat rid := region]\<rparr>"

definition SharedRegion_reserveMemory ::
  "SharedRegion_Module \<Rightarrow> u16 \<Rightarrow> sizeT \<Rightarrow> (ptr \<times> SharedRegion_Module) res" where
  "SharedRegion_reserveMemory M rid sz =
     Assert_isTrue (sr_asserts M) (unat rid < SharedRegion_numEntries M) A_idTooLarge
       (res_bind (arr_get (sr_regions M) (unat rid)) (\<lambda>region.
          Assert_isTrue (sr_asserts M) (re_isValid (rg_entry region)) A_regionInvalid
            (res_bind (SharedRegion_getCacheLineSize M rid) (\<lambda>cls.
               let minAlign = (if sr_typeAlign M < cls then cls else sr_typeAlign M);
                   curSize = rg_reservedSize region;
                   retPtr = re_base (rg_entry region) + curSize;
                   newSize = Ipc_roundup sz minAlign in
               Assert_isTrue (sr_asserts M)
                 (curSize + newSize \<le> re_len (rg_entry region)) A_reserveTooMuch
                 (Ok (retPtr,
                      set_region M rid (region\<lparr>rg_reservedSize := curSize + newSize\<rparr>)))))))"

definition SharedRegion_resetInternalFields ::
  "SharedRegion_Module \<Rightarrow> u16 \<Rightarrow> SharedRegion_Module res" where
  "SharedRegion_resetInternalFields M rid =
     Assert_isTrue (sr_asserts M) (unat rid < SharedRegion_numEntries M) A_idTooLarge
       (res_bind (arr_get (sr_regions M) (unat rid)) (\<lambda>region.
          Ok (set_region M rid (region\<lparr>rg_reservedSize := 0\<rparr>))))"

section \<open>Well-formed tables\<close>

text \<open>
  What the configuration step (\<open>SharedRegion.xs\<close>) and \<open>SharedRegion_setEntry\<close> establish:
  the offset mask fits the number of offset bits, the region ids fit above the offset, no valid
  region wraps around the address space or outgrows the offset, and valid regions are disjoint.
\<close>

definition entry_fits :: "nat \<Rightarrow> SharedRegion_Entry \<Rightarrow> bool" where
  "entry_fits n e \<longleftrightarrow>
     unat (re_base e) + unat (re_len e) < 2 ^ 32 \<and> unat (re_len e) \<le> 2 ^ n"

definition entries_disjoint :: "SharedRegion_Entry \<Rightarrow> SharedRegion_Entry \<Rightarrow> bool" where
  "entries_disjoint e f \<longleftrightarrow>
     unat (re_base e) + unat (re_len e) \<le> unat (re_base f) \<or>
     unat (re_base f) + unat (re_len f) \<le> unat (re_base e)"

definition valid_entry :: "SharedRegion_Module \<Rightarrow> nat \<Rightarrow> bool" where
  "valid_entry M i \<longleftrightarrow>
     i < SharedRegion_numEntries M \<and> re_isValid (rg_entry (sr_regions M ! i))"

definition sr_wf :: "SharedRegion_Module \<Rightarrow> bool" where
  "sr_wf M \<longleftrightarrow>
     sr_numOffsetBits M < 32 \<and>
     sr_offsetMask M = 2 ^ sr_numOffsetBits M - 1 \<and>
     SharedRegion_numEntries M \<le> 2 ^ (32 - sr_numOffsetBits M) \<and>
     SharedRegion_numEntries M < 2 ^ 16 \<and>
     (\<forall>i. valid_entry M i \<longrightarrow>
        entry_fits (sr_numOffsetBits M) (rg_entry (sr_regions M ! i))) \<and>
     (\<forall>i j. valid_entry M i \<longrightarrow> valid_entry M j \<longrightarrow> i \<noteq> j \<longrightarrow>
        entries_disjoint (rg_entry (sr_regions M ! i)) (rg_entry (sr_regions M ! j)))"

text \<open>An address of region \<open>i\<close>, as a statement about numbers.\<close>

definition in_region :: "SharedRegion_Module \<Rightarrow> nat \<Rightarrow> ptr \<Rightarrow> bool" where
  "in_region M i a \<longleftrightarrow>
     valid_entry M i \<and>
     unat (re_base (rg_entry (sr_regions M ! i))) \<le> unat a \<and>
     unat a < unat (re_base (rg_entry (sr_regions M ! i))) +
              unat (re_len (rg_entry (sr_regions M ! i)))"

lemma region_contains_iff:
  assumes "entry_fits n e"
  shows "region_contains e a \<longleftrightarrow>
    re_isValid e \<and> unat (re_base e) \<le> unat a \<and>
    unat a < unat (re_base e) + unat (re_len e)"
proof -
  have "unat (re_base e + re_len e) = unat (re_base e) + unat (re_len e)"
    using assms by (intro unat_plus_no_wrap) (simp add: entry_fits_def)
  then show ?thesis
    by (simp add: region_contains_def word_le_nat_alt word_less_nat_alt)
qed

lemma in_region_contains:
  assumes "sr_wf M" and "valid_entry M i"
  shows "region_contains (rg_entry (sr_regions M ! i)) a \<longleftrightarrow> in_region M i a"
  using assms region_contains_iff [of "sr_numOffsetBits M"]
  by (auto simp: sr_wf_def in_region_def valid_entry_def)

lemma in_region_unique:
  assumes "sr_wf M" and "in_region M i a" and "in_region M j a"
  shows "i = j"
proof (rule ccontr)
  assume "i \<noteq> j"
  with assms have "entries_disjoint (rg_entry (sr_regions M ! i)) (rg_entry (sr_regions M ! j))"
    by (auto simp: sr_wf_def in_region_def)
  with assms(2,3) show False
    by (auto simp: entries_disjoint_def in_region_def)
qed

section \<open>Finding the region of an address\<close>

lemma getId_loop_hit:
  assumes "i < length rs" and "region_contains (rg_entry (rs ! i)) a"
    and "\<forall>j<i. \<not> region_contains (rg_entry (rs ! j)) a"
  shows "SharedRegion_getId_loop rs k a = word_of_nat (k + i)"
  using assms
proof (induction rs arbitrary: k i)
  case Nil
  then show ?case by simp
next
  case (Cons r rs)
  show ?case
  proof (cases i)
    case 0
    with Cons.prems show ?thesis by simp
  next
    case (Suc m)
    with Cons.prems have "\<forall>j<m. \<not> region_contains (rg_entry (rs ! j)) a" by force
    moreover have "\<not> region_contains (rg_entry r) a" using Cons.prems(3) Suc by force
    ultimately show ?thesis using Cons.IH [of m "Suc k"] Cons.prems(1,2) Suc by simp
  qed
qed

lemma getId_loop_miss:
  assumes "\<forall>j<length rs. \<not> region_contains (rg_entry (rs ! j)) a"
  shows "SharedRegion_getId_loop rs k a = SharedRegion_INVALIDREGIONID"
  using assms
proof (induction rs arbitrary: k)
  case (Cons r rs)
  then have "\<forall>j<length rs. \<not> region_contains (rg_entry (rs ! j)) a" by force
  moreover have "\<not> region_contains (rg_entry r) a" using Cons.prems by force
  ultimately show ?case using Cons.IH by simp
qed simp

lemma region_contains_in_region:
  assumes "sr_wf M" and "j < length (sr_regions M)"
  shows "region_contains (rg_entry (sr_regions M ! j)) a \<longleftrightarrow> in_region M j a"
proof (cases "valid_entry M j")
  case True
  then show ?thesis using assms(1) by (rule in_region_contains [rotated])
next
  case False
  then show ?thesis
    using assms(2)
    by (auto simp: in_region_def valid_entry_def region_contains_def SharedRegion_numEntries_def)
qed

lemma getId_in_region:
  assumes wf: "sr_wf M" and a: "in_region M i a"
  shows "SharedRegion_getId M a = word_of_nat i"
proof -
  have i: "i < length (sr_regions M)"
    using a by (simp add: in_region_def valid_entry_def SharedRegion_numEntries_def)
  have "\<not> region_contains (rg_entry (sr_regions M ! j)) a" if "j < i" for j
    using that i region_contains_in_region [OF wf, of j a] in_region_unique [OF wf a, of j] by auto
  then have "SharedRegion_getId_loop (sr_regions M) 0 a = word_of_nat (0 + i)"
    using i region_contains_in_region [OF wf i] a by (intro getId_loop_hit) auto
  then show ?thesis by (simp add: SharedRegion_getId_def)
qed

lemma getId_not_in_region:
  assumes wf: "sr_wf M" and a: "\<forall>i. \<not> in_region M i a"
  shows "SharedRegion_getId M a = SharedRegion_INVALIDREGIONID"
  using a region_contains_in_region [OF wf]
  by (auto simp: SharedRegion_getId_def intro: getId_loop_miss)

lemma unat_region_id:
  assumes "sr_wf M" and "i < SharedRegion_numEntries M"
  shows "unat (word_of_nat i :: u16) = i"
  using assms by (intro unat_of_nat_small) (simp add: sr_wf_def)

section \<open>Translation round trips\<close>

lemma bits_below:
  fixes w :: "'a::len word"
  assumes "unat w < 2 ^ n" and "bit w k"
  shows "k < n"
proof -
  have "unat (take_bit n w) = unat w"
    using assms(1) by (simp add: unsigned_take_bit_eq take_bit_nat_eq_self_iff)
  then have "take_bit n w = w" by (simp only: word_unat_eq_iff)
  with assms(2) show ?thesis by (metis bit_take_bit_iff)
qed

lemma srptr_decode:
  fixes x off :: "32 word"
  assumes n: "n < 32" and x: "unat x < 2 ^ (32 - n)" and off: "unat off < 2 ^ n"
  shows "drop_bit n (push_bit n x OR off) = x"
    and "(push_bit n x OR off) AND (2 ^ n - 1) = off"
proof -
  have nb: "\<not> bit off (n + k)" for k
    using bits_below [OF off, of "n + k"] by auto
  have xb: "bit x k \<Longrightarrow> n + k < 32" for k
    using bits_below [OF x, of k] by simp
  show "drop_bit n (push_bit n x OR off) = x"
    by (rule bit_word_eqI) (use nb xb in \<open>auto simp: bit_drop_bit_eq bit_or_iff bit_push_bit_iff\<close>)
  have ob: "bit off k \<Longrightarrow> k < n" for k
    using bits_below [OF off, of k] by simp
  have "take_bit n (push_bit n x OR off) = off"
    by (rule bit_word_eqI) (use ob in \<open>auto simp: bit_take_bit_iff bit_or_iff bit_push_bit_iff\<close>)
  then show "(push_bit n x OR off) AND (2 ^ n - 1) = off"
    by (simp add: take_bit_eq_mask mask_eq_exp_minus_1)
qed

text \<open>The \<open>SRPtr\<close> of an address of region \<open>i\<close>.\<close>

definition srptr_of :: "SharedRegion_Module \<Rightarrow> nat \<Rightarrow> ptr \<Rightarrow> srptr" where
  "srptr_of M i a =
     push_bit (sr_numOffsetBits M) (word_of_nat i) OR (a - re_base (rg_entry (sr_regions M ! i)))"

lemma in_region_offset:
  assumes "sr_wf M" and "in_region M i a"
  shows "unat (a - re_base (rg_entry (sr_regions M ! i))) < 2 ^ sr_numOffsetBits M"
    and "unat (word_of_nat i :: u32) < 2 ^ (32 - sr_numOffsetBits M)"
proof -
  let ?e = "rg_entry (sr_regions M ! i)"
  have "unat (a - re_base ?e) = unat a - unat (re_base ?e)"
    using assms(2) by (intro unat_minus_le) (simp add: in_region_def word_le_nat_alt)
  moreover have "unat (re_len ?e) \<le> 2 ^ sr_numOffsetBits M"
    using assms by (auto simp: sr_wf_def in_region_def entry_fits_def)
  moreover have "unat a < unat (re_base ?e) + unat (re_len ?e)" "unat (re_base ?e) \<le> unat a"
    using assms(2) by (simp_all add: in_region_def)
  ultimately show "unat (a - re_base ?e) < 2 ^ sr_numOffsetBits M"
    by linarith
  have "i < 2 ^ 16" and "i < 2 ^ (32 - sr_numOffsetBits M)"
    using assms by (auto simp: sr_wf_def in_region_def valid_entry_def)
  then show "unat (word_of_nat i :: u32) < 2 ^ (32 - sr_numOffsetBits M)"
    by (simp add: unat_of_nat_small)
qed

lemma getSRPtr_in_region:
  assumes wf: "sr_wf M" and tr: "sr_translate M" and a: "in_region M i a" and nz: "a \<noteq> NULL"
  shows "SharedRegion_getSRPtr M a (word_of_nat i) = Ok (srptr_of M i a)"
proof -
  let ?e = "rg_entry (sr_regions M ! i)"
  have i: "i < SharedRegion_numEntries M" and e: "entry_fits (sr_numOffsetBits M) ?e"
    and valid: "valid_entry M i"
    using wf a by (auto simp: in_region_def valid_entry_def sr_wf_def)
  have "region_contains ?e a"
    using in_region_contains [OF wf valid] a by simp
  moreover have "(ucast (word_of_nat i :: u16) :: u32) = word_of_nat i"
    using wf i by (intro ucast_word_of_nat) (simp_all add: sr_wf_def)
  ultimately show ?thesis
    using tr nz i unat_region_id [OF wf i]
    by (simp add: SharedRegion_getSRPtr_def SharedRegion_numEntries_def srptr_of_def Let_def
        region_contains_def)
qed

lemma getPtr_srptr_of:
  assumes wf: "sr_wf M" and tr: "sr_translate M" and a: "in_region M i a"
    and enc: "srptr_of M i a \<noteq> SharedRegion_INVALIDSRPTR"
  shows "SharedRegion_getPtr M (srptr_of M i a) = Ok a"
proof -
  let ?e = "rg_entry (sr_regions M ! i)" and ?n = "sr_numOffsetBits M"
  have n: "?n < 32" and i: "i < SharedRegion_numEntries M" and v: "re_isValid ?e"
    and mask: "sr_offsetMask M = 2 ^ ?n - 1"
    using wf a by (auto simp: sr_wf_def in_region_def valid_entry_def)
  note dec = srptr_decode [OF n in_region_offset(2) [OF wf a] in_region_offset(1) [OF wf a]]
  have "(ucast (drop_bit ?n (srptr_of M i a)) :: u16) = word_of_nat i"
  proof -
    have i16: "i < 2 ^ 16" using wf i by (simp add: sr_wf_def)
    then show ?thesis
      unfolding srptr_of_def dec(1) by (intro ucast_word_of_nat) simp_all
  qed
  moreover have "(srptr_of M i a AND sr_offsetMask M) + re_base ?e = a"
    by (simp add: srptr_of_def dec(2) mask)
  ultimately show ?thesis
    using tr i v enc unat_region_id [OF wf i]
    by (simp add: SharedRegion_getPtr_def SharedRegion_numEntries_def Let_def)
qed

lemma srptr_of_invalid:
  assumes wf: "sr_wf M" and a: "in_region M i a"
    and enc: "srptr_of M i a = SharedRegion_INVALIDSRPTR"
  shows "Suc i = 2 ^ (32 - sr_numOffsetBits M)"
    and "unat a + 1 = unat (re_base (rg_entry (sr_regions M ! i))) + 2 ^ sr_numOffsetBits M"
proof -
  let ?e = "rg_entry (sr_regions M ! i)" and ?n = "sr_numOffsetBits M"
  have n: "?n < 32" using wf by (simp add: sr_wf_def)
  note dec = srptr_decode [OF n in_region_offset(2) [OF wf a] in_region_offset(1) [OF wf a]]
  have inv: "SharedRegion_INVALIDSRPTR = - 1"
    by (simp add: SharedRegion_INVALIDSRPTR_def)
  have i: "i < 2 ^ 16" "i < 2 ^ (32 - ?n)"
    using wf a by (auto simp: sr_wf_def in_region_def valid_entry_def)
  have "word_of_nat i = drop_bit ?n (- 1 :: u32)"
    using dec(1) enc unfolding srptr_of_def inv by metis
  also have "\<dots> = mask (32 - ?n)"
    by (rule bit_word_eqI) (auto simp: bit_drop_bit_eq bit_mask_iff)
  finally have "unat (word_of_nat i :: u32) = unat (mask (32 - ?n) :: u32)" by simp
  then have "i = 2 ^ (32 - ?n) - 1"
    using i by (simp add: unat_of_nat_small unat_mask)
  then show "Suc i = 2 ^ (32 - ?n)" by simp
  have "a - re_base ?e = mask ?n"
    using dec(2) enc unfolding srptr_of_def inv by (simp add: mask_eq_exp_minus_1)
  then have "unat (a - re_base ?e) = 2 ^ ?n - 1"
    using n by (simp add: unat_mask)
  moreover have "unat (a - re_base ?e) = unat a - unat (re_base ?e)"
    using a by (intro unat_minus_le) (simp add: in_region_def word_le_nat_alt)
  moreover have "unat (re_base ?e) \<le> unat a" using a by (simp add: in_region_def)
  moreover have "(1::nat) \<le> 2 ^ ?n" by simp
  ultimately show "unat a + 1 = unat (re_base ?e) + 2 ^ ?n" by linarith
qed

section \<open>Portable addresses\<close>

text \<open>
  An address is portable when its own \<open>SRPtr\<close> leads back to it, and its region can be asked
  whether it is cached: what the linked structures in shared memory need of their nodes.
\<close>

definition sr_enc :: "SharedRegion_Module \<Rightarrow> ptr \<Rightarrow> srptr" where
  "sr_enc M a = (case SharedRegion_getSRPtr M a (SharedRegion_getId M a) of
                   Ok p \<Rightarrow> p | Err _ \<Rightarrow> SharedRegion_INVALIDSRPTR)"

definition sr_cached :: "SharedRegion_Module \<Rightarrow> ptr \<Rightarrow> bool" where
  "sr_cached M a = (case SharedRegion_isCacheEnabled M (SharedRegion_getId M a) of
                      Ok c \<Rightarrow> c | Err _ \<Rightarrow> False)"

definition sr_portable :: "SharedRegion_Module \<Rightarrow> ptr \<Rightarrow> bool" where
  "sr_portable M a \<longleftrightarrow>
     a \<noteq> NULL \<and>
     SharedRegion_getSRPtr M a (SharedRegion_getId M a) = Ok (sr_enc M a) \<and>
     SharedRegion_getPtr M (sr_enc M a) = Ok a \<and>
     SharedRegion_isCacheEnabled M (SharedRegion_getId M a) = Ok (sr_cached M a)"

lemma sr_portableD:
  assumes "sr_portable M a"
  shows "a \<noteq> NULL"
    and "SharedRegion_getSRPtr M a (SharedRegion_getId M a) = Ok (sr_enc M a)"
    and "SharedRegion_getPtr M (sr_enc M a) = Ok a"
    and "SharedRegion_isCacheEnabled M (SharedRegion_getId M a) = Ok (sr_cached M a)"
  using assms by (simp_all add: sr_portable_def)

lemma sr_enc_inj: "sr_portable M a \<Longrightarrow> sr_portable M b \<Longrightarrow> sr_enc M a = sr_enc M b \<longleftrightarrow> a = b"
  by (metis res.inject(1) sr_portableD(3))

lemma sr_portable_in_region:
  assumes wf: "sr_wf M" and tr: "sr_translate M" and a: "in_region M i a" and nz: "a \<noteq> NULL"
    and enc: "srptr_of M i a \<noteq> SharedRegion_INVALIDSRPTR"
  shows "sr_portable M a" and "sr_enc M a = srptr_of M i a"
proof -
  note getId = getId_in_region [OF wf a]
  note sp = getSRPtr_in_region [OF wf tr a nz]
  show e: "sr_enc M a = srptr_of M i a"
    by (simp add: sr_enc_def getId sp)
  have "i < SharedRegion_numEntries M"
    using a by (simp add: in_region_def valid_entry_def)
  then have "\<exists>c. SharedRegion_isCacheEnabled M (word_of_nat i) = Ok c"
    using tr unat_region_id [OF wf]
    by (simp add: SharedRegion_isCacheEnabled_def SharedRegion_numEntries_def)
  then show "sr_portable M a"
    using nz e getPtr_srptr_of [OF wf tr a enc]
    by (auto simp: sr_portable_def getId sp sr_cached_def)
qed

text \<open>With translation off every non-null address is its own \<open>SRPtr\<close>.\<close>

lemma getId_bound:
  assumes "sr_wf M"
  shows "SharedRegion_getId M a = SharedRegion_INVALIDREGIONID \<or>
         unat (SharedRegion_getId M a) < SharedRegion_numEntries M"
proof (cases "\<exists>i. in_region M i a")
  case True
  then obtain i where i: "in_region M i a" by blast
  then show ?thesis
    using getId_in_region [OF assms i] unat_region_id [OF assms]
    by (auto simp: in_region_def valid_entry_def)
next
  case False
  then show ?thesis using getId_not_in_region [OF assms] by blast
qed

lemma sr_portable_untranslated:
  assumes wf: "sr_wf M" and "\<not> sr_translate M" and "a \<noteq> NULL"
  shows "sr_portable M a" and "sr_enc M a = a"
proof -
  show "sr_enc M a = a"
    using assms by (simp add: sr_enc_def SharedRegion_getSRPtr_def)
  moreover have "\<exists>c. SharedRegion_isCacheEnabled M (SharedRegion_getId M a) = Ok c"
    using getId_bound [OF wf, of a] assms(2)
    by (auto simp: SharedRegion_isCacheEnabled_def SharedRegion_numEntries_def)
  ultimately show "sr_portable M a"
    using assms
    by (auto simp: sr_portable_def SharedRegion_getSRPtr_def SharedRegion_getPtr_def sr_cached_def)
qed

end
