(* ===== verification/FreeList.thy ===== *)
theory FreeList
imports Main
begin

text \<open>
  The abstract allocator that \<open>HeapMemMP\<close> implements: a free list of intervals of natural
  numbers, sorted and coalesced, first-fit allocation with alignment, and freeing with joining.
  What it does is stated on the set of free cells.
\<close>

section \<open>Free lists\<close>

text \<open>
  \<open>fl_ok g lo hi fl\<close>: the blocks of \<open>fl\<close> are non-empty, aligned to the granularity
  \<open>g\<close>, within \<open>lo\<close> and \<open>hi\<close>, in order, and no two of them touch.
\<close>

fun fl_ok :: "nat \<Rightarrow> nat \<Rightarrow> nat \<Rightarrow> (nat \<times> nat) list \<Rightarrow> bool" where
  "fl_ok g lo hi [] = True"
| "fl_ok g lo hi ((a, n) # xs) \<longleftrightarrow>
     lo \<le> a \<and> 0 < n \<and> g dvd a \<and> g dvd n \<and> a + n \<le> hi \<and> fl_ok g (Suc (a + n)) hi xs"

definition fl_cells :: "(nat \<times> nat) list \<Rightarrow> nat set" where
  "fl_cells fl = (\<Union>(a, n) \<in> set fl. {a..<a + n})"

lemma fl_cells_simps [simp]:
  "fl_cells [] = {}"
  "fl_cells ((a, n) # xs) = {a..<a + n} \<union> fl_cells xs"
  "fl_cells (xs @ ys) = fl_cells xs \<union> fl_cells ys"
  by (auto simp: fl_cells_def)

lemma fl_ok_mono: "fl_ok g lo hi xs \<Longrightarrow> lo' \<le> lo \<Longrightarrow> fl_ok g lo' hi xs"
  by (cases xs) auto

lemma fl_ok_suffix: "fl_ok g lo hi (xs @ ys) \<Longrightarrow> fl_ok g lo hi ys"
proof (induction xs arbitrary: lo)
  case (Cons x xs)
  obtain a n where x: "x = (a, n)" by (cases x)
  have "fl_ok g (Suc (a + n)) hi ys" using Cons x by simp
  then show ?case by (rule fl_ok_mono) (use Cons.prems x in simp)
qed simp

lemma fl_ok_before:
  "fl_ok g lo hi (xs @ (a, n) # ys) \<Longrightarrow> (b, m) \<in> set xs \<Longrightarrow> b < a"
proof (induction xs arbitrary: lo)
  case (Cons x xs)
  obtain c l where x: "x = (c, l)" by (cases x)
  have ok: "fl_ok g (Suc (c + l)) hi (xs @ (a, n) # ys)" using Cons.prems(1) x by simp
  then have "Suc (c + l) \<le> a" using fl_ok_suffix [OF ok] by simp
  then show ?case using Cons.IH [OF ok] Cons.prems(2) x by auto
qed simp

lemma fl_cells_bounds: "fl_ok g lo hi xs \<Longrightarrow> c \<in> fl_cells xs \<Longrightarrow> lo \<le> c \<and> c < hi"
  by (induction g lo hi xs rule: fl_ok.induct) fastforce+

lemma fl_ok_member:
  "fl_ok g lo hi xs \<Longrightarrow> (a, n) \<in> set xs \<Longrightarrow> lo \<le> a \<and> 0 < n \<and> a + n \<le> hi \<and> g dvd a \<and> g dvd n"
  by (induction g lo hi xs rule: fl_ok.induct) auto

lemma fl_ok_distinct: "fl_ok g lo hi xs \<Longrightarrow> distinct (map fst xs)"
proof (induction g lo hi xs rule: fl_ok.induct)
  case (2 g lo hi a n xs)
  then show ?case using fl_ok_member [of g "Suc (a + n)" hi xs] by fastforce
qed simp

lemma fl_cells_card: "fl_ok g lo hi xs \<Longrightarrow> card (fl_cells xs) = sum_list (map snd xs)"
proof (induction g lo hi xs rule: fl_ok.induct)
  case (2 g lo hi a n xs)
  then have "{a..<a + n} \<inter> fl_cells xs = {}"
    using fl_cells_bounds [of g "Suc (a + n)" hi xs] by fastforce
  moreover have "finite (fl_cells xs)" by (auto simp: fl_cells_def)
  ultimately show ?case using 2 by (simp add: card_Un_disjoint)
qed simp

lemma fl_ok_length: "fl_ok g lo hi xs \<Longrightarrow> length xs \<le> card (fl_cells xs)"
proof -
  assume ok: "fl_ok g lo hi xs"
  have "length ys \<le> sum_list (map snd ys)" if "fl_ok g lo hi ys" for lo ys
    using that by (induction g lo hi ys rule: fl_ok.induct) auto
  then show ?thesis using fl_cells_card [OF ok] ok by metis
qed

text \<open>
  The free list is determined by its cells: sorted, coalesced lists are a canonical form.
\<close>

lemma fl_cells_empty: "fl_ok g lo hi xs \<Longrightarrow> fl_cells xs = {} \<Longrightarrow> xs = []"
  by (cases xs) auto

lemma fl_first_cell:
  assumes "fl_ok g lo hi ((a, n) # xs)"
  shows "a \<in> fl_cells ((a, n) # xs)" and "c \<in> fl_cells ((a, n) # xs) \<Longrightarrow> a \<le> c"
    and "a + n \<notin> fl_cells ((a, n) # xs)"
  using assms fl_cells_bounds [of g "Suc (a + n)" hi xs] by fastforce+

lemma fl_canonical:
  assumes "fl_ok g lo hi xs" and "fl_ok g' lo' hi' ys" and "fl_cells xs = fl_cells ys"
  shows "xs = ys"
  using assms
proof (induction g lo hi xs arbitrary: lo' ys rule: fl_ok.induct)
  case (1 g lo hi)
  then show ?case by (metis fl_cells_empty fl_cells_simps(1))
next
  case (2 g lo hi a n xs)
  show ?case
  proof (cases ys)
    case Nil
    then show ?thesis using 2 by auto
  next
    case (Cons y ys')
    obtain b m where y: "y = (b, m)" by (cases y)
    note X = fl_first_cell [OF 2(2)] and Y = fl_first_cell [OF 2(3) [unfolded Cons y]]
    have eq: "fl_cells ((a, n) # xs) = fl_cells ((b, m) # ys')" using 2(4) Cons y by simp
    have ab: "a = b" using X(1,2) Y(1,2) eq by (metis le_antisym)
    have "n = m"
    proof (rule ccontr)
      assume "n \<noteq> m"
      then consider "a + n < a + m" | "a + m < a + n" by linarith
      then show False
        using X(3) Y(3) eq ab 2(2,3) by cases auto
    qed
    have "fl_cells xs = fl_cells ((a, n) # xs) - {a..<a + n}"
      using 2(2) fl_cells_bounds [of g "Suc (a + n)" hi xs] by fastforce
    moreover have "fl_cells ys' = fl_cells ((b, m) # ys') - {b..<b + m}"
      using 2(3) fl_cells_bounds [of g' "Suc (b + m)" hi' ys'] unfolding Cons y by fastforce
    ultimately have "fl_cells xs = fl_cells ys'" using eq ab \<open>n = m\<close> by simp
    then have "xs = ys'" using 2 Cons y by auto
    with ab \<open>n = m\<close> Cons y show ?thesis by simp
  qed
qed

section \<open>Allocation\<close>

text \<open>The distance from an address to the next aligned one.\<close>

definition align_gap :: "nat \<Rightarrow> nat \<Rightarrow> nat" where
  "align_gap al a = (if a mod al = 0 then 0 else al - a mod al)"

lemma align_gap_dvd: "0 < al \<Longrightarrow> al dvd a + align_gap al a"
proof -
  assume al: "0 < al"
  show ?thesis
  proof (cases "a mod al = 0")
    case False
    have "a + align_gap al a = al * (a div al) + al"
      using mult_div_mod_eq [of al a] mod_less_divisor [OF al, of a]
      by (simp only: align_gap_def False if_False)
    then show ?thesis by simp
  qed (auto simp: align_gap_def)
qed

lemma align_gap_least:
  assumes "0 < al" and "al dvd p" and "a \<le> p"
  shows "a + align_gap al a \<le> p"
proof (cases "a mod al = 0")
  case False
  have less: "a mod al < al" using assms(1) by simp
  obtain k where k: "p = al * k" using assms(2) by blast
  have "al * (a div al) < p"
    using assms(3) False mult_div_mod_eq [of al a] by linarith
  then have "a div al < k" unfolding k by simp
  then have "al * Suc (a div al) \<le> p" unfolding k by (intro mult_le_mono2) simp
  then have "al * (a div al) + al \<le> p" by simp
  then show ?thesis
    using less mult_div_mod_eq [of al a] by (simp only: align_gap_def False if_False)
qed (use assms in \<open>simp add: align_gap_def\<close>)

lemma align_gap_granular: "g dvd al \<Longrightarrow> g dvd a \<Longrightarrow> g dvd align_gap al a"
  by (auto simp: align_gap_def dvd_mod intro: dvd_diff_nat)

fun ff_alloc :: "nat \<Rightarrow> nat \<Rightarrow> (nat \<times> nat) list \<Rightarrow> (nat \<times> (nat \<times> nat) list) option" where
  "ff_alloc sz al [] = None"
| "ff_alloc sz al ((a, n) # xs) =
     (let off = align_gap al a in
      if sz + off \<le> n
      then Some (a + off,
                 (if off = 0 then [] else [(a, off)]) @
                 (if n - sz - off = 0 then [] else [(a + off + sz, n - sz - off)]) @ xs)
      else map_option (\<lambda>(p, ys). (p, (a, n) # ys)) (ff_alloc sz al xs))"

text \<open>The block found is free, aligned, and what stays free is the rest, again in order.\<close>

lemma ff_alloc_Some:
  assumes "fl_ok g lo hi xs" and "ff_alloc sz al xs = Some (p, ys)"
    and "0 < al" and "g dvd al" and "0 < sz" and "g dvd sz"
  shows "fl_ok g lo hi ys \<and> al dvd p \<and> lo \<le> p \<and> p + sz \<le> hi \<and>
    {p..<p + sz} \<subseteq> fl_cells xs \<and> fl_cells ys = fl_cells xs - {p..<p + sz}"
  using assms
proof (induction g lo hi xs arbitrary: ys rule: fl_ok.induct)
  case (1 g lo hi)
  then show ?case by simp
next
  case (2 g lo hi a n xs)
  let ?off = "align_gap al a"
  have ok: "fl_ok g (Suc (a + n)) hi xs" and a: "g dvd a" "g dvd n" "lo \<le> a" "a + n \<le> hi"
    using 2(2) by auto
  have above: "c \<in> fl_cells xs \<Longrightarrow> a + n < c" for c using fl_cells_bounds [OF ok] by fastforce
  have off: "g dvd ?off" using align_gap_granular 2 a(1) by blast
  have ald: "al dvd a + ?off" using align_gap_dvd 2 by blast
  show ?case
  proof (cases "sz + ?off \<le> n")
    case True
    then have p: "p = a + ?off" and ys: "ys = (if ?off = 0 then [] else [(a, ?off)]) @
        (if n - sz - ?off = 0 then [] else [(a + ?off + sz, n - sz - ?off)]) @ xs"
      using 2(3) by (simp_all add: Let_def)
    have "g dvd n - sz - ?off" and "g dvd a + ?off + sz"
      using a off 2 by (auto intro: dvd_diff_nat)
    then have "fl_ok g lo hi ys"
      using True ok a off 2 fl_ok_mono [OF ok] by (auto simp: ys)
    moreover have "{p..<p + sz} \<subseteq> fl_cells ((a, n) # xs)"
      using True by (auto simp: p)
    moreover have "fl_cells ys = fl_cells ((a, n) # xs) - {p..<p + sz}"
      using True above unfolding ys p by (auto split: if_splits) (fastforce dest: above)+
    ultimately show ?thesis using True a ald p by simp
  next
    case False
    then obtain zs where zs: "ff_alloc sz al xs = Some (p, zs)" "ys = (a, n) # zs"
      using 2(3) by (auto simp: Let_def)
    have IH: "fl_ok g (Suc (a + n)) hi zs \<and> al dvd p \<and> Suc (a + n) \<le> p \<and> p + sz \<le> hi \<and>
        {p..<p + sz} \<subseteq> fl_cells xs \<and> fl_cells zs = fl_cells xs - {p..<p + sz}"
      using 2(1) [OF ok zs(1)] 2 by blast
    then have "fl_cells ys = fl_cells ((a, n) # xs) - {p..<p + sz}"
      unfolding zs(2) by fastforce
    then show ?thesis using IH 2(2) a zs(2) by auto
  qed
qed

text \<open>An allocation fails only when no aligned run of free cells is long enough.\<close>

lemma ff_alloc_None:
  assumes "fl_ok g lo hi xs" and "ff_alloc sz al xs = None" and "0 < al" and "0 < sz"
    and "al dvd p"
  shows "\<not> {p..<p + sz} \<subseteq> fl_cells xs"
  using assms
proof (induction g lo hi xs rule: fl_ok.induct)
  case (1 g lo hi)
  then show ?case by simp
next
  case (2 g lo hi a n xs)
  have ok: "fl_ok g (Suc (a + n)) hi xs" using 2(2) by simp
  have nofit: "n < sz + align_gap al a" and none: "ff_alloc sz al xs = None"
    using 2(3) by (auto simp: Let_def split: if_splits)
  have IH: "\<not> {p..<p + sz} \<subseteq> fl_cells xs" using 2(1) [OF ok none] 2 by blast
  show ?case
  proof
    assume sub: "{p..<p + sz} \<subseteq> fl_cells ((a, n) # xs)"
    note F = fl_first_cell [OF 2(2)]
    have "p \<in> {p..<p + sz}" using 2(5) by simp
    then have "a \<le> p" using sub F(2) by blast
    then have "a + align_gap al a \<le> p" using align_gap_least 2 by blast
    then have beyond: "a + n < p + sz" using nofit by linarith
    show False
    proof (cases "p \<le> a + n")
      case True
      then have "a + n \<in> {p..<p + sz}" using beyond by simp
      then show False using sub F(3) by blast
    next
      case False
      then have "{p..<p + sz} \<subseteq> fl_cells xs" using sub by fastforce
      then show False using IH by blast
    qed
  qed
qed

section \<open>Freeing\<close>

text \<open>The freed block joins the block that ends where it begins and the one it touches.\<close>

fun ff_free :: "nat \<Rightarrow> nat \<Rightarrow> (nat \<times> nat) list \<Rightarrow> (nat \<times> nat) list" where
  "ff_free p n [] = [(p, n)]"
| "ff_free p n ((a, m) # xs) =
     (if a < p then
        (if a + m = p then
           (case xs of
              (b, k) # ys \<Rightarrow> if p + n = b then (a, m + n + k) # ys else (a, m + n) # xs
            | [] \<Rightarrow> [(a, m + n)])
         else (a, m) # ff_free p n xs)
      else if p + n = a then (p, n + m) # xs
      else (p, n) # (a, m) # xs)"

lemma ff_free_ok:
  assumes "fl_ok g lo hi xs" and "lo \<le> p" and "0 < n" and "p + n \<le> hi"
    and "g dvd p" and "g dvd n" and "{p..<p + n} \<inter> fl_cells xs = {}"
  shows "fl_ok g lo hi (ff_free p n xs) \<and> fl_cells (ff_free p n xs) = fl_cells xs \<union> {p..<p + n}"
  using assms
proof (induction g lo hi xs rule: fl_ok.induct)
  case (1 g lo hi)
  then show ?case by simp
next
  case (2 g lo hi a m xs)
  have ok: "fl_ok g (Suc (a + m)) hi xs" and a: "lo \<le> a" "0 < m" "g dvd a" "g dvd m" "a + m \<le> hi"
    using 2(2) by auto
  have disj: "{p..<p + n} \<inter> {a..<a + m} = {}" "{p..<p + n} \<inter> fl_cells xs = {}"
    using 2(8) unfolding fl_cells_simps by blast+
  show ?case
  proof (cases "a < p")
    case False
    have "a \<in> {a..<a + m}" using a(2) by simp
    then have "a \<notin> {p..<p + n}" using disj(1) by blast
    then have le: "p + n \<le> a" using False by simp
    show ?thesis
      using False le ok a 2(3-7) by (cases "p + n = a") (auto simp: add.assoc)
  next
    case True
    have "p \<in> {p..<p + n}" using 2(4) by simp
    then have "p \<notin> {a..<a + m}" using disj(1) by blast
    then have le: "a + m \<le> p" using True by simp
    show ?thesis
    proof (cases "a + m = p")
      case False
      then have "fl_ok g (Suc (a + m)) hi (ff_free p n xs) \<and>
          fl_cells (ff_free p n xs) = fl_cells xs \<union> {p..<p + n}"
        using 2(1) [OF ok] le 2(4-7) disj(2) by simp
      then show ?thesis using True False a by auto
    next
      case join: True
      show ?thesis
      proof (cases xs)
        case Nil
        then show ?thesis using True join a 2(3-7) by auto
      next
        case (Cons b ys)
        obtain b' k where b: "b = (b', k)" by (cases b)
        have b': "Suc (a + m) \<le> b'" "0 < k" "g dvd b'" "g dvd k" "b' + k \<le> hi"
          "fl_ok g (Suc (b' + k)) hi ys"
          using ok Cons b by auto
        have "b' \<in> fl_cells xs" using Cons b b'(2) by simp
        then have "b' \<notin> {p..<p + n}" using disj(2) by blast
        then have "p + n \<le> b'" using b'(1) join by simp
        then show ?thesis
          using True join a 2(3-7) Cons b b' by (cases "p + n = b'") (auto simp: add.assoc)
      qed
    qed
  qed
qed

text \<open>Freeing what was just allocated restores the free list.\<close>

lemma ff_free_alloc:
  assumes "fl_ok g lo hi xs" and "ff_alloc sz al xs = Some (p, ys)"
    and "0 < al" and "g dvd al" and "0 < sz" and "g dvd sz"
  shows "ff_free p sz ys = xs"
proof -
  note A = ff_alloc_Some [OF assms]
  have "g dvd p" using A assms(4) dvd_trans by blast
  moreover have "{p..<p + sz} \<inter> fl_cells ys = {}" using A by auto
  ultimately have "fl_ok g lo hi (ff_free p sz ys) \<and>
      fl_cells (ff_free p sz ys) = fl_cells ys \<union> {p..<p + sz}"
    using A assms by (intro ff_free_ok) auto
  moreover have "fl_cells ys \<union> {p..<p + sz} = fl_cells xs" using A by auto
  ultimately show ?thesis using fl_canonical assms(1) by metis
qed

text \<open>
  The same by the place of the freed block: \<open>us\<close> lies below it, \<open>vs\<close> above.
\<close>

definition join_right :: "nat \<Rightarrow> nat \<Rightarrow> (nat \<times> nat) list \<Rightarrow> nat \<times> (nat \<times> nat) list" where
  "join_right p n vs =
     (case vs of (b, k) # ys \<Rightarrow> if p + n = b then (n + k, ys) else (n, vs) | [] \<Rightarrow> (n, []))"

lemma ff_free_split:
  assumes "fl_ok g lo hi (us @ vs)" and "\<forall>(a, m) \<in> set us. a < p"
    and "case vs of [] \<Rightarrow> True | (b, k) # _ \<Rightarrow> p \<le> b" and "0 < n"
    and "join_right p n vs = (n', ys)"
  shows "ff_free p n (us @ vs) =
    (if us \<noteq> [] \<and> fst (last us) + snd (last us) = p
     then butlast us @ (fst (last us), snd (last us) + n') # ys
     else us @ (p, n') # ys)"
  using assms
proof (induction us arbitrary: lo)
  case Nil
  then show ?case by (cases vs) (auto simp: join_right_def split: if_splits)
next
  case (Cons u us)
  obtain a m where u: "u = (a, m)" by (cases u)
  show ?case
  proof (cases us)
    case Nil
    then show ?thesis
      using Cons.prems u by (cases vs) (auto simp: join_right_def add.assoc split: if_splits)
  next
    case (Cons v us')
    obtain b k where v: "v = (b, k)" by (cases v)
    have "a + m \<noteq> p" using Cons.prems Cons u v by auto
    moreover have "ff_free p n (us @ vs) =
      (if us \<noteq> [] \<and> fst (last us) + snd (last us) = p
       then butlast us @ (fst (last us), snd (last us) + n') # ys
       else us @ (p, n') # ys)"
      using Cons.prems u by (intro Cons.IH [of "Suc (a + m)"]) auto
    ultimately show ?thesis using Cons.prems(2) u Cons by auto
  qed
qed

end
