(* ===== verification/Heaps.thy ===== *)
theory Heaps
imports IPC_Prelude
begin

text \<open>
  The contract of the heaps (\<open>IHeap\<close>): what allocating and freeing promise about the blocks
  that are in use, over any state, and what a client that allocates and frees may conclude.
  \<open>HeapMemMP\<close> and \<open>HeapBufMP\<close> interpret it.
\<close>

section \<open>Clients\<close>

text \<open>
  A client allocates, or frees one of the blocks it holds, by its place in the list of them; a
  place it does not have it leaves alone. A failing allocation gives it nothing.
\<close>

datatype heap_op = Alloc sizeT sizeT | Free nat

fun heap_client ::
  "(sizeT \<Rightarrow> sizeT \<Rightarrow> 's \<Rightarrow> (ptr \<times> 's) res) \<Rightarrow> (ptr \<Rightarrow> sizeT \<Rightarrow> 's \<Rightarrow> 's res) \<Rightarrow>
   heap_op list \<Rightarrow> (ptr \<times> sizeT) list \<Rightarrow> 's \<Rightarrow> ((ptr \<times> sizeT) list \<times> 's) res" where
  "heap_client alloc free [] held s = Ok (held, s)"
| "heap_client alloc free (Alloc n al # ops) held s =
     res_bind (alloc n al s) (\<lambda>(p, s').
       heap_client alloc free ops (if p = NULL then held else (p, n) # held) s')"
| "heap_client alloc free (Free i # ops) held s =
     (if i < length held
      then res_bind (free (fst (held ! i)) (snd (held ! i)) s) (\<lambda>s'.
             heap_client alloc free ops (take i held @ drop (Suc i) held) s')
      else heap_client alloc free ops held s)"

fun heap_op_ok :: "(sizeT \<Rightarrow> sizeT \<Rightarrow> bool) \<Rightarrow> heap_op \<Rightarrow> bool" where
  "heap_op_ok req (Alloc n al) = req n al"
| "heap_op_ok req (Free i) = True"

text \<open>The bytes of a block, and blocks that do not overlap.\<close>

definition block_bytes :: "ptr \<times> sizeT \<Rightarrow> nat set" where
  "block_bytes b = {unat (fst b)..<unat (fst b) + unat (snd b)}"

definition blocks_apart :: "(ptr \<times> sizeT) list \<Rightarrow> bool" where
  "blocks_apart bs \<longleftrightarrow>
     (\<forall>i j. i < length bs \<longrightarrow> j < length bs \<longrightarrow> i \<noteq> j \<longrightarrow>
        fst (bs ! i) \<noteq> fst (bs ! j) \<and> block_bytes (bs ! i) \<inter> block_bytes (bs ! j) = {})"

section \<open>The contract\<close>

text \<open>
  \<open>inv s L\<close>: the heap is in order and the blocks of \<open>L\<close> are in use, each given by its
  address and the size it was asked for; \<open>req\<close> says which requests the contract covers.
\<close>

locale block_heap =
  fixes inv :: "'s \<Rightarrow> (ptr \<times> sizeT) set \<Rightarrow> bool"
    and req :: "sizeT \<Rightarrow> sizeT \<Rightarrow> bool"
    and alloc :: "sizeT \<Rightarrow> sizeT \<Rightarrow> 's \<Rightarrow> (ptr \<times> 's) res"
    and free :: "ptr \<Rightarrow> sizeT \<Rightarrow> 's \<Rightarrow> 's res"
  assumes alloc_gives: "inv s L \<Longrightarrow> req n al \<Longrightarrow>
      \<exists>p s'. alloc n al s = Ok (p, s') \<and>
        (p = NULL \<and> inv s' L \<or>
         p \<noteq> NULL \<and> unat p mod unat al = 0 \<and> p \<notin> fst ` L \<and> inv s' (insert (p, n) L))"
    and free_takes: "inv s L \<Longrightarrow> (p, n) \<in> L \<Longrightarrow>
      \<exists>s'. free p n s = Ok s' \<and> inv s' (L - {(p, n)})"
    and apart: "inv s L \<Longrightarrow> b \<in> L \<Longrightarrow> c \<in> L \<Longrightarrow> b \<noteq> c \<Longrightarrow>
      fst b \<noteq> fst c \<and> block_bytes b \<inter> block_bytes c = {}"
begin

lemma held_apart:
  assumes "inv s (set held)" and "distinct held"
  shows "blocks_apart held"
  unfolding blocks_apart_def using apart [OF assms(1) nth_mem nth_mem] assms(2)
  by (simp add: nth_eq_iff_index_eq)

text \<open>
  Whatever a client does, no call goes wrong, and the blocks it holds are in use and apart.
\<close>

lemma client_run:
  assumes "inv s (set held)" and "distinct held" and "\<forall>op \<in> set ops. heap_op_ok req op"
  shows "\<exists>held' s'. heap_client alloc free ops held s = Ok (held', s') \<and>
    inv s' (set held') \<and> distinct held' \<and> blocks_apart held'"
  using assms
proof (induction ops arbitrary: held s)
  case Nil
  then show ?case using held_apart by simp
next
  case (Cons op ops)
  show ?case
  proof (cases op)
    case (Alloc n al)
    then have "req n al" using Cons.prems(3) by simp
    then obtain p s1 where p: "alloc n al s = Ok (p, s1)"
      "p = NULL \<and> inv s1 (set held) \<or>
       p \<noteq> NULL \<and> p \<notin> fst ` set held \<and> inv s1 (insert (p, n) (set held))"
      using alloc_gives [OF Cons.prems(1)] by metis
    let ?held = "if p = NULL then held else (p, n) # held"
    have "inv s1 (set ?held)" "distinct ?held" using p(2) Cons.prems(2) by (auto simp: image_def)
    then show ?thesis using Cons.IH [of s1 ?held] Cons.prems(3) p(1) Alloc by simp
  next
    case (Free i)
    show ?thesis
    proof (cases "i < length held")
      case True
      let ?held = "take i held @ drop (Suc i) held"
      have held: "held = take i held @ held ! i # drop (Suc i) held"
        using True by (rule id_take_nth_drop)
      have mem: "(fst (held ! i), snd (held ! i)) \<in> set held" using True by simp
      obtain s1 where s1: "free (fst (held ! i)) (snd (held ! i)) s = Ok s1"
        "inv s1 (set held - {held ! i})"
        using free_takes [OF Cons.prems(1) mem] by auto
      have "distinct (take i held @ held ! i # drop (Suc i) held)"
        using held Cons.prems(2) by simp
      then have d: "distinct ?held" "held ! i \<notin> set ?held" by auto
      have "set held = insert (held ! i) (set ?held)" by (subst held) auto
      then have "set held - {held ! i} = set ?held" using d(2) by blast
      then show ?thesis using Cons.IH [of s1 ?held] Cons.prems(3) s1 d(1) True Free by simp
    next
      case False
      then show ?thesis using Cons Free by simp
    qed
  qed
qed

end

end
