(* ===== verification/HeapMemMP.thy ===== *)
theory HeapMemMP
imports SharedRegion FreeList Heaps
begin

text \<open>
  The variable-size heap of \<open>ti/sdo/ipc/heaps/HeapMemMP.c\<close>: a first-fit allocator over a
  chain of free blocks in shared memory, each beginning with a header that holds its size and the
  \<open>SRPtr\<close> of the next. The theory has the operations, an abstract first-fit allocator on
  lists of intervals, and the proof that the operations implement it.
\<close>

section \<open>State\<close>

record HeapMemMP_Header =
  mh_next :: srptr
  mh_size :: u32

text \<open>The attributes, less the header \<open>head\<close> that lies 8 bytes into them.\<close>

record HeapMemMP_Attrs =
  ma_status :: u32
  ma_bufPtr :: srptr
  ma_gateMPAddr :: srptr

abbreviation sizeof_HeapMemMP_Header :: sizeT where "sizeof_HeapMemMP_Header \<equiv> 8"
abbreviation sizeof_HeapMemMP_Attrs :: sizeT where "sizeof_HeapMemMP_Attrs \<equiv> 20"

definition HeapMemMP_CREATED :: u32 where
  "HeapMemMP_CREATED = 0x07041776"

record mm_mem =
  mm_hdr :: "ptr \<Rightarrow> HeapMemMP_Header"
  mm_attrs :: "ptr \<Rightarrow> HeapMemMP_Attrs"
  mm_log :: "ipc_event list"

record HeapMemMP_Object =
  mo_attrs :: ptr
  mo_gate :: ptr
  mo_objType :: Ipc_ObjType
  mo_nsKey :: ptr
  mo_cacheEnabled :: bool
  mo_regionId :: u16
  mo_allocSize :: sizeT
  mo_buf :: ptr
  mo_minAlign :: sizeT
  mo_bufSize :: sizeT

record HeapMemMP_Params =
  mp_gate :: ptr
  mp_openFlag :: bool
  mp_sharedAddr :: ptr
  mp_name :: "string option"
  mp_regionId :: u16
  mp_sharedBufSize :: sizeT

datatype HeapMemMP_status = HeapMemMP_S_SUCCESS | HeapMemMP_E_FAIL | HeapMemMP_E_NOTFOUND

record Heap_Stats =
  hs_totalSize :: sizeT
  hs_totalFreeSize :: sizeT
  hs_largestFreeSize :: sizeT

definition HeapMemMP_head :: "HeapMemMP_Object \<Rightarrow> ptr" where
  "HeapMemMP_head obj = mo_attrs obj + 8"

definition mm_ev :: "ipc_event \<Rightarrow> mm_mem \<Rightarrow> mm_mem" where
  "mm_ev e s = s\<lparr>mm_log := e # mm_log s\<rparr>"

definition mm_if :: "bool \<Rightarrow> ipc_event \<Rightarrow> mm_mem \<Rightarrow> mm_mem" where
  "mm_if c e s = (if c then mm_ev e s else s)"

definition set_hnext :: "ptr \<Rightarrow> srptr \<Rightarrow> mm_mem \<Rightarrow> mm_mem" where
  "set_hnext a v s =
     mm_ev (Mem_write a) (s\<lparr>mm_hdr := (mm_hdr s)(a := (mm_hdr s a)\<lparr>mh_next := v\<rparr>)\<rparr>)"

definition set_hsize :: "ptr \<Rightarrow> u32 \<Rightarrow> mm_mem \<Rightarrow> mm_mem" where
  "set_hsize a v s =
     mm_ev (Mem_write a) (s\<lparr>mm_hdr := (mm_hdr s)(a := (mm_hdr s a)\<lparr>mh_size := v\<rparr>)\<rparr>)"

section \<open>Allocating\<close>

text \<open>Rounding a request up to the heap's alignment, in 32 bits.\<close>

definition adjust_size :: "HeapMemMP_Object \<Rightarrow> sizeT \<Rightarrow> sizeT" where
  "adjust_size obj n =
     (let offset = n AND (mo_minAlign obj - 1) in
      if offset \<noteq> 0 then n + (mo_minAlign obj - offset) else n)"

definition adjust_align :: "HeapMemMP_Object \<Rightarrow> sizeT \<Rightarrow> sizeT" where
  "adjust_align obj al = (if al AND (mo_minAlign obj - 1) \<noteq> 0 then mo_minAlign obj else al)"

text \<open>
  Taking a block of \<open>adjSize\<close> out of the free block \<open>cur\<close>, \<open>offset\<close> bytes into it:
  what is left before and after it stays on the chain.
\<close>

definition HeapMemMP_carve ::
  "SharedRegion_Module \<Rightarrow> HeapMemMP_Object \<Rightarrow> sizeT \<Rightarrow> sizeT \<Rightarrow> ptr \<Rightarrow> ptr \<Rightarrow> mm_mem \<Rightarrow>
   (ptr \<times> mm_mem) res" where
  "HeapMemMP_carve M obj adjSize offset prev cur s =
     (let allocAddr = cur + offset;
          remainSize = mh_size (mm_hdr s cur) - adjSize - offset;
          new = allocAddr + adjSize;
          wb = (\<lambda>a. mm_if (mo_cacheEnabled obj) (Cache_wbInv a sizeof_HeapMemMP_Header)) in
      Assert_isTrue (sr_asserts M) (remainSize AND (mo_minAlign obj - 1) = 0) A_internal (
      if offset \<noteq> 0 then
        let s1 = set_hsize cur offset s in
        if remainSize \<noteq> 0 then
          let s2 = wb new (set_hsize new remainSize
                     (set_hnext new (mh_next (mm_hdr s1 cur)) s1)) in
          res_bind (SharedRegion_getSRPtr M new (mo_regionId obj)) (\<lambda>p.
          Ok (allocAddr, wb cur (set_hnext cur p s2)))
        else Ok (allocAddr, wb cur s1)
      else
        if remainSize \<noteq> 0 then
          let s2 = wb new (set_hsize new remainSize
                     (set_hnext new (mh_next (mm_hdr s cur)) s)) in
          res_bind (SharedRegion_getSRPtr M new (mo_regionId obj)) (\<lambda>p.
          Ok (allocAddr, wb prev (set_hnext prev p s2)))
        else Ok (allocAddr, wb prev (set_hnext prev (mh_next (mm_hdr s cur)) s))))"

text \<open>The search: the first block that is large enough. \<open>NULL\<close> when there is none.\<close>

fun HeapMemMP_alloc_loop ::
  "SharedRegion_Module \<Rightarrow> HeapMemMP_Object \<Rightarrow> sizeT \<Rightarrow> sizeT \<Rightarrow> nat \<Rightarrow> ptr \<Rightarrow> ptr \<Rightarrow> mm_mem \<Rightarrow>
   (ptr \<times> mm_mem) res" where
  "HeapMemMP_alloc_loop M obj adjSize adjAlign 0 prev cur s = Err Out_of_fuel"
| "HeapMemMP_alloc_loop M obj adjSize adjAlign (Suc n) prev cur s =
     (if cur = NULL then Ok (NULL, s)
      else
        let s1 = mm_if (mo_cacheEnabled obj) (Cache_inv cur sizeof_HeapMemMP_Header) s;
            curSize = mh_size (mm_hdr s1 cur);
            off = cur AND (adjAlign - 1);
            offset = (if off \<noteq> 0 then adjAlign - off else off) in
        Assert_isTrue (sr_asserts M) (offset AND (mo_minAlign obj - 1) = 0) A_internal (
        if adjSize + offset \<le> curSize then HeapMemMP_carve M obj adjSize offset prev cur s1
        else
          res_bind (SharedRegion_getPtr M (mh_next (mm_hdr s1 cur))) (\<lambda>nxt.
          HeapMemMP_alloc_loop M obj adjSize adjAlign n cur nxt s1)))"

text \<open>
  The answer \<open>NULL\<close> goes with the error \<open>E_memory\<close>, the only one the function raises.
\<close>

definition HeapMemMP_alloc ::
  "SharedRegion_Module \<Rightarrow> nat \<Rightarrow> HeapMemMP_Object \<Rightarrow> sizeT \<Rightarrow> sizeT \<Rightarrow> mm_mem \<Rightarrow>
   (ptr \<times> mm_mem) res" where
  "HeapMemMP_alloc M fuel obj reqSize reqAlign s =
     Assert_isTrue (sr_asserts M) (reqAlign AND (reqAlign - 1) = 0) A_align (
     Assert_isTrue (sr_asserts M) (reqSize \<noteq> 0) A_zeroBlock (
       let adjSize = adjust_size obj reqSize;
           adjAlign = adjust_align obj reqAlign;
           prev = HeapMemMP_head obj;
           s1 = mm_if (mo_cacheEnabled obj) (Cache_inv prev sizeof_HeapMemMP_Header)
                  (mm_ev (Gate_enter (mo_gate obj)) s) in
       res_bind (SharedRegion_getPtr M (mh_next (mm_hdr s1 prev))) (\<lambda>cur.
       res_bind (HeapMemMP_alloc_loop M obj adjSize adjAlign fuel prev cur s1) (\<lambda>(p, s2).
       Ok (p, mm_ev (Gate_leave (mo_gate obj)) s2)))))"

section \<open>Freeing\<close>

text \<open>The search for the last free block below the freed one: it and its successor.\<close>

fun HeapMemMP_free_loop ::
  "SharedRegion_Module \<Rightarrow> HeapMemMP_Object \<Rightarrow> ptr \<Rightarrow> nat \<Rightarrow> ptr \<Rightarrow> ptr \<Rightarrow> mm_mem \<Rightarrow>
   (ptr \<times> ptr \<times> mm_mem) res" where
  "HeapMemMP_free_loop M obj new 0 cur nxt s = Err Out_of_fuel"
| "HeapMemMP_free_loop M obj new (Suc n) cur nxt s =
     (if nxt \<noteq> NULL \<and> nxt < new then
        let s1 = mm_if (mo_cacheEnabled obj) (Cache_inv nxt sizeof_HeapMemMP_Header) s in
        Assert_isTrue (sr_asserts M) (nxt + mh_size (mm_hdr s1 nxt) \<le> new) A_invalidFree (
        res_bind (SharedRegion_getPtr M (mh_next (mm_hdr s1 nxt))) (\<lambda>nxt'.
        HeapMemMP_free_loop M obj new n nxt nxt' s1))
      else Ok (cur, nxt, s))"

text \<open>
  Joining the freed block with its successor when it touches it; the answer is the number of bytes
  to invalidate.
\<close>

definition HeapMemMP_join_next ::
  "SharedRegion_Module \<Rightarrow> HeapMemMP_Object \<Rightarrow> ptr \<Rightarrow> sizeT \<Rightarrow> ptr \<Rightarrow> mm_mem \<Rightarrow>
   (sizeT \<times> mm_mem) res" where
  "HeapMemMP_join_next M obj new sz nxt s =
     (if nxt \<noteq> NULL then
        Assert_isTrue (sr_asserts M) (new + sz \<le> nxt) A_invalidFree (
        Ok (if new + sz = nxt then
              let s1 = mm_if (mo_cacheEnabled obj) (Cache_inv nxt sizeof_HeapMemMP_Header) s;
                  s2 = set_hnext new (mh_next (mm_hdr s1 nxt)) s1;
                  s3 = set_hsize new (mh_size (mm_hdr s2 new) + mh_size (mm_hdr s2 nxt)) s2 in
              (sz + mo_minAlign obj, s3)
            else (sz, s)))
      else Ok (sz, s))"

text \<open>Joining it with the block \<open>cur\<close> before it, unless that is the head.\<close>

definition HeapMemMP_join_prev :: "HeapMemMP_Object \<Rightarrow> ptr \<Rightarrow> ptr \<Rightarrow> mm_mem \<Rightarrow> mm_mem" where
  "HeapMemMP_join_prev obj new cur s =
     (if cur \<noteq> HeapMemMP_head obj \<and> cur + mh_size (mm_hdr s cur) = new
      then let s1 = set_hnext cur (mh_next (mm_hdr s new)) s in
           set_hsize cur (mh_size (mm_hdr s1 cur) + mh_size (mm_hdr s1 new)) s1
      else s)"

text \<open>Linking the freed block in between \<open>cur\<close> and \<open>nxt\<close> and joining it with both.\<close>

definition HeapMemMP_join ::
  "SharedRegion_Module \<Rightarrow> HeapMemMP_Object \<Rightarrow> ptr \<Rightarrow> sizeT \<Rightarrow> ptr \<Rightarrow> ptr \<Rightarrow> mm_mem \<Rightarrow> mm_mem res"
  where
  "HeapMemMP_join M obj new sz cur nxt s =
     res_bind (SharedRegion_getSRPtr M nxt (mo_regionId obj)) (\<lambda>pn.
     let s1 = set_hsize new sz (set_hnext new pn s) in
     res_bind (SharedRegion_getSRPtr M new (mo_regionId obj)) (\<lambda>pw.
     let s2 = set_hnext cur pw s1 in
     res_bind (HeapMemMP_join_next M obj new sz nxt s2) (\<lambda>(sz1, s3).
     let s4 = HeapMemMP_join_prev obj new cur s3 in
     Ok (if mo_cacheEnabled obj
         then mm_ev (Cache_inv new sz1)
                (mm_ev (Cache_wbInv new sizeof_HeapMemMP_Header)
                  (mm_ev (Cache_wbInv cur sizeof_HeapMemMP_Header) s4))
         else s4))))"

definition HeapMemMP_free ::
  "SharedRegion_Module \<Rightarrow> nat \<Rightarrow> HeapMemMP_Object \<Rightarrow> ptr \<Rightarrow> sizeT \<Rightarrow> mm_mem \<Rightarrow> mm_mem res" where
  "HeapMemMP_free M fuel obj addr sz0 s =
     (if sr_asserts M \<and> mo_minAlign obj = 0 then Err Div_by_zero else
      Assert_isTrue (sr_asserts M) (addr mod mo_minAlign obj = 0) A_addrNotCacheAligned (
        let sz = adjust_size obj sz0;
            cur = HeapMemMP_head obj;
            s1 = mm_if (mo_cacheEnabled obj) (Cache_inv addr sz) s;
            s2 = mm_if (mo_cacheEnabled obj) (Cache_inv cur sizeof_HeapMemMP_Header)
                   (mm_ev (Gate_enter (mo_gate obj)) s1) in
        res_bind (SharedRegion_getPtr M (mh_next (mm_hdr s2 cur))) (\<lambda>nxt.
        Assert_isTrue (sr_asserts M)
          (mo_buf obj \<le> addr \<and> addr + sz \<le> mo_buf obj + mo_bufSize obj) A_invalidFree (
        res_bind (HeapMemMP_free_loop M obj addr fuel cur nxt s2) (\<lambda>(c, n, s3).
        res_bind (HeapMemMP_join M obj addr sz c n s3) (\<lambda>s4.
        Ok (mm_ev (Gate_leave (mo_gate obj)) s4)))))))"

section \<open>Statistics\<close>

fun HeapMemMP_getStats_loop ::
  "SharedRegion_Module \<Rightarrow> HeapMemMP_Object \<Rightarrow> nat \<Rightarrow> ptr \<Rightarrow> sizeT \<Rightarrow> sizeT \<Rightarrow> mm_mem \<Rightarrow>
   (sizeT \<times> sizeT \<times> mm_mem) res" where
  "HeapMemMP_getStats_loop M obj 0 cur tot largest s = Err Out_of_fuel"
| "HeapMemMP_getStats_loop M obj (Suc n) cur tot largest s =
     (if cur \<noteq> NULL then
        let s1 = mm_if (mo_cacheEnabled obj) (Cache_inv cur sizeof_HeapMemMP_Header) s;
            sz = mh_size (mm_hdr s1 cur) in
        res_bind (SharedRegion_getPtr M (mh_next (mm_hdr s1 cur))) (\<lambda>nxt.
        HeapMemMP_getStats_loop M obj n nxt (tot + sz)
          (if largest < sz then sz else largest) s1)
      else Ok (tot, largest, s))"

definition HeapMemMP_getStats ::
  "SharedRegion_Module \<Rightarrow> nat \<Rightarrow> HeapMemMP_Object \<Rightarrow> mm_mem \<Rightarrow> (Heap_Stats \<times> mm_mem) res" where
  "HeapMemMP_getStats M fuel obj s =
     (let s1 = mm_if (mo_cacheEnabled obj)
                 (Cache_inv (HeapMemMP_head obj) sizeof_HeapMemMP_Header)
                 (mm_ev (Gate_enter (mo_gate obj)) s) in
      res_bind (SharedRegion_getPtr M (mh_next (mm_hdr s1 (HeapMemMP_head obj)))) (\<lambda>cur.
      res_bind (HeapMemMP_getStats_loop M obj fuel cur 0 0 s1) (\<lambda>(tot, largest, s2).
      Ok (\<lparr>hs_totalSize = mo_bufSize obj, hs_totalFreeSize = tot, hs_largestFreeSize = largest\<rparr>,
          mm_ev (Gate_leave (mo_gate obj)) s2))))"

definition HeapMemMP_getExtendedStats :: "HeapMemMP_Object \<Rightarrow> ptr \<times> sizeT" where
  "HeapMemMP_getExtendedStats obj = (mo_buf obj, mo_bufSize obj)"

section \<open>Creating, opening and deleting heaps\<close>

text \<open>
  \<open>HeapMemMP_restore\<close> makes the whole buffer one free block; the end of the chain is
  \<open>SharedRegion.INVALIDSRPTR\<close>.
\<close>

definition HeapMemMP_restore ::
  "SharedRegion_Module \<Rightarrow> HeapMemMP_Object \<Rightarrow> mm_mem \<Rightarrow> mm_mem" where
  "HeapMemMP_restore M obj s =
     (let beg = mo_buf obj;
          s1 = set_hsize beg (mo_bufSize obj) (set_hnext beg (SharedRegion_invalidSRPtr M) s);
          s2 = set_hnext (HeapMemMP_head obj) (ma_bufPtr (mm_attrs s1 (mo_attrs obj))) s1 in
      if mo_cacheEnabled obj
      then mm_ev (Cache_wbInv beg sizeof_HeapMemMP_Header)
             (mm_ev (Cache_wbInv (HeapMemMP_head obj) sizeof_HeapMemMP_Header) s2)
      else s2)"

text \<open>The test of the region id is inverted: a valid region is answered with 0.\<close>

definition HeapMemMP_sharedMemReq ::
  "SharedRegion_Module \<Rightarrow> ptr \<Rightarrow> u16 \<Rightarrow> sizeT \<Rightarrow> sizeT res" where
  "HeapMemMP_sharedMemReq M sharedAddr paramRegionId sharedBufSize =
     Assert_isTrue (sr_asserts M) (sharedBufSize \<noteq> 0) A_invParam (
       let regionId = (if sharedAddr = NULL then paramRegionId
                       else SharedRegion_getId M sharedAddr) in
       Assert_isTrue (sr_asserts M) (regionId \<noteq> SharedRegion_INVALIDREGIONID) A_internal (
       if regionId \<noteq> SharedRegion_INVALIDREGIONID then Ok 0
       else
         res_bind (SharedRegion_getCacheLineSize M regionId) (\<lambda>cls.
         let minAlign = (if sizeof_HeapMemMP_Header < cls then cls else sizeof_HeapMemMP_Header);
             memReq1 = Ipc_roundup sizeof_HeapMemMP_Attrs minAlign + sharedBufSize in
         if minAlign = 0 then Err Div_by_zero else
         Ok ((memReq1 div minAlign) * minAlign))))"

definition set_mattrs :: "ptr \<Rightarrow> HeapMemMP_Attrs \<Rightarrow> mm_mem \<Rightarrow> mm_mem" where
  "set_mattrs a v s = mm_ev (Mem_write a) (s\<lparr>mm_attrs := (mm_attrs s)(a := v)\<rparr>)"

text \<open>\<open>HeapMemMP_postInit\<close>; the flag of the answer says that an error was raised.\<close>

definition HeapMemMP_postInit ::
  "SharedRegion_Module \<Rightarrow> ipc_env \<Rightarrow> HeapMemMP_Object \<Rightarrow> mm_mem \<Rightarrow>
   (bool \<times> HeapMemMP_Object \<times> mm_mem) res" where
  "HeapMemMP_postInit M env obj s =
     res_bind
       (if mo_attrs obj = NULL then
          res_bind (HeapMemMP_sharedMemReq M NULL (mo_regionId obj) (mo_bufSize obj)) (\<lambda>req.
          res_bind (SharedRegion_getHeap M (mo_regionId obj)) (\<lambda>regionHeap.
          Assert_isTrue (sr_asserts M) (regionHeap \<noteq> NULL) A_noHeap (
          let at = env_alloc env regionHeap req (mo_minAlign obj) in
          Ok (if at = NULL then obj\<lparr>mo_allocSize := req, mo_attrs := at\<rparr>
              else obj\<lparr>mo_allocSize := req, mo_attrs := at,
                       mo_buf := at + sizeof_HeapMemMP_Attrs\<rparr>))))
        else Ok obj) (\<lambda>obj1.
     if mo_attrs obj1 = NULL then Ok (True, obj1, s) else
     let obj2 = obj1\<lparr>mo_buf := Ipc_roundup (mo_buf obj1) (mo_minAlign obj1)\<rparr> in
     res_bind (SharedRegion_getCacheLineSize M (mo_regionId obj2)) (\<lambda>cls.
     Assert_isTrue (sr_asserts M) (cls \<le> mo_bufSize obj2) A_heapSize (
     if mo_minAlign obj2 = 0 then Err Div_by_zero else
     let obj3 = obj2\<lparr>mo_bufSize := (mo_bufSize obj2 div mo_minAlign obj2) * mo_minAlign obj2\<rparr>;
         at = mo_attrs obj3 in
     res_bind (SharedRegion_getSRPtr M (mo_buf obj3) (mo_regionId obj3)) (\<lambda>bufPtr.
     let s1 = set_mattrs at ((mm_attrs s at)\<lparr>ma_gateMPAddr := env_gateAddr env (mo_gate obj3),
                                             ma_bufPtr := bufPtr\<rparr>) s;
         s2 = set_hsize (HeapMemMP_head obj3) (mo_bufSize obj3) s1;
         s3 = HeapMemMP_restore M obj3 s2;
         s4 = set_mattrs at ((mm_attrs s3 at)\<lparr>ma_status := HeapMemMP_CREATED\<rparr>) s3 in
     Ok (False, obj3,
         mm_if (mo_cacheEnabled obj3) (Cache_wbInv at sizeof_HeapMemMP_Attrs) s4)))))"

definition heap_minAlign :: "SharedRegion_Module \<Rightarrow> u16 \<Rightarrow> sizeT res" where
  "heap_minAlign M rid =
     res_bind (SharedRegion_getCacheLineSize M rid) (\<lambda>cls.
       Ok (if sizeof_HeapMemMP_Header < cls then cls else sizeof_HeapMemMP_Header))"

definition HeapMemMP_open_init ::
  "SharedRegion_Module \<Rightarrow> ipc_env \<Rightarrow> HeapMemMP_Params \<Rightarrow> HeapMemMP_Object \<Rightarrow> mm_mem \<Rightarrow>
   (int \<times> HeapMemMP_Object \<times> mm_mem) res" where
  "HeapMemMP_open_init M env params obj0 s =
     (let at = mp_sharedAddr params in
      res_bind (SharedRegion_getPtr M (ma_bufPtr (mm_attrs s at))) (\<lambda>buf.
      let rid = SharedRegion_getId M buf in
      res_bind (SharedRegion_isCacheEnabled M rid) (\<lambda>c.
      res_bind (heap_minAlign M rid) (\<lambda>minAlign.
      let obj = obj0\<lparr>mo_nsKey := NULL, mo_allocSize := 0, mo_attrs := at, mo_buf := buf,
                     mo_bufSize := mh_size (mm_hdr s (at + 8)),
                     mo_objType := ObjType_OPENDYNAMIC, mo_regionId := rid,
                     mo_cacheEnabled := c, mo_minAlign := minAlign\<rparr> in
      res_bind (SharedRegion_getPtr M (ma_gateMPAddr (mm_attrs s at))) (\<lambda>localAddr.
      if localAddr = NULL then Ok (4, obj, s)
      else (case env_gateOpen env localAddr of
              None \<Rightarrow> Ok (1, obj, s)
            | Some g \<Rightarrow> Ok (0, obj\<lparr>mo_gate := g\<rparr>, s)))))))"

definition HeapMemMP_Instance_init ::
  "SharedRegion_Module \<Rightarrow> ipc_env \<Rightarrow> HeapMemMP_Params \<Rightarrow> HeapMemMP_Object \<Rightarrow> mm_mem \<Rightarrow>
   (int \<times> HeapMemMP_Object \<times> mm_mem) res" where
  "HeapMemMP_Instance_init M env params obj0 s =
     Assert_isTrue (sr_asserts M) (mp_openFlag params \<or> mp_sharedBufSize params \<noteq> 0) A_invParam (
     if mp_openFlag params then HeapMemMP_open_init M env params obj0 s
     else
       let obj1 = obj0\<lparr>mo_nsKey := NULL, mo_allocSize := 0,
                       mo_gate := (if mp_gate params \<noteq> NULL then mp_gate params
                                   else env_defaultGate env),
                       mo_bufSize := mp_sharedBufSize params\<rparr>;
           addr = mp_sharedAddr params in
       res_bind
         (if addr = NULL
          then Ok (0, obj1\<lparr>mo_objType := ObjType_CREATEDYNAMIC_REGION, mo_attrs := NULL,
                           mo_regionId := mp_regionId params\<rparr>)
          else
            let rid = SharedRegion_getId M addr in
            Assert_isTrue (sr_asserts M) (rid \<noteq> SharedRegion_INVALIDREGIONID)
              A_addrNotInSharedRegion (
            if rid = SharedRegion_INVALIDREGIONID then Ok (5, obj1\<lparr>mo_regionId := rid\<rparr>)
            else
            res_bind (SharedRegion_getCacheLineSize M rid) (\<lambda>cls.
            if cls = 0 then Err Div_by_zero else
            Assert_isTrue (sr_asserts M) (addr mod cls = 0) A_addrNotCacheAligned (
            if addr mod cls \<noteq> 0 then Ok (6, obj1\<lparr>mo_regionId := rid\<rparr>)
            else Ok (0, obj1\<lparr>mo_regionId := rid, mo_objType := ObjType_CREATEDYNAMIC,
                             mo_buf := addr + sizeof_HeapMemMP_Attrs, mo_attrs := addr\<rparr>)))))
         (\<lambda>(st, obj2).
       if st \<noteq> 0 then Ok (st, obj2, s) else
       res_bind (SharedRegion_isCacheEnabled M (mo_regionId obj2)) (\<lambda>c.
       res_bind (heap_minAlign M (mo_regionId obj2)) (\<lambda>minAlign.
       let obj3 = obj2\<lparr>mo_cacheEnabled := c, mo_minAlign := minAlign\<rparr> in
       res_bind (HeapMemMP_postInit M env obj3 s) (\<lambda>(raised, obj4, s1).
       if raised then Ok (2, obj4, s1)
       else (case mp_name params of
          None \<Rightarrow> Ok (0, obj4, s1)
        | Some nm \<Rightarrow>
            res_bind (SharedRegion_getSRPtr M (mo_attrs obj4) (mo_regionId obj4)) (\<lambda>shmBase.
            let key = env_nsAdd env nm shmBase in
            Ok (if key = NULL then 3 else 0, obj4\<lparr>mo_nsKey := key\<rparr>, s1))))))))"

record HeapMemMP_release =
  rm_nsRemoved :: "ptr option"
  rm_freed :: "(ptr \<times> ptr \<times> sizeT) option"
  rm_gateClosed :: "ptr option"

definition HeapMemMP_Instance_finalize ::
  "SharedRegion_Module \<Rightarrow> HeapMemMP_Object \<Rightarrow> mm_mem \<Rightarrow> (HeapMemMP_release \<times> mm_mem) res" where
  "HeapMemMP_Instance_finalize M obj s =
     (let at = mo_attrs obj in
      if created_dynamic (mo_objType obj) then
        let s1 = (if at \<noteq> NULL
                  then mm_if (mo_cacheEnabled obj) (Cache_wbInv at sizeof_HeapMemMP_Attrs)
                         (set_mattrs at ((mm_attrs s at)\<lparr>ma_status := 0\<rparr>) s)
                  else s) in
        res_bind (if mo_objType obj = ObjType_CREATEDYNAMIC_REGION \<and> at \<noteq> NULL
                  then res_bind (SharedRegion_getHeap M (mo_regionId obj)) (\<lambda>h.
                         Ok (Some (h, at, mo_allocSize obj)))
                  else Ok None) (\<lambda>freed.
        Ok (\<lparr>rm_nsRemoved = (if mo_nsKey obj \<noteq> NULL then Some (mo_nsKey obj) else None),
             rm_freed = freed, rm_gateClosed = None\<rparr>, s1))
      else
        Ok (\<lparr>rm_nsRemoved = None, rm_freed = None,
             rm_gateClosed = (if mo_gate obj \<noteq> NULL then Some (mo_gate obj) else None)\<rparr>, s))"

definition HeapMemMP_openByAddr ::
  "SharedRegion_Module \<Rightarrow> ipc_env \<Rightarrow> HeapMemMP_Params \<Rightarrow> ptr \<Rightarrow> HeapMemMP_Object \<Rightarrow> mm_mem \<Rightarrow>
   (HeapMemMP_status \<times> HeapMemMP_Object option \<times> mm_mem) res" where
  "HeapMemMP_openByAddr M env defaults sharedAddr obj0 s =
     res_bind (SharedRegion_isCacheEnabled M (SharedRegion_getId M sharedAddr)) (\<lambda>c.
     let s1 = mm_if c (Cache_inv sharedAddr sizeof_HeapMemMP_Attrs) s in
     if ma_status (mm_attrs s1 sharedAddr) \<noteq> HeapMemMP_CREATED
     then Ok (HeapMemMP_E_NOTFOUND, None, s1)
     else
       res_bind (HeapMemMP_Instance_init M env
                   (defaults\<lparr>mp_openFlag := True, mp_sharedAddr := sharedAddr\<rparr>) obj0 s1)
         (\<lambda>(st, obj, s2).
       if st = 0 then Ok (HeapMemMP_S_SUCCESS, Some obj, s2)
       else res_bind (HeapMemMP_Instance_finalize M obj s2) (\<lambda>(rel, s3).
              Ok (HeapMemMP_E_FAIL, None, s3))))"

section \<open>The chain of free blocks\<close>

fun hchain ::
  "SharedRegion_Module \<Rightarrow> (ptr \<Rightarrow> HeapMemMP_Header) \<Rightarrow> ptr \<Rightarrow> (ptr \<times> sizeT) list \<Rightarrow> bool" where
  "hchain M H p [] \<longleftrightarrow> SharedRegion_getPtr M (mh_next (H p)) = Ok NULL"
| "hchain M H p ((a, n) # bs) \<longleftrightarrow>
     SharedRegion_getPtr M (mh_next (H p)) = Ok a \<and> a \<noteq> NULL \<and> mh_size (H a) = n \<and>
     hchain M H a bs"

definition chain_first :: "(ptr \<times> sizeT) list \<Rightarrow> ptr" where
  "chain_first bs = (case bs of [] \<Rightarrow> NULL | (a, n) # _ \<Rightarrow> a)"

lemma chain_first_simps [simp]: "chain_first [] = NULL" "chain_first ((a, n) # bs) = a"
  by (simp_all add: chain_first_def)

lemma hchain_first: "hchain M H p bs \<Longrightarrow> SharedRegion_getPtr M (mh_next (H p)) = Ok (chain_first bs)"
  by (cases bs) auto

lemma hchain_cong:
  assumes "mh_next (H' p') = mh_next (H p)" and "\<And>a n. (a, n) \<in> set bs \<Longrightarrow> H' a = H a"
  shows "hchain M H' p' bs = hchain M H p bs"
  using assms
proof (induction bs arbitrary: p p')
  case (Cons b bs)
  obtain a n where b: "b = (a, n)" by (cases b)
  have a: "H' a = H a" using Cons.prems(2) [of a n] b by simp
  moreover have "hchain M H' a bs = hchain M H a bs"
    by (rule Cons.IH) (use a Cons.prems(2) in \<open>auto simp: b\<close>)
  ultimately show ?case using Cons.prems(1) b by simp
qed simp

text \<open>A block as an interval of numbers.\<close>

definition nblk :: "ptr \<times> sizeT \<Rightarrow> nat \<times> nat" where
  "nblk b = (unat (fst b), unat (snd b))"

lemma nblk_simp [simp]: "nblk (a, n) = (unat a, unat n)"
  by (simp add: nblk_def)

text \<open>An address that the heap can link to: its \<open>SRPtr\<close>, taken in the heap's region, leads back.\<close>

definition heap_addr :: "SharedRegion_Module \<Rightarrow> u16 \<Rightarrow> ptr \<Rightarrow> bool" where
  "heap_addr M rid a \<longleftrightarrow>
     a \<noteq> NULL \<and>
     (case SharedRegion_getSRPtr M a rid of
        Ok p \<Rightarrow> SharedRegion_getPtr M p = Ok a | Err _ \<Rightarrow> False)"

lemma heap_addrE:
  assumes "heap_addr M rid a"
  obtains p where "SharedRegion_getSRPtr M a rid = Ok p" and "SharedRegion_getPtr M p = Ok a"
    and "a \<noteq> NULL"
  using assms by (cases "SharedRegion_getSRPtr M a rid") (auto simp: heap_addr_def)

text \<open>
  The geometry that creation establishes: a power-of-two granularity that is not below the size of
  a header, a buffer of whole units that starts above the header in the attributes and does not
  wrap around, and whose unit addresses can be linked to.
\<close>

definition hm_site :: "SharedRegion_Module \<Rightarrow> HeapMemMP_Object \<Rightarrow> nat \<Rightarrow> bool" where
  "hm_site M obj k \<longleftrightarrow>
     3 \<le> k \<and> k < 32 \<and> mo_minAlign obj = 2 ^ k \<and>
     unat (mo_buf obj) + unat (mo_bufSize obj) < 2 ^ 32 \<and>
     2 ^ k dvd unat (mo_buf obj) \<and> 2 ^ k dvd unat (mo_bufSize obj) \<and>
     unat (HeapMemMP_head obj) + 8 \<le> unat (mo_buf obj) \<and>
     (\<forall>a. unat (mo_buf obj) \<le> unat a \<and> unat a < unat (mo_buf obj) + unat (mo_bufSize obj) \<and>
          2 ^ k dvd unat a \<longrightarrow> heap_addr M (mo_regionId obj) a)"

definition hm_hi :: "HeapMemMP_Object \<Rightarrow> nat" where
  "hm_hi obj = unat (mo_buf obj) + unat (mo_bufSize obj)"

lemma hm_siteD:
  assumes "hm_site M obj k"
  shows "3 \<le> k" and "k < 32" and "mo_minAlign obj = 2 ^ k" and "hm_hi obj < 2 ^ 32"
    and "unat (HeapMemMP_head obj) < unat (mo_buf obj)" and "2 ^ k dvd unat (mo_buf obj)"
    and "2 ^ k dvd unat (mo_bufSize obj)"
  using assms by (auto simp: hm_site_def hm_hi_def)

lemma hm_site_addr:
  assumes "hm_site M obj k" and "unat (mo_buf obj) \<le> unat a" and "unat a < hm_hi obj"
    and "2 ^ k dvd unat a"
  shows "heap_addr M (mo_regionId obj) a"
  using assms by (auto simp: hm_site_def hm_hi_def)

text \<open>The heap's invariant: its chain holds the blocks \<open>bs\<close>, a free list of the buffer.\<close>

definition hm_inv ::
  "SharedRegion_Module \<Rightarrow> HeapMemMP_Object \<Rightarrow> nat \<Rightarrow> mm_mem \<Rightarrow> (ptr \<times> sizeT) list \<Rightarrow> bool" where
  "hm_inv M obj k s bs \<longleftrightarrow>
     hm_site M obj k \<and> hchain M (mm_hdr s) (HeapMemMP_head obj) bs \<and>
     fl_ok (2 ^ k) (unat (mo_buf obj)) (hm_hi obj) (map nblk bs)"

lemma hdr_after [simp]:
  "mm_hdr (mm_ev e s) = mm_hdr s"
  "mm_hdr (mm_if c e s) = mm_hdr s"
  "mm_hdr (set_hnext a v s) = (mm_hdr s)(a := (mm_hdr s a)\<lparr>mh_next := v\<rparr>)"
  "mm_hdr (set_hsize a v s) = (mm_hdr s)(a := (mm_hdr s a)\<lparr>mh_size := v\<rparr>)"
  "mm_attrs (mm_ev e s) = mm_attrs s"
  "mm_attrs (mm_if c e s) = mm_attrs s"
  "mm_attrs (set_hnext a v s) = mm_attrs s"
  "mm_attrs (set_hsize a v s) = mm_attrs s"
  by (simp_all add: mm_ev_def mm_if_def set_hnext_def set_hsize_def)

lemma hchain_above:
  assumes "fl_ok g lo hi (map nblk bs)" and "(a, n) \<in> set bs"
  shows "lo \<le> unat a" and "unat a + unat n \<le> hi" and "0 < unat n"
  using fl_ok_member [OF assms(1), of "unat a" "unat n"] assms(2) by force+

section \<open>The arithmetic of alignment\<close>

lemma and_mask_0_iff:
  fixes w :: u32
  assumes "k < 32"
  shows "w AND (2 ^ k - 1) = 0 \<longleftrightarrow> 2 ^ k dvd unat w"
  using mask_and_unat [of "2 ^ k - 1 :: u32" k w] assms
  by (simp add: word_eq_unat mod_eq_0_iff_dvd)

text \<open>The offset of a block from the next aligned address, as the code computes it.\<close>

definition word_gap :: "sizeT \<Rightarrow> ptr \<Rightarrow> sizeT" where
  "word_gap al a = (let off = a AND (al - 1) in if off \<noteq> 0 then al - off else off)"

lemma unat_word_gap:
  assumes "al = 2 ^ m" and "m < 32"
  shows "unat (word_gap al a) = align_gap (2 ^ m) (unat a)"
proof -
  have off: "unat (a AND (al - 1)) = unat a mod 2 ^ m"
    using assms by (intro mask_and_unat) simp_all
  have al: "unat al = 2 ^ m" using unat_pow2 [where 'a = 32] assms by simp
  have "unat a mod 2 ^ m < 2 ^ m" by simp
  then have "unat (al - (a AND (al - 1))) = 2 ^ m - unat a mod 2 ^ m"
    using off al by (subst unat_minus_le) (simp_all add: word_le_nat_alt)
  then show ?thesis
    using off by (auto simp: word_gap_def Let_def align_gap_def word_eq_unat)
qed

lemma unat_adjust_size:
  assumes k: "mo_minAlign obj = 2 ^ k" "k < 32" and n: "unat n + 2 ^ k \<le> 2 ^ 32"
  shows "unat (adjust_size obj n) = round_up (unat n) (2 ^ k)"
proof -
  let ?r = "unat n mod 2 ^ k"
  have off: "unat (n AND (mo_minAlign obj - 1)) = ?r"
    using k by (intro mask_and_unat) simp_all
  have mA: "unat (mo_minAlign obj) = 2 ^ k" using unat_pow2 [where 'a = 32] k by simp
  have r: "?r < 2 ^ k" by simp
  show ?thesis
  proof (cases "?r = 0")
    case True
    then have "round_up (unat n) (2 ^ k) = unat n"
      by (intro round_up_dvd) (simp_all add: mod_eq_0_iff_dvd)
    then show ?thesis
      using True off by (simp add: adjust_size_def Let_def word_eq_unat)
  next
    case False
    have pad: "unat (mo_minAlign obj - (n AND (mo_minAlign obj - 1))) = 2 ^ k - ?r"
      using off mA r by (subst unat_minus_le) (simp_all add: word_le_nat_alt)
    have "unat n + (2 ^ k - ?r) < 2 ^ 32" using False n r by linarith
    then have sum: "unat (n + (mo_minAlign obj - (n AND (mo_minAlign obj - 1)))) =
        unat n + (2 ^ k - ?r)"
      using pad by (subst unat_plus_no_wrap) simp_all
    have "unat n + (2 ^ k - ?r) = round_up (unat n) (2 ^ k)"
    proof -
      have "2 ^ k dvd unat n + (2 ^ k - ?r)"
        using align_gap_dvd [of "2 ^ k" "unat n"] False by (simp add: align_gap_def)
      then obtain j where j: "unat n + (2 ^ k - ?r) = 2 ^ k * j" by blast
      obtain i where i: "round_up (unat n) (2 ^ k) = 2 ^ k * i"
        using round_up_bounds(3) [of "2 ^ k" "unat n"] by (auto simp: dvd_def)
      have "unat n \<le> 2 ^ k * i" "2 ^ k * i < unat n + 2 ^ k"
        using round_up_bounds(1,2) [of "2 ^ k" "unat n"] i by auto
      moreover have "unat n < 2 ^ k * j" "2 ^ k * j \<le> unat n + 2 ^ k"
        using j False r by linarith+
      ultimately have "2 ^ k * i < 2 ^ k * Suc j" "2 ^ k * j < 2 ^ k * Suc i"
        using False j r by (auto simp: algebra_simps)
      then have "i = j" by (simp only: mult_less_cancel1) linarith
      then show ?thesis using i j by simp
    qed
    then show ?thesis
      using False off sum by (simp add: adjust_size_def Let_def word_eq_unat)
  qed
qed

lemma adjust_align_pow2:
  assumes "mo_minAlign obj = 2 ^ k" "k < 32" and "al = 2 ^ j" "j < 32"
  shows "adjust_align obj al = 2 ^ max j k"
proof -
  have "al AND (mo_minAlign obj - 1) = 0 \<longleftrightarrow> 2 ^ k dvd unat al"
    using and_mask_0_iff [OF assms(2), of al] assms(1) by simp
  also have "\<dots> \<longleftrightarrow> k \<le> j"
    using unat_pow2 [where 'a = 32, of j] assms by (simp add: dvd_power_iff_le)
  finally show ?thesis using assms by (simp add: adjust_align_def max_def)
qed

section \<open>Allocation implements first fit\<close>

definition rest_blocks :: "nat \<Rightarrow> nat \<Rightarrow> (nat \<times> nat) list" where
  "rest_blocks a n = (if n = 0 then [] else [(a, n)])"

lemma carve_refines:
  assumes site: "hm_site M obj k"
    and chain: "hchain M (mm_hdr s) prev ((cur, n) # bs)"
    and ok: "fl_ok (2 ^ k) lo (hm_hi obj) (map nblk ((cur, n) # bs))"
    and prev: "unat prev < lo" and lo: "unat (mo_buf obj) \<le> lo"
    and off: "2 ^ k dvd unat off" and sz: "2 ^ k dvd unat sz" "0 < unat sz"
    and fits: "unat sz + unat off \<le> unat n"
  shows "\<exists>s' bs'. HeapMemMP_carve M obj sz off prev cur s = Ok (cur + off, s') \<and>
    unat (cur + off) = unat cur + unat off \<and>
    hchain M (mm_hdr s') prev bs' \<and>
    map nblk bs' = rest_blocks (unat cur) (unat off) @
      rest_blocks (unat cur + unat off + unat sz) (unat n - unat sz - unat off) @ map nblk bs \<and>
    mh_size (mm_hdr s' prev) = mh_size (mm_hdr s prev) \<and>
    (\<forall>x. x \<noteq> prev \<longrightarrow> unat x \<notin> {unat cur..<unat cur + unat n} \<longrightarrow> mm_hdr s' x = mm_hdr s x)"
proof -
  note S = hm_siteD [OF site]
  let ?H = "mm_hdr s" and ?new = "cur + off + sz" and ?r = "n - sz - off"
  have cur: "lo \<le> unat cur" "unat cur + unat n \<le> hm_hi obj" "2 ^ k dvd unat cur" "2 ^ k dvd unat n"
    and tail: "fl_ok (2 ^ k) (Suc (unat cur + unat n)) (hm_hi obj) (map nblk bs)"
    using ok by auto
  have nxt: "SharedRegion_getPtr M (mh_next (?H prev)) = Ok cur" "cur \<noteq> NULL" "mh_size (?H cur) = n"
    "hchain M ?H cur bs"
    using chain by auto
  have pc: "prev \<noteq> cur" using prev cur(1) by auto
  have u1: "unat (cur + off) = unat cur + unat off"
    using cur(2) fits S(4) by (intro unat_plus_no_wrap) simp
  have u2: "unat ?new = unat cur + unat off + unat sz"
    using cur(2) fits S(4) u1 by (subst unat_plus_no_wrap) simp_all
  have r1: "unat (n - sz) = unat n - unat sz"
    using fits by (intro unat_minus_le) (simp add: word_le_nat_alt)
  have r2: "unat ?r = unat n - unat sz - unat off"
    using fits r1 by (subst unat_minus_le) (simp_all add: word_le_nat_alt)
  have rz: "?r = 0 \<longleftrightarrow> unat n - unat sz - unat off = 0" using r2 by (simp add: word_eq_unat)
  have oz: "off = 0 \<longleftrightarrow> unat off = 0" by (simp add: word_eq_unat)
  have asrt: "?r AND (mo_minAlign obj - 1) = 0"
    using and_mask_0_iff [OF S(2), of ?r] S(3) r2 cur(4) sz(1) off by (simp add: dvd_diff_nat)
  have nc: "?new \<noteq> cur" using u2 sz(2) by (auto simp: word_eq_unat)
  have np: "?new \<noteq> prev" using u2 prev cur(1) by (auto simp: word_eq_unat)
  have tail_chain: "hchain M H' q bs"
    if q: "mh_next (H' q) = mh_next (?H cur)"
      and same: "\<And>y. y \<noteq> prev \<Longrightarrow> y \<noteq> cur \<Longrightarrow> (?r = 0 \<or> y \<noteq> ?new) \<Longrightarrow> H' y = ?H y" for H' q
  proof -
    have "H' x = ?H x" if "(x, m) \<in> set bs" for x m
    proof -
      have "Suc (unat cur + unat n) \<le> unat x" using hchain_above(1) [OF tail that] .
      then show ?thesis using prev cur(1) fits u2 by (intro same) (auto simp: word_eq_unat)
    qed
    then show ?thesis using hchain_cong [of H' q ?H cur bs M] q nxt(4) by simp
  qed
  let ?wb = "\<lambda>a. mm_if (mo_cacheEnabled obj) (Cache_wbInv a sizeof_HeapMemMP_Header)"
  show ?thesis
  proof (cases "?r = 0")
    case True
    show ?thesis
    proof (cases "off = 0")
      case o: True
      let ?s' = "?wb prev (set_hnext prev (mh_next (?H cur)) s)"
      have "HeapMemMP_carve M obj sz off prev cur s = Ok (cur + off, ?s')"
        using True o asrt nxt(3) by (simp add: HeapMemMP_carve_def Let_def)
      moreover have "hchain M (mm_hdr ?s') prev bs"
        by (rule tail_chain) simp_all
      moreover have "rest_blocks (unat cur) (unat off) = []"
        "rest_blocks (unat cur + unat off + unat sz) (unat n - unat sz - unat off) = []"
        using True o rz by (simp_all add: rest_blocks_def)
      ultimately show ?thesis using u1 by (intro exI [of _ ?s'] exI [of _ bs]) simp
    next
      case o: False
      let ?s' = "?wb cur (set_hsize cur off s)"
      have "HeapMemMP_carve M obj sz off prev cur s = Ok (cur + off, ?s')"
        using True o asrt nxt(3) by (simp add: HeapMemMP_carve_def Let_def)
      moreover have "hchain M (mm_hdr ?s') cur bs"
        by (rule tail_chain) simp_all
      then have "hchain M (mm_hdr ?s') prev ((cur, off) # bs)" using nxt pc by simp
      moreover have "rest_blocks (unat cur) (unat off) = [(unat cur, unat off)]"
        "rest_blocks (unat cur + unat off + unat sz) (unat n - unat sz - unat off) = []"
        using True o rz oz by (simp_all add: rest_blocks_def)
      ultimately show ?thesis
        using u1 pc fits sz(2) by (intro exI [of _ ?s'] exI [of _ "(cur, off) # bs"]) auto
    qed
  next
    case False
    have "2 ^ k dvd unat ?new" using u2 cur(3) off sz(1) by simp
    moreover have "unat ?new < hm_hi obj" using u2 cur(2) False rz fits by linarith
    moreover have "unat (mo_buf obj) \<le> unat ?new" using u2 cur(1) lo by linarith
    ultimately obtain p where p: "SharedRegion_getSRPtr M ?new (mo_regionId obj) = Ok p"
      "SharedRegion_getPtr M p = Ok ?new" "?new \<noteq> NULL"
      using hm_site_addr [OF site] heap_addrE by metis
    have nin: "unat ?new \<in> {unat cur..<unat cur + unat n}" using u2 False rz fits by auto
    show ?thesis
    proof (cases "off = 0")
      case o: True
      let ?s' = "?wb prev (set_hnext prev p (?wb ?new (set_hsize ?new ?r
                   (set_hnext ?new (mh_next (?H cur)) s))))"
      have "HeapMemMP_carve M obj sz off prev cur s = Ok (cur + off, ?s')"
        using False o asrt nxt(3) p(1) by (simp add: HeapMemMP_carve_def Let_def)
      moreover have "hchain M (mm_hdr ?s') ?new bs"
        by (rule tail_chain) (use False np in simp_all)
      then have "hchain M (mm_hdr ?s') prev ((?new, ?r) # bs)" using p np by simp
      moreover have "rest_blocks (unat cur) (unat off) = []"
        "rest_blocks (unat cur + unat off + unat sz) (unat n - unat sz - unat off) =
           [nblk (?new, ?r)]"
        using False o rz u2 r2 by (simp_all add: rest_blocks_def)
      ultimately show ?thesis
        using u1 np nin
        by (intro exI [of _ ?s'] exI [of _ "(?new, ?r) # bs"]) auto
    next
      case o: False
      let ?s' = "?wb cur (set_hnext cur p (?wb ?new (set_hsize ?new ?r
                   (set_hnext ?new (mh_next (?H cur)) (set_hsize cur off s)))))"
      have "HeapMemMP_carve M obj sz off prev cur s = Ok (cur + off, ?s')"
        using False o asrt nxt(3) p(1) by (simp add: HeapMemMP_carve_def Let_def)
      moreover have "hchain M (mm_hdr ?s') ?new bs"
        by (rule tail_chain) (use False nc in simp_all)
      then have "hchain M (mm_hdr ?s') prev ((cur, off) # (?new, ?r) # bs)"
        using nxt p np nc pc by simp
      moreover have "rest_blocks (unat cur) (unat off) = [(unat cur, unat off)]"
        "rest_blocks (unat cur + unat off + unat sz) (unat n - unat sz - unat off) =
           [nblk (?new, ?r)]"
        using False o rz u2 r2 oz by (simp_all add: rest_blocks_def)
      ultimately show ?thesis
        using u1 np pc nin fits sz(2)
        by (intro exI [of _ ?s'] exI [of _ "(cur, off) # (?new, ?r) # bs"]) auto
    qed
  qed
qed

lemma ff_alloc_head:
  "ff_alloc sz al ((a, n) # xs) =
     (if sz + align_gap al a \<le> n
      then Some (a + align_gap al a,
             rest_blocks a (align_gap al a) @
             rest_blocks (a + align_gap al a + sz) (n - sz - align_gap al a) @ xs)
      else map_option (\<lambda>(p, ys). (p, (a, n) # ys)) (ff_alloc sz al xs))"
  by (simp add: Let_def rest_blocks_def)

lemma alloc_loop_step:
  assumes "cur \<noteq> NULL"
  shows "HeapMemMP_alloc_loop M obj sz al (Suc n) prev cur s =
    (let s1 = mm_if (mo_cacheEnabled obj) (Cache_inv cur sizeof_HeapMemMP_Header) s in
     Assert_isTrue (sr_asserts M) (word_gap al cur AND (mo_minAlign obj - 1) = 0) A_internal
       (if sz + word_gap al cur \<le> mh_size (mm_hdr s cur)
        then HeapMemMP_carve M obj sz (word_gap al cur) prev cur s1
        else res_bind (SharedRegion_getPtr M (mh_next (mm_hdr s cur)))
               (\<lambda>nxt. HeapMemMP_alloc_loop M obj sz al n cur nxt s1)))"
  using assms by (simp only: HeapMemMP_alloc_loop.simps if_False Let_def word_gap_def hdr_after)

text \<open>
  The search answers what first fit answers, links the rest of the block it takes and touches no
  header outside the free blocks but the link before them.
\<close>

lemma alloc_loop_refines:
  assumes site: "hm_site M obj k"
    and chain: "hchain M (mm_hdr s) prev bs"
    and ok: "fl_ok (2 ^ k) lo (hm_hi obj) (map nblk bs)"
    and prev: "unat prev < lo" and lo: "unat (mo_buf obj) \<le> lo"
    and al: "al = 2 ^ m" "k \<le> m" "m < 32"
    and sz: "2 ^ k dvd unat sz" "0 < unat sz" "unat sz + 2 ^ m \<le> 2 ^ 32"
    and fuel: "length bs < fuel"
  shows "case ff_alloc (unat sz) (2 ^ m) (map nblk bs) of
      None \<Rightarrow> \<exists>s'. HeapMemMP_alloc_loop M obj sz al fuel prev (chain_first bs) s = Ok (NULL, s') \<and>
                mm_hdr s' = mm_hdr s
    | Some (p, ys) \<Rightarrow> \<exists>q s' bs'.
        HeapMemMP_alloc_loop M obj sz al fuel prev (chain_first bs) s = Ok (q, s') \<and>
        unat q = p \<and> hchain M (mm_hdr s') prev bs' \<and> map nblk bs' = ys \<and>
        mh_size (mm_hdr s' prev) = mh_size (mm_hdr s prev) \<and>
        (\<forall>x. x \<noteq> prev \<longrightarrow> unat x \<notin> fl_cells (map nblk bs) \<longrightarrow> mm_hdr s' x = mm_hdr s x)"
  using chain ok prev lo fuel
proof (induction bs arbitrary: s prev lo fuel)
  case Nil
  then obtain f where "fuel = Suc f" by (cases fuel) auto
  then show ?case by simp
next
  case (Cons b bs)
  obtain a n where b: "b = (a, n)" by (cases b)
  obtain f where f: "fuel = Suc f" "length bs < f" using Cons.prems(5) by (cases fuel) auto
  note S = hm_siteD [OF site]
  have H: "SharedRegion_getPtr M (mh_next (mm_hdr s prev)) = Ok a" "a \<noteq> NULL"
    "mh_size (mm_hdr s a) = n" "hchain M (mm_hdr s) a bs"
    using Cons.prems(1) b by auto
  have a: "lo \<le> unat a" "2 ^ k dvd unat a"
    and tail: "fl_ok (2 ^ k) (Suc (unat a + unat n)) (hm_hi obj) (map nblk bs)"
    using Cons.prems(2) b by auto
  let ?gap = "align_gap (2 ^ m) (unat a)" and ?off = "word_gap al a"
  let ?s1 = "mm_if (mo_cacheEnabled obj) (Cache_inv a sizeof_HeapMemMP_Header) s"
  have gap: "unat ?off = ?gap" using unat_word_gap [OF al(1,3)] .
  have "?gap < 2 ^ m" by (simp add: align_gap_def)
  then have sum: "unat (sz + ?off) = unat sz + ?gap"
    using gap sz(3) by (subst unat_plus_no_wrap) simp_all
  have dv: "2 ^ k dvd unat ?off"
    using gap a(2) al(2) align_gap_granular [of "2 ^ k" "2 ^ m" "unat a"] by (simp add: le_imp_power_dvd)
  then have asrt: "?off AND (mo_minAlign obj - 1) = 0"
    using and_mask_0_iff [OF S(2), of ?off] S(3) by simp
  have step: "HeapMemMP_alloc_loop M obj sz al fuel prev a s =
      (if unat sz + ?gap \<le> unat n then HeapMemMP_carve M obj sz ?off prev a ?s1
       else HeapMemMP_alloc_loop M obj sz al f a (chain_first bs) ?s1)"
    unfolding f(1) alloc_loop_step [OF H(2)] using asrt H(3) sum hchain_first [OF H(4)]
    by (simp add: word_le_nat_alt)
  show ?case
  proof (cases "unat sz + ?gap \<le> unat n")
    case True
    have ch: "hchain M (mm_hdr ?s1) prev ((a, n) # bs)" using Cons.prems(1) b by simp
    obtain s' bs' where R: "HeapMemMP_carve M obj sz ?off prev a ?s1 = Ok (a + ?off, s')"
      "unat (a + ?off) = unat a + ?gap" "hchain M (mm_hdr s') prev bs'"
      "map nblk bs' = rest_blocks (unat a) ?gap @
         rest_blocks (unat a + ?gap + unat sz) (unat n - unat sz - ?gap) @ map nblk bs"
      "mh_size (mm_hdr s' prev) = mh_size (mm_hdr s prev)"
      "\<forall>x. x \<noteq> prev \<longrightarrow> unat x \<notin> {unat a..<unat a + unat n} \<longrightarrow> mm_hdr s' x = mm_hdr s x"
      using carve_refines [OF site ch Cons.prems(2) [unfolded b] Cons.prems(3,4) dv sz(1,2)] True gap
      by (metis hdr_after(2))
    have "ff_alloc (unat sz) (2 ^ m) (map nblk (b # bs)) = Some (unat a + ?gap, map nblk bs')"
      using True b R(4) by (simp only: list.map nblk_simp ff_alloc_head if_True)
    then show ?thesis using step True R b by auto
  next
    case False
    have ch: "hchain M (mm_hdr ?s1) a bs" using H(4) by simp
    have lo': "unat a < Suc (unat a + unat n)" "unat (mo_buf obj) \<le> Suc (unat a + unat n)"
      using a(1) Cons.prems(4) by linarith+
    note IH = Cons.IH [OF ch tail lo' f(2)]
    have pa: "prev \<noteq> a" using a(1) Cons.prems(3) by auto
    have pt: "unat prev \<notin> fl_cells (map nblk bs)"
      using fl_cells_bounds [OF tail] a(1) Cons.prems(3) by fastforce
    have ff: "ff_alloc (unat sz) (2 ^ m) (map nblk (b # bs)) =
        map_option (\<lambda>(p, ys). (p, (unat a, unat n) # ys)) (ff_alloc (unat sz) (2 ^ m) (map nblk bs))"
      using False b by (simp only: list.map nblk_simp ff_alloc_head if_False)
    show ?thesis
    proof (cases "ff_alloc (unat sz) (2 ^ m) (map nblk bs)")
      case None
      then show ?thesis using IH step False b ff by auto
    next
      case (Some r)
      obtain p ys where r: "r = (p, ys)" by (cases r)
      obtain q s' bs' where R: "HeapMemMP_alloc_loop M obj sz al f a (chain_first bs) ?s1 = Ok (q, s')"
        "unat q = p" "hchain M (mm_hdr s') a bs'" "map nblk bs' = ys"
        "mh_size (mm_hdr s' a) = mh_size (mm_hdr s a)"
        "\<forall>x. x \<noteq> a \<longrightarrow> unat x \<notin> fl_cells (map nblk bs) \<longrightarrow> mm_hdr s' x = mm_hdr s x"
        using IH Some r by auto
      have "mm_hdr s' prev = mm_hdr s prev" using R(6) pa pt by blast
      then have "hchain M (mm_hdr s') prev ((a, n) # bs')" using R(3,5) H(1-3) by simp
      moreover have "mm_hdr s' x = mm_hdr s x"
        if "unat x \<notin> fl_cells (map nblk (b # bs))" for x
      proof -
        have "0 < unat n" using Cons.prems(2) b by simp
        then have "x \<noteq> a" using that b by auto
        then show ?thesis using R(6) that b by auto
      qed
      ultimately show ?thesis
        using R(1,2,4) step False b ff Some r \<open>mm_hdr s' prev = mm_hdr s prev\<close>
        by (auto intro!: exI [of _ "(a, n) # bs'"])
    qed
  qed
qed

lemma HeapMemMP_alloc_refines:
  assumes inv: "hm_inv M obj k s bs" and n: "n \<noteq> 0" and al: "al = 2 ^ j" "j < 32"
    and bound: "round_up (unat n) (2 ^ k) + 2 ^ max j k \<le> 2 ^ 32" and fuel: "length bs < fuel"
  shows "case ff_alloc (round_up (unat n) (2 ^ k)) (2 ^ max j k) (map nblk bs) of
      None \<Rightarrow> \<exists>s'. HeapMemMP_alloc M fuel obj n al s = Ok (NULL, s') \<and> mm_hdr s' = mm_hdr s
    | Some (p, ys) \<Rightarrow> \<exists>q s' bs'. HeapMemMP_alloc M fuel obj n al s = Ok (q, s') \<and>
        unat q = p \<and> hm_inv M obj k s' bs' \<and> map nblk bs' = ys \<and>
        (\<forall>x. x \<noteq> HeapMemMP_head obj \<longrightarrow> unat x \<notin> fl_cells (map nblk bs) \<longrightarrow>
             mm_hdr s' x = mm_hdr s x)"
proof -
  have site: "hm_site M obj k" and chain: "hchain M (mm_hdr s) (HeapMemMP_head obj) bs"
    and ok: "fl_ok (2 ^ k) (unat (mo_buf obj)) (hm_hi obj) (map nblk bs)"
    using inv by (simp_all add: hm_inv_def)
  note S = hm_siteD [OF site]
  let ?h = "HeapMemMP_head obj" and ?sz = "adjust_size obj n" and ?al = "adjust_align obj al"
  have R: "unat n \<le> round_up (unat n) (2 ^ k)" "2 ^ k dvd round_up (unat n) (2 ^ k)"
    using round_up_bounds [of "2 ^ k" "unat n"] by simp_all
  have pow: "(2::nat) ^ k \<le> 2 ^ max j k" by simp
  have sz: "unat ?sz = round_up (unat n) (2 ^ k)"
    using bound R(1) pow by (intro unat_adjust_size [OF S(3,2)]) linarith
  have n0: "0 < unat n" using n by (simp add: word_eq_unat)
  then have sz0: "0 < unat ?sz" and szd: "2 ^ k dvd unat ?sz" using sz R by simp_all
  have al': "?al = 2 ^ max j k" using adjust_align_pow2 [OF S(3,2) al] .
  have pow2: "al AND (al - 1) = 0"
    using and_mask_0_iff [OF al(2), of al] unat_pow2 [where 'a = 32, of j] al by simp
  define s1 where "s1 = mm_if (mo_cacheEnabled obj) (Cache_inv ?h sizeof_HeapMemMP_Header)
    (mm_ev (Gate_enter (mo_gate obj)) s)"
  have h1: "mm_hdr s1 = mm_hdr s" by (simp add: s1_def)
  have ch1: "hchain M (mm_hdr s1) ?h bs" using chain h1 by simp
  have run: "HeapMemMP_alloc M fuel obj n al s =
      res_bind (HeapMemMP_alloc_loop M obj ?sz ?al fuel ?h (chain_first bs) s1)
        (\<lambda>(p, s2). Ok (p, mm_ev (Gate_leave (mo_gate obj)) s2))"
    using pow2 n hchain_first [OF chain] unfolding HeapMemMP_alloc_def Let_def s1_def [symmetric] h1
    by simp
  have mj: "k \<le> max j k" "max j k < 32" using al(2) S(2) by auto
  have sz32: "unat ?sz + 2 ^ max j k \<le> 2 ^ 32" using sz bound by simp
  note loop = alloc_loop_refines [OF site ch1 ok S(5) order_refl al' mj szd sz0 sz32 fuel]
  show ?thesis
  proof (cases "ff_alloc (unat ?sz) (2 ^ max j k) (map nblk bs)")
    case None
    then show ?thesis using loop run h1 sz by auto
  next
    case (Some r)
    obtain p ys where r: "r = (p, ys)" by (cases r)
    obtain q s2 bs' where L: "HeapMemMP_alloc_loop M obj ?sz ?al fuel ?h (chain_first bs) s1 = Ok (q, s2)"
      "unat q = p" "hchain M (mm_hdr s2) ?h bs'" "map nblk bs' = ys"
      "\<forall>x. x \<noteq> ?h \<longrightarrow> unat x \<notin> fl_cells (map nblk bs) \<longrightarrow> mm_hdr s2 x = mm_hdr s x"
      using loop Some r h1 by auto
    have "fl_ok (2 ^ k) (unat (mo_buf obj)) (hm_hi obj) ys"
      using ff_alloc_Some [OF ok Some [unfolded r] _ _ sz0 szd] mj(1)
      by (simp add: le_imp_power_dvd)
    then have "hm_inv M obj k (mm_ev (Gate_leave (mo_gate obj)) s2) bs'"
      using site L(3,4) by (simp add: hm_inv_def)
    then show ?thesis using Some r L run sz by auto
  qed
qed

section \<open>Freeing implements joining\<close>

text \<open>Part of a chain: from the header \<open>p\<close> over the blocks \<open>us\<close> to the block \<open>c\<close>.\<close>

fun hseg ::
  "SharedRegion_Module \<Rightarrow> (ptr \<Rightarrow> HeapMemMP_Header) \<Rightarrow> ptr \<Rightarrow> (ptr \<times> sizeT) list \<Rightarrow> ptr \<Rightarrow> bool" where
  "hseg M H p [] c \<longleftrightarrow> SharedRegion_getPtr M (mh_next (H p)) = Ok c"
| "hseg M H p ((a, n) # us) c \<longleftrightarrow>
     SharedRegion_getPtr M (mh_next (H p)) = Ok a \<and> a \<noteq> NULL \<and> mh_size (H a) = n \<and>
     hseg M H a us c"

lemma hchain_split:
  "hchain M H p (us @ (c, m) # vs) \<longleftrightarrow>
     hseg M H p us c \<and> c \<noteq> NULL \<and> mh_size (H c) = m \<and> hchain M H c vs"
  by (induction us arbitrary: p) auto

lemma hseg_cong:
  assumes "mh_next (H' p) = mh_next (H p)" and "\<And>a n. (a, n) \<in> set us \<Longrightarrow> H' a = H a"
  shows "hseg M H' p us c = hseg M H p us c"
  using assms
proof (induction us arbitrary: p)
  case (Cons b us)
  obtain a n where b: "b = (a, n)" by (cases b)
  have a: "H' a = H a" using Cons.prems(2) [of a n] b by simp
  moreover have "hseg M H' a us c = hseg M H a us c"
    by (rule Cons.IH) (use a Cons.prems(2) in \<open>auto simp: b\<close>)
  ultimately show ?case using Cons.prems(1) b by simp
qed simp

text \<open>The header a part of a chain ends at.\<close>

definition seg_end :: "ptr \<Rightarrow> (ptr \<times> sizeT) list \<Rightarrow> ptr" where
  "seg_end p us = (if us = [] then p else fst (last us))"

lemma hchain_from_end: "hchain M H p (us @ vs) \<Longrightarrow> hchain M H (seg_end p us) vs"
  by (induction us arbitrary: p) (auto simp: seg_end_def split: if_splits)

lemma free_loop_finds:
  assumes "hchain M (mm_hdr s) p (us @ vs)"
    and "\<forall>(a, n) \<in> set us. a < new \<and> a + n \<le> new"
    and "chain_first vs = NULL \<or> new \<le> chain_first vs" and "length us < fuel"
  shows "\<exists>s'. HeapMemMP_free_loop M obj new fuel p (chain_first (us @ vs)) s =
      Ok (seg_end p us, chain_first vs, s') \<and> mm_hdr s' = mm_hdr s"
  using assms
proof (induction us arbitrary: p s fuel)
  case Nil
  then obtain f where "fuel = Suc f" by (cases fuel) auto
  then show ?case using Nil.prems(3) by (auto simp: seg_end_def not_less)
next
  case (Cons u us)
  obtain a n where u: "u = (a, n)" by (cases u)
  obtain f where f: "fuel = Suc f" "length us < f" using Cons.prems(4) by (cases fuel) auto
  let ?s1 = "mm_if (mo_cacheEnabled obj) (Cache_inv a sizeof_HeapMemMP_Header) s"
  have H: "a \<noteq> NULL" "mh_size (mm_hdr s a) = n" "hchain M (mm_hdr s) a (us @ vs)"
    using Cons.prems(1) u by auto
  have "hchain M (mm_hdr ?s1) a (us @ vs)" using H(3) by simp
  then obtain s' where s': "HeapMemMP_free_loop M obj new f a (chain_first (us @ vs)) ?s1 =
      Ok (seg_end a us, chain_first vs, s')" "mm_hdr s' = mm_hdr s"
    using Cons.IH [of ?s1 a f] Cons.prems(2,3) f(2) by auto
  have "HeapMemMP_free_loop M obj new fuel p (chain_first ((u # us) @ vs)) s =
      HeapMemMP_free_loop M obj new f a (chain_first (us @ vs)) ?s1"
    using H Cons.prems(2) u hchain_first [OF H(3)] by (simp add: f(1) Let_def)
  moreover have "seg_end p (u # us) = seg_end a us" by (simp add: seg_end_def u)
  ultimately show ?case using s' by simp
qed

lemma join_next_touch:
  assumes "nxt \<noteq> NULL" and "new + sz = nxt" and "nxt \<noteq> new"
  shows "\<exists>sz1 t'. HeapMemMP_join_next M obj new sz nxt t = Ok (sz1, t') \<and>
    mm_hdr t' = (mm_hdr t)(new := (mm_hdr t new)\<lparr>mh_next := mh_next (mm_hdr t nxt),
      mh_size := mh_size (mm_hdr t new) + mh_size (mm_hdr t nxt)\<rparr>)"
  using assms by (simp add: HeapMemMP_join_next_def Let_def)

text \<open>
  What joining leaves behind \<open>cur\<close>: the freed block, grown by a successor it touches, or, when
  \<open>cur\<close> is a block that ends where it begins, nothing but a larger \<open>cur\<close>.
\<close>

lemma join_links:
  assumes chain: "hchain M (mm_hdr s) cur vs"
    and new: "heap_addr M (mo_regionId obj) new"
    and others: "\<forall>(b, k) \<in> set vs. b \<noteq> new \<and> b \<noteq> cur"
    and first: "vs \<noteq> [] \<Longrightarrow> heap_addr M (mo_regionId obj) (chain_first vs)"
    and above: "vs \<noteq> [] \<Longrightarrow> new + sz \<le> chain_first vs" and cn: "cur \<noteq> new"
  shows "\<exists>s' n' ys. HeapMemMP_join M obj new sz cur (chain_first vs) s = Ok s' \<and>
    (case vs of (b, k) # us \<Rightarrow> if new + sz = b then n' = sz + k \<and> ys = us else n' = sz \<and> ys = vs
     | [] \<Rightarrow> n' = sz \<and> ys = vs) \<and>
    (if cur \<noteq> HeapMemMP_head obj \<and> cur + mh_size (mm_hdr s cur) = new
     then mh_size (mm_hdr s' cur) = mh_size (mm_hdr s cur) + n' \<and> hchain M (mm_hdr s') cur ys
     else mh_size (mm_hdr s' cur) = mh_size (mm_hdr s cur) \<and>
          hchain M (mm_hdr s') cur ((new, n') # ys)) \<and>
    (\<forall>x. x \<noteq> cur \<longrightarrow> x \<noteq> new \<longrightarrow> mm_hdr s' x = mm_hdr s x)"
proof -
  have vs: "\<And>b k. (b, k) \<in> set vs \<Longrightarrow> b \<noteq> new \<and> b \<noteq> cur" using others by auto
  obtain pw where pw: "SharedRegion_getSRPtr M new (mo_regionId obj) = Ok pw"
    "SharedRegion_getPtr M pw = Ok new" "new \<noteq> NULL"
    using heap_addrE [OF new] .
  obtain pn where pn: "SharedRegion_getSRPtr M (chain_first vs) (mo_regionId obj) = Ok pn"
    "SharedRegion_getPtr M pn = Ok (chain_first vs)"
  proof (cases "vs = []")
    case True
    then show ?thesis using that getSRPtr_NULL getPtr_invalid by simp
  next
    case False
    then show ?thesis using that first heap_addrE by blast
  qed
  have nn: "chain_first vs \<noteq> NULL \<longleftrightarrow> vs \<noteq> []" using chain by (cases vs) auto
  define H where "H = (mm_hdr s)(new := (mm_hdr s new)\<lparr>mh_next := pn, mh_size := sz\<rparr>,
                                 cur := (mm_hdr s cur)\<lparr>mh_next := pw\<rparr>)"
  define touch where "touch \<longleftrightarrow> vs \<noteq> [] \<and> new + sz = chain_first vs"
  define n' where "n' = (if touch then sz + snd (hd vs) else sz)"
  define ys where "ys = (if touch then tl vs else vs)"
  define H3 where "H3 = (if touch
    then H(new := (H new)\<lparr>mh_next := mh_next (H (chain_first vs)), mh_size := n'\<rparr>) else H)"
  define merge where "merge \<longleftrightarrow> cur \<noteq> HeapMemMP_head obj \<and> cur + mh_size (mm_hdr s cur) = new"
  define H4 where "H4 = (if merge
    then H3(cur := (H3 cur)\<lparr>mh_next := mh_next (H3 new), mh_size := mh_size (H3 cur) + n'\<rparr>) else H3)"
  have H3cur: "H3 cur = (mm_hdr s cur)\<lparr>mh_next := pw\<rparr>"
    and H3new: "mh_size (H3 new) = n'"
    and H3x: "\<And>x. x \<noteq> cur \<Longrightarrow> x \<noteq> new \<Longrightarrow> H3 x = mm_hdr s x"
    using cn by (auto simp: H3_def H_def n'_def)
  have "\<exists>s'. HeapMemMP_join M obj new sz cur (chain_first vs) s = Ok s' \<and> mm_hdr s' = H4"
  proof -
    let ?s2 = "set_hnext cur pw (set_hsize new sz (set_hnext new pn s))"
    have H2: "mm_hdr ?s2 = H" using cn by (simp add: H_def)
    have "\<exists>sz1 s3. HeapMemMP_join_next M obj new sz (chain_first vs) ?s2 = Ok (sz1, s3) \<and>
        mm_hdr s3 = H3"
    proof (cases touch)
      case True
      then obtain b k us where v: "vs = (b, k) # us" "new + sz = b"
        by (cases vs) (auto simp: touch_def)
      have k: "mh_size (mm_hdr s b) = k" "b \<noteq> NULL" "b \<noteq> new" "b \<noteq> cur"
        using chain v vs by auto
      have "mh_size (H b) = k" "mh_size (H new) = sz" using k cn by (simp_all add: H_def)
      then show ?thesis
        using join_next_touch [OF k(2) v(2) k(3), of M obj ?s2] True v H2 k
        by (auto simp: H3_def n'_def simp del: hdr_after)
    next
      case False
      then have "chain_first vs \<noteq> NULL \<Longrightarrow> new + sz \<le> chain_first vs \<and> new + sz \<noteq> chain_first vs"
        using above nn by (simp add: touch_def)
      then show ?thesis using False H2 by (auto simp: HeapMemMP_join_next_def H3_def)
    qed
    then obtain sz1 s3 where s3: "HeapMemMP_join_next M obj new sz (chain_first vs) ?s2 = Ok (sz1, s3)"
      "mm_hdr s3 = H3" by blast
    have "mm_hdr (HeapMemMP_join_prev obj new cur s3) = H4"
      using s3(2) H3cur H3new cn by (simp add: HeapMemMP_join_prev_def Let_def H4_def merge_def)
    then show ?thesis using pn(1) pw(1) s3(1) by (simp add: HeapMemMP_join_def Let_def)
  qed
  then obtain s' where run: "HeapMemMP_join M obj new sz cur (chain_first vs) s = Ok s'"
    "mm_hdr s' = H4" by blast
  have chain3: "hchain M H3 new ys"
  proof (cases touch)
    case True
    then obtain b k us where v: "vs = (b, k) # us" "new + sz = b" by (cases vs) (auto simp: touch_def)
    have "mh_next (H3 new) = mh_next (mm_hdr s b)"
      using True v vs by (auto simp: H3_def H_def)
    then have "hchain M H3 new us = hchain M (mm_hdr s) b us"
      by (rule hchain_cong) (use vs v H3x in auto)
    then show ?thesis using chain True v by (simp add: ys_def)
  next
    case False
    have "mh_next (H3 new) = pn" using False cn by (simp add: H3_def H_def)
    then have first3: "SharedRegion_getPtr M (mh_next (H3 new)) = Ok (chain_first vs)" using pn by simp
    show ?thesis
    proof (cases vs)
      case Nil
      then show ?thesis using first3 False by (simp add: ys_def)
    next
      case (Cons b us)
      obtain b' k where b: "b = (b', k)" by (cases b)
      have same: "H3 x = mm_hdr s x" if "(x, l) \<in> set vs" for x l
        using vs [OF that] by (intro H3x) auto
      have b3: "H3 b' = mm_hdr s b'" using same [of b' k] Cons b by simp
      moreover have "hchain M H3 b' us = hchain M (mm_hdr s) b' us"
        by (rule hchain_cong) (use same Cons b b3 in auto)
      ultimately show ?thesis using first3 False chain Cons b by (simp add: ys_def)
    qed
  qed
  have ys_vs: "set ys \<subseteq> set vs" by (cases vs) (auto simp: ys_def)
  have "(if merge
     then mh_size (H4 cur) = mh_size (mm_hdr s cur) + n' \<and> hchain M H4 cur ys
     else mh_size (H4 cur) = mh_size (mm_hdr s cur) \<and> hchain M H4 cur ((new, n') # ys))"
  proof (cases merge)
    case True
    have "mh_next (H4 cur) = mh_next (H3 new)" using True by (simp add: H4_def)
    then have "hchain M H4 cur ys = hchain M H3 new ys"
      by (rule hchain_cong) (use vs ys_vs True in \<open>auto simp: H4_def\<close>)
    then show ?thesis using True chain3 H3cur by (simp add: H4_def)
  next
    case False
    then show ?thesis using chain3 H3cur H3new pw by (simp add: H4_def)
  qed
  moreover have "\<forall>x. x \<noteq> cur \<longrightarrow> x \<noteq> new \<longrightarrow> H4 x = mm_hdr s x"
    using H3x by (simp add: H4_def)
  moreover have "case vs of (b, k) # us \<Rightarrow>
      if new + sz = b then n' = sz + k \<and> ys = us else n' = sz \<and> ys = vs
     | [] \<Rightarrow> n' = sz \<and> ys = vs"
    by (cases vs) (auto simp: touch_def n'_def ys_def)
  ultimately show ?thesis using run unfolding merge_def by blast
qed

text \<open>The place of an address in an ordered free list, and what is known around it.\<close>

lemma fl_place:
  assumes ok: "fl_ok g lo hi (map nblk bs)" and hi: "hi < 2 ^ 32"
    and sz: "0 < unat sz" "unat new + unat sz \<le> hi"
    and disj: "{unat new..<unat new + unat sz} \<inter> fl_cells (map nblk bs) = {}"
  obtains us vs where "bs = us @ vs"
    and "\<forall>(a, n) \<in> set us. unat a < unat new \<and> a < new \<and> a + n \<le> new \<and>
           unat (a + n) = unat a + unat n"
    and "\<forall>(b, k) \<in> set vs. unat new + unat sz \<le> unat b"
proof -
  let ?P = "\<lambda>(a, n). a < new"
  let ?us = "takeWhile ?P bs" and ?vs = "dropWhile ?P bs"
  have split: "bs = ?us @ ?vs" by simp
  have member: "lo \<le> unat a \<and> 0 < unat n \<and> unat a + unat n \<le> hi" if "(a, n) \<in> set bs" for a n
    using hchain_above [OF ok that] fl_ok_member [OF ok, of "unat a" "unat n"] that by force
  have cell: "unat a \<in> fl_cells (map nblk bs)" "c \<in> {unat a..<unat a + unat n} \<Longrightarrow> c \<in> fl_cells (map nblk bs)"
    if "(a, n) \<in> set bs" for a n c
    using member [OF that] that by (force simp: fl_cells_def)+
  have us: "unat a < unat new \<and> a < new \<and> a + n \<le> new \<and> unat (a + n) = unat a + unat n"
    if "(a, n) \<in> set ?us" for a n
  proof -
    have m: "(a, n) \<in> set bs" and less: "a < new" using set_takeWhileD [OF that] by auto
    have sum: "unat (a + n) = unat a + unat n"
      using member [OF m] hi by (intro unat_plus_no_wrap) simp
    have "unat new \<in> {unat new..<unat new + unat sz}" using sz(1) by simp
    then have "unat new \<notin> {unat a..<unat a + unat n}" using cell(2) [OF m] disj by blast
    then show ?thesis using less sum by (auto simp: word_less_nat_alt word_le_nat_alt)
  qed
  have above: "unat new + unat sz \<le> unat b" if "(b, k) \<in> set bs" "\<not> b < new" for b k
  proof -
    have "unat b \<notin> {unat new..<unat new + unat sz}" using cell(1) [OF that(1)] disj by blast
    then show ?thesis using that(2) by (auto simp: word_less_nat_alt)
  qed
  have vs: "unat new + unat sz \<le> unat b" if "(b, k) \<in> set ?vs" for b k
  proof -
    define w where "w = ?vs"
    have "(b, k) \<in> set w" using that by (simp add: w_def)
    then obtain v vs' where "w = v # vs'" by (cases w) auto
    then have v: "?vs = v # vs'" by (simp add: w_def)
    obtain b0 k0 where b0: "v = (b0, k0)" by (cases v)
    have "\<not> b0 < new" using v b0 hd_dropWhile [of ?P bs] by simp
    moreover have "(b0, k0) \<in> set bs" using v b0 set_dropWhileD [of v ?P bs] by simp
    ultimately have first: "unat new + unat sz \<le> unat b0" using above by blast
    have "fl_ok g lo hi (map nblk ?us @ map nblk (v # vs'))"
      using ok split v by (metis map_append)
    then have "fl_ok g lo hi (map nblk (v # vs'))" by (rule fl_ok_suffix)
    then have "b = b0 \<or> unat b0 \<le> unat b"
      using that v b0 fl_ok_member [of g "Suc (unat b0 + unat k0)" hi "map nblk vs'" "unat b" "unat k"]
      by force
    then show ?thesis using first by auto
  qed
  show ?thesis using that [OF split] us vs by blast
qed

text \<open>Putting the chain together again around the header the joining ended at.\<close>

definition joined ::
  "ptr \<Rightarrow> (ptr \<times> sizeT) list \<Rightarrow> ptr \<Rightarrow> sizeT \<Rightarrow> (ptr \<times> sizeT) list \<Rightarrow> (ptr \<times> sizeT) list" where
  "joined h us new n ys =
     (if us \<noteq> [] \<and> fst (last us) + snd (last us) = new
      then butlast us @ (fst (last us), snd (last us) + n) # ys
      else us @ (new, n) # ys)"

lemma joined_chain:
  assumes chain: "hchain M H h (us @ vs)" and c: "c = seg_end h us"
    and dist: "us \<noteq> [] \<Longrightarrow> h \<noteq> c" "h \<noteq> new"
      "\<And>b l. (b, l) \<in> set (butlast us) \<Longrightarrow> b \<noteq> c \<and> b \<noteq> new"
    and frame: "\<forall>x. x \<noteq> c \<longrightarrow> x \<noteq> new \<longrightarrow> H' x = H x"
    and res: "if us \<noteq> [] \<and> c + mh_size (H c) = new
      then mh_size (H' c) = mh_size (H c) + n \<and> hchain M H' c ys
      else mh_size (H' c) = mh_size (H c) \<and> hchain M H' c ((new, n) # ys)"
  shows "hchain M H' h (joined h us new n ys)"
proof (cases us rule: rev_cases)
  case Nil
  then show ?thesis using res c by (simp add: seg_end_def joined_def)
next
  case (snoc us' u)
  obtain a m where u: "u = (a, m)" by (cases u)
  have ca: "c = a" using snoc u c by (simp add: seg_end_def)
  have A: "hseg M H h us' a" "a \<noteq> NULL" "mh_size (H a) = m"
    using chain snoc u by (auto simp: hchain_split)
  have same: "H' x = H x" if "x = h \<or> (\<exists>l. (x, l) \<in> set us')" for x
    using that dist frame snoc by (cases "x = h") auto
  have seg: "hseg M H' h us' a"
    using A(1) same hseg_cong [of H' h H us' M a] by auto
  show ?thesis
    using res seg A(2,3) snoc u ca by (auto simp: joined_def hchain_split split: if_splits)
qed

lemma nblk_joined:
  assumes "us \<noteq> [] \<Longrightarrow> unat (fst (last us) + snd (last us)) = unat (fst (last us)) + unat (snd (last us))"
    and "us \<noteq> [] \<Longrightarrow> fst (last us) + snd (last us) = new \<Longrightarrow>
      unat (snd (last us) + n) = unat (snd (last us)) + unat n"
  shows "map nblk (joined h us new n ys) =
    (if map nblk us \<noteq> [] \<and> fst (last (map nblk us)) + snd (last (map nblk us)) = unat new
     then butlast (map nblk us) @
       (fst (last (map nblk us)), snd (last (map nblk us)) + unat n) # map nblk ys
     else map nblk us @ (unat new, unat n) # map nblk ys)"
proof (cases us rule: rev_cases)
  case (snoc us' u)
  obtain a m where u: "u = (a, m)" by (cases u)
  have "a + m = new \<longleftrightarrow> unat a + unat m = unat new"
    using assms(1) snoc u by (simp add: word_eq_unat)
  then show ?thesis using assms(2) snoc u by (simp add: joined_def butlast_append)
qed (simp add: joined_def)

text \<open>
  A place in a heap's free list: the blocks \<open>us\<close> below the freed range and \<open>vs\<close> above it.
\<close>

definition hm_place ::
  "SharedRegion_Module \<Rightarrow> HeapMemMP_Object \<Rightarrow> nat \<Rightarrow> ptr \<Rightarrow> sizeT \<Rightarrow>
   (ptr \<times> sizeT) list \<Rightarrow> (ptr \<times> sizeT) list \<Rightarrow> bool" where
  "hm_place M obj k addr sz us vs \<longleftrightarrow>
     hm_site M obj k \<and> fl_ok (2 ^ k) (unat (mo_buf obj)) (hm_hi obj) (map nblk (us @ vs)) \<and>
     2 ^ k dvd unat addr \<and> 0 < unat sz \<and>
     unat (mo_buf obj) \<le> unat addr \<and> unat addr + unat sz \<le> hm_hi obj \<and>
     (\<forall>(a, m) \<in> set us. unat a < unat addr \<and> a < addr \<and> a + m \<le> addr \<and>
           unat (a + m) = unat a + unat m) \<and>
     (\<forall>(b, l) \<in> set vs. unat addr + unat sz \<le> unat b)"

lemma hm_placeD:
  assumes "hm_place M obj k addr sz us vs"
  shows "hm_site M obj k"
    and "fl_ok (2 ^ k) (unat (mo_buf obj)) (hm_hi obj) (map nblk (us @ vs))"
    and "2 ^ k dvd unat addr" and "0 < unat sz" and "unat (mo_buf obj) \<le> unat addr"
    and "unat addr + unat sz \<le> hm_hi obj" and "unat (addr + sz) = unat addr + unat sz"
    and "(a, m) \<in> set us \<Longrightarrow> unat a < unat addr \<and> a < addr \<and> a + m \<le> addr \<and>
           unat (a + m) = unat a + unat m"
    and "(b, l) \<in> set vs \<Longrightarrow> unat addr + unat sz \<le> unat b"
proof -
  note P = assms [unfolded hm_place_def]
  show "hm_site M obj k"
    and "fl_ok (2 ^ k) (unat (mo_buf obj)) (hm_hi obj) (map nblk (us @ vs))"
    and "2 ^ k dvd unat addr" and "0 < unat sz" and "unat (mo_buf obj) \<le> unat addr"
    and hi: "unat addr + unat sz \<le> hm_hi obj"
    and "(a, m) \<in> set us \<Longrightarrow> unat a < unat addr \<and> a < addr \<and> a + m \<le> addr \<and>
           unat (a + m) = unat a + unat m"
    and "(b, l) \<in> set vs \<Longrightarrow> unat addr + unat sz \<le> unat b"
    using P by blast+
  show "unat (addr + sz) = unat addr + unat sz"
    using hi hm_siteD(4) [of M obj k] P by (intro unat_plus_no_wrap) simp
qed

lemma hm_place_member:
  assumes "hm_place M obj k addr sz us vs" and "(a, m) \<in> set (us @ vs)"
  shows "unat (mo_buf obj) \<le> unat a" and "0 < unat m" and "unat a + unat m \<le> hm_hi obj"
    and "heap_addr M (mo_regionId obj) a" and "HeapMemMP_head obj \<noteq> a"
proof -
  note P = hm_placeD [OF assms(1)]
  have "nblk (a, m) \<in> nblk ` set (us @ vs)" using assms(2) by (rule imageI)
  then have "(unat a, unat m) \<in> set (map nblk (us @ vs))" unfolding set_map nblk_simp .
  from fl_ok_member [OF P(2) this]
  show F: "unat (mo_buf obj) \<le> unat a" "0 < unat m" "unat a + unat m \<le> hm_hi obj"
    and "heap_addr M (mo_regionId obj) a"
    using hm_site_addr [OF P(1)] by auto
  show "HeapMemMP_head obj \<noteq> a" using F(1) hm_siteD(5) [OF P(1)] by auto
qed

lemma hm_place_end:
  assumes "hm_place M obj k addr sz us vs"
  shows "unat (seg_end (HeapMemMP_head obj) us) < unat addr"
    and "seg_end (HeapMemMP_head obj) us \<noteq> HeapMemMP_head obj \<longleftrightarrow> us \<noteq> []"
proof -
  note P = hm_placeD [OF assms] and S = hm_siteD [OF hm_placeD(1) [OF assms]]
  have lst: "(fst (last us), snd (last us)) \<in> set us" if "us \<noteq> []" using that by simp
  have "unat (fst (last us)) < unat addr" if "us \<noteq> []" using P(8) [OF lst [OF that]] by blast
  then show "unat (seg_end (HeapMemMP_head obj) us) < unat addr"
    using P(5) S(5) by (auto simp: seg_end_def)
  show "seg_end (HeapMemMP_head obj) us \<noteq> HeapMemMP_head obj \<longleftrightarrow> us \<noteq> []"
    using hm_place_member(5) [OF assms, of "fst (last us)" "snd (last us)"] lst
    by (auto simp: seg_end_def)
qed

text \<open>The abstract result of freeing at a place, in terms of what joining left.\<close>

lemma place_ff_free:
  assumes place: "hm_place M obj k addr sz us vs"
    and res: "case vs of (b, k) # ws \<Rightarrow> if addr + sz = b then n' = sz + k \<and> ys = ws
                else n' = sz \<and> ys = vs
     | [] \<Rightarrow> n' = sz \<and> ys = vs"
  shows "map nblk (joined h us addr n' ys) = ff_free (unat addr) (unat sz) (map nblk (us @ vs))"
proof -
  note P = hm_placeD [OF place] and S = hm_siteD [OF hm_placeD(1) [OF place]]
  have jr: "join_right (unat addr) (unat sz) (map nblk vs) = (unat n', map nblk ys)"
  proof (cases vs)
    case Nil
    then show ?thesis using res by (simp add: join_right_def)
  next
    case (Cons v vs')
    obtain b l where v: "v = (b, l)" by (cases v)
    have "unat b + unat l \<le> hm_hi obj" using hm_place_member(3) [OF place, of b l] Cons v by simp
    then have "addr + sz = b \<Longrightarrow> unat (sz + l) = unat sz + unat l"
      using P(7) S(4) by (intro unat_plus_no_wrap) auto
    moreover have "addr + sz = b \<longleftrightarrow> unat addr + unat sz = unat b"
      using P(7) by (simp add: word_eq_unat)
    ultimately show ?thesis using res Cons v by (auto simp: join_right_def split: if_splits)
  qed
  have below: "\<forall>(a, m)\<in>set (map nblk us). a < unat addr" using P(8) by auto
  have above: "case map nblk vs of [] \<Rightarrow> True | (b, k) # _ \<Rightarrow> unat addr \<le> b"
    using P(9) by (cases vs) fastforce+
  let ?u = "map nblk us"
  have ff: "ff_free (unat addr) (unat sz) (map nblk (us @ vs)) =
    (if ?u \<noteq> [] \<and> fst (last ?u) + snd (last ?u) = unat addr
     then butlast ?u @ (fst (last ?u), snd (last ?u) + unat n') # map nblk ys
     else ?u @ (unat addr, unat n') # map nblk ys)"
    unfolding map_append
    by (rule ff_free_split [OF P(2) [unfolded map_append] below above P(4) jr])
  have lst: "us \<noteq> [] \<Longrightarrow> (fst (last us), snd (last us)) \<in> set us" by simp
  have sum: "us \<noteq> [] \<Longrightarrow>
      unat (fst (last us) + snd (last us)) = unat (fst (last us)) + unat (snd (last us))"
    using lst P(8) by blast
  have n'_end: "unat addr + unat n' \<le> hm_hi obj"
  proof (cases vs)
    case (Cons v vs')
    obtain b l where v: "v = (b, l)" by (cases v)
    have bl: "unat b + unat l \<le> hm_hi obj" using hm_place_member(3) [OF place, of b l] Cons v by simp
    have "unat (sz + l) \<le> unat sz + unat l" by (simp add: unat_word_ariths)
    then show ?thesis using res Cons v bl P(6,7) by (auto split: if_splits)
  qed (use res P(6) in simp)
  have wide: "unat (snd (last us) + n') = unat (snd (last us)) + unat n'"
    if "us \<noteq> []" "fst (last us) + snd (last us) = addr"
    using sum [OF that(1)] that(2) n'_end S(4) by (intro unat_plus_no_wrap) auto
  show ?thesis unfolding ff by (rule nblk_joined [OF sum wide])
qed

text \<open>Freeing at a place: linking in and joining.\<close>

lemma join_refines:
  assumes place: "hm_place M obj k addr sz us vs"
    and chain: "hchain M (mm_hdr s) (HeapMemMP_head obj) (us @ vs)"
  shows "\<exists>s' bs'. HeapMemMP_join M obj addr sz (seg_end (HeapMemMP_head obj) us) (chain_first vs) s =
      Ok s' \<and> hchain M (mm_hdr s') (HeapMemMP_head obj) bs' \<and>
    map nblk bs' = ff_free (unat addr) (unat sz) (map nblk (us @ vs)) \<and>
    (\<forall>x. x \<noteq> seg_end (HeapMemMP_head obj) us \<longrightarrow> x \<noteq> addr \<longrightarrow> mm_hdr s' x = mm_hdr s x)"
proof -
  let ?h = "HeapMemMP_head obj"
  define c where "c = seg_end (HeapMemMP_head obj) us"
  note P = hm_placeD [OF place] and S = hm_siteD [OF hm_placeD(1) [OF place]]
  note E = hm_place_end [OF place, folded c_def]
  have addr_ok: "heap_addr M (mo_regionId obj) addr"
    using hm_site_addr [OF P(1,5) _ P(3)] P(4,6) by simp
  have ne: "\<forall>(b, l) \<in> set vs. b \<noteq> addr \<and> b \<noteq> c"
    using P(9) P(4) E(1) by force
  have fst: "(chain_first vs, snd (hd vs)) \<in> set vs" if "vs \<noteq> []"
    using that by (cases vs) auto
  have first: "heap_addr M (mo_regionId obj) (chain_first vs)" if "vs \<noteq> []"
    by (rule hm_place_member(4) [OF place, of _ "snd (hd vs)"]) (use fst [OF that] in simp)
  have above: "addr + sz \<le> chain_first vs" if "vs \<noteq> []"
    using P(9) [OF fst [OF that]] P(7) by (simp add: word_le_nat_alt)
  have ca: "c \<noteq> addr" using E(1) by auto
  have chc: "hchain M (mm_hdr s) c vs" unfolding c_def by (rule hchain_from_end [OF chain])
  note links = join_links [where obj = obj, OF chc addr_ok ne first above ca]
  obtain s' n' ys where J: "HeapMemMP_join M obj addr sz c (chain_first vs) s = Ok s'"
    "case vs of (b, k) # ws \<Rightarrow> if addr + sz = b then n' = sz + k \<and> ys = ws else n' = sz \<and> ys = vs
     | [] \<Rightarrow> n' = sz \<and> ys = vs"
    "if c \<noteq> ?h \<and> c + mh_size (mm_hdr s c) = addr
     then mh_size (mm_hdr s' c) = mh_size (mm_hdr s c) + n' \<and> hchain M (mm_hdr s') c ys
     else mh_size (mm_hdr s' c) = mh_size (mm_hdr s c) \<and> hchain M (mm_hdr s') c ((addr, n') # ys)"
    "\<forall>x. x \<noteq> c \<longrightarrow> x \<noteq> addr \<longrightarrow> mm_hdr s' x = mm_hdr s x"
    using links by blast
  have before: "b \<noteq> c \<and> b \<noteq> addr" if "(b, l) \<in> set (butlast us)" for b l
  proof (cases us rule: rev_cases)
    case Nil
    then show ?thesis using that by simp
  next
    case (snoc us' u)
    obtain a m where u: "u = (a, m)" by (cases u)
    have m: "(b, l) \<in> set us'" using that snoc by simp
    then have "nblk (b, l) \<in> set (map nblk us')" by force
    moreover have "fl_ok (2 ^ k) (unat (mo_buf obj)) (hm_hi obj)
        (map nblk us' @ (unat a, unat m) # map nblk vs)"
      using P(2) snoc u by simp
    ultimately have "unat b < unat a" using fl_ok_before by force
    then show ?thesis using P(8) [of b l] m snoc u c_def by (auto simp: seg_end_def)
  qed
  have "hchain M (mm_hdr s') ?h (joined ?h us addr n' ys)"
    by (rule joined_chain [OF chain c_def _ _ before J(4)])
      (use E(2) S(5) P(5) J(3) in auto)
  then show ?thesis using J(1,4) place_ff_free [OF place J(2), of ?h] unfolding c_def by blast
qed

text \<open>The size that is rounded up fits, when the range it ends up with does.\<close>

lemma round_up_fits:
  assumes "k < 32" and "round_up n (2 ^ k) < 2 ^ 32"
  shows "n + 2 ^ k \<le> 2 ^ 32"
proof -
  have R: "n \<le> round_up n (2 ^ k)" "2 ^ k dvd round_up n (2 ^ k)"
    using round_up_bounds [of "2 ^ k" n] by simp_all
  obtain i where i: "round_up n (2 ^ k) = 2 ^ k * i" using R(2) by (auto simp: dvd_def)
  have e: "(2::nat) ^ 32 = 2 ^ k * 2 ^ (32 - k)" using assms(1) by (simp flip: power_add)
  have "2 ^ k * i < 2 ^ k * 2 ^ (32 - k)" using assms(2) i e by simp
  then have "Suc i \<le> 2 ^ (32 - k)" by simp
  then have "2 ^ k * Suc i \<le> 2 ^ 32" unfolding e by (rule mult_le_mono2)
  then show ?thesis using R(1) i by simp
qed

lemma HeapMemMP_free_refines:
  assumes inv: "hm_inv M obj k s bs" and n: "n \<noteq> 0" and d: "2 ^ k dvd unat addr"
    and range: "unat (mo_buf obj) \<le> unat addr"
      "unat addr + round_up (unat n) (2 ^ k) \<le> hm_hi obj"
    and disj: "{unat addr..<unat addr + round_up (unat n) (2 ^ k)} \<inter> fl_cells (map nblk bs) = {}"
    and fuel: "length bs < fuel"
  shows "\<exists>s' bs'. HeapMemMP_free M fuel obj addr n s = Ok s' \<and> hm_inv M obj k s' bs' \<and>
    map nblk bs' = ff_free (unat addr) (round_up (unat n) (2 ^ k)) (map nblk bs) \<and>
    (\<forall>x. x \<noteq> HeapMemMP_head obj \<longrightarrow> x \<noteq> addr \<longrightarrow> unat x \<notin> fl_cells (map nblk bs) \<longrightarrow>
         mm_hdr s' x = mm_hdr s x)"
proof -
  have site: "hm_site M obj k" and chain: "hchain M (mm_hdr s) (HeapMemMP_head obj) bs"
    and ok: "fl_ok (2 ^ k) (unat (mo_buf obj)) (hm_hi obj) (map nblk bs)"
    using inv by (simp_all add: hm_inv_def)
  note S = hm_siteD [OF site]
  let ?h = "HeapMemMP_head obj" and ?sz = "adjust_size obj n"
  have R: "unat n \<le> round_up (unat n) (2 ^ k)" "2 ^ k dvd round_up (unat n) (2 ^ k)"
    using round_up_bounds [of "2 ^ k" "unat n"] by simp_all
  have sz: "unat ?sz = round_up (unat n) (2 ^ k)"
    using range(2) S(4) by (intro unat_adjust_size [OF S(3,2)] round_up_fits [OF S(2)]) linarith
  have sz0: "0 < unat ?sz" using sz R(1) n by (simp add: word_eq_unat)
  have end_le: "unat addr + unat ?sz \<le> hm_hi obj" using range(2) sz by simp
  have free: "{unat addr..<unat addr + unat ?sz} \<inter> fl_cells (map nblk bs) = {}"
    using disj sz by simp
  obtain us vs where bs: "bs = us @ vs"
    and parts: "\<forall>(a, m) \<in> set us. unat a < unat addr \<and> a < addr \<and> a + m \<le> addr \<and>
           unat (a + m) = unat a + unat m"
      "\<forall>(b, l) \<in> set vs. unat addr + unat ?sz \<le> unat b"
    by (rule fl_place [OF ok S(4) sz0 end_le free])
  have place: "hm_place M obj k addr ?sz us vs"
    unfolding hm_place_def using site ok d sz0 range(1) end_le parts bs by blast
  note P = hm_placeD [OF place]
  define s2 where "s2 = mm_if (mo_cacheEnabled obj) (Cache_inv ?h sizeof_HeapMemMP_Header)
    (mm_ev (Gate_enter (mo_gate obj)) (mm_if (mo_cacheEnabled obj) (Cache_inv addr ?sz) s))"
  have h2: "mm_hdr s2 = mm_hdr s" by (simp add: s2_def)
  have ch2: "hchain M (mm_hdr s2) ?h (us @ vs)" using chain h2 bs by simp
  have "chain_first vs = NULL \<or> addr \<le> chain_first vs"
    using P(9) by (cases vs) (fastforce simp: word_le_nat_alt)+
  moreover have "\<forall>(a, m) \<in> set us. a < addr \<and> a + m \<le> addr" using P(8) by auto
  ultimately obtain s3 where s3: "HeapMemMP_free_loop M obj addr fuel ?h (chain_first bs) s2 =
      Ok (seg_end ?h us, chain_first vs, s3)" "mm_hdr s3 = mm_hdr s"
    using free_loop_finds [OF ch2, of addr fuel obj] fuel bs h2 by auto
  have "hchain M (mm_hdr s3) ?h (us @ vs)" using ch2 h2 s3(2) by simp
  from join_refines [OF place this] obtain s4 bs' where
    J: "HeapMemMP_join M obj addr ?sz (seg_end ?h us) (chain_first vs) s3 = Ok s4"
    "hchain M (mm_hdr s4) ?h bs'"
    "map nblk bs' = ff_free (unat addr) (unat ?sz) (map nblk bs)"
    "\<forall>x. x \<noteq> seg_end ?h us \<longrightarrow> x \<noteq> addr \<longrightarrow> mm_hdr s4 x = mm_hdr s x"
    using s3(2) bs by auto
  let ?s5 = "mm_ev (Gate_leave (mo_gate obj)) s4"
  have al: "mo_minAlign obj \<noteq> 0" "addr mod mo_minAlign obj = 0"
    using S(2,3) d unat_pow2 [where 'a = 32, of k]
    by (simp_all add: word_eq_unat unat_mod_distrib mod_eq_0_iff_dvd)
  have "unat (mo_buf obj + mo_bufSize obj) = hm_hi obj"
    using S(4) unfolding hm_hi_def by (intro unat_plus_no_wrap) simp
  then have "mo_buf obj \<le> addr \<and> addr + ?sz \<le> mo_buf obj + mo_bufSize obj"
    using range P(7) sz by (simp add: word_le_nat_alt)
  then have run: "HeapMemMP_free M fuel obj addr n s = Ok ?s5"
    using al s3(1) J(1) hchain_first [OF chain] h2
    unfolding HeapMemMP_free_def Let_def s2_def [symmetric] by simp
  have "seg_end ?h us = ?h \<or> unat (seg_end ?h us) \<in> fl_cells (map nblk bs)"
  proof (cases us rule: rev_cases)
    case (snoc us' u)
    then show ?thesis
      using hm_place_member(2) [OF place, of "fst u" "snd u"] bs by (cases u) (simp add: seg_end_def)
  qed (simp add: seg_end_def)
  then have frame: "\<forall>x. x \<noteq> ?h \<longrightarrow> x \<noteq> addr \<longrightarrow> unat x \<notin> fl_cells (map nblk bs) \<longrightarrow>
      mm_hdr ?s5 x = mm_hdr s x"
    using J(4) unfolding hdr_after(1) by metis
  have "fl_ok (2 ^ k) (unat (mo_buf obj)) (hm_hi obj) (map nblk bs')"
    using ff_free_ok [OF ok range(1) sz0 _ d] range(2) disj sz R(2) J(3) by simp
  then have "hm_inv M obj k ?s5 bs'" using site J(2) by (simp add: hm_inv_def)
  then show ?thesis using run frame J(3) sz by auto
qed

section \<open>Heaps from creation on\<close>

text \<open>After \<open>HeapMemMP_restore\<close> the whole buffer is one free block.\<close>

lemma HeapMemMP_restore_inv:
  assumes site: "hm_site M obj k" and sz: "mo_bufSize obj \<noteq> 0"
    and buf: "SharedRegion_getPtr M (ma_bufPtr (mm_attrs s (mo_attrs obj))) = Ok (mo_buf obj)"
  shows "hm_inv M obj k (HeapMemMP_restore M obj s) [(mo_buf obj, mo_bufSize obj)]"
proof -
  note S = hm_siteD [OF site]
  have nh: "HeapMemMP_head obj \<noteq> mo_buf obj" and nz: "mo_buf obj \<noteq> NULL"
    using S(5) by auto
  have "mm_hdr (HeapMemMP_restore M obj s) =
      (mm_hdr s)(mo_buf obj := (mm_hdr s (mo_buf obj))\<lparr>mh_next := SharedRegion_invalidSRPtr M,
                   mh_size := mo_bufSize obj\<rparr>,
                 HeapMemMP_head obj := (mm_hdr s (HeapMemMP_head obj))
                   \<lparr>mh_next := ma_bufPtr (mm_attrs s (mo_attrs obj))\<rparr>)"
    using nh by (auto simp: HeapMemMP_restore_def Let_def fun_eq_iff)
  then have "hchain M (mm_hdr (HeapMemMP_restore M obj s)) (HeapMemMP_head obj)
      [(mo_buf obj, mo_bufSize obj)]"
    using nh nz buf getPtr_invalid by simp
  moreover have "0 < unat (mo_bufSize obj)" using sz by (simp add: word_eq_unat)
  ultimately show ?thesis using site S(6,7) by (simp add: hm_inv_def hm_hi_def)
qed

lemma set_mattrs_after [simp]:
  "mm_hdr (set_mattrs a v s) = mm_hdr s"
  "mm_attrs (set_mattrs a v s) = (mm_attrs s)(a := v)"
  by (simp_all add: set_mattrs_def)

lemma restore_attrs [simp]: "mm_attrs (HeapMemMP_restore M obj s) = mm_attrs s"
  by (simp add: HeapMemMP_restore_def Let_def)

lemma hm_inv_cong: "mm_hdr s' = mm_hdr s \<Longrightarrow> hm_inv M obj k s' bs = hm_inv M obj k s bs"
  by (simp add: hm_inv_def)

text \<open>
  Creating a heap at an address: with the object the code computes on a proper site, the heap
  comes up with its whole buffer free and its attributes filled in.
\<close>

lemma HeapMemMP_postInit_inv:
  assumes at: "mo_attrs obj \<noteq> NULL"
    and cls: "SharedRegion_getCacheLineSize M (mo_regionId obj) = Ok cls" "cls \<le> mo_bufSize obj"
    and obj': "obj' = obj\<lparr>mo_buf := Ipc_roundup (mo_buf obj) (mo_minAlign obj),
      mo_bufSize := (mo_bufSize obj div mo_minAlign obj) * mo_minAlign obj\<rparr>"
    and site: "hm_site M obj' k" and sz: "mo_bufSize obj' \<noteq> 0"
  shows "\<exists>s'. HeapMemMP_postInit M env obj s = Ok (False, obj', s') \<and>
    hm_inv M obj' k s' [(mo_buf obj', mo_bufSize obj')] \<and>
    ma_status (mm_attrs s' (mo_attrs obj)) = HeapMemMP_CREATED \<and>
    SharedRegion_getPtr M (ma_bufPtr (mm_attrs s' (mo_attrs obj))) = Ok (mo_buf obj') \<and>
    ma_gateMPAddr (mm_attrs s' (mo_attrs obj)) = env_gateAddr env (mo_gate obj) \<and>
    mh_size (mm_hdr s' (HeapMemMP_head obj')) = mo_bufSize obj'"
proof -
  note S = hm_siteD [OF site]
  have eqs: "mo_attrs obj' = mo_attrs obj" "mo_minAlign obj' = mo_minAlign obj"
    "mo_regionId obj' = mo_regionId obj" "mo_gate obj' = mo_gate obj"
    "HeapMemMP_head obj' = HeapMemMP_head obj"
    using obj' by (simp_all add: HeapMemMP_head_def)
  have mA: "mo_minAlign obj \<noteq> 0"
    using S(2,3) eqs(2) unat_pow2 [where 'a = 32, of k] by (auto simp: word_eq_unat)
  have "unat (mo_buf obj') < hm_hi obj'"
    using sz by (simp add: hm_hi_def word_eq_unat)
  then obtain p where p: "SharedRegion_getSRPtr M (mo_buf obj') (mo_regionId obj) = Ok p"
    "SharedRegion_getPtr M p = Ok (mo_buf obj')"
    using hm_site_addr [OF site order_refl _ S(6)] heap_addrE eqs(3) by metis
  let ?at = "mo_attrs obj" and ?h = "HeapMemMP_head obj'"
  define s2 where "s2 = set_hsize ?h (mo_bufSize obj')
    (set_mattrs ?at ((mm_attrs s ?at)\<lparr>ma_gateMPAddr := env_gateAddr env (mo_gate obj'),
       ma_bufPtr := p\<rparr>) s)"
  let ?s3 = "HeapMemMP_restore M obj' s2"
  let ?s4 = "set_mattrs ?at ((mm_attrs ?s3 ?at)\<lparr>ma_status := HeapMemMP_CREATED\<rparr>) ?s3"
  let ?s5 = "mm_if (mo_cacheEnabled obj') (Cache_wbInv ?at sizeof_HeapMemMP_Attrs) ?s4"
  have run: "HeapMemMP_postInit M env obj s = Ok (False, obj', ?s5)"
    using at cls mA p(1) eqs
    by (simp add: HeapMemMP_postInit_def Let_def s2_def obj' [symmetric])
  have "hm_inv M obj' k ?s3 [(mo_buf obj', mo_bufSize obj')]"
    by (rule HeapMemMP_restore_inv [OF site sz]) (simp add: s2_def eqs p(2))
  then have "hm_inv M obj' k ?s5 [(mo_buf obj', mo_bufSize obj')]"
    by (simp cong: hm_inv_cong)
  moreover have "?h \<noteq> mo_buf obj'" using S(5) by auto
  then have "mh_size (mm_hdr ?s5 ?h) = mo_bufSize obj'"
    by (simp add: HeapMemMP_restore_def Let_def s2_def)
  ultimately show ?thesis using run p(2) eqs by (simp add: s2_def)
qed

text \<open>A valid region's memory requirement comes out as 0.\<close>

lemma HeapMemMP_sharedMemReq_zero:
  assumes "rid \<noteq> SharedRegion_INVALIDREGIONID" and "sz \<noteq> 0"
  shows "HeapMemMP_sharedMemReq M NULL rid sz = Ok 0"
  using assms by (simp add: HeapMemMP_sharedMemReq_def Let_def)

section \<open>The statistics of a heap\<close>

lemma getStats_loop_sums:
  assumes "hchain M (mm_hdr s) p bs" and "fl_ok g lo hi (map nblk bs)" and "hi < 2 ^ 32"
    and "unat t + sum_list (map snd (map nblk bs)) < 2 ^ 32" and "length bs < fuel"
  shows "\<exists>t' l' s'. HeapMemMP_getStats_loop M obj fuel (chain_first bs) t l s = Ok (t', l', s') \<and>
    unat t' = unat t + sum_list (map snd (map nblk bs)) \<and>
    unat l' = fold max (map snd (map nblk bs)) (unat l) \<and> mm_hdr s' = mm_hdr s"
  using assms
proof (induction bs arbitrary: s p lo t l fuel)
  case Nil
  then obtain f where "fuel = Suc f" by (cases fuel) auto
  then show ?case by simp
next
  case (Cons b bs)
  obtain a n where b: "b = (a, n)" by (cases b)
  obtain f where f: "fuel = Suc f" "length bs < f" using Cons.prems(5) by (cases fuel) auto
  let ?s1 = "mm_if (mo_cacheEnabled obj) (Cache_inv a sizeof_HeapMemMP_Header) s"
  let ?l = "if l < n then n else l"
  have H: "a \<noteq> NULL" "mh_size (mm_hdr s a) = n" "hchain M (mm_hdr s) a bs"
    and tail: "fl_ok g (Suc (unat a + unat n)) hi (map nblk bs)"
    using Cons.prems(1,2) b by auto
  have t: "unat (t + n) = unat t + unat n"
    using Cons.prems(4) b by (intro unat_plus_no_wrap) simp
  have l: "unat ?l = max (unat n) (unat l)" by (simp add: word_less_nat_alt max_def)
  have "hchain M (mm_hdr ?s1) a bs" using H(3) by simp
  moreover have "unat (t + n) + sum_list (map snd (map nblk bs)) < 2 ^ 32"
    using Cons.prems(4) b t by simp
  ultimately obtain t' l' s' where
    R: "HeapMemMP_getStats_loop M obj f (chain_first bs) (t + n) ?l ?s1 = Ok (t', l', s')"
    "unat t' = unat (t + n) + sum_list (map snd (map nblk bs))"
    "unat l' = fold max (map snd (map nblk bs)) (unat ?l)" "mm_hdr s' = mm_hdr s"
    using Cons.IH [of ?s1 a "Suc (unat a + unat n)" "t + n" f ?l] tail f(2) Cons.prems(3) by auto
  have "HeapMemMP_getStats_loop M obj fuel (chain_first (b # bs)) t l s =
      HeapMemMP_getStats_loop M obj f (chain_first bs) (t + n) ?l ?s1"
    using H b hchain_first [OF H(3)] by (simp add: f(1) Let_def)
  then show ?case using R t l b by simp
qed

lemma HeapMemMP_getStats_inv:
  assumes inv: "hm_inv M obj k s bs" and fuel: "length bs < fuel"
  shows "\<exists>st s'. HeapMemMP_getStats M fuel obj s = Ok (st, s') \<and> hm_inv M obj k s' bs \<and>
    hs_totalSize st = mo_bufSize obj \<and>
    unat (hs_totalFreeSize st) = card (fl_cells (map nblk bs)) \<and>
    unat (hs_largestFreeSize st) = fold max (map snd (map nblk bs)) 0"
proof -
  have site: "hm_site M obj k" and chain: "hchain M (mm_hdr s) (HeapMemMP_head obj) bs"
    and ok: "fl_ok (2 ^ k) (unat (mo_buf obj)) (hm_hi obj) (map nblk bs)"
    using inv by (simp_all add: hm_inv_def)
  note S = hm_siteD [OF site]
  let ?h = "HeapMemMP_head obj"
  define s1 where "s1 = mm_if (mo_cacheEnabled obj) (Cache_inv ?h sizeof_HeapMemMP_Header)
    (mm_ev (Gate_enter (mo_gate obj)) s)"
  have h1: "mm_hdr s1 = mm_hdr s" by (simp add: s1_def)
  have ch: "hchain M (mm_hdr s1) ?h bs" using chain h1 by simp
  note card = fl_cells_card [OF ok]
  have "fl_cells (map nblk bs) \<subseteq> {0..<hm_hi obj}" using fl_cells_bounds [OF ok] by auto
  then have "card (fl_cells (map nblk bs)) \<le> hm_hi obj"
    by (metis card_atLeastLessThan card_mono diff_zero finite_atLeastLessThan)
  then have "unat (0::u32) + sum_list (map snd (map nblk bs)) < 2 ^ 32" using S(4) card by simp
  from getStats_loop_sums [OF ch ok S(4) this fuel, of obj 0] obtain t l s2 where
    R: "HeapMemMP_getStats_loop M obj fuel (chain_first bs) 0 0 s1 = Ok (t, l, s2)"
    "unat t = card (fl_cells (map nblk bs))"
    "unat l = fold max (map snd (map nblk bs)) 0" "mm_hdr s2 = mm_hdr s"
    using card h1 by auto
  have "HeapMemMP_getStats M fuel obj s =
      Ok (\<lparr>hs_totalSize = mo_bufSize obj, hs_totalFreeSize = t, hs_largestFreeSize = l\<rparr>,
          mm_ev (Gate_leave (mo_gate obj)) s2)"
    using R(1) hchain_first [OF chain]
    unfolding HeapMemMP_getStats_def Let_def s1_def [symmetric] h1 by simp
  moreover have "hm_inv M obj k (mm_ev (Gate_leave (mo_gate obj)) s2) bs"
    using inv R(4) by (simp add: hm_inv_def)
  ultimately show ?thesis using R(2,3) by simp
qed

section \<open>The heap and its clients\<close>

text \<open>
  The bytes a block of the client takes up in the heap, and the invariant of a heap whose blocks
  \<open>L\<close> are in use: the free blocks and the blocks in use tile the buffer.
\<close>

definition hm_range :: "nat \<Rightarrow> ptr \<times> sizeT \<Rightarrow> nat set" where
  "hm_range k b = {unat (fst b)..<unat (fst b) + round_up (unat (snd b)) (2 ^ k)}"

definition hm_buffer :: "HeapMemMP_Object \<Rightarrow> nat set" where
  "hm_buffer obj = {unat (mo_buf obj)..<hm_hi obj}"

definition hm_tiles ::
  "HeapMemMP_Object \<Rightarrow> nat \<Rightarrow> (ptr \<times> sizeT) list \<Rightarrow> (ptr \<times> sizeT) set \<Rightarrow> bool" where
  "hm_tiles obj k bs L \<longleftrightarrow>
     (\<forall>b \<in> L. snd b \<noteq> 0 \<and> 2 ^ k dvd unat (fst b)) \<and>
     (\<forall>b \<in> L. \<forall>c \<in> L. b \<noteq> c \<longrightarrow> hm_range k b \<inter> hm_range k c = {}) \<and>
     (\<forall>b \<in> L. hm_range k b \<inter> fl_cells (map nblk bs) = {}) \<and>
     fl_cells (map nblk bs) \<union> (\<Union>b \<in> L. hm_range k b) = hm_buffer obj"

lemma hm_tilesD:
  assumes "hm_tiles obj k bs L"
  shows "b \<in> L \<Longrightarrow> snd b \<noteq> 0 \<and> 2 ^ k dvd unat (fst b)"
    and "b \<in> L \<Longrightarrow> c \<in> L \<Longrightarrow> b \<noteq> c \<Longrightarrow> hm_range k b \<inter> hm_range k c = {}"
    and "b \<in> L \<Longrightarrow> hm_range k b \<inter> fl_cells (map nblk bs) = {}"
    and "fl_cells (map nblk bs) \<union> (\<Union>b \<in> L. hm_range k b) = hm_buffer obj"
  using assms unfolding hm_tiles_def by blast+

definition hm_live ::
  "SharedRegion_Module \<Rightarrow> HeapMemMP_Object \<Rightarrow> nat \<Rightarrow> mm_mem \<Rightarrow> (ptr \<times> sizeT) set \<Rightarrow> bool" where
  "hm_live M obj k s L \<longleftrightarrow> (\<exists>bs. hm_inv M obj k s bs \<and> hm_tiles obj k bs L)"

text \<open>The requests the contract covers: not empty, aligned to a power of two, and small enough
  for the sums the search computes.\<close>

definition hm_req :: "nat \<Rightarrow> sizeT \<Rightarrow> sizeT \<Rightarrow> bool" where
  "hm_req k n al \<longleftrightarrow>
     n \<noteq> 0 \<and> (\<exists>j<32. al = 2 ^ j \<and> round_up (unat n) (2 ^ k) + 2 ^ max j k \<le> 2 ^ 32)"

lemma hm_range_start: "n \<noteq> 0 \<Longrightarrow> unat p \<in> hm_range k (p, n)"
  using round_up_bounds(1) [of "2 ^ k" "unat n"] by (simp add: hm_range_def word_eq_unat)

lemma hm_fuel:
  assumes "hm_inv M obj k s bs" and "unat (mo_bufSize obj) < fuel"
  shows "length bs < fuel"
proof -
  have ok: "fl_ok (2 ^ k) (unat (mo_buf obj)) (hm_hi obj) (map nblk bs)"
    using assms(1) by (simp add: hm_inv_def)
  have "fl_cells (map nblk bs) \<subseteq> hm_buffer obj"
    using fl_cells_bounds [OF ok] by (auto simp: hm_buffer_def)
  then have "card (fl_cells (map nblk bs)) \<le> card (hm_buffer obj)"
    by (intro card_mono) (simp_all add: hm_buffer_def)
  then have "card (fl_cells (map nblk bs)) \<le> unat (mo_bufSize obj)"
    by (simp add: hm_buffer_def hm_hi_def)
  then show ?thesis using fl_ok_length [OF ok] assms(2) by simp
qed

lemma hm_live_alloc:
  assumes live: "hm_live M obj k s L" and req: "hm_req k n al"
    and fuel: "unat (mo_bufSize obj) < fuel"
  shows "\<exists>p s'. HeapMemMP_alloc M fuel obj n al s = Ok (p, s') \<and>
    (p = NULL \<and> hm_live M obj k s' L \<or>
     p \<noteq> NULL \<and> unat p mod unat al = 0 \<and> p \<notin> fst ` L \<and> hm_live M obj k s' (insert (p, n) L))"
proof -
  obtain bs where inv: "hm_inv M obj k s bs" and T: "hm_tiles obj k bs L"
    using live by (auto simp: hm_live_def)
  obtain j where j: "j < 32" "al = 2 ^ j" "round_up (unat n) (2 ^ k) + 2 ^ max j k \<le> 2 ^ 32"
    and n: "n \<noteq> 0" using req by (auto simp: hm_req_def)
  have ok: "fl_ok (2 ^ k) (unat (mo_buf obj)) (hm_hi obj) (map nblk bs)" and site: "hm_site M obj k"
    using inv by (simp_all add: hm_inv_def)
  let ?sz = "round_up (unat n) (2 ^ k)"
  have sz: "0 < ?sz" "2 ^ k dvd ?sz"
    using round_up_bounds [of "2 ^ k" "unat n"] n by (simp_all add: word_eq_unat)
  note A = HeapMemMP_alloc_refines [OF inv n j(2,1,3) hm_fuel [OF inv fuel]]
  show ?thesis
  proof (cases "ff_alloc ?sz (2 ^ max j k) (map nblk bs)")
    case None
    then obtain s' where "HeapMemMP_alloc M fuel obj n al s = Ok (NULL, s')" "mm_hdr s' = mm_hdr s"
      using A by auto
    then show ?thesis using inv T by (auto simp: hm_live_def hm_inv_def)
  next
    case (Some r)
    obtain p ys where r: "r = (p, ys)" by (cases r)
    obtain q s' bs' where Q: "HeapMemMP_alloc M fuel obj n al s = Ok (q, s')" "unat q = p"
      "hm_inv M obj k s' bs'" "map nblk bs' = ys" using A Some r by auto
    have F: "fl_ok (2 ^ k) (unat (mo_buf obj)) (hm_hi obj) ys \<and> 2 ^ max j k dvd p \<and>
        unat (mo_buf obj) \<le> p \<and> p + ?sz \<le> hm_hi obj \<and>
        {p..<p + ?sz} \<subseteq> fl_cells (map nblk bs) \<and> fl_cells ys = fl_cells (map nblk bs) - {p..<p + ?sz}"
      using ff_alloc_Some [OF ok Some [unfolded r] _ _ sz] by (simp add: le_imp_power_dvd)
    have rng: "hm_range k (q, n) = {p..<p + ?sz}" using Q(2) by (simp add: hm_range_def)
    have sub: "hm_range k (q, n) \<subseteq> fl_cells (map nblk bs)" using F rng by simp
    have disj: "hm_range k b \<inter> hm_range k (q, n) = {}" if "b \<in> L" for b
      using T that sub unfolding hm_tiles_def by blast
    have "2 ^ k dvd p" "2 ^ j dvd p"
      using F by (auto intro: dvd_trans [rotated] simp: le_imp_power_dvd)
    then have "hm_tiles obj k bs' (insert (q, n) L)"
      using T n Q(2,4) F rng disj unfolding hm_tiles_def by (auto simp: Int_commute)
    moreover have "q \<noteq> NULL" using F Q(2) hm_siteD(5) [OF site] by auto
    moreover have "q \<notin> fst ` L"
    proof
      assume "q \<in> fst ` L"
      then obtain m where m: "(q, m) \<in> L" by auto
      then have "m \<noteq> 0" using T by (auto simp: hm_tiles_def)
      then show False using disj [OF m] hm_range_start [of m q k] hm_range_start [OF n, of q k] by blast
    qed
    moreover have "unat q mod unat al = 0"
      using \<open>2 ^ j dvd p\<close> Q(2) j unat_pow2 [where 'a = 32, of j] by (simp add: mod_eq_0_iff_dvd)
    ultimately show ?thesis using Q(1,3) by (auto simp: hm_live_def)
  qed
qed

lemma hm_live_free:
  assumes live: "hm_live M obj k s L" and b: "(p, n) \<in> L"
    and fuel: "unat (mo_bufSize obj) < fuel"
  shows "\<exists>s'. HeapMemMP_free M fuel obj p n s = Ok s' \<and> hm_live M obj k s' (L - {(p, n)})"
proof -
  obtain bs where inv: "hm_inv M obj k s bs" and T: "hm_tiles obj k bs L"
    using live by (auto simp: hm_live_def)
  have ok: "fl_ok (2 ^ k) (unat (mo_buf obj)) (hm_hi obj) (map nblk bs)"
    using inv by (simp add: hm_inv_def)
  let ?sz = "round_up (unat n) (2 ^ k)"
  have n: "n \<noteq> 0" and d: "2 ^ k dvd unat p" using T b by (auto simp: hm_tiles_def)
  have sz: "0 < ?sz" "2 ^ k dvd ?sz"
    using round_up_bounds [of "2 ^ k" "unat n"] n by (simp_all add: word_eq_unat)
  have rng: "hm_range k (p, n) = {unat p..<unat p + ?sz}" by (simp add: hm_range_def)
  have sub: "{unat p..<unat p + ?sz} \<subseteq> hm_buffer obj"
    using T b unfolding hm_tiles_def rng [symmetric] by blast
  have lo: "unat (mo_buf obj) \<le> unat p" and hi: "unat p + ?sz \<le> hm_hi obj"
    using sub sz(1) by (auto simp: hm_buffer_def)
  have disj: "{unat p..<unat p + ?sz} \<inter> fl_cells (map nblk bs) = {}"
    using T b unfolding hm_tiles_def rng [symmetric] by blast
  obtain s' bs' where R: "HeapMemMP_free M fuel obj p n s = Ok s'" "hm_inv M obj k s' bs'"
    "map nblk bs' = ff_free (unat p) ?sz (map nblk bs)"
    using HeapMemMP_free_refines [OF inv n d lo hi disj hm_fuel [OF inv fuel]] by blast
  have cells: "fl_cells (map nblk bs') = fl_cells (map nblk bs) \<union> hm_range k (p, n)"
    using ff_free_ok [OF ok lo sz(1) hi d sz(2) disj] R(3) rng by simp
  note D = hm_tilesD [OF T]
  have "hm_range k c \<inter> fl_cells (map nblk bs') = {}" if "c \<in> L - {(p, n)}" for c
    using D(2) [of c "(p, n)"] D(3) [of c] that b unfolding cells by blast
  moreover have "fl_cells (map nblk bs') \<union> (\<Union>c \<in> L - {(p, n)}. hm_range k c) = hm_buffer obj"
    using D(4) b unfolding cells by blast
  ultimately have "hm_tiles obj k bs' (L - {(p, n)})"
    using D(1,2) unfolding hm_tiles_def by simp
  then show ?thesis using R(1,2) by (auto simp: hm_live_def)
qed

lemma hm_live_apart:
  assumes "hm_live M obj k s L" and "b \<in> L" and "c \<in> L" and "b \<noteq> c"
  shows "fst b \<noteq> fst c \<and> block_bytes b \<inter> block_bytes c = {}"
proof -
  have D: "hm_range k b \<inter> hm_range k c = {}" "snd b \<noteq> 0" "snd c \<noteq> 0"
    using assms by (auto simp: hm_live_def hm_tiles_def)
  have sub: "block_bytes x \<subseteq> hm_range k x" for x
    using round_up_bounds(1) [of "2 ^ k" "unat (snd x)"] by (auto simp: block_bytes_def hm_range_def)
  have "fst b \<noteq> fst c"
    using D hm_range_start [of "snd b" "fst b" k] hm_range_start [of "snd c" "fst c" k] by auto
  then show ?thesis using D(1) sub [of b] sub [of c] by blast
qed

text \<open>
  The heap keeps the contract of the heaps, with fuel above the size of its buffer for the three
  loops.
\<close>

interpretation hm: block_heap "hm_live M obj k" "hm_req k"
  "HeapMemMP_alloc M (Suc (unat (mo_bufSize obj))) obj"
  "HeapMemMP_free M (Suc (unat (mo_bufSize obj))) obj"
  for M obj k
proof unfold_locales
  fix s L n al
  assume "hm_live M obj k s L" and "hm_req k n al"
  then show "\<exists>p s'. HeapMemMP_alloc M (Suc (unat (mo_bufSize obj))) obj n al s = Ok (p, s') \<and>
      (p = NULL \<and> hm_live M obj k s' L \<or>
       p \<noteq> NULL \<and> unat p mod unat al = 0 \<and> p \<notin> fst ` L \<and> hm_live M obj k s' (insert (p, n) L))"
    by (rule hm_live_alloc) simp
next
  fix s L p n
  assume "hm_live M obj k s L" and "(p, n) \<in> L"
  then show "\<exists>s'. HeapMemMP_free M (Suc (unat (mo_bufSize obj))) obj p n s = Ok s' \<and>
      hm_live M obj k s' (L - {(p, n)})"
    by (rule hm_live_free) simp
next
  fix s L b c
  assume "hm_live M obj k s L" and "b \<in> L" and "c \<in> L" and "b \<noteq> c"
  then show "fst b \<noteq> fst c \<and> block_bytes b \<inter> block_bytes c = {}"
    by (rule hm_live_apart)
qed

end
