(* ===== verification/Queues.thy ===== *)
theory Queues
imports IPC_Prelude "HOL-Library.Multiset"
begin

text \<open>
  The contract between the list modules and their clients: what \<open>put\<close>, \<open>putHead\<close>,
  \<open>get\<close> and \<open>getTail\<close> promise about the sequence of elements a list holds, as locales over
  any state, and what a client may conclude from it. \<open>ListMP\<close> and \<open>List\<close> interpret them.
  A last section has the contract of the message queues, which deliver by priority.
\<close>

section \<open>Runs of operations\<close>

text \<open>Operations that take the state and return a result and the new state, one after another.\<close>

fun run_ops :: "('op \<Rightarrow> 's \<Rightarrow> ('r \<times> 's) res) \<Rightarrow> 'op list \<Rightarrow> 's \<Rightarrow> ('r list \<times> 's) res" where
  "run_ops f [] s = Ok ([], s)"
| "run_ops f (op # ops) s =
     res_bind (f op s) (\<lambda>(r, s1). res_bind (run_ops f ops s1) (\<lambda>(rs, s2). Ok (r # rs, s2)))"

lemma run_ops_append:
  "run_ops f (xs @ ys) s =
     res_bind (run_ops f xs s) (\<lambda>(rs, s1).
       res_bind (run_ops f ys s1) (\<lambda>(qs, s2). Ok (rs @ qs, s2)))"
  by (induction xs arbitrary: s)
    (auto simp: res_bind_def split: res.splits prod.splits)

text \<open>
  A step function that implements a specification step as long as the specification allows the
  operation implements every allowed run.
\<close>

fun allowed_run :: "('op \<Rightarrow> 'a \<Rightarrow> bool) \<Rightarrow> ('op \<Rightarrow> 'a \<Rightarrow> 'r \<times> 'a) \<Rightarrow> 'op list \<Rightarrow> 'a \<Rightarrow> bool" where
  "allowed_run pre g [] a \<longleftrightarrow> True"
| "allowed_run pre g (op # ops) a \<longleftrightarrow> pre op a \<and> allowed_run pre g ops (snd (g op a))"

fun spec_run :: "('op \<Rightarrow> 'a \<Rightarrow> 'r \<times> 'a) \<Rightarrow> 'op list \<Rightarrow> 'a \<Rightarrow> 'r list \<times> 'a" where
  "spec_run g [] a = ([], a)"
| "spec_run g (op # ops) a =
     (let (r, a1) = g op a; (rs, a2) = spec_run g ops a1 in (r # rs, a2))"

lemma run_ops_refine:
  assumes step: "\<And>op s a. R s a \<Longrightarrow> pre op a \<Longrightarrow>
      \<exists>s'. f op s = Ok (fst (g op a), s') \<and> R s' (snd (g op a))"
    and "R s a" and "allowed_run pre g ops a"
  shows "\<exists>s'. run_ops f ops s = Ok (fst (spec_run g ops a), s') \<and> R s' (snd (spec_run g ops a))"
  using assms(2,3)
proof (induction ops arbitrary: s a)
  case Nil
  then show ?case by simp
next
  case (Cons op ops)
  then obtain s1 where s1: "f op s = Ok (fst (g op a), s1)" "R s1 (snd (g op a))"
    using step by force
  with Cons obtain s2 where "run_ops f ops s1 = Ok (fst (spec_run g ops (snd (g op a))), s2)"
    "R s2 (snd (spec_run g ops (snd (g op a))))" by force
  with s1 show ?case by (simp add: Let_def split_beta)
qed

section \<open>Queues\<close>

text \<open>The specification: a queue of elements, \<open>nil\<close> answering an empty one.\<close>

datatype 'e queue_op = Put 'e | Get

fun queue_spec :: "'e \<Rightarrow> 'e queue_op \<Rightarrow> 'e list \<Rightarrow> 'e \<times> 'e list" where
  "queue_spec nil (Put e) xs = (e, xs @ [e])"
| "queue_spec nil Get [] = (nil, [])"
| "queue_spec nil Get (x # xs) = (x, xs)"

fun queue_allowed :: "('e \<Rightarrow> bool) \<Rightarrow> 'e queue_op \<Rightarrow> 'e list \<Rightarrow> bool" where
  "queue_allowed fit (Put e) xs \<longleftrightarrow> fit e \<and> e \<notin> set xs"
| "queue_allowed fit Get xs \<longleftrightarrow> True"

text \<open>An implementation's operations as one step function; \<open>Put\<close> answers the element put.\<close>

fun queue_step ::
  "('e \<Rightarrow> 's \<Rightarrow> ('st \<times> 's) res) \<Rightarrow> ('s \<Rightarrow> ('e \<times> 's) res) \<Rightarrow> 'e queue_op \<Rightarrow> 's \<Rightarrow> ('e \<times> 's) res"
  where
  "queue_step put get (Put e) s = res_bind (put e s) (\<lambda>(st, s'). Ok (e, s'))"
| "queue_step put get Get s = get s"

locale queue =
  fixes repr :: "'s \<Rightarrow> 'e list \<Rightarrow> bool"
    and fit :: "'e \<Rightarrow> bool"
    and nil :: 'e
    and ok :: 'st
    and put :: "'e \<Rightarrow> 's \<Rightarrow> ('st \<times> 's) res"
    and get :: "'s \<Rightarrow> ('e \<times> 's) res"
  assumes get_empty: "repr s [] \<Longrightarrow> \<exists>s'. get s = Ok (nil, s') \<and> repr s' []"
    and get_first: "repr s (x # xs) \<Longrightarrow> \<exists>s'. get s = Ok (x, s') \<and> repr s' xs"
    and put_last: "repr s xs \<Longrightarrow> fit e \<Longrightarrow> e \<notin> set xs \<Longrightarrow>
      \<exists>s'. put e s = Ok (ok, s') \<and> repr s' (xs @ [e])"
    and repr_fit: "repr s xs \<Longrightarrow> x \<in> set xs \<Longrightarrow> fit x"
    and nil_unfit: "\<not> fit nil"
    and repr_distinct: "repr s xs \<Longrightarrow> distinct xs"
begin

lemma queue_step_refines:
  assumes "repr s xs" and "queue_allowed fit op xs"
  shows "\<exists>s'. queue_step put get op s = Ok (fst (queue_spec nil op xs), s') \<and>
    repr s' (snd (queue_spec nil op xs))"
proof (cases op)
  case (Put e)
  with put_last assms show ?thesis by force
next
  case Get
  with get_empty get_first assms show ?thesis by (cases xs) auto
qed

text \<open>Every run of puts and gets gives the answers a queue gives.\<close>

lemma queue_run_refines:
  assumes "repr s xs" and "allowed_run (queue_allowed fit) (queue_spec nil) ops xs"
  shows "\<exists>s'. run_ops (queue_step put get) ops s = Ok (fst (spec_run (queue_spec nil) ops xs), s') \<and>
    repr s' (snd (spec_run (queue_spec nil) ops xs))"
  by (rule run_ops_refine [of repr "queue_allowed fit"]) (use queue_step_refines assms in auto)

text \<open>A client that gets \<open>nil\<close> knows that the queue is empty.\<close>

lemma get_nil_iff:
  assumes "repr s xs" and "get s = Ok (x, s')"
  shows "x = nil \<longleftrightarrow> xs = []"
  using assms get_empty get_first repr_fit nil_unfit by (cases xs) force+

lemma get_cases:
  assumes "repr s xs" and "get s = Ok (x, s')"
  obtains "xs = []" and "x = nil" and "repr s' []"
  | ys where "xs = x # ys" and "repr s' ys" and "x \<noteq> nil"
proof (cases xs)
  case Nil
  with get_empty assms that show ?thesis by force
next
  case (Cons y ys)
  then have "x = y" and "repr s' ys" using get_first assms by force+
  moreover have "fit y" using repr_fit assms(1) Cons by auto
  ultimately show ?thesis using that(2) nil_unfit Cons by blast
qed

end

section \<open>Queues that also take elements at the front\<close>

locale front_queue = queue +
  fixes putHead :: "'b \<Rightarrow> 'a \<Rightarrow> ('c \<times> 'a) res"
  assumes put_first: "repr s xs \<Longrightarrow> fit e \<Longrightarrow> e \<notin> set xs \<Longrightarrow>
      \<exists>s'. putHead e s = Ok (ok, s') \<and> repr s' (e # xs)"
begin

text \<open>A put at the front is undone by a get.\<close>

lemma putHead_get:
  assumes "repr s xs" and "fit e" and "e \<notin> set xs"
  shows "\<exists>s1 s2. putHead e s = Ok (ok, s1) \<and> get s1 = Ok (e, s2) \<and> repr s2 xs"
  using put_first [OF assms] get_first by blast

end

section \<open>Queues that also give elements from the back\<close>

locale deque = front_queue +
  fixes getTail :: "'a \<Rightarrow> ('b \<times> 'a) res"
  assumes getTail_empty: "repr s [] \<Longrightarrow> \<exists>s'. getTail s = Ok (nil, s') \<and> repr s' []"
    and getTail_last: "repr s (xs @ [x]) \<Longrightarrow> \<exists>s'. getTail s = Ok (x, s') \<and> repr s' xs"
begin

lemma put_getTail:
  assumes "repr s xs" and "fit e" and "e \<notin> set xs"
  shows "\<exists>s1 s2. put e s = Ok (ok, s1) \<and> getTail s1 = Ok (e, s2) \<and> repr s2 xs"
  using put_last [OF assms] getTail_last by blast

text \<open>Taking from the back and putting at the front rotates the sequence.\<close>

lemma getTail_putHead_rotates:
  assumes "repr s (xs @ [x])"
  shows "\<exists>s1 s2. getTail s = Ok (x, s1) \<and> putHead x s1 = Ok (ok, s2) \<and> repr s2 (x # xs)"
proof -
  obtain s1 where "getTail s = Ok (x, s1)" "repr s1 xs" using getTail_last assms by blast
  moreover have "fit x" "x \<notin> set xs" using repr_fit repr_distinct assms by force+
  ultimately show ?thesis using put_first by blast
qed

end

section \<open>Mailboxes\<close>

text \<open>
  A mailbox delivers messages of high priority before those of normal priority, each kind in the
  order sent, but an urgent one before all that wait. The state of the specification is the pair
  of the two sequences.
\<close>

datatype mail_priority = Normal | High | Urgent

datatype 'e mail_op = Send 'e | Receive

fun mail_send :: "mail_priority \<Rightarrow> 'e \<Rightarrow> 'e list \<times> 'e list \<Rightarrow> 'e list \<times> 'e list" where
  "mail_send Normal e (hi, lo) = (hi, lo @ [e])"
| "mail_send High e (hi, lo) = (hi @ [e], lo)"
| "mail_send Urgent e (hi, lo) = (e # hi, lo)"

fun mail_receive :: "'e \<Rightarrow> 'e list \<times> 'e list \<Rightarrow> 'e \<times> 'e list \<times> 'e list" where
  "mail_receive nil (x # hi, lo) = (x, hi, lo)"
| "mail_receive nil ([], x # lo) = (x, [], lo)"
| "mail_receive nil ([], []) = (nil, [], [])"

fun mail_spec ::
  "('e \<Rightarrow> mail_priority) \<Rightarrow> 'e \<Rightarrow> 'e mail_op \<Rightarrow> 'e list \<times> 'e list \<Rightarrow> 'e \<times> 'e list \<times> 'e list" where
  "mail_spec pri nil (Send e) q = (e, mail_send (pri e) e q)"
| "mail_spec pri nil Receive q = mail_receive nil q"

definition mail_waiting :: "'e list \<times> 'e list \<Rightarrow> 'e list" where
  "mail_waiting q = fst q @ snd q"

fun mail_allowed :: "('e \<Rightarrow> bool) \<Rightarrow> 'e mail_op \<Rightarrow> 'e list \<times> 'e list \<Rightarrow> bool" where
  "mail_allowed fit (Send e) q \<longleftrightarrow> fit e \<and> e \<notin> set (mail_waiting q)"
| "mail_allowed fit Receive q \<longleftrightarrow> True"

text \<open>The messages that a run sends, and those that it receives.\<close>

fun mail_sent :: "'e mail_op list \<Rightarrow> 'e list" where
  "mail_sent [] = []"
| "mail_sent (Send e # ops) = e # mail_sent ops"
| "mail_sent (Receive # ops) = mail_sent ops"

fun mail_received :: "'e \<Rightarrow> 'e mail_op list \<Rightarrow> 'e list \<Rightarrow> 'e list" where
  "mail_received nil (Send e # ops) (r # rs) = mail_received nil ops rs"
| "mail_received nil (Receive # ops) (r # rs) = (if r = nil then [] else [r]) @ mail_received nil ops rs"
| "mail_received nil ops rs = []"

lemma mset_mail_send: "mset (mail_waiting (mail_send p e q)) = add_mset e (mset (mail_waiting q))"
  by (cases p; cases q) (auto simp: mail_waiting_def)

lemma mail_receive_cases:
  obtains "mail_waiting q = []" and "mail_receive nil q = (nil, q)"
  | x q' where "mail_receive nil q = (x, q')" and "mail_waiting q = x # mail_waiting q'"
proof -
  obtain hi lo where q: "q = (hi, lo)" by (cases q)
  show ?thesis
  proof (cases hi)
    case (Cons x hi')
    then show ?thesis using that(2) [of x "(hi', lo)"] q by (simp add: mail_waiting_def)
  next
    case Nil
    show ?thesis
    proof (cases lo)
      case (Cons x lo')
      then show ?thesis using that(2) [of x "([], lo')"] q Nil by (simp add: mail_waiting_def)
    qed (use that(1) q Nil in \<open>simp add: mail_waiting_def\<close>)
  qed
qed

text \<open>No message is lost and none is delivered twice.\<close>

lemma mail_run_conserves:
  assumes "allowed_run (mail_allowed fit) (mail_spec pri nil) ops q"
    and "\<not> fit nil" and "nil \<notin> set (mail_waiting q)"
  shows "mset (mail_received nil ops (fst (spec_run (mail_spec pri nil) ops q))) +
      mset (mail_waiting (snd (spec_run (mail_spec pri nil) ops q))) =
    mset (mail_waiting q) + mset (mail_sent ops)"
  using assms(1,3)
proof (induction ops arbitrary: q)
  case Nil
  then show ?case by simp
next
  case (Cons op ops)
  show ?case
  proof (cases op)
    case (Send e)
    have "e \<noteq> nil" using Cons.prems(1) Send assms(2) by auto
    moreover have "set (mail_waiting (mail_send (pri e) e q)) = insert e (set (mail_waiting q))"
      using mset_mail_send [of "pri e" e q] by (metis set_mset_mset set_mset_add_mset_insert)
    ultimately have "nil \<notin> set (mail_waiting (mail_send (pri e) e q))"
      using Cons.prems(2) by simp
    then show ?thesis
      using Cons.IH [of "mail_send (pri e) e q"] Cons.prems(1) Send
      by (simp add: Let_def split_beta mset_mail_send)
  next
    case Receive
    show ?thesis
    proof (cases rule: mail_receive_cases [of q nil])
      case 1
      then show ?thesis
        using Cons.IH [of q] Cons.prems Receive by (simp add: Let_def split_beta)
    next
      case (2 x q')
      then have "x \<noteq> nil" "nil \<notin> set (mail_waiting q')" using Cons.prems(2) by auto
      then show ?thesis
        using Cons.IH [of q'] Cons.prems(1) Receive 2 by (simp add: Let_def split_beta)
    qed
  qed
qed

text \<open>The messages of normal priority arrive in the order in which they were sent.\<close>

lemma mail_run_order:
  assumes "nil \<notin> set (mail_waiting q)" and "allowed_run (mail_allowed fit) (mail_spec pri nil) ops q"
    and "\<not> fit nil" and "\<forall>e \<in> set (fst q). pri e \<noteq> Normal" and "\<forall>e \<in> set (snd q). pri e = Normal"
  shows "filter (\<lambda>e. pri e = Normal) (mail_received nil ops (fst (spec_run (mail_spec pri nil) ops q))) @
      snd (snd (spec_run (mail_spec pri nil) ops q)) =
    snd q @ filter (\<lambda>e. pri e = Normal) (mail_sent ops)"
  using assms(1,2,4,5)
proof (induction ops arbitrary: q)
  case Nil
  then show ?case by simp
next
  case (Cons op ops)
  obtain hi lo where q: "q = (hi, lo)" by (cases q)
  show ?case
  proof (cases op)
    case (Send e)
    then have "fit e" "e \<notin> set (mail_waiting q)" using Cons.prems(2) by auto
    then have "e \<noteq> nil" using assms(3) by auto
    moreover have "set (mail_waiting (mail_send (pri e) e q)) = insert e (set (mail_waiting q))"
      using mset_mail_send [of "pri e" e q] by (metis set_mset_mset set_mset_add_mset_insert)
    ultimately have "nil \<notin> set (mail_waiting (mail_send (pri e) e q))" using Cons.prems(1) by simp
    moreover have "\<forall>x \<in> set (fst (mail_send (pri e) e q)). pri x \<noteq> Normal"
      "\<forall>x \<in> set (snd (mail_send (pri e) e q)). pri x = Normal"
      using Cons.prems(3,4) q by (cases "pri e"; auto)+
    ultimately have "filter (\<lambda>e. pri e = Normal) (mail_received nil ops
          (fst (spec_run (mail_spec pri nil) ops (mail_send (pri e) e q)))) @
        snd (snd (spec_run (mail_spec pri nil) ops (mail_send (pri e) e q))) =
      snd (mail_send (pri e) e q) @ filter (\<lambda>e. pri e = Normal) (mail_sent ops)"
      using Cons.IH [of "mail_send (pri e) e q"] Cons.prems(2) Send by simp
    moreover have "snd (mail_send (pri e) e q) = lo @ (if pri e = Normal then [e] else [])"
      using q by (cases "pri e") auto
    ultimately show ?thesis using Send q by (simp add: Let_def split_beta)
  next
    case Receive
    consider x hi' where "hi = x # hi'" | x lo' where "hi = []" "lo = x # lo'" | "hi = []" "lo = []"
      by (cases hi; cases lo) auto
    then show ?thesis
    proof cases
      case (1 x hi')
      then show ?thesis
        using Cons.IH [of "(hi', lo)"] Cons.prems Receive q
        by (auto simp: Let_def split_beta mail_waiting_def)
    next
      case (2 x lo')
      then show ?thesis
        using Cons.IH [of "([], lo')"] Cons.prems Receive q
        by (auto simp: Let_def split_beta mail_waiting_def)
    next
      case 3
      then show ?thesis
        using Cons.IH [of "([], [])"] Cons.prems Receive q
        by (auto simp: Let_def split_beta mail_waiting_def)
    qed
  qed
qed

fun mail_step ::
  "('e \<Rightarrow> 's \<Rightarrow> ('st \<times> 's) res) \<Rightarrow> ('s \<Rightarrow> ('e \<times> 's) res) \<Rightarrow> 'e mail_op \<Rightarrow> 's \<Rightarrow> ('e \<times> 's) res"
  where
  "mail_step send receive (Send e) s = res_bind (send e s) (\<lambda>(st, s'). Ok (e, s'))"
| "mail_step send receive Receive s = receive s"

locale mailbox =
  fixes repr :: "'s \<Rightarrow> 'e list \<times> 'e list \<Rightarrow> bool"
    and fit :: "'e \<Rightarrow> bool"
    and pri :: "'e \<Rightarrow> mail_priority"
    and nil :: 'e
    and ok :: 'st
    and send :: "'e \<Rightarrow> 's \<Rightarrow> ('st \<times> 's) res"
    and receive :: "'s \<Rightarrow> ('e \<times> 's) res"
  assumes send_ok: "repr s q \<Longrightarrow> fit e \<Longrightarrow> e \<notin> set (mail_waiting q) \<Longrightarrow>
      \<exists>s'. send e s = Ok (ok, s') \<and> repr s' (mail_send (pri e) e q)"
    and receive_ok: "repr s q \<Longrightarrow>
      \<exists>s'. receive s = Ok (fst (mail_receive nil q), s') \<and> repr s' (snd (mail_receive nil q))"
    and repr_fit: "repr s q \<Longrightarrow> e \<in> set (mail_waiting q) \<Longrightarrow> fit e"
    and nil_unfit: "\<not> fit nil"
begin

lemma mail_run_refines:
  assumes "repr s q" and "allowed_run (mail_allowed fit) (mail_spec pri nil) ops q"
  shows "\<exists>s'. run_ops (mail_step send receive) ops s =
      Ok (fst (spec_run (mail_spec pri nil) ops q), s') \<and>
    repr s' (snd (spec_run (mail_spec pri nil) ops q))"
proof (rule run_ops_refine [of repr "mail_allowed fit", OF _ assms])
  fix op s q
  assume "repr s q" and "mail_allowed fit op q"
  then show "\<exists>s'. mail_step send receive op s = Ok (fst (mail_spec pri nil op q), s') \<and>
      repr s' (snd (mail_spec pri nil op q))"
    using send_ok [of s q] receive_ok [of s q] by (cases op) (force simp: split_beta)+
qed

text \<open>Every message sent on a run is received on it once, or still waits at its end.\<close>

lemma mail_run_conserved:
  assumes "repr s q" and "allowed_run (mail_allowed fit) (mail_spec pri nil) ops q"
  shows "\<exists>rs s' q'. run_ops (mail_step send receive) ops s = Ok (rs, s') \<and> repr s' q' \<and>
    mset (mail_received nil ops rs) + mset (mail_waiting q') =
      mset (mail_waiting q) + mset (mail_sent ops)"
proof -
  have "nil \<notin> set (mail_waiting q)" using repr_fit [OF assms(1)] nil_unfit by auto
  then show ?thesis
    using mail_run_refines [OF assms] mail_run_conserves [OF assms(2) nil_unfit] by blast
qed

end

end
