(* ===== verification/SharedRegionHeap.thy ===== *)
theory SharedRegionHeap
imports HeapMemMP Queues
begin

text \<open>
  The operations of \<open>ti/sdo/ipc/SharedRegion.c\<close> that create, open, close and delete the
  heap of a region, together with the public constructors of \<open>HeapMemMP.c\<close> they call: setting
  and clearing an entry of the table, and the steps of \<open>Ipc\<close>'s start-up and attachment.
\<close>

section \<open>State\<close>

text \<open>
  The region table, the shared memory, the heap instances by their handles, the instances the
  runtime still has memory for (handle and contents), and what deleted instances gave back.
  The locks that keep interrupts out of the table have no effect on one thread.
\<close>

record region_state =
  rs_mod :: SharedRegion_Module
  rs_mem :: mm_mem
  rs_heaps :: "ptr \<Rightarrow> HeapMemMP_Object option"
  rs_fresh :: "(ptr \<times> HeapMemMP_Object) list"
  rs_released :: "HeapMemMP_release list"

definition MultiProc_INVALID :: u16 where "MultiProc_INVALID = 0xFFFF"

section \<open>Heap instances\<close>

definition HeapMemMP_Params_init :: HeapMemMP_Params where
  "HeapMemMP_Params_init = \<lparr>mp_gate = NULL, mp_openFlag = False, mp_sharedAddr = NULL, mp_name = None,
     mp_regionId = 0, mp_sharedBufSize = 0\<rparr>"

definition HeapMemMP_getRTSCParams :: "HeapMemMP_Params \<Rightarrow> HeapMemMP_Params" where
  "HeapMemMP_getRTSCParams sparams = HeapMemMP_Params_init
     \<lparr>mp_gate := mp_gate sparams, mp_name := mp_name sparams, mp_regionId := mp_regionId sparams,
      mp_sharedAddr := mp_sharedAddr sparams, mp_sharedBufSize := mp_sharedBufSize sparams\<rparr>"

text \<open>
  What the runtime generates for creating and deleting an instance: memory for it, its
  initialization, and the finalizer when that fails or when it is deleted.
\<close>

definition heap_finalize :: "HeapMemMP_Object \<Rightarrow> region_state \<Rightarrow> region_state res" where
  "heap_finalize obj s =
     res_bind (HeapMemMP_Instance_finalize (rs_mod s) obj (rs_mem s)) (\<lambda>(rel, m).
     Ok (s\<lparr>rs_mem := m, rs_released := rel # rs_released s\<rparr>))"

definition heap_instance ::
  "ipc_env \<Rightarrow> HeapMemMP_Params \<Rightarrow> region_state \<Rightarrow> (ptr \<times> region_state) res" where
  "heap_instance env params s =
     (case rs_fresh s of
        [] \<Rightarrow> Ok (NULL, s)
      | (h, obj0) # rest \<Rightarrow>
          res_bind (HeapMemMP_Instance_init (rs_mod s) env params obj0 (rs_mem s)) (\<lambda>(st, obj, m).
          if st = 0
          then Ok (h, s\<lparr>rs_mem := m, rs_heaps := (rs_heaps s)(h \<mapsto> obj), rs_fresh := rest\<rparr>)
          else res_bind (heap_finalize obj (s\<lparr>rs_mem := m\<rparr>)) (\<lambda>s1. Ok (NULL, s1))))"

definition HeapMemMP_create ::
  "ipc_env \<Rightarrow> HeapMemMP_Params option \<Rightarrow> region_state \<Rightarrow> (ptr \<times> region_state) res" where
  "HeapMemMP_create env sparams s =
     (case sparams of
        Some p \<Rightarrow> heap_instance env (HeapMemMP_getRTSCParams p) s
      | None \<Rightarrow> heap_instance env HeapMemMP_Params_init s)"

definition HeapMemMP_delete :: "ptr \<Rightarrow> region_state \<Rightarrow> (HeapMemMP_status \<times> region_state) res" where
  "HeapMemMP_delete h s =
     (case rs_heaps s h of
        None \<Rightarrow> Err Bad_access
      | Some obj \<Rightarrow>
          res_bind (heap_finalize obj s) (\<lambda>s1.
          Ok (HeapMemMP_S_SUCCESS, s1\<lparr>rs_heaps := (rs_heaps s1)(h := None)\<rparr>)))"

definition HeapMemMP_close :: "ptr \<Rightarrow> region_state \<Rightarrow> (HeapMemMP_status \<times> region_state) res" where
  "HeapMemMP_close h s = res_bind (HeapMemMP_delete h s) (\<lambda>(_, s1). Ok (HeapMemMP_S_SUCCESS, s1))"

text \<open>\<open>HeapMemMP_openByAddr\<close>, giving the instance a handle.\<close>

definition heap_openByAddr ::
  "ipc_env \<Rightarrow> ptr \<Rightarrow> region_state \<Rightarrow> (HeapMemMP_status \<times> ptr \<times> region_state) res" where
  "heap_openByAddr env sharedAddr s =
     res_bind (SharedRegion_isCacheEnabled (rs_mod s) (SharedRegion_getId (rs_mod s) sharedAddr)) (\<lambda>c.
     let s1 = s\<lparr>rs_mem := mm_if c (Cache_inv sharedAddr sizeof_HeapMemMP_Attrs) (rs_mem s)\<rparr> in
     if ma_status (mm_attrs (rs_mem s1) sharedAddr) \<noteq> HeapMemMP_CREATED
     then Ok (HeapMemMP_E_NOTFOUND, NULL, s1)
     else
       res_bind (heap_instance env
           (HeapMemMP_Params_init\<lparr>mp_openFlag := True, mp_sharedAddr := sharedAddr\<rparr>) s1) (\<lambda>(h, s2).
       Ok (if h = NULL then HeapMemMP_E_FAIL else HeapMemMP_S_SUCCESS, h, s2)))"

text \<open>\<open>found\<close> is the answer of the name server.\<close>

definition HeapMemMP_open ::
  "ipc_env \<Rightarrow> srptr option \<Rightarrow> region_state \<Rightarrow> (HeapMemMP_status \<times> ptr \<times> region_state) res" where
  "HeapMemMP_open env found s =
     (case found of
        None \<Rightarrow> Ok (HeapMemMP_E_NOTFOUND, NULL, s)
      | Some shmBase \<Rightarrow>
          res_bind (SharedRegion_getPtr (rs_mod s) shmBase) (\<lambda>sharedAddr.
          Assert_isTrue (sr_asserts (rs_mod s)) (sharedAddr \<noteq> NULL) A_internal (
          if sharedAddr = NULL then Ok (HeapMemMP_E_NOTFOUND, NULL, s)
          else heap_openByAddr env sharedAddr s)))"

section \<open>Setting and clearing an entry\<close>

definition rs_region :: "region_state \<Rightarrow> nat \<Rightarrow> SharedRegion_Region" where
  "rs_region s i = sr_regions (rs_mod s) ! i"

definition rs_put :: "nat \<Rightarrow> (SharedRegion_Region \<Rightarrow> SharedRegion_Region) \<Rightarrow> region_state \<Rightarrow> region_state" where
  "rs_put i f s = s\<lparr>rs_mod := (rs_mod s)\<lparr>sr_regions := (sr_regions (rs_mod s))[i := f (rs_region s i)]\<rparr>\<rparr>"

definition region_set_heap :: "ptr \<Rightarrow> SharedRegion_Region \<Rightarrow> SharedRegion_Region" where
  "region_set_heap h r = r\<lparr>rg_heap := h\<rparr>"

definition region_invalidate :: "SharedRegion_Region \<Rightarrow> SharedRegion_Region" where
  "region_invalidate r = r\<lparr>rg_entry := (rg_entry r)\<lparr>re_isValid := False\<rparr>\<rparr>"

text \<open>
  The heap of a region of one's own, from \<open>sharedAddr\<close> on: the size left in the region, from
  which the surplus that \<open>HeapMemMP_sharedMemReq\<close> announces is taken off, in 32 bits.
\<close>

definition region_heap_params ::
  "SharedRegion_Module \<Rightarrow> SharedRegion_Region \<Rightarrow> ptr \<Rightarrow> HeapMemMP_Params res" where
  "region_heap_params M region sharedAddr =
     (let size = re_len (rg_entry region) - rg_reservedSize region in
      res_bind (HeapMemMP_sharedMemReq M sharedAddr (mp_regionId HeapMemMP_Params_init) size) (\<lambda>req.
      Ok (HeapMemMP_Params_init\<lparr>mp_sharedAddr := sharedAddr, mp_sharedBufSize := size - (req - size)\<rparr>)))"

text \<open>The region's heap, once its entry is written: created by the owner, opened by the others.\<close>

definition setEntry_heap ::
  "ipc_env \<Rightarrow> u16 \<Rightarrow> SharedRegion_Entry \<Rightarrow> region_state \<Rightarrow> (SharedRegion_status \<times> region_state) res" where
  "setEntry_heap env rid entry s1 =
     (let i = unat rid in
      if \<not> re_isValid entry then Ok (SR_SUCCESS, s1)
      else if \<not> (re_createHeap entry \<and> rg_heap (rs_region s1 i) = NULL) then Ok (SR_SUCCESS, s1)
      else if re_ownerProcId entry = sr_self (rs_mod s1) then
        res_bind (SharedRegion_reserveMemory (rs_mod s1) rid 0) (\<lambda>(sharedAddr, M2).
        let s2 = s1\<lparr>rs_mod := M2\<rparr> in
        res_bind (region_heap_params M2 (rs_region s2 i) sharedAddr) (\<lambda>params.
        res_bind (HeapMemMP_create env (Some params) s2) (\<lambda>(h, s3).
        if h = NULL then Ok (SR_MEMORY, rs_put i region_invalidate s3)
        else Ok (SR_SUCCESS, rs_put i (region_set_heap h) s3))))
      else
        res_bind (heap_openByAddr env (re_base entry + rg_reservedSize (rs_region s1 i)) s1) (\<lambda>(st, h, s2).
        let s3 = rs_put i (region_set_heap h) s2 in
        if st \<noteq> HeapMemMP_S_SUCCESS then Ok (SR_FAIL, rs_put i region_invalidate s3)
        else Ok (SR_SUCCESS, s3)))"

definition SharedRegion_setEntry ::
  "ipc_env \<Rightarrow> u16 \<Rightarrow> SharedRegion_Entry option \<Rightarrow> region_state \<Rightarrow>
   (SharedRegion_status \<times> region_state) res" where
  "SharedRegion_setEntry env rid ent s =
     (let M = rs_mod s; i = unat rid in
      Assert_isTrue (sr_asserts M) (i < SharedRegion_numEntries M) A_idTooLarge (
      Assert_isTrue (sr_asserts M) (ent \<noteq> None) A_nullArgument (
      case ent of None \<Rightarrow> Err Bad_access
      | Some entry \<Rightarrow>
      res_bind (SharedRegion_checkOverlap M (re_base entry) (re_len entry)) (\<lambda>status.
      if status \<noteq> SR_SUCCESS then Ok (status, s)
      else if \<not> i < SharedRegion_numEntries M then Err Bad_access
      else if re_isValid (rg_entry (rs_region s i)) then
        Assert_isTrue (sr_asserts M) False A_alreadyExists (Ok (SR_ALREADYEXISTS, s))
      else
        Assert_isTrue (sr_asserts M) (\<not> (re_cacheEnable entry \<and> re_cacheLineSize entry = 0))
          A_cacheLineSizeIsZero (
        setEntry_heap env rid entry (rs_put i (\<lambda>r. r\<lparr>rg_entry := entry\<rparr>) s))))))"

definition SharedRegion_clearEntry ::
  "u16 \<Rightarrow> region_state \<Rightarrow> (SharedRegion_status \<times> region_state) res" where
  "SharedRegion_clearEntry rid s =
     (let M = rs_mod s; i = unat rid in
      Assert_isTrue (sr_asserts M) (i < SharedRegion_numEntries M) A_idTooLarge (
      Assert_isTrue (sr_asserts M) (rid \<noteq> 0) A_region0Clear (
      if \<not> i < SharedRegion_numEntries M then Err Bad_access
      else
        let heap = rg_heap (rs_region s i);
            owner = re_ownerProcId (rg_entry (rs_region s i));
            s1 = rs_put i (\<lambda>r. \<lparr>rg_entry = SharedRegion_entryInit M, rg_reservedSize = 0, rg_heap = NULL\<rparr>) s in
        res_bind
          (if heap \<noteq> NULL \<and> owner = sr_self M then HeapMemMP_delete heap s1
           else if heap \<noteq> NULL \<and> owner \<noteq> MultiProc_INVALID then HeapMemMP_close heap s1
           else Ok (HeapMemMP_S_SUCCESS, s1)) (\<lambda>(status, s2).
        Ok (if status = HeapMemMP_S_SUCCESS then SR_SUCCESS else SR_FAIL, s2)))))"

section \<open>Start-up and attachment\<close>

text \<open>A pass over the regions; \<open>st\<close> is the status so far.\<close>

fun each_region ::
  "(nat \<Rightarrow> 'a \<Rightarrow> region_state \<Rightarrow> ('a \<times> region_state) res) \<Rightarrow> nat list \<Rightarrow> 'a \<Rightarrow> region_state \<Rightarrow>
   ('a \<times> region_state) res" where
  "each_region f [] st s = Ok (st, s)"
| "each_region f (i # is) st s = res_bind (f i st s) (\<lambda>(st1, s1). each_region f is st1 s1)"

definition all_regions :: "region_state \<Rightarrow> nat list" where
  "all_regions s = [0..<SharedRegion_numEntries (rs_mod s)]"

definition attach_region ::
  "ipc_env \<Rightarrow> nat \<Rightarrow> HeapMemMP_status \<Rightarrow> region_state \<Rightarrow> (HeapMemMP_status \<times> region_state) res" where
  "attach_region env i st s =
     (let r = rs_region s i; e = rg_entry r in
      if re_isValid e \<and> re_ownerProcId e \<noteq> sr_self (rs_mod s) \<and> re_ownerProcId e \<noteq> MultiProc_INVALID \<and>
         re_createHeap e \<and> rg_heap r = NULL
      then res_bind (heap_openByAddr env (re_base e + rg_reservedSize r) s) (\<lambda>(st1, h, s1).
           Ok (st1, rs_put i (region_set_heap h) s1))
      else Ok (st, s))"

definition SharedRegion_attach ::
  "ipc_env \<Rightarrow> u16 \<Rightarrow> region_state \<Rightarrow> (HeapMemMP_status \<times> region_state) res" where
  "SharedRegion_attach env remoteProcId s =
     each_region (attach_region env) (all_regions s) HeapMemMP_S_SUCCESS s"

definition detach_region ::
  "u16 \<Rightarrow> nat \<Rightarrow> HeapMemMP_status \<Rightarrow> region_state \<Rightarrow> (HeapMemMP_status \<times> region_state) res" where
  "detach_region remoteProcId i st s =
     (let r = rs_region s i; e = rg_entry r in
      if re_isValid e \<and> re_ownerProcId e = remoteProcId \<and> rg_heap r \<noteq> NULL
      then res_bind (HeapMemMP_close (rg_heap r) s) (\<lambda>(st1, s1).
           Ok (st1, rs_put i (region_set_heap NULL) s1))
      else Ok (st, s))"

definition SharedRegion_detach ::
  "u16 \<Rightarrow> region_state \<Rightarrow> (HeapMemMP_status \<times> region_state) res" where
  "SharedRegion_detach remoteProcId s =
     each_region (detach_region remoteProcId) (all_regions s) HeapMemMP_S_SUCCESS s"

definition start_region ::
  "ipc_env \<Rightarrow> nat \<Rightarrow> SharedRegion_status \<Rightarrow> region_state \<Rightarrow> (SharedRegion_status \<times> region_state) res" where
  "start_region env i st s =
     (let r = rs_region s i; e = rg_entry r in
      if re_isValid e \<and> re_ownerProcId e = sr_self (rs_mod s) \<and> re_createHeap e \<and> rg_heap r = NULL
      then
        res_bind (region_heap_params (rs_mod s) r (re_base e + rg_reservedSize r)) (\<lambda>params.
        res_bind (HeapMemMP_create env (Some params) s) (\<lambda>(h, s1).
        if h = NULL then Ok (SR_FAIL, s1)
        else Ok (st, rs_put i (region_set_heap h) s1)))
      else Ok (st, s))"

definition SharedRegion_start ::
  "ipc_env \<Rightarrow> region_state \<Rightarrow> (SharedRegion_status \<times> region_state) res" where
  "SharedRegion_start env s =
     Assert_isTrue (sr_asserts (rs_mod s))
       (0 < SharedRegion_numEntries (rs_mod s) \<and> re_isValid (rg_entry (rs_region s 0))) A_region0Invalid
       (each_region (start_region env) (all_regions s) SR_SUCCESS s)"

definition stop_region ::
  "nat \<Rightarrow> HeapMemMP_status \<Rightarrow> region_state \<Rightarrow> (HeapMemMP_status \<times> region_state) res" where
  "stop_region i st s =
     (let r = rs_region s i; e = rg_entry r in
      if re_isValid e \<and> re_ownerProcId e = sr_self (rs_mod s) \<and> rg_heap r \<noteq> NULL
      then res_bind (HeapMemMP_delete (rg_heap r) s) (\<lambda>(st1, s1).
           Ok (st1, rs_put i (region_set_heap NULL) s1))
      else Ok (st, s))"

definition SharedRegion_stop :: "region_state \<Rightarrow> (HeapMemMP_status \<times> region_state) res" where
  "SharedRegion_stop s = each_region stop_region (all_regions s) HeapMemMP_S_SUCCESS s"

text \<open>
  \<open>memset\<close> over the first \<open>n\<close> bytes of a region: every word in that range becomes 0. The
  header of a heap lies in the middle of its attributes.
\<close>

definition in_span :: "ptr \<Rightarrow> sizeT \<Rightarrow> ptr \<Rightarrow> bool" where
  "in_span base n a \<longleftrightarrow> unat base \<le> unat a \<and> unat a < unat base + unat n"

definition clear_span :: "ptr \<Rightarrow> sizeT \<Rightarrow> mm_mem \<Rightarrow> mm_mem" where
  "clear_span base n m =
     (let word = (\<lambda>a x. if in_span base n a then 0 else x) in
      m\<lparr>mm_hdr := (\<lambda>a. \<lparr>mh_next = word a (mh_next (mm_hdr m a)), mh_size = word (a + 4) (mh_size (mm_hdr m a))\<rparr>),
        mm_attrs := (\<lambda>a. \<lparr>ma_status = word a (ma_status (mm_attrs m a)),
          ma_bufPtr = word (a + 4) (ma_bufPtr (mm_attrs m a)),
          ma_gateMPAddr = word (a + 16) (ma_gateMPAddr (mm_attrs m a))\<rparr>)\<rparr>)"

definition clear_region :: "nat \<Rightarrow> unit \<Rightarrow> region_state \<Rightarrow> (unit \<times> region_state) res" where
  "clear_region i st s =
     (let r = rs_region s i; e = rg_entry r in
      if re_isValid e \<and> re_ownerProcId e = sr_self (rs_mod s)
      then Ok ((), s\<lparr>rs_mem := mm_if (re_cacheEnable e) (Cache_wbInv (re_base e) (rg_reservedSize r))
                (clear_span (re_base e) (rg_reservedSize r) (rs_mem s))\<rparr>)
      else Ok ((), s))"

definition SharedRegion_clearReservedMemory :: "region_state \<Rightarrow> (unit \<times> region_state) res" where
  "SharedRegion_clearReservedMemory s = each_region clear_region (all_regions s) () s"

end
