(* ===== verification/SharedRegion_Runs.thy ===== *)
theory SharedRegion_Runs
imports SharedRegionHeap
begin

text \<open>
  What every operation on the region table keeps: the regions stay apart, and every region's
  heap is a live instance of its own. And what is wrong with the heaps: they outgrow their regions.
\<close>

section \<open>Regions that are apart\<close>

lemma checkOverlap_loop_apart:
  assumes "\<not> SharedRegion_checkOverlap_loop rs b n" and "r \<in> set rs" and "re_isValid (rg_entry r)"
    and "unat b + unat n < 2 ^ 32" and "entry_fits k (rg_entry r)"
  shows "unat (re_base (rg_entry r)) + unat (re_len (rg_entry r)) \<le> unat b \<or>
    unat b + unat n \<le> unat (re_base (rg_entry r))"
  using assms(1,2)
proof (induction rs)
  case (Cons x rs)
  show ?case
  proof (cases "r = x")
    case True
    have "unat (b + n) = unat b + unat n"
      "unat (re_base (rg_entry r) + re_len (rg_entry r)) = unat (re_base (rg_entry r)) + unat (re_len (rg_entry r))"
      using assms(4,5) by (auto intro!: unat_plus_no_wrap simp: entry_fits_def)
    then show ?thesis using Cons.prems(1) True assms(3)
      by (auto simp: Let_def word_le_nat_alt word_less_nat_alt split: if_splits)
  qed (use Cons in \<open>auto simp: Let_def split: if_splits\<close>)
qed simp

definition same_table :: "SharedRegion_Module \<Rightarrow> SharedRegion_Module \<Rightarrow> bool" where
  "same_table M N \<longleftrightarrow> sr_numOffsetBits N = sr_numOffsetBits M \<and> sr_offsetMask N = sr_offsetMask M \<and>
     map rg_entry (sr_regions N) = map rg_entry (sr_regions M)"

lemma same_table_nth:
  assumes "same_table M N"
  shows "SharedRegion_numEntries N = SharedRegion_numEntries M"
    and "i < SharedRegion_numEntries M \<Longrightarrow> rg_entry (sr_regions N ! i) = rg_entry (sr_regions M ! i)"
    and "valid_entry N i = valid_entry M i"
proof -
  have map: "map rg_entry (sr_regions N) = map rg_entry (sr_regions M)" using assms by (simp add: same_table_def)
  then show len: "SharedRegion_numEntries N = SharedRegion_numEntries M"
    unfolding SharedRegion_numEntries_def by (metis length_map)
  show nth: "rg_entry (sr_regions N ! i) = rg_entry (sr_regions M ! i)" if "i < SharedRegion_numEntries M"
    using that map len unfolding SharedRegion_numEntries_def by (metis nth_map)
  show "valid_entry N i = valid_entry M i" using nth len by (auto simp: valid_entry_def)
qed

lemma sr_wf_same_table:
  assumes "same_table M N" shows "sr_wf N = sr_wf M"
proof -
  note S = same_table_nth [OF assms]
  have "valid_entry M i \<Longrightarrow> rg_entry (sr_regions N ! i) = rg_entry (sr_regions M ! i)" for i
    using S(2) by (simp add: valid_entry_def)
  moreover have "sr_numOffsetBits N = sr_numOffsetBits M" "sr_offsetMask N = sr_offsetMask M"
    using assms by (simp_all add: same_table_def)
  ultimately show ?thesis using S(1,3) by (simp add: sr_wf_def cong: imp_cong)
qed

lemma valid_entry_set:
  assumes "N = M\<lparr>sr_regions := (sr_regions M)[i := r]\<rparr>" and "i < SharedRegion_numEntries M"
  shows "valid_entry N j \<longleftrightarrow> (if j = i then re_isValid (rg_entry r) else valid_entry M j)"
  using assms by (simp add: valid_entry_def SharedRegion_numEntries_def)

text \<open>A new entry has to fit and to be apart from the others, if it is valid.\<close>

lemma sr_wf_set:
  assumes wf: "sr_wf M" and N: "N = M\<lparr>sr_regions := (sr_regions M)[i := r]\<rparr>"
    and i: "i < SharedRegion_numEntries M"
    and new: "re_isValid (rg_entry r) \<Longrightarrow> entry_fits (sr_numOffsetBits M) (rg_entry r)"
      "\<And>j. re_isValid (rg_entry r) \<Longrightarrow> valid_entry M j \<Longrightarrow> j \<noteq> i \<Longrightarrow>
        entries_disjoint (rg_entry r) (rg_entry (sr_regions M ! j))"
  shows "sr_wf N"
proof -
  have n: "SharedRegion_numEntries N = SharedRegion_numEntries M" by (simp add: N SharedRegion_numEntries_def)
  have nth: "sr_regions N ! j = (if j = i then r else sr_regions M ! j)" for j
    using i by (simp add: N SharedRegion_numEntries_def)
  have sym: "entries_disjoint a b \<Longrightarrow> entries_disjoint b a" for a b by (auto simp: entries_disjoint_def)
  have "sr_numOffsetBits N = sr_numOffsetBits M" "sr_offsetMask N = sr_offsetMask M" by (simp_all add: N)
  moreover have "entry_fits (sr_numOffsetBits M) (rg_entry (sr_regions N ! j))" if "valid_entry N j" for j
    using that new(1) wf unfolding nth valid_entry_set [OF N i] by (auto simp: sr_wf_def split: if_splits)
  moreover have "entries_disjoint (rg_entry (sr_regions N ! j)) (rg_entry (sr_regions N ! k))"
    if "valid_entry N j" "valid_entry N k" "j \<noteq> k" for j k
    using that new(2) [of j] new(2) [of k] wf sym unfolding nth valid_entry_set [OF N i]
    by (auto simp: sr_wf_def split: if_splits)
  ultimately show ?thesis using wf n unfolding sr_wf_def by auto
qed

section \<open>Heaps of one's own\<close>

definition heaps_ok ::
  "ptr list \<Rightarrow> (ptr \<Rightarrow> HeapMemMP_Object option) \<Rightarrow> (ptr \<times> HeapMemMP_Object) list \<Rightarrow> bool" where
  "heaps_ok hs H F \<longleftrightarrow>
     (\<forall>i<length hs. hs ! i \<noteq> NULL \<longrightarrow> H (hs ! i) \<noteq> None) \<and>
     (\<forall>i<length hs. \<forall>j<length hs. i \<noteq> j \<longrightarrow> hs ! i \<noteq> NULL \<longrightarrow> hs ! i \<noteq> hs ! j) \<and>
     distinct (map fst F) \<and> NULL \<notin> set (map fst F) \<and> (\<forall>h\<in>set (map fst F). H h = None)"

lemma heaps_ok_new:
  assumes ok: "heaps_ok hs H ((h, obj0) # F)"
  shows "heaps_ok (hs[i := h]) (H(h \<mapsto> obj)) F" and "h \<noteq> NULL"
proof -
  note L = ok [unfolded heaps_ok_def]
  have out: "hs ! j \<noteq> h" if "j < length hs" for j using L that by auto
  show "h \<noteq> NULL" using L by auto
  have F: "distinct (map fst F)" "NULL \<notin> set (map fst F)" "h \<notin> set (map fst F)" "\<forall>x\<in>set (map fst F). H x = None"
    using L by auto
  have a: "(H(h \<mapsto> obj)) (hs[i := h] ! j) \<noteq> None" if "j < length hs" "hs[i := h] ! j \<noteq> NULL" for j
  proof (cases "j = i")
    case False
    then have "H (hs ! j) \<noteq> None" using L that by simp
    then show ?thesis using False out [OF that(1)] by simp
  qed (use that in simp)
  have b: "hs[i := h] ! j \<noteq> hs[i := h] ! k" if "j < length hs" "k < length hs" "j \<noteq> k" "hs[i := h] ! j \<noteq> NULL" for j k
    using L that out [of j] out [of k] by (cases "j = i"; cases "k = i") auto
  have c: "(H(h \<mapsto> obj)) x = None" if "x \<in> set (map fst F)" for x
  proof -
    have "x \<noteq> h" using that F(3) by blast
    then show ?thesis using that F(4) by (metis fun_upd_apply)
  qed
  show "heaps_ok (hs[i := h]) (H(h \<mapsto> obj)) F"
    unfolding heaps_ok_def length_list_update using F a b c by blast
qed

lemma heaps_ok_null:
  assumes ok: "heaps_ok hs H F" shows "heaps_ok (hs[i := NULL]) H F"
proof -
  note L = ok [unfolded heaps_ok_def]
  have v: "hs[i := NULL] ! j = NULL \<or> hs[i := NULL] ! j = hs ! j \<and> j \<noteq> i" if "j < length hs" for j
    using that by (cases "j = i") auto
  have "hs[i := NULL] ! j \<noteq> hs[i := NULL] ! k"
    if "j < length hs" "k < length hs" "j \<noteq> k" "hs[i := NULL] ! j \<noteq> NULL" for j k
    using L that v [of j] v [of k] by metis
  moreover have "H (hs[i := NULL] ! j) \<noteq> None" if "j < length hs" "hs[i := NULL] ! j \<noteq> NULL" for j
    using L that v [of j] by metis
  ultimately show ?thesis using L unfolding heaps_ok_def length_list_update by blast
qed

lemma heaps_ok_delete:
  assumes ok: "heaps_ok hs H F" and i: "i < length hs" "hs ! i = h" "h \<noteq> NULL"
  shows "heaps_ok (hs[i := NULL]) (H(h := None)) F"
proof -
  note L = ok [unfolded heaps_ok_def] and N = heaps_ok_null [OF ok, unfolded heaps_ok_def length_list_update]
  have "hs[i := NULL] ! j \<noteq> h" if "j < length hs" for j
  proof (cases "j = i")
    case False
    then have "hs ! i \<noteq> hs ! j" using L i that by blast
    then show ?thesis using False i by simp
  qed (use i in simp)
  then have "(H(h := None)) (hs[i := NULL] ! j) \<noteq> None" if "j < length hs" "hs[i := NULL] ! j \<noteq> NULL" for j
  proof -
    have "H (hs[i := NULL] ! j) \<noteq> None" using N that by blast
    then show ?thesis using \<open>\<And>j. j < length hs \<Longrightarrow> hs[i := NULL] ! j \<noteq> h\<close> [OF that(1)] by simp
  qed
  moreover have "\<forall>x\<in>set (map fst F). (H(h := None)) x = None" using L by simp
  ultimately show ?thesis using N unfolding heaps_ok_def length_list_update by blast
qed

definition region_ok :: "region_state \<Rightarrow> bool" where
  "region_ok s \<longleftrightarrow> sr_wf (rs_mod s) \<and>
     heaps_ok (map rg_heap (sr_regions (rs_mod s))) (rs_heaps s) (rs_fresh s)"

lemma region_okD:
  assumes "region_ok s"
  shows "sr_wf (rs_mod s)" and "heaps_ok (map rg_heap (sr_regions (rs_mod s))) (rs_heaps s) (rs_fresh s)"
  using assms by (simp_all add: region_ok_def)

lemma region_ok_cong:
  "region_ok s \<Longrightarrow> rs_mod t = rs_mod s \<Longrightarrow> rs_heaps t = rs_heaps s \<Longrightarrow> rs_fresh t = rs_fresh s \<Longrightarrow> region_ok t"
  by (simp add: region_ok_def)

lemma rs_put_simps [simp]:
  "rs_heaps (rs_put i f s) = rs_heaps s" "rs_fresh (rs_put i f s) = rs_fresh s"
  "sr_regions (rs_mod (rs_put i f s)) = (sr_regions (rs_mod s))[i := f (sr_regions (rs_mod s) ! i)]"
  "SharedRegion_numEntries (rs_mod (rs_put i f s)) = SharedRegion_numEntries (rs_mod s)"
  "sr_asserts (rs_mod (rs_put i f s)) = sr_asserts (rs_mod s)"
  "sr_self (rs_mod (rs_put i f s)) = sr_self (rs_mod s)"
  by (simp_all add: rs_put_def rs_region_def SharedRegion_numEntries_def)

lemma map_update_keep:
  "g (f (xs ! i)) = g (xs ! i) \<Longrightarrow> map g (xs[i := f (xs ! i)]) = map g xs"
  by (cases "i < length xs") (auto simp: map_update list_update_same_conv list_update_beyond)

lemma same_table_put:
  "rg_entry (f (rs_region s i)) = rg_entry (rs_region s i) \<Longrightarrow> same_table (rs_mod s) (rs_mod (rs_put i f s))"
  by (simp add: same_table_def map_update_keep rs_region_def) (simp add: rs_put_def)

lemma sr_wf_put_heap: "sr_wf (rs_mod (rs_put i (region_set_heap h) s)) = sr_wf (rs_mod s)"
  by (rule sr_wf_same_table [OF same_table_put]) (simp add: region_set_heap_def)

lemma heaps_put_heap:
  "map rg_heap (sr_regions (rs_mod (rs_put i (region_set_heap h) s))) = (map rg_heap (sr_regions (rs_mod s)))[i := h]"
  by (simp add: map_update region_set_heap_def)

lemma region_ok_null: "region_ok s \<Longrightarrow> region_ok (rs_put i (region_set_heap NULL) s)"
  unfolding region_ok_def heaps_put_heap by (simp add: sr_wf_put_heap heaps_ok_null)

lemma region_ok_invalidate: "region_ok s \<Longrightarrow> region_ok (rs_put i region_invalidate s)"
proof -
  assume ok: "region_ok s"
  let ?M = "rs_mod s" and ?r = "region_invalidate (rs_region s i)"
  have "map rg_heap (sr_regions (rs_mod (rs_put i region_invalidate s))) = map rg_heap (sr_regions ?M)"
    by (simp add: map_update_keep region_invalidate_def)
  moreover have "sr_wf (rs_mod (rs_put i region_invalidate s))"
  proof (cases "i < SharedRegion_numEntries ?M")
    case True
    show ?thesis
      by (rule sr_wf_set [OF region_okD(1) [OF ok], of _ i ?r])
        (use True in \<open>simp_all add: rs_put_def region_invalidate_def\<close>)
  next
    case False
    then have "same_table ?M (rs_mod (rs_put i region_invalidate s))"
      by (simp add: same_table_def list_update_beyond SharedRegion_numEntries_def) (simp add: rs_put_def)
    then show ?thesis using sr_wf_same_table region_okD(1) [OF ok] by blast
  qed
  ultimately show ?thesis using region_okD(2) [OF ok] by (simp add: region_ok_def)
qed

section \<open>Every operation\<close>

lemma heap_finalize_keeps:
  assumes "heap_finalize obj s = Ok t"
  shows "rs_mod t = rs_mod s" and "rs_heaps t = rs_heaps s" and "rs_fresh t = rs_fresh s"
  using assms by (auto simp: heap_finalize_def res_bind_eq_Ok split: prod.splits)

lemma heap_instance_effect:
  assumes run: "heap_instance env p s = Ok (h, t)"
  shows "(h = NULL \<and> rs_mod t = rs_mod s \<and> rs_heaps t = rs_heaps s \<and> rs_fresh t = rs_fresh s) \<or>
    (\<exists>obj0 obj. rs_mod t = rs_mod s \<and> rs_fresh s = (h, obj0) # rs_fresh t \<and> rs_heaps t = (rs_heaps s)(h \<mapsto> obj))"
proof (cases "rs_fresh s")
  case Nil
  then show ?thesis using run by (simp add: heap_instance_def)
next
  case (Cons x rest)
  obtain h0 obj0 where x: "x = (h0, obj0)" by (cases x)
  obtain st obj m where init: "HeapMemMP_Instance_init (rs_mod s) env p obj0 (rs_mem s) = Ok (st, obj, m)"
    using run Cons x by (auto simp: heap_instance_def res_bind_eq_Ok)
  show ?thesis
  proof (cases "st = 0")
    case True
    then have "h = h0" "t = s\<lparr>rs_mem := m, rs_heaps := (rs_heaps s)(h \<mapsto> obj), rs_fresh := rest\<rparr>"
      using run Cons x init by (auto simp: heap_instance_def)
    then show ?thesis using Cons x by (intro disjI2 exI [of _ obj0] exI [of _ obj]) simp
  next
    case False
    then have fin: "h = NULL" "heap_finalize obj (s\<lparr>rs_mem := m\<rparr>) = Ok t"
      using run Cons x init by (auto simp: heap_instance_def res_bind_eq_Ok)
    show ?thesis using fin(1) heap_finalize_keeps [OF fin(2)] by simp
  qed
qed

lemma heap_instance_keeps:
  assumes ok: "region_ok s" and run: "heap_instance env p s = Ok (h, t)"
  shows "region_ok (rs_put i (region_set_heap h) t)" and "h = NULL \<Longrightarrow> region_ok t" and "rs_mod t = rs_mod s"
proof -
  from heap_instance_effect [OF run] have "region_ok (rs_put i (region_set_heap h) t) \<and> (h = NULL \<longrightarrow> region_ok t) \<and> rs_mod t = rs_mod s"
  proof (elim disjE exE conjE)
    assume same: "h = NULL" "rs_mod t = rs_mod s" "rs_heaps t = rs_heaps s" "rs_fresh t = rs_fresh s"
    from region_ok_cong [OF ok same(2-4)] show ?thesis using same region_ok_null by blast
  next
    fix obj0 obj
    assume new: "rs_mod t = rs_mod s" "rs_fresh s = (h, obj0) # rs_fresh t" "rs_heaps t = (rs_heaps s)(h \<mapsto> obj)"
    note H = heaps_ok_new(1) [OF region_okD(2) [OF ok, unfolded new(2)], of i obj]
      heaps_ok_new(2) [OF region_okD(2) [OF ok, unfolded new(2)]]
    have "region_ok (rs_put i (region_set_heap h) t)"
      unfolding region_ok_def heaps_put_heap sr_wf_put_heap rs_put_simps(1,2) new(1,3)
      by (intro conjI region_okD(1) [OF ok] H(1))
    then show ?thesis using H(2) new(1) by blast
  qed
  then show "region_ok (rs_put i (region_set_heap h) t)" and "h = NULL \<Longrightarrow> region_ok t" and "rs_mod t = rs_mod s"
    by auto
qed

lemma HeapMemMP_create_keeps:
  assumes "region_ok s" and "HeapMemMP_create env p s = Ok (h, t)"
  shows "region_ok (rs_put i (region_set_heap h) t)" and "h = NULL \<Longrightarrow> region_ok t" and "rs_mod t = rs_mod s"
  using assms heap_instance_keeps unfolding HeapMemMP_create_def by (auto split: option.splits)

lemma heap_openByAddr_keeps:
  assumes "region_ok s" and "heap_openByAddr env a s = Ok (st, h, t)"
  shows "region_ok (rs_put i (region_set_heap h) t)" and "rs_mod t = rs_mod s"
proof -
  obtain c where c: "(if ma_status (mm_attrs (mm_if c (Cache_inv a sizeof_HeapMemMP_Attrs) (rs_mem s)) a) \<noteq> HeapMemMP_CREATED
      then h = NULL \<and> t = s\<lparr>rs_mem := mm_if c (Cache_inv a sizeof_HeapMemMP_Attrs) (rs_mem s)\<rparr>
      else heap_instance env (HeapMemMP_Params_init\<lparr>mp_openFlag := True, mp_sharedAddr := a\<rparr>)
          (s\<lparr>rs_mem := mm_if c (Cache_inv a sizeof_HeapMemMP_Attrs) (rs_mem s)\<rparr>) = Ok (h, t))"
    using assms(2) by (auto simp: heap_openByAddr_def res_bind_eq_Ok Let_def split: if_splits)
  let ?s = "s\<lparr>rs_mem := mm_if c (Cache_inv a sizeof_HeapMemMP_Attrs) (rs_mem s)\<rparr>"
  have s: "region_ok ?s" "rs_mod ?s = rs_mod s" by (rule region_ok_cong [OF assms(1)]) simp_all
  show "region_ok (rs_put i (region_set_heap h) t)" and "rs_mod t = rs_mod s"
    using c heap_instance_keeps [OF s(1)] region_ok_null [OF s(1)] s(2) by (auto split: if_splits)
qed

lemma HeapMemMP_delete_keeps:
  assumes ok: "region_ok s" and run: "HeapMemMP_delete (rg_heap (rs_region s i)) s = Ok (st, t)"
    and i: "i < SharedRegion_numEntries (rs_mod s)" "rg_heap (rs_region s i) \<noteq> NULL"
  shows "region_ok (rs_put i (region_set_heap NULL) t)" and "st = HeapMemMP_S_SUCCESS" and "rs_mod t = rs_mod s"
proof -
  let ?h = "rg_heap (rs_region s i)"
  have t: "rs_mod t = rs_mod s" "rs_heaps t = (rs_heaps s)(?h := None)" "rs_fresh t = rs_fresh s" "st = HeapMemMP_S_SUCCESS"
    using run by (auto simp: HeapMemMP_delete_def res_bind_eq_Ok heap_finalize_def split: option.splits)
  have "heaps_ok ((map rg_heap (sr_regions (rs_mod s)))[i := NULL]) ((rs_heaps s)(?h := None)) (rs_fresh s)"
    using i by (intro heaps_ok_delete [OF region_okD(2) [OF ok]])
      (simp_all add: rs_region_def SharedRegion_numEntries_def)
  then show "region_ok (rs_put i (region_set_heap NULL) t)"
    using t region_okD(1) [OF ok] unfolding region_ok_def heaps_put_heap by (simp add: sr_wf_put_heap)
  show "st = HeapMemMP_S_SUCCESS" "rs_mod t = rs_mod s" using t by simp_all
qed

text \<open>With the size of the table and the offset bits, which no operation changes.\<close>

definition region_inv :: "nat \<Rightarrow> nat \<Rightarrow> region_state \<Rightarrow> bool" where
  "region_inv n k s \<longleftrightarrow> region_ok s \<and> SharedRegion_numEntries (rs_mod s) = n \<and> sr_numOffsetBits (rs_mod s) = k"

lemma rs_put_offset_bits [simp]: "sr_numOffsetBits (rs_mod (rs_put i f s)) = sr_numOffsetBits (rs_mod s)"
  by (simp add: rs_put_def)

lemma region_inv_put:
  "region_inv n k s \<Longrightarrow> rs_mod t = rs_mod s \<Longrightarrow> region_ok (rs_put i f t) \<Longrightarrow> region_inv n k (rs_put i f t)"
  by (simp add: region_inv_def)

lemma region_inv_same:
  "region_inv n k s \<Longrightarrow> rs_mod t = rs_mod s \<Longrightarrow> region_ok t \<Longrightarrow> region_inv n k t"
  by (simp add: region_inv_def)

lemma each_region_keeps:
  assumes step: "\<And>i st s st' s'. i \<in> set is \<Longrightarrow> P s \<Longrightarrow> f i st s = Ok (st', s') \<Longrightarrow> P s'"
    and "P s" and "each_region f is st s = Ok (st', s')"
  shows "P s'"
  using assms
proof (induction "is" arbitrary: st s)
  case (Cons i "is")
  obtain st1 s1 where one: "f i st s = Ok (st1, s1)" "each_region f is st1 s1 = Ok (st', s')"
    using Cons.prems(3) by (auto simp: res_bind_eq_Ok)
  have "P s1" using Cons.prems(1) [OF _ Cons.prems(2) one(1)] by simp
  from Cons.IH [OF _ this one(2)] show ?case by (meson Cons.prems(1) list.set_intros(2))
qed simp

lemma attach_region_keeps:
  assumes "region_inv n k s" and "attach_region env i st s = Ok (st', s')"
  shows "region_inv n k s'"
proof -
  let ?r = "rs_region s i"
  let ?a = "re_base (rg_entry ?r) + rg_reservedSize ?r"
  have ok: "region_ok s" using assms(1) by (simp add: region_inv_def)
  have "(st', s') = (st, s) \<or> (\<exists>h t. heap_openByAddr env ?a s = Ok (st', h, t) \<and> s' = rs_put i (region_set_heap h) t)"
    using assms(2) by (auto simp: attach_region_def res_bind_eq_Ok Let_def split: if_splits)
  then show ?thesis
  proof (elim disjE exE conjE)
    fix h t assume t: "heap_openByAddr env ?a s = Ok (st', h, t)" "s' = rs_put i (region_set_heap h) t"
    note K = heap_openByAddr_keeps [OF ok t(1)]
    show ?thesis unfolding t(2) by (rule region_inv_put [OF assms(1) K(2,1)])
  qed (use assms(1) in simp)
qed

lemma detach_region_keeps:
  assumes "region_inv n k s" and i: "i < n" and "detach_region p i st s = Ok (st', s')"
  shows "region_inv n k s'"
proof -
  let ?r = "rs_region s i"
  have inv: "region_ok s" "i < SharedRegion_numEntries (rs_mod s)" using assms(1,2) by (simp_all add: region_inv_def)
  have "(st', s') = (st, s) \<or> (rg_heap ?r \<noteq> NULL \<and>
      (\<exists>st1 t. HeapMemMP_delete (rg_heap ?r) s = Ok (st1, t) \<and> s' = rs_put i (region_set_heap NULL) t))"
    using assms(3) by (auto simp: detach_region_def HeapMemMP_close_def res_bind_eq_Ok Let_def split: if_splits)
  then show ?thesis
  proof (elim disjE exE conjE)
    fix st1 t
    assume t: "rg_heap ?r \<noteq> NULL" "HeapMemMP_delete (rg_heap ?r) s = Ok (st1, t)"
      "s' = rs_put i (region_set_heap NULL) t"
    note K = HeapMemMP_delete_keeps [OF inv(1) t(2) inv(2) t(1)]
    show ?thesis unfolding t(3) by (rule region_inv_put [OF assms(1) K(3,1)])
  qed (use assms(1) in simp)
qed

lemma stop_region_keeps:
  assumes "region_inv n k s" and i: "i < n" and "stop_region i st s = Ok (st', s')"
  shows "region_inv n k s'"
proof -
  let ?r = "rs_region s i"
  have inv: "region_ok s" "i < SharedRegion_numEntries (rs_mod s)" using assms(1,2) by (simp_all add: region_inv_def)
  have "(st', s') = (st, s) \<or> (rg_heap ?r \<noteq> NULL \<and>
      (\<exists>st1 t. HeapMemMP_delete (rg_heap ?r) s = Ok (st1, t) \<and> s' = rs_put i (region_set_heap NULL) t))"
    using assms(3) by (auto simp: stop_region_def res_bind_eq_Ok Let_def split: if_splits)
  then show ?thesis
  proof (elim disjE exE conjE)
    fix st1 t
    assume t: "rg_heap ?r \<noteq> NULL" "HeapMemMP_delete (rg_heap ?r) s = Ok (st1, t)"
      "s' = rs_put i (region_set_heap NULL) t"
    note K = HeapMemMP_delete_keeps [OF inv(1) t(2) inv(2) t(1)]
    show ?thesis unfolding t(3) by (rule region_inv_put [OF assms(1) K(3,1)])
  qed (use assms(1) in simp)
qed

lemma start_region_keeps:
  assumes "region_inv n k s" and "start_region env i st s = Ok (st', s')"
  shows "region_inv n k s'"
proof -
  have ok: "region_ok s" using assms(1) by (simp add: region_inv_def)
  have "(st', s') = (st, s) \<or> (\<exists>p. HeapMemMP_create env (Some p) s = Ok (NULL, s')) \<or>
      (\<exists>p h t. HeapMemMP_create env (Some p) s = Ok (h, t) \<and> s' = rs_put i (region_set_heap h) t)"
    using assms(2) by (auto simp: start_region_def res_bind_eq_Ok Let_def split: if_splits)
  then show ?thesis
  proof (elim disjE exE conjE)
    fix p assume "HeapMemMP_create env (Some p) s = Ok (NULL, s')"
    note K = HeapMemMP_create_keeps [OF ok this]
    show ?thesis by (rule region_inv_same [OF assms(1) K(3) K(2) [OF refl]])
  next
    fix p h t assume t: "HeapMemMP_create env (Some p) s = Ok (h, t)" "s' = rs_put i (region_set_heap h) t"
    note K = HeapMemMP_create_keeps [OF ok t(1)]
    show ?thesis unfolding t(2) by (rule region_inv_put [OF assms(1) K(3,1)])
  qed (use assms(1) in simp)
qed

lemma clear_region_keeps:
  assumes "region_inv n k s" and "clear_region i u s = Ok (u', s')"
  shows "region_inv n k s'"
  using assms unfolding clear_region_def region_inv_def
  by (auto simp: Let_def region_ok_def split: if_splits)

lemma reserveMemory_keeps:
  assumes "SharedRegion_reserveMemory M rid sz = Ok (p, N)"
  shows "same_table M N" and "map rg_heap (sr_regions N) = map rg_heap (sr_regions M)"
    and "sr_numOffsetBits N = sr_numOffsetBits M"
  using assms
  by (auto simp: SharedRegion_reserveMemory_def Assert_isTrue_eq_Ok res_bind_eq_Ok Let_def set_region_def
      same_table_def arr_get_eq_Ok map_update list_update_same_conv)

lemma resetInternalFields_keeps:
  assumes "SharedRegion_resetInternalFields M rid = Ok N"
  shows "same_table M N" and "map rg_heap (sr_regions N) = map rg_heap (sr_regions M)"
    and "sr_numOffsetBits N = sr_numOffsetBits M"
  using assms
  by (auto simp: SharedRegion_resetInternalFields_def Assert_isTrue_eq_Ok res_bind_eq_Ok set_region_def
      same_table_def arr_get_eq_Ok map_update list_update_same_conv)

lemma region_inv_table:
  assumes "region_inv n k s" and "same_table (rs_mod s) N"
    and "map rg_heap (sr_regions N) = map rg_heap (sr_regions (rs_mod s))"
  shows "region_inv n k (s\<lparr>rs_mod := N\<rparr>)"
  using assms same_table_nth(1) [OF assms(2)] sr_wf_same_table [OF assms(2)]
  by (simp add: region_inv_def region_ok_def same_table_def)

lemma clearEntry_keeps:
  assumes inv: "region_inv n k s" and run: "SharedRegion_clearEntry rid s = Ok (st, t)"
  shows "region_inv n k t"
proof -
  let ?M = "rs_mod s" and ?i = "unat rid"
  let ?r = "rs_region s ?i"
  let ?new = "\<lambda>r. \<lparr>rg_entry = SharedRegion_entryInit ?M, rg_reservedSize = 0, rg_heap = NULL\<rparr>"
  have i: "?i < SharedRegion_numEntries ?M" and ok: "region_ok s"
    using run inv by (auto simp: SharedRegion_clearEntry_def Assert_isTrue_eq_Ok region_inv_def Let_def split: if_splits)
  let ?s1 = "rs_put ?i ?new s"
  have wf: "sr_wf (rs_mod ?s1)"
    by (rule sr_wf_set [OF region_okD(1) [OF ok] _ i, where r = "?new (rs_region s ?i)"])
      (simp_all add: rs_put_def SharedRegion_entryInit_def)
  have hs: "map rg_heap (sr_regions (rs_mod ?s1)) = (map rg_heap (sr_regions ?M))[?i := NULL]"
    by (simp add: map_update)
  have null: "region_inv n k ?s1"
    using inv wf heaps_ok_null [OF region_okD(2) [OF ok]] by (simp add: region_inv_def region_ok_def map_update)
  have gone: "region_inv n k t" if t: "HeapMemMP_delete (rg_heap ?r) ?s1 = Ok (st1, t)" "rg_heap ?r \<noteq> NULL" for st1 t
  proof -
    have t': "rs_mod t = rs_mod ?s1" "rs_heaps t = (rs_heaps s)(rg_heap ?r := None)" "rs_fresh t = rs_fresh s"
      using t(1) by (auto simp: HeapMemMP_delete_def res_bind_eq_Ok heap_finalize_def split: option.splits)
    have "heaps_ok ((map rg_heap (sr_regions ?M))[?i := NULL]) ((rs_heaps s)(rg_heap ?r := None)) (rs_fresh s)"
      using i t(2) by (intro heaps_ok_delete [OF region_okD(2) [OF ok]])
        (simp_all add: rs_region_def SharedRegion_numEntries_def)
    then have "region_ok t" using wf unfolding region_ok_def t' hs by simp
    then show ?thesis using region_inv_same [OF null t'(1)] by blast
  qed
  have "t = ?s1 \<or> (rg_heap ?r \<noteq> NULL \<and> (\<exists>st1. HeapMemMP_delete (rg_heap ?r) ?s1 = Ok (st1, t)))"
    using run by (auto simp: SharedRegion_clearEntry_def HeapMemMP_close_def Assert_isTrue_eq_Ok res_bind_eq_Ok
        Let_def split: if_splits)
  then show ?thesis using null gone by blast
qed

text \<open>Writing the entry keeps the table in order once the overlap check has passed.\<close>

lemma set_entry_keeps:
  assumes inv: "region_inv n k s" and i: "i < n" and e: "re_isValid e \<Longrightarrow> entry_fits k e"
    and free: "\<not> SharedRegion_checkOverlap_loop (sr_regions (rs_mod s)) (re_base e) (re_len e)"
  shows "region_inv n k (rs_put i (\<lambda>r. r\<lparr>rg_entry := e\<rparr>) s)"
proof -
  let ?M = "rs_mod s"
  have ok: "region_ok s" and n: "SharedRegion_numEntries ?M = n" "sr_numOffsetBits ?M = k"
    using inv by (simp_all add: region_inv_def)
  have fits: "entry_fits k (rg_entry (sr_regions ?M ! j))" if "valid_entry ?M j" for j
    using region_okD(1) [OF ok] that n by (auto simp: sr_wf_def)
  have apart: "entries_disjoint e (rg_entry (sr_regions ?M ! j))" if v: "valid_entry ?M j" "re_isValid e" for j
  proof -
    have "sr_regions ?M ! j \<in> set (sr_regions ?M)" "re_isValid (rg_entry (sr_regions ?M ! j))"
      using v(1) by (auto simp: valid_entry_def SharedRegion_numEntries_def)
    from checkOverlap_loop_apart [OF free this _ fits [OF v(1)]] e [OF v(2)] show ?thesis
      by (auto simp: entries_disjoint_def entry_fits_def)
  qed
  have "sr_wf (rs_mod (rs_put i (\<lambda>r. r\<lparr>rg_entry := e\<rparr>) s))"
    by (rule sr_wf_set [OF region_okD(1) [OF ok], where i = i and r = "(rs_region s i)\<lparr>rg_entry := e\<rparr>"])
      (use i e apart n in \<open>simp_all add: rs_put_def\<close>)
  moreover have "map rg_heap ((sr_regions ?M)[i := (sr_regions ?M ! i)\<lparr>rg_entry := e\<rparr>]) = map rg_heap (sr_regions ?M)"
    by (rule map_update_keep) simp
  ultimately show ?thesis using region_okD(2) [OF ok] n by (simp add: region_inv_def region_ok_def)
qed

lemma setEntry_heap_keeps:
  assumes inv: "region_inv n k s" and run: "setEntry_heap env rid e s = Ok (st, t)"
  shows "region_inv n k t"
proof (cases "\<not> re_isValid e \<or> \<not> (re_createHeap e \<and> rg_heap (rs_region s (unat rid)) = NULL)")
  case True
  then show ?thesis using run inv by (auto simp: setEntry_heap_def Let_def split: if_splits)
next
  case heap: False
  let ?i = "unat rid" and ?M = "rs_mod s"
  have ok: "region_ok s" using inv by (simp add: region_inv_def)
  show ?thesis
  proof (cases "re_ownerProcId e = sr_self ?M")
    case True
    obtain a N p h u where r: "SharedRegion_reserveMemory ?M rid 0 = Ok (a, N)"
      and c: "HeapMemMP_create env (Some p) (s\<lparr>rs_mod := N\<rparr>) = Ok (h, u)"
      and t: "t = (if h = NULL then rs_put ?i region_invalidate u else rs_put ?i (region_set_heap h) u)"
      using run heap True by (auto simp: setEntry_heap_def res_bind_eq_Ok Let_def split: if_splits)
    have own: "region_inv n k (s\<lparr>rs_mod := N\<rparr>)"
      using region_inv_table [OF inv] reserveMemory_keeps [OF r] by blast
    then have "region_ok (s\<lparr>rs_mod := N\<rparr>)" by (simp add: region_inv_def)
    note K = HeapMemMP_create_keeps [OF this c]
    show ?thesis using t K region_inv_put [OF own K(3)] region_ok_invalidate by (auto split: if_splits)
  next
    case False
    obtain sx h u where o: "heap_openByAddr env (re_base e + rg_reservedSize (rs_region s ?i)) s = Ok (sx, h, u)"
      and t: "t = (if sx = HeapMemMP_S_SUCCESS then rs_put ?i (region_set_heap h) u
                   else rs_put ?i region_invalidate (rs_put ?i (region_set_heap h) u))"
      using run heap False by (auto simp: setEntry_heap_def res_bind_eq_Ok Let_def split: if_splits)
    note K = heap_openByAddr_keeps [OF ok o]
    have put: "region_inv n k (rs_put ?i (region_set_heap h) u)" by (rule region_inv_put [OF inv K(2,1)])
    then have "region_ok (rs_put ?i (region_set_heap h) u)" by (simp add: region_inv_def)
    from region_inv_put [OF put refl region_ok_invalidate [OF this]] show ?thesis using put t by simp
  qed
qed

lemma setEntry_keeps:
  assumes inv: "region_inv n k s" and e: "re_isValid e \<longrightarrow> entry_fits k e"
    and run: "SharedRegion_setEntry env rid (Some e) s = Ok (st, t)"
  shows "region_inv n k t"
proof (cases "t = s")
  case False
  let ?s1 = "rs_put (unat rid) (\<lambda>r. r\<lparr>rg_entry := e\<rparr>) s"
  have step: "unat rid < SharedRegion_numEntries (rs_mod s)"
    "\<not> SharedRegion_checkOverlap_loop (sr_regions (rs_mod s)) (re_base e) (re_len e)"
    "setEntry_heap env rid e ?s1 = Ok (st, t)"
    using run False
    by (auto simp: SharedRegion_setEntry_def SharedRegion_checkOverlap_def Assert_isTrue_eq_Ok res_bind_eq_Ok
        Let_def split: if_splits)
  have "unat rid < n" using step(1) inv by (simp add: region_inv_def)
  from setEntry_heap_keeps [OF set_entry_keeps [OF inv this _ step(2)] step(3)] e show ?thesis by blast
qed (use inv in simp)

section \<open>Runs\<close>

datatype region_op =
    R_setEntry u16 SharedRegion_Entry | R_clearEntry u16 | R_reserve u16 sizeT | R_reset u16
  | R_attach u16 | R_detach u16 | R_start | R_stop | R_clearReserved

definition ignoring :: "('a \<times> 's) res \<Rightarrow> (unit \<times> 's) res" where
  "ignoring r = res_bind r (\<lambda>(_, s). Ok ((), s))"

fun region_step :: "ipc_env \<Rightarrow> region_op \<Rightarrow> region_state \<Rightarrow> (unit \<times> region_state) res" where
  "region_step env (R_setEntry rid e) s = ignoring (SharedRegion_setEntry env rid (Some e) s)"
| "region_step env (R_clearEntry rid) s = ignoring (SharedRegion_clearEntry rid s)"
| "region_step env (R_reserve rid sz) s =
     res_bind (SharedRegion_reserveMemory (rs_mod s) rid sz) (\<lambda>(_, M). Ok ((), s\<lparr>rs_mod := M\<rparr>))"
| "region_step env (R_reset rid) s =
     res_bind (SharedRegion_resetInternalFields (rs_mod s) rid) (\<lambda>M. Ok ((), s\<lparr>rs_mod := M\<rparr>))"
| "region_step env (R_attach p) s = ignoring (SharedRegion_attach env p s)"
| "region_step env (R_detach p) s = ignoring (SharedRegion_detach p s)"
| "region_step env R_start s = ignoring (SharedRegion_start env s)"
| "region_step env R_stop s = ignoring (SharedRegion_stop s)"
| "region_step env R_clearReserved s = ignoring (SharedRegion_clearReservedMemory s)"

lemma ignoring_Ok: "ignoring r = Ok (u, t) \<longleftrightarrow> (\<exists>x. r = Ok (x, t))"
  by (auto simp: ignoring_def res_bind_eq_Ok)

fun region_op_fits :: "nat \<Rightarrow> region_op \<Rightarrow> bool" where
  "region_op_fits k (R_setEntry rid e) \<longleftrightarrow> (re_isValid e \<longrightarrow> entry_fits k e)"
| "region_op_fits k _ \<longleftrightarrow> True"

lemma region_step_keeps:
  assumes inv: "region_inv n k s" and fits: "region_op_fits k op" and run: "region_step env op s = Ok (u, t)"
  shows "region_inv n k t"
proof -
  have idx: "i \<in> set (all_regions s) \<Longrightarrow> i < n" for i using inv by (simp add: all_regions_def region_inv_def)
  show ?thesis
  proof (cases op)
    case (R_setEntry rid e)
    then show ?thesis using setEntry_keeps [OF inv, of e env rid] fits run by (auto simp: ignoring_Ok)
  next
    case (R_clearEntry rid)
    then show ?thesis using clearEntry_keeps [OF inv] run by (auto simp: ignoring_Ok)
  next
    case (R_reserve rid sz)
    then obtain a N where N: "SharedRegion_reserveMemory (rs_mod s) rid sz = Ok (a, N)" "t = s\<lparr>rs_mod := N\<rparr>"
      using run by (auto simp: res_bind_eq_Ok)
    show ?thesis unfolding N(2) by (rule region_inv_table [OF inv reserveMemory_keeps(1,2) [OF N(1)]])
  next
    case (R_reset rid)
    then obtain N where N: "SharedRegion_resetInternalFields (rs_mod s) rid = Ok N" "t = s\<lparr>rs_mod := N\<rparr>"
      using run by (auto simp: res_bind_eq_Ok)
    show ?thesis unfolding N(2) by (rule region_inv_table [OF inv resetInternalFields_keeps(1,2) [OF N(1)]])
  next
    case (R_attach p)
    then obtain st where st: "each_region (attach_region env) (all_regions s) HeapMemMP_S_SUCCESS s = Ok (st, t)"
      using run by (auto simp: ignoring_Ok SharedRegion_attach_def)
    show ?thesis
      by (rule each_region_keeps [where P = "region_inv n k", OF _ inv st]) (use attach_region_keeps in blast)
  next
    case (R_detach p)
    then obtain st where st: "each_region (detach_region p) (all_regions s) HeapMemMP_S_SUCCESS s = Ok (st, t)"
      using run by (auto simp: ignoring_Ok SharedRegion_detach_def)
    show ?thesis
      by (rule each_region_keeps [where P = "region_inv n k", OF _ inv st]) (use detach_region_keeps idx in blast)
  next
    case R_start
    then obtain st where st: "each_region (start_region env) (all_regions s) SR_SUCCESS s = Ok (st, t)"
      using run by (auto simp: ignoring_Ok SharedRegion_start_def Assert_isTrue_eq_Ok)
    show ?thesis
      by (rule each_region_keeps [where P = "region_inv n k", OF _ inv st]) (use start_region_keeps in blast)
  next
    case R_stop
    then obtain st where st: "each_region stop_region (all_regions s) HeapMemMP_S_SUCCESS s = Ok (st, t)"
      using run by (auto simp: ignoring_Ok SharedRegion_stop_def)
    show ?thesis
      by (rule each_region_keeps [where P = "region_inv n k", OF _ inv st]) (use stop_region_keeps idx in blast)
  next
    case R_clearReserved
    then obtain st where st: "each_region clear_region (all_regions s) () s = Ok (st, t)"
      using run by (auto simp: ignoring_Ok SharedRegion_clearReservedMemory_def)
    show ?thesis
      by (rule each_region_keeps [where P = "region_inv n k", OF _ inv st]) (use clear_region_keeps in blast)
  qed
qed

lemma region_run_keeps:
  "region_inv n k s \<Longrightarrow> \<forall>op\<in>set ops. region_op_fits k op \<Longrightarrow> run_ops (region_step env) ops s = Ok (us, t) \<Longrightarrow>
   region_inv n k t"
proof (induction ops arbitrary: s us)
  case (Cons op ops)
  then show ?case using region_step_keeps by (fastforce simp: res_bind_eq_Ok)
qed simp

section \<open>The size of a region's heap\<close>

definition heap_align :: "sizeT \<Rightarrow> sizeT" where
  "heap_align cls = (if sizeof_HeapMemMP_Header < cls then cls else sizeof_HeapMemMP_Header)"

lemma postInit_created:
  assumes "HeapMemMP_postInit M env obj m = Ok (False, obj', m')" and "mo_attrs obj \<noteq> NULL"
  shows "mo_buf obj' = Ipc_roundup (mo_buf obj) (mo_minAlign obj)"
    and "mo_bufSize obj' = (mo_bufSize obj div mo_minAlign obj) * mo_minAlign obj"
  using assms
  by (auto simp: HeapMemMP_postInit_def res_bind_eq_Ok Assert_isTrue_eq_Ok Let_def split: if_splits)

lemma Instance_init_created:
  assumes run: "HeapMemMP_Instance_init M env p obj0 m = Ok (0, obj, m')"
    and p: "\<not> mp_openFlag p" "mp_sharedAddr p \<noteq> NULL"
  shows "\<exists>cls. SharedRegion_getId M (mp_sharedAddr p) \<noteq> SharedRegion_INVALIDREGIONID \<and>
    SharedRegion_getCacheLineSize M (SharedRegion_getId M (mp_sharedAddr p)) = Ok cls \<and>
    mo_buf obj = Ipc_roundup (mp_sharedAddr p + sizeof_HeapMemMP_Attrs) (heap_align cls) \<and>
    mo_bufSize obj = (mp_sharedBufSize p div heap_align cls) * heap_align cls"
proof -
  let ?a = "mp_sharedAddr p"
  let ?rid = "SharedRegion_getId M ?a"
  obtain cls o3 o4 where rid: "?rid \<noteq> SharedRegion_INVALIDREGIONID"
    and cls: "SharedRegion_getCacheLineSize M ?rid = Ok cls"
    and o3: "mo_attrs o3 = ?a" "mo_buf o3 = ?a + sizeof_HeapMemMP_Attrs" "mo_minAlign o3 = heap_align cls"
      "mo_bufSize o3 = mp_sharedBufSize p"
    and o4: "HeapMemMP_postInit M env o3 m = Ok (False, o4, m')"
    and obj: "mo_buf obj = mo_buf o4" "mo_bufSize obj = mo_bufSize o4"
  proof -
    from run p obtain cls where rid: "?rid \<noteq> SharedRegion_INVALIDREGIONID"
      and cls: "SharedRegion_getCacheLineSize M ?rid = Ok cls"
      by (auto simp: HeapMemMP_Instance_init_def res_bind_eq_Ok Assert_isTrue_eq_Ok Let_def split: if_splits)
    obtain c where c: "SharedRegion_isCacheEnabled M ?rid = Ok c"
      using run p rid cls
      by (auto simp: HeapMemMP_Instance_init_def res_bind_eq_Ok Assert_isTrue_eq_Ok Let_def split: if_splits)
    let ?o3 = "obj0\<lparr>mo_nsKey := NULL, mo_allocSize := 0,
      mo_gate := (if mp_gate p \<noteq> NULL then mp_gate p else env_defaultGate env), mo_bufSize := mp_sharedBufSize p,
      mo_regionId := ?rid, mo_objType := ObjType_CREATEDYNAMIC, mo_buf := ?a + sizeof_HeapMemMP_Attrs,
      mo_attrs := ?a, mo_cacheEnabled := c, mo_minAlign := heap_align cls\<rparr>"
    obtain o4 where "HeapMemMP_postInit M env ?o3 m = Ok (False, o4, m')"
      "mo_buf obj = mo_buf o4" "mo_bufSize obj = mo_bufSize o4"
      using run p rid cls c
      by (auto simp: HeapMemMP_Instance_init_def res_bind_eq_Ok Assert_isTrue_eq_Ok heap_minAlign_def heap_align_def Let_def
          split: if_splits option.splits)
    then show thesis by (intro that [of cls ?o3 o4]) (use rid cls in simp_all)
  qed
  have "mo_attrs o3 \<noteq> NULL" using o3(1) p(2) by simp
  note P = postInit_created [OF o4 this]
  show ?thesis using rid cls P o3 obj by (intro exI [of _ cls]) simp
qed

text \<open>
  \<open>HeapMemMP_sharedMemReq\<close> answers 0 for an address in a region, so that the parameters come
  out with twice the size that is left.
\<close>

lemma region_heap_params_doubled:
  assumes "region_heap_params M r a = Ok p" and "SharedRegion_getId M a \<noteq> SharedRegion_INVALIDREGIONID"
    and "a \<noteq> NULL"
  shows "p = HeapMemMP_Params_init\<lparr>mp_sharedAddr := a,
    mp_sharedBufSize := (re_len (rg_entry r) - rg_reservedSize r) + (re_len (rg_entry r) - rg_reservedSize r)\<rparr>"
  using assms
  by (auto simp: region_heap_params_def HeapMemMP_sharedMemReq_def res_bind_eq_Ok Assert_isTrue_eq_Ok Let_def)

definition heap_overruns :: "region_state \<Rightarrow> nat \<Rightarrow> bool" where
  "heap_overruns s i \<longleftrightarrow> (\<exists>obj. rs_heaps s (rg_heap (rs_region s i)) = Some obj \<and>
     unat (re_base (rg_entry (rs_region s i))) + unat (re_len (rg_entry (rs_region s i)))
       < unat (mo_buf obj) + unat (mo_bufSize obj))"

text \<open>
  Room for a heap in region \<open>i\<close>: the cache line is a power of two, and what is left takes the
  attributes and an aligned block and is less than half of the address space.
\<close>

definition heap_room :: "SharedRegion_Region \<Rightarrow> bool" where
  "heap_room r \<longleftrightarrow> (\<exists>k<31. heap_align (re_cacheLineSize (rg_entry r)) = 2 ^ k \<and>
     rg_reservedSize r \<le> re_len (rg_entry r) \<and> re_base (rg_entry r) \<noteq> NULL \<and>
     20 + 2 ^ k \<le> unat (re_len (rg_entry r)) - unat (rg_reservedSize r) \<and>
     unat (re_len (rg_entry r)) - unat (rg_reservedSize r) < 2 ^ 31)"

lemma doubled_size_overruns:
  fixes base len res :: u32
  assumes fit: "unat base + unat len < 2 ^ 32" and res: "res \<le> len" and k: "k < 31"
    and room: "20 + 2 ^ k \<le> unat len - unat res" "unat len - unat res < 2 ^ 31"
  shows "unat base + unat len < unat (Ipc_roundup (base + res + sizeof_HeapMemMP_Attrs) (2 ^ k)) +
    unat ((((len - res) + (len - res)) div 2 ^ k) * 2 ^ k)"
proof -
  let ?sz = "unat len - unat res"
  have le: "unat res \<le> unat len" using res by (simp add: word_le_nat_alt)
  have a: "unat (base + res) = unat base + unat res"
    using fit le by (intro unat_plus_no_wrap) simp
  have at: "unat (base + res + sizeof_HeapMemMP_Attrs) = unat base + unat res + 20"
    using fit le room(1) a by (subst unat_plus_no_wrap) simp_all
  have buf: "unat (Ipc_roundup (base + res + sizeof_HeapMemMP_Attrs) (2 ^ k)) = round_up (unat base + unat res + 20) (2 ^ k)"
    using fit le room(1) k at by (subst unat_Ipc_roundup [of _ k]) simp_all
  have up: "unat base + unat res + 20 \<le> round_up (unat base + unat res + 20) (2 ^ k)"
    by (rule round_up_bounds(1)) simp
  have d: "unat (len - res) = ?sz" by (rule unat_minus_le [OF res])
  have dd: "unat ((len - res) + (len - res)) = 2 * ?sz" using room(2) d by (subst unat_plus_no_wrap) simp_all
  have p2: "unat (2 ^ k :: u32) = 2 ^ k" using unat_pow2 [where 'a = 32, of k] k by simp
  have "2 * ?sz div 2 ^ k * 2 ^ k \<le> 2 * ?sz" "2 * ?sz div 2 ^ k \<le> 2 * ?sz" by (simp, rule div_le_dividend)
  moreover have "2 * ?sz < 2 ^ 32" using room(2) by simp
  ultimately have "2 * ?sz div 2 ^ k * 2 ^ k < 2 ^ 32" "2 * ?sz div 2 ^ k < 2 ^ 32"
    by (blast intro: le_less_trans)+
  then have size: "unat ((((len - res) + (len - res)) div 2 ^ k) * 2 ^ k) = 2 * ?sz div 2 ^ k * 2 ^ k"
    unfolding unat_word_ariths(2) unat_div dd p2 by simp
  have "2 * ?sz < 2 * ?sz div 2 ^ k * 2 ^ k + 2 ^ k"
    using dividend_less_div_times [of "2 ^ k" "2 * ?sz"] by (simp add: add.commute)
  then show ?thesis using buf up size room(1) le by linarith
qed

lemma getCacheLineSize_region:
  assumes "SharedRegion_getCacheLineSize M (word_of_nat i) = Ok cls" and "sr_wf M" and "i < SharedRegion_numEntries M"
    and "(word_of_nat i :: u16) \<noteq> SharedRegion_INVALIDREGIONID"
  shows "cls = re_cacheLineSize (rg_entry (sr_regions M ! i))"
  using assms unat_region_id [OF assms(2,3)]
  by (simp add: SharedRegion_getCacheLineSize_def SharedRegion_numEntries_def Assert_isTrue_eq_Ok)

lemma start_region_overruns:
  assumes inv: "region_inv n k s" and i: "i < n" and room: "heap_room (rs_region s i)"
    and none: "rg_heap (rs_region s i) = NULL"
    and run: "start_region env i st s = Ok (st', t)" and some: "rg_heap (rs_region t i) \<noteq> NULL"
  shows "heap_overruns t i"
proof -
  let ?r = "rs_region s i" and ?M = "rs_mod s"
  let ?e = "rg_entry ?r"
  let ?a = "re_base ?e + rg_reservedSize ?r"
  have wf: "sr_wf ?M" and n: "SharedRegion_numEntries ?M = n" and F: "heaps_ok (map rg_heap (sr_regions ?M)) (rs_heaps s) (rs_fresh s)"
    using inv by (simp_all add: region_inv_def region_ok_def)
  have "region_ok s" using inv by (simp add: region_inv_def)
  then have fails: "HeapMemMP_create env q s \<noteq> Ok (NULL, t)" for q
    using HeapMemMP_create_keeps(3) [of s env q NULL t] some none by (auto simp: rs_region_def)
  obtain p h u where valid: "re_isValid ?e" and p: "region_heap_params ?M ?r ?a = Ok p"
    and c: "HeapMemMP_create env (Some p) s = Ok (h, u)" and h: "h \<noteq> NULL" and t: "t = rs_put i (region_set_heap h) u"
    using run some none by (auto simp: start_region_def res_bind_eq_Ok Let_def fails split: if_splits)
  obtain j where j: "j < 31" "heap_align (re_cacheLineSize ?e) = 2 ^ j" "rg_reservedSize ?r \<le> re_len ?e"
    "20 + 2 ^ j \<le> unat (re_len ?e) - unat (rg_reservedSize ?r)"
    "unat (re_len ?e) - unat (rg_reservedSize ?r) < 2 ^ 31" "re_base ?e \<noteq> NULL"
    using room by (auto simp: heap_room_def)
  have ve: "valid_entry ?M i" using valid i n by (simp add: valid_entry_def rs_region_def)
  have fit: "unat (re_base ?e) + unat (re_len ?e) < 2 ^ 32"
    using wf ve by (auto simp: sr_wf_def entry_fits_def rs_region_def)
  have le: "unat (rg_reservedSize ?r) \<le> unat (re_len ?e)" using j(3) by (simp add: word_le_nat_alt)
  have a: "unat ?a = unat (re_base ?e) + unat (rg_reservedSize ?r)"
    using fit le by (intro unat_plus_no_wrap) simp
  have "unat (re_base ?e) \<noteq> 0" using j(6) by (simp add: word_eq_unat)
  then have nz: "?a \<noteq> NULL" using a by (metis add_is_0 unat_0)
  have "in_region ?M i ?a"
    using ve a le j(4) by (simp add: in_region_def rs_region_def)
  note id = getId_in_region [OF wf this]
  obtain obj0 rest where fresh: "rs_fresh s = (h, obj0) # rest"
    and create: "\<exists>obj m. HeapMemMP_Instance_init ?M env (HeapMemMP_getRTSCParams p) obj0 (rs_mem s) = Ok (0, obj, m) \<and>
      rs_heaps u = (rs_heaps s)(h \<mapsto> obj) \<and> rs_mod u = ?M"
    using c h by (auto simp: HeapMemMP_create_def heap_instance_def res_bind_eq_Ok split: list.splits if_splits)
  then obtain obj m where init: "HeapMemMP_Instance_init ?M env (HeapMemMP_getRTSCParams p) obj0 (rs_mem s) = Ok (0, obj, m)"
    and u: "rs_heaps u = (rs_heaps s)(h \<mapsto> obj)" "rs_mod u = ?M" by blast
  have rid: "word_of_nat i \<noteq> SharedRegion_INVALIDREGIONID"
  proof
    assume eq: "(word_of_nat i :: u16) = SharedRegion_INVALIDREGIONID"
    have "unat (word_of_nat i :: u16) = i" using unat_region_id [OF wf] i n by simp
    then have "i = 2 ^ 16 - 1" unfolding eq by (simp add: SharedRegion_INVALIDREGIONID_def)
    then show False using wf n i by (simp add: sr_wf_def)
  qed
  note P = region_heap_params_doubled [OF p _ nz, unfolded id, OF rid]
  obtain cls where cls: "SharedRegion_getCacheLineSize ?M (word_of_nat i) = Ok cls"
    "mo_buf obj = Ipc_roundup (?a + sizeof_HeapMemMP_Attrs) (heap_align cls)"
    "mo_bufSize obj = (mp_sharedBufSize p div heap_align cls) * heap_align cls"
    using Instance_init_created [OF init] nz id
    by (auto simp: P HeapMemMP_getRTSCParams_def HeapMemMP_Params_init_def)
  have "cls = re_cacheLineSize ?e"
    using getCacheLineSize_region [OF cls(1) wf _ rid] i n by (simp add: rs_region_def)
  then have "heap_align cls = 2 ^ j" using j(2) by simp
  then have over: "unat (re_base ?e) + unat (re_len ?e) < unat (mo_buf obj) + unat (mo_bufSize obj)"
    using doubled_size_overruns [OF fit j(3,1,4,5)] cls(2,3) by (simp add: P)
  have "rs_region t i = ?r\<lparr>rg_heap := h\<rparr>"
    using t u(2) i n by (simp add: rs_region_def region_set_heap_def SharedRegion_numEntries_def)
  then show ?thesis using over u(1) t by (simp add: heap_overruns_def)
qed

text \<open>The pass leaves the other regions and their heaps alone.\<close>

lemma start_region_frame:
  assumes inv: "region_inv n k s" and j: "j < n" and run: "start_region env j st s = Ok (st', t)"
  shows "\<exists>h. rs_region t j = (rs_region s j)\<lparr>rg_heap := h\<rparr>"
    and "rg_heap (rs_region s j) \<noteq> NULL \<Longrightarrow> t = s"
    and "i \<noteq> j \<Longrightarrow> rs_region t i = rs_region s i"
    and "i < n \<Longrightarrow> rg_heap (rs_region s i) \<noteq> NULL \<Longrightarrow>
      rs_heaps t (rg_heap (rs_region s i)) = rs_heaps s (rg_heap (rs_region s i))"
proof -
  have n: "SharedRegion_numEntries (rs_mod s) = n" and F: "heaps_ok (map rg_heap (sr_regions (rs_mod s))) (rs_heaps s) (rs_fresh s)"
    and ok: "region_ok s"
    using inv by (simp_all add: region_inv_def region_ok_def)
  have "t = s \<or> (rg_heap (rs_region s j) = NULL \<and> ((\<exists>p. HeapMemMP_create env (Some p) s = Ok (NULL, t)) \<or>
      (\<exists>p h u. HeapMemMP_create env (Some p) s = Ok (h, u) \<and> t = rs_put j (region_set_heap h) u)))"
    using run by (auto simp: start_region_def res_bind_eq_Ok Let_def split: if_splits)
  moreover define fr where "fr u \<longleftrightarrow> rs_mod u = rs_mod s \<and> (\<forall>i<n. rg_heap (rs_region s i) \<noteq> NULL \<longrightarrow>
      rs_heaps u (rg_heap (rs_region s i)) = rs_heaps s (rg_heap (rs_region s i)))" for u :: region_state
  moreover have "fr u"
    if c: "HeapMemMP_create env (Some p) s = Ok (h, u)" for p h u
  proof -
    have "rs_heaps u = rs_heaps s \<or> (\<exists>obj0 rest obj. rs_fresh s = (h, obj0) # rest \<and> rs_heaps u = (rs_heaps s)(h \<mapsto> obj))"
      using heap_instance_effect [of env _ s h u] c by (auto simp: HeapMemMP_create_def)
    moreover have "rg_heap (rs_region s i) \<noteq> h"
      if "rs_fresh s = (h, obj0) # rest" "i < n" "rg_heap (rs_region s i) \<noteq> NULL" for obj0 rest i
    proof -
      have "rs_heaps s h = None" using F [unfolded that(1)] by (simp add: heaps_ok_def)
      moreover have "rs_heaps s (rg_heap (rs_region s i)) \<noteq> None"
        using F that(2,3) n by (simp add: heaps_ok_def rs_region_def SharedRegion_numEntries_def)
      ultimately show ?thesis by metis
    qed
    ultimately show ?thesis using HeapMemMP_create_keeps(3) [OF ok c] by (auto simp: fr_def)
  qed
  ultimately have "t = s \<or> (rg_heap (rs_region s j) = NULL \<and>
      (\<exists>h u. fr u \<and> (t = u \<or> t = rs_put j (region_set_heap h) u)))" by blast
  note cases = this [unfolded fr_def]
  show "\<exists>h. rs_region t j = (rs_region s j)\<lparr>rg_heap := h\<rparr>"
  proof -
    have same: "\<exists>h. rs_region s j = (rs_region s j)\<lparr>rg_heap := h\<rparr>" by (intro exI [of _ "rg_heap (rs_region s j)"]) simp
    then show ?thesis using cases j n
      by (auto simp: rs_region_def region_set_heap_def SharedRegion_numEntries_def)
  qed
  show "rg_heap (rs_region s j) \<noteq> NULL \<Longrightarrow> t = s" using cases by blast
  show "i \<noteq> j \<Longrightarrow> rs_region t i = rs_region s i" using cases by (auto simp: rs_region_def)
  show "i < n \<Longrightarrow> rg_heap (rs_region s i) \<noteq> NULL \<Longrightarrow>
      rs_heaps t (rg_heap (rs_region s i)) = rs_heaps s (rg_heap (rs_region s i))"
    using cases by auto
qed

lemma heap_room_heap [simp]: "heap_room (r\<lparr>rg_heap := h\<rparr>) = heap_room r"
  by (simp add: heap_room_def)

lemma start_overruns:
  assumes ok: "region_ok s" and i: "i < SharedRegion_numEntries (rs_mod s)" and room: "heap_room (rs_region s i)"
    and none: "rg_heap (rs_region s i) = NULL" and run: "SharedRegion_start env s = Ok (st, t)"
    and some: "rg_heap (rs_region t i) \<noteq> NULL"
  shows "heap_overruns t i" and "\<exists>h. rs_region t i = (rs_region s i)\<lparr>rg_heap := h\<rparr>"
proof -
  let ?n = "SharedRegion_numEntries (rs_mod s)" and ?k = "sr_numOffsetBits (rs_mod s)"
  define P where "P u \<longleftrightarrow> region_inv ?n ?k u \<and> (\<exists>h. rs_region u i = (rs_region s i)\<lparr>rg_heap := h\<rparr>) \<and>
    (rg_heap (rs_region u i) \<noteq> NULL \<longrightarrow> heap_overruns u i)" for u
  have start: "each_region (start_region env) (all_regions s) SR_SUCCESS s = Ok (st, t)"
    using run by (auto simp: SharedRegion_start_def Assert_isTrue_eq_Ok)
  have "\<exists>h. rs_region s i = (rs_region s i)\<lparr>rg_heap := h\<rparr>" by (intro exI [of _ "rg_heap (rs_region s i)"]) simp
  then have "P s" using ok none by (simp add: P_def region_inv_def)
  moreover have "P v" if j: "j \<in> set (all_regions s)" and u: "P u" and step: "start_region env j st1 u = Ok (st2, v)" for j st1 u st2 v
  proof -
    have jn: "j < ?n" using j by (simp add: all_regions_def)
    have inv: "region_inv ?n ?k u" and reg: "\<exists>h. rs_region u i = (rs_region s i)\<lparr>rg_heap := h\<rparr>"
      and over: "rg_heap (rs_region u i) \<noteq> NULL \<Longrightarrow> heap_overruns u i" using u by (auto simp: P_def)
    note F = start_region_frame [OF inv jn step]
    have rm: "heap_room (rs_region u i)" using room reg by auto
    have inv': "region_inv ?n ?k v" by (rule start_region_keeps [OF inv step])
    show "P v"
    proof (cases "i = j")
      case True
      show ?thesis
      proof (cases "rg_heap (rs_region u j) = NULL")
        case none: True
        have "\<exists>h. rs_region v i = (rs_region s i)\<lparr>rg_heap := h\<rparr>" using F(1) reg True by auto
        moreover have "rg_heap (rs_region v i) \<noteq> NULL \<Longrightarrow> heap_overruns v i"
          using start_region_overruns [OF inv jn _ none step] rm True by simp
        ultimately show ?thesis using inv' by (simp add: P_def)
      next
        case False
        then show ?thesis using F(2) u by simp
      qed
    next
      case False
      have same: "rs_region v i = rs_region u i" by (rule F(3) [OF False])
      have "heap_overruns v i" if h: "rg_heap (rs_region v i) \<noteq> NULL"
        using over F(4) [OF i] h by (simp add: heap_overruns_def same)
      then show ?thesis using inv' reg by (simp add: P_def same)
    qed
  qed
  ultimately have "P t" using each_region_keeps [where P = P, OF _ _ start] by blast
  then show "heap_overruns t i" "\<exists>h. rs_region t i = (rs_region s i)\<lparr>rg_heap := h\<rparr>"
    using some by (auto simp: P_def)
qed

end
