(* ===== verification/LinkedRings.thy ===== *)
theory LinkedRings
imports IPC_Prelude
begin

text \<open>
  Doubly linked rings as the list modules lay them out in memory: elements that hold, encoded,
  the addresses of the next and of the previous one, and a head that closes the ring. The
  encoding is the identity for the lists of one processor and the shared-region pointer of an
  address for the lists in shared memory.
\<close>

section \<open>Segments\<close>

text \<open>
  \<open>dseg enc nx pv a xs b\<close>: following \<open>nx\<close> from \<open>a\<close> one meets \<open>xs\<close> and then
  \<open>b\<close>, and every \<open>pv\<close> on the way leads back.
\<close>

fun dseg :: "('p \<Rightarrow> 'e) \<Rightarrow> ('p \<Rightarrow> 'e) \<Rightarrow> ('p \<Rightarrow> 'e) \<Rightarrow> 'p \<Rightarrow> 'p list \<Rightarrow> 'p \<Rightarrow> bool" where
  "dseg enc nx pv a [] b \<longleftrightarrow> nx a = enc b \<and> pv b = enc a"
| "dseg enc nx pv a (x # xs) b \<longleftrightarrow> nx a = enc x \<and> pv x = enc a \<and> dseg enc nx pv x xs b"

lemma dseg_append:
  "dseg enc nx pv a (xs @ x # ys) b \<longleftrightarrow> dseg enc nx pv a xs x \<and> dseg enc nx pv x ys b"
  by (induction xs arbitrary: a) auto

lemma dseg_first: "dseg enc nx pv a xs b \<Longrightarrow> nx a = enc (hd (xs @ [b]))"
  by (cases xs) auto

lemma dseg_last: "dseg enc nx pv a xs b \<Longrightarrow> pv b = enc (last (a # xs))"
  by (induction xs arbitrary: a) auto

lemma dseg_cong:
  assumes "dseg enc nx pv a xs b"
    and "\<And>x. x \<in> set (a # xs) \<Longrightarrow> nx' x = nx x"
    and "\<And>x. x \<in> set (b # xs) \<Longrightarrow> pv' x = pv x"
  shows "dseg enc nx' pv' a xs b"
  using assms by (induction xs arbitrary: a) auto

text \<open>Linking \<open>e\<close> in between neighbours \<open>p\<close> and \<open>q\<close>, and unlinking it.\<close>

lemma dseg_link:
  assumes "dseg enc nx pv a (us @ vs) b"
    and "distinct (a # us @ vs)" and "b \<notin> set (us @ vs)"
    and "e \<notin> set (a # us @ vs)" and "e \<noteq> b"
    and "p = last (a # us)" and "q = hd (vs @ [b])"
    and "\<And>x. nx' x = (if x = p then enc e else if x = e then enc q else nx x)"
    and "\<And>x. pv' x = (if x = q then enc e else if x = e then enc p else pv x)"
  shows "dseg enc nx' pv' a (us @ e # vs) b"
  using assms
proof (induction us arbitrary: a)
  case Nil
  then have p: "p = a" by simp
  show ?case
  proof (cases vs)
    case Nil
    then show ?thesis using Nil.prems(1-7) p by (auto simp: Nil.prems(8,9))
  next
    case (Cons v vs')
    then have "dseg enc nx pv v vs' b" using Nil.prems(1) by simp
    then have "dseg enc nx' pv' v vs' b"
      by (rule dseg_cong) (use Nil.prems(2-7) Cons p in \<open>auto simp: Nil.prems(8,9)\<close>)
    moreover have "nx' a = enc e" "nx' e = enc v" "pv' v = enc e" "pv' e = enc a"
      using Nil.prems(2-7) Nil.prems(8) [of a] Nil.prems(8) [of e] Nil.prems(9) [of v]
        Nil.prems(9) [of e] Cons p by auto
    ultimately show ?thesis using Cons by simp
  qed
next
  case (Cons u us)
  have q: "q \<notin> set (u # us)"
    using Cons.prems(2-7) by (cases vs) auto
  have "p \<noteq> a" using Cons.prems(2-7) by auto
  moreover have "dseg enc nx' pv' u (us @ e # vs) b"
    using Cons.prems(1-7) by (intro Cons.IH Cons.prems(8,9)) auto
  moreover have "nx' a = enc u" "pv' u = enc a"
    using Cons.prems(1-7) Cons.prems(8) [of a] Cons.prems(9) [of u] q \<open>p \<noteq> a\<close> by auto
  ultimately show ?case by simp
qed

lemma dseg_unlink:
  assumes "dseg enc nx pv a (us @ e # vs) b"
    and "distinct (a # us @ e # vs)" and "b \<notin> set (us @ e # vs)"
    and "p = last (a # us)" and "q = hd (vs @ [b])"
    and "\<And>x. nx' x = (if x = p then enc q else nx x)"
    and "\<And>x. pv' x = (if x = q then enc p else pv x)"
  shows "dseg enc nx' pv' a (us @ vs) b"
  using assms
proof (induction us arbitrary: a)
  case Nil
  then have p: "p = a" by simp
  show ?case
  proof (cases vs)
    case Nil
    then show ?thesis using Nil.prems(1-5) p by (auto simp: Nil.prems(6,7))
  next
    case (Cons v vs')
    then have "dseg enc nx pv v vs' b" using Nil.prems(1) by simp
    then have "dseg enc nx' pv' v vs' b"
      by (rule dseg_cong) (use Nil.prems(2-5) Cons p in \<open>auto simp: Nil.prems(6,7)\<close>)
    moreover have "nx' a = enc v" "pv' v = enc a"
      using Nil.prems(2-5) Nil.prems(6) [of a] Nil.prems(7) [of v] Cons p by auto
    ultimately show ?thesis using Cons by simp
  qed
next
  case (Cons u us)
  have q: "q \<notin> set (u # us)"
    using Cons.prems(2-5) by (cases vs) auto
  have "p \<noteq> a" using Cons.prems(2-5) by auto
  moreover have "dseg enc nx' pv' u (us @ vs) b"
    using Cons.prems(1-5) by (intro Cons.IH Cons.prems(6,7)) auto
  moreover have "nx' a = enc u" "pv' u = enc a"
    using Cons.prems(1-5) Cons.prems(6) [of a] Cons.prems(7) [of u] q \<open>p \<noteq> a\<close> by auto
  ultimately show ?case by simp
qed

section \<open>Rings\<close>

definition dring :: "('p \<Rightarrow> 'e) \<Rightarrow> ('p \<Rightarrow> 'e) \<Rightarrow> ('p \<Rightarrow> 'e) \<Rightarrow> 'p \<Rightarrow> 'p list \<Rightarrow> bool" where
  "dring enc nx pv h xs \<longleftrightarrow> distinct (h # xs) \<and> dseg enc nx pv h xs h"

text \<open>
  The neighbours of a place in the ring: the last element before it and the first one after it,
  the head standing at both ends.
\<close>

definition left_of :: "'p \<Rightarrow> 'p list \<Rightarrow> 'p" where
  "left_of h us = last (h # us)"

definition right_of :: "'p \<Rightarrow> 'p list \<Rightarrow> 'p" where
  "right_of h vs = hd (vs @ [h])"

lemma neighbour_simps [simp]:
  "left_of h [] = h"
  "right_of h [] = h"
  "right_of h (v # vs) = v"
  "left_of h (us @ [u]) = u"
  by (simp_all add: left_of_def right_of_def)

lemma neighbour_mem:
  "left_of h us \<in> set (h # us)"
  "right_of h vs \<in> set (h # vs)"
  by (auto simp: left_of_def right_of_def hd_append)

lemma dring_member:
  assumes "dring enc nx pv h (us @ e # vs)"
  shows "nx e = enc (right_of h vs)" and "pv e = enc (left_of h us)"
    and "e \<noteq> h" and "e \<noteq> right_of h vs" and "e \<noteq> left_of h us"
proof -
  have d: "distinct (h # us @ e # vs)" using assms by (simp add: dring_def)
  then show "e \<noteq> h" "e \<noteq> right_of h vs" "e \<noteq> left_of h us"
    using neighbour_mem(1) [of h us] neighbour_mem(2) [of h vs] by auto
  have "dseg enc nx pv h us e" "dseg enc nx pv e vs h"
    using assms by (simp_all add: dring_def dseg_append)
  then show "nx e = enc (right_of h vs)" and "pv e = enc (left_of h us)"
    using dseg_first dseg_last by (fastforce simp: left_of_def right_of_def)+
qed

lemma dring_gap:
  assumes "dring enc nx pv h (us @ vs)"
  shows "nx (left_of h us) = enc (right_of h vs)" and "pv (right_of h vs) = enc (left_of h us)"
proof -
  have R: "dseg enc nx pv h (us @ vs) h" using assms by (simp add: dring_def)
  show "nx (left_of h us) = enc (right_of h vs)"
  proof (cases us rule: rev_cases)
    case Nil
    then show ?thesis using dseg_first [OF R] by (simp add: right_of_def)
  next
    case (snoc us' u)
    then show ?thesis using dring_member(1) [of enc nx pv h us' u vs] assms by simp
  qed
  show "pv (right_of h vs) = enc (left_of h us)"
  proof (cases vs)
    case Nil
    then show ?thesis using dseg_last [OF R] by (simp add: left_of_def)
  next
    case (Cons v vs')
    then show ?thesis using dring_member(2) [of enc nx pv h us v vs'] assms by simp
  qed
qed

text \<open>Relinking around a place takes an element out or puts one in.\<close>

lemma dring_unlink:
  assumes "dring enc nx pv h (us @ e # vs)"
    and "\<And>x. nx' x = (if x = left_of h us then enc (right_of h vs) else nx x)"
    and "\<And>x. pv' x = (if x = right_of h vs then enc (left_of h us) else pv x)"
  shows "dring enc nx' pv' h (us @ vs)"
proof -
  have d: "distinct (h # us @ e # vs)" and R: "dseg enc nx pv h (us @ e # vs) h"
    using assms(1) by (simp_all add: dring_def)
  have "dseg enc nx' pv' h (us @ vs) h"
    by (rule dseg_unlink [OF R _ _ _ _ assms(2,3)])
      (use d in \<open>auto simp: left_of_def right_of_def\<close>)
  then show ?thesis using d by (simp add: dring_def)
qed

lemma dring_link:
  assumes "dring enc nx pv h (us @ vs)" and "e \<notin> set (h # us @ vs)"
    and "\<And>x. nx' x = (if x = left_of h us then enc e else if x = e then enc (right_of h vs) else nx x)"
    and "\<And>x. pv' x = (if x = right_of h vs then enc e else if x = e then enc (left_of h us) else pv x)"
  shows "dring enc nx' pv' h (us @ e # vs)"
proof -
  have d: "distinct (h # us @ vs)" and R: "dseg enc nx pv h (us @ vs) h"
    using assms(1) by (simp_all add: dring_def)
  have "dseg enc nx' pv' h (us @ e # vs) h"
    by (rule dseg_link [OF R _ _ _ _ _ _ assms(3,4)])
      (use d assms(2) in \<open>auto simp: left_of_def right_of_def\<close>)
  then show ?thesis using d assms(2) by (auto simp: dring_def)
qed

text \<open>A ring holds at most one sequence of elements.\<close>

lemma dseg_unique:
  assumes "dseg enc nx pv a xs h" and "dseg enc nx pv a ys h"
    and inj: "\<And>x y. x \<in> set (h # xs) \<Longrightarrow> y \<in> set (h # ys) \<Longrightarrow> enc x = enc y \<Longrightarrow> x = y"
    and "h \<notin> set xs" and "h \<notin> set ys"
  shows "xs = ys"
  using assms
proof (induction xs arbitrary: a ys)
  case Nil
  then show ?case by (cases ys) force+
next
  case (Cons x xs)
  show ?case
  proof (cases ys)
    case Nil
    then show ?thesis using Cons.prems(1,2,4) Cons.prems(3) [of x h] by simp
  next
    case (Cons y ys')
    have "x = y" using Cons.prems(1,2) Cons.prems(3) [of x y] Cons by simp
    moreover have "xs = ys'"
    proof (rule Cons.IH [of x ys'])
      show "u = w" if "u \<in> set (h # xs)" "w \<in> set (h # ys')" "enc u = enc w" for u w
        using Cons.prems(3) [of u w] that Cons by auto
    qed (use Cons.prems(1,2,4,5) Cons \<open>x = y\<close> in simp_all)
    ultimately show ?thesis using Cons by simp
  qed
qed

lemma dring_unique:
  assumes "dring enc nx pv h xs" and "dring enc nx pv h ys"
    and "\<And>x y. x \<in> set (h # xs) \<Longrightarrow> y \<in> set (h # ys) \<Longrightarrow> enc x = enc y \<Longrightarrow> x = y"
  shows "xs = ys"
proof (rule dseg_unique [of enc nx pv h xs h ys])
  show "dseg enc nx pv h xs h" "dseg enc nx pv h ys h" "h \<notin> set xs" "h \<notin> set ys"
    using assms(1,2) by (simp_all add: dring_def)
qed (rule assms(3))

end
