(* ===== verification/ListMP.thy ===== *)
theory ListMP
imports SharedRegion Queues LinkedRings
begin

text \<open>
  The shared-memory lists of \<open>ti/sdo/ipc/ListMP.c\<close>: circular doubly linked lists whose links
  are \<open>SRPtr\<close>s, headed by an element inside the list's attributes. The theory has the
  operations, with their cache calls and gate calls as events, the relation between the linked
  elements and a HOL list, and the effect of every operation on that list.
\<close>

section \<open>State\<close>

record ListMP_Elem =
  le_next :: srptr
  le_prev :: srptr

record ListMP_Attrs =
  la_status :: u32
  la_gateMPAddr :: srptr

text \<open>
  The cells of shared memory a list touches: elements and attributes by their addresses. The
  element \<open>head\<close> of the attributes lies 8 bytes into them and is an element like the others.
\<close>

record lmp_mem =
  lm_elem :: "ptr \<Rightarrow> ListMP_Elem"
  lm_attrs :: "ptr \<Rightarrow> ListMP_Attrs"
  lm_log :: "ipc_event list"

record ListMP_Object =
  lo_attrs :: ptr
  lo_gate :: ptr
  lo_regionId :: u16
  lo_cacheEnabled :: bool
  lo_cacheLineSize :: sizeT
  lo_objType :: Ipc_ObjType
  lo_nsKey :: ptr
  lo_allocSize :: sizeT

text \<open>The parameters of a creation; an absent gate or address is \<open>NULL\<close>.\<close>

record ListMP_Params =
  lp_gate :: ptr
  lp_openFlag :: bool
  lp_sharedAddr :: ptr
  lp_name :: "string option"
  lp_regionId :: u16

definition ListMP_CREATED :: u32 where
  "ListMP_CREATED = 0x12181964"

abbreviation sizeof_ListMP_Elem :: sizeT where "sizeof_ListMP_Elem \<equiv> 8"
abbreviation sizeof_ListMP_Attrs :: sizeT where "sizeof_ListMP_Attrs \<equiv> 16"

definition ListMP_head :: "ListMP_Object \<Rightarrow> ptr" where
  "ListMP_head obj = lo_attrs obj + 8"

datatype ListMP_status = ListMP_S_SUCCESS | ListMP_E_FAIL | ListMP_E_NOTFOUND

subsection \<open>Cells and events\<close>

definition log_ev :: "ipc_event \<Rightarrow> lmp_mem \<Rightarrow> lmp_mem" where
  "log_ev e s = s\<lparr>lm_log := e # lm_log s\<rparr>"

definition log_if :: "bool \<Rightarrow> ipc_event \<Rightarrow> lmp_mem \<Rightarrow> lmp_mem" where
  "log_if c e s = (if c then log_ev e s else s)"

definition set_next :: "ptr \<Rightarrow> srptr \<Rightarrow> lmp_mem \<Rightarrow> lmp_mem" where
  "set_next a v s =
     log_ev (Mem_write a) (s\<lparr>lm_elem := (lm_elem s)(a := (lm_elem s a)\<lparr>le_next := v\<rparr>)\<rparr>)"

definition set_prev :: "ptr \<Rightarrow> srptr \<Rightarrow> lmp_mem \<Rightarrow> lmp_mem" where
  "set_prev a v s =
     log_ev (Mem_write a) (s\<lparr>lm_elem := (lm_elem s)(a := (lm_elem s a)\<lparr>le_prev := v\<rparr>)\<rparr>)"

section \<open>Operations\<close>

text \<open>\<open>ListMP_barrier\<close>: a fence on the 64P targets, nothing elsewhere.\<close>

definition ListMP_barrier :: "build \<Rightarrow> lmp_mem \<Rightarrow> lmp_mem" where
  "ListMP_barrier B s = log_if (b_64P B) Mem_barrier s"

text \<open>
  How an operation begins: it enters the gate and, on the speculating ARM cores, invalidates the
  attributes of a cached list.
\<close>

definition ListMP_begin :: "build \<Rightarrow> ListMP_Object \<Rightarrow> lmp_mem \<Rightarrow> lmp_mem" where
  "ListMP_begin B obj s =
     log_if (b_armA B \<and> lo_cacheEnabled obj) (Cache_inv (lo_attrs obj) sizeof_ListMP_Attrs)
       (log_ev (Gate_enter (lo_gate obj)) s)"

definition ListMP_leave :: "ListMP_Object \<Rightarrow> lmp_mem \<Rightarrow> lmp_mem" where
  "ListMP_leave obj s = log_ev (Gate_leave (lo_gate obj)) s"

text \<open>Write the cell back when it is cached, otherwise execute the barrier.\<close>

definition wb_or_barrier :: "build \<Rightarrow> bool \<Rightarrow> ptr \<Rightarrow> lmp_mem \<Rightarrow> lmp_mem" where
  "wb_or_barrier B c a s =
     (if c then log_ev (Cache_wbInv a sizeof_ListMP_Elem) s else ListMP_barrier B s)"

text \<open>A link read as a local pointer: the operations test \<open>translate\<close> themselves.\<close>

definition local_ptr :: "SharedRegion_Module \<Rightarrow> srptr \<Rightarrow> ptr res" where
  "local_ptr M p = (if \<not> sr_translate M then Ok p else SharedRegion_getPtr M p)"

definition is_cached :: "SharedRegion_Module \<Rightarrow> ptr \<Rightarrow> bool res" where
  "is_cached M a = SharedRegion_isCacheEnabled M (SharedRegion_getId M a)"

definition ListMP_elemClear ::
  "SharedRegion_Module \<Rightarrow> ptr \<Rightarrow> lmp_mem \<Rightarrow> lmp_mem res" where
  "ListMP_elemClear M elem s =
     (let rid = SharedRegion_getId M elem in
      res_bind (SharedRegion_getSRPtr M elem rid) (\<lambda>sharedElem.
      if elem = NULL then Err Bad_access else
      let s1 = set_next elem sharedElem (set_prev elem sharedElem s) in
      res_bind (SharedRegion_isCacheEnabled M rid) (\<lambda>c.
        Ok (log_if c (Cache_wbInv elem sizeof_ListMP_Elem) s1))))"

definition ListMP_empty ::
  "build \<Rightarrow> SharedRegion_Module \<Rightarrow> ListMP_Object \<Rightarrow> lmp_mem \<Rightarrow> (bool \<times> lmp_mem) res" where
  "ListMP_empty B M obj s =
     (let head = ListMP_head obj;
          s1 = ListMP_begin B obj s in
      res_bind (if \<not> sr_translate M then Ok head
                else SharedRegion_getSRPtr M head (lo_regionId obj)) (\<lambda>sharedHead.
      let flag = (le_next (lm_elem s1 head) = sharedHead);
          s2 = log_if (lo_cacheEnabled obj) (Cache_inv head sizeof_ListMP_Elem) s1 in
      Ok (flag, ListMP_leave obj s2)))"

definition ListMP_getHead ::
  "build \<Rightarrow> SharedRegion_Module \<Rightarrow> ListMP_Object \<Rightarrow> lmp_mem \<Rightarrow> (ptr \<times> lmp_mem) res" where
  "ListMP_getHead B M obj s =
     (let head = ListMP_head obj;
          s1 = ListMP_begin B obj s in
      res_bind (local_ptr M (le_next (lm_elem s1 head))) (\<lambda>localHeadNext.
      Assert_isTrue (sr_asserts M) (localHeadNext \<noteq> NULL) A_nullPointer (
      if localHeadNext = NULL then Ok (NULL, ListMP_leave obj s1)
      else if localHeadNext = head
      then Ok (NULL, ListMP_leave obj (wb_or_barrier B (lo_cacheEnabled obj) head s1))
      else
      res_bind (is_cached M localHeadNext) (\<lambda>c.
      let s2 = log_if c (Cache_inv localHeadNext sizeof_ListMP_Elem) s1 in
      res_bind (local_ptr M (le_next (lm_elem s2 localHeadNext))) (\<lambda>localNext.
      Assert_isTrue (sr_asserts M) (localNext \<noteq> NULL) A_nullPointer (
      if localNext = NULL then Ok (NULL, ListMP_leave obj s2)
      else
      res_bind (is_cached M localNext) (\<lambda>localNextIsCached.
      let elem = localHeadNext;
          s3 = log_if localNextIsCached (Cache_inv localNext sizeof_ListMP_Elem) s2;
          s4 = set_next head (le_next (lm_elem s3 elem)) s3;
          s5 = set_prev localNext (le_prev (lm_elem s4 localHeadNext)) s4;
          s6 = log_if localNextIsCached (Cache_wbInv localNext sizeof_ListMP_Elem) s5 in
      Ok (elem, ListMP_leave obj (wb_or_barrier B (lo_cacheEnabled obj) head s6)))))))))"

definition ListMP_getTail ::
  "build \<Rightarrow> SharedRegion_Module \<Rightarrow> ListMP_Object \<Rightarrow> lmp_mem \<Rightarrow> (ptr \<times> lmp_mem) res" where
  "ListMP_getTail B M obj s =
     (let head = ListMP_head obj;
          s1 = ListMP_begin B obj s in
      res_bind (local_ptr M (le_prev (lm_elem s1 head))) (\<lambda>localHeadPrev.
      Assert_isTrue (sr_asserts M) (localHeadPrev \<noteq> NULL) A_nullPointer (
      if localHeadPrev = NULL then Ok (NULL, ListMP_leave obj s1)
      else if localHeadPrev = head
      then Ok (NULL, ListMP_leave obj (wb_or_barrier B (lo_cacheEnabled obj) head s1))
      else
      res_bind (is_cached M localHeadPrev) (\<lambda>c.
      let s2 = log_if c (Cache_inv localHeadPrev sizeof_ListMP_Elem) s1 in
      res_bind (local_ptr M (le_prev (lm_elem s2 localHeadPrev))) (\<lambda>localPrev.
      Assert_isTrue (sr_asserts M) (localPrev \<noteq> NULL) A_nullPointer (
      if localPrev = NULL then Ok (NULL, ListMP_leave obj s2)
      else
      res_bind (is_cached M localPrev) (\<lambda>localPrevIsCached.
      let elem = localHeadPrev;
          s3 = log_if localPrevIsCached (Cache_inv localPrev sizeof_ListMP_Elem) s2;
          s4 = set_prev head (le_prev (lm_elem s3 elem)) s3;
          s5 = set_next localPrev (le_next (lm_elem s4 localHeadPrev)) s4;
          s6 = log_if localPrevIsCached (Cache_wbInv localPrev sizeof_ListMP_Elem) s5 in
      Ok (elem, ListMP_leave obj (wb_or_barrier B (lo_cacheEnabled obj) head s6)))))))))"

text \<open>
  \<open>ListMP_putHead\<close> and \<open>ListMP_putTail\<close> take the \<open>SRPtr\<close>s of the new element and of
  the head, and refuse, with translation off, an element above the 32-bit range.
\<close>

definition ListMP_putHead ::
  "build \<Rightarrow> SharedRegion_Module \<Rightarrow> ListMP_Object \<Rightarrow> ptr \<Rightarrow> lmp_mem \<Rightarrow>
   (ListMP_status \<times> lmp_mem) res" where
  "ListMP_putHead B M obj elem s =
     (let head = ListMP_head obj;
          s1 = ListMP_begin B obj s;
          rid = SharedRegion_getId M elem in
      if \<not> sr_translate M \<and> 0xFFFFFFFF < uint elem
      then Ok (ListMP_E_FAIL, ListMP_leave obj s1)
      else
      res_bind (if \<not> sr_translate M then Ok elem else SharedRegion_getSRPtr M elem rid)
        (\<lambda>sharedElem.
      res_bind (if \<not> sr_translate M then Ok head
                else SharedRegion_getSRPtr M head (lo_regionId obj)) (\<lambda>sharedHead.
      res_bind (local_ptr M (le_next (lm_elem s1 head))) (\<lambda>localNextElem.
      if localNextElem = NULL then Ok (ListMP_E_FAIL, ListMP_leave obj s1)
      else
      res_bind (is_cached M localNextElem) (\<lambda>localNextElemIsCached.
      if elem = NULL then Err Bad_access else
      let s2 = log_if localNextElemIsCached (Cache_inv localNextElem sizeof_ListMP_Elem) s1;
          s3 = set_next elem (le_next (lm_elem s2 head)) s2;
          s4 = set_prev elem sharedHead s3;
          s5 = set_prev localNextElem sharedElem s4;
          s6 = set_next head sharedElem s5;
          s7 = log_if localNextElemIsCached (Cache_wbInv localNextElem sizeof_ListMP_Elem) s6;
          s8 = log_if (lo_cacheEnabled obj) (Cache_wbInv head sizeof_ListMP_Elem) s7 in
      res_bind (SharedRegion_isCacheEnabled M rid) (\<lambda>c.
      Ok (ListMP_S_SUCCESS, ListMP_leave obj (wb_or_barrier B c elem s8))))))))"

definition ListMP_putTail ::
  "build \<Rightarrow> SharedRegion_Module \<Rightarrow> ListMP_Object \<Rightarrow> ptr \<Rightarrow> lmp_mem \<Rightarrow>
   (ListMP_status \<times> lmp_mem) res" where
  "ListMP_putTail B M obj elem s =
     (let head = ListMP_head obj;
          s1 = ListMP_begin B obj s;
          rid = SharedRegion_getId M elem in
      if \<not> sr_translate M \<and> 0xFFFFFFFF < uint elem
      then Ok (ListMP_E_FAIL, ListMP_leave obj s1)
      else
      res_bind (if \<not> sr_translate M then Ok elem else SharedRegion_getSRPtr M elem rid)
        (\<lambda>sharedElem.
      res_bind (if \<not> sr_translate M then Ok head
                else SharedRegion_getSRPtr M head (lo_regionId obj)) (\<lambda>sharedHead.
      res_bind (local_ptr M (le_prev (lm_elem s1 head))) (\<lambda>localPrevElem.
      if localPrevElem = NULL then Ok (ListMP_E_FAIL, ListMP_leave obj s1)
      else
      res_bind (is_cached M localPrevElem) (\<lambda>localPrevElemIsCached.
      if elem = NULL then Err Bad_access else
      let s2 = log_if localPrevElemIsCached (Cache_inv localPrevElem sizeof_ListMP_Elem) s1;
          s3 = set_next elem sharedHead s2;
          s4 = set_prev elem (le_prev (lm_elem s3 head)) s3;
          s5 = set_next localPrevElem sharedElem s4;
          s6 = set_prev head sharedElem s5;
          s7 = log_if localPrevElemIsCached (Cache_wbInv localPrevElem sizeof_ListMP_Elem) s6;
          s8 = log_if (lo_cacheEnabled obj) (Cache_wbInv head sizeof_ListMP_Elem) s7 in
      res_bind (SharedRegion_isCacheEnabled M rid) (\<lambda>c.
      Ok (ListMP_S_SUCCESS, ListMP_leave obj (wb_or_barrier B c elem s8))))))))"

text \<open>
  \<open>ListMP_insert\<close> puts \<open>newElem\<close> before \<open>curElem\<close>. When the predecessor of
  \<open>curElem\<close> has no local address it returns without leaving the gate.
\<close>

definition ListMP_insert ::
  "build \<Rightarrow> SharedRegion_Module \<Rightarrow> ListMP_Object \<Rightarrow> ptr \<Rightarrow> ptr \<Rightarrow> lmp_mem \<Rightarrow>
   (ListMP_status \<times> lmp_mem) res" where
  "ListMP_insert B M obj newElem curElem s =
     (let s1 = log_ev (Gate_enter (lo_gate obj)) s in
      if \<not> sr_translate M \<and> (0xFFFFFFFF < uint newElem \<or> 0xFFFFFFFF < uint curElem)
      then Ok (ListMP_E_FAIL, ListMP_leave obj s1)
      else
      res_bind (if \<not> sr_translate M then Ok newElem
                else SharedRegion_getSRPtr M newElem (SharedRegion_getId M newElem))
        (\<lambda>sharedNewElem.
      res_bind (if \<not> sr_translate M then Ok curElem
                else SharedRegion_getSRPtr M curElem (SharedRegion_getId M curElem))
        (\<lambda>sharedCurElem.
      res_bind (is_cached M curElem) (\<lambda>curElemIsCached.
      if curElem = NULL then Err Bad_access else
      let s2 = log_if curElemIsCached (Cache_inv curElem sizeof_ListMP_Elem) s1 in
      res_bind (SharedRegion_getPtr M (le_prev (lm_elem s2 curElem))) (\<lambda>localPrevElem.
      if localPrevElem = NULL then Ok (ListMP_E_FAIL, s2)
      else
      res_bind (is_cached M localPrevElem) (\<lambda>localPrevElemIsCached.
      if newElem = NULL then Err Bad_access else
      let s3 = log_if localPrevElemIsCached (Cache_inv localPrevElem sizeof_ListMP_Elem) s2;
          s4 = set_next newElem sharedCurElem s3;
          s5 = set_prev newElem (le_prev (lm_elem s4 curElem)) s4;
          s6 = set_next localPrevElem sharedNewElem s5;
          s7 = set_prev curElem sharedNewElem s6;
          s8 = log_if localPrevElemIsCached (Cache_wbInv localPrevElem sizeof_ListMP_Elem) s7;
          s9 = log_if curElemIsCached (Cache_wbInv curElem sizeof_ListMP_Elem) s8 in
      res_bind (is_cached M newElem) (\<lambda>c.
      Ok (ListMP_S_SUCCESS, ListMP_leave obj (wb_or_barrier B c newElem s9)))))))))"

text \<open>
  \<open>ListMP_remove\<close> unlinks \<open>elem\<close>. When one of its neighbours has no local address it
  returns without leaving the gate.
\<close>

definition ListMP_remove ::
  "build \<Rightarrow> SharedRegion_Module \<Rightarrow> ListMP_Object \<Rightarrow> ptr \<Rightarrow> lmp_mem \<Rightarrow>
   (ListMP_status \<times> lmp_mem) res" where
  "ListMP_remove B M obj elem s =
     (let s1 = log_ev (Gate_enter (lo_gate obj)) s in
      if elem = NULL then Err Bad_access else
      res_bind (local_ptr M (le_prev (lm_elem s1 elem))) (\<lambda>localPrevElem.
      res_bind (local_ptr M (le_next (lm_elem s1 elem))) (\<lambda>localNextElem.
      if localPrevElem = NULL \<or> localNextElem = NULL then Ok (ListMP_E_FAIL, s1)
      else
      res_bind (is_cached M localPrevElem) (\<lambda>localPrevElemIsCached.
      res_bind (is_cached M localNextElem) (\<lambda>localNextElemIsCached.
      let s2 = log_if localPrevElemIsCached (Cache_inv localPrevElem sizeof_ListMP_Elem) s1;
          s3 = log_if localNextElemIsCached (Cache_inv localNextElem sizeof_ListMP_Elem) s2;
          s4 = set_next localPrevElem (le_next (lm_elem s3 elem)) s3;
          s5 = set_prev localNextElem (le_prev (lm_elem s4 elem)) s4;
          s6 = log_if localPrevElemIsCached (Cache_wbInv localPrevElem sizeof_ListMP_Elem) s5 in
      Ok (ListMP_S_SUCCESS,
          ListMP_leave obj (wb_or_barrier B localNextElemIsCached localNextElem s6)))))))"

text \<open>Iteration: \<open>NULL\<close> starts at the head and is returned at the end.\<close>

definition ListMP_next ::
  "SharedRegion_Module \<Rightarrow> ListMP_Object \<Rightarrow> ptr \<Rightarrow> lmp_mem \<Rightarrow> (ptr \<times> lmp_mem) res" where
  "ListMP_next M obj elem s =
     (let head = ListMP_head obj in
      res_bind (if elem = NULL then Ok (lo_cacheEnabled obj) else is_cached M elem)
        (\<lambda>elemIsCached.
      let e = (if elem = NULL then head else elem);
          s1 = log_if elemIsCached (Cache_inv e sizeof_ListMP_Elem) s in
      res_bind (SharedRegion_getPtr M (le_next (lm_elem s1 e))) (\<lambda>p.
      let retElem = (if p = head then NULL else p) in
      Ok (retElem, log_if elemIsCached (Cache_inv e sizeof_ListMP_Elem) s1))))"

definition ListMP_prev ::
  "SharedRegion_Module \<Rightarrow> ListMP_Object \<Rightarrow> ptr \<Rightarrow> lmp_mem \<Rightarrow> (ptr \<times> lmp_mem) res" where
  "ListMP_prev M obj elem s =
     (let head = ListMP_head obj in
      res_bind (if elem = NULL then Ok (lo_cacheEnabled obj) else is_cached M elem)
        (\<lambda>elemIsCached.
      let e = (if elem = NULL then head else elem);
          s1 = log_if elemIsCached (Cache_inv e sizeof_ListMP_Elem) s in
      res_bind (SharedRegion_getPtr M (le_prev (lm_elem s1 e))) (\<lambda>p.
      let retElem = (if p = head then NULL else p) in
      Ok (retElem, log_if elemIsCached (Cache_inv e sizeof_ListMP_Elem) s1))))"

text \<open>\<open>ListMP_sharedMemReq\<close>, for a list created at \<open>sharedAddr\<close> or in a region.\<close>

definition ListMP_sharedMemReq :: "SharedRegion_Module \<Rightarrow> ptr \<Rightarrow> u16 \<Rightarrow> sizeT res" where
  "ListMP_sharedMemReq M sharedAddr paramRegionId =
     (let regionId = (if sharedAddr = NULL then paramRegionId
                      else SharedRegion_getId M sharedAddr) in
      Assert_isTrue (sr_asserts M) (regionId \<noteq> SharedRegion_INVALIDREGIONID)
        A_addrNotInSharedRegion
        (res_bind (SharedRegion_getCacheLineSize M regionId) (\<lambda>cls.
           let minAlign = (if sr_typeAlign M < cls then cls else sr_typeAlign M) in
           Ok (Ipc_roundup sizeof_ListMP_Attrs minAlign))))"

section \<open>Creating, opening and deleting lists\<close>

text \<open>\<open>Ipc_S_\<close>-style results of \<open>ListMP_Instance_init\<close>: 0 is success.\<close>

definition ListMP_Params_init :: ListMP_Params where
  "ListMP_Params_init =
     \<lparr>lp_gate = NULL, lp_openFlag = False, lp_sharedAddr = 0, lp_name = None, lp_regionId = 0\<rparr>"

definition set_attrs :: "ptr \<Rightarrow> ListMP_Attrs \<Rightarrow> lmp_mem \<Rightarrow> lmp_mem" where
  "set_attrs a v s = log_ev (Mem_write a) (s\<lparr>lm_attrs := (lm_attrs s)(a := v)\<rparr>)"

text \<open>
  Opening: the attributes are at \<open>sharedAddr\<close>, and the gate is the one whose address the
  creator left in them. Creating: the attributes are at \<open>sharedAddr\<close> or in a block of the
  region's heap; the head is made an empty ring, then the attributes are filled in and written
  back, then the name is added to the name server. The answer 3 is for a name that could not be.
\<close>

definition ListMP_open_init ::
  "build \<Rightarrow> SharedRegion_Module \<Rightarrow> ipc_env \<Rightarrow> ListMP_Params \<Rightarrow> ListMP_Object \<Rightarrow> lmp_mem \<Rightarrow>
   (int \<times> ListMP_Object \<times> lmp_mem) res" where
  "ListMP_open_init B M env params obj0 s =
     (let attrs = lp_sharedAddr params;
          rid = SharedRegion_getId M (attrs + 8) in
      res_bind (SharedRegion_isCacheEnabled M rid) (\<lambda>c.
      res_bind (SharedRegion_getCacheLineSize M rid) (\<lambda>cls.
      let obj = obj0\<lparr>lo_objType := ObjType_OPENDYNAMIC, lo_attrs := attrs, lo_regionId := rid,
                     lo_cacheEnabled := c, lo_cacheLineSize := cls\<rparr>;
          s1 = log_if (b_armA B \<and> c) (Cache_inv attrs sizeof_ListMP_Attrs) s in
      res_bind (SharedRegion_getPtr M (la_gateMPAddr (lm_attrs s1 attrs))) (\<lambda>localAddr.
      if localAddr = NULL then Ok (4, obj, s1)
      else (case env_gateOpen env localAddr of
              None \<Rightarrow> Ok (1, obj, s1)
            | Some g \<Rightarrow> Ok (0, obj\<lparr>lo_gate := g\<rparr>, s1))))))"

text \<open>Where the attributes of a new list go: an answer other than 0 ends the creation.\<close>

definition ListMP_place ::
  "SharedRegion_Module \<Rightarrow> ipc_env \<Rightarrow> ListMP_Params \<Rightarrow> ListMP_Object \<Rightarrow>
   (int \<times> ListMP_Object) res" where
  "ListMP_place M env params obj =
     (if lp_sharedAddr params = NULL then
        let rid = lp_regionId params in
        res_bind (SharedRegion_isCacheEnabled M rid) (\<lambda>c.
        res_bind (SharedRegion_getCacheLineSize M rid) (\<lambda>cls.
        res_bind (ListMP_sharedMemReq M NULL rid) (\<lambda>req.
        res_bind (SharedRegion_getHeap M rid) (\<lambda>regionHeap.
        Assert_isTrue (sr_asserts M) (regionHeap \<noteq> NULL) A_noHeap (
        let attrs = env_alloc env regionHeap req 0;
            obj1 = obj\<lparr>lo_objType := ObjType_CREATEDYNAMIC_REGION, lo_regionId := rid,
                      lo_cacheEnabled := c, lo_cacheLineSize := cls, lo_allocSize := req,
                      lo_attrs := attrs\<rparr> in
        Ok (if attrs = NULL then 2 else 0, obj1))))))
      else
        let addr = lp_sharedAddr params;
            rid = SharedRegion_getId M addr in
        Assert_isTrue (sr_asserts M) (rid \<noteq> SharedRegion_INVALIDREGIONID)
          A_addrNotInSharedRegion (
        res_bind (SharedRegion_isCacheEnabled M rid) (\<lambda>c.
        res_bind (SharedRegion_getCacheLineSize M rid) (\<lambda>cls.
        Assert_isTrue (sr_asserts M) (cls = 0 \<or> addr mod cls = 0) A_addrNotCacheAligned (
        Ok (0, obj\<lparr>lo_objType := ObjType_CREATEDYNAMIC, lo_regionId := rid, lo_cacheEnabled := c,
                   lo_cacheLineSize := cls, lo_attrs := addr\<rparr>))))))"

definition ListMP_Instance_init ::
  "build \<Rightarrow> SharedRegion_Module \<Rightarrow> ipc_env \<Rightarrow> ListMP_Params \<Rightarrow> ListMP_Object \<Rightarrow> lmp_mem \<Rightarrow>
   (int \<times> ListMP_Object \<times> lmp_mem) res" where
  "ListMP_Instance_init B M env params obj0 s =
     (if lp_openFlag params then ListMP_open_init B M env params obj0 s
      else
        let obj1 = obj0\<lparr>lo_gate := (if lp_gate params \<noteq> NULL then lp_gate params
                                    else env_defaultGate env)\<rparr> in
        res_bind (ListMP_place M env params obj1) (\<lambda>(st, obj).
        if st \<noteq> 0 then Ok (st, obj, s) else
        res_bind (ListMP_elemClear M (ListMP_head obj) s) (\<lambda>s1.
        let s2 = set_attrs (lo_attrs obj)
                   \<lparr>la_status = ListMP_CREATED, la_gateMPAddr = env_gateAddr env (lo_gate obj)\<rparr> s1;
            s3 = log_if (lo_cacheEnabled obj) (Cache_wbInv (lo_attrs obj) sizeof_ListMP_Attrs) s2 in
        case lp_name params of
          None \<Rightarrow> Ok (0, obj, s3)
        | Some nm \<Rightarrow>
            res_bind (SharedRegion_getSRPtr M (lo_attrs obj) (lo_regionId obj)) (\<lambda>sharedShmBase.
            let key = env_nsAdd env nm sharedShmBase;
                obj2 = obj\<lparr>lo_nsKey := key\<rparr> in
            Ok (if key = NULL then 3 else 0, obj2, s3)))))"

text \<open>
  \<open>ListMP_Instance_finalize\<close> answers, beside the memory, whether it removed the name server
  entry, the block it gave back to the region's heap, and the gate it closed.
\<close>

record ListMP_release =
  rl_nsRemoved :: "ptr option"
  rl_freed :: "(ptr \<times> ptr \<times> sizeT) option"
  rl_gateClosed :: "ptr option"

definition ListMP_Instance_finalize ::
  "SharedRegion_Module \<Rightarrow> ListMP_Object \<Rightarrow> lmp_mem \<Rightarrow> (ListMP_release \<times> lmp_mem) res" where
  "ListMP_Instance_finalize M obj s =
     (if created_dynamic (lo_objType obj) then
        let ns = (if lo_nsKey obj \<noteq> NULL then Some (lo_nsKey obj) else None);
            s1 = (if lo_attrs obj \<noteq> NULL
                  then log_if (lo_cacheEnabled obj) (Cache_wbInv (lo_attrs obj) sizeof_ListMP_Attrs)
                         (set_attrs (lo_attrs obj) ((lm_attrs s (lo_attrs obj))\<lparr>la_status := 0\<rparr>) s)
                  else s) in
        if lo_objType obj = ObjType_CREATEDYNAMIC_REGION \<and> lo_attrs obj \<noteq> NULL then
          res_bind (SharedRegion_getHeap M (lo_regionId obj)) (\<lambda>h.
          Ok (\<lparr>rl_nsRemoved = ns, rl_freed = Some (h, lo_attrs obj, lo_allocSize obj),
               rl_gateClosed = None\<rparr>, s1))
        else Ok (\<lparr>rl_nsRemoved = ns, rl_freed = None, rl_gateClosed = None\<rparr>, s1)
      else
        Ok (\<lparr>rl_nsRemoved = None, rl_freed = None,
             rl_gateClosed = (if lo_gate obj \<noteq> NULL then Some (lo_gate obj) else None)\<rparr>, s))"

text \<open>
  \<open>ListMP_openByAddr\<close>: a handle only for an address where a creator left its stamp. An
  instance whose initialisation fails is finalized by the XDC runtime and no handle is returned.
\<close>

definition ListMP_openByAddr ::
  "build \<Rightarrow> SharedRegion_Module \<Rightarrow> ipc_env \<Rightarrow> ptr \<Rightarrow> ListMP_Object \<Rightarrow> lmp_mem \<Rightarrow>
   (ListMP_status \<times> ListMP_Object option \<times> lmp_mem) res" where
  "ListMP_openByAddr B M env sharedAddr obj0 s =
     (let rid = SharedRegion_getId M sharedAddr in
      res_bind (SharedRegion_isCacheEnabled M rid) (\<lambda>c.
      let s1 = log_if c (Cache_inv sharedAddr sizeof_ListMP_Attrs) s in
      if la_status (lm_attrs s1 sharedAddr) \<noteq> ListMP_CREATED
      then Ok (ListMP_E_NOTFOUND, None, log_if c (Cache_inv sharedAddr sizeof_ListMP_Attrs) s1)
      else
      res_bind (ListMP_Instance_init B M env
                  (ListMP_Params_init\<lparr>lp_openFlag := True, lp_sharedAddr := sharedAddr\<rparr>) obj0 s1)
        (\<lambda>(st, obj, s2).
      if st = 0
      then Ok (ListMP_S_SUCCESS, Some obj, log_if c (Cache_inv sharedAddr sizeof_ListMP_Attrs) s2)
      else
      res_bind (ListMP_Instance_finalize M obj s2) (\<lambda>(rel, s3).
      Ok (ListMP_E_FAIL, None, log_if c (Cache_inv sharedAddr sizeof_ListMP_Attrs) s3)))))"

section \<open>The linked elements as a list\<close>

text \<open>The ring of elements \<open>E\<close> through \<open>h\<close>, their links being shared-region pointers.\<close>

abbreviation mp_ring :: "SharedRegion_Module \<Rightarrow> (ptr \<Rightarrow> ListMP_Elem) \<Rightarrow> ptr \<Rightarrow> ptr list \<Rightarrow> bool" where
  "mp_ring M E \<equiv> dring (sr_enc M) (\<lambda>x. le_next (E x)) (\<lambda>x. le_prev (E x))"

text \<open>
  The list instance \<open>obj\<close> holds \<open>xs\<close>: the ring through the head is \<open>xs\<close>, its nodes are
  portable and pairwise different, and the instance's cached facts about its region are right.
\<close>

definition lmp_ring ::
  "SharedRegion_Module \<Rightarrow> ListMP_Object \<Rightarrow> ptr list \<Rightarrow> lmp_mem \<Rightarrow> bool" where
  "lmp_ring M obj xs s \<longleftrightarrow>
     mp_ring M (lm_elem s) (ListMP_head obj) xs \<and>
     (\<forall>x \<in> set (ListMP_head obj # xs). sr_portable M x) \<and>
     lo_regionId obj = SharedRegion_getId M (ListMP_head obj) \<and>
     lo_cacheEnabled obj = sr_cached M (ListMP_head obj)"

lemma lmp_ring_parts:
  assumes "lmp_ring M obj xs s"
  shows "distinct (ListMP_head obj # xs)"
    and "x \<in> set (ListMP_head obj # xs) \<Longrightarrow> sr_portable M x"
    and "mp_ring M (lm_elem s) (ListMP_head obj) xs"
    and "lo_regionId obj = SharedRegion_getId M (ListMP_head obj)"
    and "lo_cacheEnabled obj = sr_cached M (ListMP_head obj)"
  using assms by (auto simp: lmp_ring_def dring_def)

text \<open>A list holds at most one sequence of elements.\<close>

lemma lmp_ring_unique:
  assumes "lmp_ring M obj xs s" and "lmp_ring M obj ys s"
  shows "xs = ys"
proof (rule dring_unique [OF lmp_ring_parts(3) [OF assms(1)] lmp_ring_parts(3) [OF assms(2)]])
  show "x = y" if "x \<in> set (ListMP_head obj # xs)" "y \<in> set (ListMP_head obj # ys)"
    "sr_enc M x = sr_enc M y" for x y
    using that lmp_ring_parts(2) [OF assms(1)] lmp_ring_parts(2) [OF assms(2)] sr_enc_inj by blast
qed

lemma lmp_ring_member:
  assumes "lmp_ring M obj (us @ e # vs) s"
  shows "sr_portable M e" and "e \<noteq> ListMP_head obj"
    and "le_next (lm_elem s e) = sr_enc M (right_of (ListMP_head obj) vs)"
    and "le_prev (lm_elem s e) = sr_enc M (left_of (ListMP_head obj) us)"
    and "sr_portable M (right_of (ListMP_head obj) vs)" and "sr_portable M (left_of (ListMP_head obj) us)"
    and "e \<noteq> right_of (ListMP_head obj) vs" and "e \<noteq> left_of (ListMP_head obj) us"
  using dring_member [OF lmp_ring_parts(3) [OF assms]] lmp_ring_parts(2) [OF assms]
    neighbour_mem(1) [of "ListMP_head obj" us] neighbour_mem(2) [of "ListMP_head obj" vs]
  by auto

lemma lmp_ring_gap:
  assumes "lmp_ring M obj (us @ vs) s"
  shows "le_next (lm_elem s (left_of (ListMP_head obj) us)) = sr_enc M (right_of (ListMP_head obj) vs)"
    and "le_prev (lm_elem s (right_of (ListMP_head obj) vs)) = sr_enc M (left_of (ListMP_head obj) us)"
    and "sr_portable M (right_of (ListMP_head obj) vs)" and "sr_portable M (left_of (ListMP_head obj) us)"
  using dring_gap [OF lmp_ring_parts(3) [OF assms]] lmp_ring_parts(2) [OF assms]
    neighbour_mem(1) [of "ListMP_head obj" us] neighbour_mem(2) [of "ListMP_head obj" vs]
  by auto

text \<open>Relinking the cells of a ring around a place takes an element out or puts one in.\<close>

lemma lmp_ring_unlink:
  assumes "lmp_ring M obj (us @ e # vs) s"
    and "\<And>x. le_next (lm_elem t x) =
           (if x = left_of (ListMP_head obj) us then sr_enc M (right_of (ListMP_head obj) vs) else le_next (lm_elem s x))"
    and "\<And>x. le_prev (lm_elem t x) =
           (if x = right_of (ListMP_head obj) vs then sr_enc M (left_of (ListMP_head obj) us) else le_prev (lm_elem s x))"
  shows "lmp_ring M obj (us @ vs) t"
proof -
  have "mp_ring M (lm_elem t) (ListMP_head obj) (us @ vs)"
    by (rule dring_unlink [OF lmp_ring_parts(3) [OF assms(1)]]) (rule assms)+
  then show ?thesis using assms(1) by (auto simp: lmp_ring_def)
qed

lemma lmp_ring_link:
  assumes "lmp_ring M obj (us @ vs) s" and "sr_portable M e"
    and "e \<notin> set (ListMP_head obj # us @ vs)"
    and "\<And>x. le_next (lm_elem t x) =
           (if x = left_of (ListMP_head obj) us then sr_enc M e
            else if x = e then sr_enc M (right_of (ListMP_head obj) vs) else le_next (lm_elem s x))"
    and "\<And>x. le_prev (lm_elem t x) =
           (if x = right_of (ListMP_head obj) vs then sr_enc M e
            else if x = e then sr_enc M (left_of (ListMP_head obj) us) else le_prev (lm_elem s x))"
  shows "lmp_ring M obj (us @ e # vs) t"
proof -
  have "mp_ring M (lm_elem t) (ListMP_head obj) (us @ e # vs)"
    by (rule dring_link [OF lmp_ring_parts(3) [OF assms(1)] assms(3-5)])
  then show ?thesis using assms(1,2) by (auto simp: lmp_ring_def)
qed

section \<open>What an operation leaves alone, and what its log looks like\<close>

lemma elem_after [simp]:
  "lm_elem (log_ev e s) = lm_elem s"
  "lm_elem (log_if c e s) = lm_elem s"
  "lm_elem (set_next a v s) = (lm_elem s)(a := (lm_elem s a)\<lparr>le_next := v\<rparr>)"
  "lm_elem (set_prev a v s) = (lm_elem s)(a := (lm_elem s a)\<lparr>le_prev := v\<rparr>)"
  "lm_elem (wb_or_barrier B c a s) = lm_elem s"
  "lm_elem (ListMP_begin B obj s) = lm_elem s"
  "lm_elem (ListMP_leave obj s) = lm_elem s"
  by (simp_all add: log_ev_def log_if_def set_next_def set_prev_def wb_or_barrier_def
      ListMP_barrier_def ListMP_begin_def ListMP_leave_def)

lemma attrs_after [simp]:
  "lm_attrs (log_ev e s) = lm_attrs s"
  "lm_attrs (log_if c e s) = lm_attrs s"
  "lm_attrs (set_next a v s) = lm_attrs s"
  "lm_attrs (set_prev a v s) = lm_attrs s"
  "lm_attrs (wb_or_barrier B c a s) = lm_attrs s"
  "lm_attrs (ListMP_begin B obj s) = lm_attrs s"
  "lm_attrs (ListMP_leave obj s) = lm_attrs s"
  by (simp_all add: log_ev_def log_if_def set_next_def set_prev_def wb_or_barrier_def
      ListMP_barrier_def ListMP_begin_def ListMP_leave_def)

lemma local_ptr_eq: "local_ptr M p = SharedRegion_getPtr M p"
  by (simp add: local_ptr_def SharedRegion_getPtr_def)

lemma is_cached_portable: "sr_portable M a \<Longrightarrow> is_cached M a = Ok (sr_cached M a)"
  by (simp add: is_cached_def sr_portable_def)

text \<open>
  The log of a complete critical section of gate \<open>g\<close> that publishes its writes: it enters the
  gate first, leaves it last, does not touch a gate in between, and writes every cell of a cached
  region back after writing it.
\<close>

definition is_gate_event :: "ipc_event \<Rightarrow> bool" where
  "is_gate_event e \<longleftrightarrow> (case e of Gate_enter g \<Rightarrow> True | Gate_leave g \<Rightarrow> True | _ \<Rightarrow> False)"

lemma is_gate_event_simps [simp]:
  "is_gate_event (Gate_enter g)" "is_gate_event (Gate_leave g)"
  "\<not> is_gate_event (Cache_inv a n)" "\<not> is_gate_event (Cache_wbInv a n)"
  "\<not> is_gate_event Mem_barrier" "\<not> is_gate_event (Mem_write a)"
  by (simp_all add: is_gate_event_def)

definition critical_section :: "SharedRegion_Module \<Rightarrow> ptr \<Rightarrow> ipc_event list \<Rightarrow> bool" where
  "critical_section M g es \<longleftrightarrow>
     (\<exists>mid. es = Gate_leave g # mid @ [Gate_enter g] \<and> list_all (\<lambda>e. \<not> is_gate_event e) mid) \<and>
     published (sr_cached M) {} es"

definition lmp_effect ::
  "SharedRegion_Module \<Rightarrow> ListMP_Object \<Rightarrow> ptr set \<Rightarrow> lmp_mem \<Rightarrow> lmp_mem \<Rightarrow> bool" where
  "lmp_effect M obj A s s' \<longleftrightarrow>
     lm_attrs s' = lm_attrs s \<and>
     (\<forall>a. a \<notin> A \<longrightarrow> lm_elem s' a = lm_elem s a) \<and>
     (\<exists>es. lm_log s' = es @ lm_log s \<and> critical_section M (lo_gate obj) es)"

lemma critical_section_intro:
  assumes "list_all (\<lambda>e. \<not> is_gate_event e) mid"
    and "published (sr_cached M) {} (mid @ [Gate_enter g])"
  shows "critical_section M g (Gate_leave g # mid @ [Gate_enter g])"
  using assms by (auto simp: critical_section_def)

text \<open>
  The events of a step, oldest last, as a list that grows with the operation: the normal form in
  which the logs of the operations are compared with \<open>critical_section\<close>.
\<close>

definition section_log :: "lmp_mem \<Rightarrow> ptr \<Rightarrow> ipc_event list \<Rightarrow> lmp_mem \<Rightarrow> bool" where
  "section_log s0 g mid s \<longleftrightarrow>
     lm_log s = mid @ Gate_enter g # lm_log s0 \<and> list_all (\<lambda>e. \<not> is_gate_event e) mid"

lemma section_log_enter: "section_log s g [] (log_ev (Gate_enter g) s)"
  by (simp add: section_log_def log_ev_def)

lemma section_log_begin:
  "section_log s (lo_gate obj)
     (if b_armA B \<and> lo_cacheEnabled obj then [Cache_inv (lo_attrs obj) sizeof_ListMP_Attrs] else [])
     (ListMP_begin B obj s)"
  by (simp add: section_log_def log_ev_def log_if_def ListMP_begin_def)

lemma section_log_if:
  "section_log s0 g mid s \<Longrightarrow> \<not> is_gate_event e \<Longrightarrow>
   section_log s0 g ((if c then [e] else []) @ mid) (log_if c e s)"
  by (simp add: section_log_def log_ev_def log_if_def)

lemma section_log_set:
  "section_log s0 g mid s \<Longrightarrow> section_log s0 g (Mem_write a # mid) (set_next a v s)"
  "section_log s0 g mid s \<Longrightarrow> section_log s0 g (Mem_write a # mid) (set_prev a v s)"
  by (simp_all add: section_log_def log_ev_def set_next_def set_prev_def)

lemma section_log_wb:
  "section_log s0 g mid s \<Longrightarrow>
   section_log s0 g
     ((if c then [Cache_wbInv a sizeof_ListMP_Elem] else if b_64P B then [Mem_barrier] else []) @ mid)
     (wb_or_barrier B c a s)"
  by (simp add: section_log_def log_ev_def log_if_def wb_or_barrier_def ListMP_barrier_def)

lemmas section_log_intros =
  section_log_enter section_log_begin section_log_if section_log_set section_log_wb

lemma section_log_leave:
  assumes "section_log s0 (lo_gate obj) mid s"
    and "published (sr_cached M) {} (mid @ [Gate_enter (lo_gate obj)])"
  shows "\<exists>es. lm_log (ListMP_leave obj s) = es @ lm_log s0 \<and>
              critical_section M (lo_gate obj) es"
  using assms critical_section_intro [of mid M "lo_gate obj"]
  by (intro exI [of _ "Gate_leave (lo_gate obj) # mid @ [Gate_enter (lo_gate obj)]"])
    (simp add: section_log_def ListMP_leave_def log_ev_def)

lemma published_if [simp]:
  "published c W ((if b then [e] else []) @ es) \<longleftrightarrow>
     (if b then published c W (e # es) else published c W es)"
  by simp

section \<open>Taking elements\<close>

lemma lmp_effect_intro:
  assumes "lm_attrs s' = lm_attrs s"
    and "\<And>a. a \<notin> A \<Longrightarrow> lm_elem s' a = lm_elem s a"
    and "s' = ListMP_leave obj t" and "section_log s (lo_gate obj) mid t"
    and "published (sr_cached M) {} (mid @ [Gate_enter (lo_gate obj)])"
  shows "lmp_effect M obj A s s'"
  using assms section_log_leave [OF assms(4,5)] by (simp add: lmp_effect_def)

lemma ListMP_getHead_empty:
  assumes ring: "lmp_ring M obj [] s"
  shows "\<exists>s'. ListMP_getHead B M obj s = Ok (NULL, s') \<and> lmp_ring M obj [] s' \<and>
    lmp_effect M obj {} s s'"
proof -
  let ?h = "ListMP_head obj"
  let ?t = "wb_or_barrier B (lo_cacheEnabled obj) ?h (ListMP_begin B obj s)"
  note R = lmp_ring_parts [OF ring]
  have h: "sr_portable M ?h" by (rule R(2)) simp
  have "ListMP_getHead B M obj s = Ok (NULL, ListMP_leave obj ?t)"
    using R(3) sr_portableD [OF h]
    by (simp add: dring_def ListMP_getHead_def Let_def local_ptr_eq)
  moreover have "lmp_effect M obj {} s (ListMP_leave obj ?t)"
    by (rule lmp_effect_intro [OF _ _ refl section_log_wb [OF section_log_begin]]) auto
  moreover have "lmp_ring M obj [] (ListMP_leave obj ?t)"
    using ring by (simp add: lmp_ring_def)
  ultimately show ?thesis by blast
qed

lemma ListMP_getHead_cons:
  assumes ring: "lmp_ring M obj (x # xs) s"
  shows "\<exists>s'. ListMP_getHead B M obj s = Ok (x, s') \<and> lmp_ring M obj xs s' \<and>
    lmp_effect M obj (set (ListMP_head obj # xs)) s s'"
proof -
  let ?h = "ListMP_head obj" and ?y = "right_of (ListMP_head obj) xs"
  note N = lmp_ring_member [of M obj "[]" x xs s, simplified, OF ring]
  have hn: "le_next (lm_elem s ?h) = sr_enc M x"
    using lmp_ring_gap(1) [of M obj "[]" "x # xs" s] ring by simp
  let ?s1 = "log_if (sr_cached M x) (Cache_inv x sizeof_ListMP_Elem) (ListMP_begin B obj s)"
  let ?s2 = "log_if (sr_cached M ?y) (Cache_inv ?y sizeof_ListMP_Elem) ?s1"
  let ?s3 = "set_next ?h (sr_enc M ?y) ?s2"
  let ?s4 = "set_prev ?y (sr_enc M ?h) ?s3"
  let ?s5 = "log_if (sr_cached M ?y) (Cache_wbInv ?y sizeof_ListMP_Elem) ?s4"
  let ?t = "wb_or_barrier B (lo_cacheEnabled obj) ?h ?s5"
  have run: "ListMP_getHead B M obj s = Ok (x, ListMP_leave obj ?t)"
    using sr_portableD [OF N(1)] sr_portableD [OF N(5)] is_cached_portable [OF N(1)]
      is_cached_portable [OF N(5)] hn N(2,3,4,7)
    by (simp add: ListMP_getHead_def Let_def local_ptr_eq)
  have "lmp_ring M obj ([] @ xs) (ListMP_leave obj ?t)"
    by (rule lmp_ring_unlink [of _ _ "[]" x]) (use ring in auto)
  moreover have "lmp_effect M obj (set (?h # xs)) s (ListMP_leave obj ?t)"
    by (rule lmp_effect_intro [OF _ _ refl
          section_log_wb [OF section_log_if [OF section_log_set(2) [OF section_log_set(1)
            [OF section_log_if [OF section_log_if [OF section_log_begin]]]]]]])
      (use neighbour_mem(2) [of "ListMP_head obj" xs] lmp_ring_parts(5) [OF ring] in auto)
  ultimately show ?thesis using run by auto
qed

lemma ListMP_getTail_empty:
  assumes ring: "lmp_ring M obj [] s"
  shows "\<exists>s'. ListMP_getTail B M obj s = Ok (NULL, s') \<and> lmp_ring M obj [] s' \<and>
    lmp_effect M obj {} s s'"
proof -
  let ?h = "ListMP_head obj"
  let ?t = "wb_or_barrier B (lo_cacheEnabled obj) ?h (ListMP_begin B obj s)"
  note R = lmp_ring_parts [OF ring]
  have h: "sr_portable M ?h" by (rule R(2)) simp
  have "ListMP_getTail B M obj s = Ok (NULL, ListMP_leave obj ?t)"
    using R(3) sr_portableD [OF h]
    by (simp add: dring_def ListMP_getTail_def Let_def local_ptr_eq)
  moreover have "lmp_effect M obj {} s (ListMP_leave obj ?t)"
    by (rule lmp_effect_intro [OF _ _ refl section_log_wb [OF section_log_begin]]) auto
  moreover have "lmp_ring M obj [] (ListMP_leave obj ?t)"
    using ring by (simp add: lmp_ring_def)
  ultimately show ?thesis by blast
qed

lemma ListMP_getTail_snoc:
  assumes ring: "lmp_ring M obj (xs @ [x]) s"
  shows "\<exists>s'. ListMP_getTail B M obj s = Ok (x, s') \<and> lmp_ring M obj xs s' \<and>
    lmp_effect M obj (set (ListMP_head obj # xs)) s s'"
proof -
  let ?h = "ListMP_head obj" and ?y = "left_of (ListMP_head obj) xs"
  note N = lmp_ring_member [of M obj xs x "[]" s, simplified, OF ring]
  have hn: "le_prev (lm_elem s ?h) = sr_enc M x"
    using lmp_ring_gap(2) [of M obj "xs @ [x]" "[]" s] ring by simp
  let ?s1 = "log_if (sr_cached M x) (Cache_inv x sizeof_ListMP_Elem) (ListMP_begin B obj s)"
  let ?s2 = "log_if (sr_cached M ?y) (Cache_inv ?y sizeof_ListMP_Elem) ?s1"
  let ?s3 = "set_prev ?h (sr_enc M ?y) ?s2"
  let ?s4 = "set_next ?y (sr_enc M ?h) ?s3"
  let ?s5 = "log_if (sr_cached M ?y) (Cache_wbInv ?y sizeof_ListMP_Elem) ?s4"
  let ?t = "wb_or_barrier B (lo_cacheEnabled obj) ?h ?s5"
  have run: "ListMP_getTail B M obj s = Ok (x, ListMP_leave obj ?t)"
    using sr_portableD [OF N(1)] sr_portableD [OF N(6)] is_cached_portable [OF N(1)]
      is_cached_portable [OF N(6)] hn N(2,3,4,8)
    by (simp add: ListMP_getTail_def Let_def local_ptr_eq)
  have "lmp_ring M obj (xs @ []) (ListMP_leave obj ?t)"
    by (rule lmp_ring_unlink [of _ _ xs x]) (use ring in auto)
  moreover have "lmp_effect M obj (set (?h # xs)) s (ListMP_leave obj ?t)"
    by (rule lmp_effect_intro [OF _ _ refl
          section_log_wb [OF section_log_if [OF section_log_set(1) [OF section_log_set(2)
            [OF section_log_if [OF section_log_if [OF section_log_begin]]]]]]])
      (use neighbour_mem(1) [of "ListMP_head obj" xs] lmp_ring_parts(5) [OF ring] in auto)
  ultimately show ?thesis using run by auto
qed

section \<open>Putting elements in\<close>

lemma no_high_pointer: "\<not> 0xFFFFFFFF < uint (p :: ptr)"
  using uint_lt2p [of p] by simp

lemma ListMP_putHead_ring:
  assumes ring: "lmp_ring M obj xs s" and e: "sr_portable M e"
    and new: "e \<notin> set (ListMP_head obj # xs)"
  shows "\<exists>s'. ListMP_putHead B M obj e s = Ok (ListMP_S_SUCCESS, s') \<and>
    lmp_ring M obj (e # xs) s' \<and> lmp_effect M obj (set (ListMP_head obj # e # xs)) s s'"
proof -
  let ?h = "ListMP_head obj" and ?y = "right_of (ListMP_head obj) xs"
  note R = lmp_ring_parts [OF ring]
  note G = lmp_ring_gap [of M obj "[]" xs s, simplified, OF ring]
  have ey: "e \<noteq> ?y" and eh: "e \<noteq> ?h" using new neighbour_mem(2) [of "ListMP_head obj" xs] by auto
  let ?s1 = "log_if (sr_cached M ?y) (Cache_inv ?y sizeof_ListMP_Elem) (ListMP_begin B obj s)"
  let ?s2 = "set_prev e (sr_enc M ?h) (set_next e (sr_enc M ?y) ?s1)"
  let ?s3 = "set_next ?h (sr_enc M e) (set_prev ?y (sr_enc M e) ?s2)"
  let ?s4 = "log_if (sr_cached M ?y) (Cache_wbInv ?y sizeof_ListMP_Elem) ?s3"
  let ?s5 = "log_if (lo_cacheEnabled obj) (Cache_wbInv ?h sizeof_ListMP_Elem) ?s4"
  let ?t = "wb_or_barrier B (sr_cached M e) e ?s5"
  have run: "ListMP_putHead B M obj e s = Ok (ListMP_S_SUCCESS, ListMP_leave obj ?t)"
    using sr_portableD [OF e] sr_portableD [OF G(3)] sr_portableD [OF G(4)]
      is_cached_portable [OF G(3)] G(1) R(4)
    by (simp add: ListMP_putHead_def Let_def local_ptr_eq no_high_pointer
        SharedRegion_getSRPtr_def split: if_splits)
  have "lmp_ring M obj ([] @ e # xs) (ListMP_leave obj ?t)"
    by (rule lmp_ring_link) (use ring e new ey eh in auto)
  moreover have "lmp_effect M obj (set (?h # e # xs)) s (ListMP_leave obj ?t)"
    by (rule lmp_effect_intro [OF _ _ refl
          section_log_wb [OF section_log_if [OF section_log_if [OF section_log_set(1)
            [OF section_log_set(2) [OF section_log_set(2) [OF section_log_set(1)
            [OF section_log_if [OF section_log_begin]]]]]]]]])
      (use neighbour_mem(2) [of "ListMP_head obj" xs] R(5) in auto)
  ultimately show ?thesis using run by auto
qed

lemma ListMP_putTail_ring:
  assumes ring: "lmp_ring M obj xs s" and e: "sr_portable M e"
    and new: "e \<notin> set (ListMP_head obj # xs)"
  shows "\<exists>s'. ListMP_putTail B M obj e s = Ok (ListMP_S_SUCCESS, s') \<and>
    lmp_ring M obj (xs @ [e]) s' \<and> lmp_effect M obj (set (ListMP_head obj # e # xs)) s s'"
proof -
  let ?h = "ListMP_head obj" and ?y = "left_of (ListMP_head obj) xs"
  note R = lmp_ring_parts [OF ring]
  note G = lmp_ring_gap [of M obj xs "[]" s, simplified, OF ring]
  have ey: "e \<noteq> ?y" and eh: "e \<noteq> ?h" using new neighbour_mem(1) [of "ListMP_head obj" xs] by auto
  let ?s1 = "log_if (sr_cached M ?y) (Cache_inv ?y sizeof_ListMP_Elem) (ListMP_begin B obj s)"
  let ?s2 = "set_prev e (sr_enc M ?y) (set_next e (sr_enc M ?h) ?s1)"
  let ?s3 = "set_prev ?h (sr_enc M e) (set_next ?y (sr_enc M e) ?s2)"
  let ?s4 = "log_if (sr_cached M ?y) (Cache_wbInv ?y sizeof_ListMP_Elem) ?s3"
  let ?s5 = "log_if (lo_cacheEnabled obj) (Cache_wbInv ?h sizeof_ListMP_Elem) ?s4"
  let ?t = "wb_or_barrier B (sr_cached M e) e ?s5"
  have run: "ListMP_putTail B M obj e s = Ok (ListMP_S_SUCCESS, ListMP_leave obj ?t)"
    using sr_portableD [OF e] sr_portableD [OF G(3)] sr_portableD [OF G(4)]
      is_cached_portable [OF G(4)] G(2) R(4) eh
    by (simp add: ListMP_putTail_def Let_def local_ptr_eq no_high_pointer
        SharedRegion_getSRPtr_def split: if_splits)
  have "lmp_ring M obj (xs @ e # []) (ListMP_leave obj ?t)"
    by (rule lmp_ring_link) (use ring e new ey eh in auto)
  moreover have "lmp_effect M obj (set (?h # e # xs)) s (ListMP_leave obj ?t)"
    by (rule lmp_effect_intro [OF _ _ refl
          section_log_wb [OF section_log_if [OF section_log_if [OF section_log_set(2)
            [OF section_log_set(1) [OF section_log_set(2) [OF section_log_set(1)
            [OF section_log_if [OF section_log_begin]]]]]]]]])
      (use neighbour_mem(1) [of "ListMP_head obj" xs] R(5) in auto)
  ultimately show ?thesis using run by auto
qed

text \<open>Inserting before \<open>c\<close>, which is an element of the list or the head.\<close>

lemma ListMP_insert_ring:
  assumes ring: "lmp_ring M obj (us @ vs) s" and e: "sr_portable M e"
    and new: "e \<notin> set (ListMP_head obj # us @ vs)" and c: "c = right_of (ListMP_head obj) vs"
  shows "\<exists>s'. ListMP_insert B M obj e c s = Ok (ListMP_S_SUCCESS, s') \<and>
    lmp_ring M obj (us @ e # vs) s' \<and>
    lmp_effect M obj (set (ListMP_head obj # e # us @ vs)) s s'"
proof -
  let ?y = "left_of (ListMP_head obj) us" and ?c = "right_of (ListMP_head obj) vs"
  note R = lmp_ring_parts [OF ring]
  note G = lmp_ring_gap [OF ring]
  have ey: "e \<noteq> ?y" and ec: "e \<noteq> ?c"
    using new neighbour_mem(1) [of "ListMP_head obj" us] neighbour_mem(2) [of "ListMP_head obj" vs] by auto
  let ?s0 = "log_ev (Gate_enter (lo_gate obj)) s"
  let ?s1 = "log_if (sr_cached M ?y) (Cache_inv ?y sizeof_ListMP_Elem)
               (log_if (sr_cached M ?c) (Cache_inv ?c sizeof_ListMP_Elem) ?s0)"
  let ?s2 = "set_prev e (sr_enc M ?y) (set_next e (sr_enc M ?c) ?s1)"
  let ?s3 = "set_prev ?c (sr_enc M e) (set_next ?y (sr_enc M e) ?s2)"
  let ?s4 = "log_if (sr_cached M ?y) (Cache_wbInv ?y sizeof_ListMP_Elem) ?s3"
  let ?s5 = "log_if (sr_cached M ?c) (Cache_wbInv ?c sizeof_ListMP_Elem) ?s4"
  let ?t = "wb_or_barrier B (sr_cached M e) e ?s5"
  have run: "ListMP_insert B M obj e c s = Ok (ListMP_S_SUCCESS, ListMP_leave obj ?t)"
    using sr_portableD [OF e] sr_portableD [OF G(3)] sr_portableD [OF G(4)]
      is_cached_portable [OF G(3)] is_cached_portable [OF G(4)] is_cached_portable [OF e] G(2) ec
    by (simp add: ListMP_insert_def Let_def local_ptr_eq no_high_pointer c
        SharedRegion_getSRPtr_def split: if_splits)
  have "lmp_ring M obj (us @ e # vs) (ListMP_leave obj ?t)"
    by (rule lmp_ring_link) (use ring e new ey ec in auto)
  moreover have "lmp_effect M obj (set (ListMP_head obj # e # us @ vs)) s (ListMP_leave obj ?t)"
    by (rule lmp_effect_intro [OF _ _ refl
          section_log_wb [OF section_log_if [OF section_log_if [OF section_log_set(2)
            [OF section_log_set(1) [OF section_log_set(2) [OF section_log_set(1)
            [OF section_log_if [OF section_log_if [OF section_log_enter]]]]]]]]]])
      (use neighbour_mem(1) [of "ListMP_head obj" us] neighbour_mem(2) [of "ListMP_head obj" vs] in auto)
  ultimately show ?thesis using run by auto
qed

lemma ListMP_remove_ring:
  assumes ring: "lmp_ring M obj (us @ e # vs) s"
  shows "\<exists>s'. ListMP_remove B M obj e s = Ok (ListMP_S_SUCCESS, s') \<and>
    lmp_ring M obj (us @ vs) s' \<and>
    lmp_effect M obj (set (ListMP_head obj # us @ vs)) s s'"
proof -
  let ?p = "left_of (ListMP_head obj) us" and ?q = "right_of (ListMP_head obj) vs"
  note N = lmp_ring_member [OF ring]
  let ?s0 = "log_ev (Gate_enter (lo_gate obj)) s"
  let ?s1 = "log_if (sr_cached M ?q) (Cache_inv ?q sizeof_ListMP_Elem)
               (log_if (sr_cached M ?p) (Cache_inv ?p sizeof_ListMP_Elem) ?s0)"
  let ?s2 = "set_prev ?q (sr_enc M ?p) (set_next ?p (sr_enc M ?q) ?s1)"
  let ?s3 = "log_if (sr_cached M ?p) (Cache_wbInv ?p sizeof_ListMP_Elem) ?s2"
  let ?t = "wb_or_barrier B (sr_cached M ?q) ?q ?s3"
  have run: "ListMP_remove B M obj e s = Ok (ListMP_S_SUCCESS, ListMP_leave obj ?t)"
    using sr_portableD [OF N(1)] sr_portableD [OF N(5)] sr_portableD [OF N(6)]
      is_cached_portable [OF N(5)] is_cached_portable [OF N(6)] N(3,4,7,8)
    by (simp add: ListMP_remove_def Let_def local_ptr_eq)
  have "lmp_ring M obj (us @ vs) (ListMP_leave obj ?t)"
    by (rule lmp_ring_unlink [OF ring]) auto
  moreover have "lmp_effect M obj (set (ListMP_head obj # us @ vs)) s (ListMP_leave obj ?t)"
    by (rule lmp_effect_intro [OF _ _ refl
          section_log_wb [OF section_log_if [OF section_log_set(2) [OF section_log_set(1)
            [OF section_log_if [OF section_log_if [OF section_log_enter]]]]]]])
      (use neighbour_mem(1) [of "ListMP_head obj" us] neighbour_mem(2) [of "ListMP_head obj" vs] in auto)
  ultimately show ?thesis using run by auto
qed

section \<open>Empty lists, iteration, failing calls\<close>

lemma ListMP_empty_ring:
  assumes ring: "lmp_ring M obj xs s"
  shows "\<exists>s'. ListMP_empty B M obj s = Ok (xs = [], s') \<and> lmp_ring M obj xs s' \<and>
    lmp_effect M obj {} s s'"
proof -
  let ?h = "ListMP_head obj"
  let ?t = "log_if (lo_cacheEnabled obj) (Cache_inv ?h sizeof_ListMP_Elem) (ListMP_begin B obj s)"
  note R = lmp_ring_parts [OF ring]
  have h: "sr_portable M ?h" by (rule R(2)) simp
  have "(le_next (lm_elem s ?h) = sr_enc M ?h) = (xs = [])"
    using lmp_ring_gap(1) [of M obj "[]" xs s] ring R(1,2)
    by (cases xs) (auto simp: sr_enc_inj h)
  then have "ListMP_empty B M obj s = Ok (xs = [], ListMP_leave obj ?t)"
    using sr_portableD [OF h] R(4)
    by (simp add: ListMP_empty_def Let_def SharedRegion_getSRPtr_def split: if_splits)
  moreover have "lmp_effect M obj {} s (ListMP_leave obj ?t)"
    by (rule lmp_effect_intro [OF _ _ refl section_log_if [OF section_log_begin]]) auto
  moreover have "lmp_ring M obj xs (ListMP_leave obj ?t)"
    using ring by (simp add: lmp_ring_def)
  ultimately show ?thesis by blast
qed

text \<open>\<open>NULL\<close> stands for the head, before the first element and after the last.\<close>

definition lmp_pos :: "ListMP_Object \<Rightarrow> ptr \<Rightarrow> ptr" where
  "lmp_pos obj p = (if p = ListMP_head obj then NULL else p)"

lemma ListMP_next_ring:
  assumes ring: "lmp_ring M obj (us @ vs) s"
  shows "\<exists>s'. ListMP_next M obj (lmp_pos obj (left_of (ListMP_head obj) us)) s =
      Ok (lmp_pos obj (right_of (ListMP_head obj) vs), s') \<and> lm_elem s' = lm_elem s \<and> lm_attrs s' = lm_attrs s"
proof -
  note G = lmp_ring_gap [OF ring]
  note R = lmp_ring_parts [OF ring]
  have "left_of (ListMP_head obj) us \<noteq> NULL" using sr_portableD(1) [OF G(4)] .
  moreover have "is_cached M (left_of (ListMP_head obj) us) = Ok (sr_cached M (left_of (ListMP_head obj) us))"
    using G(4) by (rule is_cached_portable)
  ultimately show ?thesis
    using G(1) R(5) sr_portableD(3) [OF G(3)]
    by (cases "left_of (ListMP_head obj) us = ListMP_head obj") (simp_all add: ListMP_next_def lmp_pos_def Let_def)
qed

lemma ListMP_prev_ring:
  assumes ring: "lmp_ring M obj (us @ vs) s"
  shows "\<exists>s'. ListMP_prev M obj (lmp_pos obj (right_of (ListMP_head obj) vs)) s =
      Ok (lmp_pos obj (left_of (ListMP_head obj) us), s') \<and> lm_elem s' = lm_elem s \<and> lm_attrs s' = lm_attrs s"
proof -
  note G = lmp_ring_gap [OF ring]
  note R = lmp_ring_parts [OF ring]
  have "right_of (ListMP_head obj) vs \<noteq> NULL" using sr_portableD(1) [OF G(3)] .
  moreover have "is_cached M (right_of (ListMP_head obj) vs) = Ok (sr_cached M (right_of (ListMP_head obj) vs))"
    using G(3) by (rule is_cached_portable)
  ultimately show ?thesis
    using G(2) R(5) sr_portableD(3) [OF G(4)]
    by (cases "right_of (ListMP_head obj) vs = ListMP_head obj") (simp_all add: ListMP_prev_def lmp_pos_def Let_def)
qed

text \<open>
  A loop that starts from \<open>NULL\<close> and calls \<open>ListMP_next\<close> until it gets \<open>NULL\<close> back
  meets every element once, in order. The fuel bounds the calls.
\<close>

fun lmp_walk ::
  "SharedRegion_Module \<Rightarrow> ListMP_Object \<Rightarrow> nat \<Rightarrow> ptr \<Rightarrow> lmp_mem \<Rightarrow> ptr list option" where
  "lmp_walk M obj 0 p s = None"
| "lmp_walk M obj (Suc n) p s =
     (case ListMP_next M obj p s of
        Ok (q, s') \<Rightarrow> if q = NULL then Some []
                    else map_option ((#) q) (lmp_walk M obj n q s')
      | Err _ \<Rightarrow> None)"

lemma lmp_ring_cong:
  "lmp_ring M obj xs s \<Longrightarrow> lm_elem s' = lm_elem s \<Longrightarrow> lmp_ring M obj xs s'"
  by (simp add: lmp_ring_def)

lemma lmp_walk_from:
  assumes "lmp_ring M obj (us @ vs) s" and "length vs < n"
  shows "lmp_walk M obj n (lmp_pos obj (left_of (ListMP_head obj) us)) s = Some vs"
  using assms
proof (induction vs arbitrary: us s n)
  case Nil
  then obtain k where "n = Suc k" by (cases n) auto
  with ListMP_next_ring [OF Nil.prems(1)] show ?case by (auto simp: lmp_pos_def)
next
  case (Cons v vs)
  then obtain k where k: "n = Suc k" "length vs < k" by (cases n) auto
  obtain s' where s': "ListMP_next M obj (lmp_pos obj (left_of (ListMP_head obj) us)) s =
      Ok (lmp_pos obj v, s')" "lm_elem s' = lm_elem s"
    using ListMP_next_ring [OF Cons.prems(1)] by auto
  have v: "lmp_pos obj v = v" "v \<noteq> NULL"
    using lmp_ring_member(1,2) [OF Cons.prems(1)] by (auto simp: lmp_pos_def sr_portable_def)
  have "lmp_walk M obj k (lmp_pos obj (left_of (ListMP_head obj) (us @ [v]))) s' = Some vs"
    using Cons.prems(1) s'(2) k(2) by (intro Cons.IH) (auto intro: lmp_ring_cong)
  with s' k v show ?case by simp
qed

text \<open>The early returns of \<open>ListMP_remove\<close> and \<open>ListMP_insert\<close> keep the gate.\<close>

lemma ListMP_remove_dangling:
  assumes e: "e \<noteq> NULL" and prev: "SharedRegion_getPtr M (le_prev (lm_elem s e)) = Ok p"
    and nxt: "SharedRegion_getPtr M (le_next (lm_elem s e)) = Ok q"
    and "p = NULL \<or> q = NULL"
  shows "\<exists>s'. ListMP_remove B M obj e s = Ok (ListMP_E_FAIL, s') \<and> lm_elem s' = lm_elem s \<and>
    lm_log s' = Gate_enter (lo_gate obj) # lm_log s"
  using assms by (auto simp: ListMP_remove_def Let_def local_ptr_eq log_ev_def)

section \<open>The life of a list\<close>

text \<open>Where a list's attributes may lie: in a region whose entry also covers the head.\<close>

definition lmp_site :: "SharedRegion_Module \<Rightarrow> ptr \<Rightarrow> bool" where
  "lmp_site M a \<longleftrightarrow>
     a \<noteq> NULL \<and> sr_portable M (a + 8) \<and>
     SharedRegion_getId M a = SharedRegion_getId M (a + 8) \<and>
     SharedRegion_getId M a \<noteq> SharedRegion_INVALIDREGIONID \<and>
     (\<exists>cls. SharedRegion_getCacheLineSize M (SharedRegion_getId M a) = Ok cls \<and>
            (cls = 0 \<or> a mod cls = 0))"

lemma lmp_ring_created:
  assumes "sr_portable M (ListMP_head obj)"
    and "le_next (lm_elem s (ListMP_head obj)) = sr_enc M (ListMP_head obj)"
    and "le_prev (lm_elem s (ListMP_head obj)) = sr_enc M (ListMP_head obj)"
    and "lo_regionId obj = SharedRegion_getId M (ListMP_head obj)"
    and "lo_cacheEnabled obj = sr_cached M (ListMP_head obj)"
  shows "lmp_ring M obj [] s"
  using assms by (simp add: lmp_ring_def dring_def)

lemma ListMP_elemClear_portable:
  assumes "sr_portable M a"
  shows "\<exists>s'. ListMP_elemClear M a s = Ok s' \<and>
    le_next (lm_elem s' a) = sr_enc M a \<and> le_prev (lm_elem s' a) = sr_enc M a \<and>
    (\<forall>b. b \<noteq> a \<longrightarrow> lm_elem s' b = lm_elem s b) \<and> lm_attrs s' = lm_attrs s"
  using sr_portableD [OF assms] by (simp add: ListMP_elemClear_def Let_def)

lemma set_attrs_after [simp]:
  "lm_elem (set_attrs a v s) = lm_elem s"
  "lm_attrs (set_attrs a v s) = (lm_attrs s)(a := v)"
  by (simp_all add: set_attrs_def)

lemma ListMP_create_ring:
  assumes p: "\<not> lp_openFlag p" "lp_sharedAddr p = a" "lp_name p = None" and site: "lmp_site M a"
  shows "\<exists>obj s'. ListMP_Instance_init B M env p obj0 s = Ok (0, obj, s') \<and>
    lmp_ring M obj [] s' \<and> lo_attrs obj = a \<and>
    lm_attrs s' a = \<lparr>la_status = ListMP_CREATED, la_gateMPAddr = env_gateAddr env (lo_gate obj)\<rparr>"
proof -
  let ?rid = "SharedRegion_getId M a"
  obtain cls where cls: "SharedRegion_getCacheLineSize M ?rid = Ok cls" "cls = 0 \<or> a mod cls = 0"
    and h: "sr_portable M (a + 8)" and nz: "a \<noteq> NULL"
    and r: "?rid = SharedRegion_getId M (a + 8)" "?rid \<noteq> SharedRegion_INVALIDREGIONID"
    using site unfolding lmp_site_def by metis
  obtain s1 where s1: "ListMP_elemClear M (a + 8) s = Ok s1"
    "le_next (lm_elem s1 (a + 8)) = sr_enc M (a + 8)"
    "le_prev (lm_elem s1 (a + 8)) = sr_enc M (a + 8)"
    using ListMP_elemClear_portable [OF h, of s] by auto
  define g where "g = (if lp_gate p \<noteq> NULL then lp_gate p else env_defaultGate env)"
  define obj where "obj = obj0\<lparr>lo_gate := g, lo_objType := ObjType_CREATEDYNAMIC,
      lo_regionId := ?rid, lo_cacheEnabled := sr_cached M (a + 8), lo_cacheLineSize := cls,
      lo_attrs := a\<rparr>"
  have place: "ListMP_place M env p (obj0\<lparr>lo_gate := g\<rparr>) = Ok (0, obj)"
    using p nz r cls sr_portableD(4) [OF h]
    by (simp add: ListMP_place_def Let_def obj_def Assert_isTrue_def)
  have head: "ListMP_head obj = a + 8" by (simp add: ListMP_head_def obj_def)
  let ?s2 = "set_attrs a \<lparr>la_status = ListMP_CREATED,
               la_gateMPAddr = env_gateAddr env (lo_gate obj)\<rparr> s1"
  let ?s3 = "log_if (lo_cacheEnabled obj) (Cache_wbInv a sizeof_ListMP_Attrs) ?s2"
  have "ListMP_Instance_init B M env p obj0 s = Ok (0, obj, ?s3)"
    using p place s1(1) head
    by (simp add: ListMP_Instance_init_def Let_def g_def [symmetric]) (simp add: obj_def)
  moreover have "lmp_ring M obj [] ?s3"
    using s1 h r head by (intro lmp_ring_created) (simp_all add: obj_def)
  ultimately show ?thesis by (auto simp: obj_def)
qed

lemma ListMP_open_ring:
  assumes ring: "lmp_ring M obj xs s" and site: "lmp_site M (lo_attrs obj)"
    and stamp: "la_status (lm_attrs s (lo_attrs obj)) = ListMP_CREATED"
    and gate: "SharedRegion_getPtr M (la_gateMPAddr (lm_attrs s (lo_attrs obj))) = Ok g"
    "g \<noteq> NULL" "env_gateOpen env g = Some h"
  shows "\<exists>obj' s'. ListMP_openByAddr B M env (lo_attrs obj) obj0 s =
      Ok (ListMP_S_SUCCESS, Some obj', s') \<and> lmp_ring M obj' xs s' \<and>
    lo_attrs obj' = lo_attrs obj \<and> lo_gate obj' = h"
proof -
  let ?a = "lo_attrs obj" and ?rid = "SharedRegion_getId M (lo_attrs obj)"
  obtain cls where cls: "SharedRegion_getCacheLineSize M ?rid = Ok cls"
    and hd: "sr_portable M (?a + 8)" and r: "SharedRegion_getId M (?a + 8) = ?rid"
    using site unfolding lmp_site_def by metis
  note c = sr_portableD(4) [OF hd, unfolded r]
  let ?ci = "\<lambda>s. log_if (sr_cached M (?a + 8)) (Cache_inv ?a sizeof_ListMP_Attrs) s"
  let ?s1 = "log_if (b_armA B \<and> sr_cached M (?a + 8)) (Cache_inv ?a sizeof_ListMP_Attrs) (?ci s)"
  let ?obj' = "obj0\<lparr>lo_objType := ObjType_OPENDYNAMIC, lo_attrs := ?a, lo_regionId := ?rid,
      lo_cacheEnabled := sr_cached M (?a + 8), lo_cacheLineSize := cls, lo_gate := h\<rparr>"
  have "ListMP_openByAddr B M env ?a obj0 s = Ok (ListMP_S_SUCCESS, Some ?obj', ?ci ?s1)"
    using cls c stamp gate r
    by (simp add: ListMP_openByAddr_def ListMP_Instance_init_def ListMP_open_init_def Let_def
        ListMP_Params_init_def)
  moreover have "lmp_ring M ?obj' xs (?ci ?s1)"
    using ring r lmp_ring_parts(4,5) [OF ring] by (simp add: lmp_ring_def ListMP_head_def)
  ultimately show ?thesis by auto
qed

text \<open>Deleting a list takes its stamp away, so that it can no longer be opened.\<close>

lemma ListMP_delete_unopenable:
  assumes "created_dynamic (lo_objType obj)" and "lo_attrs obj \<noteq> NULL"
    and "ListMP_Instance_finalize M obj s = Ok (rel, s')"
    and "SharedRegion_isCacheEnabled M (SharedRegion_getId M (lo_attrs obj)) = Ok c"
  shows "\<exists>s''. ListMP_openByAddr B M env (lo_attrs obj) obj0 s' =
    Ok (ListMP_E_NOTFOUND, None, s'') \<and> lm_elem s'' = lm_elem s"
proof -
  have "la_status (lm_attrs s' (lo_attrs obj)) = 0 \<and> lm_elem s' = lm_elem s"
    using assms(1-3)
    by (auto simp: ListMP_Instance_finalize_def Let_def split: if_splits)
  then show ?thesis
    using assms(4) by (simp add: ListMP_openByAddr_def Let_def ListMP_CREATED_def)
qed

section \<open>The lists as a deque\<close>

text \<open>
  An element fits a list when it is portable and is not the list's own head. The state of the
  interpretation is the whole of the list memory.
\<close>

definition lmp_fit :: "SharedRegion_Module \<Rightarrow> ListMP_Object \<Rightarrow> ptr \<Rightarrow> bool" where
  "lmp_fit M obj e \<longleftrightarrow> sr_portable M e \<and> e \<noteq> ListMP_head obj"

definition lmp_repr ::
  "SharedRegion_Module \<Rightarrow> ListMP_Object \<Rightarrow> lmp_mem \<Rightarrow> ptr list \<Rightarrow> bool" where
  "lmp_repr M obj s xs \<longleftrightarrow> lmp_ring M obj xs s"

interpretation lmp: deque "lmp_repr M obj" "lmp_fit M obj" NULL ListMP_S_SUCCESS
  "ListMP_putTail B M obj" "ListMP_getHead B M obj"
  "ListMP_putHead B M obj" "ListMP_getTail B M obj"
  for B M obj
proof unfold_locales
  fix s xs e
  assume "lmp_repr M obj s xs" and "lmp_fit M obj e" and "e \<notin> set xs"
  then have *: "lmp_ring M obj xs s" "sr_portable M e" "e \<notin> set (ListMP_head obj # xs)"
    by (auto simp: lmp_repr_def lmp_fit_def)
  show "\<exists>s'. ListMP_putTail B M obj e s = Ok (ListMP_S_SUCCESS, s') \<and> lmp_repr M obj s' (xs @ [e])"
    using ListMP_putTail_ring [OF *] by (auto simp: lmp_repr_def)
  show "\<exists>s'. ListMP_putHead B M obj e s = Ok (ListMP_S_SUCCESS, s') \<and> lmp_repr M obj s' (e # xs)"
    using ListMP_putHead_ring [OF *] by (auto simp: lmp_repr_def)
next
  fix s xs x
  assume "lmp_repr M obj s (xs @ [x])"
  then show "\<exists>s'. ListMP_getTail B M obj s = Ok (x, s') \<and> lmp_repr M obj s' xs"
    using ListMP_getTail_snoc [of M obj xs x s B] by (auto simp: lmp_repr_def)
next
  fix s x xs
  assume "lmp_repr M obj s (x # xs)"
  then show "\<exists>s'. ListMP_getHead B M obj s = Ok (x, s') \<and> lmp_repr M obj s' xs"
    using ListMP_getHead_cons [of M obj x xs s B] by (auto simp: lmp_repr_def)
next
  fix s
  assume "lmp_repr M obj s []"
  then show "\<exists>s'. ListMP_getHead B M obj s = Ok (NULL, s') \<and> lmp_repr M obj s' []"
    and "\<exists>s'. ListMP_getTail B M obj s = Ok (NULL, s') \<and> lmp_repr M obj s' []"
    using ListMP_getHead_empty [of M obj s B] ListMP_getTail_empty [of M obj s B]
    by (auto simp: lmp_repr_def)
qed (auto simp: lmp_repr_def lmp_fit_def lmp_ring_def dring_def sr_portable_def)

end
