(* ===== verification/HeapBufMP.thy ===== *)
theory HeapBufMP
imports ListMP Heaps
begin

text \<open>
  The fixed-size block heap of \<open>ti/sdo/ipc/heaps/HeapBufMP.c\<close>: a pool of equal blocks in
  shared memory whose free ones are chained in a \<open>ListMP\<close> list. The theory has the
  operations, the pool invariant, and their effect on the sets of free and allocated blocks; the
  facts about the list it relies on are those of the \<open>queue\<close> contract.
\<close>

section \<open>State\<close>

record HeapBufMP_Attrs =
  ha_status :: u32
  ha_gateMPAddr :: srptr
  ha_bufPtr :: srptr
  ha_numFreeBlocks :: u32
  ha_minFreeBlocks :: u32
  ha_blockSize :: u32
  ha_align :: u32
  ha_numBlocks :: u32
  ha_exact :: u16

abbreviation sizeof_HeapBufMP_Attrs :: sizeT where "sizeof_HeapBufMP_Attrs \<equiv> 36"

definition HeapBufMP_CREATED :: u32 where
  "HeapBufMP_CREATED = 0x05251995"

text \<open>The free list's instance is \<open>None\<close> while its handle is \<open>NULL\<close>.\<close>

record HeapBufMP_Object =
  hb_attrs :: ptr
  hb_gate :: ptr
  hb_objType :: Ipc_ObjType
  hb_nsKey :: ptr
  hb_cacheEnabled :: bool
  hb_regionId :: u16
  hb_allocSize :: sizeT
  hb_buf :: ptr
  hb_freeList :: "ListMP_Object option"
  hb_align :: sizeT
  hb_numBlocks :: u32
  hb_blockSize :: sizeT
  hb_exact :: bool

record HeapBufMP_Params =
  hp_gate :: ptr
  hp_openFlag :: bool
  hp_sharedAddr :: ptr
  hp_name :: "string option"
  hp_regionId :: u16
  hp_align :: sizeT
  hp_numBlocks :: u32
  hp_blockSize :: sizeT
  hp_exact :: bool

text \<open>Shared memory: the list cells, and the heaps' attributes by address.\<close>

record hb_mem =
  hm_list :: lmp_mem
  hm_attrs :: "ptr \<Rightarrow> HeapBufMP_Attrs"

datatype HeapBufMP_status = HeapBufMP_S_SUCCESS | HeapBufMP_E_FAIL | HeapBufMP_E_NOTFOUND

datatype HeapBufMP_error = E_sizeTooLarge | E_exactFail | E_alignTooLarge | E_noBlocksLeft

record Memory_Stats =
  ms_totalSize :: sizeT
  ms_totalFreeSize :: sizeT
  ms_largestFreeSize :: sizeT

record HeapBufMP_ExtendedStats =
  xs_maxAllocatedBlocks :: u32
  xs_numAllocatedBlocks :: u32

definition hb_log :: "ipc_event \<Rightarrow> hb_mem \<Rightarrow> hb_mem" where
  "hb_log e m = m\<lparr>hm_list := log_ev e (hm_list m)\<rparr>"

definition hb_log_if :: "bool \<Rightarrow> ipc_event \<Rightarrow> hb_mem \<Rightarrow> hb_mem" where
  "hb_log_if c e m = (if c then hb_log e m else m)"

definition hb_set_attrs :: "ptr \<Rightarrow> HeapBufMP_Attrs \<Rightarrow> hb_mem \<Rightarrow> hb_mem" where
  "hb_set_attrs a v m = hb_log (Mem_write a) (m\<lparr>hm_attrs := (hm_attrs m)(a := v)\<rparr>)"

text \<open>A call on the free list; a call on a \<open>NULL\<close> handle goes wrong.\<close>

definition on_freeList ::
  "HeapBufMP_Object \<Rightarrow> (ListMP_Object \<Rightarrow> lmp_mem \<Rightarrow> ('r \<times> lmp_mem) res) \<Rightarrow> hb_mem \<Rightarrow>
   ('r \<times> hb_mem) res" where
  "on_freeList obj f m =
     (case hb_freeList obj of
        None \<Rightarrow> Err Bad_access
      | Some fl \<Rightarrow> res_bind (f fl (hm_list m)) (\<lambda>(r, l). Ok (r, m\<lparr>hm_list := l\<rparr>)))"

section \<open>Allocating and freeing\<close>

text \<open>
  \<open>track\<close> is the configuration constant \<open>trackAllocs\<close>. The second component of the answer
  is the error raised. The counters are decremented and incremented in 32 bits.
\<close>

definition HeapBufMP_alloc ::
  "build \<Rightarrow> SharedRegion_Module \<Rightarrow> bool \<Rightarrow> HeapBufMP_Object \<Rightarrow> sizeT \<Rightarrow> sizeT \<Rightarrow> hb_mem \<Rightarrow>
   (ptr \<times> HeapBufMP_error option \<times> hb_mem) res" where
  "HeapBufMP_alloc B M track obj sz align m =
     (if hb_blockSize obj < sz then Ok (NULL, Some E_sizeTooLarge, m)
      else if hb_exact obj \<and> sz \<noteq> hb_blockSize obj then Ok (NULL, Some E_exactFail, m)
      else if hb_align obj < align then Ok (NULL, Some E_alignTooLarge, m)
      else
        let m1 = hb_log (Gate_enter (hb_gate obj)) m in
        res_bind (on_freeList obj (ListMP_getHead B M) m1) (\<lambda>(block, m2).
        if block = NULL
        then Ok (NULL, Some E_noBlocksLeft, hb_log (Gate_leave (hb_gate obj)) m2)
        else
          let ci = Cache_inv (hb_attrs obj) sizeof_HeapBufMP_Attrs;
              cw = Cache_wbInv (hb_attrs obj) sizeof_HeapBufMP_Attrs;
              m3 = (if track then
                      let n1 = hb_log_if (hb_cacheEnabled obj) ci m2;
                          a = hm_attrs n1 (hb_attrs obj);
                          nf = ha_numFreeBlocks a - 1;
                          n2 = hb_set_attrs (hb_attrs obj)
                                 (a\<lparr>ha_numFreeBlocks := nf,
                                    ha_minFreeBlocks := (if nf < ha_minFreeBlocks a then nf
                                                         else ha_minFreeBlocks a)\<rparr>) n1 in
                      hb_log_if (hb_cacheEnabled obj) cw n2
                    else m2) in
          Ok (block, None, hb_log (Gate_leave (hb_gate obj)) m3)))"

definition HeapBufMP_free ::
  "build \<Rightarrow> SharedRegion_Module \<Rightarrow> bool \<Rightarrow> HeapBufMP_Object \<Rightarrow> ptr \<Rightarrow> sizeT \<Rightarrow> hb_mem \<Rightarrow>
   hb_mem res" where
  "HeapBufMP_free B M track obj block sz m =
     Assert_isTrue (sr_asserts M)
       (hb_buf obj \<le> block \<and> block < hb_buf obj + hb_blockSize obj * hb_numBlocks obj)
       A_invBlockFreed (
     if sr_asserts M \<and> hb_align obj = 0 then Err Div_by_zero else
     Assert_isTrue (sr_asserts M) (block mod hb_align obj = 0) A_badAlignment (
       let m1 = hb_log_if (hb_cacheEnabled obj)
                  (Cache_inv block (ha_blockSize (hm_attrs m (hb_attrs obj)))) m;
           m2 = hb_log (Gate_enter (hb_gate obj)) m1 in
       res_bind (on_freeList obj (\<lambda>fl. ListMP_putTail B M fl block) m2) (\<lambda>(st, m3).
       let m4 = (if track then
                   let n1 = hb_log_if (hb_cacheEnabled obj)
                              (Cache_inv (hb_attrs obj) sizeof_HeapBufMP_Attrs) m3;
                       a = hm_attrs n1 (hb_attrs obj);
                       n2 = hb_set_attrs (hb_attrs obj)
                              (a\<lparr>ha_numFreeBlocks := ha_numFreeBlocks a + 1\<rparr>) n1 in
                   hb_log_if (hb_cacheEnabled obj)
                     (Cache_wbInv (hb_attrs obj) sizeof_HeapBufMP_Attrs) n2
                 else m3) in
       Ok (hb_log (Gate_leave (hb_gate obj)) m4))))"

section \<open>Statistics\<close>

definition HeapBufMP_getStats ::
  "bool \<Rightarrow> HeapBufMP_Object \<Rightarrow> hb_mem \<Rightarrow> Memory_Stats \<times> hb_mem" where
  "HeapBufMP_getStats track obj m =
     (let blockSize = ha_blockSize (hm_attrs m (hb_attrs obj));
          total = blockSize * ha_numBlocks (hm_attrs m (hb_attrs obj)) in
      if track then
        let m1 = hb_log_if (hb_cacheEnabled obj)
                   (Cache_inv (hb_attrs obj) sizeof_HeapBufMP_Attrs)
                   (hb_log (Gate_enter (hb_gate obj)) m);
            nf = ha_numFreeBlocks (hm_attrs m1 (hb_attrs obj)) in
        (\<lparr>ms_totalSize = total, ms_totalFreeSize = blockSize * nf,
          ms_largestFreeSize = (if 0 < nf then blockSize else 0)\<rparr>,
         hb_log (Gate_leave (hb_gate obj)) m1)
      else (\<lparr>ms_totalSize = total, ms_totalFreeSize = 0, ms_largestFreeSize = 0\<rparr>, m))"

definition HeapBufMP_getExtendedStats ::
  "HeapBufMP_Object \<Rightarrow> hb_mem \<Rightarrow> HeapBufMP_ExtendedStats \<times> hb_mem" where
  "HeapBufMP_getExtendedStats obj m =
     (let m1 = hb_log_if (hb_cacheEnabled obj)
                 (Cache_inv (hb_attrs obj) sizeof_HeapBufMP_Attrs)
                 (hb_log (Gate_enter (hb_gate obj)) m);
          a = hm_attrs m1 (hb_attrs obj) in
      (\<lparr>xs_maxAllocatedBlocks =
          (if ha_minFreeBlocks a = - 1 then 0 else ha_numBlocks a - ha_minFreeBlocks a),
        xs_numAllocatedBlocks = ha_numBlocks a - ha_numFreeBlocks a\<rparr>,
       hb_log (Gate_leave (hb_gate obj)) m1))"

section \<open>Creating, opening and deleting heaps\<close>

definition HeapBufMP_sharedMemReq ::
  "SharedRegion_Module \<Rightarrow> HeapBufMP_Params \<Rightarrow> sizeT res" where
  "HeapBufMP_sharedMemReq M params =
     Assert_isTrue (sr_asserts M) (hp_blockSize params \<noteq> 0) A_invParam (
     Assert_isTrue (sr_asserts M) (hp_numBlocks params \<noteq> 0) A_invParam (
       let regionId = (if hp_sharedAddr params = NULL then hp_regionId params
                       else SharedRegion_getId M (hp_sharedAddr params)) in
       Assert_isTrue (sr_asserts M) (regionId \<noteq> SharedRegion_INVALIDREGIONID) A_internal (
       res_bind (min_align M regionId) (\<lambda>minAlign.
         let bufAlign = (if hp_align params < minAlign then minAlign else hp_align params);
             blockSize = Ipc_roundup (hp_blockSize params) bufAlign;
             memReq1 = Ipc_roundup sizeof_HeapBufMP_Attrs minAlign in
         res_bind (ListMP_sharedMemReq M NULL regionId) (\<lambda>listReq.
           let memReq2 = Ipc_roundup (memReq1 + listReq) bufAlign in
           Ok (memReq2 + blockSize * hp_numBlocks params))))))"

text \<open>Chaining the blocks up: \<open>n\<close> blocks from \<open>buf\<close> on.\<close>

fun HeapBufMP_chain ::
  "build \<Rightarrow> SharedRegion_Module \<Rightarrow> ListMP_Object \<Rightarrow> sizeT \<Rightarrow> nat \<Rightarrow> ptr \<Rightarrow> lmp_mem \<Rightarrow> lmp_mem res"
  where
  "HeapBufMP_chain B M fl blockSize 0 buf l = Ok l"
| "HeapBufMP_chain B M fl blockSize (Suc n) buf l =
     res_bind (ListMP_putTail B M fl buf l) (\<lambda>(st, l1).
       HeapBufMP_chain B M fl blockSize n (buf + blockSize) l1)"

text \<open>
  \<open>HeapBufMP_postInit\<close>; the flag of the answer says that an error was raised. A list that
  cannot be created ends the function without one.
\<close>

definition HeapBufMP_postInit ::
  "build \<Rightarrow> SharedRegion_Module \<Rightarrow> ipc_env \<Rightarrow> HeapBufMP_Object \<Rightarrow> ListMP_Object \<Rightarrow> hb_mem \<Rightarrow>
   (bool \<times> HeapBufMP_Object \<times> hb_mem) res" where
  "HeapBufMP_postInit B M env obj list0 m =
     res_bind (min_align M (hb_regionId obj)) (\<lambda>minAlign.
     res_bind
       (if hb_attrs obj = NULL then
          res_bind (HeapBufMP_sharedMemReq M
             \<lparr>hp_gate = NULL, hp_openFlag = False, hp_sharedAddr = NULL, hp_name = None,
              hp_regionId = hb_regionId obj, hp_align = hb_align obj,
              hp_numBlocks = hb_numBlocks obj, hp_blockSize = hb_blockSize obj,
              hp_exact = False\<rparr>) (\<lambda>req.
          res_bind (SharedRegion_getHeap M (hb_regionId obj)) (\<lambda>regionHeap.
          Assert_isTrue (sr_asserts M) (regionHeap \<noteq> NULL) A_noHeap (
          Ok (obj\<lparr>hb_allocSize := req, hb_attrs := env_alloc env regionHeap req minAlign\<rparr>))))
        else Ok obj) (\<lambda>obj1.
     if hb_attrs obj1 = NULL then Ok (True, obj1, m) else
     let at = hb_attrs obj1;
         m1 = hb_set_attrs at ((hm_attrs m at)\<lparr>ha_gateMPAddr := env_gateAddr env (hb_gate obj1)\<rparr>) m;
         listAddr = Ipc_roundup (at + sizeof_HeapBufMP_Attrs) minAlign in
     res_bind (ListMP_Instance_init B M env
                 (ListMP_Params_init\<lparr>lp_sharedAddr := listAddr, lp_gate := hb_gate obj1\<rparr>)
                 list0 (hm_list m1)) (\<lambda>(st, fl, l1).
     if st \<noteq> 0 then
       res_bind (ListMP_Instance_finalize M fl l1) (\<lambda>(rel, l2).
       Ok (False, obj1\<lparr>hb_freeList := None\<rparr>, m1\<lparr>hm_list := l2\<rparr>))
     else
       res_bind (ListMP_sharedMemReq M listAddr (lp_regionId ListMP_Params_init)) (\<lambda>listReq.
       let buf = Ipc_roundup (listAddr + listReq) (hb_align obj1);
           obj2 = obj1\<lparr>hb_freeList := Some fl, hb_buf := buf\<rparr> in
       res_bind (SharedRegion_getSRPtr M buf (hb_regionId obj2)) (\<lambda>bufPtr.
       let m2 = hb_set_attrs at
                  ((hm_attrs m1 at)\<lparr>ha_numFreeBlocks := hb_numBlocks obj2,
                    ha_minFreeBlocks := - 1, ha_blockSize := hb_blockSize obj2,
                    ha_align := hb_align obj2, ha_numBlocks := hb_numBlocks obj2,
                    ha_exact := (if hb_exact obj2 then 1 else 0), ha_bufPtr := bufPtr\<rparr>)
                  (m1\<lparr>hm_list := l1\<rparr>) in
       res_bind (HeapBufMP_chain B M fl (hb_blockSize obj2) (unat (hb_numBlocks obj2)) buf
                   (hm_list m2)) (\<lambda>l3.
       let m3 = hb_set_attrs at ((hm_attrs m2 at)\<lparr>ha_status := HeapBufMP_CREATED\<rparr>)
                  (m2\<lparr>hm_list := l3\<rparr>) in
       Ok (False, obj2,
           hb_log_if (hb_cacheEnabled obj2) (Cache_wbInv at sizeof_HeapBufMP_Attrs) m3)))))))"

definition HeapBufMP_open_init ::
  "build \<Rightarrow> SharedRegion_Module \<Rightarrow> ipc_env \<Rightarrow> HeapBufMP_Params \<Rightarrow> HeapBufMP_Object \<Rightarrow>
   ListMP_Object \<Rightarrow> hb_mem \<Rightarrow> (int \<times> HeapBufMP_Object \<times> hb_mem) res" where
  "HeapBufMP_open_init B M env params obj0 list0 m =
     (let at = hp_sharedAddr params;
          a = hm_attrs m at in
      res_bind (SharedRegion_getPtr M (ha_bufPtr a)) (\<lambda>buf.
      let rid = SharedRegion_getId M buf in
      res_bind (min_align M rid) (\<lambda>minAlign.
      res_bind (SharedRegion_isCacheEnabled M rid) (\<lambda>c.
      let obj = obj0\<lparr>hb_nsKey := NULL, hb_allocSize := 0, hb_attrs := at,
                     hb_align := ha_align a, hb_numBlocks := ha_numBlocks a,
                     hb_blockSize := ha_blockSize a, hb_exact := (ha_exact a \<noteq> 0),
                     hb_buf := buf, hb_regionId := rid, hb_cacheEnabled := c,
                     hb_objType := ObjType_OPENDYNAMIC\<rparr> in
      res_bind (SharedRegion_getPtr M (ha_gateMPAddr a)) (\<lambda>localAddr.
      if localAddr = NULL then Ok (4, obj, m)
      else (case env_gateOpen env localAddr of
        None \<Rightarrow> Ok (1, obj, m)
      | Some g \<Rightarrow>
          res_bind (ListMP_openByAddr B M env
                      (Ipc_roundup (at + sizeof_HeapBufMP_Attrs) minAlign) list0 (hm_list m))
            (\<lambda>(st, fl, l).
          let obj1 = obj\<lparr>hb_gate := g, hb_freeList := fl\<rparr> in
          Ok (if st \<noteq> ListMP_S_SUCCESS then 2 else 0, obj1, m\<lparr>hm_list := l\<rparr>))))))))"

text \<open>
  Creation: the \<open>align\<close> of the parameters is stored and then overwritten by the region's own
  alignment.
\<close>

definition HeapBufMP_Instance_init ::
  "build \<Rightarrow> SharedRegion_Module \<Rightarrow> ipc_env \<Rightarrow> HeapBufMP_Params \<Rightarrow> HeapBufMP_Object \<Rightarrow>
   ListMP_Object \<Rightarrow> hb_mem \<Rightarrow> (int \<times> HeapBufMP_Object \<times> hb_mem) res" where
  "HeapBufMP_Instance_init B M env params obj0 list0 m =
     Assert_isTrue (sr_asserts M) (hp_openFlag params \<or> hp_blockSize params \<noteq> 0) A_invParam (
     if hp_openFlag params then HeapBufMP_open_init B M env params obj0 list0 m
     else
       let obj1 = obj0\<lparr>hb_nsKey := NULL, hb_allocSize := 0,
                       hb_gate := (if hp_gate params \<noteq> NULL then hp_gate params
                                   else env_defaultGate env),
                       hb_exact := hp_exact params, hb_align := hp_align params,
                       hb_numBlocks := hp_numBlocks params\<rparr>;
           addr = hp_sharedAddr params in
       res_bind
         (if addr = NULL
          then Ok (0, obj1\<lparr>hb_objType := ObjType_CREATEDYNAMIC_REGION, hb_attrs := NULL,
                           hb_regionId := hp_regionId params\<rparr>)
          else
            let rid = SharedRegion_getId M addr in
            Assert_isTrue (sr_asserts M) (rid \<noteq> SharedRegion_INVALIDREGIONID)
              A_addrNotInSharedRegion (
            if rid = SharedRegion_INVALIDREGIONID then Ok (5, obj1\<lparr>hb_regionId := rid\<rparr>)
            else
            res_bind (SharedRegion_getCacheLineSize M rid) (\<lambda>cls.
            if cls = 0 then Err Div_by_zero else
            Assert_isTrue (sr_asserts M) (addr mod cls = 0) A_addrNotCacheAligned (
            if addr mod cls \<noteq> 0 then Ok (6, obj1\<lparr>hb_regionId := rid\<rparr>)
            else Ok (0, obj1\<lparr>hb_regionId := rid, hb_objType := ObjType_CREATEDYNAMIC,
                             hb_attrs := addr\<rparr>)))))
         (\<lambda>(st, obj2).
       if st \<noteq> 0 then Ok (st, obj2, m) else
       res_bind (SharedRegion_isCacheEnabled M (hb_regionId obj2)) (\<lambda>c.
       res_bind (min_align M (hb_regionId obj2)) (\<lambda>align.
       let obj3 = obj2\<lparr>hb_cacheEnabled := c, hb_align := align,
                       hb_blockSize := Ipc_roundup (hp_blockSize params) align\<rparr> in
       res_bind (HeapBufMP_postInit B M env obj3 list0 m) (\<lambda>(raised, obj4, m1).
       if raised then Ok (2, obj4, m1)
       else (case hp_name params of
          None \<Rightarrow> Ok (0, obj4, m1)
        | Some nm \<Rightarrow>
            res_bind (SharedRegion_getSRPtr M (hb_attrs obj4) (hb_regionId obj4)) (\<lambda>shmBase.
            let key = env_nsAdd env nm shmBase in
            Ok (if key = NULL then 3 else 0, obj4\<lparr>hb_nsKey := key\<rparr>, m1))))))))"

text \<open>\<open>HeapBufMP_Instance_finalize\<close>: what it gives back, as for the lists.\<close>

record HeapBufMP_release =
  rh_nsRemoved :: "ptr option"
  rh_listDeleted :: bool
  rh_listClosed :: bool
  rh_freed :: "(ptr \<times> ptr \<times> sizeT) option"
  rh_gateClosed :: "ptr option"

definition HeapBufMP_Instance_finalize ::
  "SharedRegion_Module \<Rightarrow> HeapBufMP_Object \<Rightarrow> hb_mem \<Rightarrow> (HeapBufMP_release \<times> hb_mem) res" where
  "HeapBufMP_Instance_finalize M obj m =
     (let at = hb_attrs obj in
      if created_dynamic (hb_objType obj) then
        let m1 = (if at \<noteq> NULL
                  then hb_log_if (hb_cacheEnabled obj) (Cache_wbInv at sizeof_HeapBufMP_Attrs)
                         (hb_set_attrs at ((hm_attrs m at)\<lparr>ha_status := 0\<rparr>) m)
                  else m) in
        res_bind (case hb_freeList obj of
                    None \<Rightarrow> Ok m1
                  | Some fl \<Rightarrow> res_bind (ListMP_Instance_finalize M fl (hm_list m1))
                                 (\<lambda>(rel, l). Ok (m1\<lparr>hm_list := l\<rparr>))) (\<lambda>m2.
        res_bind (if hb_objType obj = ObjType_CREATEDYNAMIC_REGION \<and> at \<noteq> NULL
                  then res_bind (SharedRegion_getHeap M (hb_regionId obj)) (\<lambda>h.
                         Ok (Some (h, at, hb_allocSize obj)))
                  else Ok None) (\<lambda>freed.
        Ok (\<lparr>rh_nsRemoved = (if hb_nsKey obj \<noteq> NULL then Some (hb_nsKey obj) else None),
             rh_listDeleted = (hb_freeList obj \<noteq> None), rh_listClosed = False,
             rh_freed = freed, rh_gateClosed = None\<rparr>, m2)))
      else
        res_bind (case hb_freeList obj of
                    None \<Rightarrow> Ok m
                  | Some fl \<Rightarrow> res_bind (ListMP_Instance_finalize M fl (hm_list m))
                                 (\<lambda>(rel, l). Ok (m\<lparr>hm_list := l\<rparr>))) (\<lambda>m1.
        Ok (\<lparr>rh_nsRemoved = None, rh_listDeleted = False, rh_listClosed = (hb_freeList obj \<noteq> None),
             rh_freed = None,
             rh_gateClosed = (if hb_gate obj \<noteq> NULL then Some (hb_gate obj) else None)\<rparr>, m1)))"

definition HeapBufMP_openByAddr ::
  "build \<Rightarrow> SharedRegion_Module \<Rightarrow> ipc_env \<Rightarrow> HeapBufMP_Params \<Rightarrow> ptr \<Rightarrow> HeapBufMP_Object \<Rightarrow>
   ListMP_Object \<Rightarrow> hb_mem \<Rightarrow> (HeapBufMP_status \<times> HeapBufMP_Object option \<times> hb_mem) res" where
  "HeapBufMP_openByAddr B M env defaults sharedAddr obj0 list0 m =
     res_bind (SharedRegion_isCacheEnabled M (SharedRegion_getId M sharedAddr)) (\<lambda>c.
     let m1 = hb_log_if c (Cache_inv sharedAddr sizeof_HeapBufMP_Attrs) m in
     if ha_status (hm_attrs m1 sharedAddr) \<noteq> HeapBufMP_CREATED
     then Ok (HeapBufMP_E_NOTFOUND, None, m1)
     else
       res_bind (HeapBufMP_Instance_init B M env
                   (defaults\<lparr>hp_openFlag := True, hp_sharedAddr := sharedAddr\<rparr>) obj0 list0 m1)
         (\<lambda>(st, obj, m2).
       if st = 0 then Ok (HeapBufMP_S_SUCCESS, Some obj, m2)
       else res_bind (HeapBufMP_Instance_finalize M obj m2) (\<lambda>(rel, m3).
              Ok (HeapBufMP_E_FAIL, None, m3))))"

section \<open>The pool\<close>

text \<open>The blocks of a heap, by their number.\<close>

definition hb_block :: "HeapBufMP_Object \<Rightarrow> nat \<Rightarrow> ptr" where
  "hb_block obj i = hb_buf obj + word_of_nat i * hb_blockSize obj"

definition hb_blocks :: "HeapBufMP_Object \<Rightarrow> ptr list" where
  "hb_blocks obj = map (hb_block obj) [0..<unat (hb_numBlocks obj)]"

text \<open>
  What creation establishes about a heap's geometry: blocks of a positive size that do not wrap
  around the address space, start aligned and stay aligned, and fit the free list.
\<close>

definition hb_geometry :: "SharedRegion_Module \<Rightarrow> HeapBufMP_Object \<Rightarrow> ListMP_Object \<Rightarrow> bool" where
  "hb_geometry M obj fl \<longleftrightarrow>
     0 < unat (hb_blockSize obj) \<and>
     unat (hb_buf obj) + unat (hb_numBlocks obj) * unat (hb_blockSize obj) < 2 ^ 32 \<and>
     0 < unat (hb_align obj) \<and>
     unat (hb_align obj) dvd unat (hb_buf obj) \<and>
     unat (hb_align obj) dvd unat (hb_blockSize obj) \<and>
     (\<forall>b \<in> set (hb_blocks obj). lmp_fit M fl b)"

lemma unat_mult_no_wrap:
  fixes a b :: "'a::len word"
  assumes "unat a * unat b < 2 ^ LENGTH('a)"
  shows "unat (a * b) = unat a * unat b"
  using assms by (simp add: unat_word_ariths)

lemma unat_hb_block:
  assumes geo: "hb_geometry M obj fl" and i: "i \<le> unat (hb_numBlocks obj)"
  shows "unat (hb_block obj i) = unat (hb_buf obj) + i * unat (hb_blockSize obj)"
proof -
  let ?n = "unat (hb_numBlocks obj)" and ?z = "unat (hb_blockSize obj)"
  have le: "i * ?z \<le> ?n * ?z" using i by simp
  have bound: "unat (hb_buf obj) + ?n * ?z < 2 ^ 32" using geo by (simp add: hb_geometry_def)
  have "i < 2 ^ 32" using i unat_below [of "hb_numBlocks obj"] by simp
  then have u: "unat (word_of_nat i :: u32) = i" by (simp add: unat_of_nat_small)
  have "i * ?z < 2 ^ 32" using le bound by linarith
  then have m: "unat (word_of_nat i * hb_blockSize obj) = i * ?z"
    using u by (subst unat_mult_no_wrap) simp_all
  have "unat (hb_buf obj) + i * ?z < 2 ^ 32" using le bound by linarith
  then show ?thesis
    unfolding hb_block_def using m by (subst unat_plus_no_wrap) simp_all
qed

lemma hb_blocks_distinct:
  assumes "hb_geometry M obj fl"
  shows "distinct (hb_blocks obj)"
proof -
  have "inj_on (hb_block obj) {0..<unat (hb_numBlocks obj)}"
  proof (rule inj_onI)
    fix i j
    assume ij: "i \<in> {0..<unat (hb_numBlocks obj)}" "j \<in> {0..<unat (hb_numBlocks obj)}"
      and eq: "hb_block obj i = hb_block obj j"
    from eq have "unat (hb_block obj i) = unat (hb_block obj j)" by simp
    then have "i * unat (hb_blockSize obj) = j * unat (hb_blockSize obj)"
      using ij unat_hb_block [OF assms, of i] unat_hb_block [OF assms, of j]
      by (metis add_left_cancel atLeastLessThan_iff less_imp_le)
    moreover have "0 < unat (hb_blockSize obj)" using assms unfolding hb_geometry_def by blast
    ultimately show "i = j" by simp
  qed
  then show ?thesis by (simp add: hb_blocks_def distinct_map)
qed

lemma hb_blockE:
  assumes geo: "hb_geometry M obj fl" and "b \<in> set (hb_blocks obj)"
  obtains i where "i < unat (hb_numBlocks obj)"
    and "unat b = unat (hb_buf obj) + i * unat (hb_blockSize obj)"
  using assms unat_hb_block [OF geo] by (force simp: hb_blocks_def)

text \<open>A block lies in the buffer, is aligned, and does not overlap another.\<close>

lemma hb_block_in_buffer:
  assumes geo: "hb_geometry M obj fl" and b: "b \<in> set (hb_blocks obj)"
  shows "hb_buf obj \<le> b" and "b < hb_buf obj + hb_blockSize obj * hb_numBlocks obj"
    and "b mod hb_align obj = 0"
    and "unat b + unat (hb_blockSize obj) \<le>
      unat (hb_buf obj) + unat (hb_numBlocks obj) * unat (hb_blockSize obj)"
proof -
  let ?z = "unat (hb_blockSize obj)" and ?n = "unat (hb_numBlocks obj)"
  obtain i where i: "i < ?n" "unat b = unat (hb_buf obj) + i * ?z"
    using hb_blockE [OF geo b] .
  have z: "0 < ?z" and bound: "unat (hb_buf obj) + ?n * ?z < 2 ^ 32"
    and al: "0 < unat (hb_align obj)" "unat (hb_align obj) dvd unat (hb_buf obj)"
      "unat (hb_align obj) dvd ?z"
    using geo by (simp_all add: hb_geometry_def)
  have "Suc i * ?z \<le> ?n * ?z" using i(1) by (intro mult_le_mono1) simp
  then show last: "unat b + ?z \<le> unat (hb_buf obj) + ?n * ?z" using i(2) by simp
  show "hb_buf obj \<le> b" using i(2) by (simp add: word_le_nat_alt)
  have "unat (hb_blockSize obj * hb_numBlocks obj) = ?n * ?z"
    using bound by (subst unat_mult_no_wrap) (simp_all add: mult.commute)
  then have "unat (hb_buf obj + hb_blockSize obj * hb_numBlocks obj) = unat (hb_buf obj) + ?n * ?z"
    using bound by (subst unat_plus_no_wrap) simp_all
  then show "b < hb_buf obj + hb_blockSize obj * hb_numBlocks obj"
    using last z by (simp add: word_less_nat_alt)
  have "unat (hb_align obj) dvd unat b" using i(2) al by simp
  then show "b mod hb_align obj = 0"
    by (simp add: word_eq_unat unat_mod_distrib mod_eq_0_iff_dvd)
qed

lemma hb_blocks_disjoint:
  assumes geo: "hb_geometry M obj fl" and b: "b \<in> set (hb_blocks obj)"
    and c: "c \<in> set (hb_blocks obj)" and ne: "b \<noteq> c"
  shows "unat b + unat (hb_blockSize obj) \<le> unat c \<or> unat c + unat (hb_blockSize obj) \<le> unat b"
proof -
  let ?z = "unat (hb_blockSize obj)"
  obtain i j where i: "unat b = unat (hb_buf obj) + i * ?z" and j: "unat c = unat (hb_buf obj) + j * ?z"
    using hb_blockE [OF geo b] hb_blockE [OF geo c] by metis
  have "i \<noteq> j" using ne i j by (auto simp: word_eq_unat)
  then consider "Suc i \<le> j" | "Suc j \<le> i" by linarith
  then show ?thesis
  proof cases
    case 1
    then have "Suc i * ?z \<le> j * ?z" by (rule mult_le_mono1)
    then show ?thesis using i j by simp
  next
    case 2
    then have "Suc j * ?z \<le> i * ?z" by (rule mult_le_mono1)
    then show ?thesis using i j by simp
  qed
qed

text \<open>
  The pool invariant: the free list holds \<open>xs\<close>, the client holds \<open>L\<close>, together they are the
  blocks; the counters, when kept, are the number of free blocks and its low-water mark.
\<close>

definition hb_inv ::
  "SharedRegion_Module \<Rightarrow> bool \<Rightarrow> HeapBufMP_Object \<Rightarrow> ListMP_Object \<Rightarrow> hb_mem \<Rightarrow>
   ptr list \<Rightarrow> ptr set \<Rightarrow> bool" where
  "hb_inv M track obj fl m xs L \<longleftrightarrow>
     hb_freeList obj = Some fl \<and> hb_geometry M obj fl \<and>
     lmp_repr M fl (hm_list m) xs \<and>
     set xs \<union> L = set (hb_blocks obj) \<and> set xs \<inter> L = {} \<and>
     (track \<longrightarrow> unat (ha_numFreeBlocks (hm_attrs m (hb_attrs obj))) = length xs)"

lemma hb_invD:
  assumes "hb_inv M track obj fl m xs L"
  shows "hb_freeList obj = Some fl" and "hb_geometry M obj fl"
    and "lmp_repr M fl (hm_list m) xs"
    and "set xs \<union> L = set (hb_blocks obj)" and "set xs \<inter> L = {}"
    and "track \<Longrightarrow> unat (ha_numFreeBlocks (hm_attrs m (hb_attrs obj))) = length xs"
    and "distinct xs"
  using assms lmp.repr_distinct by (auto simp: hb_inv_def)

lemma hb_inv_count:
  assumes "hb_inv M track obj fl m xs L"
  shows "length xs + card L = unat (hb_numBlocks obj)"
proof -
  note I = hb_invD [OF assms]
  have "finite L" using I(4) by (metis finite_Un List.finite_set)
  then have "card (set xs \<union> L) = length xs + card L"
    using I(5,7) by (simp add: card_Un_disjoint distinct_card)
  moreover have "card (set (hb_blocks obj)) = unat (hb_numBlocks obj)"
    using distinct_card [OF hb_blocks_distinct [OF I(2)]] by (simp add: hb_blocks_def)
  ultimately show ?thesis using I(4) by simp
qed

text \<open>Events leave lists and attributes as they are.\<close>

lemma lmp_repr_cong:
  "lm_elem s' = lm_elem s \<Longrightarrow> lmp_repr M fl s' xs = lmp_repr M fl s xs"
  by (simp add: lmp_repr_def lmp_ring_def)

lemma hb_log_after [simp]:
  "hm_attrs (hb_log e m) = hm_attrs m"
  "hm_attrs (hb_log_if c e m) = hm_attrs m"
  "hm_attrs (hb_set_attrs a v m) = (hm_attrs m)(a := v)"
  "lm_elem (hm_list (hb_log e m)) = lm_elem (hm_list m)"
  "lm_elem (hm_list (hb_log_if c e m)) = lm_elem (hm_list m)"
  "lm_elem (hm_list (hb_set_attrs a v m)) = lm_elem (hm_list m)"
  by (simp_all add: hb_log_def hb_log_if_def hb_set_attrs_def)

section \<open>What the operations do to the pool\<close>

definition hb_request_error :: "HeapBufMP_Object \<Rightarrow> sizeT \<Rightarrow> sizeT \<Rightarrow> HeapBufMP_error option" where
  "hb_request_error obj sz align =
     (if hb_blockSize obj < sz then Some E_sizeTooLarge
      else if hb_exact obj \<and> sz \<noteq> hb_blockSize obj then Some E_exactFail
      else if hb_align obj < align then Some E_alignTooLarge else None)"

lemma HeapBufMP_alloc_refused:
  assumes "hb_request_error obj sz align = Some e"
  shows "HeapBufMP_alloc B M track obj sz align m = Ok (NULL, Some e, m)"
  using assms by (auto simp: HeapBufMP_alloc_def hb_request_error_def split: if_splits)

lemma HeapBufMP_alloc_empty:
  assumes inv: "hb_inv M track obj fl m [] L" and req: "hb_request_error obj sz align = None"
  shows "\<exists>m'. HeapBufMP_alloc B M track obj sz align m = Ok (NULL, Some E_noBlocksLeft, m') \<and>
    hb_inv M track obj fl m' [] L \<and> hm_attrs m' = hm_attrs m"
proof -
  note I = hb_invD [OF inv]
  let ?m1 = "hb_log (Gate_enter (hb_gate obj)) m"
  have "lmp_repr M fl (hm_list ?m1) []" using I(3) by (simp cong: lmp_repr_cong)
  from lmp.get_empty [OF this, where B = B] obtain l
    where l: "ListMP_getHead B M fl (hm_list ?m1) = Ok (NULL, l)" "lmp_repr M fl l []" by auto
  let ?m' = "hb_log (Gate_leave (hb_gate obj)) (?m1\<lparr>hm_list := l\<rparr>)"
  have "HeapBufMP_alloc B M track obj sz align m = Ok (NULL, Some E_noBlocksLeft, ?m')"
    using req l(1) I(1)
    by (auto simp: HeapBufMP_alloc_def hb_request_error_def Let_def on_freeList_def split: if_splits)
  moreover have "hb_inv M track obj fl ?m' [] L"
    using inv l(2) by (simp add: hb_inv_def lmp_repr_def lmp_ring_def)
  ultimately show ?thesis by auto
qed

lemma HeapBufMP_alloc_block:
  assumes inv: "hb_inv M track obj fl m (x # xs) L" and req: "hb_request_error obj sz align = None"
  shows "\<exists>m'. HeapBufMP_alloc B M track obj sz align m = Ok (x, None, m') \<and>
    hb_inv M track obj fl m' xs (insert x L) \<and>
    (track \<longrightarrow> ha_minFreeBlocks (hm_attrs m' (hb_attrs obj)) =
       min (word_of_nat (length xs)) (ha_minFreeBlocks (hm_attrs m (hb_attrs obj)))) \<and>
    (\<forall>a. hm_attrs m' a = (hm_attrs m a)\<lparr>ha_numFreeBlocks := ha_numFreeBlocks (hm_attrs m' a),
       ha_minFreeBlocks := ha_minFreeBlocks (hm_attrs m' a)\<rparr>)"
proof -
  note I = hb_invD [OF inv]
  let ?m1 = "hb_log (Gate_enter (hb_gate obj)) m" and ?at = "hb_attrs obj"
  have "lmp_repr M fl (hm_list ?m1) (x # xs)" using I(3) by (simp cong: lmp_repr_cong)
  from lmp.get_first [OF this, where B = B] obtain l
    where l: "ListMP_getHead B M fl (hm_list ?m1) = Ok (x, l)" "lmp_repr M fl l xs" by auto
  have nn: "x \<noteq> NULL" using lmp.repr_fit [OF I(3), of x] lmp.nil_unfit by auto
  let ?a = "hm_attrs m ?at"
  have dec: "ha_numFreeBlocks ?a - 1 = word_of_nat (length xs)" if track
  proof -
    have "unat (ha_numFreeBlocks ?a) = Suc (length xs)" using I(6) that by simp
    then have "word_of_nat (unat (ha_numFreeBlocks ?a)) = (word_of_nat (Suc (length xs)) :: u32)"
      by simp
    then show ?thesis by simp
  qed
  have len: "unat (word_of_nat (length xs) :: u32) = length xs"
    using hb_inv_count [OF inv] unat_below [of "hb_numBlocks obj"] by (intro unat_of_nat_small) simp
  show ?thesis
    using req l I(1,2,4,5,7) nn dec len
    by (auto simp: HeapBufMP_alloc_def hb_request_error_def Let_def on_freeList_def hb_inv_def
        lmp_repr_def lmp_ring_def min_def not_less split: if_splits)
qed

lemma HeapBufMP_free_block:
  assumes inv: "hb_inv M track obj fl m xs L" and b: "b \<in> L"
  shows "\<exists>m'. HeapBufMP_free B M track obj b sz m = Ok m' \<and>
    hb_inv M track obj fl m' (xs @ [b]) (L - {b}) \<and>
    (\<forall>a. hm_attrs m' a = (hm_attrs m a)\<lparr>ha_numFreeBlocks := ha_numFreeBlocks (hm_attrs m' a)\<rparr>)"
proof -
  note I = hb_invD [OF inv]
  let ?at = "hb_attrs obj"
  let ?m1 = "hb_log (Gate_enter (hb_gate obj))
    (hb_log_if (hb_cacheEnabled obj) (Cache_inv b (ha_blockSize (hm_attrs m ?at))) m)"
  have blk: "b \<in> set (hb_blocks obj)" and new: "b \<notin> set xs" using b I(4,5) by auto
  have fit: "lmp_fit M fl b" and al: "hb_align obj \<noteq> 0"
    using I(2) blk by (auto simp: hb_geometry_def)
  note buf = hb_block_in_buffer [OF I(2) blk]
  have "lmp_repr M fl (hm_list ?m1) xs" using I(3) by (simp cong: lmp_repr_cong)
  from lmp.put_last [OF this fit new, where B = B] obtain l
    where l: "ListMP_putTail B M fl b (hm_list ?m1) = Ok (ListMP_S_SUCCESS, l)"
      "lmp_repr M fl l (xs @ [b])" by auto
  have len: "unat (ha_numFreeBlocks (hm_attrs m ?at) + 1) = Suc (length xs)" if track
  proof -
    have "0 < card L" using b I(4) by (auto simp: card_gt_0_iff intro: finite_subset)
    then have "Suc (length xs) \<le> unat (hb_numBlocks obj)" using hb_inv_count [OF inv] by linarith
    then have "unat (ha_numFreeBlocks (hm_attrs m ?at)) + unat (1::u32) < 2 ^ LENGTH(32)"
      using I(6) [OF that] unat_below [of "hb_numBlocks obj"] by simp
    then show ?thesis using I(6) [OF that] by (subst unat_plus_no_wrap) simp_all
  qed
  have sets: "insert b (set xs \<union> (L - {b})) = set (hb_blocks obj)" using b I(4) by auto
  show ?thesis
    using l I(1,2,5) al buf(1,2,3) new len sets
    by (auto simp: HeapBufMP_free_def Let_def on_freeList_def hb_inv_def
        lmp_repr_def lmp_ring_def Assert_isTrue_def)
qed

text \<open>The statistics are the sizes of the two sets.\<close>

lemma HeapBufMP_getStats_inv:
  assumes inv: "hb_inv M True obj fl m xs L"
    and at: "ha_blockSize (hm_attrs m (hb_attrs obj)) = hb_blockSize obj"
      "ha_numBlocks (hm_attrs m (hb_attrs obj)) = hb_numBlocks obj"
  shows "unat (ms_totalSize (fst (HeapBufMP_getStats True obj m))) =
      (length xs + card L) * unat (hb_blockSize obj)"
    and "unat (ms_totalFreeSize (fst (HeapBufMP_getStats True obj m))) =
      length xs * unat (hb_blockSize obj)"
    and "ms_largestFreeSize (fst (HeapBufMP_getStats True obj m)) =
      (if xs = [] then 0 else hb_blockSize obj)"
    and "unat (xs_numAllocatedBlocks (fst (HeapBufMP_getExtendedStats obj m))) = card L"
proof -
  note I = hb_invD [OF inv]
  let ?nf = "ha_numFreeBlocks (hm_attrs m (hb_attrs obj))" and ?z = "unat (hb_blockSize obj)"
  have nf: "unat ?nf = length xs" using I(6) by simp
  note cnt = hb_inv_count [OF inv]
  have bound: "unat (hb_buf obj) + unat (hb_numBlocks obj) * ?z < 2 ^ 32"
    using I(2) unfolding hb_geometry_def by blast
  have "unat (hb_numBlocks obj) * ?z < 2 ^ 32" using bound by linarith
  then have tot: "unat (hb_blockSize obj * hb_numBlocks obj) = unat (hb_numBlocks obj) * ?z"
    by (subst unat_mult_no_wrap) (simp_all add: mult.commute)
  have "length xs * ?z \<le> unat (hb_numBlocks obj) * ?z" using cnt by simp
  then have "length xs * ?z < 2 ^ 32" using bound by linarith
  then have free: "unat (hb_blockSize obj * ?nf) = length xs * ?z"
    using nf by (subst unat_mult_no_wrap) (simp_all add: mult.commute)
  show "unat (ms_totalSize (fst (HeapBufMP_getStats True obj m))) = (length xs + card L) * ?z"
    using tot cnt at by (simp add: HeapBufMP_getStats_def Let_def)
  show "unat (ms_totalFreeSize (fst (HeapBufMP_getStats True obj m))) = length xs * ?z"
    using free at by (simp add: HeapBufMP_getStats_def Let_def)
  show "ms_largestFreeSize (fst (HeapBufMP_getStats True obj m)) =
      (if xs = [] then 0 else hb_blockSize obj)"
    using nf at by (auto simp: HeapBufMP_getStats_def Let_def word_less_nat_alt)
  have "unat (hb_numBlocks obj - ?nf) = card L"
    using nf cnt by (subst unat_minus_le) (simp_all add: word_le_nat_alt)
  then show "unat (xs_numAllocatedBlocks (fst (HeapBufMP_getExtendedStats obj m))) = card L"
    using at by (simp add: HeapBufMP_getExtendedStats_def Let_def)
qed

section \<open>Building the pool\<close>

lemma HeapBufMP_chain_fills:
  assumes "lmp_repr M fl l xs"
    and "\<And>i. i < n \<Longrightarrow> lmp_fit M fl (buf + word_of_nat i * z)"
    and "distinct (xs @ map (\<lambda>i. buf + word_of_nat i * z) [0..<n])"
  shows "\<exists>l'. HeapBufMP_chain B M fl z n buf l = Ok l' \<and>
    lmp_repr M fl l' (xs @ map (\<lambda>i. buf + word_of_nat i * z) [0..<n])"
  using assms
proof (induction n arbitrary: buf l xs)
  case 0
  then show ?case by simp
next
  case (Suc n)
  let ?f = "\<lambda>i. buf + word_of_nat i * z" and ?g = "\<lambda>i. buf + z + word_of_nat i * z"
  have shift: "?g i = ?f (Suc i)" for i by (simp add: algebra_simps)
  have "map ?g [0..<n] = map ?f [Suc 0..<Suc n]"
    by (simp add: map_Suc_upt [symmetric] shift comp_def del: upt_Suc)
  then have split: "map ?f [0..<Suc n] = buf # map ?g [0..<n]"
    by (simp only: upt_conv_Cons [OF zero_less_Suc]) simp
  have fit: "lmp_fit M fl buf" and new: "buf \<notin> set xs"
    using Suc.prems(2) [of 0] Suc.prems(3) unfolding split by auto
  obtain l1 where l1: "ListMP_putTail B M fl buf l = Ok (ListMP_S_SUCCESS, l1)"
    "lmp_repr M fl l1 (xs @ [buf])"
    using lmp.put_last [OF Suc.prems(1) fit new, where B = B] by auto
  have "distinct ((xs @ [buf]) @ map ?g [0..<n])"
    using Suc.prems(3) unfolding split by simp
  moreover have "lmp_fit M fl (?g i)" if "i < n" for i
    unfolding shift using that by (intro Suc.prems(2)) simp
  ultimately obtain l' where "HeapBufMP_chain B M fl z n (buf + z) l1 = Ok l'"
    "lmp_repr M fl l' ((xs @ [buf]) @ map ?g [0..<n])"
    using Suc.IH [of l1 "xs @ [buf]" "buf + z"] l1(2) by blast
  with l1(1) show ?case unfolding split by simp
qed

lemma Params_init_region: "lp_regionId ListMP_Params_init = 0"
  by (simp add: ListMP_Params_init_def)

lemma HeapBufMP_postInit_pool:
  assumes at: "hb_attrs obj \<noteq> NULL" and al: "min_align M (hb_regionId obj) = Ok al"
    and la: "la = Ipc_roundup (hb_attrs obj + sizeof_HeapBufMP_Attrs) al" "lmp_site M la"
    and req: "ListMP_sharedMemReq M la 0 = Ok req"
    and buf: "buf = Ipc_roundup (la + req) (hb_align obj)"
      "SharedRegion_getSRPtr M buf (hb_regionId obj) = Ok bp"
    and geo: "\<And>fl. lo_attrs fl = la \<Longrightarrow> hb_geometry M (obj\<lparr>hb_buf := buf\<rparr>) fl"
  shows "\<exists>fl m'. HeapBufMP_postInit B M env obj list0 m =
      Ok (False, obj\<lparr>hb_freeList := Some fl, hb_buf := buf\<rparr>, m') \<and>
    hb_inv M track (obj\<lparr>hb_freeList := Some fl, hb_buf := buf\<rparr>) fl m'
      (hb_blocks (obj\<lparr>hb_buf := buf\<rparr>)) {} \<and>
    hm_attrs m' (hb_attrs obj) =
      \<lparr>ha_status = HeapBufMP_CREATED, ha_gateMPAddr = env_gateAddr env (hb_gate obj),
       ha_bufPtr = bp, ha_numFreeBlocks = hb_numBlocks obj, ha_minFreeBlocks = - 1,
       ha_blockSize = hb_blockSize obj, ha_align = hb_align obj, ha_numBlocks = hb_numBlocks obj,
       ha_exact = (if hb_exact obj then 1 else 0)\<rparr>"
proof -
  let ?at = "hb_attrs obj" and ?n = "unat (hb_numBlocks obj)" and ?z = "hb_blockSize obj"
  let ?m1 = "hb_set_attrs ?at ((hm_attrs m ?at)\<lparr>ha_gateMPAddr := env_gateAddr env (hb_gate obj)\<rparr>) m"
  let ?p = "ListMP_Params_init\<lparr>lp_sharedAddr := la, lp_gate := hb_gate obj\<rparr>"
  obtain fl l1 where fl: "ListMP_Instance_init B M env ?p list0 (hm_list ?m1) = Ok (0, fl, l1)"
    "lmp_ring M fl [] l1" "lo_attrs fl = la"
    using ListMP_create_ring [of ?p la M B env list0 "hm_list ?m1"] la(2)
    by (auto simp: ListMP_Params_init_def)
  let ?obj = "obj\<lparr>hb_freeList := Some fl, hb_buf := buf\<rparr>"
  have g: "hb_geometry M ?obj fl" using geo [OF fl(3)] by (simp add: hb_geometry_def hb_blocks_def hb_block_def)
  define m2 where "m2 = hb_set_attrs ?at
                  ((hm_attrs ?m1 ?at)\<lparr>ha_numFreeBlocks := hb_numBlocks obj,
                    ha_minFreeBlocks := - 1, ha_blockSize := ?z,
                    ha_align := hb_align obj, ha_numBlocks := hb_numBlocks obj,
                    ha_exact := (if hb_exact obj then 1 else 0), ha_bufPtr := bp\<rparr>)
                  (?m1\<lparr>hm_list := l1\<rparr>)"
  have blocks: "hb_blocks ?obj = map (\<lambda>i. buf + word_of_nat i * ?z) [0..<?n]"
    by (simp add: hb_blocks_def hb_block_def)
  have "lmp_repr M fl (hm_list m2) []"
    using fl(2) by (simp add: m2_def lmp_repr_def lmp_ring_def)
  moreover have "lmp_fit M fl (buf + word_of_nat i * ?z)" if "i < ?n" for i
    using g that unfolding hb_geometry_def blocks by auto
  ultimately obtain l3 where l3: "HeapBufMP_chain B M fl ?z ?n buf (hm_list m2) = Ok l3"
    "lmp_repr M fl l3 (hb_blocks ?obj)"
    using HeapBufMP_chain_fills [of M fl "hm_list m2" "[]" ?n buf ?z B]
      hb_blocks_distinct [OF g] unfolding blocks by auto
  let ?m3 = "hb_set_attrs ?at ((hm_attrs m2 ?at)\<lparr>ha_status := HeapBufMP_CREATED\<rparr>)
                  (m2\<lparr>hm_list := l3\<rparr>)"
  let ?m4 = "hb_log_if (hb_cacheEnabled obj) (Cache_wbInv ?at sizeof_HeapBufMP_Attrs) ?m3"
  have run: "HeapBufMP_postInit B M env obj list0 m = Ok (False, ?obj, ?m4)"
    using at al fl(1) req buf l3(1)
    by (simp add: HeapBufMP_postInit_def Let_def la(1) [symmetric] m2_def Params_init_region
        split del: if_split)
  have attrs: "hm_attrs ?m4 ?at =
      \<lparr>ha_status = HeapBufMP_CREATED, ha_gateMPAddr = env_gateAddr env (hb_gate obj),
       ha_bufPtr = bp, ha_numFreeBlocks = hb_numBlocks obj, ha_minFreeBlocks = - 1,
       ha_blockSize = ?z, ha_align = hb_align obj, ha_numBlocks = hb_numBlocks obj,
       ha_exact = (if hb_exact obj then 1 else 0)\<rparr>"
    by (simp add: m2_def)
  have "length (hb_blocks ?obj) = ?n" by (simp add: hb_blocks_def)
  then have "hb_inv M track ?obj fl ?m4 (hb_blocks ?obj) {}"
    using g l3(2) attrs by (simp add: hb_inv_def lmp_repr_def lmp_ring_def)
  moreover have "hb_blocks ?obj = hb_blocks (obj\<lparr>hb_buf := buf\<rparr>)"
    unfolding blocks by (simp add: hb_blocks_def hb_block_def)
  ultimately have "hb_inv M track ?obj fl ?m4 (hb_blocks (obj\<lparr>hb_buf := buf\<rparr>)) {}" by simp
  with run attrs show ?thesis by blast
qed

section \<open>The pool and its clients\<close>

text \<open>The heap's two calls in the form of the contract: the error of an allocation is dropped.\<close>

definition hb_alloc ::
  "build \<Rightarrow> SharedRegion_Module \<Rightarrow> bool \<Rightarrow> HeapBufMP_Object \<Rightarrow> sizeT \<Rightarrow> sizeT \<Rightarrow> hb_mem \<Rightarrow>
   (ptr \<times> hb_mem) res" where
  "hb_alloc B M track obj n al m =
     res_bind (HeapBufMP_alloc B M track obj n al m) (\<lambda>(p, e, m'). Ok (p, m'))"

definition hb_live ::
  "SharedRegion_Module \<Rightarrow> bool \<Rightarrow> HeapBufMP_Object \<Rightarrow> ListMP_Object \<Rightarrow> hb_mem \<Rightarrow>
   (ptr \<times> sizeT) set \<Rightarrow> bool" where
  "hb_live M track obj fl m L \<longleftrightarrow>
     (\<exists>a<32. hb_align obj = 2 ^ a) \<and> inj_on fst L \<and> (\<forall>b \<in> L. snd b \<le> hb_blockSize obj) \<and>
     (\<exists>xs. hb_inv M track obj fl m xs (fst ` L))"

definition hb_req :: "sizeT \<Rightarrow> sizeT \<Rightarrow> bool" where
  "hb_req n al \<longleftrightarrow> (\<exists>j<32. al = 2 ^ j)"

lemma hb_block_aligned:
  assumes geo: "hb_geometry M obj fl" and b: "b \<in> set (hb_blocks obj)"
    and a: "hb_align obj = 2 ^ a" "a < 32" and j: "al = 2 ^ j" "j < 32" and le: "al \<le> hb_align obj"
  shows "unat b mod unat al = 0"
proof -
  have "(2::nat) ^ j \<le> 2 ^ a"
    using le a j unat_pow2 [where 'a = 32] by (simp add: word_le_nat_alt)
  then have ja: "j \<le> a" by simp
  have "unat b mod unat (hb_align obj) = 0"
    using hb_block_in_buffer(3) [OF geo b] by (simp add: word_eq_unat unat_mod_distrib)
  then have "2 ^ a dvd unat b" using a unat_pow2 [where 'a = 32, of a] by (simp add: mod_eq_0_iff_dvd)
  then have "2 ^ j dvd unat b" using ja by (meson dvd_trans le_imp_power_dvd)
  then show ?thesis using j unat_pow2 [where 'a = 32, of j] by (simp add: mod_eq_0_iff_dvd)
qed

lemma hb_live_alloc:
  assumes live: "hb_live M track obj fl m L" and req: "hb_req n al"
  shows "\<exists>p m'. hb_alloc B M track obj n al m = Ok (p, m') \<and>
    (p = NULL \<and> hb_live M track obj fl m' L \<or>
     p \<noteq> NULL \<and> unat p mod unat al = 0 \<and> p \<notin> fst ` L \<and>
       hb_live M track obj fl m' (insert (p, n) L))"
proof -
  obtain xs a where inv: "hb_inv M track obj fl m xs (fst ` L)" and a: "hb_align obj = 2 ^ a" "a < 32"
    and L: "inj_on fst L" "\<forall>b \<in> L. snd b \<le> hb_blockSize obj"
    using live by (auto simp: hb_live_def)
  obtain j where j: "al = 2 ^ j" "j < 32" using req by (auto simp: hb_req_def)
  show ?thesis
  proof (cases "hb_request_error obj n al")
    case (Some e)
    then show ?thesis
      using HeapBufMP_alloc_refused [OF Some, of B M track m] live by (simp add: hb_alloc_def)
  next
    case None
    note I = hb_invD [OF inv]
    have le: "n \<le> hb_blockSize obj" "al \<le> hb_align obj"
      using None by (auto simp: hb_request_error_def not_less split: if_splits)
    show ?thesis
    proof (cases xs)
      case Nil
      obtain m' where "HeapBufMP_alloc B M track obj n al m = Ok (NULL, Some E_noBlocksLeft, m')"
        "hb_inv M track obj fl m' [] (fst ` L)"
        using HeapBufMP_alloc_empty [OF inv [unfolded Nil] None] by blast
      then show ?thesis using a L by (auto simp: hb_alloc_def hb_live_def)
    next
      case (Cons x ys)
      obtain m' where m': "HeapBufMP_alloc B M track obj n al m = Ok (x, None, m')"
        "hb_inv M track obj fl m' ys (insert x (fst ` L))"
        using HeapBufMP_alloc_block [OF inv [unfolded Cons] None] by blast
      have x: "x \<in> set (hb_blocks obj)" "x \<notin> fst ` L" using I(4,5) Cons by auto
      have "lmp_fit M fl x" using I(2) x(1) unfolding hb_geometry_def by blast
      then have "x \<noteq> NULL" using lmp.nil_unfit by auto
      moreover have "unat x mod unat al = 0"
        by (rule hb_block_aligned [OF I(2) x(1) a j le(2)])
      moreover have "hb_live M track obj fl m' (insert (x, n) L)"
        using m'(2) a L x(2) le(1) by (auto simp: hb_live_def inj_on_def)
      ultimately show ?thesis using m'(1) x(2) by (simp add: hb_alloc_def)
    qed
  qed
qed

lemma hb_live_free:
  assumes live: "hb_live M track obj fl m L" and b: "(p, n) \<in> L"
  shows "\<exists>m'. HeapBufMP_free B M track obj p n m = Ok m' \<and> hb_live M track obj fl m' (L - {(p, n)})"
proof -
  obtain xs where inv: "hb_inv M track obj fl m xs (fst ` L)" and inj: "inj_on fst L"
    and rest: "\<exists>a<32. hb_align obj = 2 ^ a" "\<forall>b \<in> L. snd b \<le> hb_blockSize obj"
    using live by (auto simp: hb_live_def)
  have "p \<in> fst ` L" using b by force
  from HeapBufMP_free_block [OF inv this] obtain m' where
    m': "HeapBufMP_free B M track obj p n m = Ok m'" "hb_inv M track obj fl m' (xs @ [p]) (fst ` L - {p})"
    by blast
  have "fst ` L - {p} = fst ` (L - {(p, n)})"
    using inj_on_image_set_diff [OF inj, of L "{(p, n)}"] b by simp
  then have "hb_live M track obj fl m' (L - {(p, n)})"
    using m'(2) rest inj_on_diff [OF inj] unfolding hb_live_def by auto
  then show ?thesis using m'(1) by blast
qed

lemma hb_live_apart:
  assumes live: "hb_live M track obj fl m L" and bc: "b \<in> L" "c \<in> L" "b \<noteq> c"
  shows "fst b \<noteq> fst c \<and> block_bytes b \<inter> block_bytes c = {}"
proof -
  obtain xs where inv: "hb_inv M track obj fl m xs (fst ` L)" and inj: "inj_on fst L"
    and sz: "\<forall>b \<in> L. snd b \<le> hb_blockSize obj"
    using live by (auto simp: hb_live_def)
  note I = hb_invD [OF inv]
  have ne: "fst b \<noteq> fst c" using inj bc by (auto simp: inj_on_def)
  have "fst b \<in> set (hb_blocks obj)" "fst c \<in> set (hb_blocks obj)" using I(4) bc by blast+
  from hb_blocks_disjoint [OF I(2) this ne]
  have "unat (fst b) + unat (hb_blockSize obj) \<le> unat (fst c) \<or>
      unat (fst c) + unat (hb_blockSize obj) \<le> unat (fst b)" .
  moreover have "unat (snd b) \<le> unat (hb_blockSize obj)" "unat (snd c) \<le> unat (hb_blockSize obj)"
    using sz bc by (auto simp: word_le_nat_alt)
  ultimately have "block_bytes b \<inter> block_bytes c = {}" by (auto simp: block_bytes_def)
  then show ?thesis using ne by blast
qed

interpretation hb: block_heap "hb_live M track obj fl" hb_req
  "hb_alloc B M track obj" "HeapBufMP_free B M track obj"
  for B M track obj fl
proof unfold_locales
  fix m L n al
  assume "hb_live M track obj fl m L" and "hb_req n al"
  then show "\<exists>p s'. hb_alloc B M track obj n al m = Ok (p, s') \<and>
      (p = NULL \<and> hb_live M track obj fl s' L \<or>
       p \<noteq> NULL \<and> unat p mod unat al = 0 \<and> p \<notin> fst ` L \<and>
         hb_live M track obj fl s' (insert (p, n) L))"
    by (rule hb_live_alloc)
next
  fix m L p n
  assume "hb_live M track obj fl m L" and "(p, n) \<in> L"
  then show "\<exists>s'. HeapBufMP_free B M track obj p n m = Ok s' \<and>
      hb_live M track obj fl s' (L - {(p, n)})"
    by (rule hb_live_free)
next
  fix m L b c
  assume "hb_live M track obj fl m L" and "b \<in> L" and "c \<in> L" and "b \<noteq> c"
  then show "fst b \<noteq> fst c \<and> block_bytes b \<inter> block_bytes c = {}"
    by (rule hb_live_apart)
qed

end
