(* ===== verification/GatePeterson.thy ===== *)
theory GatePeterson
imports SharedRegion
begin

text \<open>
  The two-processor gate of \<open>ti/sdo/ipc/gates/GatePeterson.c\<close>: how an instance is laid out
  and who takes which side, and the protocol of \<open>enter\<close> and \<open>leave\<close> as a step relation of
  two processors over shared memory with a cache in front of it on each side.
\<close>

section \<open>Instances\<close>

record GatePeterson_Attrs =
  ga_creatorProcId :: u16
  ga_openerProcId :: u16

record GatePeterson_Object =
  gp_attrs :: ptr
  gp_flag0 :: ptr
  gp_flag1 :: ptr
  gp_turn :: ptr
  gp_selfId :: u16
  gp_otherId :: u16
  gp_nested :: u32
  gp_objType :: Ipc_ObjType
  gp_cacheEnabled :: bool
  gp_cacheLineSize :: sizeT

definition MultiProc_INVALIDID :: u16 where
  "MultiProc_INVALIDID = 0xFFFF"

abbreviation sizeof_GatePeterson_Attrs :: sizeT where "sizeof_GatePeterson_Attrs \<equiv> 4"

text \<open>Where the flags and the turn lie: one cache line each, or packed behind the attributes.\<close>

definition GatePeterson_layout :: "ptr \<Rightarrow> sizeT \<Rightarrow> GatePeterson_Object \<Rightarrow> GatePeterson_Object" where
  "GatePeterson_layout addr cls obj =
     (if sizeof_GatePeterson_Attrs < cls
      then obj\<lparr>gp_attrs := addr, gp_flag0 := addr + cls, gp_flag1 := addr + cls + cls,
               gp_turn := addr + cls + cls + cls\<rparr>
      else obj\<lparr>gp_attrs := addr, gp_flag0 := addr + sizeof_GatePeterson_Attrs,
               gp_flag1 := addr + sizeof_GatePeterson_Attrs + 2,
               gp_turn := addr + sizeof_GatePeterson_Attrs + 2 + 2\<rparr>)"

text \<open>
  \<open>GatePeterson_Instance_init\<close> on processor \<open>self\<close>, over the gate's shared attributes.
  The creator takes side 0; of the others the first to open takes side 1, and the flag of the
  answer tells that the gate is open on yet another processor. The third component is the
  attributes as written.
\<close>

definition GatePeterson_Instance_init ::
  "SharedRegion_Module \<Rightarrow> nat \<Rightarrow> u16 \<Rightarrow> bool \<Rightarrow> ptr \<Rightarrow> u16 \<Rightarrow> GatePeterson_Object \<Rightarrow>
   GatePeterson_Attrs \<Rightarrow> (bool \<times> GatePeterson_Object \<times> GatePeterson_Attrs) res" where
  "GatePeterson_Instance_init M numInstances self openFlag addr rid obj0 attrs =
     Assert_isTrue (sr_asserts M) (addr \<noteq> NULL) A_invParam (
     Assert_isTrue (sr_asserts M) (numInstances \<noteq> 0) A_invParam (
     res_bind (SharedRegion_isCacheEnabled M rid) (\<lambda>c.
     res_bind (SharedRegion_getCacheLineSize M rid) (\<lambda>cls.
     let obj = (GatePeterson_layout addr cls obj0)
                 \<lparr>gp_cacheEnabled := c, gp_cacheLineSize := cls, gp_nested := 0\<rparr> in
     if \<not> openFlag then
       Ok (False, obj\<lparr>gp_selfId := 0, gp_otherId := 1, gp_objType := ObjType_CREATEDYNAMIC\<rparr>,
           \<lparr>ga_creatorProcId = self, ga_openerProcId = MultiProc_INVALIDID\<rparr>)
     else
       let obj1 = obj\<lparr>gp_objType := ObjType_OPENDYNAMIC\<rparr> in
       if ga_creatorProcId attrs = self
       then Ok (False, obj1\<lparr>gp_selfId := 0, gp_otherId := 1\<rparr>, attrs)
       else
         let obj2 = obj1\<lparr>gp_selfId := 1, gp_otherId := 0\<rparr> in
         if ga_openerProcId attrs = MultiProc_INVALIDID
         then Ok (False, obj2, attrs\<lparr>ga_openerProcId := self\<rparr>)
         else Ok (ga_openerProcId attrs \<noteq> self, obj2, attrs)))))"

text \<open>
  \<open>GatePeterson_Instance_finalize\<close>: every opened instance, the creator's own too, takes the
  opener out of the attributes.
\<close>

definition GatePeterson_Instance_finalize ::
  "int \<Rightarrow> GatePeterson_Object \<Rightarrow> GatePeterson_Attrs \<Rightarrow> GatePeterson_Attrs" where
  "GatePeterson_Instance_finalize status obj attrs =
     (if status = 0 \<and> gp_objType obj = ObjType_OPENDYNAMIC
      then attrs\<lparr>ga_openerProcId := MultiProc_INVALIDID\<rparr>
      else attrs)"

definition GatePeterson_sharedMemReq :: "SharedRegion_Module \<Rightarrow> u16 \<Rightarrow> sizeT res" where
  "GatePeterson_sharedMemReq M rid =
     res_bind (SharedRegion_getCacheLineSize M rid) (\<lambda>cls.
       Ok (if sizeof_GatePeterson_Attrs \<le> cls then 4 * cls
           else sizeof_GatePeterson_Attrs + 2 * 3))"

datatype gate_quality = Q_BLOCKING | Q_PREEMPTING | Q_OTHER

definition GatePeterson_query :: "gate_quality \<Rightarrow> bool" where
  "GatePeterson_query q = (case q of Q_BLOCKING \<Rightarrow> False | Q_PREEMPTING \<Rightarrow> True | Q_OTHER \<Rightarrow> False)"

section \<open>Shared memory behind caches\<close>

text \<open>The two sides, 0 and 1, and the shared variables.\<close>

datatype side = Side0 | Side1

fun other :: "side \<Rightarrow> side" where
  "other Side0 = Side1"
| "other Side1 = Side0"

lemma other_simps [simp]: "other (other p) = p" "other p \<noteq> p" "p \<noteq> other p"
  by (cases p; simp)+

lemma side_cases: "q = p \<or> q = other p"
  by (cases p; cases q) auto

fun side_id :: "side \<Rightarrow> u16" where
  "side_id Side0 = 0"
| "side_id Side1 = 1"

lemma side_id_eq [simp]: "side_id p = side_id q \<longleftrightarrow> p = q"
  by (cases p; cases q) auto

datatype gp_var = Flag side | Turn

definition GatePeterson_FREE :: u16 where "GatePeterson_FREE = 0"
definition GatePeterson_BUSY :: u16 where "GatePeterson_BUSY = 1"

lemma BUSY_FREE [simp]:
  "GatePeterson_BUSY \<noteq> GatePeterson_FREE" "GatePeterson_FREE \<noteq> GatePeterson_BUSY"
  by (simp_all add: GatePeterson_FREE_def GatePeterson_BUSY_def)

text \<open>The steps of \<open>enter\<close> and \<open>leave\<close> a processor can be at.\<close>

datatype gp_pc =
    Outside        \<comment> \<open>not in the gate\<close>
  | Flag_written   \<comment> \<open>\<open>*flag[selfId] = BUSY\<close> done\<close>
  | Flag_flushed   \<comment> \<open>its cache line written back\<close>
  | Turn_written   \<comment> \<open>\<open>*turn = otherId\<close> done\<close>
  | Turn_flushed   \<comment> \<open>its cache line written back\<close>
  | Test_flag      \<comment> \<open>other flag invalidated; at the first test of the loop\<close>
  | Test_turn      \<comment> \<open>other flag read as \<open>BUSY\<close>; at the second test\<close>
  | Spin_flag      \<comment> \<open>in the loop, before invalidating the other flag\<close>
  | Spin_turn      \<comment> \<open>in the loop, before invalidating the turn\<close>
  | Inside         \<comment> \<open>\<open>enter\<close> has returned\<close>
  | Flag_cleared   \<comment> \<open>\<open>*flag[selfId] = FREE\<close> done\<close>

record gp_state =
  gs_mem :: "gp_var \<Rightarrow> u16"
  gs_cache :: "side \<Rightarrow> gp_var \<Rightarrow> (u16 \<times> bool) option"
  gs_pc :: "side \<Rightarrow> gp_pc"
  gs_nested :: "side \<Rightarrow> u32"

text \<open>
  Accesses of side \<open>p\<close>. A cached line holds its value and whether it is dirty. With caching
  off (\<open>c\<close> is false) memory is accessed directly and the cache operations do nothing.
\<close>

definition gp_read :: "bool \<Rightarrow> side \<Rightarrow> gp_var \<Rightarrow> gp_state \<Rightarrow> u16 \<times> gp_state" where
  "gp_read c p v s =
     (if \<not> c then (gs_mem s v, s)
      else case gs_cache s p v of
        Some (x, d) \<Rightarrow> (x, s)
      | None \<Rightarrow> (gs_mem s v, s\<lparr>gs_cache := (gs_cache s)(p := (gs_cache s p)(v \<mapsto> (gs_mem s v, False)))\<rparr>))"

definition gp_write :: "bool \<Rightarrow> side \<Rightarrow> gp_var \<Rightarrow> u16 \<Rightarrow> gp_state \<Rightarrow> gp_state" where
  "gp_write c p v x s =
     (if c then s\<lparr>gs_cache := (gs_cache s)(p := (gs_cache s p)(v \<mapsto> (x, True)))\<rparr>
      else s\<lparr>gs_mem := (gs_mem s)(v := x)\<rparr>)"

definition gp_wbInv :: "bool \<Rightarrow> side \<Rightarrow> gp_var \<Rightarrow> gp_state \<Rightarrow> gp_state" where
  "gp_wbInv c p v s =
     (if c then
        s\<lparr>gs_mem := (case gs_cache s p v of Some (x, True) \<Rightarrow> (gs_mem s)(v := x) | _ \<Rightarrow> gs_mem s),
          gs_cache := (gs_cache s)(p := (gs_cache s p)(v := None))\<rparr>
      else s)"

definition gp_inv :: "bool \<Rightarrow> side \<Rightarrow> gp_var \<Rightarrow> gp_state \<Rightarrow> gp_state" where
  "gp_inv c p v s =
     (if c then s\<lparr>gs_cache := (gs_cache s)(p := (gs_cache s p)(v := None))\<rparr> else s)"

definition gp_goto :: "side \<Rightarrow> gp_pc \<Rightarrow> gp_state \<Rightarrow> gp_state" where
  "gp_goto p l s = s\<lparr>gs_pc := (gs_pc s)(p := l)\<rparr>"

section \<open>The protocol\<close>

text \<open>A call of \<open>enter\<close>: only the outermost one touches shared memory.\<close>

definition GatePeterson_enter :: "bool \<Rightarrow> side \<Rightarrow> gp_state \<Rightarrow> gp_state" where
  "GatePeterson_enter c p s =
     (let s1 = s\<lparr>gs_nested := (gs_nested s)(p := gs_nested s p + 1)\<rparr> in
      if 1 < gs_nested s1 p then s1
      else gp_goto p Flag_written (gp_write c p (Flag p) GatePeterson_BUSY s1))"

text \<open>What it goes on to do, step by step, up to its return.\<close>

definition GatePeterson_enter_step :: "bool \<Rightarrow> side \<Rightarrow> gp_state \<Rightarrow> gp_state" where
  "GatePeterson_enter_step c p s =
     (case gs_pc s p of
        Flag_written \<Rightarrow> gp_goto p Flag_flushed (gp_wbInv c p (Flag p) s)
      | Flag_flushed \<Rightarrow> gp_goto p Turn_written (gp_write c p Turn (side_id (other p)) s)
      | Turn_written \<Rightarrow> gp_goto p Turn_flushed (gp_wbInv c p Turn s)
      | Turn_flushed \<Rightarrow> gp_goto p Test_flag (gp_inv c p (Flag (other p)) s)
      | Test_flag \<Rightarrow>
          (let (x, s1) = gp_read c p (Flag (other p)) s in
           gp_goto p (if x = GatePeterson_BUSY then Test_turn else Inside) s1)
      | Test_turn \<Rightarrow>
          (let (x, s1) = gp_read c p Turn s in
           gp_goto p (if x = side_id (other p) then Spin_flag else Inside) s1)
      | Spin_flag \<Rightarrow> gp_goto p Spin_turn (gp_inv c p (Flag (other p)) s)
      | Spin_turn \<Rightarrow> gp_goto p Test_flag (gp_inv c p Turn s)
      | _ \<Rightarrow> s)"

text \<open>\<open>leave\<close>, and its last step.\<close>

definition GatePeterson_leave :: "bool \<Rightarrow> side \<Rightarrow> gp_state \<Rightarrow> gp_state" where
  "GatePeterson_leave c p s =
     (let s1 = s\<lparr>gs_nested := (gs_nested s)(p := gs_nested s p - 1)\<rparr> in
      if gs_nested s1 p = 0
      then gp_goto p Flag_cleared (gp_write c p (Flag p) GatePeterson_FREE s1)
      else s1)"

definition GatePeterson_leave_step :: "bool \<Rightarrow> side \<Rightarrow> gp_state \<Rightarrow> gp_state" where
  "GatePeterson_leave_step c p s = gp_goto p Outside (gp_wbInv c p (Flag p) s)"

text \<open>\<open>GatePeterson_postInit\<close> leaves both flags free and the turn at 0, and nothing cached.\<close>

definition GatePeterson_postInit :: gp_state where
  "GatePeterson_postInit =
     \<lparr>gs_mem = (\<lambda>v. 0), gs_cache = (\<lambda>p v. None), gs_pc = (\<lambda>p. Outside), gs_nested = (\<lambda>p. 0)\<rparr>"

text \<open>
  The moves: a processor outside or inside enters, one inside leaves, one on its way takes a step,
  and a cache, at any time, evicts a line (writing it back when dirty) or fetches one of its own
  accord. The gate of the processor itself (\<open>localGate\<close>) makes its threads take turns, so that
  a side is one thread at a time. \<open>w\<close> tells whether \<open>enter\<close> may be nested so deep
  (\<open>2^32\<close> times) that the 32-bit counter wraps to 0. After that the counter no longer tells
  when the outermost \<open>leave\<close> is reached.
\<close>

inductive gp_step :: "bool \<Rightarrow> bool \<Rightarrow> gp_state \<Rightarrow> gp_state \<Rightarrow> bool" for c w where
  enter: "gs_pc s p = Outside \<or> gs_pc s p = Inside \<Longrightarrow> w \<or> gs_nested s p \<noteq> -1 \<Longrightarrow>
    gp_step c w s (GatePeterson_enter c p s)"
| enter_step: "gs_pc s p \<notin> {Outside, Inside, Flag_cleared} \<Longrightarrow>
    gp_step c w s (GatePeterson_enter_step c p s)"
| leave: "gs_pc s p = Inside \<Longrightarrow> gp_step c w s (GatePeterson_leave c p s)"
| leave_step: "gs_pc s p = Flag_cleared \<Longrightarrow> gp_step c w s (GatePeterson_leave_step c p s)"
| evict: "gp_step c w s (gp_wbInv c p v s)"
| prefetch: "gp_step c w s (snd (gp_read c p v s))"

inductive gp_reach :: "bool \<Rightarrow> bool \<Rightarrow> gp_state \<Rightarrow> bool" for c w where
  start: "gp_reach c w GatePeterson_postInit"
| move: "gp_reach c w s \<Longrightarrow> gp_step c w s s' \<Longrightarrow> gp_reach c w s'"

inductive_cases gp_stepE: "gp_step c w s s'"

section \<open>The invariant\<close>

text \<open>Where a side stands: with its claim out, with its turn given away as well, looping.\<close>

definition flag_up :: "gp_pc \<Rightarrow> bool" where
  "flag_up l \<longleftrightarrow> l \<notin> {Outside, Flag_written, Flag_cleared}"

definition turn_given :: "gp_pc \<Rightarrow> bool" where
  "turn_given l \<longleftrightarrow> l \<in> {Turn_flushed, Test_flag, Test_turn, Spin_flag, Spin_turn, Inside}"

definition looping :: "gp_pc \<Rightarrow> bool" where
  "looping l \<longleftrightarrow> l \<in> {Test_flag, Test_turn, Spin_flag, Spin_turn}"

lemmas gp_stages = flag_up_def turn_given_def looping_def

lemma stage_simps [simp]:
  "\<not> flag_up Outside" "\<not> flag_up Flag_written" "\<not> flag_up Flag_cleared" "flag_up Flag_flushed"
  "flag_up Turn_written" "flag_up Turn_flushed" "flag_up Test_flag" "flag_up Test_turn"
  "flag_up Spin_flag" "flag_up Spin_turn" "flag_up Inside"
  "\<not> turn_given Outside" "\<not> turn_given Flag_written" "\<not> turn_given Flag_cleared"
  "\<not> turn_given Flag_flushed" "\<not> turn_given Turn_written" "turn_given Turn_flushed"
  "turn_given Test_flag" "turn_given Test_turn" "turn_given Spin_flag" "turn_given Spin_turn"
  "turn_given Inside"
  "\<not> looping Outside" "\<not> looping Flag_written" "\<not> looping Flag_cleared" "\<not> looping Flag_flushed"
  "\<not> looping Turn_written" "\<not> looping Turn_flushed" "looping Test_flag" "looping Test_turn"
  "looping Spin_flag" "looping Spin_turn" "\<not> looping Inside"
  by (simp_all add: gp_stages)

lemma turn_given_up: "turn_given l \<Longrightarrow> flag_up l"
  by (auto simp: gp_stages)

type_synonym line = "(u16 \<times> bool) option"

text \<open>
  \<open>gp_yields t m l x\<close>: a side at \<open>l\<close> with the line \<open>t\<close> of the turn, memory holding
  \<open>m\<close> there, either is not competing or has left the turn to the side with the id \<open>x\<close>.
\<close>

definition gp_yields :: "line \<Rightarrow> u16 \<Rightarrow> gp_pc \<Rightarrow> u16 \<Rightarrow> bool" where
  "gp_yields t m l x \<longleftrightarrow>
     (turn_given l \<longrightarrow> m = x) \<and> (l = Turn_written \<longrightarrow> t = Some (x, True) \<or> m = x)"

text \<open>
  What a side may act upon: being inside, or a copy in its cache, fetched since it invalidated
  or wrote the line, that lets it pass one of the two tests.
\<close>

definition gp_may_pass :: "gp_pc \<Rightarrow> line \<Rightarrow> line \<Rightarrow> u16 \<Rightarrow> bool" where
  "gp_may_pass l f t y \<longleftrightarrow>
     l = Inside \<or>
     looping l \<and> (case f of Some (x, d) \<Rightarrow> x \<noteq> GatePeterson_BUSY | None \<Rightarrow> False) \<or>
     turn_given l \<and> (case t of Some (x, d) \<Rightarrow> x \<noteq> y | None \<Rightarrow> False)"

text \<open>
  The invariant as one side sees it, over plain values: its lines \<open>own\<close> (its flag),
  \<open>oth\<close> (the other flag) and \<open>tr\<close> (the turn), its flag \<open>mf\<close> and the turn \<open>mt\<close> in
  memory, its place \<open>l\<close>, the other's place \<open>lq\<close> and line \<open>tq\<close> of
  the turn.
\<close>

definition own_ok :: "line \<Rightarrow> u16 \<Rightarrow> gp_pc \<Rightarrow> bool" where
  "own_ok own mf l \<longleftrightarrow>
     (case own of
        None \<Rightarrow> mf = (if l = Outside \<or> l = Flag_cleared then GatePeterson_FREE else GatePeterson_BUSY)
      | Some (x, d) \<Rightarrow>
          x = (if l = Outside \<or> l = Flag_cleared then GatePeterson_FREE else GatePeterson_BUSY) \<and>
          (if d then \<not> flag_up l else mf = x))"

definition turn_ok :: "side \<Rightarrow> line \<Rightarrow> u16 \<Rightarrow> gp_pc \<Rightarrow> bool" where
  "turn_ok p tr mt l \<longleftrightarrow>
     (mt = side_id p \<or> mt = side_id (other p)) \<and>
     (case tr of
        None \<Rightarrow> True
      | Some (x, d) \<Rightarrow> if d then l = Turn_written \<and> x = side_id (other p)
                      else x = side_id p \<or> x = side_id (other p))"

definition clean_line :: "line \<Rightarrow> bool" where
  "clean_line f \<longleftrightarrow> (case f of Some (x, d) \<Rightarrow> \<not> d | None \<Rightarrow> True)"

definition gp_view ::
  "bool \<Rightarrow> side \<Rightarrow> line \<Rightarrow> line \<Rightarrow> line \<Rightarrow> u16 \<Rightarrow> u16 \<Rightarrow> gp_pc \<Rightarrow> gp_pc \<Rightarrow> line \<Rightarrow> bool" where
  "gp_view c p own oth tr mf mt l lq tq \<longleftrightarrow>
     (\<not> c \<longrightarrow> own = None \<and> oth = None \<and> tr = None) \<and>
     own_ok own mf l \<and> clean_line oth \<and> turn_ok p tr mt l \<and>
     (gp_may_pass l oth tr (side_id (other p)) \<longrightarrow> gp_yields tq mt lq (side_id p))"

definition gp_ok :: "bool \<Rightarrow> gp_state \<Rightarrow> side \<Rightarrow> bool" where
  "gp_ok c s p \<longleftrightarrow>
     gp_view c p (gs_cache s p (Flag p)) (gs_cache s p (Flag (other p))) (gs_cache s p Turn)
       (gs_mem s (Flag p)) (gs_mem s Turn) (gs_pc s p)
       (gs_pc s (other p)) (gs_cache s (other p) Turn)"

lemmas gp_view_defs = gp_view_def own_ok_def turn_ok_def clean_line_def gp_may_pass_def gp_yields_def
lemmas gp_access_defs = gp_read_def gp_write_def gp_wbInv_def gp_inv_def gp_goto_def

lemma gp_start: "gp_ok c GatePeterson_postInit p"
  by (cases p)
    (simp_all add: gp_ok_def GatePeterson_postInit_def gp_view_defs GatePeterson_FREE_def)

text \<open>A claim that is out is in memory.\<close>

lemma gp_view_mem_flag:
  "gp_view c p own oth tr mf mt l lq tq \<Longrightarrow> flag_up l \<Longrightarrow> mf = GatePeterson_BUSY"
  by (auto simp: gp_view_def own_ok_def split: option.splits if_splits)

text \<open>Both sides keep the invariant when each of them does in its own view.\<close>

lemma gp_ok_both: "gp_ok c s p \<Longrightarrow> gp_ok c s (other p) \<Longrightarrow> gp_ok c s q"
  using side_cases [of q p] by auto

lemma view_evict_flag:
  assumes "gp_view c p own oth tr mf mt l lq tq"
  shows "gp_view c p None oth tr (case own of Some (x, True) \<Rightarrow> x | _ \<Rightarrow> mf) mt l lq tq"
  using assms by (cases own) (auto simp: gp_view_def own_ok_def split: bool.splits if_splits)

lemma view_drop_other:
  assumes "gp_view c p own oth tr mf mt l lq tq"
  shows "gp_view c p own None tr mf mt l lq tq"
  using assms by (auto simp: gp_view_defs)

text \<open>What the turn becomes in memory when a line of it is written back.\<close>

definition wback :: "line \<Rightarrow> u16 \<Rightarrow> u16" where
  "wback t m = (case t of Some (x, True) \<Rightarrow> x | _ \<Rightarrow> m)"

lemma wback_simps [simp]: "wback None m = m" "wback (Some (x, True)) m = x" "wback (Some (x, False)) m = m"
  by (simp_all add: wback_def)

lemma view_evict_turn:
  assumes P: "gp_view c p own oth tr mf mt l lq tq"
    and Q: "gp_view c (other p) own2 oth2 tq mf2 mt lq l tr"
  shows "gp_view c p own oth None mf (wback tr mt) l lq tq"
    and "gp_view c (other p) own2 oth2 tq mf2 (wback tr mt) lq l None"
proof -
  consider "wback tr mt = mt" "\<And>x. tr \<noteq> Some (x, True)"
    | "tr = Some (side_id (other p), True)" "l = Turn_written"
  proof (cases tr)
    case (Some xd)
    obtain x d where "xd = (x, d)" by (cases xd)
    with Some P that show ?thesis
      by (cases d) (auto simp: gp_view_def turn_ok_def)
  qed (use that in simp)
  then have "gp_view c p own oth None mf (wback tr mt) l lq tq \<and>
    gp_view c (other p) own2 oth2 tq mf2 (wback tr mt) lq l None"
  proof cases
    case 1
    then show ?thesis
      using P Q by (auto simp: gp_view_def gp_may_pass_def gp_yields_def turn_ok_def)
  next
    case 2
    then show ?thesis
      using P Q by (auto simp: gp_view_def gp_may_pass_def gp_yields_def turn_ok_def)
  qed
  then show "gp_view c p own oth None mf (wback tr mt) l lq tq"
    and "gp_view c (other p) own2 oth2 tq mf2 (wback tr mt) lq l None" by blast+
qed

lemma view_fetch_flag:
  "gp_view c p None oth tr mf mt l lq tq \<Longrightarrow> c \<Longrightarrow>
   gp_view c p (Some (mf, False)) oth tr mf mt l lq tq"
  by (auto simp: gp_view_def own_ok_def)

lemma view_fetch_other:
  assumes P: "gp_view c p own None tr mf mt l lq tq" and c: c
    and Q: "gp_view c (other p) own2 oth2 tq mf2 mt lq l tr"
  shows "gp_view c p own (Some (mf2, False)) tr mf mt l lq tq"
proof -
  have "mf2 \<noteq> GatePeterson_BUSY \<Longrightarrow> \<not> flag_up lq" using gp_view_mem_flag [OF Q] by blast
  then have "mf2 \<noteq> GatePeterson_BUSY \<Longrightarrow> gp_yields tq mt lq (side_id p)"
    using turn_given_up by (auto simp: gp_yields_def)
  then show ?thesis using P c by (auto simp: gp_view_def gp_may_pass_def clean_line_def)
qed

lemma view_fetch_turn:
  assumes P: "gp_view c p own oth None mf mt l lq tq" and c: c
    and Q: "gp_view c (other p) own2 oth2 tq mf2 mt lq l None"
  shows "gp_view c p own oth (Some (mt, False)) mf mt l lq tq"
    and "gp_view c (other p) own2 oth2 tq mf2 mt lq l (Some (mt, False))"
proof -
  have "mt \<noteq> side_id (other p) \<Longrightarrow> gp_yields tq mt lq (side_id p)"
    using P by (auto simp: gp_view_def turn_ok_def gp_yields_def)
  then show "gp_view c p own oth (Some (mt, False)) mf mt l lq tq"
    using P c by (auto simp: gp_view_def gp_may_pass_def turn_ok_def)
  show "gp_view c (other p) own2 oth2 tq mf2 mt lq l (Some (mt, False))"
    using Q by (auto simp: gp_view_def gp_yields_def)
qed

section \<open>Every move keeps it\<close>

text \<open>The invariant of both sides.\<close>

definition gp_inv_ok :: "bool \<Rightarrow> gp_state \<Rightarrow> side \<Rightarrow> bool" where
  "gp_inv_ok c s p \<longleftrightarrow> gp_ok c s p \<and> gp_ok c s (other p)"

lemma gp_inv_ok_swap: "gp_inv_ok c s p \<Longrightarrow> gp_inv_ok c s q"
  using side_cases [of q p] by (auto simp: gp_inv_ok_def)

lemma gp_uncached:
  "gp_inv_ok c s p \<Longrightarrow> \<not> c \<Longrightarrow> gs_cache s q v = None"
proof -
  assume *: "gp_inv_ok c s p" "\<not> c"
  have "gp_ok c s q" using *(1) side_cases [of q p] by (auto simp: gp_inv_ok_def)
  then have "gs_cache s q (Flag q) = None \<and> gs_cache s q (Flag (other q)) = None \<and>
      gs_cache s q Turn = None"
    using *(2) by (simp add: gp_ok_def gp_view_def)
  moreover have "v = Flag q \<or> v = Flag (other q) \<or> v = Turn"
    using side_cases [of _ q] by (cases v) auto
  ultimately show ?thesis by auto
qed

lemma gp_evict_ok:
  assumes "gp_inv_ok c s p"
  shows "gp_inv_ok c (gp_wbInv c p v s) p"
proof (cases c)
  case True
  have P: "gp_ok c s p" and Q: "gp_ok c s (other p)" using assms by (simp_all add: gp_inv_ok_def)
  note PV = P [unfolded gp_ok_def] and QV = Q [unfolded gp_ok_def other_simps]
  consider "v = Flag p" | "v = Flag (other p)" | "v = Turn"
    using side_cases [of _ p] by (cases v) auto
  then show ?thesis
  proof cases
    case 1
    then show ?thesis
      using True view_evict_flag [OF PV] QV
      by (auto simp: gp_inv_ok_def gp_ok_def gp_wbInv_def split: option.splits bool.splits)
  next
    case 2
    have "clean_line (gs_cache s p (Flag (other p)))" using PV by (simp add: gp_view_def)
    then show ?thesis
      using 2 True view_drop_other [OF PV] QV
      by (auto simp: gp_inv_ok_def gp_ok_def gp_wbInv_def clean_line_def split: option.splits bool.splits)
  next
    case 3
    then show ?thesis
      using True view_evict_turn [OF PV QV]
      by (auto simp: gp_inv_ok_def gp_ok_def gp_wbInv_def wback_def split: option.splits bool.splits)
  qed
next
  case False
  then show ?thesis using assms by (simp add: gp_wbInv_def)
qed

lemma gp_read_ok:
  assumes "gp_inv_ok c s p"
  shows "gp_inv_ok c (snd (gp_read c p v s)) p"
proof (cases "c \<and> gs_cache s p v = None")
  case True
  have P: "gp_ok c s p" and Q: "gp_ok c s (other p)" using assms by (simp_all add: gp_inv_ok_def)
  note PV = P [unfolded gp_ok_def] and QV = Q [unfolded gp_ok_def other_simps]
  consider "v = Flag p" | "v = Flag (other p)" | "v = Turn"
    using side_cases [of _ p] by (cases v) auto
  then show ?thesis
  proof cases
    case 1
    then show ?thesis
      using True view_fetch_flag PV QV by (auto simp: gp_inv_ok_def gp_ok_def gp_read_def)
  next
    case 2
    then show ?thesis
      using True view_fetch_other [of c p _ _ _ _ _ _ _ "gs_cache s (other p) (Flag (other p))"] PV QV
      by (auto simp: gp_inv_ok_def gp_ok_def gp_read_def)
  next
    case 3
    then show ?thesis
      using True view_fetch_turn [of c p] PV QV by (auto simp: gp_inv_ok_def gp_ok_def gp_read_def)
  qed
next
  case False
  then have "snd (gp_read c p v s) = s" by (auto simp: gp_read_def split: option.splits)
  then show ?thesis using assms by simp
qed

text \<open>Moving a side on, its lines and memory as they are.\<close>

lemma gp_goto_ok:
  assumes inv: "gp_inv_ok c s p"
    and own: "own_ok (gs_cache s p (Flag p)) (gs_mem s (Flag p)) l"
    and turn: "turn_ok p (gs_cache s p Turn) (gs_mem s Turn) l"
    and pass: "gp_may_pass l (gs_cache s p (Flag (other p))) (gs_cache s p Turn) (side_id (other p)) \<Longrightarrow>
      gp_yields (gs_cache s (other p) Turn) (gs_mem s Turn) (gs_pc s (other p)) (side_id p)"
    and yield: "gp_yields (gs_cache s p Turn) (gs_mem s Turn) (gs_pc s p) (side_id (other p)) \<Longrightarrow>
      gp_yields (gs_cache s p Turn) (gs_mem s Turn) l (side_id (other p))"
  shows "gp_inv_ok c (gp_goto p l s) p"
  using assms by (auto simp: gp_inv_ok_def gp_ok_def gp_view_def gp_goto_def)

lemma gp_okD:
  assumes "gp_inv_ok c s p"
  shows "own_ok (gs_cache s p (Flag p)) (gs_mem s (Flag p)) (gs_pc s p)"
    and "turn_ok p (gs_cache s p Turn) (gs_mem s Turn) (gs_pc s p)"
    and "clean_line (gs_cache s p (Flag (other p)))"
    and "gp_may_pass (gs_pc s p) (gs_cache s p (Flag (other p))) (gs_cache s p Turn)
           (side_id (other p)) \<Longrightarrow>
         gp_yields (gs_cache s (other p) Turn) (gs_mem s Turn) (gs_pc s (other p)) (side_id p)"
  using assms by (simp_all add: gp_inv_ok_def gp_ok_def gp_view_def)

text \<open>Invalidating a clean line is evicting it.\<close>

lemma gp_inv_clean: "clean_line (gs_cache s p v) \<Longrightarrow> gp_inv c p v s = gp_wbInv c p v s"
  by (auto simp: gp_inv_def gp_wbInv_def clean_line_def split: option.splits bool.splits)

lemma turn_clean: "turn_ok p t m l \<Longrightarrow> l \<noteq> Turn_written \<Longrightarrow> clean_line t"
  by (auto simp: turn_ok_def clean_line_def split: option.splits if_splits)

lemma wbInv_after [simp]:
  "gs_pc (gp_wbInv c p v s) = gs_pc s" "gs_nested (gp_wbInv c p v s) = gs_nested s"
  by (simp_all add: gp_wbInv_def)

lemma wbInv_line:
  "gp_inv_ok c s p \<Longrightarrow> gs_cache (gp_wbInv c p v s) p v = None"
  using gp_uncached [of c s p p v] by (auto simp: gp_wbInv_def)

lemma own_ok_same:
  "own_ok f m l \<Longrightarrow> (l = Outside \<or> l = Flag_cleared \<longleftrightarrow> l' = Outside \<or> l' = Flag_cleared) \<Longrightarrow>
   flag_up l \<or> \<not> flag_up l' \<or> f = None \<Longrightarrow> own_ok f m l'"
  by (auto simp: own_ok_def split: option.splits if_splits)

lemma turn_ok_same:
  "turn_ok p t m l \<Longrightarrow> l \<noteq> Turn_written \<or> t = None \<Longrightarrow> turn_ok p t m l'"
  by (auto simp: turn_ok_def split: option.splits if_splits)

text \<open>The steps of \<open>enter\<close>.\<close>

lemma flush_flag_ok:
  assumes inv: "gp_inv_ok c s p" and pc: "gs_pc s p = Flag_written"
  shows "gp_inv_ok c (gp_goto p Flag_flushed (gp_wbInv c p (Flag p) s)) p"
proof -
  note E = gp_okD [OF gp_evict_ok [OF inv, of "Flag p"], simplified pc wbInv_after]
  have "own_ok (gs_cache (gp_wbInv c p (Flag p) s) p (Flag p)) (gs_mem (gp_wbInv c p (Flag p) s) (Flag p))
      Flag_flushed"
    using own_ok_same [OF E(1)] wbInv_line [OF inv] by simp
  then show ?thesis
    using E pc turn_ok_same [OF E(2)]
    by (intro gp_goto_ok gp_evict_ok inv) (auto simp: gp_may_pass_def gp_yields_def)
qed

lemma flush_turn_ok:
  assumes inv: "gp_inv_ok c s p" and pc: "gs_pc s p = Turn_written"
  shows "gp_inv_ok c (gp_goto p Turn_flushed (gp_wbInv c p Turn s)) p"
proof -
  let ?s = "gp_wbInv c p Turn s"
  have ok: "gp_inv_ok c ?s p" by (rule gp_evict_ok [OF inv])
  note E = gp_okD [OF ok, simplified pc wbInv_after]
  have none: "gs_cache ?s p Turn = None" by (rule wbInv_line [OF inv])
  show ?thesis
    by (rule gp_goto_ok [OF ok])
      (use E pc none own_ok_same [OF E(1), of Turn_flushed] in
        \<open>auto simp: gp_may_pass_def gp_yields_def turn_ok_def\<close>)
qed

lemma write_turn_ok:
  assumes inv: "gp_inv_ok c s p" and pc: "gs_pc s p = Flag_flushed"
  shows "gp_inv_ok c (gp_goto p Turn_written (gp_write c p Turn (side_id (other p)) s)) p"
proof -
  have P: "gp_ok c s p" and Q: "gp_ok c s (other p)" using inv by (simp_all add: gp_inv_ok_def)
  show ?thesis
  proof (cases c)
    case True
    then show ?thesis
      using P Q pc
      by (auto simp: gp_inv_ok_def gp_ok_def gp_view_def gp_goto_def gp_write_def turn_ok_def
          gp_may_pass_def gp_yields_def own_ok_def split: option.splits)
  next
    case False
    then show ?thesis
      using P Q pc
      by (auto simp: gp_inv_ok_def gp_ok_def gp_view_def gp_goto_def gp_write_def turn_ok_def
          gp_may_pass_def gp_yields_def own_ok_def)
  qed
qed

lemma inv_other_ok:
  assumes inv: "gp_inv_ok c s p" and pc: "gs_pc s p = Turn_flushed \<and> l = Test_flag \<or>
      gs_pc s p = Spin_flag \<and> l = Spin_turn"
  shows "gp_inv_ok c (gp_goto p l (gp_inv c p (Flag (other p)) s)) p"
proof -
  let ?s = "gp_wbInv c p (Flag (other p)) s"
  have ok: "gp_inv_ok c ?s p" by (rule gp_evict_ok [OF inv])
  note E = gp_okD [OF ok]
  have none: "gs_cache ?s p (Flag (other p)) = None" by (rule wbInv_line [OF inv])
  have "gp_inv_ok c (gp_goto p l ?s) p"
    by (rule gp_goto_ok [OF ok])
      (use E pc none own_ok_same [OF E(1), of l] turn_ok_same [OF E(2), of l] in
        \<open>auto simp: gp_may_pass_def gp_yields_def\<close>)
  then show ?thesis using gp_inv_clean gp_okD(3) [OF inv] by simp
qed

lemma inv_turn_ok:
  assumes inv: "gp_inv_ok c s p" and pc: "gs_pc s p = Spin_turn"
  shows "gp_inv_ok c (gp_goto p Test_flag (gp_inv c p Turn s)) p"
proof -
  let ?s = "gp_wbInv c p Turn s"
  have ok: "gp_inv_ok c ?s p" by (rule gp_evict_ok [OF inv])
  note E = gp_okD [OF ok, simplified pc wbInv_after]
  have "gp_inv_ok c (gp_goto p Test_flag ?s) p"
    by (rule gp_goto_ok [OF ok])
      (use E pc own_ok_same [OF E(1), of Test_flag] turn_ok_same [OF E(2), of Test_flag] in
        \<open>auto simp: gp_may_pass_def gp_yields_def\<close>)
  then show ?thesis
    using gp_inv_clean turn_clean [OF gp_okD(2) [OF inv]] pc by simp
qed

text \<open>What a read returns is in the line afterwards, or in memory when caching is off.\<close>

lemma read_cached: "c \<Longrightarrow> \<exists>d. gs_cache (snd (gp_read c p v s)) p v = Some (fst (gp_read c p v s), d)"
  by (auto simp: gp_read_def split: option.splits)

lemma read_direct: "\<not> c \<Longrightarrow> gp_read c p v s = (gs_mem s v, s)"
  by (simp add: gp_read_def)

lemma read_after [simp]:
  "gs_pc (snd (gp_read c p v s)) = gs_pc s" "gs_nested (snd (gp_read c p v s)) = gs_nested s"
  "gs_mem (snd (gp_read c p v s)) = gs_mem s"
  by (auto simp: gp_read_def split: option.splits)

lemma mem_flag_yields:
  assumes inv: "gp_inv_ok c s p" and free: "gs_mem s (Flag (other p)) \<noteq> GatePeterson_BUSY"
  shows "gp_yields (gs_cache s (other p) Turn) (gs_mem s Turn) (gs_pc s (other p)) y"
proof -
  have "gp_ok c s (other p)" using inv by (simp add: gp_inv_ok_def)
  then have "\<not> flag_up (gs_pc s (other p))"
    using gp_view_mem_flag free by (auto simp: gp_ok_def)
  then show ?thesis using turn_given_up by (auto simp: gp_yields_def)
qed

lemma test_flag_ok:
  assumes inv: "gp_inv_ok c s p" and pc: "gs_pc s p = Test_flag"
  defines "x \<equiv> fst (gp_read c p (Flag (other p)) s)" and "s1 \<equiv> snd (gp_read c p (Flag (other p)) s)"
  shows "gp_inv_ok c (gp_goto p (if x = GatePeterson_BUSY then Test_turn else Inside) s1) p"
proof -
  have ok: "gp_inv_ok c s1 p" unfolding s1_def by (rule gp_read_ok [OF inv])
  have at: "gs_pc s1 p = Test_flag" using pc by (simp add: s1_def)
  note E = gp_okD [OF ok, unfolded at]
  have pass: "gp_yields (gs_cache s1 (other p) Turn) (gs_mem s1 Turn) (gs_pc s1 (other p)) (side_id p)"
    if "x \<noteq> GatePeterson_BUSY"
  proof (cases c)
    case True
    with read_cached [of c p "Flag (other p)" s] that E(4) show ?thesis
      by (auto simp: gp_may_pass_def x_def s1_def)
  next
    case False
    with that show ?thesis using mem_flag_yields [OF ok] by (simp add: x_def s1_def read_direct)
  qed
  have own: "own_ok (gs_cache s1 p (Flag p)) (gs_mem s1 (Flag p)) l"
    if "l \<noteq> Outside \<and> l \<noteq> Flag_cleared" for l
    using own_ok_same [OF E(1)] that by simp
  have turn: "turn_ok p (gs_cache s1 p Turn) (gs_mem s1 Turn) l" for l
    using turn_ok_same [OF E(2)] by simp
  show ?thesis
  proof (cases "x = GatePeterson_BUSY")
    case True
    then show ?thesis
      by (auto intro!: gp_goto_ok [OF ok] own turn E(4) simp: at gp_may_pass_def)
        (auto simp: gp_yields_def)
  next
    case False
    then show ?thesis
      by (auto intro!: gp_goto_ok [OF ok] own turn pass simp: at)
        (auto simp: gp_yields_def)
  qed
qed

lemma test_turn_ok:
  assumes inv: "gp_inv_ok c s p" and pc: "gs_pc s p = Test_turn"
  defines "x \<equiv> fst (gp_read c p Turn s)" and "s1 \<equiv> snd (gp_read c p Turn s)"
  shows "gp_inv_ok c (gp_goto p (if x = side_id (other p) then Spin_flag else Inside) s1) p"
proof -
  have ok: "gp_inv_ok c s1 p" unfolding s1_def by (rule gp_read_ok [OF inv])
  have at: "gs_pc s1 p = Test_turn" using pc by (simp add: s1_def)
  note E = gp_okD [OF ok, unfolded at]
  have pass: "gp_yields (gs_cache s1 (other p) Turn) (gs_mem s1 Turn) (gs_pc s1 (other p)) (side_id p)"
    if "x \<noteq> side_id (other p)"
  proof (cases c)
    case True
    with read_cached [of c p Turn s] that E(4) show ?thesis
      by (auto simp: gp_may_pass_def x_def s1_def)
  next
    case False
    with that E(2) show ?thesis
      by (auto simp: x_def s1_def read_direct turn_ok_def gp_yields_def)
  qed
  have own: "own_ok (gs_cache s1 p (Flag p)) (gs_mem s1 (Flag p)) l"
    if "l \<noteq> Outside \<and> l \<noteq> Flag_cleared" for l
    using own_ok_same [OF E(1)] that by simp
  have turn: "turn_ok p (gs_cache s1 p Turn) (gs_mem s1 Turn) l" for l
    using turn_ok_same [OF E(2)] by simp
  show ?thesis
  proof (cases "x = side_id (other p)")
    case True
    then show ?thesis
      by (auto intro!: gp_goto_ok [OF ok] own turn E(4) simp: at gp_may_pass_def)
        (auto simp: gp_yields_def)
  next
    case False
    then show ?thesis
      by (auto intro!: gp_goto_ok [OF ok] own turn pass simp: at)
        (auto simp: gp_yields_def)
  qed
qed

lemma gp_enter_step_ok:
  assumes inv: "gp_inv_ok c s p"
  shows "gp_inv_ok c (GatePeterson_enter_step c p s) p"
  unfolding GatePeterson_enter_step_def
  using inv flush_flag_ok [OF inv] write_turn_ok [OF inv] flush_turn_ok [OF inv] inv_other_ok [OF inv]
    inv_turn_ok [OF inv] test_flag_ok [OF inv] test_turn_ok [OF inv]
  by (auto split: gp_pc.split simp: case_prod_beta Let_def)

text \<open>Entering and leaving, whatever the counter is at.\<close>

lemma gp_nested_ok:
  "gp_inv_ok c s p \<Longrightarrow> gp_inv_ok c (s\<lparr>gs_nested := (gs_nested s)(p := n)\<rparr>) p"
  by (auto simp: gp_inv_ok_def gp_ok_def gp_view_def)

lemma view_enter:
  assumes "gp_view c p own oth tr mf mt l lq tq" and "l = Outside \<or> l = Inside"
  shows "gp_view c p (if c then Some (GatePeterson_BUSY, True) else own) oth tr
    (if c then mf else GatePeterson_BUSY) mt Flag_written lq tq"
  using assms by (auto simp: gp_view_def own_ok_def turn_ok_def gp_may_pass_def split: option.splits)

lemma view_leave:
  assumes "gp_view c p own oth tr mf mt Inside lq tq"
  shows "gp_view c p (if c then Some (GatePeterson_FREE, True) else own) oth tr
    (if c then mf else GatePeterson_FREE) mt Flag_cleared lq tq"
  using assms by (auto simp: gp_view_def own_ok_def turn_ok_def gp_may_pass_def split: option.splits)

lemma view_other_place:
  assumes "gp_view c q own oth tr mf mt lq l tq" and "\<not> turn_given l'" and "l' \<noteq> Turn_written"
  shows "gp_view c q own oth tr mf mt lq l' tq"
  using assms by (auto simp: gp_view_def gp_yields_def)

lemma gp_enter_ok:
  assumes inv: "gp_inv_ok c s p" and pc: "gs_pc s p = Outside \<or> gs_pc s p = Inside"
  shows "gp_inv_ok c (GatePeterson_enter c p s) p"
proof (cases "1 < gs_nested s p + 1")
  case False
  have P: "gp_ok c s p" and Q: "gp_ok c s (other p)" using inv by (simp_all add: gp_inv_ok_def)
  note PV = view_enter [OF P [unfolded gp_ok_def] pc]
  note QV = view_other_place [OF Q [unfolded gp_ok_def other_simps], of Flag_written]
  show ?thesis
    using PV QV False
    by (cases c) (simp_all add: GatePeterson_enter_def gp_inv_ok_def gp_ok_def gp_goto_def gp_write_def)
next
  case True
  then show ?thesis
    using gp_nested_ok [OF inv, of "gs_nested s p + 1"] by (simp add: GatePeterson_enter_def)
qed

lemma gp_leave_ok:
  assumes inv: "gp_inv_ok c s p" and pc: "gs_pc s p = Inside"
  shows "gp_inv_ok c (GatePeterson_leave c p s) p"
proof (cases "gs_nested s p - 1 = 0")
  case True
  have P: "gp_ok c s p" and Q: "gp_ok c s (other p)" using inv by (simp_all add: gp_inv_ok_def)
  note PV = view_leave [OF P [unfolded gp_ok_def pc]]
  note QV = view_other_place [OF Q [unfolded gp_ok_def other_simps], of Flag_cleared]
  show ?thesis
    using PV QV True
    by (cases c) (simp_all add: GatePeterson_leave_def gp_inv_ok_def gp_ok_def gp_goto_def gp_write_def)
next
  case False
  then show ?thesis
    using gp_nested_ok [OF inv, of "gs_nested s p - 1"] by (simp add: GatePeterson_leave_def)
qed

lemma gp_leave_step_ok:
  assumes inv: "gp_inv_ok c s p" and pc: "gs_pc s p = Flag_cleared"
  shows "gp_inv_ok c (GatePeterson_leave_step c p s) p"
proof -
  let ?s = "gp_wbInv c p (Flag p) s"
  have ok: "gp_inv_ok c ?s p" by (rule gp_evict_ok [OF inv])
  note E = gp_okD [OF ok, simplified pc wbInv_after]
  show ?thesis
    unfolding GatePeterson_leave_step_def
    by (rule gp_goto_ok [OF ok])
      (use E pc own_ok_same [OF E(1), of Outside] turn_ok_same [OF E(2), of Outside] in
        \<open>auto simp: gp_may_pass_def gp_yields_def\<close>)
qed

lemma gp_step_ok:
  assumes "gp_step c w s s'" and "\<And>p. gp_inv_ok c s p"
  shows "gp_inv_ok c s' q"
  using assms(1)
  by cases (rule gp_inv_ok_swap;
    blast intro: gp_enter_ok gp_enter_step_ok gp_leave_ok gp_leave_step_ok gp_evict_ok gp_read_ok assms(2))+

lemma gp_reach_ok: "gp_reach c w s \<Longrightarrow> gp_inv_ok c s p"
proof (induction arbitrary: p rule: gp_reach.induct)
  case start
  then show ?case by (simp add: gp_inv_ok_def gp_start)
next
  case (move s s')
  show ?case by (rule gp_step_ok [OF move.hyps(2) move.IH])
qed

text \<open>
  As long as it does not wrap, the counter of a side is off 0 exactly from its outermost
  \<open>enter\<close> to its last \<open>leave\<close>.
\<close>

definition gp_counts :: "gp_state \<Rightarrow> side \<Rightarrow> bool" where
  "gp_counts s p \<longleftrightarrow> (gs_nested s p = 0 \<longleftrightarrow> gs_pc s p \<in> {Outside, Flag_cleared})"

lemma gp_write_after [simp]:
  "gs_pc (gp_write c p v x s) = gs_pc s" "gs_nested (gp_write c p v x s) = gs_nested s"
  by (simp_all add: gp_write_def)

lemma gp_inv_after [simp]:
  "gs_pc (gp_inv c p v s) = gs_pc s" "gs_nested (gp_inv c p v s) = gs_nested s"
  by (simp_all add: gp_inv_def)

lemma gp_goto_after [simp]:
  "gs_pc (gp_goto p l s) = (gs_pc s)(p := l)" "gs_nested (gp_goto p l s) = gs_nested s"
  by (simp_all add: gp_goto_def)

lemma gp_step_counts:
  assumes "gp_step c False s s'" and "\<And>p. gp_counts s p"
  shows "gp_counts s' q"
  using assms(1)
proof cases
  case (enter p)
  have "gs_nested s p \<noteq> 0 \<Longrightarrow> gs_nested s p + 1 \<noteq> 0 \<and> 1 < gs_nested s p + 1"
    using enter(3) nested_again nested_wraps by auto
  then show ?thesis
    using enter assms(2) [of q] assms(2) [of p] by (auto simp: gp_counts_def GatePeterson_enter_def Let_def split: if_splits)
next
  case (enter_step p)
  then show ?thesis
    using assms(2) [of q] assms(2) [of p]
    by (auto simp: gp_counts_def GatePeterson_enter_step_def case_prod_beta Let_def split: gp_pc.splits if_splits)
next
  case (leave p)
  then show ?thesis
    using assms(2) [of q] assms(2) [of p] by (auto simp: gp_counts_def GatePeterson_leave_def Let_def split: if_splits)
next
  case (leave_step p)
  then show ?thesis
    using assms(2) [of q] assms(2) [of p] by (auto simp: gp_counts_def GatePeterson_leave_step_def split: if_splits)
qed (use assms(2) in \<open>auto simp: gp_counts_def\<close>)

lemma gp_reach_counts: "gp_reach c False s \<Longrightarrow> gp_counts s p"
proof (induction arbitrary: p rule: gp_reach.induct)
  case start
  then show ?case by (simp add: gp_counts_def GatePeterson_postInit_def)
next
  case (move s s')
  show ?case by (rule gp_step_counts [OF move.hyps(2) move.IH])
qed

text \<open>Both inside would have left the turn to each other.\<close>

lemma gp_exclusive:
  assumes "gp_inv_ok c s p"
  shows "\<not> (gs_pc s p = Inside \<and> gs_pc s (other p) = Inside)"
  using gp_okD(4) [OF assms] gp_okD(4) [OF gp_inv_ok_swap [OF assms, of "other p"]]
  by (auto simp: gp_may_pass_def gp_yields_def)

section \<open>Progress\<close>

text \<open>
  A side that is alone in wanting the gate is through after five steps of its own. Of two sides
  in the loop, the one that memory has the turn for is through after four.
\<close>

fun gp_steps :: "bool \<Rightarrow> side \<Rightarrow> nat \<Rightarrow> gp_state \<Rightarrow> gp_state" where
  "gp_steps c p 0 s = s"
| "gp_steps c p (Suc n) s = gp_steps c p n (GatePeterson_enter_step c p s)"

lemma gp_reach_steps: "gp_reach c w s \<Longrightarrow> gp_reach c w (gp_steps c p n s)"
proof (induction n arbitrary: s)
  case (Suc n)
  have "gp_reach c w (GatePeterson_enter_step c p s)"
  proof (cases "gs_pc s p \<in> {Outside, Inside, Flag_cleared}")
    case True
    then have "GatePeterson_enter_step c p s = s" by (auto simp: GatePeterson_enter_step_def)
    then show ?thesis using Suc.prems by simp
  next
    case False
    then show ?thesis using gp_reach.move [OF Suc.prems gp_step.enter_step] by blast
  qed
  then show ?case using Suc.IH by simp
qed simp

lemma gp_solo_enter:
  assumes inv: "gp_inv_ok c s p" and "gp_counts s p" and "gs_pc s p = Outside" and "gs_pc s (other p) = Outside"
    and clean: "gs_cache s (other p) (Flag (other p)) = None"
  shows "gs_pc (gp_steps c p 5 (GatePeterson_enter c p s)) p = Inside"
proof -
  have P: "gp_ok c s p" and Q: "gp_ok c s (other p)" using inv by (simp_all add: gp_inv_ok_def)
  have mem: "gs_mem s (Flag (other p)) = GatePeterson_FREE"
    using Q assms(4) clean by (simp add: gp_ok_def gp_view_def own_ok_def)
  have n: "gs_nested s p = 0" using assms(2,3) by (simp add: gp_counts_def)
  show ?thesis
    using assms(3,4) mem n
    by (cases c) (simp_all add: eval_nat_numeral GatePeterson_enter_def GatePeterson_enter_step_def
        gp_access_defs)
qed

lemma gp_turn_passes:
  assumes inv: "gp_inv_ok c s p" and pc: "gs_pc s p = Spin_flag"
    and turn: "gs_mem s Turn = side_id p"
  shows "gs_pc (gp_steps c p 4 s) p = Inside"
  using pc turn gp_uncached [OF inv]
  by (cases c; cases "gs_mem s (Flag (other p)) = GatePeterson_BUSY")
    (simp_all add: eval_nat_numeral GatePeterson_enter_step_def gp_access_defs)

lemma gp_no_deadlock:
  assumes inv: "gp_inv_ok c s p" and "\<And>q. gs_pc s q = Spin_flag"
  shows "\<exists>q. gs_pc (gp_steps c q 4 s) q = Inside"
proof -
  have "gs_mem s Turn = side_id p \<or> gs_mem s Turn = side_id (other p)"
    using gp_okD(2) [OF inv] by (simp add: turn_ok_def)
  then show ?thesis
    using gp_turn_passes [OF inv] gp_turn_passes [OF gp_inv_ok_swap [OF inv]] assms(2) by blast
qed

section \<open>Sides\<close>

text \<open>
  Which side an instance takes, on a processor that opens a gate whose attributes are \<open>attrs\<close>.
\<close>

lemma GatePeterson_open_side:
  assumes "SharedRegion_isCacheEnabled M rid = Ok c" and "SharedRegion_getCacheLineSize M rid = Ok n"
    and "addr \<noteq> NULL" and "k \<noteq> 0"
  shows "\<exists>obj. gp_objType obj = ObjType_OPENDYNAMIC \<and>
    gp_selfId obj = (if ga_creatorProcId attrs = self then 0 else 1) \<and>
    gp_otherId obj = 1 - gp_selfId obj \<and>
    GatePeterson_Instance_init M k self True addr rid obj0 attrs =
      Ok (ga_creatorProcId attrs \<noteq> self \<and> ga_openerProcId attrs \<noteq> MultiProc_INVALIDID \<and>
            ga_openerProcId attrs \<noteq> self, obj,
          if ga_creatorProcId attrs \<noteq> self \<and> ga_openerProcId attrs = MultiProc_INVALIDID
          then attrs\<lparr>ga_openerProcId := self\<rparr> else attrs)"
  using assms by (auto simp: GatePeterson_Instance_init_def Let_def Assert_isTrue_def)

end
