(* ===== verification/GatePetersonN.thy ===== *)
theory GatePetersonN
imports SharedRegion
begin

text \<open>
  The gate for any number of processors of \<open>ti/sdo/ipc/gates/GatePetersonN.c\<close>: Peterson's
  algorithm in stages, as a step relation of processors over shared memory with a cache in front
  of it on each.
\<close>

section \<open>Instances\<close>

record GatePetersonN_Object =
  gn_enteredStage :: "ptr list"
  gn_lastProcEnteringStage :: "ptr list"
  gn_numProcessors :: nat
  gn_selfId :: nat
  gn_nested :: u32
  gn_objType :: Ipc_ObjType
  gn_cacheEnabled :: bool
  gn_cacheLineSize :: sizeT

text \<open>The alignment of the fields: a cache line, or the largest alignment of a type.\<close>

definition gn_minAlign :: "SharedRegion_Module \<Rightarrow> u16 \<Rightarrow> sizeT res" where
  "gn_minAlign M rid =
     res_bind (SharedRegion_getCacheLineSize M rid) (\<lambda>cls.
     Ok (if sr_typeAlign M < cls then cls else sr_typeAlign M))"

text \<open>The addresses of \<open>k\<close> fields from an offset on.\<close>

definition gn_fields :: "ptr \<Rightarrow> sizeT \<Rightarrow> nat \<Rightarrow> nat \<Rightarrow> ptr list" where
  "gn_fields addr minAlign i k = map (\<lambda>j. addr + of_nat (i + j) * minAlign) [0..<k]"

definition GatePetersonN_MAX_NUM_PROCS :: nat where "GatePetersonN_MAX_NUM_PROCS = 8"

text \<open>The arrays of an instance have room for \<open>MAX_NUM_PROCS\<close> processors.\<close>

definition GatePetersonN_Instance_init ::
  "SharedRegion_Module \<Rightarrow> nat \<Rightarrow> u16 \<Rightarrow> nat \<Rightarrow> u16 \<Rightarrow> bool \<Rightarrow> ptr \<Rightarrow> u16 \<Rightarrow> GatePetersonN_Object \<Rightarrow>
   GatePetersonN_Object res" where
  "GatePetersonN_Instance_init M numInstances self numProcs baseId openFlag addr rid obj0 =
     res_bind (gn_minAlign M rid) (\<lambda>minAlign.
     Assert_isTrue (sr_asserts M) (addr \<noteq> NULL) A_invParam (
     Assert_isTrue (sr_asserts M) (numInstances \<noteq> 0) A_invParam (
     res_bind (SharedRegion_isCacheEnabled M rid) (\<lambda>c.
     res_bind (SharedRegion_getCacheLineSize M rid) (\<lambda>cls.
     if GatePetersonN_MAX_NUM_PROCS < numProcs then Err Bad_access
     else Ok (obj0\<lparr>gn_cacheEnabled := c, gn_cacheLineSize := cls, gn_nested := 0,
          gn_numProcessors := numProcs, gn_selfId := unat (self - baseId),
          gn_enteredStage := gn_fields addr minAlign 0 numProcs,
          gn_lastProcEnteringStage := gn_fields addr minAlign numProcs (numProcs - 1),
          gn_objType := (if openFlag then ObjType_OPENDYNAMIC else ObjType_CREATEDYNAMIC)\<rparr>))))))"

text \<open>The memory asked for is in units of the region's cache line, not of the alignment.\<close>

definition GatePetersonN_sharedMemReq :: "SharedRegion_Module \<Rightarrow> nat \<Rightarrow> u16 \<Rightarrow> sizeT res" where
  "GatePetersonN_sharedMemReq M numProcs rid =
     res_bind (gn_minAlign M rid) (\<lambda>_.
     res_bind (SharedRegion_getCacheLineSize M rid) (\<lambda>cls.
     Ok (of_nat (2 * numProcs - 1) * cls)))"

section \<open>Shared memory behind caches\<close>

text \<open>The shared variables; a processor is its number in the cluster.\<close>

datatype gn_var = Entered nat | Last nat

definition GatePetersonN_NOT_INTERESTED :: int where
  "GatePetersonN_NOT_INTERESTED = -1"

text \<open>The steps of \<open>enter\<close> and \<open>leave\<close> a processor can be at.\<close>

datatype gn_pc =
    S_out        \<comment> \<open>not in the gate\<close>
  | S_begin      \<comment> \<open>at the head of the loop over the stages\<close>
  | S_entered    \<comment> \<open>\<open>enteredStage[myProcId]\<close> written\<close>
  | S_last       \<comment> \<open>\<open>lastProcEnteringStage[curStage]\<close> written\<close>
  | S_flushed    \<comment> \<open>the first of the two written back\<close>
  | S_inv1       \<comment> \<open>in the loop over the processors, or spinning: before invalidating \<open>enteredStage[proc]\<close>\<close>
  | S_inv2       \<comment> \<open>before invalidating \<open>lastProcEnteringStage[curStage]\<close>\<close>
  | S_test1      \<comment> \<open>before reading the first\<close>
  | S_test2      \<comment> \<open>before reading the second\<close>
  | S_in         \<comment> \<open>\<open>enter\<close> has returned\<close>
  | S_cleared    \<comment> \<open>\<open>leave\<close> has written \<open>NOT_INTERESTED\<close>\<close>

record gn_state =
  nm_mem :: "gn_var \<Rightarrow> int"
  nm_cache :: "nat \<Rightarrow> gn_var \<Rightarrow> (int \<times> bool) option"
  nm_pc :: "nat \<Rightarrow> gn_pc"
  nm_stage :: "nat \<Rightarrow> nat"
  nm_proc :: "nat \<Rightarrow> nat"
  nm_nested :: "nat \<Rightarrow> u32"

text \<open>
  Accesses of processor \<open>p\<close>. A cached line holds its value and whether it is dirty. With
  caching off memory is accessed directly and the cache operations do nothing.
\<close>

definition gn_read :: "bool \<Rightarrow> nat \<Rightarrow> gn_var \<Rightarrow> gn_state \<Rightarrow> int \<times> gn_state" where
  "gn_read c p v s =
     (if \<not> c then (nm_mem s v, s)
      else case nm_cache s p v of
        Some (x, d) \<Rightarrow> (x, s)
      | None \<Rightarrow> (nm_mem s v, s\<lparr>nm_cache := (nm_cache s)(p := (nm_cache s p)(v \<mapsto> (nm_mem s v, False)))\<rparr>))"

definition gn_write :: "bool \<Rightarrow> nat \<Rightarrow> gn_var \<Rightarrow> int \<Rightarrow> gn_state \<Rightarrow> gn_state" where
  "gn_write c p v x s =
     (if c then s\<lparr>nm_cache := (nm_cache s)(p := (nm_cache s p)(v \<mapsto> (x, True)))\<rparr>
      else s\<lparr>nm_mem := (nm_mem s)(v := x)\<rparr>)"

definition gn_wbInv :: "bool \<Rightarrow> nat \<Rightarrow> gn_var \<Rightarrow> gn_state \<Rightarrow> gn_state" where
  "gn_wbInv c p v s =
     (if c then
        s\<lparr>nm_mem := (case nm_cache s p v of Some (x, True) \<Rightarrow> (nm_mem s)(v := x) | _ \<Rightarrow> nm_mem s),
          nm_cache := (nm_cache s)(p := (nm_cache s p)(v := None))\<rparr>
      else s)"

definition gn_inv :: "bool \<Rightarrow> nat \<Rightarrow> gn_var \<Rightarrow> gn_state \<Rightarrow> gn_state" where
  "gn_inv c p v s =
     (if c then s\<lparr>nm_cache := (nm_cache s)(p := (nm_cache s p)(v := None))\<rparr> else s)"

definition gn_goto :: "nat \<Rightarrow> gn_pc \<Rightarrow> gn_state \<Rightarrow> gn_state" where
  "gn_goto p l s = s\<lparr>nm_pc := (nm_pc s)(p := l)\<rparr>"

section \<open>The protocol\<close>

text \<open>The head of the loop over the stages, and of the loop over the other processors.\<close>

definition gn_stage :: "nat \<Rightarrow> nat \<Rightarrow> nat \<Rightarrow> gn_state \<Rightarrow> gn_state" where
  "gn_stage N p j s =
     gn_goto p (if j < N - 1 then S_begin else S_in)
       (s\<lparr>nm_stage := (nm_stage s)(p := j), nm_proc := (nm_proc s)(p := 0)\<rparr>)"

definition gn_check :: "nat \<Rightarrow> nat \<Rightarrow> nat \<Rightarrow> gn_state \<Rightarrow> gn_state" where
  "gn_check N p k s =
     (let q = (if k = p then k + 1 else k) in
      if q < N then gn_goto p S_inv1 (s\<lparr>nm_proc := (nm_proc s)(p := q)\<rparr>)
      else gn_stage N p (nm_stage s p + 1) s)"

text \<open>A call of \<open>enter\<close>: only the outermost one goes through the stages.\<close>

definition GatePetersonN_enter :: "nat \<Rightarrow> nat \<Rightarrow> gn_state \<Rightarrow> gn_state" where
  "GatePetersonN_enter N p s =
     (let s1 = s\<lparr>nm_nested := (nm_nested s)(p := nm_nested s p + 1)\<rparr> in
      if 1 < nm_nested s1 p then s1 else gn_stage N p 0 s1)"

definition GatePetersonN_enter_step :: "bool \<Rightarrow> nat \<Rightarrow> nat \<Rightarrow> gn_state \<Rightarrow> gn_state" where
  "GatePetersonN_enter_step c N p s =
     (let j = nm_stage s p; q = nm_proc s p in
      case nm_pc s p of
        S_begin \<Rightarrow> gn_goto p S_entered (gn_write c p (Entered p) (int j) s)
      | S_entered \<Rightarrow> gn_goto p S_last (gn_write c p (Last j) (int p) s)
      | S_last \<Rightarrow> gn_goto p S_flushed (gn_wbInv c p (Entered p) s)
      | S_flushed \<Rightarrow> gn_check N p 0 (gn_wbInv c p (Last j) s)
      | S_inv1 \<Rightarrow> gn_goto p S_inv2 (gn_inv c p (Entered q) s)
      | S_inv2 \<Rightarrow> gn_goto p S_test1 (gn_inv c p (Last j) s)
      | S_test1 \<Rightarrow>
          (let (x, s1) = gn_read c p (Entered q) s in
           if int j \<le> x then gn_goto p S_test2 s1 else gn_check N p (q + 1) s1)
      | S_test2 \<Rightarrow>
          (let (x, s1) = gn_read c p (Last j) s in
           if x = int p then gn_goto p S_inv1 s1 else gn_check N p (q + 1) s1)
      | _ \<Rightarrow> s)"

definition GatePetersonN_leave :: "bool \<Rightarrow> nat \<Rightarrow> gn_state \<Rightarrow> gn_state" where
  "GatePetersonN_leave c p s =
     (let s1 = s\<lparr>nm_nested := (nm_nested s)(p := nm_nested s p - 1)\<rparr> in
      if nm_nested s1 p = 0
      then gn_goto p S_cleared (gn_write c p (Entered p) GatePetersonN_NOT_INTERESTED s1)
      else s1)"

definition GatePetersonN_leave_step :: "bool \<Rightarrow> nat \<Rightarrow> gn_state \<Rightarrow> gn_state" where
  "GatePetersonN_leave_step c p s = gn_goto p S_out (gn_wbInv c p (Entered p) s)"

text \<open>\<open>GatePetersonN_postInit\<close>: nobody interested, and nothing cached.\<close>

definition GatePetersonN_postInit :: gn_state where
  "GatePetersonN_postInit =
     \<lparr>nm_mem = (\<lambda>v. case v of Entered p \<Rightarrow> GatePetersonN_NOT_INTERESTED | Last j \<Rightarrow> 0),
      nm_cache = (\<lambda>p v. None), nm_pc = (\<lambda>p. S_out), nm_stage = (\<lambda>p. 0), nm_proc = (\<lambda>p. 0),
      nm_nested = (\<lambda>p. 0)\<rparr>"

text \<open>
  The moves of the \<open>N\<close> processors: each enters, steps on, leaves, and its cache fetches or drops
  a line at any time. \<open>d\<close> tells whether a cache may also write a dirty line back of its own
  accord. The gate of the processor itself (\<open>localGate\<close>) makes its threads take turns, so that
  a processor is one thread at a time. As in \<open>GatePeterson\<close>, an \<open>enter\<close> that would wrap the
  32-bit nesting counter to 0 is no move.
\<close>

definition line_clean :: "nat \<Rightarrow> gn_var \<Rightarrow> gn_state \<Rightarrow> bool" where
  "line_clean p v s \<longleftrightarrow> (case nm_cache s p v of Some (x, d) \<Rightarrow> \<not> d | None \<Rightarrow> True)"

inductive gn_step :: "bool \<Rightarrow> bool \<Rightarrow> nat \<Rightarrow> gn_state \<Rightarrow> gn_state \<Rightarrow> bool" for c d N where
  enter: "p < N \<Longrightarrow> nm_pc s p = S_out \<or> nm_pc s p = S_in \<and> nm_nested s p \<noteq> -1 \<Longrightarrow>
    gn_step c d N s (GatePetersonN_enter N p s)"
| enter_step: "p < N \<Longrightarrow> nm_pc s p \<notin> {S_out, S_in, S_cleared} \<Longrightarrow>
    gn_step c d N s (GatePetersonN_enter_step c N p s)"
| leave: "p < N \<Longrightarrow> nm_pc s p = S_in \<Longrightarrow> gn_step c d N s (GatePetersonN_leave c p s)"
| leave_step: "p < N \<Longrightarrow> nm_pc s p = S_cleared \<Longrightarrow> gn_step c d N s (GatePetersonN_leave_step c p s)"
| evict: "p < N \<Longrightarrow> d \<or> line_clean p v s \<Longrightarrow> gn_step c d N s (gn_wbInv c p v s)"
| prefetch: "p < N \<Longrightarrow> gn_step c d N s (snd (gn_read c p v s))"

inductive gn_reach :: "bool \<Rightarrow> bool \<Rightarrow> nat \<Rightarrow> gn_state \<Rightarrow> bool" for c d N where
  start: "gn_reach c d N GatePetersonN_postInit"
| move: "gn_reach c d N s \<Longrightarrow> gn_step c d N s s' \<Longrightarrow> gn_reach c d N s'"

inductive_cases gn_stepE: "gn_step c d N s s'"

section \<open>The invariant\<close>

text \<open>Where a processor stands in stage \<open>j\<close>: with its claim of it out, or past it.\<close>

definition gn_up :: "gn_pc \<Rightarrow> bool" where
  "gn_up l \<longleftrightarrow> l \<noteq> S_out \<and> l \<noteq> S_cleared"

definition in_check :: "gn_pc \<Rightarrow> bool" where
  "in_check l \<longleftrightarrow> l \<in> {S_inv1, S_inv2, S_test1, S_test2}"

definition est :: "bool \<Rightarrow> gn_state \<Rightarrow> nat \<Rightarrow> nat \<Rightarrow> bool" where
  "est c s p j \<longleftrightarrow> gn_up (nm_pc s p) \<and>
     (j < nm_stage s p \<or>
      j = nm_stage s p \<and> (in_check (nm_pc s p) \<or> \<not> c \<and> (nm_pc s p = S_last \<or> nm_pc s p = S_flushed)))"

definition passed :: "gn_state \<Rightarrow> nat \<Rightarrow> nat \<Rightarrow> bool" where
  "passed s p j \<longleftrightarrow> gn_up (nm_pc s p) \<and> j < nm_stage s p"

text \<open>The place, the counters, and the processor's own lines against memory.\<close>

definition gn_place :: "nat \<Rightarrow> gn_state \<Rightarrow> nat \<Rightarrow> bool" where
  "gn_place N s p \<longleftrightarrow> (let l = nm_pc s p; j = nm_stage s p in
     (gn_up l \<and> l \<noteq> S_in \<longrightarrow> j < N - 1) \<and> (l = S_in \<longrightarrow> j = N - 1) \<and>
     (in_check l \<longrightarrow> nm_proc s p < N \<and> nm_proc s p \<noteq> p) \<and>
     (nm_nested s p = 0 \<longleftrightarrow> \<not> gn_up l))"

definition gn_claim :: "bool \<Rightarrow> gn_state \<Rightarrow> nat \<Rightarrow> bool" where
  "gn_claim c s p \<longleftrightarrow> (let l = nm_pc s p; j = nm_stage s p; m = nm_mem s (Entered p) in
     -1 \<le> m \<and> (gn_up l \<longrightarrow> int j - 1 \<le> m) \<and> (l = S_flushed \<or> in_check l \<longrightarrow> int j \<le> m) \<and>
     (\<not> c \<and> (l = S_entered \<or> l = S_last) \<longrightarrow> int j \<le> m))"

definition gn_lines :: "bool \<Rightarrow> gn_state \<Rightarrow> nat \<Rightarrow> bool" where
  "gn_lines c s p \<longleftrightarrow> (let l = nm_pc s p; j = nm_stage s p; k = nm_cache s p in
     (\<not> c \<longrightarrow> (\<forall>v. k v = None)) \<and>
     (c \<and> (l = S_entered \<or> l = S_last) \<longrightarrow> k (Entered p) = Some (int j, True)) \<and>
     (c \<and> (l = S_last \<or> l = S_flushed) \<longrightarrow> k (Last j) = Some (int p, True)) \<and>
     (\<forall>v x. k v = Some (x, True) \<longrightarrow> -1 \<le> x \<and>
        (v = Entered p \<and> (l = S_entered \<or> l = S_last \<or> l = S_cleared) \<or>
         v = Last j \<and> (l = S_last \<or> l = S_flushed))) \<and>
     (\<forall>x d. in_check l \<and> k (Last j) = Some (x, d) \<and> x \<noteq> int p \<longrightarrow> nm_mem s (Last j) \<noteq> int p))"

text \<open>
  While \<open>p\<close> is checking and the last to enter its stage, no processor it has checked, or is
  about to pass on an old copy, has its claim of the stage out.
\<close>

definition gn_checked :: "bool \<Rightarrow> gn_state \<Rightarrow> nat \<Rightarrow> nat \<Rightarrow> bool" where
  "gn_checked c s p q \<longleftrightarrow> (let l = nm_pc s p; j = nm_stage s p in
     in_check l \<and> nm_mem s (Last j) = int p \<longrightarrow>
       (q < nm_proc s p \<longrightarrow> \<not> est c s q j) \<and>
       (\<forall>x d. q = nm_proc s p \<and> (l = S_inv2 \<or> l = S_test1) \<and> nm_cache s p (Entered q) = Some (x, d) \<and>
          x < int j \<longrightarrow> \<not> est c s q j))"

text \<open>When two claims of a stage are out, the last to enter it has not passed it.\<close>

definition gn_last :: "bool \<Rightarrow> nat \<Rightarrow> gn_state \<Rightarrow> nat \<Rightarrow> bool" where
  "gn_last c N s j \<longleftrightarrow> (\<forall>p<N. \<forall>q<N. p \<noteq> q \<and> est c s p j \<and> est c s q j \<longrightarrow>
     (\<exists>v<N. nm_mem s (Last j) = int v \<and> est c s v j \<and> \<not> passed s v j))"

definition gn_ok :: "bool \<Rightarrow> nat \<Rightarrow> gn_state \<Rightarrow> bool" where
  "gn_ok c N s \<longleftrightarrow> (\<forall>p<N. gn_place N s p \<and> gn_claim c s p \<and> gn_lines c s p \<and>
     (\<forall>q<N. q \<noteq> p \<longrightarrow> gn_checked c s p q)) \<and> (\<forall>j. gn_last c N s j)"

lemmas gn_ok_defs = gn_place_def gn_claim_def gn_lines_def gn_checked_def gn_last_def Let_def
lemmas gn_est_defs = est_def passed_def gn_up_def in_check_def
lemmas gn_access_defs = gn_read_def gn_write_def gn_wbInv_def gn_inv_def gn_goto_def

lemma gn_start: "gn_ok c N GatePetersonN_postInit"
  by (simp add: gn_ok_def gn_ok_defs gn_est_defs GatePetersonN_postInit_def GatePetersonN_NOT_INTERESTED_def)

text \<open>A claim that is out is in memory.\<close>

lemma est_mem:
  assumes "gn_claim c s q" and "est c s q j"
  shows "int j \<le> nm_mem s (Entered q)"
  using assms by (auto simp: gn_claim_def est_def Let_def)

text \<open>Both depend on places and stages only.\<close>

lemma est_cong:
  assumes "nm_pc t = nm_pc s" and "nm_stage t = nm_stage s"
  shows "est c t = est c s" and "passed t = passed s"
  using assms by (simp_all add: fun_eq_iff est_def passed_def)

lemma gn_okI:
  assumes "\<And>p. p < N \<Longrightarrow> gn_place N s p" and "\<And>p. p < N \<Longrightarrow> gn_claim c s p"
    and "\<And>p. p < N \<Longrightarrow> gn_lines c s p"
    and "\<And>p q. p < N \<Longrightarrow> q < N \<Longrightarrow> q \<noteq> p \<Longrightarrow> gn_checked c s p q" and "\<And>j. gn_last c N s j"
  shows "gn_ok c N s"
  using assms by (simp add: gn_ok_def)

lemma gn_okD:
  assumes "gn_ok c N s"
  shows "p < N \<Longrightarrow> gn_place N s p" and "p < N \<Longrightarrow> gn_claim c s p" and "p < N \<Longrightarrow> gn_lines c s p"
    and "p < N \<Longrightarrow> q < N \<Longrightarrow> q \<noteq> p \<Longrightarrow> gn_checked c s p q" and "gn_last c N s j"
  using assms by (simp_all add: gn_ok_def)

text \<open>A cache drops a line, clean or not needed, or fetches one.\<close>

lemma gn_lines_sub:
  assumes L: "gn_lines c s p" and same: "nm_pc t = nm_pc s" "nm_stage t = nm_stage s" "nm_mem t = nm_mem s"
    and kept: "\<And>v x. nm_cache s p v = Some (x, True) \<Longrightarrow> nm_cache t p v = Some (x, True)"
    and sub: "\<And>v x d. nm_cache t p v = Some (x, d) \<Longrightarrow>
      nm_cache s p v = Some (x, d) \<or> c \<and> x = nm_mem s v \<and> \<not> d"
  shows "gn_lines c t p"
proof -
  note L' = L [unfolded gn_lines_def Let_def]
  have none: "nm_cache t p v = None" if nc: "\<not> c" for v
  proof (cases "nm_cache t p v")
    case (Some xd)
    obtain x d where "nm_cache t p v = Some (x, d)" using Some by (cases xd) simp
    from sub [OF this] have "nm_cache s p v \<noteq> None" using nc by auto
    then show ?thesis using L' nc by simp
  qed
  have dirty: "nm_cache s p v = Some (x, True)" if "nm_cache t p v = Some (x, True)" for v x
    using sub [OF that] by simp
  have copy: "nm_mem s (Last (nm_stage s p)) \<noteq> int p"
    if l: "in_check (nm_pc s p)" and k: "nm_cache t p (Last (nm_stage s p)) = Some (x, d)" and x: "x \<noteq> int p" for x d
    using sub [OF k]
  proof
    assume "nm_cache s p (Last (nm_stage s p)) = Some (x, d)"
    then show ?thesis using L' l x by blast
  qed (use x in simp)
  show ?thesis
    unfolding gn_lines_def Let_def same
  proof (intro conjI)
    show "\<not> c \<longrightarrow> (\<forall>v. nm_cache t p v = None)" using none by simp
    show "c \<and> (nm_pc s p = S_entered \<or> nm_pc s p = S_last) \<longrightarrow>
        nm_cache t p (Entered p) = Some (int (nm_stage s p), True)" using L' kept by simp
    show "c \<and> (nm_pc s p = S_last \<or> nm_pc s p = S_flushed) \<longrightarrow>
        nm_cache t p (Last (nm_stage s p)) = Some (int p, True)" using L' kept by simp
    show "\<forall>v x. nm_cache t p v = Some (x, True) \<longrightarrow> -1 \<le> x \<and>
        (v = Entered p \<and> (nm_pc s p = S_entered \<or> nm_pc s p = S_last \<or> nm_pc s p = S_cleared) \<or>
         v = Last (nm_stage s p) \<and> (nm_pc s p = S_last \<or> nm_pc s p = S_flushed))"
    proof (intro allI impI)
      fix v x assume "nm_cache t p v = Some (x, True)"
      from dirty [OF this] L' show "-1 \<le> x \<and>
        (v = Entered p \<and> (nm_pc s p = S_entered \<or> nm_pc s p = S_last \<or> nm_pc s p = S_cleared) \<or>
         v = Last (nm_stage s p) \<and> (nm_pc s p = S_last \<or> nm_pc s p = S_flushed))" by blast
    qed
    show "\<forall>x d. in_check (nm_pc s p) \<and> nm_cache t p (Last (nm_stage s p)) = Some (x, d) \<and> x \<noteq> int p \<longrightarrow>
        nm_mem s (Last (nm_stage s p)) \<noteq> int p" using copy by blast
  qed
qed

lemma gn_ok_cache:
  assumes ok: "gn_ok c N s"
    and same: "nm_mem t = nm_mem s" "nm_pc t = nm_pc s" "nm_stage t = nm_stage s"
      "nm_proc t = nm_proc s" "nm_nested t = nm_nested s"
    and kept: "\<And>p v x. nm_cache s p v = Some (x, True) \<Longrightarrow> nm_cache t p v = Some (x, True)"
    and sub: "\<And>p v x d. nm_cache t p v = Some (x, d) \<Longrightarrow>
      nm_cache s p v = Some (x, d) \<or> c \<and> x = nm_mem s v \<and> \<not> d"
  shows "gn_ok c N t"
proof (rule gn_okI)
  note e = est_cong [OF same(2,3)]
  fix p assume p: "p < N"
  show "gn_place N t p" "gn_claim c t p"
    using gn_okD(1,2) [OF ok p] same by (simp_all add: gn_place_def gn_claim_def)
  show "gn_lines c t p"
    by (rule gn_lines_sub [OF gn_okD(3) [OF ok p] same(2,3,1) kept sub])
  show "gn_checked c t p q" if q: "q < N" "q \<noteq> p" for q
  proof -
    have "int (nm_stage s p) \<le> nm_mem s (Entered q)" if "est c s q (nm_stage s p)"
      using est_mem [OF gn_okD(2) [OF ok q(1)] that] .
    note est_q = this
    note C = gn_okD(4) [OF ok p q, unfolded gn_checked_def Let_def]
    show ?thesis unfolding gn_checked_def Let_def same e
    proof (intro impI conjI allI; elim conjE)
      assume "in_check (nm_pc s p)" "nm_mem s (Last (nm_stage s p)) = int p" "q < nm_proc s p"
      with C show "\<not> est c s q (nm_stage s p)" by blast
    next
      fix x d
      assume l: "in_check (nm_pc s p)" "nm_mem s (Last (nm_stage s p)) = int p" "q = nm_proc s p"
        "nm_pc s p = S_inv2 \<or> nm_pc s p = S_test1"
        and k: "nm_cache t p (Entered q) = Some (x, d)" and x: "x < int (nm_stage s p)"
      from sub [OF k] show "\<not> est c s q (nm_stage s p)"
      proof
        assume "nm_cache s p (Entered q) = Some (x, d)"
        with C l x show ?thesis by blast
      next
        assume "c \<and> x = nm_mem s (Entered q) \<and> \<not> d"
        with est_q x show ?thesis by auto
      qed
    qed
  qed
next
  show "gn_last c N t j" for j
    using gn_okD(5) [OF ok, of j] unfolding gn_last_def same est_cong [OF same(2,3)] .
qed

lemma gn_ok_drop:
  assumes "gn_ok c N s" and "line_clean p v s"
  shows "gn_ok c N (gn_inv c p v s)" and "gn_wbInv c p v s = gn_inv c p v s"
proof -
  show "gn_wbInv c p v s = gn_inv c p v s"
    using assms(2) by (auto simp: gn_wbInv_def gn_inv_def line_clean_def split: option.splits bool.splits)
  show "gn_ok c N (gn_inv c p v s)"
    by (rule gn_ok_cache [OF assms(1)])
      (use assms(2) in \<open>auto simp: gn_inv_def line_clean_def split: if_splits option.splits\<close>)
qed

lemma gn_ok_fetch:
  assumes "gn_ok c N s"
  shows "gn_ok c N (snd (gn_read c p v s))"
  by (rule gn_ok_cache [OF assms])
    (auto simp: gn_read_def split: if_splits option.splits)

text \<open>
  A move of one processor: what it may change, and what is left to show for the invariant. A
  claim comes out together with the entry in \<open>lastProcEnteringStage\<close>, and goes when its stage
  has been passed.
\<close>

definition gn_moved :: "nat \<Rightarrow> gn_state \<Rightarrow> gn_state \<Rightarrow> bool" where
  "gn_moved p s t \<longleftrightarrow> (\<forall>r. r \<noteq> p \<longrightarrow> nm_pc t r = nm_pc s r \<and> nm_stage t r = nm_stage s r \<and>
     nm_proc t r = nm_proc s r \<and> nm_nested t r = nm_nested s r \<and> nm_cache t r = nm_cache s r \<and>
     nm_mem t (Entered r) = nm_mem s (Entered r))"

lemma moved_est:
  assumes "gn_moved p s t" and "r \<noteq> p"
  shows "est c t r j = est c s r j" and "passed t r j = passed s r j"
  using assms by (simp_all add: gn_moved_def est_def passed_def)

lemma gn_ok_move:
  assumes ok: "gn_ok c N s" and p: "p < N" and mv: "gn_moved p s t"
    and last: "\<And>j. nm_mem t (Last j) = nm_mem s (Last j) \<or>
      nm_mem t (Last j) = int p \<and> est c t p j \<and> \<not> passed t p j"
    and new: "\<And>j. est c t p j \<Longrightarrow> est c s p j \<or> nm_mem t (Last j) = int p \<and> \<not> passed t p j"
    and gone: "\<And>j. est c s p j \<Longrightarrow> est c t p j \<or> passed s p j"
    and pass: "\<And>j. passed t p j \<Longrightarrow> passed s p j \<or> nm_mem s (Last j) \<noteq> int p \<or>
      (\<forall>q<N. q \<noteq> p \<longrightarrow> \<not> est c s q j)"
    and own: "gn_place N t p" "gn_claim c t p" "gn_lines c t p"
    and checked: "\<And>q. q < N \<Longrightarrow> q \<noteq> p \<Longrightarrow> gn_checked c t p q"
  shows "gn_ok c N t"
proof (rule gn_okI)
  note e = moved_est [OF mv]
  have frame: "nm_pc t r = nm_pc s r" "nm_stage t r = nm_stage s r" "nm_proc t r = nm_proc s r"
    "nm_nested t r = nm_nested s r" "nm_cache t r = nm_cache s r"
    "nm_mem t (Entered r) = nm_mem s (Entered r)" if "r \<noteq> p" for r
    using mv that by (simp_all add: gn_moved_def)
  have lst: "nm_mem s (Last j) = int r" if "nm_mem t (Last j) = int r" "r \<noteq> p" for j r
    using last [of j] that by auto
  fix r assume r: "r < N"
  show "gn_place N t r" using gn_okD(1) [OF ok r] own(1) frame by (cases "r = p") (simp_all add: gn_place_def)
  show "gn_claim c t r" using gn_okD(2) [OF ok r] own(2) frame by (cases "r = p") (simp_all add: gn_claim_def)
  show "gn_lines c t r"
  proof (cases "r = p")
    case False
    have "nm_mem t (Last j) \<noteq> int r" if "nm_mem s (Last j) \<noteq> int r" for j
      using lst [OF _ False] that by blast
    then show ?thesis
      using gn_okD(3) [OF ok r] unfolding gn_lines_def Let_def frame [OF False] by blast
  qed (use own(3) in simp)
  fix q assume q: "q < N" "q \<noteq> r"
  show "gn_checked c t r q"
  proof (cases "r = p")
    case False
    have "est c s q j" if "est c t q j" "nm_mem t (Last j) = int r" for j
      using that new [of j] e(1) [of q] False by (cases "q = p") auto
    then show ?thesis
      using gn_okD(4) [OF ok r q] lst [OF _ False] unfolding gn_checked_def Let_def frame [OF False] by blast
  qed (use q checked in simp)
next
  fix j
  note e = moved_est [OF mv]
  show "gn_last c N t j"
    unfolding gn_last_def
  proof (intro allI impI, elim conjE)
    fix x y assume xy: "x < N" "y < N" "x \<noteq> y" "est c t x j" "est c t y j"
    show "\<exists>v<N. nm_mem t (Last j) = int v \<and> est c t v j \<and> \<not> passed t v j"
    proof (cases "nm_mem t (Last j) = int p \<and> est c t p j \<and> \<not> passed t p j")
      case True
      with p show ?thesis by blast
    next
      case False
      then have m: "nm_mem t (Last j) = nm_mem s (Last j)" using last [of j] by blast
      have old: "est c s z j" if "est c t z j" for z
        using that new [of j] e(1) [of z] False by (cases "z = p") auto
      obtain v where v: "v < N" "nm_mem s (Last j) = int v" "est c s v j" "\<not> passed s v j"
        using gn_okD(5) [OF ok, of j] xy old unfolding gn_last_def by blast
      show ?thesis
      proof (cases "v = p")
        case True
        have "\<exists>z<N. z \<noteq> p \<and> est c s z j" using xy old by (cases "x = p") auto
        then have "\<not> passed t p j" using pass [of j] v True by blast
        moreover have "est c t p j" using gone [of j] v True by blast
        ultimately show ?thesis using p v(2) m True by auto
      qed (use v m e in auto)
    qed
  qed
qed

lemma gn_access_simps [simp]:
  "nm_pc (gn_write c p v x s) = nm_pc s" "nm_stage (gn_write c p v x s) = nm_stage s"
  "nm_proc (gn_write c p v x s) = nm_proc s" "nm_nested (gn_write c p v x s) = nm_nested s"
  "nm_mem (gn_write c p v x s) = (if c then nm_mem s else (nm_mem s)(v := x))"
  "nm_cache (gn_write c p v x s) =
     (if c then (nm_cache s)(p := (nm_cache s p)(v \<mapsto> (x, True))) else nm_cache s)"
  "nm_pc (gn_wbInv c p v s) = nm_pc s" "nm_stage (gn_wbInv c p v s) = nm_stage s"
  "nm_proc (gn_wbInv c p v s) = nm_proc s" "nm_nested (gn_wbInv c p v s) = nm_nested s"
  "nm_cache (gn_wbInv c p v s) = (if c then (nm_cache s)(p := (nm_cache s p)(v := None)) else nm_cache s)"
  "nm_pc (gn_inv c p v s) = nm_pc s" "nm_stage (gn_inv c p v s) = nm_stage s"
  "nm_proc (gn_inv c p v s) = nm_proc s" "nm_nested (gn_inv c p v s) = nm_nested s"
  "nm_mem (gn_inv c p v s) = nm_mem s"
  "nm_cache (gn_inv c p v s) = (if c then (nm_cache s)(p := (nm_cache s p)(v := None)) else nm_cache s)"
  "nm_pc (gn_goto p l s) = (nm_pc s)(p := l)" "nm_stage (gn_goto p l s) = nm_stage s"
  "nm_proc (gn_goto p l s) = nm_proc s" "nm_nested (gn_goto p l s) = nm_nested s"
  "nm_mem (gn_goto p l s) = nm_mem s" "nm_cache (gn_goto p l s) = nm_cache s"
  by (simp_all add: gn_access_defs)

lemma gn_wbInv_mem:
  "nm_mem (gn_wbInv c p v s) = (if c then (case nm_cache s p v of Some (x, True) \<Rightarrow> (nm_mem s)(v := x)
     | _ \<Rightarrow> nm_mem s) else nm_mem s)"
  by (simp add: gn_wbInv_def)

lemma gn_pc_simps [simp]:
  "\<not> gn_up S_out" "\<not> gn_up S_cleared" "gn_up S_begin" "gn_up S_entered" "gn_up S_last" "gn_up S_flushed"
  "gn_up S_inv1" "gn_up S_inv2" "gn_up S_test1" "gn_up S_test2" "gn_up S_in"
  "\<not> in_check S_out" "\<not> in_check S_cleared" "\<not> in_check S_begin" "\<not> in_check S_entered"
  "\<not> in_check S_last" "\<not> in_check S_flushed" "in_check S_inv1" "in_check S_inv2" "in_check S_test1"
  "in_check S_test2" "\<not> in_check S_in"
  by (simp_all add: gn_up_def in_check_def)

lemma gn_ok_enter:
  assumes ok: "gn_ok c N s" and p: "p < N"
    and pc: "nm_pc s p = S_out \<or> nm_pc s p = S_in \<and> nm_nested s p \<noteq> -1"
  shows "gn_ok c N (GatePetersonN_enter N p s)"
proof (cases "nm_pc s p = S_out")
  case True
  have n: "nm_nested s p = 0" using gn_okD(1) [OF ok p] True by (simp add: gn_place_def)
  show ?thesis
  proof (rule gn_ok_move [OF ok p])
    show "gn_lines c (GatePetersonN_enter N p s) p"
      using gn_okD(3) [OF ok p] True n unfolding gn_lines_def GatePetersonN_enter_def gn_stage_def gn_goto_def Let_def
      by auto
  qed (use gn_okD(1,2) [OF ok p] p True n in
      \<open>auto simp: GatePetersonN_enter_def gn_stage_def gn_goto_def gn_moved_def est_def passed_def
        gn_place_def gn_claim_def gn_checked_def split: if_splits\<close>)
next
  case False
  then have "nm_pc s p = S_in" using pc by simp
  then have "nm_nested s p \<noteq> 0" using gn_okD(1) [OF ok p] by (simp add: gn_place_def)
  moreover from False have "nm_nested s p \<noteq> -1" using pc by simp
  ultimately have n: "nm_nested s p \<noteq> 0" "nm_nested s p + 1 \<noteq> 0" "1 < nm_nested s p + 1"
    using nested_again nested_wraps by auto
  show ?thesis
  proof (rule gn_ok_move [OF ok p])
    show "gn_lines c (GatePetersonN_enter N p s) p"
      using gn_okD(3) [OF ok p] n by (simp add: gn_lines_def GatePetersonN_enter_def)
  qed (use gn_okD(1,2) [OF ok p] gn_okD(4) [OF ok p] n in
      \<open>auto simp: GatePetersonN_enter_def gn_moved_def est_def passed_def
        gn_place_def gn_claim_def gn_checked_def\<close>)
qed

lemma gn_ok_begin:
  assumes ok: "gn_ok c N s" and p: "p < N" and pc: "nm_pc s p = S_begin"
  shows "gn_ok c N (gn_goto p S_entered (gn_write c p (Entered p) (int (nm_stage s p)) s))"
proof (rule gn_ok_move [OF ok p])
  let ?t = "gn_goto p S_entered (gn_write c p (Entered p) (int (nm_stage s p)) s)"
  show "gn_lines c ?t p"
    using gn_okD(3) [OF ok p] pc unfolding gn_lines_def Let_def by auto
qed (use gn_okD(1,2) [OF ok p] pc in
    \<open>auto simp: gn_moved_def est_def passed_def gn_place_def gn_claim_def
      gn_checked_def Let_def\<close>)

lemma gn_ok_entered:
  assumes ok: "gn_ok c N s" and p: "p < N" and pc: "nm_pc s p = S_entered"
  shows "gn_ok c N (gn_goto p S_last (gn_write c p (Last (nm_stage s p)) (int p) s))"
proof (rule gn_ok_move [OF ok p])
  let ?t = "gn_goto p S_last (gn_write c p (Last (nm_stage s p)) (int p) s)"
  show "gn_lines c ?t p"
    using gn_okD(3) [OF ok p] pc unfolding gn_lines_def Let_def by auto
qed (use gn_okD(1,2) [OF ok p] pc in
    \<open>auto simp: gn_moved_def est_def passed_def gn_place_def gn_claim_def
      gn_checked_def Let_def\<close>)

lemma gn_ok_last:
  assumes ok: "gn_ok c N s" and p: "p < N" and pc: "nm_pc s p = S_last"
  shows "gn_ok c N (gn_goto p S_flushed (gn_wbInv c p (Entered p) s))"
proof (rule gn_ok_move [OF ok p])
  let ?t = "gn_goto p S_flushed (gn_wbInv c p (Entered p) s)"
  have k: "c \<Longrightarrow> nm_cache s p (Entered p) = Some (int (nm_stage s p), True)"
    using gn_okD(3) [OF ok p] pc by (simp add: gn_lines_def Let_def)
  show "gn_lines c ?t p"
    using gn_okD(3) [OF ok p] pc k unfolding gn_lines_def Let_def by (auto simp: gn_wbInv_mem)
  show "gn_claim c ?t p"
    using gn_okD(2) [OF ok p] pc k by (cases c) (simp_all add: gn_claim_def gn_wbInv_mem Let_def)
  show "nm_mem ?t (Last j) = nm_mem s (Last j) \<or> nm_mem ?t (Last j) = int p \<and> est c ?t p j \<and> \<not> passed ?t p j" for j
    using k by (simp add: gn_wbInv_mem)
qed (use gn_okD(1) [OF ok p] pc in
    \<open>auto simp: gn_wbInv_mem gn_moved_def est_def passed_def gn_place_def
      gn_checked_def Let_def split: option.splits bool.splits\<close>)

lemma gn_ok_flushed:
  assumes ok: "gn_ok c N s" and p: "p < N" and pc: "nm_pc s p = S_flushed"
  shows "gn_ok c N (gn_check N p 0 (gn_wbInv c p (Last (nm_stage s p)) s))"
proof -
  let ?j = "nm_stage s p"
  have k: "c \<Longrightarrow> nm_cache s p (Last ?j) = Some (int p, True)"
    using gn_okD(3) [OF ok p] pc by (simp add: gn_lines_def Let_def)
  have j: "?j < N - 1" using gn_okD(1) [OF ok p] pc by (simp add: gn_place_def)
  define q where "q = (if p = 0 then 1 else 0 :: nat)"
  define t where "t = gn_goto p S_inv1 ((gn_wbInv c p (Last ?j) s)\<lparr>nm_proc := (nm_proc s)(p := q)\<rparr>)"
  have q: "q < N" "q \<noteq> p" "\<And>r. r < q \<Longrightarrow> r = p" using j by (auto simp: q_def split: if_splits)
  have t: "gn_check N p 0 (gn_wbInv c p (Last ?j) s) = t"
    using q(1) by (cases "p = 0") (simp_all add: gn_check_def t_def q_def Let_def)
  have f: "nm_pc t = (nm_pc s)(p := S_inv1)" "nm_stage t = nm_stage s" "nm_proc t = (nm_proc s)(p := q)"
    "nm_nested t = nm_nested s" "nm_mem t = (if c then (nm_mem s)(Last ?j := int p) else nm_mem s)"
    "nm_cache t = (if c then (nm_cache s)(p := (nm_cache s p)(Last ?j := None)) else nm_cache s)"
    using k by (auto simp: t_def gn_wbInv_mem)
  have mem: "c \<Longrightarrow> nm_mem t (Last ?j) = int p" using f by simp
  have "gn_ok c N t"
  proof (rule gn_ok_move [OF ok p])
    note L = gn_okD(3) [OF ok p, unfolded gn_lines_def Let_def]
    have "nm_cache t p v \<noteq> Some (x, True)" for v x
    proof
      assume a: "nm_cache t p v = Some (x, True)"
      then have "nm_cache s p v = Some (x, True)" "c \<longrightarrow> v \<noteq> Last ?j" by (simp_all add: f split: if_splits)
      with L pc show False by (cases c) auto
    qed
    moreover have "nm_cache t p (Last ?j) = None" "\<not> c \<longrightarrow> (\<forall>v. nm_cache t p v = None)"
      using L by (simp_all add: f)
    ultimately show "gn_lines c t p" by (simp add: gn_lines_def f(1,2) Let_def)
    show "gn_checked c t p r" if "r < N" "r \<noteq> p" for r
      using q(3) that by (auto simp: gn_checked_def f Let_def)
  qed (use gn_okD(1,2) [OF ok p] pc q in
      \<open>auto simp: f gn_moved_def est_def passed_def gn_place_def gn_claim_def Let_def\<close>)
  then show ?thesis using t by simp
qed

lemma gn_ok_inv:
  assumes ok: "gn_ok c N s" and p: "p < N"
    and pc: "nm_pc s p = S_inv1 \<and> v = Entered (nm_proc s p) \<and> l = S_inv2 \<or>
      nm_pc s p = S_inv2 \<and> v = Last (nm_stage s p) \<and> l = S_test1"
  shows "gn_ok c N (gn_goto p l (gn_inv c p v s))"
proof -
  let ?s = "gn_inv c p v s"
  let ?t = "gn_goto p l ?s"
  note L = gn_okD(3) [OF ok p, unfolded gn_lines_def Let_def]
  have places: "in_check (nm_pc s p)" "in_check l" "gn_up (nm_pc s p)" "gn_up l" "nm_pc s p \<noteq> S_in" "l \<noteq> S_in"
    "nm_pc s p \<noteq> S_entered" "nm_pc s p \<noteq> S_last" "nm_pc s p \<noteq> S_cleared" "nm_pc s p \<noteq> S_flushed"
    "l \<noteq> S_entered" "l \<noteq> S_last" "l \<noteq> S_flushed" using pc by auto
  have clean: "nm_cache s p u \<noteq> Some (x, True)" for u x using L places by blast
  then have "line_clean p v s" by (auto simp: line_clean_def split: option.splits)
  from gn_ok_drop(1) [OF ok this] have ok1: "gn_ok c N ?s" .
  have mv: "gn_moved p ?s ?t" by (simp add: gn_moved_def)
  have e: "est c ?t p j = est c ?s p j" "passed ?t p j = passed ?s p j" for j
    using places by (simp_all add: est_def passed_def)
  show ?thesis
  proof (rule gn_ok_move [OF ok1 p mv])
    show "gn_lines c ?t p"
      using gn_okD(3) [OF ok1 p] clean places by (simp add: gn_lines_def Let_def)
    show "gn_checked c ?t p q" if q: "q < N" "q \<noteq> p" for q
      using gn_okD(4) [OF ok1 p q] moved_est(1) [OF mv q(2)] places pc L
      by (auto simp: gn_checked_def Let_def)
    show "gn_place N ?t p" "gn_claim c ?t p"
      using gn_okD(1,2) [OF ok1 p] places by (simp_all add: gn_place_def gn_claim_def Let_def)
  qed (simp_all add: e)
qed

text \<open>\<open>p\<close> has done with the processors below \<open>k\<close>.\<close>

lemma gn_ok_check:
  assumes ok: "gn_ok c N s" and p: "p < N" and pc: "in_check (nm_pc s p)"
    and seen: "\<And>q. q < k \<Longrightarrow> q < N \<Longrightarrow> q \<noteq> p \<Longrightarrow> nm_mem s (Last (nm_stage s p)) = int p \<Longrightarrow>
      \<not> est c s q (nm_stage s p)"
  shows "gn_ok c N (gn_check N p k s)"
proof -
  let ?j = "nm_stage s p"
  define q where "q = (if k = p then k + 1 else k)"
  have qp: "q \<noteq> p" "\<And>r. r < q \<Longrightarrow> r < k \<or> r = p" by (auto simp: q_def split: if_splits)
  have l: "nm_pc s p \<noteq> S_in" "gn_up (nm_pc s p)" "nm_pc s p \<noteq> S_out" "nm_pc s p \<noteq> S_cleared"
    "nm_pc s p \<noteq> S_entered" "nm_pc s p \<noteq> S_last" "nm_pc s p \<noteq> S_flushed"
    using pc by (auto simp: in_check_def)
  note L = gn_okD(3) [OF ok p, unfolded gn_lines_def Let_def]
  have clean: "nm_cache s p v \<noteq> Some (x, True)" for v x using L l by blast
  have j: "?j < N - 1" using gn_okD(1) [OF ok p] l by (simp add: gn_place_def Let_def)
  have claim: "int ?j \<le> nm_mem s (Entered p)" "-1 \<le> nm_mem s (Entered p)"
    using gn_okD(2) [OF ok p] pc by (simp_all add: gn_claim_def Let_def)
  have nested: "nm_nested s p \<noteq> 0" using gn_okD(1) [OF ok p] l by (simp add: gn_place_def Let_def)
  show ?thesis
  proof (cases "q < N")
    case True
    define t where "t = gn_goto p S_inv1 (s\<lparr>nm_proc := (nm_proc s)(p := q)\<rparr>)"
    have f: "nm_pc t = (nm_pc s)(p := S_inv1)" "nm_stage t = nm_stage s" "nm_proc t = (nm_proc s)(p := q)"
      "nm_nested t = nm_nested s" "nm_mem t = nm_mem s" "nm_cache t = nm_cache s"
      by (simp_all add: t_def)
    have mv: "gn_moved p s t" by (simp add: gn_moved_def f)
    have "gn_ok c N t"
    proof (rule gn_ok_move [OF ok p mv])
      show "gn_lines c t p" using L clean pc by (simp add: gn_lines_def f Let_def)
      show "gn_checked c t p r" if r: "r < N" "r \<noteq> p" for r
        using seen [OF _ r] qp(2) [of r] r(2) moved_est(1) [OF mv r(2)]
        by (auto simp: gn_checked_def f Let_def)
    qed (use j claim nested pc qp(1) True l(2) in
        \<open>auto simp: f est_def passed_def gn_place_def gn_claim_def Let_def\<close>)
    then show ?thesis using True by (simp add: gn_check_def t_def q_def Let_def)
  next
    case False
    define t where "t = gn_stage N p (?j + 1) s"
    let ?l = "if ?j + 1 < N - 1 then S_begin else S_in"
    have f: "nm_pc t = (nm_pc s)(p := ?l)" "nm_stage t = (nm_stage s)(p := ?j + 1)"
      "nm_proc t = (nm_proc s)(p := 0)" "nm_nested t = nm_nested s" "nm_mem t = nm_mem s"
      "nm_cache t = nm_cache s"
      by (simp_all add: t_def gn_stage_def)
    have mv: "gn_moved p s t" by (simp add: gn_moved_def f)
    have alone: "\<not> est c s r ?j" if "r < N" "r \<noteq> p" "nm_mem s (Last ?j) = int p" for r
      using seen [of r] qp(2) [of r] that False by auto
    have up: "gn_up ?l" "\<not> in_check ?l" "?l \<noteq> S_last" "?l \<noteq> S_flushed" "?l \<noteq> S_entered" "?l \<noteq> S_cleared" by auto
    have est_t: "est c t p i \<longleftrightarrow> i \<le> ?j" "passed t p i \<longleftrightarrow> i \<le> ?j" "est c s p i \<longleftrightarrow> i \<le> ?j"
      "passed s p i \<longleftrightarrow> i < ?j" for i
      using up l pc by (auto simp: est_def passed_def f)
    have "gn_ok c N t"
    proof (rule gn_ok_move [OF ok p mv])
      show "passed s p i \<or> nm_mem s (Last i) \<noteq> int p \<or> (\<forall>r<N. r \<noteq> p \<longrightarrow> \<not> est c s r i)"
        if "passed t p i" for i
        using that alone by (cases "i = ?j") (auto simp: est_t)
      show "gn_place N t p" using j nested up by (auto simp: gn_place_def f Let_def)
      show "gn_claim c t p" using claim up by (auto simp: gn_claim_def f Let_def)
      show "gn_lines c t p" using L clean up by (auto simp: gn_lines_def f Let_def)
      show "gn_checked c t p r" for r using up by (auto simp: gn_checked_def f Let_def)
    qed (simp_all add: est_t f(5))
    then show ?thesis using False by (simp add: gn_check_def t_def q_def Let_def)
  qed
qed

text \<open>The two tests: what was read lets \<open>p\<close> pass a processor, or not.\<close>

lemma gn_ok_goto_check:
  assumes ok: "gn_ok c N s" and p: "p < N"
    and pc: "nm_pc s p = S_test1 \<and> l = S_test2 \<or> nm_pc s p = S_test2 \<and> l = S_inv1"
  shows "gn_ok c N (gn_goto p l s)"
proof -
  let ?t = "gn_goto p l s"
  note L = gn_okD(3) [OF ok p, unfolded gn_lines_def Let_def]
  have places: "in_check (nm_pc s p)" "in_check l" "gn_up (nm_pc s p)" "gn_up l" "nm_pc s p \<noteq> S_in" "l \<noteq> S_in"
    "nm_pc s p \<noteq> S_entered" "nm_pc s p \<noteq> S_last" "nm_pc s p \<noteq> S_cleared" "nm_pc s p \<noteq> S_flushed"
    "l \<noteq> S_entered" "l \<noteq> S_last" "l \<noteq> S_flushed" "l \<noteq> S_inv2" "l \<noteq> S_test1" using pc by auto
  have clean: "nm_cache s p u \<noteq> Some (x, True)" for u x using L places by blast
  have mv: "gn_moved p s ?t" by (simp add: gn_moved_def)
  have e: "est c ?t p j = est c s p j" "passed ?t p j = passed s p j" for j
    using places by (simp_all add: est_def passed_def)
  show ?thesis
  proof (rule gn_ok_move [OF ok p mv])
    show "gn_lines c ?t p" using gn_okD(3) [OF ok p] clean places by (simp add: gn_lines_def Let_def)
    show "gn_checked c ?t p q" if q: "q < N" "q \<noteq> p" for q
      using gn_okD(4) [OF ok p q] moved_est(1) [OF mv q(2)] places by (auto simp: gn_checked_def Let_def)
    show "gn_place N ?t p" "gn_claim c ?t p"
      using gn_okD(1,2) [OF ok p] places by (simp_all add: gn_place_def gn_claim_def Let_def)
  qed (simp_all add: e)
qed

text \<open>The value a read gives is that of the line it leaves in the cache, or in memory.\<close>

lemma gn_read_value:
  assumes "gn_read c p v s = (x, t)"
  shows "if c then \<exists>d. nm_cache t p v = Some (x, d) else x = nm_mem t v"
    and "nm_pc t = nm_pc s" and "nm_stage t = nm_stage s" and "nm_proc t = nm_proc s"
  using assms by (auto simp: gn_read_def split: if_splits option.splits)

lemma gn_ok_test1:
  assumes ok: "gn_ok c N s" and p: "p < N" and pc: "nm_pc s p = S_test1"
    and read: "gn_read c p (Entered (nm_proc s p)) s = (x, t)"
  shows "gn_ok c N (if int (nm_stage s p) \<le> x then gn_goto p S_test2 t else gn_check N p (nm_proc s p + 1) t)"
proof -
  note r = gn_read_value [OF read]
  have okt: "gn_ok c N t" using gn_ok_fetch [OF ok, of p "Entered (nm_proc s p)"] read by simp
  let ?q = "nm_proc s p" and ?j = "nm_stage s p"
  show ?thesis
  proof (cases "int ?j \<le> x")
    case True
    then show ?thesis using gn_ok_goto_check [OF okt p, of S_test2] pc r by simp
  next
    case False
    have q: "?q < N" "?q \<noteq> p" using gn_okD(1) [OF ok p] pc by (simp_all add: gn_place_def Let_def)
    have "\<not> est c t z ?j" if z: "z < ?q + 1" "z < N" "z \<noteq> p" and m: "nm_mem t (Last ?j) = int p" for z
    proof (cases "z = ?q")
      case True
      show ?thesis
      proof (cases c)
        case True
        then obtain d where "nm_cache t p (Entered ?q) = Some (x, d)" using r(1) by auto
        then show ?thesis
          using gn_okD(4) [OF okt p z(2,3)] pc r False m \<open>z = ?q\<close> by (auto simp: gn_checked_def Let_def)
      next
        case nc: False
        have "\<not> int ?j \<le> nm_mem t (Entered ?q)" using r(1) nc False by simp
        then show ?thesis using est_mem [OF gn_okD(2) [OF okt q(1)], of ?j] \<open>z = ?q\<close> by blast
      qed
    next
      case False
      then have "z < ?q" using z(1) by simp
      then show ?thesis
        using gn_okD(4) [OF okt p z(2,3)] pc r m by (auto simp: gn_checked_def Let_def)
    qed
    then have "gn_ok c N (gn_check N p (?q + 1) t)"
      using gn_ok_check [OF okt p, of "?q + 1"] pc r by simp
    then show ?thesis using False by simp
  qed
qed

lemma gn_ok_test2:
  assumes ok: "gn_ok c N s" and p: "p < N" and pc: "nm_pc s p = S_test2"
    and read: "gn_read c p (Last (nm_stage s p)) s = (x, t)"
  shows "gn_ok c N (if x = int p then gn_goto p S_inv1 t else gn_check N p (nm_proc s p + 1) t)"
proof -
  note r = gn_read_value [OF read]
  have okt: "gn_ok c N t" using gn_ok_fetch [OF ok, of p "Last (nm_stage s p)"] read by simp
  show ?thesis
  proof (cases "x = int p")
    case True
    then show ?thesis using gn_ok_goto_check [OF okt p, of S_inv1] pc r by simp
  next
    case False
    have "nm_mem t (Last (nm_stage s p)) \<noteq> int p"
      using gn_okD(3) [OF okt p] r pc False by (cases c) (auto simp: gn_lines_def Let_def)
    then have "gn_ok c N (gn_check N p (nm_proc s p + 1) t)"
      using gn_ok_check [OF okt p, of "nm_proc s p + 1"] pc r by simp
    then show ?thesis using False by simp
  qed
qed

lemma gn_lines_dirty:
  assumes "gn_lines c s p" and "nm_cache s p v = Some (x, True)"
  shows "-1 \<le> x" and "nm_pc s p = S_entered \<or> nm_pc s p = S_last \<or> nm_pc s p = S_flushed \<or> nm_pc s p = S_cleared"
    and "nm_pc s p = S_cleared \<Longrightarrow> v = Entered p"
proof -
  have "-1 \<le> x \<and> (v = Entered p \<and> (nm_pc s p = S_entered \<or> nm_pc s p = S_last \<or> nm_pc s p = S_cleared) \<or>
      v = Last (nm_stage s p) \<and> (nm_pc s p = S_last \<or> nm_pc s p = S_flushed))"
    using assms unfolding gn_lines_def Let_def by blast
  then show "-1 \<le> x" and "nm_pc s p = S_entered \<or> nm_pc s p = S_last \<or> nm_pc s p = S_flushed \<or> nm_pc s p = S_cleared"
    and "nm_pc s p = S_cleared \<Longrightarrow> v = Entered p" by auto
qed

lemma gn_lines_nocache: "gn_lines c s p \<Longrightarrow> \<not> c \<Longrightarrow> nm_cache s p v = None"
  unfolding gn_lines_def Let_def by blast

lemma gn_ok_leave:
  assumes ok: "gn_ok c N s" and p: "p < N" and pc: "nm_pc s p = S_in"
  shows "gn_ok c N (GatePetersonN_leave c p s)"
proof (cases "nm_nested s p = 1")
  case True
  let ?t = "GatePetersonN_leave c p s"
  note L = gn_okD(3) [OF ok p]
  have clean: "nm_cache s p u \<noteq> Some (x, True)" for u x using gn_lines_dirty(2) [OF L, of u x] pc by auto
  note nocache = gn_lines_nocache [OF L]
  have f: "nm_pc ?t = (nm_pc s)(p := S_cleared)" "nm_stage ?t = nm_stage s" "nm_proc ?t = nm_proc s"
    "nm_nested ?t = (nm_nested s)(p := 0)"
    "nm_mem ?t = (if c then nm_mem s else (nm_mem s)(Entered p := -1))"
    "nm_cache ?t = (if c then (nm_cache s)(p := (nm_cache s p)(Entered p \<mapsto> (-1, True))) else nm_cache s)"
    using True by (simp_all add: GatePetersonN_leave_def GatePetersonN_NOT_INTERESTED_def)
  have j: "nm_stage s p = N - 1" using gn_okD(1) [OF ok p] pc by (simp add: gn_place_def Let_def)
  show ?thesis
  proof (rule gn_ok_move [OF ok p])
    show "gn_moved p s ?t" by (simp add: gn_moved_def f)
    show "gn_lines c ?t p" using nocache clean by (simp add: gn_lines_def f Let_def)
  qed (use gn_okD(2) [OF ok p] pc j in
      \<open>auto simp: f est_def passed_def gn_place_def gn_claim_def gn_checked_def Let_def\<close>)
next
  case False
  have n: "nm_nested s p \<noteq> 0" using gn_okD(1) [OF ok p] pc by (simp add: gn_place_def Let_def)
  define t where "t = s\<lparr>nm_nested := (nm_nested s)(p := nm_nested s p - 1)\<rparr>"
  have t: "GatePetersonN_leave c p s = t"
    using n False by (simp add: GatePetersonN_leave_def t_def Let_def)
  have f: "nm_pc t = nm_pc s" "nm_stage t = nm_stage s" "nm_proc t = nm_proc s" "nm_mem t = nm_mem s"
    "nm_cache t = nm_cache s" "nm_nested t = (nm_nested s)(p := nm_nested s p - 1)"
    by (simp_all add: t_def)
  note e = est_cong [OF f(1,2)]
  have "gn_ok c N t"
  proof (rule gn_ok_move [OF ok p])
    show "gn_moved p s t" by (simp add: gn_moved_def f)
    have "gn_lines c t p = gn_lines c s p" by (simp add: gn_lines_def f)
    then show "gn_lines c t p" using gn_okD(3) [OF ok p] by simp
    show "gn_checked c t p q" for q using pc by (simp add: gn_checked_def f Let_def)
    show "gn_place N t p" "gn_claim c t p"
      using gn_okD(1,2) [OF ok p] n False by (auto simp: gn_place_def gn_claim_def f Let_def)
  qed (simp_all add: e f(4))
  then show ?thesis using t by simp
qed

lemma gn_ok_leave_step:
  assumes ok: "gn_ok c N s" and p: "p < N" and pc: "nm_pc s p = S_cleared"
  shows "gn_ok c N (GatePetersonN_leave_step c p s)"
proof -
  let ?t = "GatePetersonN_leave_step c p s"
  note L = gn_okD(3) [OF ok p]
  have dirty: "v = Entered p \<and> -1 \<le> x" if "nm_cache s p v = Some (x, True)" for v x
    using gn_lines_dirty(1,3) [OF L that] pc by simp
  note nocache = gn_lines_nocache [OF L]
  have clean: "u \<noteq> Entered p \<Longrightarrow> nm_cache s p u \<noteq> Some (x, True)" for u x using dirty [of u x] by blast
  show ?thesis
  proof (rule gn_ok_move [OF ok p])
    show "gn_moved p s ?t"
      by (auto simp: gn_moved_def GatePetersonN_leave_step_def gn_wbInv_mem split: option.splits bool.splits)
    show "gn_lines c ?t p"
      using nocache clean by (cases c) (simp_all add: gn_lines_def GatePetersonN_leave_step_def Let_def)
    have m: "-1 \<le> nm_mem s (Entered p)" using gn_okD(2) [OF ok p] by (simp add: gn_claim_def Let_def)
    have "-1 \<le> nm_mem ?t (Entered p)"
    proof (cases "nm_cache s p (Entered p)")
      case None
      with m show ?thesis by (simp add: GatePetersonN_leave_step_def gn_wbInv_mem)
    next
      case (Some xd)
      with m dirty [of "Entered p" "fst xd"] show ?thesis
        by (cases xd) (simp add: GatePetersonN_leave_step_def gn_wbInv_mem split: bool.split)
    qed
    then show "gn_claim c ?t p" by (simp add: gn_claim_def GatePetersonN_leave_step_def Let_def)
    show "nm_mem ?t (Last j) = nm_mem s (Last j) \<or> nm_mem ?t (Last j) = int p \<and> est c ?t p j \<and> \<not> passed ?t p j" for j
      by (simp add: GatePetersonN_leave_step_def gn_wbInv_mem split: option.splits bool.splits)
  qed (use gn_okD(1) [OF ok p] pc in
      \<open>auto simp: GatePetersonN_leave_step_def est_def passed_def gn_place_def gn_checked_def Let_def\<close>)
qed

lemma gn_step_ok:
  assumes "gn_ok c N s" and "gn_step c False N s t"
  shows "gn_ok c N t"
  using assms(2)
proof cases
  case (enter p)
  then show ?thesis using gn_ok_enter [OF assms(1)] by simp
next
  case (enter_step p)
  note ok = assms(1) and p = enter_step(2)
  show ?thesis
  proof (cases "nm_pc s p")
    case S_begin
    then show ?thesis using gn_ok_begin [OF ok p] enter_step(1) by (simp add: GatePetersonN_enter_step_def Let_def)
  next
    case S_entered
    then show ?thesis using gn_ok_entered [OF ok p] enter_step(1) by (simp add: GatePetersonN_enter_step_def Let_def)
  next
    case S_last
    then show ?thesis using gn_ok_last [OF ok p] enter_step(1) by (simp add: GatePetersonN_enter_step_def Let_def)
  next
    case S_flushed
    then show ?thesis using gn_ok_flushed [OF ok p] enter_step(1) by (simp add: GatePetersonN_enter_step_def Let_def)
  next
    case S_inv1
    then show ?thesis using gn_ok_inv [OF ok p] enter_step(1) by (simp add: GatePetersonN_enter_step_def Let_def)
  next
    case S_inv2
    then show ?thesis using gn_ok_inv [OF ok p] enter_step(1) by (simp add: GatePetersonN_enter_step_def Let_def)
  next
    case S_test1
    obtain x u where "gn_read c p (Entered (nm_proc s p)) s = (x, u)" by fastforce
    with S_test1 gn_ok_test1 [OF ok p S_test1 this] enter_step(1) show ?thesis
      by (simp add: GatePetersonN_enter_step_def Let_def)
  next
    case S_test2
    obtain x u where "gn_read c p (Last (nm_stage s p)) s = (x, u)" by fastforce
    with S_test2 gn_ok_test2 [OF ok p S_test2 this] enter_step(1) show ?thesis
      by (simp add: GatePetersonN_enter_step_def Let_def)
  qed (use enter_step(3) in simp_all)
next
  case (leave p)
  then show ?thesis using gn_ok_leave [OF assms(1)] by simp
next
  case (leave_step p)
  then show ?thesis using gn_ok_leave_step [OF assms(1)] by simp
next
  case (evict p v)
  then show ?thesis using gn_ok_drop [OF assms(1)] by simp
next
  case (prefetch p v)
  then show ?thesis using gn_ok_fetch [OF assms(1)] by simp
qed

lemma gn_reach_ok: "gn_reach c False N s \<Longrightarrow> gn_ok c N s"
  by (induction rule: gn_reach.induct) (auto intro: gn_start gn_step_ok)

section \<open>Mutual exclusion\<close>

text \<open>Each stage holds at least one processor back, so that one is left behind the last.\<close>

definition claims :: "bool \<Rightarrow> nat \<Rightarrow> gn_state \<Rightarrow> nat \<Rightarrow> nat set" where
  "claims c N s j = {p. p < N \<and> est c s p j}"

lemma passed_fewer:
  assumes "gn_last c N s j"
  shows "card {p. p < N \<and> passed s p j} \<le> max 1 (card (claims c N s j) - 1)"
proof -
  let ?P = "{p. p < N \<and> passed s p j}" and ?S = "claims c N s j"
  have fin: "finite ?S" by (simp add: claims_def)
  have sub: "?P \<subseteq> ?S" by (auto simp: claims_def est_def passed_def)
  show ?thesis
  proof (cases "card ?S \<le> 1")
    case True
    then show ?thesis using card_mono [OF fin sub] by simp
  next
    case False
    then obtain p q where "p \<in> ?S" "q \<in> ?S" "p \<noteq> q"
      using fin by (metis card_le_Suc0_iff_eq One_nat_def)
    then obtain v where "v \<in> ?S" "v \<notin> ?P"
      using assms unfolding gn_last_def claims_def by blast
    then have "?P \<subset> ?S" using sub by blast
    then have "card ?P < card ?S" using fin psubset_card_mono by blast
    then show ?thesis by simp
  qed
qed

lemma claims_bound:
  assumes "\<And>j. gn_last c N s j"
  shows "card (claims c N s j) \<le> max 1 (N - j)"
proof (induction j)
  case 0
  have "claims c N s 0 \<subseteq> {..<N}" by (auto simp: claims_def)
  then show ?case using card_mono [of "{..<N}" "claims c N s 0"] by simp
next
  case (Suc j)
  have "claims c N s (Suc j) \<subseteq> {p. p < N \<and> passed s p j}"
    by (auto simp: claims_def est_def passed_def)
  then have "card (claims c N s (Suc j)) \<le> card {p. p < N \<and> passed s p j}"
    by (intro card_mono) auto
  with passed_fewer [OF assms, of j] Suc show ?case by simp
qed

lemma gn_exclusion:
  assumes "gn_ok c N s" and "p < N" and "q < N" and "nm_pc s p = S_in" and "nm_pc s q = S_in"
  shows "p = q"
proof (cases "N < 2")
  case False
  let ?P = "{r. r < N \<and> passed s r (N - 2)}"
  have "card ?P \<le> max 1 (card (claims c N s (N - 2)) - 1)"
    using passed_fewer gn_okD(5) [OF assms(1)] by blast
  also have "\<dots> \<le> 1" using claims_bound [of c N s "N - 2"] gn_okD(5) [OF assms(1)] False by simp
  finally have "card ?P \<le> Suc 0" by simp
  moreover have "r \<in> ?P" if "r < N" "nm_pc s r = S_in" for r
    using gn_okD(1) [OF assms(1) that(1)] that False by (simp add: passed_def gn_place_def Let_def)
  ultimately show ?thesis
    using assms(2-5) card_le_Suc0_iff_eq [of ?P] by auto
qed (use assms(2,3) in simp)

section \<open>Caches that write back early\<close>

text \<open>Runs as lists of moves, to exhibit one.\<close>

datatype gn_move = G_enter nat | G_step nat | G_evict nat gn_var

fun gn_do :: "bool \<Rightarrow> bool \<Rightarrow> nat \<Rightarrow> gn_move \<Rightarrow> gn_state \<Rightarrow> gn_state option" where
  "gn_do c d N (G_enter p) s =
     (if p < N \<and> nm_pc s p = S_out then Some (GatePetersonN_enter N p s) else None)"
| "gn_do c d N (G_step p) s =
     (if p < N \<and> nm_pc s p \<notin> {S_out, S_in, S_cleared} then Some (GatePetersonN_enter_step c N p s) else None)"
| "gn_do c d N (G_evict p v) s = (if p < N \<and> (d \<or> line_clean p v s) then Some (gn_wbInv c p v s) else None)"

fun gn_run :: "bool \<Rightarrow> bool \<Rightarrow> nat \<Rightarrow> gn_move list \<Rightarrow> gn_state \<Rightarrow> gn_state option" where
  "gn_run c d N [] s = Some s"
| "gn_run c d N (m # ms) s = (case gn_do c d N m s of Some t \<Rightarrow> gn_run c d N ms t | None \<Rightarrow> None)"

lemma gn_run_reach:
  "gn_reach c d N s \<Longrightarrow> gn_run c d N ms s = Some t \<Longrightarrow> gn_reach c d N t"
proof (induction ms arbitrary: s)
  case (Cons m ms)
  then obtain u where u: "gn_do c d N m s = Some u" "gn_run c d N ms u = Some t"
    by (auto split: option.splits)
  have "gn_step c d N s u"
    using u(1) by (cases m) (auto split: if_splits intro: gn_step.intros)
  then show ?case using Cons.IH [OF gn_reach.move [OF Cons.prems(1)] u(2)] by blast
qed simp

text \<open>
  Processor 0 has written both its fields, and its cache writes the second back before the code
  does; processor 1 then goes in on the old value of the first and has the second to itself, and
  processor 0 finds the second taken by somebody else.
\<close>

definition gn_early :: "gn_move list" where
  "gn_early =
     [G_enter 0, G_step 0, G_step 0, G_evict 0 (Last 0)] @
     [G_enter 1] @ replicate 7 (G_step 1) @ replicate 6 (G_step 0)"

lemma gn_early_run:
  "case gn_run True True 2 gn_early GatePetersonN_postInit of
     Some s \<Rightarrow> nm_pc s 0 = S_in \<and> nm_pc s 1 = S_in | None \<Rightarrow> False"
  by (simp add: gn_early_def GatePetersonN_postInit_def GatePetersonN_enter_def GatePetersonN_enter_step_def
      gn_stage_def gn_check_def gn_access_defs GatePetersonN_NOT_INTERESTED_def numeral_eq_Suc)

end
