(* ===== verification/UtilsList.thy ===== *)
theory UtilsList
imports Queues LinkedRings
begin

text \<open>
  The lists of one processor of \<open>ti/sdo/utils/List.c\<close>: circular doubly linked lists in
  ordinary memory, the atomic operations run with interrupts off.
\<close>

section \<open>State\<close>

record List_Elem =
  el_next :: ptr
  el_prev :: ptr

text \<open>
  The elements in memory, by address, and the calls of \<open>Hwi_disable\<close> and
  \<open>Hwi_restore\<close> made so far, newest first. A list object is its head element.
\<close>

datatype hwi_call = Hwi_disable | Hwi_restore

record list_mem =
  li_elem :: "ptr \<Rightarrow> List_Elem"
  li_log :: "hwi_call list"

definition hwi :: "hwi_call \<Rightarrow> list_mem \<Rightarrow> list_mem" where
  "hwi c s = s\<lparr>li_log := c # li_log s\<rparr>"

lemma hwi_simps [simp]: "li_elem (hwi c s) = li_elem s" "li_log (hwi c s) = c # li_log s"
  by (simp_all add: hwi_def)

text \<open>Accesses to the fields of the element at \<open>a\<close>; there is none at \<open>NULL\<close>.\<close>

definition el_get :: "ptr \<Rightarrow> list_mem \<Rightarrow> List_Elem res" where
  "el_get a s = (if a = NULL then Err Bad_access else Ok (li_elem s a))"

definition el_set_next :: "ptr \<Rightarrow> ptr \<Rightarrow> list_mem \<Rightarrow> list_mem res" where
  "el_set_next a x s = (if a = NULL then Err Bad_access
     else Ok (s\<lparr>li_elem := (li_elem s)(a := (li_elem s a)\<lparr>el_next := x\<rparr>)\<rparr>))"

definition el_set_prev :: "ptr \<Rightarrow> ptr \<Rightarrow> list_mem \<Rightarrow> list_mem res" where
  "el_set_prev a x s = (if a = NULL then Err Bad_access
     else Ok (s\<lparr>li_elem := (li_elem s)(a := (li_elem s a)\<lparr>el_prev := x\<rparr>)\<rparr>))"

section \<open>Operations\<close>

definition List_Instance_init :: "ptr \<Rightarrow> list_mem \<Rightarrow> list_mem res" where
  "List_Instance_init obj s = res_bind (el_set_prev obj obj s) (el_set_next obj obj)"

definition List_empty :: "ptr \<Rightarrow> list_mem \<Rightarrow> bool res" where
  "List_empty obj s = res_bind (el_get obj s) (\<lambda>e. Ok (el_next e = obj))"

definition List_dequeue :: "ptr \<Rightarrow> list_mem \<Rightarrow> (ptr \<times> list_mem) res" where
  "List_dequeue obj s =
     res_bind (el_get obj s) (\<lambda>h.
     let elem = el_next h in
     if elem = obj then Ok (NULL, s)
     else
       res_bind (el_get elem s) (\<lambda>e.
       res_bind (el_set_next obj (el_next e) s) (\<lambda>s1.
       res_bind (el_get elem s1) (\<lambda>e1.
       res_bind (el_set_prev (el_next e1) obj s1) (\<lambda>s2.
       Ok (elem, s2))))))"

definition List_enqueue :: "ptr \<Rightarrow> ptr \<Rightarrow> list_mem \<Rightarrow> list_mem res" where
  "List_enqueue obj elem s =
     res_bind (el_set_next elem obj s) (\<lambda>s1.
     res_bind (el_get obj s1) (\<lambda>h1.
     res_bind (el_set_prev elem (el_prev h1) s1) (\<lambda>s2.
     res_bind (el_get obj s2) (\<lambda>h2.
     res_bind (el_set_next (el_prev h2) elem s2) (\<lambda>s3.
     el_set_prev obj elem s3)))))"

definition List_enqueueHead :: "ptr \<Rightarrow> ptr \<Rightarrow> list_mem \<Rightarrow> list_mem res" where
  "List_enqueueHead obj elem s =
     res_bind (el_get obj s) (\<lambda>h.
     res_bind (el_set_next elem (el_next h) s) (\<lambda>s1.
     res_bind (el_set_prev elem obj s1) (\<lambda>s2.
     res_bind (el_get obj s2) (\<lambda>h2.
     res_bind (el_set_prev (el_next h2) elem s2) (\<lambda>s3.
     el_set_next obj elem s3)))))"

definition List_get :: "ptr \<Rightarrow> list_mem \<Rightarrow> (ptr \<times> list_mem) res" where
  "List_get obj s =
     res_bind (List_dequeue obj (hwi Hwi_disable s)) (\<lambda>(elem, s1).
       Ok (elem, hwi Hwi_restore s1))"

definition List_put :: "ptr \<Rightarrow> ptr \<Rightarrow> list_mem \<Rightarrow> (unit \<times> list_mem) res" where
  "List_put obj elem s =
     res_bind (List_enqueue obj elem (hwi Hwi_disable s)) (\<lambda>s1. Ok ((), hwi Hwi_restore s1))"

definition List_putHead :: "ptr \<Rightarrow> ptr \<Rightarrow> list_mem \<Rightarrow> (unit \<times> list_mem) res" where
  "List_putHead obj elem s =
     res_bind (List_enqueueHead obj elem (hwi Hwi_disable s)) (\<lambda>s1. Ok ((), hwi Hwi_restore s1))"

text \<open>Inserting before an element is enqueueing with that element for the head.\<close>

definition List_insert :: "ptr \<Rightarrow> ptr \<Rightarrow> list_mem \<Rightarrow> list_mem res" where
  "List_insert newElem curElem s = List_enqueue curElem newElem s"

definition List_next :: "ptr \<Rightarrow> ptr \<Rightarrow> list_mem \<Rightarrow> ptr res" where
  "List_next obj elem s =
     res_bind (if elem = NULL then el_get obj s else el_get elem s) (\<lambda>e.
     let retElem = el_next e in
     Ok (if retElem = obj then NULL else retElem))"

definition List_prev :: "ptr \<Rightarrow> ptr \<Rightarrow> list_mem \<Rightarrow> ptr res" where
  "List_prev obj elem s =
     res_bind (if elem = NULL then el_get obj s else el_get elem s) (\<lambda>e.
     let retElem = el_prev e in
     Ok (if retElem = obj then NULL else retElem))"

definition List_remove :: "ptr \<Rightarrow> list_mem \<Rightarrow> list_mem res" where
  "List_remove elem s =
     res_bind (el_get elem s) (\<lambda>e.
     res_bind (el_set_next (el_prev e) (el_next e) s) (\<lambda>s1.
     res_bind (el_get elem s1) (\<lambda>e1.
     el_set_prev (el_next e1) (el_prev e1) s1)))"

definition List_elemClear :: "ptr \<Rightarrow> list_mem \<Rightarrow> list_mem res" where
  "List_elemClear elem s = res_bind (el_set_prev elem elem s) (el_set_next elem elem)"

section \<open>The elements of a list\<close>

text \<open>The list at \<open>h\<close> holds \<open>xs\<close>.\<close>

definition list_ring :: "ptr \<Rightarrow> list_mem \<Rightarrow> ptr list \<Rightarrow> bool" where
  "list_ring h s xs \<longleftrightarrow>
     dring (\<lambda>x. x) (\<lambda>x. el_next (li_elem s x)) (\<lambda>x. el_prev (li_elem s x)) h xs \<and>
     NULL \<notin> set (h # xs)"

lemma list_ring_parts:
  assumes "list_ring h s xs"
  shows "dring (\<lambda>x. x) (\<lambda>x. el_next (li_elem s x)) (\<lambda>x. el_prev (li_elem s x)) h xs"
    and "distinct (h # xs)" and "x \<in> set (h # xs) \<Longrightarrow> x \<noteq> NULL"
  using assms by (auto simp: list_ring_def dring_def)

lemma list_ring_unique: "list_ring h s xs \<Longrightarrow> list_ring h s ys \<Longrightarrow> xs = ys"
  using dring_unique [of "\<lambda>x. x"] by (auto simp: list_ring_def)

lemma list_ring_member:
  assumes "list_ring h s (us @ e # vs)"
  shows "el_next (li_elem s e) = right_of h vs" and "el_prev (li_elem s e) = left_of h us"
    and "e \<noteq> h" and "e \<noteq> right_of h vs" and "e \<noteq> left_of h us" and "e \<noteq> NULL"
    and "right_of h vs \<noteq> NULL" and "left_of h us \<noteq> NULL"
  using dring_member [OF list_ring_parts(1) [OF assms]] list_ring_parts(3) [OF assms]
    neighbour_mem(1) [of h us] neighbour_mem(2) [of h vs]
  by auto

lemma list_ring_gap:
  assumes "list_ring h s (us @ vs)"
  shows "el_next (li_elem s (left_of h us)) = right_of h vs"
    and "el_prev (li_elem s (right_of h vs)) = left_of h us"
    and "right_of h vs \<noteq> NULL" and "left_of h us \<noteq> NULL"
  using dring_gap [OF list_ring_parts(1) [OF assms]] list_ring_parts(3) [OF assms]
    neighbour_mem(1) [of h us] neighbour_mem(2) [of h vs]
  by auto

lemma list_ring_hwi [simp]: "list_ring h (hwi c s) xs = list_ring h s xs"
  by (simp add: list_ring_def)

lemma list_ring_unlink:
  assumes "list_ring h s (us @ e # vs)"
    and "\<And>x. el_next (li_elem t x) =
           (if x = left_of h us then right_of h vs else el_next (li_elem s x))"
    and "\<And>x. el_prev (li_elem t x) =
           (if x = right_of h vs then left_of h us else el_prev (li_elem s x))"
  shows "list_ring h t (us @ vs)"
  using dring_unlink [OF list_ring_parts(1) [OF assms(1)] assms(2,3)] assms(1)
  by (auto simp: list_ring_def)

lemma list_ring_link:
  assumes "list_ring h s (us @ vs)" and "e \<notin> set (h # us @ vs)" and "e \<noteq> NULL"
    and "\<And>x. el_next (li_elem t x) =
           (if x = left_of h us then e else if x = e then right_of h vs else el_next (li_elem s x))"
    and "\<And>x. el_prev (li_elem t x) =
           (if x = right_of h vs then e else if x = e then left_of h us else el_prev (li_elem s x))"
  shows "list_ring h t (us @ e # vs)"
  using dring_link [OF list_ring_parts(1) [OF assms(1)] assms(2,4,5)] assms(1,3)
  by (auto simp: list_ring_def)

text \<open>What an operation on the list at \<open>h\<close> leaves alone: all but the links of \<open>W\<close>.\<close>

definition list_frame :: "ptr set \<Rightarrow> list_mem \<Rightarrow> list_mem \<Rightarrow> bool" where
  "list_frame W s t \<longleftrightarrow> (\<forall>a. a \<notin> W \<longrightarrow> li_elem t a = li_elem s a)"

lemma list_ring_frame:
  assumes "list_frame W s t" and "list_ring h s xs" and "W \<inter> set (h # xs) = {}"
  shows "list_ring h t xs"
proof -
  have "li_elem t x = li_elem s x" if "x \<in> set (h # xs)" for x
    using assms(1,3) that unfolding list_frame_def by blast
  then show ?thesis
    using assms(2) dseg_cong [of "\<lambda>x. x" "\<lambda>x. el_next (li_elem s x)" "\<lambda>x. el_prev (li_elem s x)" h xs h
        "\<lambda>x. el_next (li_elem t x)" "\<lambda>x. el_prev (li_elem t x)"]
    by (auto simp: list_ring_def dring_def)
qed

section \<open>What the operations do\<close>

lemmas el_defs = el_get_def el_set_next_def el_set_prev_def

lemma List_Instance_init_ring:
  "h \<noteq> NULL \<Longrightarrow> \<exists>t. List_Instance_init h s = Ok t \<and> list_ring h t [] \<and> list_frame {h} s t"
  by (simp add: List_Instance_init_def el_defs list_ring_def dring_def list_frame_def)

lemma List_empty_ring: "list_ring h s xs \<Longrightarrow> List_empty h s = Ok (xs = [])"
  using list_ring_gap [of h s "[]" xs] list_ring_parts(2,3) [of h s xs]
  by (cases xs) (auto simp: List_empty_def el_defs)

lemma List_dequeue_empty: "list_ring h s [] \<Longrightarrow> List_dequeue h s = Ok (NULL, s)"
  using list_ring_gap [of h s "[]" "[]"] by (simp add: List_dequeue_def el_defs)

lemma List_dequeue_first:
  assumes "list_ring h s (x # xs)"
  shows "\<exists>t. List_dequeue h s = Ok (x, t) \<and> list_ring h t xs \<and>
    list_frame {h, right_of h xs} s t"
proof -
  note M = list_ring_member [of h s "[]" x xs, simplified, OF assms]
  note G = list_ring_gap [of h s "[]" "x # xs", simplified, OF assms]
  let ?t1 = "s\<lparr>li_elem := (li_elem s)(h := (li_elem s h)\<lparr>el_next := right_of h xs\<rparr>)\<rparr>"
  let ?t = "?t1\<lparr>li_elem := (li_elem ?t1)(right_of h xs := (li_elem ?t1 (right_of h xs))\<lparr>el_prev := h\<rparr>)\<rparr>"
  have "List_dequeue h s = Ok (x, ?t)"
    using M G by (simp add: List_dequeue_def el_defs Let_def)
  moreover have "list_ring h ?t xs"
    by (rule list_ring_unlink [of h s "[]" x xs, simplified, OF assms]) simp_all
  ultimately show ?thesis by (auto simp: list_frame_def)
qed

lemma List_enqueue_last:
  assumes "list_ring h s xs" and "e \<notin> set (h # xs)" and "e \<noteq> NULL"
  shows "\<exists>t. List_enqueue h e s = Ok t \<and> list_ring h t (xs @ [e]) \<and>
    list_frame {h, e, left_of h xs} s t"
proof -
  note G = list_ring_gap [of h s xs "[]", simplified, OF assms(1)]
  have ne: "left_of h xs \<noteq> e" "e \<noteq> h"
    using neighbour_mem(1) [of h xs] assms(2) by auto
  let ?p = "left_of h xs"
  let ?E1 = "(li_elem s)(e := (li_elem s e)\<lparr>el_next := h, el_prev := ?p\<rparr>)"
  let ?E2 = "?E1(?p := (?E1 ?p)\<lparr>el_next := e\<rparr>)"
  let ?t = "s\<lparr>li_elem := ?E2(h := (?E2 h)\<lparr>el_prev := e\<rparr>)\<rparr>"
  have "List_enqueue h e s = Ok ?t"
    using G ne assms(3) by (simp add: List_enqueue_def el_defs)
  moreover have "list_ring h ?t (xs @ [e])"
    by (rule list_ring_link [of h s xs "[]" e, simplified, OF assms(1)])
      (use assms(2,3) ne in auto)
  ultimately show ?thesis by (auto simp: list_frame_def)
qed

lemma List_enqueueHead_first:
  assumes "list_ring h s xs" and "e \<notin> set (h # xs)" and "e \<noteq> NULL"
  shows "\<exists>t. List_enqueueHead h e s = Ok t \<and> list_ring h t (e # xs) \<and>
    list_frame {h, e, right_of h xs} s t"
proof -
  note G = list_ring_gap [of h s "[]" xs, simplified, OF assms(1)]
  have ne: "right_of h xs \<noteq> e" "e \<noteq> h"
    using neighbour_mem(2) [of h xs] assms(2) by auto
  let ?q = "right_of h xs"
  let ?E1 = "(li_elem s)(e := (li_elem s e)\<lparr>el_next := ?q, el_prev := h\<rparr>)"
  let ?E2 = "?E1(?q := (?E1 ?q)\<lparr>el_prev := e\<rparr>)"
  let ?t = "s\<lparr>li_elem := ?E2(h := (?E2 h)\<lparr>el_next := e\<rparr>)\<rparr>"
  have "List_enqueueHead h e s = Ok ?t"
    using G ne assms(3) by (simp add: List_enqueueHead_def el_defs)
  moreover have "list_ring h ?t (e # xs)"
    by (rule list_ring_link [of h s "[]" xs e, simplified, OF assms(1)])
      (use assms(2,3) ne in auto)
  ultimately show ?thesis by (auto simp: list_frame_def)
qed

lemma List_insert_before:
  assumes "list_ring h s (us @ c # vs)" and "e \<notin> set (h # us @ c # vs)" and "e \<noteq> NULL"
  shows "\<exists>t. List_insert e c s = Ok t \<and> list_ring h t (us @ e # c # vs) \<and>
    list_frame {c, e, left_of h us} s t"
proof -
  note M = list_ring_member [OF assms(1)]
  note G = list_ring_gap [OF assms(1), simplified]
  have ne: "left_of h us \<noteq> e" "e \<noteq> c"
    using neighbour_mem(1) [of h us] assms(2) by auto
  let ?p = "left_of h us"
  let ?E1 = "(li_elem s)(e := (li_elem s e)\<lparr>el_next := c, el_prev := ?p\<rparr>)"
  let ?E2 = "?E1(?p := (?E1 ?p)\<lparr>el_next := e\<rparr>)"
  let ?t = "s\<lparr>li_elem := ?E2(c := (?E2 c)\<lparr>el_prev := e\<rparr>)\<rparr>"
  have "List_insert e c s = Ok ?t"
    using M G ne assms(3) by (simp add: List_insert_def List_enqueue_def el_defs)
  moreover have "list_ring h ?t (us @ e # c # vs)"
    by (rule list_ring_link [of h s us "c # vs" e, OF assms(1)])
      (use assms(2,3) ne M in auto)
  ultimately show ?thesis by (auto simp: list_frame_def)
qed

lemma List_remove_member:
  assumes "list_ring h s (us @ e # vs)"
  shows "\<exists>t. List_remove e s = Ok t \<and> list_ring h t (us @ vs) \<and>
    list_frame {left_of h us, right_of h vs} s t"
proof -
  note M = list_ring_member [OF assms(1)]
  let ?p = "left_of h us" and ?q = "right_of h vs"
  let ?E1 = "(li_elem s)(?p := (li_elem s ?p)\<lparr>el_next := ?q\<rparr>)"
  let ?t = "s\<lparr>li_elem := ?E1(?q := (?E1 ?q)\<lparr>el_prev := ?p\<rparr>)\<rparr>"
  have "List_remove e s = Ok ?t"
    using M by (simp add: List_remove_def el_defs)
  moreover have "list_ring h ?t (us @ vs)"
    by (rule list_ring_unlink [OF assms(1)]) simp_all
  ultimately show ?thesis by (auto simp: list_frame_def)
qed

text \<open>A cursor: \<open>NULL\<close> stands for the head.\<close>

definition list_pos :: "ptr \<Rightarrow> ptr \<Rightarrow> ptr" where
  "list_pos h x = (if x = h then NULL else x)"

lemma List_next_ring:
  assumes "list_ring h s (us @ vs)"
  shows "List_next h (list_pos h (left_of h us)) s = Ok (list_pos h (right_of h vs))"
  using list_ring_gap [OF assms] by (auto simp: List_next_def list_pos_def el_defs Let_def)

lemma List_prev_ring:
  assumes "list_ring h s (us @ vs)"
  shows "List_prev h (list_pos h (right_of h vs)) s = Ok (list_pos h (left_of h us))"
  using list_ring_gap [OF assms] by (auto simp: List_prev_def list_pos_def el_defs Let_def)

text \<open>The atomic operations.\<close>

lemma List_put_last:
  assumes "list_ring h s xs" and "e \<notin> set (h # xs)" and "e \<noteq> NULL"
  shows "\<exists>t. List_put h e s = Ok ((), t) \<and> list_ring h t (xs @ [e]) \<and>
    list_frame {h, e, left_of h xs} s t"
  using List_enqueue_last [of h "hwi Hwi_disable s" xs e] assms
  by (auto simp: List_put_def list_frame_def)

lemma List_putHead_first:
  assumes "list_ring h s xs" and "e \<notin> set (h # xs)" and "e \<noteq> NULL"
  shows "\<exists>t. List_putHead h e s = Ok ((), t) \<and> list_ring h t (e # xs) \<and>
    list_frame {h, e, right_of h xs} s t"
  using List_enqueueHead_first [of h "hwi Hwi_disable s" xs e] assms
  by (auto simp: List_putHead_def list_frame_def)

lemma List_get_empty:
  "list_ring h s [] \<Longrightarrow> List_get h s = Ok (NULL, hwi Hwi_restore (hwi Hwi_disable s))"
  using List_dequeue_empty [of h "hwi Hwi_disable s"]
  by (simp add: List_get_def)

lemma List_get_first:
  assumes "list_ring h s (x # xs)"
  shows "\<exists>t. List_get h s = Ok (x, t) \<and> list_ring h t xs \<and> list_frame {h, right_of h xs} s t"
  using List_dequeue_first [of h "hwi Hwi_disable s" x xs] assms
  by (auto simp: List_get_def list_frame_def)

text \<open>The module keeps the contract of a queue.\<close>

definition list_repr :: "ptr \<Rightarrow> list_mem \<Rightarrow> ptr list \<Rightarrow> bool" where
  "list_repr h s xs \<longleftrightarrow> list_ring h s xs"

definition list_fit :: "ptr \<Rightarrow> ptr \<Rightarrow> bool" where
  "list_fit h e \<longleftrightarrow> e \<noteq> NULL \<and> e \<noteq> h"

interpretation ul: front_queue "list_repr h" "list_fit h" NULL "()" "List_put h" "List_get h"
  "List_putHead h"
proof
  fix s xs x e
  show "list_repr h s [] \<Longrightarrow> \<exists>s'. List_get h s = Ok (NULL, s') \<and> list_repr h s' []"
    using List_get_empty by (auto simp: list_repr_def)
  show "list_repr h s (x # xs) \<Longrightarrow> \<exists>s'. List_get h s = Ok (x, s') \<and> list_repr h s' xs"
    using List_get_first [of h s x xs] by (auto simp: list_repr_def)
  show "list_repr h s xs \<Longrightarrow> list_fit h e \<Longrightarrow> e \<notin> set xs \<Longrightarrow>
      \<exists>s'. List_put h e s = Ok ((), s') \<and> list_repr h s' (xs @ [e])"
    using List_put_last [of h s xs e] by (auto simp: list_repr_def list_fit_def)
  show "list_repr h s xs \<Longrightarrow> list_fit h e \<Longrightarrow> e \<notin> set xs \<Longrightarrow>
      \<exists>s'. List_putHead h e s = Ok ((), s') \<and> list_repr h s' (e # xs)"
    using List_putHead_first [of h s xs e] by (auto simp: list_repr_def list_fit_def)
  show "list_repr h s xs \<Longrightarrow> x \<in> set xs \<Longrightarrow> list_fit h x"
    using list_ring_parts(2,3) [of h s xs] by (auto simp: list_repr_def list_fit_def)
  show "list_repr h s xs \<Longrightarrow> distinct xs"
    using list_ring_parts(2) [of h s xs] by (auto simp: list_repr_def)
qed (simp add: list_fit_def)

end
