(* ===== verification/MultiProc.thy ===== *)
theory MultiProc
imports IPC_Prelude
begin

text \<open>
  The processors of \<open>ti/sdo/utils/MultiProc.c\<close>: their ids, names and clusters, and how the
  modules that keep one entry for each processor find it.
\<close>

section \<open>State\<close>

datatype ProcAddrMode = ProcAddrMode_Global | ProcAddrMode_Cluster | ProcAddrMode_other

record MultiProc_config =
  mpc_asserts :: bool
  mpc_numProcessors :: u16
  mpc_numProcsInCluster :: u16
  mpc_nameList :: "string option list"
  mpc_procAddrMode :: ProcAddrMode

record MultiProc_Module =
  mpm_id :: u16
  mpm_baseIdOfCluster :: u16
  mpm_clusterProcList :: "u16 list"

definition MultiProc_INVALIDID :: u16 where "MultiProc_INVALIDID = 0xFFFF"

section \<open>Operations\<close>

definition MultiProc_getBaseIdOfCluster :: "MultiProc_Module \<Rightarrow> u16" where
  "MultiProc_getBaseIdOfCluster P = mpm_baseIdOfCluster P"

definition MultiProc_getClusterProcList :: "MultiProc_Module \<Rightarrow> u16 list" where
  "MultiProc_getClusterProcList P = mpm_clusterProcList P"

definition MultiProc_self :: "MultiProc_Module \<Rightarrow> u16" where
  "MultiProc_self P = mpm_id P"

text \<open>The loop of \<open>MultiProc_getId\<close>: \<open>n\<close> rounds from index \<open>i\<close> on, the last match stays.\<close>

fun MultiProc_getId_loop ::
  "MultiProc_config \<Rightarrow> MultiProc_Module \<Rightarrow> string \<Rightarrow> nat \<Rightarrow> nat \<Rightarrow> u16 \<Rightarrow> u16 res" where
  "MultiProc_getId_loop C P name 0 i ident = Ok ident"
| "MultiProc_getId_loop C P name (Suc n) i ident =
     res_bind (arr_get (mpc_nameList C) i) (\<lambda>entry.
     MultiProc_getId_loop C P name n (Suc i)
       (if entry = Some name then of_nat i + mpm_baseIdOfCluster P else ident))"

definition MultiProc_getId :: "MultiProc_config \<Rightarrow> MultiProc_Module \<Rightarrow> string \<Rightarrow> u16 res" where
  "MultiProc_getId C P name =
     MultiProc_getId_loop C P name (unat (mpc_numProcsInCluster C)) 0 MultiProc_INVALIDID"

definition MultiProc_getClusterId :: "MultiProc_Module \<Rightarrow> u16 \<Rightarrow> u16" where
  "MultiProc_getClusterId P procId = procId - mpm_baseIdOfCluster P"

text \<open>The subtraction is one of integers: an id below the cluster's first is a negative index.\<close>

definition MultiProc_getName :: "MultiProc_config \<Rightarrow> MultiProc_Module \<Rightarrow> u16 \<Rightarrow> string option res" where
  "MultiProc_getName C P i =
     Assert_isTrue (mpc_asserts C) (i < mpc_numProcessors C) A_invalidMultiProcId (
     if i < mpm_baseIdOfCluster P then Err Bad_access
     else arr_get (mpc_nameList C) (unat i - unat (mpm_baseIdOfCluster P)))"

definition MultiProc_getNumProcessors :: "MultiProc_config \<Rightarrow> u16" where
  "MultiProc_getNumProcessors C = mpc_numProcessors C"

definition MultiProc_getNumProcsInCluster :: "MultiProc_config \<Rightarrow> u16" where
  "MultiProc_getNumProcsInCluster C = mpc_numProcsInCluster C"

text \<open>Setting the ids, possible once and before the start-up has finished.\<close>

definition MultiProc_setLocalId ::
  "MultiProc_config \<Rightarrow> bool \<Rightarrow> u16 \<Rightarrow> MultiProc_Module \<Rightarrow> (bool \<times> MultiProc_Module) res" where
  "MultiProc_setLocalId C rtsDone i P =
     Assert_isTrue (mpc_asserts C) (i < mpc_numProcessors C) A_invalidMultiProcId (
     if MultiProc_self P = MultiProc_INVALIDID \<and> \<not> rtsDone then Ok (True, P\<lparr>mpm_id := i\<rparr>)
     else Ok (False, P))"

definition MultiProc_setBaseIdOfCluster ::
  "bool \<Rightarrow> u16 \<Rightarrow> MultiProc_Module \<Rightarrow> bool \<times> MultiProc_Module" where
  "MultiProc_setBaseIdOfCluster rtsDone i P =
     (if MultiProc_getBaseIdOfCluster P = MultiProc_INVALIDID \<and> \<not> rtsDone
      then (True, P\<lparr>mpm_baseIdOfCluster := i\<rparr>) else (False, P))"

section \<open>Names and ids\<close>

lemma MultiProc_getId_loop_none:
  assumes "i + n \<le> length (mpc_nameList C)"
    and "\<And>j. i \<le> j \<Longrightarrow> j < i + n \<Longrightarrow> mpc_nameList C ! j \<noteq> Some name"
  shows "MultiProc_getId_loop C P name n i x = Ok x"
  using assms
proof (induction n arbitrary: i)
  case (Suc n)
  then have "mpc_nameList C ! i \<noteq> Some name" by simp
  then show ?case using Suc.prems Suc.IH [of "Suc i"] by simp
qed simp

lemma MultiProc_getId_loop_unique:
  assumes "i + n \<le> length (mpc_nameList C)" and "i \<le> k" and "k < i + n"
    and "mpc_nameList C ! k = Some name"
    and "\<And>j. i \<le> j \<Longrightarrow> j < i + n \<Longrightarrow> mpc_nameList C ! j = Some name \<Longrightarrow> j = k"
  shows "MultiProc_getId_loop C P name n i x = Ok (of_nat k + mpm_baseIdOfCluster P)"
  using assms
proof (induction n arbitrary: i x)
  case (Suc n)
  show ?case
  proof (cases "i = k")
    case True
    have "MultiProc_getId_loop C P name n (Suc i) (of_nat k + mpm_baseIdOfCluster P) =
        Ok (of_nat k + mpm_baseIdOfCluster P)"
    proof (rule MultiProc_getId_loop_none)
      show "mpc_nameList C ! j \<noteq> Some name" if "Suc i \<le> j" "j < Suc i + n" for j
      proof
        assume "mpc_nameList C ! j = Some name"
        then have "j = k" using that by (intro Suc.prems(5)) simp_all
        then show False using that(1) True by simp
      qed
    qed (use Suc.prems(1) in simp)
    then show ?thesis using True Suc.prems(1,4) by simp
  next
    case False
    then have "mpc_nameList C ! i \<noteq> Some name" using Suc.prems(5) [of i] by auto
    moreover have "MultiProc_getId_loop C P name n (Suc i) x = Ok (of_nat k + mpm_baseIdOfCluster P)"
      using Suc.prems(1-3) False by (intro Suc.IH Suc.prems(4,5)) simp_all
    ultimately show ?thesis using Suc.prems(1) by simp
  qed
qed simp

text \<open>A configuration whose cluster has one name for each processor.\<close>

definition mp_named :: "MultiProc_config \<Rightarrow> MultiProc_Module \<Rightarrow> bool" where
  "mp_named C P \<longleftrightarrow>
     length (mpc_nameList C) = unat (mpc_numProcsInCluster C) \<and> distinct (mpc_nameList C) \<and>
     None \<notin> set (mpc_nameList C) \<and>
     unat (mpm_baseIdOfCluster P) + unat (mpc_numProcsInCluster C) \<le> unat (mpc_numProcessors C)"

lemma MultiProc_getName_cluster:
  assumes C: "mp_named C P"
    and i: "mpm_baseIdOfCluster P \<le> i" "unat i < unat (mpm_baseIdOfCluster P) + unat (mpc_numProcsInCluster C)"
  shows "\<exists>name. MultiProc_getName C P i = Ok (Some name) \<and> MultiProc_getId C P name = Ok i"
proof -
  define k where "k = unat i - unat (mpm_baseIdOfCluster P)"
  have k: "k < length (mpc_nameList C)" and ik: "unat i = unat (mpm_baseIdOfCluster P) + k"
    using C i by (auto simp: k_def mp_named_def word_le_nat_alt)
  obtain name where name: "mpc_nameList C ! k = Some name"
    using C nth_mem [OF k] by (cases "mpc_nameList C ! k") (auto simp: mp_named_def)
  have once: "j = k" if "j < length (mpc_nameList C)" "mpc_nameList C ! j = Some name" for j
    using nth_eq_iff_index_eq [of "mpc_nameList C" j k] that k name C by (simp add: mp_named_def)
  have n: "length (mpc_nameList C) = unat (mpc_numProcsInCluster C)" using C by (simp add: mp_named_def)
  have "MultiProc_getId C P name = Ok (of_nat k + mpm_baseIdOfCluster P)"
    unfolding MultiProc_getId_def n [symmetric]
    by (rule MultiProc_getId_loop_unique [OF _ _ _ name once]) (use k in simp_all)
  moreover have "of_nat k + mpm_baseIdOfCluster P = i"
  proof -
    have "i = of_nat (unat i)" by simp
    also have "\<dots> = of_nat k + mpm_baseIdOfCluster P" by (simp only: ik of_nat_add) simp
    finally show ?thesis by simp
  qed
  moreover have "unat i < unat (mpc_numProcessors C)" using C i(2) by (simp add: mp_named_def)
  then have "i < mpc_numProcessors C" by (simp add: word_less_nat_alt)
  ultimately show ?thesis
    using k name i(1) by (simp add: MultiProc_getName_def k_def [symmetric])
qed

text \<open>A name that no processor of the cluster has is answered by the invalid id.\<close>

lemma MultiProc_getId_unknown:
  assumes "mp_named C P" and "Some name \<notin> set (mpc_nameList C)"
  shows "MultiProc_getId C P name = Ok MultiProc_INVALIDID"
  unfolding MultiProc_getId_def
  by (rule MultiProc_getId_loop_none) (use assms in \<open>auto simp: mp_named_def in_set_conv_nth\<close>)

text \<open>The local id is set at most once.\<close>

lemma MultiProc_setLocalId_once:
  assumes "MultiProc_setLocalId C r i P = Ok (True, P1)" and "i \<noteq> MultiProc_INVALIDID"
    and "MultiProc_setLocalId C r' j P1 = Ok (b, P2)"
  shows "\<not> b \<and> P2 = P1 \<and> MultiProc_self P2 = i"
  using assms
  by (auto simp: MultiProc_setLocalId_def MultiProc_self_def Assert_isTrue_eq_Ok split: if_splits)

end
