(* ===== verification/NameTables.thy ===== *)
theory NameTables
imports Queues
begin

text \<open>
  What a name table promises: names and values are registered, looked up and unregistered; the
  table may be bounded, may refuse a name it holds, and may protect its first entries.
\<close>

section \<open>The specification\<close>

datatype 'v name_op = Register string 'v | Lookup string | Unregister string

datatype 'v name_res = Registered bool | Found "'v option" | Unregistered bool

text \<open>Removing the first entry of a name.\<close>

fun del_name :: "string \<Rightarrow> (string \<times> 'v) list \<Rightarrow> (string \<times> 'v) list" where
  "del_name n [] = []"
| "del_name n (p # ps) = (if fst p = n then ps else p # del_name n ps)"

lemma del_name_found:
  "fst p = n \<Longrightarrow> n \<notin> fst ` set us \<Longrightarrow> del_name n (us @ p # vs) = us @ vs"
  by (induction us) auto

lemma del_name_absent: "n \<notin> fst ` set t \<Longrightarrow> del_name n t = t"
  by (induction t) auto

lemma del_name_sub: "set (del_name n t) \<subseteq> set t"
  by (induction t) auto

lemma del_name_distinct: "distinct (map fst t) \<Longrightarrow> distinct (map fst (del_name n t))"
  by (induction t) (use del_name_sub in \<open>fastforce simp: image_iff\<close>)+

lemma map_of_del_name:
  "distinct (map fst t) \<Longrightarrow> map_of (del_name n t) = (map_of t)(n := None)"
proof (induction t)
  case (Cons p t)
  show ?case
  proof (cases "fst p = n")
    case True
    then have "map_of t n = None" using Cons.prems by (auto simp: map_of_eq_None_iff)
    then show ?thesis using True by (cases p) (auto simp: fun_eq_iff)
  next
    case False
    then show ?thesis using Cons by (cases p) (auto simp: fun_upd_twist)
  qed
qed simp

lemma map_of_snoc_new: "n \<notin> fst ` set t \<Longrightarrow> map_of (t @ [(n, v)]) = (map_of t)(n \<mapsto> v)"
  by (induction t) (auto simp: fun_upd_twist)

text \<open>
  The steps of a table with at most \<open>cap\<close> entries (if that is not \<open>None\<close>), checking for
  the name first if \<open>chk\<close>, whose first \<open>k\<close> entries stay.
\<close>

definition name_full :: "nat option \<Rightarrow> (string \<times> 'v) list \<Rightarrow> bool" where
  "name_full cap t \<longleftrightarrow> (case cap of None \<Rightarrow> False | Some c \<Rightarrow> c \<le> length t)"

fun name_spec ::
  "nat option \<Rightarrow> bool \<Rightarrow> nat \<Rightarrow> 'v name_op \<Rightarrow> (string \<times> 'v) list \<Rightarrow>
   'v name_res \<times> (string \<times> 'v) list" where
  "name_spec cap chk k (Register n v) t =
     (if (chk \<and> n \<in> fst ` set t) \<or> name_full cap t then (Registered False, t)
      else (Registered True, t @ [(n, v)]))"
| "name_spec cap chk k (Lookup n) t = (Found (map_of t n), t)"
| "name_spec cap chk k (Unregister n) t =
     (if n \<in> fst ` set (drop k t) then (Unregistered True, take k t @ del_name n (drop k t))
      else (Unregistered False, t))"

text \<open>A table that checks keeps its names distinct, and is then a map that never loses a name.\<close>

lemma name_spec_distinct:
  assumes "distinct (map fst t)" and "chk"
  shows "distinct (map fst (snd (name_spec cap chk k op t)))"
proof (cases op)
  case (Unregister n)
  have "distinct (map fst (take k t @ drop k t))" using assms(1) by simp
  then have "distinct (map fst (take k t @ del_name n (drop k t)))"
    using del_name_distinct [of "drop k t" n] del_name_sub [of n "drop k t"]
    by (force simp del: append_take_drop_id)
  then show ?thesis using Unregister assms(1) by simp
qed (use assms in auto)

lemma name_spec_map:
  assumes "distinct (map fst t)" and "chk"
  shows "map_of (snd (name_spec cap chk 0 (Register n v) t)) =
      (if n \<in> dom (map_of t) \<or> name_full cap t then map_of t else (map_of t)(n \<mapsto> v))"
    and "map_of (snd (name_spec cap chk 0 (Unregister n) t)) = (map_of t)(n := None)"
    and "fst (name_spec cap chk 0 (Lookup n) t) = Found (map_of t n)"
proof -
  have dom: "n \<in> dom (map_of t) \<longleftrightarrow> n \<in> fst ` set t" by (simp add: dom_map_of_conv_image_fst)
  show "map_of (snd (name_spec cap chk 0 (Register n v) t)) =
      (if n \<in> dom (map_of t) \<or> name_full cap t then map_of t else (map_of t)(n \<mapsto> v))"
    using assms(2) dom map_of_snoc_new [of n t v] by (simp add: dom_map_of_conv_image_fst)
  show "map_of (snd (name_spec cap chk 0 (Unregister n) t)) = (map_of t)(n := None)"
    using map_of_del_name [OF assms(1)] dom by (auto simp: fun_eq_iff map_of_eq_None_iff)
qed simp

section \<open>The interface\<close>

text \<open>
  A module with such tables: \<open>repr s t\<close> when the state holds the table \<open>t\<close>, \<open>fit\<close>
  what names and values it takes.
\<close>

locale name_table =
  fixes repr :: "'s \<Rightarrow> (string \<times> 'v) list \<Rightarrow> bool"
    and fit :: "string \<Rightarrow> 'v \<Rightarrow> bool"
    and cap :: "nat option" and chk :: bool and k :: nat
    and add :: "string \<Rightarrow> 'v \<Rightarrow> 's \<Rightarrow> (bool \<times> 's) res"
    and look :: "string \<Rightarrow> 's \<Rightarrow> ('v option \<times> 's) res"
    and del :: "string \<Rightarrow> 's \<Rightarrow> (bool \<times> 's) res"
  assumes add_refused: "repr s t \<Longrightarrow> fit n v \<Longrightarrow> (chk \<and> n \<in> fst ` set t) \<or> name_full cap t \<Longrightarrow>
      \<exists>s'. add n v s = Ok (False, s') \<and> repr s' t"
    and add_taken: "repr s t \<Longrightarrow> fit n v \<Longrightarrow> \<not> (chk \<and> n \<in> fst ` set t) \<Longrightarrow> \<not> name_full cap t \<Longrightarrow>
      \<exists>s'. add n v s = Ok (True, s') \<and> repr s' (t @ [(n, v)])"
    and look_up: "repr s t \<Longrightarrow> \<exists>s'. look n s = Ok (map_of t n, s') \<and> repr s' t"
    and del_none: "repr s t \<Longrightarrow> n \<notin> fst ` set (drop k t) \<Longrightarrow>
      \<exists>s'. del n s = Ok (False, s') \<and> repr s' t"
    and del_first: "repr s t \<Longrightarrow> n \<in> fst ` set (drop k t) \<Longrightarrow>
      \<exists>s'. del n s = Ok (True, s') \<and> repr s' (take k t @ del_name n (drop k t))"
begin

definition name_step :: "'v name_op \<Rightarrow> 's \<Rightarrow> ('v name_res \<times> 's) res" where
  "name_step op s = (case op of
     Register n v \<Rightarrow> res_bind (add n v s) (\<lambda>(b, s1). Ok (Registered b, s1))
   | Lookup n \<Rightarrow> res_bind (look n s) (\<lambda>(x, s1). Ok (Found x, s1))
   | Unregister n \<Rightarrow> res_bind (del n s) (\<lambda>(b, s1). Ok (Unregistered b, s1)))"

fun name_allowed :: "'v name_op \<Rightarrow> (string \<times> 'v) list \<Rightarrow> bool" where
  "name_allowed (Register n v) t \<longleftrightarrow> fit n v"
| "name_allowed (Lookup n) t \<longleftrightarrow> True"
| "name_allowed (Unregister n) t \<longleftrightarrow> True"

lemma name_step_refines:
  assumes "repr s t" and "name_allowed op t"
  shows "\<exists>s'. name_step op s = Ok (fst (name_spec cap chk k op t), s') \<and>
    repr s' (snd (name_spec cap chk k op t))"
proof (cases op)
  case (Register n v)
  then have f: "fit n v" using assms(2) by simp
  show ?thesis
  proof (cases "(chk \<and> n \<in> fst ` set t) \<or> name_full cap t")
    case True
    with add_refused [OF assms(1) f] Register show ?thesis by (auto simp: name_step_def)
  next
    case False
    with add_taken [OF assms(1) f] Register show ?thesis by (auto simp: name_step_def)
  qed
next
  case (Lookup n)
  then show ?thesis using look_up [OF assms(1), of n] by (auto simp: name_step_def)
next
  case (Unregister n)
  show ?thesis
  proof (cases "n \<in> fst ` set (drop k t)")
    case True
    with del_first [OF assms(1) True] Unregister show ?thesis by (auto simp: name_step_def)
  next
    case False
    with del_none [OF assms(1) False] Unregister show ?thesis by (auto simp: name_step_def)
  qed
qed

lemma name_run_refines:
  assumes "repr s t" and "allowed_run name_allowed (name_spec cap chk k) ops t"
  shows "\<exists>s'. run_ops name_step ops s = Ok (fst (spec_run (name_spec cap chk k) ops t), s') \<and>
    repr s' (snd (spec_run (name_spec cap chk k) ops t))"
  by (rule run_ops_refine [of repr name_allowed]) (use name_step_refines assms in auto)

text \<open>What is registered is found, until it is unregistered.\<close>

lemma look_after_add:
  assumes "repr s t" and "fit n v" and "n \<notin> fst ` set t" and "\<not> name_full cap t"
  shows "\<exists>s1 s2. add n v s = Ok (True, s1) \<and> look n s1 = Ok (Some v, s2) \<and> repr s2 (t @ [(n, v)])"
proof -
  obtain s1 where s1: "add n v s = Ok (True, s1)" "repr s1 (t @ [(n, v)])"
    using add_taken [OF assms(1,2)] assms(3,4) by blast
  have "map_of (t @ [(n, v)]) n = Some v"
    using map_of_snoc_new [OF assms(3)] by simp
  then show ?thesis using s1 look_up [OF s1(2), of n] by auto
qed

lemma look_after_del:
  assumes "repr s t" and "distinct (map fst t)" and "k = 0"
  shows "\<exists>b s1 s2. del n s = Ok (b, s1) \<and> look n s1 = Ok (None, s2) \<and> repr s2 (del_name n t)"
proof (cases "n \<in> fst ` set t")
  case True
  then obtain s1 where s1: "del n s = Ok (True, s1)" "repr s1 (del_name n t)"
    using del_first [OF assms(1), of n] assms(3) by auto
  then show ?thesis using look_up [OF s1(2), of n] map_of_del_name [OF assms(2), of n] by auto
next
  case False
  then obtain s1 where s1: "del n s = Ok (False, s1)" "repr s1 t"
    using del_none [OF assms(1), of n] assms(3) by auto
  have "map_of t n = None" "del_name n t = t"
    using False by (simp_all add: map_of_eq_None_iff del_name_absent)
  then show ?thesis using look_up [OF s1(2), of n] s1 by auto
qed

end

end
