(* ===== verification/NameServer.thy ===== *)
theory NameServer
imports UtilsList MultiProc NameTables
begin

text \<open>
  The name server of \<open>ti/sdo/utils/NameServer.c\<close>: tables of names and values, in memory
  set aside at creation or growing entry by entry, and the look-up on other processors.
\<close>

section \<open>State\<close>

type_synonym u8 = "8 word"

text \<open>An entry without its list element: the address of its name, the length of its value, and
  the value, which is the address of a buffer unless the values are single words.\<close>

record TableEntry =
  te_name :: ptr
  te_len :: u32
  te_value :: u32

record NameServer_Object =
  no_name :: "string option"
  no_maxNameLen :: u32
  no_maxValueLen :: u32
  no_numStatic :: u32
  no_numDynamic :: u32
  no_table :: ptr
  no_names :: ptr
  no_values :: ptr
  no_tableHeap :: ptr
  no_checkExisting :: bool
  no_refCount :: u32

record NameServer_Params =
  np_maxRuntimeEntries :: u32
  np_tableHeap :: ptr
  np_checkExisting :: bool
  np_maxValueLen :: u32
  np_maxNameLen :: u32

datatype ns_error = NS_E_maxReached | NS_E_entryExists | NS_E_paramMismatch

text \<open>What the module calls, newest first: its gate, the heaps, and \<open>Error_raise\<close>.\<close>

datatype ns_call =
    NG_enter | NG_leave | NG_hwi hwi_call
  | NH_alloc ptr sizeT ptr | NH_free ptr ptr sizeT
  | NE_raise ns_error

text \<open>
  Memory by address: list elements, entries, C strings (without their terminating zero) and
  value buffers, with the size of each buffer; the instances; the handles of the remote drivers.
\<close>

record ns_state =
  nv_list :: list_mem
  nv_entry :: "ptr \<Rightarrow> TableEntry"
  nv_str :: "ptr \<Rightarrow> string"
  nv_buf :: "ptr \<Rightarrow> u8 list"
  nv_size :: "ptr \<Rightarrow> nat"
  nv_obj :: "ptr \<Rightarrow> NameServer_Object"
  nv_static :: "ptr list"
  nv_dynamic :: "ptr list"
  nv_remote :: "ptr list"
  nv_calls :: "ns_call list"

text \<open>
  What lies outside: the heaps, whose answer to an allocation may depend on all calls made so
  far, the memory of a new instance, where an instance keeps its two list heads, and the
  remote drivers' answers (a status, the bytes copied out, and the length). Loops over a list
  get \<open>ne_fuel\<close> rounds.
\<close>

record ns_env =
  ne_alloc :: "ns_call list \<Rightarrow> ptr \<Rightarrow> sizeT \<Rightarrow> ptr"
  ne_objHeap :: ptr
  ne_newObj :: "ns_call list \<Rightarrow> ptr"
  ne_freeList :: "ptr \<Rightarrow> ptr"
  ne_nameList :: "ptr \<Rightarrow> ptr"
  ne_remoteGet :: "ptr \<Rightarrow> string option \<Rightarrow> string \<Rightarrow> u32 \<Rightarrow> int \<times> u8 list option \<times> u32"
  ne_fuel :: nat

record ns_config =
  nc_asserts :: bool
  nc_singleProcessor :: bool
  nc_multiProc :: MultiProc_config
  nc_procs :: MultiProc_Module

definition NameServer_S_SUCCESS :: int where "NameServer_S_SUCCESS = 0"
definition NameServer_E_FAIL :: int where "NameServer_E_FAIL = - 1"
definition NameServer_E_INVALIDARG :: int where "NameServer_E_INVALIDARG = - 2"
definition NameServer_E_NOTFOUND :: int where "NameServer_E_NOTFOUND = - 5"
definition NameServer_E_TIMEOUT :: int where "NameServer_E_TIMEOUT = - 6"
definition NameServer_ALLOWGROWTH :: u32 where "NameServer_ALLOWGROWTH = 0xFFFFFFFF"
definition NameServer_Params_MAXNAMELEN :: u32 where "NameServer_Params_MAXNAMELEN = 16"

abbreviation sizeof_TableEntry :: sizeT where "sizeof_TableEntry \<equiv> 20"
abbreviation sizeof_UInt32 :: sizeT where "sizeof_UInt32 \<equiv> 4"

text \<open>A word in memory, little-endian.\<close>

definition u32_bytes :: "u32 \<Rightarrow> u8 list" where
  "u32_bytes x = [ucast x, ucast (drop_bit 8 x), ucast (drop_bit 16 x), ucast (drop_bit 24 x)]"

definition bytes_u32 :: "u8 list \<Rightarrow> u32 res" where
  "bytes_u32 bs = (case bs of
     b0 # b1 # b2 # b3 # _ \<Rightarrow>
       Ok (ucast b0 OR push_bit 8 (ucast b1) OR push_bit 16 (ucast b2) OR push_bit 24 (ucast b3))
   | _ \<Rightarrow> Err Bad_access)"

lemma bytes_u32_of_u32_bytes [simp]: "bytes_u32 (u32_bytes x) = Ok x"
proof -
  have "ucast (ucast x :: u8) OR push_bit 8 (ucast (ucast (drop_bit 8 x) :: u8)) OR
      push_bit 16 (ucast (ucast (drop_bit 16 x) :: u8)) OR push_bit 24 (ucast (ucast (drop_bit 24 x) :: u8)) = x"
    (is "?bytes = x")
  proof (rule bit_word_eqI)
    fix n assume "n < LENGTH(32)"
    then consider "n < 8" | "8 \<le> n" "n < 16" | "16 \<le> n" "n < 24" | "24 \<le> n" "n < 32" by force
    then show "bit ?bytes n = bit x n"
      by cases (auto simp: bit_or_iff bit_push_bit_iff bit_ucast_iff bit_drop_bit_eq)
  qed
  then show ?thesis by (simp add: bytes_u32_def u32_bytes_def)
qed

section \<open>Memory\<close>

definition ns_log :: "ns_call \<Rightarrow> ns_state \<Rightarrow> ns_state" where
  "ns_log c s = s\<lparr>nv_calls := c # nv_calls s\<rparr>"

definition ns_upd_obj :: "ptr \<Rightarrow> (NameServer_Object \<Rightarrow> NameServer_Object) \<Rightarrow> ns_state \<Rightarrow> ns_state" where
  "ns_upd_obj a f s = s\<lparr>nv_obj := (nv_obj s)(a := f (nv_obj s a))\<rparr>"

definition ns_upd_entry :: "ptr \<Rightarrow> (TableEntry \<Rightarrow> TableEntry) \<Rightarrow> ns_state \<Rightarrow> ns_state" where
  "ns_upd_entry e f s = s\<lparr>nv_entry := (nv_entry s)(e := f (nv_entry s e))\<rparr>"

definition ns_on_list :: "(list_mem \<Rightarrow> ('a \<times> list_mem) res) \<Rightarrow> ns_state \<Rightarrow> ('a \<times> ns_state) res" where
  "ns_on_list f s = res_bind (f (nv_list s)) (\<lambda>(x, l). Ok (x, s\<lparr>nv_list := l\<rparr>))"

text \<open>\<open>Memory_alloc\<close> and \<open>Memory_free\<close>.\<close>

definition ns_alloc :: "ns_env \<Rightarrow> ptr \<Rightarrow> sizeT \<Rightarrow> ns_state \<Rightarrow> ptr \<times> ns_state" where
  "ns_alloc E heap n s =
     (let a = ne_alloc E (nv_calls s) heap n;
          s1 = ns_log (NH_alloc heap n a) s in
      (a, if a = NULL then s1 else s1\<lparr>nv_size := (nv_size s1)(a := unat n)\<rparr>))"

definition ns_free :: "ptr \<Rightarrow> ptr \<Rightarrow> sizeT \<Rightarrow> ns_state \<Rightarrow> ns_state" where
  "ns_free heap a n s = ns_log (NH_free heap a n) s"

text \<open>\<open>memcpy\<close> and \<open>strncpy\<close> (with the length of the source) into buffers.\<close>

definition ns_memcpy :: "ptr \<Rightarrow> u8 list \<Rightarrow> nat \<Rightarrow> ns_state \<Rightarrow> ns_state res" where
  "ns_memcpy dst src n s =
     (if length src < n \<or> nv_size s dst < n then Err Bad_access
      else Ok (s\<lparr>nv_buf := (nv_buf s)(dst := take n src @ drop n (nv_buf s dst))\<rparr>))"

definition ns_strcpy :: "ptr \<Rightarrow> string \<Rightarrow> ns_state \<Rightarrow> ns_state res" where
  "ns_strcpy dst src s =
     (if nv_size s dst < length src + 1 then Err Bad_access
      else Ok (s\<lparr>nv_str := (nv_str s)(dst := src)\<rparr>))"

lemma ns_log_simps [simp]:
  "nv_list (ns_log c s) = nv_list s" "nv_entry (ns_log c s) = nv_entry s" "nv_str (ns_log c s) = nv_str s"
  "nv_buf (ns_log c s) = nv_buf s" "nv_size (ns_log c s) = nv_size s" "nv_obj (ns_log c s) = nv_obj s"
  "nv_static (ns_log c s) = nv_static s" "nv_dynamic (ns_log c s) = nv_dynamic s"
  "nv_remote (ns_log c s) = nv_remote s" "nv_calls (ns_log c s) = c # nv_calls s"
  by (simp_all add: ns_log_def)

lemma ns_free_simps [simp]:
  "nv_list (ns_free h a n s) = nv_list s" "nv_entry (ns_free h a n s) = nv_entry s"
  "nv_str (ns_free h a n s) = nv_str s" "nv_buf (ns_free h a n s) = nv_buf s"
  "nv_size (ns_free h a n s) = nv_size s" "nv_obj (ns_free h a n s) = nv_obj s"
  "nv_static (ns_free h a n s) = nv_static s" "nv_dynamic (ns_free h a n s) = nv_dynamic s"
  "nv_remote (ns_free h a n s) = nv_remote s" "nv_calls (ns_free h a n s) = NH_free h a n # nv_calls s"
  by (simp_all add: ns_free_def)

lemma ns_upd_entry_simps [simp]:
  "nv_list (ns_upd_entry e f s) = nv_list s" "nv_entry (ns_upd_entry e f s) = (nv_entry s)(e := f (nv_entry s e))"
  "nv_str (ns_upd_entry e f s) = nv_str s" "nv_buf (ns_upd_entry e f s) = nv_buf s"
  "nv_size (ns_upd_entry e f s) = nv_size s" "nv_obj (ns_upd_entry e f s) = nv_obj s"
  "nv_static (ns_upd_entry e f s) = nv_static s" "nv_dynamic (ns_upd_entry e f s) = nv_dynamic s"
  "nv_remote (ns_upd_entry e f s) = nv_remote s" "nv_calls (ns_upd_entry e f s) = nv_calls s"
  by (simp_all add: ns_upd_entry_def)

lemma ns_upd_obj_simps [simp]:
  "nv_list (ns_upd_obj a f s) = nv_list s" "nv_entry (ns_upd_obj a f s) = nv_entry s"
  "nv_str (ns_upd_obj a f s) = nv_str s" "nv_buf (ns_upd_obj a f s) = nv_buf s"
  "nv_size (ns_upd_obj a f s) = nv_size s" "nv_obj (ns_upd_obj a f s) = (nv_obj s)(a := f (nv_obj s a))"
  "nv_static (ns_upd_obj a f s) = nv_static s" "nv_dynamic (ns_upd_obj a f s) = nv_dynamic s"
  "nv_remote (ns_upd_obj a f s) = nv_remote s" "nv_calls (ns_upd_obj a f s) = nv_calls s"
  by (simp_all add: ns_upd_obj_def)


section \<open>Looking up\<close>

text \<open>
  The loops over a list: from the cursor on (\<open>NULL\<close> before the first element), the first
  element that passes a test, or \<open>NULL\<close> at the end.
\<close>

fun ns_find :: "(ptr \<Rightarrow> bool) \<Rightarrow> ptr \<Rightarrow> list_mem \<Rightarrow> nat \<Rightarrow> ptr \<Rightarrow> ptr res" where
  "ns_find P h l fuel cur =
     res_bind (List_next h cur l) (\<lambda>e.
     if e = NULL \<or> P e then Ok e
     else case fuel of 0 \<Rightarrow> Err Out_of_fuel | Suc n \<Rightarrow> ns_find P h l n e)"

declare ns_find.simps [simp del]

definition NameServer_findLocal :: "ns_env \<Rightarrow> ptr \<Rightarrow> string \<Rightarrow> ns_state \<Rightarrow> (ptr \<times> ns_state) res" where
  "NameServer_findLocal E obj name s =
     (let s1 = ns_log NG_enter s in
      res_bind (ns_find (\<lambda>e. nv_str s1 (te_name (nv_entry s1 e)) = name) (ne_nameList E obj)
                 (nv_list s1) (ne_fuel E) NULL)
        (\<lambda>e. Ok (e, ns_log NG_leave s1)))"

definition NameServer_getKey :: "ns_env \<Rightarrow> ns_config \<Rightarrow> ptr \<Rightarrow> u32 \<Rightarrow> ns_state \<Rightarrow> (ptr \<times> ns_state) res" where
  "NameServer_getKey E C obj val s =
     Assert_isTrue (nc_asserts C) (no_maxValueLen (nv_obj s obj) = sizeof_UInt32) A_unnamed (
     let s1 = ns_log NG_enter s in
     res_bind (ns_find (\<lambda>e. te_value (nv_entry s1 e) = val) (ne_nameList E obj)
                (nv_list s1) (ne_fuel E) NULL)
       (\<lambda>e. Ok (e, ns_log NG_leave s1)))"

text \<open>What \<open>NameServer_getLocal\<close> answers: the status, the bytes copied out, and \<open>*len\<close>.\<close>

definition NameServer_getLocal ::
  "ns_env \<Rightarrow> ns_config \<Rightarrow> ptr \<Rightarrow> string \<Rightarrow> u32 \<Rightarrow> ns_state \<Rightarrow>
   ((int \<times> u8 list option \<times> u32) \<times> ns_state) res" where
  "NameServer_getLocal E C obj name len s =
     res_bind (NameServer_findLocal E obj name (ns_log NG_enter s)) (\<lambda>(e, s1).
     if e \<noteq> NULL then
       let t = nv_entry s1 e in
       if no_maxValueLen (nv_obj s1 obj) = sizeof_UInt32 then
         Ok ((NameServer_S_SUCCESS, Some (u32_bytes (te_value t)), te_len t), ns_log NG_leave s1)
       else
         Assert_isTrue (nc_asserts C) (te_len t \<le> len) A_invalidLen (
         Ok ((NameServer_S_SUCCESS, Some (take (unat (te_len t)) (nv_buf s1 (te_value t))), te_len t),
             ns_log NG_leave s1))
     else Ok ((NameServer_E_NOTFOUND, None, len), ns_log NG_leave s1))"

definition NameServer_getLocalUInt32 ::
  "ns_env \<Rightarrow> ns_config \<Rightarrow> ptr \<Rightarrow> string \<Rightarrow> ns_state \<Rightarrow> ((int \<times> u8 list option) \<times> ns_state) res" where
  "NameServer_getLocalUInt32 E C obj name s =
     res_bind (NameServer_getLocal E C obj name sizeof_UInt32 s)
       (\<lambda>((status, bytes, _), s1). Ok ((status, bytes), s1))"

text \<open>
  The loop of \<open>NameServer_match\<close>: a name counts when it is longer than those found so far and
  its characters start the name asked for.
\<close>

fun NameServer_match_loop ::
  "(ptr \<Rightarrow> string) \<Rightarrow> (ptr \<Rightarrow> u32) \<Rightarrow> ptr \<Rightarrow> list_mem \<Rightarrow> string \<Rightarrow> nat \<Rightarrow> ptr \<Rightarrow> nat \<Rightarrow> u32 option \<Rightarrow>
   (nat \<times> u32 option) res" where
  "NameServer_match_loop str val h l name fuel cur foundLen found =
     res_bind (List_next h cur l) (\<lambda>e.
     if e = NULL then Ok (foundLen, found)
     else case fuel of 0 \<Rightarrow> Err Out_of_fuel
       | Suc n \<Rightarrow>
           let len = length (str e) in
           if foundLen < len \<and> take len name = str e
           then NameServer_match_loop str val h l name n e len (Some (val e))
           else NameServer_match_loop str val h l name n e foundLen found)"

declare NameServer_match_loop.simps [simp del]

definition NameServer_match ::
  "ns_env \<Rightarrow> ns_config \<Rightarrow> ptr \<Rightarrow> string \<Rightarrow> ns_state \<Rightarrow> ((nat \<times> u32 option) \<times> ns_state) res" where
  "NameServer_match E C obj name s =
     Assert_isTrue (nc_asserts C) (sizeof_UInt32 = no_maxValueLen (nv_obj s obj)) A_invalidLen (
     let s1 = ns_log NG_enter s in
     res_bind (NameServer_match_loop (\<lambda>e. nv_str s1 (te_name (nv_entry s1 e))) (\<lambda>e. te_value (nv_entry s1 e))
                (ne_nameList E obj) (nv_list s1) name (ne_fuel E) NULL 0 None)
       (\<lambda>r. Ok (r, ns_log NG_leave s1)))"

section \<open>Adding\<close>

text \<open>The checks before an entry is taken, first part of \<open>NameServer_add\<close>: whether to go on.\<close>

definition NameServer_add_check ::
  "ns_env \<Rightarrow> ns_config \<Rightarrow> ptr \<Rightarrow> string \<Rightarrow> u32 \<Rightarrow> ns_state \<Rightarrow> (bool \<times> ns_state) res" where
  "NameServer_add_check E C obj name len s =
     (let o1 = nv_obj s obj in
      Assert_isTrue (nc_asserts C) (len \<le> no_maxValueLen o1) A_invalidLen (
      Assert_isTrue (nc_asserts C) (length name < unat (no_maxNameLen o1)) A_invalidLen (
      if no_checkExisting o1 then
        res_bind (NameServer_findLocal E obj name (ns_log NG_enter s)) (\<lambda>(e, s1).
        if e \<noteq> NULL then Ok (False, ns_log (NE_raise NS_E_entryExists) (ns_log NG_leave s1))
        else Ok (True, ns_log NG_leave s1))
      else Ok (True, s))))"

text \<open>
  An entry off the free list, or a new one from the heap. When the third allocation fails, the
  name of the entry is read for its release after the entry has been released.
\<close>

definition NameServer_newEntry ::
  "ns_env \<Rightarrow> ptr \<Rightarrow> string \<Rightarrow> ns_state \<Rightarrow> (ptr \<times> ns_state) res" where
  "NameServer_newEntry E obj name s =
     res_bind (ns_on_list (List_get (ne_freeList E obj)) s) (\<lambda>(e, s1).
     let o1 = nv_obj s1 obj; heap = no_tableHeap o1 in
     if e \<noteq> NULL then Ok (e, s1)
     else if no_numDynamic o1 = NameServer_ALLOWGROWTH then
       let (e1, s2) = ns_alloc E heap sizeof_TableEntry s1 in
       if e1 = NULL then Ok (NULL, s2)
       else
         let (n1, s3) = ns_alloc E heap (of_nat (length name + 1)) s2;
             s4 = ns_upd_entry e1 (\<lambda>t. t\<lparr>te_name := n1\<rparr>) s3 in
         if n1 = NULL then Ok (NULL, ns_free heap e1 sizeof_TableEntry s4)
         else if no_maxValueLen o1 \<noteq> sizeof_UInt32 then
           let (v1, s5) = ns_alloc E heap (no_maxValueLen o1) s4;
               s6 = ns_upd_entry e1 (\<lambda>t. t\<lparr>te_value := v1\<rparr>) s5 in
           if v1 = NULL then Err Use_after_free
           else Ok (e1, s6)
         else Ok (e1, s4)
     else Ok (NULL, ns_log (NE_raise NS_E_maxReached) s1))"

text \<open>Filling the entry.\<close>

definition NameServer_fill ::
  "ptr \<Rightarrow> ptr \<Rightarrow> string \<Rightarrow> u8 list \<Rightarrow> u32 \<Rightarrow> ns_state \<Rightarrow> ns_state res" where
  "NameServer_fill obj e name value len s =
     res_bind
       (if no_maxValueLen (nv_obj s obj) = sizeof_UInt32 then
          res_bind (bytes_u32 value) (\<lambda>x.
          Ok (ns_upd_entry e (\<lambda>t. t\<lparr>te_value := x, te_len := sizeof_UInt32\<rparr>) s))
        else
          res_bind (ns_memcpy (te_value (nv_entry s e)) value (unat len) s) (\<lambda>s1.
          Ok (ns_upd_entry e (\<lambda>t. t\<lparr>te_len := len\<rparr>) s1)))
       (\<lambda>s2. ns_strcpy (te_name (nv_entry s2 e)) name s2)"

text \<open>The rest of \<open>NameServer_add\<close>; the answer is the entry or \<open>NULL\<close>.\<close>

definition NameServer_add_insert ::
  "ns_env \<Rightarrow> ptr \<Rightarrow> string \<Rightarrow> u8 list \<Rightarrow> u32 \<Rightarrow> ns_state \<Rightarrow> (ptr \<times> ns_state) res" where
  "NameServer_add_insert E obj name value len s =
     res_bind (NameServer_newEntry E obj name s) (\<lambda>(e, s1).
     if e = NULL then Ok (NULL, s1)
     else
       res_bind (NameServer_fill obj e name value len s1) (\<lambda>s2.
       res_bind (ns_on_list (List_put (ne_nameList E obj) e) s2) (\<lambda>(_, s3).
       Ok (e, s3))))"

definition NameServer_add ::
  "ns_env \<Rightarrow> ns_config \<Rightarrow> ptr \<Rightarrow> string \<Rightarrow> u8 list \<Rightarrow> u32 \<Rightarrow> ns_state \<Rightarrow> (ptr \<times> ns_state) res" where
  "NameServer_add E C obj name value len s =
     res_bind (NameServer_add_check E C obj name len s) (\<lambda>(go, s1).
     if go then NameServer_add_insert E obj name value len s1 else Ok (NULL, s1))"

definition NameServer_addUInt32 ::
  "ns_env \<Rightarrow> ns_config \<Rightarrow> ptr \<Rightarrow> string \<Rightarrow> u32 \<Rightarrow> ns_state \<Rightarrow> (ptr \<times> ns_state) res" where
  "NameServer_addUInt32 E C obj name value s =
     NameServer_add E C obj name (u32_bytes value) sizeof_UInt32 s"

section \<open>Removing\<close>

definition NameServer_removeLocal :: "ns_env \<Rightarrow> ptr \<Rightarrow> ptr \<Rightarrow> ns_state \<Rightarrow> ns_state res" where
  "NameServer_removeLocal E obj e s =
     (let o1 = nv_obj s obj; heap = no_tableHeap o1 in
      res_bind (List_remove e (nv_list (ns_log NG_enter s))) (\<lambda>l.
      let s1 = ns_log NG_leave ((ns_log NG_enter s)\<lparr>nv_list := l\<rparr>) in
      if no_numDynamic o1 = NameServer_ALLOWGROWTH then
        let t = nv_entry s1 e;
            s2 = (if no_maxValueLen o1 \<noteq> sizeof_UInt32
                  then ns_free heap (te_value t) (no_maxValueLen o1) s1 else s1);
            s3 = ns_free heap (te_name t) (of_nat (length (nv_str s2 (te_name t)) + 1)) s2 in
        Ok (ns_free heap e sizeof_TableEntry s3)
      else
        res_bind (ns_on_list (List_put (ne_freeList E obj) e) s1) (\<lambda>(_, s2). Ok s2)))"

text \<open>Stepping over the first entries of a list.\<close>

fun ns_skip :: "ptr \<Rightarrow> list_mem \<Rightarrow> nat \<Rightarrow> ptr \<Rightarrow> ptr res" where
  "ns_skip h l 0 cur = Ok cur"
| "ns_skip h l (Suc n) cur = res_bind (List_next h cur l) (\<lambda>e. ns_skip h l n e)"

definition NameServer_remove :: "ns_env \<Rightarrow> ptr \<Rightarrow> string \<Rightarrow> ns_state \<Rightarrow> (int \<times> ns_state) res" where
  "NameServer_remove E obj name s =
     (let h = ne_nameList E obj in
      res_bind (ns_skip h (nv_list s) (unat (no_numStatic (nv_obj s obj))) NULL) (\<lambda>cur.
      let s1 = ns_log NG_enter s in
      res_bind (ns_find (\<lambda>e. nv_str s1 (te_name (nv_entry s1 e)) = name) h (nv_list s1) (ne_fuel E) cur)
        (\<lambda>e.
      if e \<noteq> NULL then
        res_bind (NameServer_removeLocal E obj e s1) (\<lambda>s2.
        Ok (NameServer_S_SUCCESS, ns_log NG_leave s2))
      else Ok (NameServer_E_INVALIDARG, ns_log NG_leave s1))))"

definition NameServer_removeEntry :: "ns_env \<Rightarrow> ptr \<Rightarrow> ptr \<Rightarrow> ns_state \<Rightarrow> (int \<times> ns_state) res" where
  "NameServer_removeEntry E obj entry s =
     res_bind (NameServer_removeLocal E obj entry s) (\<lambda>s1. Ok (NameServer_S_SUCCESS, s1))"


section \<open>Instances\<close>

definition NameServer_Params_init :: NameServer_Params where
  "NameServer_Params_init = \<lparr>np_maxRuntimeEntries = NameServer_ALLOWGROWTH, np_tableHeap = NULL,
     np_checkExisting = True, np_maxValueLen = 0, np_maxNameLen = NameServer_Params_MAXNAMELEN\<rparr>"

text \<open>
  The loop of \<open>postInit\<close>: rounds left and index. \<open>sizes\<close> are those of the three
  buffers, of which each entry gets its part.
\<close>

fun NameServer_postInit_loop ::
  "ns_env \<Rightarrow> ptr \<Rightarrow> (ptr \<Rightarrow> nat) \<Rightarrow> nat \<Rightarrow> nat \<Rightarrow> ns_state \<Rightarrow> ns_state res" where
  "NameServer_postInit_loop E obj sizes 0 i s = Ok s"
| "NameServer_postInit_loop E obj sizes (Suc n) i s =
     (let o1 = nv_obj s obj;
          j = i + unat (no_numStatic o1);
          e = no_table o1 + of_nat j * sizeof_TableEntry;
          name = no_names o1 + of_nat i * no_maxNameLen o1;
          value = no_values o1 + of_nat i * no_maxValueLen o1;
          part = (\<lambda>p len. min (unat len) (sizes p - i * unat len)) in
      if sizes (no_table o1) < (j + 1) * unat sizeof_TableEntry then Err Bad_access
      else
        let s1 = (ns_upd_entry e (\<lambda>t. t\<lparr>te_name := name\<rparr>) s)
                   \<lparr>nv_size := (nv_size s)(name := part (no_names o1) (no_maxNameLen o1))\<rparr>;
            s2 = (if no_maxValueLen o1 > sizeof_UInt32 then
                    (ns_upd_entry e (\<lambda>t. t\<lparr>te_value := value, te_len := no_maxValueLen o1\<rparr>) s1)
                      \<lparr>nv_size := (nv_size s1)(value := part (no_values o1) (no_maxValueLen o1))\<rparr>
                  else s1) in
        res_bind (ns_on_list (List_put (ne_freeList E obj) e) s2) (\<lambda>(_, s3).
        NameServer_postInit_loop E obj sizes n (Suc i) s3))"

definition NameServer_postInit :: "ns_env \<Rightarrow> ptr \<Rightarrow> ns_state \<Rightarrow> ns_state res" where
  "NameServer_postInit E obj s =
     NameServer_postInit_loop E obj (nv_size s) (unat (no_numDynamic (nv_obj s obj))) 0 s"

text \<open>The answer is the status handed to the finalization when it is not zero.\<close>

definition NameServer_Instance_init ::
  "ns_env \<Rightarrow> ptr \<Rightarrow> string \<Rightarrow> NameServer_Params \<Rightarrow> ns_state \<Rightarrow> (nat \<times> ns_state) res" where
  "NameServer_Instance_init E obj name p s =
     (let heap = (if np_tableHeap p = NULL then ne_objHeap E else np_tableHeap p);
          valueLen = (if np_maxValueLen p < sizeof_UInt32 then sizeof_UInt32 else np_maxValueLen p);
          dyn = np_maxRuntimeEntries p;
          s1 = ns_upd_obj obj (\<lambda>_. \<lparr>no_name = Some name, no_maxNameLen = np_maxNameLen p,
                 no_maxValueLen = valueLen, no_numStatic = 0, no_numDynamic = dyn, no_table = NULL,
                 no_names = NULL, no_values = NULL, no_tableHeap = heap,
                 no_checkExisting = np_checkExisting p, no_refCount = 1\<rparr>) s in
      res_bind (List_Instance_init (ne_freeList E obj) (nv_list s1)) (\<lambda>l1.
      res_bind (List_Instance_init (ne_nameList E obj) l1) (\<lambda>l2.
      let s2 = s1\<lparr>nv_list := l2\<rparr> in
      if dyn = NameServer_ALLOWGROWTH then Ok (0, s2)
      else
        let (t, s3) = ns_alloc E heap (sizeof_TableEntry * dyn) s2;
            s4 = ns_upd_obj obj (\<lambda>x. x\<lparr>no_table := t\<rparr>) s3 in
        if t = NULL then Ok (3, s4)
        else
          let (v, s5) = (if valueLen \<noteq> sizeof_UInt32 then ns_alloc E heap (valueLen * dyn) s4 else (NULL, s4));
              s6 = ns_upd_obj obj (\<lambda>x. x\<lparr>no_values := v\<rparr>) s5 in
          if valueLen \<noteq> sizeof_UInt32 \<and> v = NULL then Ok (2, s6)
          else
            let (n, s7) = ns_alloc E heap (np_maxNameLen p * dyn) s6;
                s8 = ns_upd_obj obj (\<lambda>x. x\<lparr>no_names := n\<rparr>) s7 in
            if n = NULL then Ok (1, s8)
            else res_bind (NameServer_postInit E obj s8) (\<lambda>s9. Ok (0, s9)))))"

text \<open>Releasing the entries of a table that grows.\<close>

fun NameServer_release_loop :: "ns_env \<Rightarrow> ptr \<Rightarrow> nat \<Rightarrow> ptr \<Rightarrow> ns_state \<Rightarrow> ns_state res" where
  "NameServer_release_loop E obj fuel e s =
     (if e = NULL then Ok s
      else case fuel of 0 \<Rightarrow> Err Out_of_fuel
        | Suc n \<Rightarrow>
            res_bind (List_next (ne_nameList E obj) e (nv_list s)) (\<lambda>e2.
            let o1 = nv_obj s obj; heap = no_tableHeap o1; t = nv_entry s e;
                s1 = (if no_maxValueLen o1 \<noteq> sizeof_UInt32
                      then ns_free heap (te_value t) (no_maxValueLen o1) s else s);
                s2 = ns_free heap (te_name t) (of_nat (length (nv_str s1 (te_name t)) + 1)) s1 in
            NameServer_release_loop E obj n e2 (ns_free heap e sizeof_TableEntry s2)))"

declare NameServer_release_loop.simps [simp del]

definition NameServer_Instance_finalize :: "ns_env \<Rightarrow> ptr \<Rightarrow> ns_state \<Rightarrow> ns_state res" where
  "NameServer_Instance_finalize E obj s =
     (let o1 = nv_obj s obj; heap = no_tableHeap o1; dyn = no_numDynamic o1 in
      if dyn \<noteq> NameServer_ALLOWGROWTH then
        let s1 = (if no_names o1 \<noteq> NULL then ns_free heap (no_names o1) (no_maxNameLen o1 * dyn) s else s);
            s2 = (if no_values o1 \<noteq> NULL \<and> no_maxValueLen o1 \<noteq> sizeof_UInt32
                  then ns_free heap (no_values o1) (no_maxValueLen o1 * dyn) s1 else s1) in
        Ok (if no_table o1 \<noteq> NULL then ns_free heap (no_table o1) (sizeof_TableEntry * dyn) s2 else s2)
      else
        res_bind (List_next (ne_nameList E obj) NULL (nv_list s)) (\<lambda>e.
        NameServer_release_loop E obj (ne_fuel E) e s))"

text \<open>
  The creation and deletion of an instance that the runtime wraps around these two: memory for
  the instance, a failed initialization undone, and the list of the module's instances.
\<close>

definition ns_create :: "ns_env \<Rightarrow> string \<Rightarrow> NameServer_Params \<Rightarrow> ns_state \<Rightarrow> (ptr \<times> ns_state) res" where
  "ns_create E name p s =
     (let obj = ne_newObj E (nv_calls s) in
      if obj = NULL then Ok (NULL, s)
      else
        res_bind (NameServer_Instance_init E obj name p s) (\<lambda>(status, s1).
        if status = 0 then Ok (obj, s1\<lparr>nv_dynamic := nv_dynamic s1 @ [obj]\<rparr>)
        else res_bind (NameServer_Instance_finalize E obj s1) (\<lambda>s2. Ok (NULL, s2))))"

definition ns_delete :: "ns_env \<Rightarrow> ptr \<Rightarrow> ns_state \<Rightarrow> ns_state res" where
  "ns_delete E obj s =
     res_bind (NameServer_Instance_finalize E obj s) (\<lambda>s1.
     Ok (s1\<lparr>nv_dynamic := remove1 obj (nv_dynamic s1)\<rparr>))"

text \<open>The first instance of a name, among the static ones and then among the others.\<close>

definition ns_named :: "ns_state \<Rightarrow> string \<Rightarrow> ptr list \<Rightarrow> ptr" where
  "ns_named s name objs =
     (case find (\<lambda>a. no_name (nv_obj s a) = Some name) objs of None \<Rightarrow> NULL | Some a \<Rightarrow> a)"

definition NameServer_getHandle :: "string \<Rightarrow> ns_state \<Rightarrow> ptr \<times> ns_state" where
  "NameServer_getHandle name s =
     (let a = ns_named s name (nv_static s) in
      if a \<noteq> NULL then (a, s)
      else let s1 = ns_log NG_enter s in (ns_named s1 name (nv_dynamic s1), ns_log NG_leave s1))"

text \<open>
  Opening an instance that exists compares the parameters with what the instance holds; the
  instance is the answer whatever the outcome.
\<close>

definition NameServer_create ::
  "ns_env \<Rightarrow> string \<Rightarrow> NameServer_Params option \<Rightarrow> ns_state \<Rightarrow> (ptr \<times> ns_state) res" where
  "NameServer_create E name params s =
     (let (obj, s1) = NameServer_getHandle name s in
      if obj \<noteq> NULL then
        case params of None \<Rightarrow> Err Bad_access
        | Some p \<Rightarrow>
            let o1 = nv_obj s1 obj in
            if no_numDynamic o1 = np_maxRuntimeEntries p \<and> no_tableHeap o1 = np_tableHeap p \<and>
              no_checkExisting o1 = np_checkExisting p \<and> no_maxValueLen o1 = np_maxValueLen p \<and>
              no_maxNameLen o1 = np_maxNameLen p
            then Ok (obj, ns_upd_obj obj (\<lambda>x. x\<lparr>no_refCount := no_refCount x + 1\<rparr>) s1)
            else Ok (obj, ns_log (NE_raise NS_E_paramMismatch) s1)
      else ns_create E name (case params of None \<Rightarrow> NameServer_Params_init | Some p \<Rightarrow> p) s1)"

definition NameServer_delete :: "ns_env \<Rightarrow> ptr \<Rightarrow> ns_state \<Rightarrow> (int \<times> ns_state) res" where
  "NameServer_delete E obj s =
     (let s1 = ns_upd_obj obj (\<lambda>x. x\<lparr>no_refCount := no_refCount x - 1\<rparr>) s in
      res_bind (if no_refCount (nv_obj s1 obj) = 0 then ns_delete E obj s1 else Ok s1) (\<lambda>s2.
      Ok (NameServer_S_SUCCESS, s2)))"

text \<open>At start-up, the static instances with entries to fill get their free lists.\<close>

fun NameServer_startup_loop :: "ns_env \<Rightarrow> ptr list \<Rightarrow> ns_state \<Rightarrow> ns_state res" where
  "NameServer_startup_loop E [] s = Ok s"
| "NameServer_startup_loop E (obj # objs) s =
     (let dyn = no_numDynamic (nv_obj s obj) in
      res_bind (if dyn \<noteq> 0 \<and> dyn \<noteq> NameServer_ALLOWGROWTH then NameServer_postInit E obj s else Ok s)
        (\<lambda>s1. NameServer_startup_loop E objs s1))"

definition NameServer_Module_startup :: "ns_env \<Rightarrow> ns_state \<Rightarrow> ns_state res" where
  "NameServer_Module_startup E s = NameServer_startup_loop E (nv_static s) s"

section \<open>Other processors\<close>

text \<open>The place of a processor's driver; with an unknown addressing mode it is never set.\<close>

definition ns_procIndex :: "ns_config \<Rightarrow> u16 \<Rightarrow> u16 res" where
  "ns_procIndex C procId = (case mpc_procAddrMode (nc_multiProc C) of
     ProcAddrMode_Global \<Rightarrow> Ok procId
   | ProcAddrMode_Cluster \<Rightarrow> Ok (procId - MultiProc_getBaseIdOfCluster (nc_procs C))
   | ProcAddrMode_other \<Rightarrow> Assert_isTrue (nc_asserts C) False A_unnamed (Err No_init))"

text \<open>The checks the three operations on drivers start with.\<close>

definition ns_driver :: "ns_config \<Rightarrow> u16 \<Rightarrow> ns_state \<Rightarrow> nat res" where
  "ns_driver C procId s =
     Assert_isTrue (nc_asserts C) (procId < mpc_numProcessors (nc_multiProc C)) A_invArgument (
     res_bind (ns_procIndex C procId) (\<lambda>index.
     Assert_isTrue (nc_asserts C) (unat index < length (nv_remote s)) A_invArgument (
     Ok (unat index))))"

definition NameServer_isRegistered :: "ns_config \<Rightarrow> u16 \<Rightarrow> ns_state \<Rightarrow> bool res" where
  "NameServer_isRegistered C procId s =
     res_bind (ns_driver C procId s) (\<lambda>index.
     res_bind (arr_get (nv_remote s) index) (\<lambda>h. Ok (h \<noteq> NULL)))"

definition NameServer_registerRemoteDriver ::
  "ns_config \<Rightarrow> ptr \<Rightarrow> u16 \<Rightarrow> ns_state \<Rightarrow> (int \<times> ns_state) res" where
  "NameServer_registerRemoteDriver C handle procId s =
     res_bind (ns_driver C procId s) (\<lambda>index.
     let s1 = ns_log (NG_hwi Hwi_disable) s in
     res_bind (arr_get (nv_remote s1) index) (\<lambda>h.
     if h \<noteq> NULL then Ok (NameServer_E_FAIL, ns_log (NG_hwi Hwi_restore) s1)
     else Ok (NameServer_S_SUCCESS,
       ns_log (NG_hwi Hwi_restore) (s1\<lparr>nv_remote := (nv_remote s1)[index := handle]\<rparr>))))"

definition NameServer_unregisterRemoteDriver :: "ns_config \<Rightarrow> u16 \<Rightarrow> ns_state \<Rightarrow> ns_state res" where
  "NameServer_unregisterRemoteDriver C procId s =
     res_bind (ns_driver C procId s) (\<lambda>index.
     let s1 = ns_log (NG_hwi Hwi_disable) s in
     res_bind (arr_set (nv_remote s1) index NULL) (\<lambda>hs.
     Ok (ns_log (NG_hwi Hwi_restore) (s1\<lparr>nv_remote := hs\<rparr>))))"

text \<open>An answer is kept unless it says that the name is unknown or that time ran out.\<close>

type_synonym ns_answer = "int \<times> u8 list option \<times> u32"

definition ns_final :: "ns_answer \<Rightarrow> bool" where
  "ns_final r \<longleftrightarrow> fst r \<ge> 0 \<or> (fst r \<noteq> NameServer_E_NOTFOUND \<and> fst r \<noteq> NameServer_E_TIMEOUT)"

definition ns_ask :: "ns_env \<Rightarrow> ptr \<Rightarrow> string option \<Rightarrow> string \<Rightarrow> ns_answer \<Rightarrow> ns_answer" where
  "ns_ask E h inst name r =
     (if h = NULL then r
      else let (status, bytes, len) = ne_remoteGet E h inst name (snd (snd r)) in
        (status, (case bytes of None \<Rightarrow> fst (snd r) | Some b \<Rightarrow> Some b), len))"

text \<open>All other processors in turn, from the \<open>i\<close>-th on.\<close>

fun ns_ask_all ::
  "ns_env \<Rightarrow> nat \<Rightarrow> nat \<Rightarrow> string option \<Rightarrow> string \<Rightarrow> ptr list \<Rightarrow> nat \<Rightarrow> ns_answer \<Rightarrow> ns_answer" where
  "ns_ask_all E self base inst name [] i r = r"
| "ns_ask_all E self base inst name (h # hs) i r =
     (if base + i = self then ns_ask_all E self base inst name hs (Suc i) r
      else
        let r1 = ns_ask E h inst name r in
        if ns_final r1 then r1 else ns_ask_all E self base inst name hs (Suc i) r1)"

text \<open>
  The processors of a list that ends with the invalid id, \<open>n\<close> of them at most: the \<open>i\<close>-th
  is read before the count is looked at.
\<close>

fun ns_ask_list ::
  "ns_env \<Rightarrow> ns_config \<Rightarrow> ptr \<Rightarrow> string \<Rightarrow> u16 res \<Rightarrow> u16 list \<Rightarrow> nat \<Rightarrow> nat \<Rightarrow> ns_answer \<Rightarrow> ns_state \<Rightarrow>
   (ns_answer \<times> ns_state) res" where
  "ns_ask_list E C obj name base procId n i r s =
     res_bind (arr_get procId i) (\<lambda>p.
     if p = MultiProc_INVALIDID then Ok (r, s)
     else case n of 0 \<Rightarrow> Ok (r, s)
       | Suc m \<Rightarrow>
           res_bind
             (if p = MultiProc_self (nc_procs C) then
                res_bind (NameServer_getLocal E C obj name (snd (snd r)) s) (\<lambda>((status, bytes, len), s1).
                Ok ((status, (case bytes of None \<Rightarrow> fst (snd r) | Some b \<Rightarrow> Some b), len), s1))
              else if \<not> nc_singleProcessor C then
                res_bind base (\<lambda>b.
                res_bind (arr_get (nv_remote s) (unat (p - b))) (\<lambda>h.
                Ok (ns_ask E h (no_name (nv_obj s obj)) name r, s)))
              else Ok (r, s))
             (\<lambda>(r1, s1). if ns_final r1 then Ok (r1, s1)
                else ns_ask_list E C obj name base procId m (Suc i) r1 s1))"

declare ns_ask_list.simps [simp del]

definition NameServer_get ::
  "ns_env \<Rightarrow> ns_config \<Rightarrow> ptr \<Rightarrow> string \<Rightarrow> u32 \<Rightarrow> u16 list option \<Rightarrow> ns_state \<Rightarrow> (ns_answer \<times> ns_state) res" where
  "NameServer_get E C obj name len procId s =
     (let mode = mpc_procAddrMode (nc_multiProc C);
          base = (case mode of ProcAddrMode_Global \<Rightarrow> Ok 0
            | ProcAddrMode_Cluster \<Rightarrow> Ok (MultiProc_getBaseIdOfCluster (nc_procs C))
            | ProcAddrMode_other \<Rightarrow> Err No_init) in
      Assert_isTrue (nc_asserts C) (mode \<noteq> ProcAddrMode_other) A_unnamed (
      case procId of
        None \<Rightarrow>
          res_bind (NameServer_getLocal E C obj name len s) (\<lambda>(r, s1).
          if fst r = NameServer_E_NOTFOUND \<and> \<not> nc_singleProcessor C then
            if nv_remote s1 = [] then Ok (r, s1)
            else
              res_bind base (\<lambda>b.
              Ok (ns_ask_all E (unat (MultiProc_self (nc_procs C))) (unat b) (no_name (nv_obj s1 obj)) name
                    (nv_remote s1) 0 r, s1))
          else Ok (r, s1))
      | Some ps \<Rightarrow>
          ns_ask_list E C obj name base ps (unat (MultiProc_getNumProcsInCluster (nc_multiProc C))) 0
            (NameServer_E_NOTFOUND, None, len) s))"

definition NameServer_getUInt32 ::
  "ns_env \<Rightarrow> ns_config \<Rightarrow> ptr \<Rightarrow> string \<Rightarrow> u16 list option \<Rightarrow> ns_state \<Rightarrow>
   ((int \<times> u8 list option) \<times> ns_state) res" where
  "NameServer_getUInt32 E C obj name procId s =
     res_bind (NameServer_get E C obj name sizeof_UInt32 procId s)
       (\<lambda>((status, bytes, _), s1). Ok ((status, bytes), s1))"


section \<open>Walking a list\<close>

lemma list_pos_mem: "list_ring h l (us @ e # vs) \<Longrightarrow> list_pos h e = e"
  using list_ring_member(3) [of h l us e vs] by (simp add: list_pos_def)

lemma list_pos_head [simp]: "list_pos h h = NULL"
  by (simp add: list_pos_def)

definition first_that :: "(ptr \<Rightarrow> bool) \<Rightarrow> ptr list \<Rightarrow> ptr" where
  "first_that P xs = (case find P xs of None \<Rightarrow> NULL | Some e \<Rightarrow> e)"

lemma ns_find_ring:
  assumes "list_ring h l (us @ vs)" and "length vs \<le> fuel"
  shows "ns_find P h l fuel (list_pos h (left_of h us)) = Ok (first_that P vs)"
  using assms
proof (induction vs arbitrary: us fuel)
  case Nil
  then show ?case using List_next_ring [OF Nil.prems(1)]
    by (subst ns_find.simps) (simp add: first_that_def)
next
  case (Cons v vs)
  note R = Cons.prems(1)
  have v: "list_pos h v = v" "v \<noteq> NULL"
    using list_pos_mem [OF R] list_ring_member(6) [OF R] by simp_all
  have step: "List_next h (list_pos h (left_of h us)) l = Ok v"
    using List_next_ring [OF R] v by simp
  obtain n where n: "fuel = Suc n" "length vs \<le> n"
    using Cons.prems(2) by (cases fuel) auto
  have "ns_find P h l n v = Ok (first_that P vs)"
    using Cons.IH [of "us @ [v]" n] R n v by simp
  then show ?case using step v n
    by (subst ns_find.simps) (simp add: first_that_def)
qed

corollary ns_find_all:
  assumes "list_ring h l xs" and "length xs \<le> fuel"
  shows "ns_find P h l fuel NULL = Ok (first_that P xs)"
  using ns_find_ring [of h l "[]" xs fuel P] assms by simp

lemma ns_skip_ring:
  assumes "list_ring h l (us @ vs @ ws)" and "length vs = n"
  shows "ns_skip h l n (list_pos h (left_of h us)) = Ok (list_pos h (left_of h (us @ vs)))"
  using assms
proof (induction vs arbitrary: us n)
  case (Cons v vs)
  have R: "list_ring h l (us @ v # vs @ ws)" using Cons.prems(1) by simp
  have "List_next h (list_pos h (left_of h us)) l = Ok v"
    using List_next_ring [OF R] list_pos_mem [OF R] by simp
  then show ?case
    using Cons.IH [of "us @ [v]" "length vs"] Cons.prems list_pos_mem [OF R] by auto
qed simp

lemma first_that_mem: "first_that P xs \<noteq> NULL \<Longrightarrow> first_that P xs \<in> set xs"
  by (induction xs) (auto simp: first_that_def split: if_splits)

lemma find_first: "P x \<Longrightarrow> \<forall>y \<in> set us. \<not> P y \<Longrightarrow> find P (us @ x # vs) = Some x"
  by (induction us) auto

lemma first_that_split:
  assumes "NULL \<notin> set xs"
  shows "first_that P xs = NULL \<longleftrightarrow> (\<forall>x \<in> set xs. \<not> P x)"
    and "first_that P xs \<noteq> NULL \<Longrightarrow>
      \<exists>us vs. xs = us @ first_that P xs # vs \<and> P (first_that P xs) \<and> (\<forall>x \<in> set us. \<not> P x)"
proof -
  show "first_that P xs = NULL \<longleftrightarrow> (\<forall>x \<in> set xs. \<not> P x)"
    using assms by (auto simp: first_that_def find_None_iff find_Some_iff split: option.split)
      (metis nth_mem)+
  assume "first_that P xs \<noteq> NULL"
  then obtain e where e: "find P xs = Some e" "first_that P xs = e"
    by (auto simp: first_that_def split: option.splits)
  then have "P e" "\<exists>x \<in> set xs. P x" by (auto simp: find_Some_iff)
  then obtain us x vs where x: "xs = us @ x # vs" "P x" "\<forall>y \<in> set us. \<not> P y"
    by (metis split_list_first_prop)
  moreover have "find P xs = Some x"
    unfolding x(1) using x(2,3) by (rule find_first)
  ultimately show "\<exists>us vs. xs = us @ first_that P xs # vs \<and> P (first_that P xs) \<and> (\<forall>x \<in> set us. \<not> P x)"
    using e by auto
qed


section \<open>The table an instance holds\<close>

abbreviation ns_words :: "ns_state \<Rightarrow> ptr \<Rightarrow> bool" where
  "ns_words s obj \<equiv> no_maxValueLen (nv_obj s obj) = sizeof_UInt32"

definition ns_name :: "ns_state \<Rightarrow> ptr \<Rightarrow> string" where
  "ns_name s e = nv_str s (te_name (nv_entry s e))"

definition ns_val :: "ns_state \<Rightarrow> ptr \<Rightarrow> ptr \<Rightarrow> u8 list" where
  "ns_val s obj e =
     (if ns_words s obj then u32_bytes (te_value (nv_entry s e))
      else take (unat (te_len (nv_entry s e))) (nv_buf s (te_value (nv_entry s e))))"

definition ns_view :: "ns_state \<Rightarrow> ptr \<Rightarrow> ptr list \<Rightarrow> (string \<times> u8 list) list" where
  "ns_view s obj xs = map (\<lambda>e. (ns_name s e, ns_val s obj e)) xs"

text \<open>
  The entries in use and the free ones are on their two lists, no two of them share a buffer,
  and no value is longer than the instance allows.
\<close>

definition ns_tab :: "ns_env \<Rightarrow> ptr \<Rightarrow> ns_state \<Rightarrow> ptr list \<Rightarrow> ptr list \<Rightarrow> bool" where
  "ns_tab E obj s xs ys \<longleftrightarrow>
     list_ring (ne_nameList E obj) (nv_list s) xs \<and> list_ring (ne_freeList E obj) (nv_list s) ys \<and>
     set (ne_nameList E obj # xs) \<inter> set (ne_freeList E obj # ys) = {} \<and>
     length xs + length ys \<le> ne_fuel E \<and>
     inj_on (\<lambda>e. te_name (nv_entry s e)) (set xs \<union> set ys) \<and>
     (\<not> ns_words s obj \<longrightarrow> inj_on (\<lambda>e. te_value (nv_entry s e)) (set xs \<union> set ys) \<and>
       (\<forall>e \<in> set xs. te_len (nv_entry s e) \<le> no_maxValueLen (nv_obj s obj)))"

lemma ns_log_views [simp]:
  "ns_name (ns_log c s) = ns_name s" "ns_val (ns_log c s) = ns_val s" "ns_view (ns_log c s) = ns_view s"
  "ns_tab E obj (ns_log c s) xs ys = ns_tab E obj s xs ys"
  by (simp_all add: ns_name_def ns_val_def ns_view_def ns_tab_def fun_eq_iff)

lemma ns_list_views [simp]:
  "ns_name (s\<lparr>nv_list := l\<rparr>) = ns_name s" "ns_val (s\<lparr>nv_list := l\<rparr>) = ns_val s"
  "ns_view (s\<lparr>nv_list := l\<rparr>) = ns_view s"
  by (simp_all add: ns_name_def ns_val_def ns_view_def fun_eq_iff)

lemma ns_tabD:
  assumes "ns_tab E obj s xs ys"
  shows "list_ring (ne_nameList E obj) (nv_list s) xs" and "list_ring (ne_freeList E obj) (nv_list s) ys"
    and "length xs \<le> ne_fuel E" and "NULL \<notin> set xs" and "NULL \<notin> set ys" and "distinct xs" and "distinct ys"
    and "set xs \<inter> set ys = {}" and "ne_nameList E obj \<noteq> ne_freeList E obj"
  using assms list_ring_parts(2) [of "ne_nameList E obj" "nv_list s" xs]
    list_ring_parts(2) [of "ne_freeList E obj" "nv_list s" ys]
  by (auto simp: ns_tab_def list_ring_def)

lemma ns_view_lookup:
  assumes "NULL \<notin> set xs"
  shows "first_that (\<lambda>e. ns_name s e = n) xs = NULL \<longleftrightarrow> n \<notin> fst ` set (ns_view s obj xs)"
    and "map_of (ns_view s obj xs) n =
      (if first_that (\<lambda>e. ns_name s e = n) xs = NULL then None
       else Some (ns_val s obj (first_that (\<lambda>e. ns_name s e = n) xs)))"
proof -
  show "first_that (\<lambda>e. ns_name s e = n) xs = NULL \<longleftrightarrow> n \<notin> fst ` set (ns_view s obj xs)"
    using first_that_split(1) [OF assms, of "\<lambda>e. ns_name s e = n"]
    by (auto simp: ns_view_def image_image)
  show "map_of (ns_view s obj xs) n =
      (if first_that (\<lambda>e. ns_name s e = n) xs = NULL then None
       else Some (ns_val s obj (first_that (\<lambda>e. ns_name s e = n) xs)))"
    using assms by (induction xs) (auto simp: ns_view_def first_that_def)
qed

lemma ns_find_name:
  assumes "ns_tab E obj s xs ys"
  shows "ns_find (\<lambda>e. nv_str s (te_name (nv_entry s e)) = n) (ne_nameList E obj) (nv_list s) (ne_fuel E) NULL =
    Ok (first_that (\<lambda>e. ns_name s e = n) xs)"
  using ns_find_all [OF ns_tabD(1,3) [OF assms]] by (simp add: ns_name_def)

lemma NameServer_findLocal_tab:
  assumes "ns_tab E obj s xs ys"
  shows "NameServer_findLocal E obj n s =
    Ok (first_that (\<lambda>e. ns_name s e = n) xs, ns_log NG_leave (ns_log NG_enter s))"
  using ns_find_name [OF assms, of n] by (simp add: NameServer_findLocal_def)

text \<open>Looking a name up: the value of its first entry.\<close>

lemma NameServer_getLocal_tab:
  assumes "ns_tab E obj s xs ys" and "no_maxValueLen (nv_obj s obj) \<le> len"
  shows "\<exists>st len' s'. NameServer_getLocal E C obj n len s = Ok ((st, map_of (ns_view s obj xs) n, len'), s') \<and>
    (st = NameServer_S_SUCCESS \<longleftrightarrow> n \<in> fst ` set (ns_view s obj xs)) \<and>
    (st \<noteq> NameServer_S_SUCCESS \<longrightarrow> st = NameServer_E_NOTFOUND) \<and>
    (\<exists>cs. s' = s\<lparr>nv_calls := cs @ nv_calls s\<rparr> \<and> set cs \<subseteq> {NG_enter, NG_leave, NE_raise NS_E_entryExists})"
proof -
  let ?e = "first_that (\<lambda>e. ns_name s e = n) xs"
  have f: "NameServer_findLocal E obj n (ns_log NG_enter s) =
      Ok (?e, ns_log NG_leave (ns_log NG_enter (ns_log NG_enter s)))"
    using NameServer_findLocal_tab [of E obj "ns_log NG_enter s" xs ys n] assms(1) by simp
  let ?s' = "ns_log NG_leave (ns_log NG_leave (ns_log NG_enter (ns_log NG_enter s)))"
  have s': "\<exists>cs. ?s' = s\<lparr>nv_calls := cs @ nv_calls s\<rparr> \<and> set cs \<subseteq> {NG_enter, NG_leave, NE_raise NS_E_entryExists}"
    by (rule exI [of _ "[NG_leave, NG_leave, NG_enter, NG_enter]"]) (simp add: ns_log_def)
  note L = ns_view_lookup [where s = s and obj = obj and n = n, OF ns_tabD(4) [OF assms(1)]]
  show ?thesis
  proof (cases "?e = NULL")
    case True
    then show ?thesis using f L s'
      by (auto simp: NameServer_getLocal_def NameServer_S_SUCCESS_def NameServer_E_NOTFOUND_def)
  next
    case False
    then have "?e \<in> set xs" by (rule first_that_mem)
    then have "ns_words s obj \<or> te_len (nv_entry s ?e) \<le> len"
      using assms by (auto simp: ns_tab_def intro: order_trans)
    then have "NameServer_getLocal E C obj n len s =
        Ok ((NameServer_S_SUCCESS, Some (ns_val s obj ?e), te_len (nv_entry s ?e)), ?s')"
      using f False by (auto simp: NameServer_getLocal_def ns_val_def Let_def)
    then show ?thesis using L s' False by simp
  qed
qed


section \<open>Adding an entry\<close>

text \<open>What the list, the instances and the calls of two states have in common.\<close>

definition ns_same :: "ns_state \<Rightarrow> ns_state \<Rightarrow> bool" where
  "ns_same s s' \<longleftrightarrow> nv_list s' = nv_list s \<and> nv_obj s' = nv_obj s \<and> nv_size s' = nv_size s \<and>
     nv_static s' = nv_static s \<and> nv_dynamic s' = nv_dynamic s \<and> nv_remote s' = nv_remote s \<and>
     nv_calls s' = nv_calls s"

text \<open>The values an instance takes.\<close>

definition ns_fit :: "u32 \<Rightarrow> u32 \<Rightarrow> string \<Rightarrow> u8 list \<Rightarrow> bool" where
  "ns_fit nameLen valueLen n v \<longleftrightarrow> length n < unat nameLen \<and>
     (if valueLen = sizeof_UInt32 then \<exists>x. v = u32_bytes x else length v \<le> unat valueLen)"

lemma ns_fit_len:
  assumes "ns_fit nameLen valueLen n v"
  shows "unat (of_nat (length v) :: u32) = length v" and "(of_nat (length v) :: u32) \<le> valueLen"
proof -
  have le: "length v \<le> unat valueLen"
    using assms by (auto simp: ns_fit_def u32_bytes_def split: if_splits)
  moreover have "unat valueLen < 2 ^ 32" using unat_below [of valueLen] by simp
  ultimately show "unat (of_nat (length v) :: u32) = length v"
    by (intro unat_of_nat_small) simp
  then show "(of_nat (length v) :: u32) \<le> valueLen" using le by (simp add: word_le_nat_alt)
qed

lemma NameServer_fill_effect:
  assumes f: "ns_fit (no_maxNameLen (nv_obj s obj)) (no_maxValueLen (nv_obj s obj)) n v"
    and name: "length n + 1 \<le> nv_size s (te_name (nv_entry s e))"
    and val: "\<not> ns_words s obj \<Longrightarrow> length v \<le> nv_size s (te_value (nv_entry s e))"
  shows "\<exists>t s'. NameServer_fill obj e n v (of_nat (length v)) s = Ok s' \<and> ns_same s s' \<and>
    nv_entry s' = (nv_entry s)(e := t) \<and> te_name t = te_name (nv_entry s e) \<and>
    nv_str s' = (nv_str s)(te_name t := n) \<and> ns_val s' obj e = v \<and>
    (if ns_words s obj then nv_buf s' = nv_buf s
     else te_value t = te_value (nv_entry s e) \<and> te_len t \<le> no_maxValueLen (nv_obj s obj) \<and>
       (\<exists>b. nv_buf s' = (nv_buf s)(te_value t := b)))"
proof (cases "ns_words s obj")
  case True
  then obtain x where "v = u32_bytes x" using f by (auto simp: ns_fit_def)
  then show ?thesis
    using True name
    by (intro exI [of _ "(nv_entry s e)\<lparr>te_value := x, te_len := sizeof_UInt32\<rparr>"])
      (simp add: NameServer_fill_def ns_strcpy_def ns_same_def ns_val_def)
next
  case False
  then show ?thesis
    using name val ns_fit_len [OF f]
    by (intro exI [of _ "(nv_entry s e)\<lparr>te_len := of_nat (length v)\<rparr>"])
      (auto simp: NameServer_fill_def ns_strcpy_def ns_memcpy_def ns_same_def ns_val_def)
qed

text \<open>An entry that is on neither list, with buffers of its own that are large enough.\<close>

definition ns_pending :: "ns_env \<Rightarrow> ptr \<Rightarrow> ns_state \<Rightarrow> ptr \<Rightarrow> ptr list \<Rightarrow> ptr list \<Rightarrow> bool" where
  "ns_pending E obj s e xs ys \<longleftrightarrow>
     ns_tab E obj s xs ys \<and> e \<noteq> NULL \<and> e \<notin> set (ne_nameList E obj # xs) \<union> set (ne_freeList E obj # ys) \<and>
     Suc (length xs + length ys) \<le> ne_fuel E \<and>
     inj_on (\<lambda>e. te_name (nv_entry s e)) (insert e (set xs \<union> set ys)) \<and>
     (\<not> ns_words s obj \<longrightarrow> inj_on (\<lambda>e. te_value (nv_entry s e)) (insert e (set xs \<union> set ys)))"

lemma ns_pending_put:
  assumes p: "ns_pending E obj s e xs ys"
    and f: "ns_fit (no_maxNameLen (nv_obj s obj)) (no_maxValueLen (nv_obj s obj)) n v"
    and name: "length n + 1 \<le> nv_size s (te_name (nv_entry s e))"
    and val: "\<not> ns_words s obj \<Longrightarrow> length v \<le> nv_size s (te_value (nv_entry s e))"
  shows "\<exists>s1 s2. NameServer_fill obj e n v (of_nat (length v)) s = Ok s1 \<and>
    ns_on_list (List_put (ne_nameList E obj) e) s1 = Ok ((), s2) \<and>
    ns_tab E obj s2 (xs @ [e]) ys \<and> ns_view s2 obj (xs @ [e]) = ns_view s obj xs @ [(n, v)] \<and>
    nv_obj s2 = nv_obj s \<and> nv_size s2 = nv_size s \<and> nv_calls s2 = nv_calls s \<and>
    (\<forall>d. te_name (nv_entry s2 d) = te_name (nv_entry s d)) \<and>
    (\<not> ns_words s obj \<longrightarrow> (\<forall>d. te_value (nv_entry s2 d) = te_value (nv_entry s d)))"
proof -
  let ?N = "ne_nameList E obj" and ?F = "ne_freeList E obj"
  have T: "ns_tab E obj s xs ys" and e: "e \<noteq> NULL" "e \<notin> set (?N # xs)" "e \<notin> set (?F # ys)"
    and i: "inj_on (\<lambda>e. te_name (nv_entry s e)) (insert e (set xs \<union> set ys))"
    and iv: "\<not> ns_words s obj \<Longrightarrow> inj_on (\<lambda>e. te_value (nv_entry s e)) (insert e (set xs \<union> set ys))"
    using p by (auto simp: ns_pending_def)
  obtain t s1 where s1: "NameServer_fill obj e n v (of_nat (length v)) s = Ok s1" "ns_same s s1"
      "nv_entry s1 = (nv_entry s)(e := t)" "te_name t = te_name (nv_entry s e)"
      "nv_str s1 = (nv_str s)(te_name t := n)" "ns_val s1 obj e = v"
      "if ns_words s obj then nv_buf s1 = nv_buf s
       else te_value t = te_value (nv_entry s e) \<and> te_len t \<le> no_maxValueLen (nv_obj s obj) \<and>
         (\<exists>b. nv_buf s1 = (nv_buf s)(te_value t := b))"
    using NameServer_fill_effect [OF f name val] by blast
  have o1: "nv_obj s1 = nv_obj s" and l1: "nv_list s1 = nv_list s"
    using s1(2) by (simp_all add: ns_same_def)
  obtain l where l: "List_put ?N e (nv_list s) = Ok ((), l)" "list_ring ?N l (xs @ [e])"
      "list_frame {?N, e, left_of ?N xs} (nv_list s) l"
    using List_put_last [OF ns_tabD(1) [OF T] e(2,1)] by blast
  have n1: "ns_name s1 e = n" using s1(3-5) by (simp add: ns_name_def)
  have dis: "set (?N # xs) \<inter> set (?F # ys) = {}" using T by (simp add: ns_tab_def)
  have "list_ring ?F l ys"
    by (rule list_ring_frame [OF l(3) ns_tabD(2) [OF T]])
      (use dis e(3) neighbour_mem(1) [of ?N xs] in auto)
  moreover have old: "ns_name s1 d = ns_name s d" "ns_val s1 obj d = ns_val s obj d" if "d \<in> set xs" for d
  proof -
    have de: "d \<noteq> e" using that e(2) by auto
    then have "te_name (nv_entry s d) \<noteq> te_name (nv_entry s e)" using inj_onD [OF i, of d e] that de by auto
    then show "ns_name s1 d = ns_name s d" using s1(3-5) de by (simp add: ns_name_def)
    show "ns_val s1 obj d = ns_val s obj d"
    proof (cases "ns_words s obj")
      case False
      then have "te_value (nv_entry s d) \<noteq> te_value (nv_entry s e)" using inj_onD [OF iv, of d e] that de by auto
      then show ?thesis using s1(3,7) de False o1 by (auto simp: ns_val_def)
    qed (use s1(3,7) de o1 in \<open>simp add: ns_val_def\<close>)
  qed
  moreover have same: "te_name (nv_entry s1 d) = te_name (nv_entry s d)"
    "\<not> ns_words s obj \<Longrightarrow> te_value (nv_entry s1 d) = te_value (nv_entry s d)" for d
    using s1(3,4,7) by (auto split: if_splits)
  moreover have "te_len (nv_entry s1 d) \<le> no_maxValueLen (nv_obj s obj)"
    if "\<not> ns_words s obj" "d \<in> set (xs @ [e])" for d
    using that T s1(3,7) by (auto simp: ns_tab_def split: if_splits)
  ultimately have "ns_tab E obj (s1\<lparr>nv_list := l\<rparr>) (xs @ [e]) ys"
    using p l(2) e(3) dis o1 i iv by (auto simp: ns_tab_def ns_pending_def)
  moreover have "ns_view (s1\<lparr>nv_list := l\<rparr>) obj (xs @ [e]) = ns_view s obj xs @ [(n, v)]"
    using old n1 s1(6) by (simp add: ns_view_def)
  ultimately show ?thesis
    using s1(1,2) l(1) l1 o1 same by (simp add: ns_on_list_def ns_same_def)
qed


section \<open>Tables of a fixed size\<close>

definition ns_slot :: "ns_state \<Rightarrow> ptr \<Rightarrow> ptr \<Rightarrow> bool" where
  "ns_slot s obj e \<longleftrightarrow>
     unat (no_maxNameLen (nv_obj s obj)) \<le> nv_size s (te_name (nv_entry s e)) \<and>
     (\<not> ns_words s obj \<longrightarrow> unat (no_maxValueLen (nv_obj s obj)) \<le> nv_size s (te_value (nv_entry s e)))"

definition ns_fixed :: "ns_env \<Rightarrow> ptr \<Rightarrow> ns_state \<Rightarrow> ptr list \<Rightarrow> ptr list \<Rightarrow> bool" where
  "ns_fixed E obj s xs ys \<longleftrightarrow>
     ns_tab E obj s xs ys \<and> no_numDynamic (nv_obj s obj) \<noteq> NameServer_ALLOWGROWTH \<and>
     unat (no_numStatic (nv_obj s obj)) \<le> length xs \<and>
     (\<forall>e \<in> set (drop (unat (no_numStatic (nv_obj s obj))) xs @ ys). ns_slot s obj e)"

lemma ns_slot_log [simp]: "ns_slot (ns_log c s) = ns_slot s"
  "ns_slot (s\<lparr>nv_list := l\<rparr>) = ns_slot s"
  "ns_fixed E obj (ns_log c s) xs ys = ns_fixed E obj s xs ys"
  by (simp_all add: ns_slot_def ns_fixed_def fun_eq_iff)

lemma ns_slot_fit:
  assumes "ns_slot s obj e"
    and "ns_fit (no_maxNameLen (nv_obj s obj)) (no_maxValueLen (nv_obj s obj)) n v"
  shows "length n + 1 \<le> nv_size s (te_name (nv_entry s e))"
    and "\<not> ns_words s obj \<Longrightarrow> length v \<le> nv_size s (te_value (nv_entry s e))"
  using assms by (auto simp: ns_slot_def ns_fit_def)

lemma NameServer_newEntry_free:
  assumes F: "ns_fixed E obj s xs (y # ys)"
  shows "\<exists>l. NameServer_newEntry E obj n s = Ok (y, s\<lparr>nv_list := l\<rparr>) \<and>
    ns_pending E obj (s\<lparr>nv_list := l\<rparr>) y xs ys"
proof -
  have T: "ns_tab E obj s xs (y # ys)" using F by (simp add: ns_fixed_def)
  let ?N = "ne_nameList E obj" and ?F = "ne_freeList E obj"
  obtain l where l: "List_get ?F (nv_list s) = Ok (y, l)" "list_ring ?F l ys"
      "list_frame {?F, right_of ?F ys} (nv_list s) l"
    using List_get_first [OF ns_tabD(2) [OF T]] by blast
  have dis: "set (?N # xs) \<inter> set (?F # y # ys) = {}" using T by (simp add: ns_tab_def)
  have "list_ring ?N l xs"
    by (rule list_ring_frame [OF l(3) ns_tabD(1) [OF T]])
      (use dis neighbour_mem(2) [of ?F ys] in auto)
  moreover have "y \<noteq> NULL" "y \<notin> set (?F # ys)"
    using ns_tabD(5,7) [OF T] list_ring_parts(2) [OF ns_tabD(2) [OF T]] by auto
  ultimately show ?thesis
    using T l dis by (auto simp: NameServer_newEntry_def ns_on_list_def ns_pending_def ns_tab_def)
qed

lemma NameServer_newEntry_full:
  assumes F: "ns_fixed E obj s xs []"
  shows "\<exists>s'. NameServer_newEntry E obj n s = Ok (NULL, s') \<and> ns_fixed E obj s' xs [] \<and>
    ns_view s' obj xs = ns_view s obj xs \<and> nv_obj s' = nv_obj s"
proof -
  have T: "ns_tab E obj s xs []" using F by (simp add: ns_fixed_def)
  let ?s = "s\<lparr>nv_list := hwi Hwi_restore (hwi Hwi_disable (nv_list s))\<rparr>"
  have "NameServer_newEntry E obj n s = Ok (NULL, ns_log (NE_raise NS_E_maxReached) ?s)"
    using List_get_empty [OF ns_tabD(2) [OF T]] F
    by (simp add: NameServer_newEntry_def ns_on_list_def ns_fixed_def)
  moreover have "ns_fixed E obj ?s xs []"
    using F by (simp add: ns_fixed_def ns_tab_def)
  ultimately show ?thesis by simp
qed

lemma NameServer_add_check_tab:
  assumes "ns_tab E obj s xs ys"
    and "ns_fit (no_maxNameLen (nv_obj s obj)) (no_maxValueLen (nv_obj s obj)) n v"
  shows "\<exists>cs. NameServer_add_check E C obj n (of_nat (length v)) s =
    Ok (\<not> (no_checkExisting (nv_obj s obj) \<and> n \<in> fst ` set (ns_view s obj xs)),
        s\<lparr>nv_calls := cs @ nv_calls s\<rparr>) \<and> set cs \<subseteq> {NG_enter, NG_leave, NE_raise NS_E_entryExists}"
proof -
  let ?e = "first_that (\<lambda>e. ns_name s e = n) xs"
  have f: "NameServer_findLocal E obj n (ns_log NG_enter s) =
      Ok (?e, ns_log NG_leave (ns_log NG_enter (ns_log NG_enter s)))"
    using NameServer_findLocal_tab [of E obj "ns_log NG_enter s" xs ys n] assms(1) by simp
  note L = ns_view_lookup(1) [where s = s and obj = obj and n = n, OF ns_tabD(4) [OF assms(1)]]
  have ok: "length n < unat (no_maxNameLen (nv_obj s obj))" using assms(2) by (simp add: ns_fit_def)
  let ?c = "\<lambda>cs. s\<lparr>nv_calls := cs @ nv_calls s\<rparr>"
  consider "\<not> no_checkExisting (nv_obj s obj)" | "no_checkExisting (nv_obj s obj)" "?e = NULL"
    | "no_checkExisting (nv_obj s obj)" "?e \<noteq> NULL" by blast
  then show ?thesis
  proof cases
    case 1
    then show ?thesis using ok ns_fit_len(2) [OF assms(2)]
      by (intro exI [of _ "[]"]) (simp add: NameServer_add_check_def)
  next
    case 2
    then show ?thesis using ok ns_fit_len(2) [OF assms(2)] f L
      by (intro exI [of _ "[NG_leave, NG_leave, NG_enter, NG_enter]"])
        (simp add: NameServer_add_check_def ns_log_def)
  next
    case 3
    then show ?thesis using ok ns_fit_len(2) [OF assms(2)] f L
      by (intro exI [of _ "[NE_raise NS_E_entryExists, NG_leave, NG_leave, NG_enter, NG_enter]"])
        (simp add: NameServer_add_check_def ns_log_def)
  qed
qed

lemma ns_calls_views [simp]:
  "ns_name (s\<lparr>nv_calls := cs\<rparr>) = ns_name s" "ns_val (s\<lparr>nv_calls := cs\<rparr>) = ns_val s"
  "ns_view (s\<lparr>nv_calls := cs\<rparr>) = ns_view s" "ns_slot (s\<lparr>nv_calls := cs\<rparr>) = ns_slot s"
  "ns_tab E obj (s\<lparr>nv_calls := cs\<rparr>) xs ys = ns_tab E obj s xs ys"
  "ns_fixed E obj (s\<lparr>nv_calls := cs\<rparr>) xs ys = ns_fixed E obj s xs ys"
  by (simp_all add: ns_name_def ns_val_def ns_view_def ns_slot_def ns_tab_def ns_fixed_def fun_eq_iff)

lemma NameServer_insert_fixed:
  assumes F: "ns_fixed E obj s xs (y # ys)"
    and f: "ns_fit (no_maxNameLen (nv_obj s obj)) (no_maxValueLen (nv_obj s obj)) n v"
  shows "\<exists>s'. NameServer_add_insert E obj n v (of_nat (length v)) s = Ok (y, s') \<and>
    ns_fixed E obj s' (xs @ [y]) ys \<and> ns_view s' obj (xs @ [y]) = ns_view s obj xs @ [(n, v)] \<and>
    nv_obj s' = nv_obj s \<and> nv_calls s' = nv_calls s"
proof -
  obtain l where l: "NameServer_newEntry E obj n s = Ok (y, s\<lparr>nv_list := l\<rparr>)"
      and p: "ns_pending E obj (s\<lparr>nv_list := l\<rparr>) y xs ys"
    using NameServer_newEntry_free [OF F] by blast
  have slot: "ns_slot s obj y" using F by (simp add: ns_fixed_def)
  obtain s1 s2 where s2: "NameServer_fill obj y n v (of_nat (length v)) (s\<lparr>nv_list := l\<rparr>) = Ok s1"
      "ns_on_list (List_put (ne_nameList E obj) y) s1 = Ok ((), s2)"
      "ns_tab E obj s2 (xs @ [y]) ys" "ns_view s2 obj (xs @ [y]) = ns_view s obj xs @ [(n, v)]"
      "nv_obj s2 = nv_obj s" "nv_size s2 = nv_size s" "nv_calls s2 = nv_calls s"
      "\<forall>d. te_name (nv_entry s2 d) = te_name (nv_entry s d)"
      "\<not> ns_words s obj \<longrightarrow> (\<forall>d. te_value (nv_entry s2 d) = te_value (nv_entry s d))"
    using ns_pending_put [OF p, of n v] f ns_slot_fit [OF slot f] by auto
  have "ns_slot s2 obj d = ns_slot s obj d" for d using s2(5,6,8,9) by (auto simp: ns_slot_def)
  then have "ns_fixed E obj s2 (xs @ [y]) ys" using F s2(3,5) by (auto simp: ns_fixed_def)
  then show ?thesis
    using l s2 ns_tabD(5) [of E obj s xs "y # ys"] F by (auto simp: NameServer_add_insert_def ns_fixed_def)
qed

lemma NameServer_add_fixed:
  assumes F: "ns_fixed E obj s xs ys"
    and f: "ns_fit (no_maxNameLen (nv_obj s obj)) (no_maxValueLen (nv_obj s obj)) n v"
  defines "refused \<equiv> (no_checkExisting (nv_obj s obj) \<and> n \<in> fst ` set (ns_view s obj xs)) \<or> ys = []"
  shows "\<exists>e xs' ys' s'. NameServer_add E C obj n v (of_nat (length v)) s = Ok (e, s') \<and>
    ns_fixed E obj s' xs' ys' \<and> nv_obj s' = nv_obj s \<and> length xs' + length ys' = length xs + length ys \<and>
    (e \<noteq> NULL \<longleftrightarrow> \<not> refused) \<and>
    ns_view s' obj xs' = ns_view s obj xs @ (if refused then [] else [(n, v)])"
proof -
  have T: "ns_tab E obj s xs ys" using F by (simp add: ns_fixed_def)
  let ?dup = "no_checkExisting (nv_obj s obj) \<and> n \<in> fst ` set (ns_view s obj xs)"
  obtain cs where c: "NameServer_add_check E C obj n (of_nat (length v)) s =
      Ok (\<not> ?dup, s\<lparr>nv_calls := cs @ nv_calls s\<rparr>)"
    using NameServer_add_check_tab [OF T f] by blast
  let ?s = "s\<lparr>nv_calls := cs @ nv_calls s\<rparr>"
  consider "?dup" | "\<not> ?dup" "ys = []" | y ys' where "\<not> ?dup" "ys = y # ys'" by (cases ys) auto
  then show ?thesis
  proof cases
    case 1
    then show ?thesis using F c by (intro exI [of _ NULL] exI [of _ xs] exI [of _ ys] exI [of _ ?s])
      (simp add: NameServer_add_def refused_def)
  next
    case 2
    then obtain s' where "NameServer_newEntry E obj n ?s = Ok (NULL, s')" "ns_fixed E obj s' xs []"
        "ns_view s' obj xs = ns_view s obj xs" "nv_obj s' = nv_obj s"
      using NameServer_newEntry_full [of E obj ?s xs n] F by auto
    then show ?thesis using 2 c by (intro exI [of _ NULL] exI [of _ xs] exI [of _ ys] exI [of _ s'])
      (simp add: NameServer_add_def NameServer_add_insert_def refused_def)
  next
    case 3
    then obtain s' where s': "NameServer_add_insert E obj n v (of_nat (length v)) ?s = Ok (y, s')"
        "ns_fixed E obj s' (xs @ [y]) ys'" "ns_view s' obj (xs @ [y]) = ns_view s obj xs @ [(n, v)]"
        "nv_obj s' = nv_obj s"
      using NameServer_insert_fixed [of E obj ?s xs y ys' n v] F f by auto
    have "y \<noteq> NULL" using ns_tabD(5) [OF T] 3 by auto
    then show ?thesis using 3 c s'
      by (intro exI [of _ y] exI [of _ "xs @ [y]"] exI [of _ ys'] exI [of _ s'])
        (simp add: NameServer_add_def refused_def del: ns_calls_views)
  qed
qed


section \<open>Removing an entry\<close>

text \<open>The search of \<open>NameServer_remove\<close>: past the static entries.\<close>

lemma ns_remove_search:
  assumes "ns_tab E obj s xs ys" and "k \<le> length xs"
  shows "\<exists>cur. ns_skip (ne_nameList E obj) (nv_list s) k NULL = Ok cur \<and>
    ns_find (\<lambda>e. nv_str s (te_name (nv_entry s e)) = n) (ne_nameList E obj) (nv_list s) (ne_fuel E) cur =
      Ok (first_that (\<lambda>e. ns_name s e = n) (drop k xs))"
proof -
  let ?N = "ne_nameList E obj"
  have R: "list_ring ?N (nv_list s) (take k xs @ drop k xs)" using ns_tabD(1) [OF assms(1)] by simp
  have "ns_skip ?N (nv_list s) k NULL = Ok (list_pos ?N (left_of ?N (take k xs)))"
    using ns_skip_ring [of ?N "nv_list s" "[]" "take k xs" "drop k xs" k] R assms(2) by simp
  moreover have "length (drop k xs) \<le> ne_fuel E" using ns_tabD(3) [OF assms(1)] by simp
  from ns_find_ring [OF R this, of "\<lambda>e. ns_name s e = n"]
  have "ns_find (\<lambda>e. nv_str s (te_name (nv_entry s e)) = n) ?N (nv_list s) (ne_fuel E)
      (list_pos ?N (left_of ?N (take k xs))) = Ok (first_that (\<lambda>e. ns_name s e = n) (drop k xs))"
    by (simp add: ns_name_def)
  ultimately show ?thesis by blast
qed

lemma ns_view_split:
  assumes "drop k xs = us @ e # vs" and "ns_name s e = n" and "\<forall>x \<in> set us. ns_name s x \<noteq> n" and "k \<le> length xs"
  shows "ns_view s obj (take k xs @ us @ vs) =
      take k (ns_view s obj xs) @ del_name n (drop k (ns_view s obj xs))"
proof -
  have "drop k (ns_view s obj xs) = ns_view s obj (us @ e # vs)"
    by (simp add: ns_view_def drop_map assms(1))
  moreover have "del_name n (ns_view s obj (us @ e # vs)) = ns_view s obj (us @ vs)"
  proof -
    have "n \<notin> fst ` set (ns_view s obj us)" using assms(3) by (auto simp: ns_view_def image_image)
    from del_name_found [OF _ this, of "(ns_name s e, ns_val s obj e)" "ns_view s obj vs"]
    show ?thesis using assms(2) by (simp add: ns_view_def)
  qed
  ultimately show ?thesis by (simp add: ns_view_def take_map)
qed

lemma ns_log_list: "(ns_log c s)\<lparr>nv_list := l\<rparr> = ns_log c (s\<lparr>nv_list := l\<rparr>)"
  by (cases s) (simp add: ns_log_def)

lemma NameServer_removeLocal_fixed:
  assumes F: "ns_fixed E obj s (us @ e # vs) ys" and k: "unat (no_numStatic (nv_obj s obj)) \<le> length us"
  shows "\<exists>s'. NameServer_removeLocal E obj e s = Ok s' \<and> ns_fixed E obj s' (us @ vs) (ys @ [e]) \<and>
    ns_view s' obj (us @ vs) = ns_view s obj (us @ vs) \<and> nv_obj s' = nv_obj s"
proof -
  let ?N = "ne_nameList E obj" and ?F = "ne_freeList E obj"
  have T: "ns_tab E obj s (us @ e # vs) ys" and D: "no_numDynamic (nv_obj s obj) \<noteq> NameServer_ALLOWGROWTH"
    using F by (simp_all add: ns_fixed_def)
  have dis: "set (?N # us @ e # vs) \<inter> set (?F # ys) = {}" using T by (simp add: ns_tab_def)
  obtain l where l: "List_remove e (nv_list s) = Ok l" "list_ring ?N l (us @ vs)"
      "list_frame {left_of ?N us, right_of ?N vs} (nv_list s) l"
    using List_remove_member [OF ns_tabD(1) [OF T]] by blast
  have "list_ring ?F l ys"
    by (rule list_ring_frame [OF l(3) ns_tabD(2) [OF T]])
      (use dis neighbour_mem(1) [of ?N us] neighbour_mem(2) [of ?N vs] in auto)
  moreover have e: "e \<notin> set (?F # ys)" "e \<noteq> NULL" "e \<notin> set (?N # us @ vs)"
    using dis ns_tabD(4,6) [OF T] list_ring_parts(2) [OF ns_tabD(1) [OF T]] by auto
  ultimately obtain m where m: "List_put ?F e l = Ok ((), m)" "list_ring ?F m (ys @ [e])"
      "list_frame {?F, e, left_of ?F ys} l m"
    using List_put_last by blast
  have "list_ring ?N m (us @ vs)"
    by (rule list_ring_frame [OF m(3) l(2)]) (use dis e neighbour_mem(1) [of ?F ys] in auto)
  moreover have "unat (no_numStatic (nv_obj s obj)) \<le> length (us @ vs)" using k by simp
  moreover have "set (us @ vs) \<union> set (ys @ [e]) = set (us @ e # vs) \<union> set ys" by auto
  ultimately have "ns_fixed E obj (s\<lparr>nv_list := m\<rparr>) (us @ vs) (ys @ [e])"
    using F T m(2) dis e k by (auto simp: ns_fixed_def ns_tab_def)
  then have "ns_fixed E obj (ns_log NG_leave (ns_log NG_enter s)\<lparr>nv_list := m\<rparr>) (us @ vs) (ys @ [e])"
    by (simp add: ns_log_list)
  moreover have "NameServer_removeLocal E obj e s = Ok (ns_log NG_leave (ns_log NG_enter s)\<lparr>nv_list := m\<rparr>)"
    using l(1) m(1) D by (simp add: NameServer_removeLocal_def ns_on_list_def ns_log_def)
  ultimately show ?thesis by simp
qed

lemma NameServer_remove_fixed:
  assumes F: "ns_fixed E obj s xs ys"
  defines "k \<equiv> unat (no_numStatic (nv_obj s obj))"
  defines "t \<equiv> ns_view s obj xs"
  shows "\<exists>st xs' ys' s'. NameServer_remove E obj n s = Ok (st, s') \<and> ns_fixed E obj s' xs' ys' \<and>
    nv_obj s' = nv_obj s \<and> length xs' + length ys' = length xs + length ys \<and>
    (if n \<in> fst ` set (drop k t)
     then st = NameServer_S_SUCCESS \<and> ns_view s' obj xs' = take k t @ del_name n (drop k t)
     else st = NameServer_E_INVALIDARG \<and> xs' = xs \<and> ns_view s' obj xs' = t)"
proof -
  have T: "ns_tab E obj s xs ys" and k: "k \<le> length xs" using F by (simp_all add: ns_fixed_def k_def)
  obtain cur where cur: "ns_skip (ne_nameList E obj) (nv_list s) k NULL = Ok cur"
      "ns_find (\<lambda>e. nv_str s (te_name (nv_entry s e)) = n) (ne_nameList E obj) (nv_list s) (ne_fuel E) cur =
        Ok (first_that (\<lambda>e. ns_name s e = n) (drop k xs))"
    using ns_remove_search [OF T k, of n] by blast
  let ?e = "first_that (\<lambda>e. ns_name s e = n) (drop k xs)"
  have nul: "NULL \<notin> set (drop k xs)" using ns_tabD(4) [OF T] by (auto dest: in_set_dropD)
  have mem: "?e = NULL \<longleftrightarrow> n \<notin> fst ` set (drop k t)"
    using ns_view_lookup(1) [OF nul, of s n obj] by (simp add: t_def ns_view_def drop_map)
  show ?thesis
  proof (cases "?e = NULL")
    case True
    then have "NameServer_remove E obj n s = Ok (NameServer_E_INVALIDARG, ns_log NG_leave (ns_log NG_enter s))"
      using cur by (simp add: NameServer_remove_def k_def)
    then show ?thesis using True mem F
      by (intro exI [of _ xs] exI [of _ ys] exI) (auto simp: t_def)
  next
    case False
    then obtain us vs where sp: "drop k xs = us @ ?e # vs" "ns_name s ?e = n" "\<forall>x \<in> set us. ns_name s x \<noteq> n"
      using first_that_split(2) [OF nul, of "\<lambda>e. ns_name s e = n"] by blast
    then have xs: "xs = (take k xs @ us) @ ?e # vs" by (metis append_assoc append_take_drop_id)
    then have "ns_fixed E obj (ns_log NG_enter s) ((take k xs @ us) @ ?e # vs) ys" using F by simp
    moreover have "unat (no_numStatic (nv_obj (ns_log NG_enter s) obj)) \<le> length (take k xs @ us)"
      using k by (simp add: k_def)
    ultimately obtain s' where s': "NameServer_removeLocal E obj ?e (ns_log NG_enter s) = Ok s'"
        "ns_fixed E obj s' ((take k xs @ us) @ vs) (ys @ [?e])"
        "ns_view s' obj ((take k xs @ us) @ vs) = ns_view s obj ((take k xs @ us) @ vs)" "nv_obj s' = nv_obj s"
      using NameServer_removeLocal_fixed by fastforce
    have "NameServer_remove E obj n s = Ok (NameServer_S_SUCCESS, ns_log NG_leave s')"
      using cur False s'(1) by (simp add: NameServer_remove_def k_def)
    moreover have "length (take k xs @ us @ vs) + length (ys @ [?e]) = length xs + length ys"
      using arg_cong [OF xs, of length] by simp
    ultimately show ?thesis
      using s' mem False ns_view_split [OF sp k, of obj]
      by (intro exI [of _ NameServer_S_SUCCESS] exI [of _ "take k xs @ us @ vs"] exI [of _ "ys @ [?e]"]
          exI [of _ "ns_log NG_leave s'"]) (simp add: t_def)
  qed
qed


section \<open>The contract of a name table\<close>

text \<open>The operations as a client sees them.\<close>

definition ns_op_add ::
  "ns_env \<Rightarrow> ns_config \<Rightarrow> ptr \<Rightarrow> string \<Rightarrow> u8 list \<Rightarrow> ns_state \<Rightarrow> (bool \<times> ns_state) res" where
  "ns_op_add E C obj n v s =
     res_bind (NameServer_add E C obj n v (of_nat (length v)) s) (\<lambda>(e, s1). Ok (e \<noteq> NULL, s1))"

definition ns_op_get ::
  "ns_env \<Rightarrow> ns_config \<Rightarrow> ptr \<Rightarrow> u32 \<Rightarrow> string \<Rightarrow> ns_state \<Rightarrow> (u8 list option \<times> ns_state) res" where
  "ns_op_get E C obj len n s =
     res_bind (NameServer_getLocal E C obj n len s)
       (\<lambda>((status, bytes, _), s1). Ok (if status = NameServer_S_SUCCESS then bytes else None, s1))"

definition ns_op_remove :: "ns_env \<Rightarrow> ptr \<Rightarrow> string \<Rightarrow> ns_state \<Rightarrow> (bool \<times> ns_state) res" where
  "ns_op_remove E obj n s =
     res_bind (NameServer_remove E obj n s) (\<lambda>(status, s1). Ok (status = NameServer_S_SUCCESS, s1))"

text \<open>
  An instance with the parameters \<open>nameLen\<close>, \<open>valueLen\<close>, \<open>chk\<close> and \<open>k\<close> static
  entries, \<open>c\<close> in all, holds the table \<open>t\<close>.
\<close>

definition ns_holds ::
  "ns_env \<Rightarrow> ptr \<Rightarrow> u32 \<Rightarrow> u32 \<Rightarrow> bool \<Rightarrow> nat \<Rightarrow> nat \<Rightarrow> ns_state \<Rightarrow> (string \<times> u8 list) list \<Rightarrow> bool" where
  "ns_holds E obj nameLen valueLen chk k c s t \<longleftrightarrow>
     (\<exists>xs ys. ns_fixed E obj s xs ys \<and> t = ns_view s obj xs \<and> length xs + length ys = c) \<and>
     no_maxNameLen (nv_obj s obj) = nameLen \<and> no_maxValueLen (nv_obj s obj) = valueLen \<and>
     no_checkExisting (nv_obj s obj) = chk \<and> unat (no_numStatic (nv_obj s obj)) = k"

lemma ns_holds_full:
  "length xs + length ys = c \<Longrightarrow> name_full (Some c) (ns_view s obj xs) \<longleftrightarrow> ys = []"
  by (auto simp: name_full_def ns_view_def)

lemma ns_op_add_holds:
  assumes H: "ns_holds E obj nameLen valueLen chk k c s t" and f: "ns_fit nameLen valueLen n v"
  defines "refused \<equiv> (chk \<and> n \<in> fst ` set t) \<or> name_full (Some c) t"
  shows "\<exists>s'. ns_op_add E C obj n v s = Ok (\<not> refused, s') \<and>
    ns_holds E obj nameLen valueLen chk k c s' (t @ (if refused then [] else [(n, v)]))"
proof -
  obtain xs ys where X: "ns_fixed E obj s xs ys" "t = ns_view s obj xs" "length xs + length ys = c"
    using H by (auto simp: ns_holds_def)
  have r: "refused \<longleftrightarrow> (chk \<and> n \<in> fst ` set t) \<or> ys = []"
    using ns_holds_full [OF X(3)] X(2) by (simp add: refused_def)
  have f': "ns_fit (no_maxNameLen (nv_obj s obj)) (no_maxValueLen (nv_obj s obj)) n v"
    using H f by (simp add: ns_holds_def)
  have "no_checkExisting (nv_obj s obj) = chk" using H by (simp add: ns_holds_def)
  then obtain e xs' ys' s' where s': "NameServer_add E C obj n v (of_nat (length v)) s = Ok (e, s')"
      "ns_fixed E obj s' xs' ys'" "nv_obj s' = nv_obj s" "length xs' + length ys' = c"
      "e \<noteq> NULL \<longleftrightarrow> \<not> refused" "ns_view s' obj xs' = t @ (if refused then [] else [(n, v)])"
    using NameServer_add_fixed [OF X(1) f', of C] X(2,3) by (simp add: r) blast
  then have "ns_op_add E C obj n v s = Ok (\<not> refused, s')" by (simp add: ns_op_add_def)
  moreover have "ns_holds E obj nameLen valueLen chk k c s' (t @ (if refused then [] else [(n, v)]))"
    using s' H unfolding ns_holds_def by metis
  ultimately show ?thesis by blast
qed

lemma ns_op_get_holds:
  assumes H: "ns_holds E obj nameLen valueLen chk k c s t"
  shows "\<exists>s'. ns_op_get E C obj valueLen n s = Ok (map_of t n, s') \<and>
    ns_holds E obj nameLen valueLen chk k c s' t"
proof -
  obtain xs ys where X: "ns_fixed E obj s xs ys" "t = ns_view s obj xs" "length xs + length ys = c"
    using H by (auto simp: ns_holds_def)
  have "ns_tab E obj s xs ys" "no_maxValueLen (nv_obj s obj) \<le> valueLen"
    using X(1) H by (simp_all add: ns_fixed_def ns_holds_def)
  from NameServer_getLocal_tab [OF this, of C n] obtain st len' s' cs where
    g: "NameServer_getLocal E C obj n valueLen s = Ok ((st, map_of t n, len'), s')"
      "st = NameServer_S_SUCCESS \<longleftrightarrow> n \<in> fst ` set t" "s' = s\<lparr>nv_calls := cs @ nv_calls s\<rparr>"
    using X(2) by blast
  have "(if st = NameServer_S_SUCCESS then map_of t n else None) = map_of t n"
    using g(2) map_of_eq_None_iff [of t n] by auto
  then have "ns_op_get E C obj valueLen n s = Ok (map_of t n, s')" using g(1) by (simp add: ns_op_get_def)
  moreover have "ns_holds E obj nameLen valueLen chk k c s' t"
    using H by (simp add: g(3) ns_holds_def)
  ultimately show ?thesis by blast
qed

lemma ns_op_remove_holds:
  assumes H: "ns_holds E obj nameLen valueLen chk k c s t"
  shows "\<exists>s'. ns_op_remove E obj n s = Ok (n \<in> fst ` set (drop k t), s') \<and>
    ns_holds E obj nameLen valueLen chk k c s'
      (if n \<in> fst ` set (drop k t) then take k t @ del_name n (drop k t) else t)"
proof -
  obtain xs ys where X: "ns_fixed E obj s xs ys" "t = ns_view s obj xs" "length xs + length ys = c"
    using H by (auto simp: ns_holds_def)
  have k: "unat (no_numStatic (nv_obj s obj)) = k" using H by (simp add: ns_holds_def)
  obtain st xs' ys' s' where s': "NameServer_remove E obj n s = Ok (st, s')" "ns_fixed E obj s' xs' ys'"
      "nv_obj s' = nv_obj s" "length xs' + length ys' = c"
      "if n \<in> fst ` set (drop k t)
       then st = NameServer_S_SUCCESS \<and> ns_view s' obj xs' = take k t @ del_name n (drop k t)
       else st = NameServer_E_INVALIDARG \<and> xs' = xs \<and> ns_view s' obj xs' = t"
    using NameServer_remove_fixed [OF X(1), of n] X(2,3) k by metis
  have "ns_op_remove E obj n s = Ok (n \<in> fst ` set (drop k t), s')"
    using s'(1,5) by (simp add: ns_op_remove_def NameServer_S_SUCCESS_def NameServer_E_INVALIDARG_def split: if_splits)
  moreover have "ns_view s' obj xs' = (if n \<in> fst ` set (drop k t) then take k t @ del_name n (drop k t) else t)"
    using s'(5) by (auto split: if_splits)
  ultimately show ?thesis using s'(2-4) H unfolding ns_holds_def by metis
qed

interpretation ns: name_table "ns_holds E obj nameLen valueLen chk k c" "ns_fit nameLen valueLen"
  "Some c" chk k "ns_op_add E C obj" "ns_op_get E C obj valueLen" "ns_op_remove E obj"
proof
  fix s t n v
  assume H: "ns_holds E obj nameLen valueLen chk k c s t"
  show "\<exists>s'. ns_op_add E C obj n v s = Ok (False, s') \<and> ns_holds E obj nameLen valueLen chk k c s' t"
    if "ns_fit nameLen valueLen n v" "chk \<and> n \<in> fst ` set t \<or> name_full (Some c) t"
    using ns_op_add_holds [OF H that(1), of C] that(2) by simp
  show "\<exists>s'. ns_op_add E C obj n v s = Ok (True, s') \<and> ns_holds E obj nameLen valueLen chk k c s' (t @ [(n, v)])"
    if "ns_fit nameLen valueLen n v" "\<not> (chk \<and> n \<in> fst ` set t)" "\<not> name_full (Some c) t"
    using ns_op_add_holds [OF H that(1), of C] that(2,3) by simp
  show "\<exists>s'. ns_op_get E C obj valueLen n s = Ok (map_of t n, s') \<and> ns_holds E obj nameLen valueLen chk k c s' t"
    by (rule ns_op_get_holds [OF H])
  show "\<exists>s'. ns_op_remove E obj n s = Ok (False, s') \<and> ns_holds E obj nameLen valueLen chk k c s' t"
    if "n \<notin> fst ` set (drop k t)"
    using ns_op_remove_holds [OF H, of n] that by simp
  show "\<exists>s'. ns_op_remove E obj n s = Ok (True, s') \<and>
      ns_holds E obj nameLen valueLen chk k c s' (take k t @ del_name n (drop k t))"
    if "n \<in> fst ` set (drop k t)"
    using ns_op_remove_holds [OF H, of n] that by simp
qed


section \<open>The longest match\<close>

text \<open>A name matches when it starts the string asked for; the empty name counts for nothing.\<close>

definition ns_starts :: "string \<Rightarrow> string \<Rightarrow> bool" where
  "ns_starts p n \<longleftrightarrow> take (length p) n = p"

text \<open>The first of the longest among the names of a list.\<close>

definition longest_match :: "(ptr \<Rightarrow> string) \<Rightarrow> string \<Rightarrow> ptr list \<Rightarrow> nat \<Rightarrow> ptr option \<Rightarrow> bool" where
  "longest_match str n xs m r \<longleftrightarrow>
     (case r of
        None \<Rightarrow> m = 0 \<and> (\<forall>d \<in> set xs. ns_starts (str d) n \<longrightarrow> str d = [])
      | Some e \<Rightarrow> 0 < m \<and> (\<exists>us vs. xs = us @ e # vs \<and> ns_starts (str e) n \<and> length (str e) = m \<and>
          (\<forall>d \<in> set us. ns_starts (str d) n \<longrightarrow> length (str d) < m) \<and>
          (\<forall>d \<in> set vs. ns_starts (str d) n \<longrightarrow> length (str d) \<le> m)))"

lemma longest_match_SomeI:
  assumes "xs = us @ e # vs" and "ns_starts (str e) n" and "length (str e) = m" and "0 < m"
    and "\<forall>d \<in> set us. ns_starts (str d) n \<longrightarrow> length (str d) < m"
    and "\<forall>d \<in> set vs. ns_starts (str d) n \<longrightarrow> length (str d) \<le> m"
  shows "longest_match str n xs m (Some e)"
  using assms unfolding longest_match_def option.case by blast

lemma longest_match_bound:
  assumes "longest_match str n xs m r" and "d \<in> set xs" and "ns_starts (str d) n"
  shows "length (str d) \<le> m"
proof (cases r)
  case None
  then show ?thesis using assms by (simp add: longest_match_def)
next
  case (Some e)
  then obtain us vs where "xs = us @ e # vs" "length (str e) = m"
      "\<forall>d \<in> set us. ns_starts (str d) n \<longrightarrow> length (str d) < m"
      "\<forall>d \<in> set vs. ns_starts (str d) n \<longrightarrow> length (str d) \<le> m"
    using assms(1) by (auto simp: longest_match_def)
  then show ?thesis using assms(2,3) less_imp_le by auto
qed

lemma longest_match_longer:
  assumes "longest_match str n xs m r" and "m < length (str e)" and "ns_starts (str e) n"
  shows "longest_match str n (xs @ [e]) (length (str e)) (Some e)"
proof (rule longest_match_SomeI [of _ xs e "[]"])
  show "\<forall>d \<in> set xs. ns_starts (str d) n \<longrightarrow> length (str d) < length (str e)"
    using longest_match_bound [OF assms(1)] assms(2) by (meson le_less_trans)
qed (use assms(2,3) in auto)

lemma longest_match_other:
  assumes "longest_match str n xs m r" and "\<not> (m < length (str e) \<and> ns_starts (str e) n)"
  shows "longest_match str n (xs @ [e]) m r"
proof (cases r)
  case None
  then show ?thesis using assms by (auto simp: longest_match_def)
next
  case (Some d)
  then obtain us vs where d: "xs = us @ d # vs" "ns_starts (str d) n" "length (str d) = m" "0 < m"
      "\<forall>d \<in> set us. ns_starts (str d) n \<longrightarrow> length (str d) < m"
      "\<forall>d \<in> set vs. ns_starts (str d) n \<longrightarrow> length (str d) \<le> m"
    using assms(1) by (auto simp: longest_match_def)
  show ?thesis unfolding Some
    by (rule longest_match_SomeI [of _ us d "vs @ [e]"]) (use d assms(2) in auto)
qed

lemma NameServer_match_loop_ring:
  assumes "list_ring h l (us @ vs)" and "length vs \<le> fuel" and "longest_match str n us m r"
    and "found = map_option val r"
  shows "\<exists>m' r'. NameServer_match_loop str val h l n fuel (list_pos h (left_of h us)) m found =
    Ok (m', map_option val r') \<and> longest_match str n (us @ vs) m' r'"
  using assms
proof (induction vs arbitrary: us fuel m r found)
  case Nil
  then show ?case using List_next_ring [OF Nil.prems(1)]
    by (subst NameServer_match_loop.simps) auto
next
  case (Cons v vs)
  note R = Cons.prems(1)
  have v: "list_pos h v = v" "v \<noteq> NULL"
    using list_pos_mem [OF R] list_ring_member(6) [OF R] by simp_all
  have step: "List_next h (list_pos h (left_of h us)) l = Ok v"
    using List_next_ring [OF R] v by simp
  obtain f where f: "fuel = Suc f" "length vs \<le> f"
    using Cons.prems(2) by (cases fuel) auto
  have R': "list_ring h l ((us @ [v]) @ vs)" using R by simp
  let ?better = "m < length (str v) \<and> take (length (str v)) n = str v"
  show ?case
  proof (cases ?better)
    case True
    then have "longest_match str n (us @ [v]) (length (str v)) (Some v)"
      using longest_match_longer [OF Cons.prems(3)] by (simp add: ns_starts_def)
    from Cons.IH [OF R' f(2) this, of "Some (val v)"] show ?thesis
      using step v f True by (subst NameServer_match_loop.simps) simp
  next
    case False
    then have "longest_match str n (us @ [v]) m r"
      using longest_match_other [OF Cons.prems(3)] by (simp add: ns_starts_def)
    from Cons.IH [OF R' f(2) this, of found] show ?thesis
      using step v f Cons.prems(4) by (subst NameServer_match_loop.simps) (simp add: Let_def if_not_P [OF False])
  qed
qed

lemma NameServer_match_longest:
  assumes "ns_tab E obj s xs ys" and "ns_words s obj"
  shows "\<exists>m r. NameServer_match E C obj n s =
      Ok ((m, map_option (\<lambda>e. te_value (nv_entry s e)) r), ns_log NG_leave (ns_log NG_enter s)) \<and>
    longest_match (ns_name s) n xs m r"
proof -
  have "longest_match (ns_name s) n [] 0 None" by (simp add: longest_match_def)
  from NameServer_match_loop_ring [of "ne_nameList E obj" "nv_list s" "[]" xs "ne_fuel E", OF _ _ this]
    ns_tabD(1,3) [OF assms(1)]
  obtain m r where "NameServer_match_loop (ns_name s) (\<lambda>e. te_value (nv_entry s e)) (ne_nameList E obj)
      (nv_list s) n (ne_fuel E) NULL 0 None = Ok (m, map_option (\<lambda>e. te_value (nv_entry s e)) r)"
      "longest_match (ns_name s) n xs m r" by fastforce
  then show ?thesis using assms(2) by (auto simp: NameServer_match_def ns_name_def [abs_def])
qed

end
