(* ===== verification/MessageQ.thy ===== *)
theory MessageQ
imports NameServer
begin

text \<open>
  The message queues of \<open>ti/sdo/ipc/MessageQ.c\<close>: message headers, allocation from registered
  heaps, the table of queues, delivery to a local queue by priority or to a transport, and
  receiving with a time-out.
\<close>

section \<open>State\<close>

text \<open>
  A message header without its first two fields, which are the list element that links it into
  a queue. A message is named by its address.
\<close>

record MsgHeader =
  mg_msgSize :: u32
  mg_flags :: u16
  mg_msgId :: u16
  mg_dstId :: u16
  mg_dstProc :: u16
  mg_replyId :: u16
  mg_replyProc :: u16
  mg_srcProc :: u16
  mg_heapId :: u16
  mg_seqNum :: u16

text \<open>An instance; the two embedded lists are named by the addresses of their heads.\<close>

record MessageQ_Object =
  mq_queue :: u32
  mq_synchronizer :: ptr
  mq_normalList :: ptr
  mq_highList :: ptr
  mq_nsKey :: ptr
  mq_syncSemHandle :: ptr
  mq_unblocked :: bool

datatype TransportType =
    TransportType_IMessageQTransport | TransportType_INetworkTransport | TransportType_Invalid

record RegisteredTransport =
  rt_transport :: ptr
  rt_type :: TransportType

text \<open>
  The module state; a hook that is not set is \<open>NULL\<close>. The array of queues has an address of
  its own beside its contents.
\<close>

record MessageQ_Module =
  qm_transports :: "ptr list list"
  qm_queues :: "ptr list"
  qm_queuesAddr :: ptr
  qm_heaps :: "ptr list"
  qm_numQueues :: u16
  qm_numHeaps :: u16
  qm_freeHookFxn :: ptr
  qm_putHookFxn :: ptr
  qm_canFreeQueues :: bool
  qm_seqNum :: u16
  qm_regTrans :: "RegisteredTransport list"

text \<open>The configuration of the module, and what it reads of \<open>MultiProc\<close>'s.\<close>

record MessageQ_config =
  qc_asserts :: bool
  qc_traceFlag :: bool
  qc_numReservedEntries :: u32
  qc_maxRuntimeEntries :: u32
  qc_self :: u16
  qc_numProcessors :: u16
  qc_procAddrMode :: ProcAddrMode
  qc_baseIdOfCluster :: u16

text \<open>
  The calls the module makes to others, recorded newest first. A synchronizer may record in the
  same log that a wait took a signal (\<open>Sync_taken\<close>); the module itself never does.
\<close>

datatype mq_call =
    Sync_signal ptr | Sync_taken ptr | Transport_put ptr ptr | Net_put ptr ptr | Net_bind ptr u32 | Net_unbind ptr u32
  | Heap_free ptr ptr u32 | Free_hook u16 u16 | Put_hook u32 ptr
  | Sem_delete ptr | NS_remove ptr | MGate_enter | MGate_leave

record mq_state =
  qs_list :: list_mem
  qs_msg :: "ptr \<Rightarrow> MsgHeader"
  qs_obj :: "ptr \<Rightarrow> MessageQ_Object"
  qs_mod :: MessageQ_Module
  qs_calls :: "mq_call list"

text \<open>
  What the module relies on outside itself: heaps (the answer of an allocation is an address or
  \<open>NULL\<close>), a semaphore's creation, waiting on a synchronizer (in which time other threads may
  change the state), transports, the put hook (which may change the header) and the name server.
\<close>

datatype wait_status = Wait_success | Wait_timeout | Wait_error

record mq_env =
  me_alloc :: "ptr \<Rightarrow> u32 \<Rightarrow> ptr"
  me_semCreate :: ptr
  me_wait :: "ptr \<Rightarrow> u32 \<Rightarrow> mq_state \<Rightarrow> wait_status \<times> mq_state"
  me_transportPut :: "ptr \<Rightarrow> ptr \<Rightarrow> bool"
  me_downCast :: "ptr \<Rightarrow> ptr"
  me_netPut :: "ptr \<Rightarrow> ptr \<Rightarrow> bool"
  me_bind :: "ptr \<Rightarrow> u32 \<Rightarrow> bool"
  me_unbind :: "ptr \<Rightarrow> u32 \<Rightarrow> bool"
  me_putHook :: "ptr \<Rightarrow> u32 \<Rightarrow> MsgHeader \<Rightarrow> MsgHeader"
  me_nsAdd :: "string \<Rightarrow> u32 \<Rightarrow> ptr"
  me_nsGet :: "string \<Rightarrow> u32 option"
  me_syncBlocking :: "ptr \<Rightarrow> bool"

datatype MessageQ_status =
    MessageQ_S_SUCCESS | MessageQ_E_FAIL | MessageQ_E_TIMEOUT | MessageQ_E_UNBLOCKED
  | MessageQ_E_ALREADYEXISTS | MessageQ_E_NOTFOUND

definition MessageQ_HEADERVERSION :: u16 where "MessageQ_HEADERVERSION = 0x2000"
definition MessageQ_TRACEMASK :: u16 where "MessageQ_TRACEMASK = 0x1000"
definition MessageQ_TRACESHIFT :: nat where "MessageQ_TRACESHIFT = 12"
definition MessageQ_PRIORITYMASK :: u16 where "MessageQ_PRIORITYMASK = 3"
definition MessageQ_TRANSPORTPRIORITYMASK :: u16 where "MessageQ_TRANSPORTPRIORITYMASK = 1"
definition MessageQ_NORMALPRI :: u16 where "MessageQ_NORMALPRI = 0"
definition MessageQ_HIGHPRI :: u16 where "MessageQ_HIGHPRI = 1"
definition MessageQ_RESERVEDPRI :: u16 where "MessageQ_RESERVEDPRI = 2"
definition MessageQ_URGENTPRI :: u16 where "MessageQ_URGENTPRI = 3"
definition MessageQ_INVALIDMSGID :: u16 where "MessageQ_INVALIDMSGID = 0xFFFF"
definition MessageQ_INVALIDMESSAGEQ :: u16 where "MessageQ_INVALIDMESSAGEQ = 0xFFFF"
definition MessageQ_STATICMSG :: u16 where "MessageQ_STATICMSG = 0xFFFF"
definition MessageQ_ANY :: u16 where "MessageQ_ANY = 0xFFFF"
definition MessageQ_PORTOFFSET :: u16 where "MessageQ_PORTOFFSET = 0x80"

abbreviation sizeof_MessageQ_Handle :: nat where "sizeof_MessageQ_Handle \<equiv> 4"

section \<open>Headers and queue ids\<close>

definition upd_msg :: "ptr \<Rightarrow> (MsgHeader \<Rightarrow> MsgHeader) \<Rightarrow> mq_state \<Rightarrow> mq_state" where
  "upd_msg a f s = s\<lparr>qs_msg := (qs_msg s)(a := f (qs_msg s a))\<rparr>"

definition upd_obj :: "ptr \<Rightarrow> (MessageQ_Object \<Rightarrow> MessageQ_Object) \<Rightarrow> mq_state \<Rightarrow> mq_state" where
  "upd_obj a f s = s\<lparr>qs_obj := (qs_obj s)(a := f (qs_obj s a))\<rparr>"

definition upd_mod :: "(MessageQ_Module \<Rightarrow> MessageQ_Module) \<Rightarrow> mq_state \<Rightarrow> mq_state" where
  "upd_mod f s = s\<lparr>qs_mod := f (qs_mod s)\<rparr>"

definition mq_call :: "mq_call \<Rightarrow> mq_state \<Rightarrow> mq_state" where
  "mq_call c s = s\<lparr>qs_calls := c # qs_calls s\<rparr>"

text \<open>Running a list operation of the state.\<close>

definition on_list :: "(list_mem \<Rightarrow> ('a \<times> list_mem) res) \<Rightarrow> mq_state \<Rightarrow> ('a \<times> mq_state) res" where
  "on_list f s = res_bind (f (qs_list s)) (\<lambda>(x, l). Ok (x, s\<lparr>qs_list := l\<rparr>))"

lemma upd_simps [simp]:
  "qs_list (upd_msg a f s) = qs_list s" "qs_obj (upd_msg a f s) = qs_obj s"
  "qs_mod (upd_msg a f s) = qs_mod s" "qs_msg (upd_msg a f s) = (qs_msg s)(a := f (qs_msg s a))"
  "qs_calls (upd_msg a f s) = qs_calls s"
  "qs_list (upd_obj a g s) = qs_list s" "qs_msg (upd_obj a g s) = qs_msg s"
  "qs_mod (upd_obj a g s) = qs_mod s" "qs_obj (upd_obj a g s) = (qs_obj s)(a := g (qs_obj s a))"
  "qs_calls (upd_obj a g s) = qs_calls s"
  "qs_list (upd_mod h s) = qs_list s" "qs_msg (upd_mod h s) = qs_msg s"
  "qs_obj (upd_mod h s) = qs_obj s" "qs_mod (upd_mod h s) = h (qs_mod s)"
  "qs_calls (upd_mod h s) = qs_calls s"
  "qs_list (mq_call c s) = qs_list s" "qs_msg (mq_call c s) = qs_msg s"
  "qs_obj (mq_call c s) = qs_obj s" "qs_mod (mq_call c s) = qs_mod s"
  "qs_calls (mq_call c s) = c # qs_calls s"
  by (simp_all add: upd_msg_def upd_obj_def upd_mod_def mq_call_def)

definition MessageQ_getQueueIndex :: "u32 \<Rightarrow> u16" where
  "MessageQ_getQueueIndex queueId = ucast (0xFFFF AND queueId) - MessageQ_PORTOFFSET"

definition MessageQ_getProcId :: "u32 \<Rightarrow> u16" where
  "MessageQ_getProcId queueId = ucast (drop_bit 16 queueId)"

definition MessageQ_openQueueId :: "u16 \<Rightarrow> u16 \<Rightarrow> u32" where
  "MessageQ_openQueueId queueIndex procId =
     (let queuePort = queueIndex + MessageQ_PORTOFFSET in
      push_bit 16 (ucast procId) OR ucast queuePort)"

definition MessageQ_getTransportId :: "MsgHeader \<Rightarrow> nat" where
  "MessageQ_getTransportId m = unat (drop_bit 2 (mg_flags m AND push_bit 2 7))"

definition MessageQ_setTransportId :: "nat \<Rightarrow> MsgHeader \<Rightarrow> MsgHeader" where
  "MessageQ_setTransportId tid m =
     m\<lparr>mg_flags := (mg_flags m AND NOT (push_bit 2 7)) OR push_bit 2 (of_nat tid)\<rparr>"

definition MessageQ_getMsgPri :: "MsgHeader \<Rightarrow> u16" where
  "MessageQ_getMsgPri m = mg_flags m AND MessageQ_PRIORITYMASK"

definition MessageQ_setMsgPri :: "u16 \<Rightarrow> MsgHeader \<Rightarrow> MsgHeader" where
  "MessageQ_setMsgPri pri m =
     m\<lparr>mg_flags := (mg_flags m AND NOT MessageQ_PRIORITYMASK) OR (pri AND MessageQ_PRIORITYMASK)\<rparr>"

definition MessageQ_getDstQueue :: "MsgHeader \<Rightarrow> u32" where
  "MessageQ_getDstQueue m =
     (if mg_dstId m = MessageQ_INVALIDMESSAGEQ then ucast MessageQ_INVALIDMESSAGEQ
      else push_bit 16 (ucast (mg_dstProc m)) OR ucast (mg_dstId m))"

definition MessageQ_getReplyQueue :: "MsgHeader \<Rightarrow> u32" where
  "MessageQ_getReplyQueue m = push_bit 16 (ucast (mg_replyProc m)) OR ucast (mg_replyId m)"

definition MessageQ_setReplyQueue :: "ptr \<Rightarrow> ptr \<Rightarrow> mq_state \<Rightarrow> mq_state" where
  "MessageQ_setReplyQueue handle msg s =
     (let q = mq_queue (qs_obj s handle) in
      upd_msg msg (\<lambda>m. m\<lparr>mg_replyId := ucast q, mg_replyProc := ucast (drop_bit 16 q)\<rparr>) s)"

definition MessageQ_setMsgTrace :: "ptr \<Rightarrow> bool \<Rightarrow> mq_state \<Rightarrow> mq_state" where
  "MessageQ_setMsgTrace msg traceFlag s =
     upd_msg msg (\<lambda>m. m\<lparr>mg_flags := (mg_flags m AND NOT MessageQ_TRACEMASK) OR
       push_bit MessageQ_TRACESHIFT (of_bool traceFlag)\<rparr>) s"

text \<open>
  The index of a processor in the table of transports, by the addressing mode; with an unknown
  mode the index is never set.
\<close>

definition MessageQ_procIndex :: "MessageQ_config \<Rightarrow> u16 \<Rightarrow> u16 res" where
  "MessageQ_procIndex C procId = (case qc_procAddrMode C of
     ProcAddrMode_Global \<Rightarrow> Ok procId
   | ProcAddrMode_Cluster \<Rightarrow> Ok (procId - qc_baseIdOfCluster C)
   | ProcAddrMode_other \<Rightarrow> Assert_isTrue (qc_asserts C) False A_unnamed (Err No_init))"

section \<open>Messages\<close>

definition MessageQ_msgInit :: "MessageQ_config \<Rightarrow> ptr \<Rightarrow> mq_state \<Rightarrow> mq_state" where
  "MessageQ_msgInit C msg s =
     (let s1 = upd_msg msg (\<lambda>m. m\<lparr>mg_replyId := MessageQ_INVALIDMESSAGEQ,
            mg_msgId := MessageQ_INVALIDMSGID, mg_dstId := MessageQ_INVALIDMESSAGEQ,
            mg_flags := MessageQ_HEADERVERSION OR MessageQ_NORMALPRI OR
              (MessageQ_TRACEMASK AND push_bit MessageQ_TRACESHIFT (of_bool (qc_traceFlag C))),
            mg_srcProc := qc_self C\<rparr>) s;
          s2 = upd_msg msg (\<lambda>m. m\<lparr>mg_seqNum := qm_seqNum (qs_mod s1)\<rparr>) s1 in
      upd_mod (\<lambda>q. q\<lparr>qm_seqNum := qm_seqNum q + 1\<rparr>) s2)"

definition MessageQ_alloc ::
  "mq_env \<Rightarrow> MessageQ_config \<Rightarrow> u16 \<Rightarrow> u32 \<Rightarrow> mq_state \<Rightarrow> (ptr \<times> mq_state) res" where
  "MessageQ_alloc E C heapId sz s =
     Assert_isTrue (qc_asserts C) (heapId < qm_numHeaps (qs_mod s)) A_heapIdInvalid (
     res_bind (arr_get (qm_heaps (qs_mod s)) (unat heapId)) (\<lambda>heap.
     Assert_isTrue (qc_asserts C) (heap \<noteq> NULL) A_heapIdInvalid (
     let msg = me_alloc E heap sz in
     if msg = NULL then Ok (NULL, s)
     else Ok (msg, upd_msg msg (\<lambda>m. m\<lparr>mg_msgSize := sz, mg_heapId := heapId\<rparr>)
                     (MessageQ_msgInit C msg s)))))"

definition MessageQ_staticMsgInit ::
  "MessageQ_config \<Rightarrow> ptr \<Rightarrow> u32 \<Rightarrow> mq_state \<Rightarrow> mq_state res" where
  "MessageQ_staticMsgInit C msg sz s =
     Assert_isTrue (qc_asserts C) (msg \<noteq> NULL) A_invalidMsg (
     if msg = NULL then Err Bad_access
     else Ok (upd_msg msg (\<lambda>m. m\<lparr>mg_heapId := MessageQ_STATICMSG, mg_msgSize := sz\<rparr>)
                (MessageQ_msgInit C msg s)))"

definition MessageQ_free ::
  "MessageQ_config \<Rightarrow> ptr \<Rightarrow> mq_state \<Rightarrow> (MessageQ_status \<times> mq_state) res" where
  "MessageQ_free C msg s =
     Assert_isTrue (qc_asserts C) (msg \<noteq> NULL) A_invalidMsg (
     if msg = NULL then Err Bad_access else
     let m = qs_msg s msg in
     Assert_isTrue (qc_asserts C) (mg_heapId m \<noteq> MessageQ_STATICMSG) A_cannotFreeStaticMsg (
     Assert_isTrue (qc_asserts C) (mg_heapId m < qm_numHeaps (qs_mod s)) A_heapIdInvalid (
     res_bind (arr_get (qm_heaps (qs_mod s)) (unat (mg_heapId m))) (\<lambda>heap.
     Assert_isTrue (qc_asserts C) (heap \<noteq> NULL) A_heapIdInvalid (
     if heap \<noteq> NULL then
       let s1 = mq_call (Heap_free heap msg (mg_msgSize m)) s in
       Ok (MessageQ_S_SUCCESS,
           if qm_freeHookFxn (qs_mod s1) \<noteq> NULL
           then mq_call (Free_hook (mg_heapId m) (mg_msgId m)) s1 else s1)
     else Ok (MessageQ_E_FAIL, s))))))"

definition MessageQ_registerHeap ::
  "MessageQ_config \<Rightarrow> ptr \<Rightarrow> u16 \<Rightarrow> mq_state \<Rightarrow> (MessageQ_status \<times> mq_state) res" where
  "MessageQ_registerHeap C heap heapId s =
     Assert_isTrue (qc_asserts C) (heapId < qm_numHeaps (qs_mod s)) A_heapIdInvalid (
     res_bind (arr_get (qm_heaps (qs_mod s)) (unat heapId)) (\<lambda>h.
     if h = NULL then
       Ok (MessageQ_S_SUCCESS, upd_mod (\<lambda>q. q\<lparr>qm_heaps := (qm_heaps q)[unat heapId := heap]\<rparr>) s)
     else Ok (MessageQ_E_ALREADYEXISTS, s)))"

definition MessageQ_unregisterHeap ::
  "MessageQ_config \<Rightarrow> u16 \<Rightarrow> mq_state \<Rightarrow> (MessageQ_status \<times> mq_state) res" where
  "MessageQ_unregisterHeap C heapId s =
     Assert_isTrue (qc_asserts C) (heapId < qm_numHeaps (qs_mod s)) A_heapIdInvalid (
     res_bind (arr_set (qm_heaps (qs_mod s)) (unat heapId) NULL) (\<lambda>hs.
     Ok (MessageQ_S_SUCCESS, upd_mod (\<lambda>q. q\<lparr>qm_heaps := hs\<rparr>) s)))"

definition MessageQ_setFreeHookFxn :: "ptr \<Rightarrow> mq_state \<Rightarrow> mq_state" where
  "MessageQ_setFreeHookFxn f s = upd_mod (\<lambda>q. q\<lparr>qm_freeHookFxn := f\<rparr>) s"

definition MessageQ_setPutHookFxn :: "ptr \<Rightarrow> mq_state \<Rightarrow> mq_state" where
  "MessageQ_setPutHookFxn f s = upd_mod (\<lambda>q. q\<lparr>qm_putHookFxn := f\<rparr>) s"

section \<open>Transports\<close>

definition MessageQ_registerTransport ::
  "MessageQ_config \<Rightarrow> ptr \<Rightarrow> u16 \<Rightarrow> nat \<Rightarrow> mq_state \<Rightarrow> (bool \<times> mq_state) res" where
  "MessageQ_registerTransport C handle procId priority s =
     Assert_isTrue (qc_asserts C) (procId < qc_numProcessors C) A_procIdInvalid (
     res_bind (MessageQ_procIndex C procId) (\<lambda>index.
     Assert_isTrue (qc_asserts C) (unat index < length (qm_transports (qs_mod s))) A_procIdInvalid (
     res_bind (arr_get (qm_transports (qs_mod s)) (unat index)) (\<lambda>row.
     res_bind (arr_get row priority) (\<lambda>t.
     if t = NULL then
       Ok (True, upd_mod (\<lambda>q. q\<lparr>qm_transports :=
             (qm_transports q)[unat index := row[priority := handle]]\<rparr>) s)
     else Ok (False, s))))))"

definition MessageQ_unregisterTransport ::
  "MessageQ_config \<Rightarrow> u16 \<Rightarrow> nat \<Rightarrow> mq_state \<Rightarrow> mq_state res" where
  "MessageQ_unregisterTransport C procId priority s =
     Assert_isTrue (qc_asserts C) (procId < qc_numProcessors C) A_procIdInvalid (
     res_bind (MessageQ_procIndex C procId) (\<lambda>index.
     Assert_isTrue (qc_asserts C) (unat index < length (qm_transports (qs_mod s))) A_procIdInvalid (
     res_bind (arr_get (qm_transports (qs_mod s)) (unat index)) (\<lambda>row.
     res_bind (arr_set row priority NULL) (\<lambda>row'.
     Ok (upd_mod (\<lambda>q. q\<lparr>qm_transports := (qm_transports q)[unat index := row']\<rparr>) s))))))"

definition MessageQ_registerTransportId ::
  "mq_env \<Rightarrow> nat \<Rightarrow> ptr \<Rightarrow> mq_state \<Rightarrow> (bool \<times> mq_state) res" where
  "MessageQ_registerTransportId E tid inst s =
     (if tid < 1 \<or> 7 < tid then Ok (False, s)
      else
        res_bind (arr_get (qm_regTrans (qs_mod s)) tid) (\<lambda>r.
        if rt_transport r \<noteq> NULL then Ok (False, s)
        else if me_downCast E inst \<noteq> NULL then
          Ok (True, upd_mod (\<lambda>q. q\<lparr>qm_regTrans := (qm_regTrans q)[tid :=
                \<lparr>rt_transport = inst, rt_type = TransportType_INetworkTransport\<rparr>]\<rparr>) s)
        else Ok (False, s)))"

definition MessageQ_unregisterTransportId :: "nat \<Rightarrow> mq_state \<Rightarrow> mq_state res" where
  "MessageQ_unregisterTransportId tid s =
     res_bind (arr_set (qm_regTrans (qs_mod s)) tid
                 \<lparr>rt_transport = NULL, rt_type = TransportType_Invalid\<rparr>) (\<lambda>rs.
     Ok (upd_mod (\<lambda>q. q\<lparr>qm_regTrans := rs\<rparr>) s))"

section \<open>Sending\<close>

text \<open>To a queue of this processor: at its place by priority, and its synchronizer signalled.\<close>

definition MessageQ_put_local ::
  "MessageQ_config \<Rightarrow> u32 \<Rightarrow> ptr \<Rightarrow> mq_state \<Rightarrow> (MessageQ_status \<times> mq_state) res" where
  "MessageQ_put_local C queueId msg s =
     (let queueIndex = MessageQ_getQueueIndex queueId in
      Assert_isTrue (qc_asserts C) (queueIndex < qm_numQueues (qs_mod s)) A_invalidQueueId (
      res_bind (arr_get (qm_queues (qs_mod s)) (unat queueIndex)) (\<lambda>obj.
      Assert_isTrue (qc_asserts C) (obj \<noteq> NULL) A_invalidObj (
      if obj = NULL then Err Bad_access else
      let pri = MessageQ_getMsgPri (qs_msg s msg) in
      res_bind
        (if pri = MessageQ_URGENTPRI
         then on_list (List_putHead (mq_highList (qs_obj s obj)) msg) s
         else on_list (List_put (if pri = MessageQ_NORMALPRI then mq_normalList (qs_obj s obj)
                                 else mq_highList (qs_obj s obj)) msg) s)
        (\<lambda>(_, s1).
      Ok (MessageQ_S_SUCCESS, mq_call (Sync_signal (mq_synchronizer (qs_obj s1 obj))) s1))))))"

text \<open>To another processor, by the transport of the message's priority or else the other one.\<close>

definition MessageQ_put_remote ::
  "mq_env \<Rightarrow> MessageQ_config \<Rightarrow> u16 \<Rightarrow> ptr \<Rightarrow> mq_state \<Rightarrow> (MessageQ_status \<times> mq_state) res" where
  "MessageQ_put_remote E C dstProcId msg s =
     Assert_isTrue (qc_asserts C) (dstProcId < qc_numProcessors C) A_procIdInvalid (
     let priority = unat (mg_flags (qs_msg s msg) AND MessageQ_TRANSPORTPRIORITYMASK) in
     res_bind (MessageQ_procIndex C dstProcId) (\<lambda>index.
     if length (qm_transports (qs_mod s)) \<le> unat index then Ok (MessageQ_E_FAIL, s)
     else
     res_bind (arr_get (qm_transports (qs_mod s)) (unat index)) (\<lambda>row.
     res_bind (arr_get row priority) (\<lambda>t.
     res_bind (if t = NULL then arr_get row (if priority = 0 then 1 else 0) else Ok t) (\<lambda>transport.
     Assert_isTrue (qc_asserts C) (transport \<noteq> NULL) A_unregisteredTransport (
     if transport = NULL then Err Bad_access else
     Ok (if me_transportPut E transport msg then MessageQ_S_SUCCESS else MessageQ_E_FAIL,
         mq_call (Transport_put transport msg) s)))))))"

text \<open>To the transport the message names.\<close>

definition MessageQ_put_network ::
  "mq_env \<Rightarrow> nat \<Rightarrow> ptr \<Rightarrow> mq_state \<Rightarrow> (MessageQ_status \<times> mq_state) res" where
  "MessageQ_put_network E tid msg s =
     res_bind (arr_get (qm_regTrans (qs_mod s)) tid) (\<lambda>r.
     let baseTrans = rt_transport r in
     if baseTrans = NULL then Ok (MessageQ_E_FAIL, s)
     else case rt_type r of
       TransportType_INetworkTransport \<Rightarrow>
         (let netTrans = me_downCast E baseTrans in
          if netTrans = NULL then Ok (MessageQ_E_FAIL, s)
          else Ok (if me_netPut E netTrans msg then MessageQ_S_SUCCESS else MessageQ_E_FAIL,
                   mq_call (Net_put netTrans msg) s))
     | _ \<Rightarrow> Ok (MessageQ_E_FAIL, s))"

definition MessageQ_put ::
  "mq_env \<Rightarrow> MessageQ_config \<Rightarrow> u32 \<Rightarrow> ptr \<Rightarrow> mq_state \<Rightarrow> (MessageQ_status \<times> mq_state) res" where
  "MessageQ_put E C queueId msg s =
     (let dstProcId = MessageQ_getProcId queueId in
      Assert_isTrue (qc_asserts C) (msg \<noteq> NULL) A_invalidMsg (
      if msg = NULL then Err Bad_access else
      let s1 = upd_msg msg (\<lambda>m. m\<lparr>mg_dstId := ucast queueId,
                 mg_dstProc := ucast (drop_bit 16 queueId)\<rparr>) s;
          hook = qm_putHookFxn (qs_mod s1);
          s2 = (if hook \<noteq> NULL
                then mq_call (Put_hook queueId msg) (upd_msg msg (me_putHook E hook queueId) s1)
                else s1);
          tid = MessageQ_getTransportId (qs_msg s2 msg) in
      if dstProcId = qc_self C then MessageQ_put_local C queueId msg s2
      else if tid = 0 then MessageQ_put_remote E C dstProcId msg s2
      else MessageQ_put_network E tid msg s2))"

section \<open>Receiving\<close>

text \<open>
  The loop of \<open>MessageQ_get\<close>, with the message found so far and how often it may still go
  round (each round waits on the synchronizer).
\<close>

fun MessageQ_get_loop ::
  "mq_env \<Rightarrow> ptr \<Rightarrow> u32 \<Rightarrow> nat \<Rightarrow> ptr \<Rightarrow> mq_state \<Rightarrow> (MessageQ_status \<times> ptr \<times> mq_state) res" where
  "MessageQ_get_loop E obj timeout fuel msg s =
     (if msg \<noteq> NULL then Ok (MessageQ_S_SUCCESS, msg, s)
      else case fuel of 0 \<Rightarrow> Err Out_of_fuel
      | Suc n \<Rightarrow>
        res_bind (on_list (List_get (mq_normalList (qs_obj s obj))) s) (\<lambda>(m1, s1).
        if m1 \<noteq> NULL then MessageQ_get_loop E obj timeout n m1 s1
        else
          case me_wait E (mq_synchronizer (qs_obj s1 obj)) timeout s1 of
            (Wait_timeout, s2) \<Rightarrow> Ok (MessageQ_E_TIMEOUT, NULL, s2)
          | (Wait_error, s2) \<Rightarrow> Ok (MessageQ_E_FAIL, NULL, s2)
          | (Wait_success, s2) \<Rightarrow>
              if mq_unblocked (qs_obj s2 obj) then Ok (MessageQ_E_UNBLOCKED, NULL, s2)
              else
                res_bind (on_list (List_get (mq_highList (qs_obj s2 obj))) s2) (\<lambda>(m2, s3).
                MessageQ_get_loop E obj timeout n m2 s3)))"

declare MessageQ_get_loop.simps [simp del]

definition MessageQ_get ::
  "mq_env \<Rightarrow> nat \<Rightarrow> ptr \<Rightarrow> u32 \<Rightarrow> mq_state \<Rightarrow> (MessageQ_status \<times> ptr \<times> mq_state) res" where
  "MessageQ_get E fuel obj timeout s =
     res_bind (on_list (List_get (mq_highList (qs_obj s obj))) s) (\<lambda>(m, s1).
     MessageQ_get_loop E obj timeout fuel m s1)"

text \<open>One of the two loops of \<open>MessageQ_count\<close>.\<close>

fun MessageQ_count_loop :: "ptr \<Rightarrow> nat \<Rightarrow> ptr \<Rightarrow> nat \<Rightarrow> list_mem \<Rightarrow> nat res" where
  "MessageQ_count_loop listHandle fuel tempMsg cnt s =
     (case fuel of 0 \<Rightarrow> Err Out_of_fuel
      | Suc n \<Rightarrow>
        res_bind (List_next listHandle tempMsg s) (\<lambda>m.
        if m \<noteq> NULL then MessageQ_count_loop listHandle n m (cnt + 1) s else Ok cnt))"

declare MessageQ_count_loop.simps [simp del]

definition MessageQ_count :: "nat \<Rightarrow> ptr \<Rightarrow> mq_state \<Rightarrow> nat res" where
  "MessageQ_count fuel obj s =
     res_bind (MessageQ_count_loop (mq_highList (qs_obj s obj)) fuel NULL 0 (qs_list s)) (\<lambda>n.
     MessageQ_count_loop (mq_normalList (qs_obj s obj)) fuel NULL n (qs_list s))"

definition MessageQ_unblock :: "mq_env \<Rightarrow> MessageQ_config \<Rightarrow> ptr \<Rightarrow> mq_state \<Rightarrow> mq_state res" where
  "MessageQ_unblock E C obj s =
     Assert_isTrue (qc_asserts C) (me_syncBlocking E (mq_synchronizer (qs_obj s obj)))
       A_invalidUnblock (
     let s1 = upd_obj obj (\<lambda>q. q\<lparr>mq_unblocked := True\<rparr>) s in
     Ok (mq_call (Sync_signal (mq_synchronizer (qs_obj s1 obj))) s1))"

definition MessageQ_getQueueId :: "ptr \<Rightarrow> mq_state \<Rightarrow> u32" where
  "MessageQ_getQueueId obj s = mq_queue (qs_obj s obj)"

definition MessageQ_open :: "mq_env \<Rightarrow> string \<Rightarrow> MessageQ_status \<times> u32 option" where
  "MessageQ_open E name = (case me_nsGet E name of
     Some q \<Rightarrow> (MessageQ_S_SUCCESS, Some q) | None \<Rightarrow> (MessageQ_E_NOTFOUND, None))"

definition MessageQ_close :: "u32 \<Rightarrow> MessageQ_status \<times> u32" where
  "MessageQ_close queueId = (MessageQ_S_SUCCESS, ucast MessageQ_INVALIDMESSAGEQ)"

section \<open>Instances\<close>

text \<open>
  \<open>MessageQ_grow\<close>: the table of queues moves to an array one longer. Its size in bytes is
  computed in 16 bits, and as many bytes are copied. \<open>junk\<close> is what the new array holds
  otherwise.
\<close>

definition MessageQ_grow ::
  "mq_env \<Rightarrow> ptr \<Rightarrow> ptr \<Rightarrow> ptr \<Rightarrow> mq_state \<Rightarrow> (u16 \<times> mq_state) res" where
  "MessageQ_grow E objHeap junk obj s =
     (let queueIndex = qm_numQueues (qs_mod s);
          oldSize = qm_numQueues (qs_mod s) * of_nat sizeof_MessageQ_Handle;
          queues = me_alloc E objHeap (ucast oldSize + of_nat sizeof_MessageQ_Handle) in
      if queues = NULL then Ok (MessageQ_INVALIDMESSAGEQ, s)
      else
        let words = unat oldSize div sizeof_MessageQ_Handle;
            copied = take words (qm_queues (qs_mod s)) @ [junk] in
        res_bind (arr_set copied (unat queueIndex) obj) (\<lambda>qs.
        let oldQueues = qm_queuesAddr (qs_mod s);
            s1 = upd_mod (\<lambda>q. q\<lparr>qm_queues := qs, qm_queuesAddr := queues,
                   qm_numQueues := qm_numQueues q + 1\<rparr>) s in
        Ok (queueIndex,
            if qm_canFreeQueues (qs_mod s1) then mq_call (Heap_free objHeap oldQueues (ucast oldSize)) s1
            else upd_mod (\<lambda>q. q\<lparr>qm_canFreeQueues := True\<rparr>) s1)))"

text \<open>The search for a free slot from \<open>i\<close> on.\<close>

function MessageQ_find_slot :: "ptr list \<Rightarrow> nat \<Rightarrow> nat \<Rightarrow> nat option res" where
  "MessageQ_find_slot queues i cnt =
     (if i < cnt then
        res_bind (arr_get queues i) (\<lambda>q.
          if q = NULL then Ok (Some i) else MessageQ_find_slot queues (Suc i) cnt)
      else Ok None)"
  by auto

termination by (relation "measure (\<lambda>(qs, i, n). n - i)") auto

declare MessageQ_find_slot.simps [simp del]

record MessageQ_Params =
  mp_synchronizer :: ptr
  mp_queueIndex :: u16

definition MessageQ_Params_init :: MessageQ_Params where
  "MessageQ_Params_init = \<lparr>mp_synchronizer = NULL, mp_queueIndex = MessageQ_ANY\<rparr>"

text \<open>Binding the new queue to the registered transports; the status is the last one's.\<close>

fun MessageQ_bind_loop ::
  "mq_env \<Rightarrow> RegisteredTransport list \<Rightarrow> u32 \<Rightarrow> nat list \<Rightarrow> MessageQ_status \<Rightarrow> mq_state \<Rightarrow>
   (bool \<times> mq_state) res" where
  "MessageQ_bind_loop E regTrans qid [] status s = Ok (True, s)"
| "MessageQ_bind_loop E regTrans qid (tid # tids) status s =
     res_bind (arr_get regTrans tid) (\<lambda>r.
     let baseTrans = rt_transport r in
     if baseTrans = NULL then MessageQ_bind_loop E regTrans qid tids status s
     else
       let (status1, s1) =
         (case rt_type r of
            TransportType_INetworkTransport \<Rightarrow>
              (let netTrans = me_downCast E baseTrans in
               if netTrans = NULL then (MessageQ_E_FAIL, s)
               else (if me_bind E netTrans qid then MessageQ_S_SUCCESS else MessageQ_E_FAIL,
                     mq_call (Net_bind netTrans qid) s))
          | _ \<Rightarrow> (status, s)) in
       if status1 \<noteq> MessageQ_S_SUCCESS then Ok (False, s1)
       else MessageQ_bind_loop E regTrans qid tids status1 s1)"

fun MessageQ_unbind_loop ::
  "mq_env \<Rightarrow> RegisteredTransport list \<Rightarrow> u32 \<Rightarrow> nat list \<Rightarrow> mq_state \<Rightarrow> mq_state res" where
  "MessageQ_unbind_loop E regTrans qid [] s = Ok s"
| "MessageQ_unbind_loop E regTrans qid (tid # tids) s =
     res_bind (arr_get regTrans tid) (\<lambda>r.
     let baseTrans = rt_transport r in
     if baseTrans = NULL then MessageQ_unbind_loop E regTrans qid tids s
     else
       let s1 =
         (case rt_type r of
            TransportType_INetworkTransport \<Rightarrow>
              (let netTrans = me_downCast E baseTrans in
               if netTrans = NULL then s else mq_call (Net_unbind netTrans qid) s)
          | _ \<Rightarrow> s) in
       MessageQ_unbind_loop E regTrans qid tids s1)"

text \<open>
  \<open>Instance_init\<close> of the object at \<open>obj\<close>. It first takes a slot of the table, with the
  module's gate held: the reserved one asked for, the first free one (from \<open>start\<close> on, the number of the reserved
  ones in 16 bits), or one more. It fails with a status.
\<close>

definition mq_start :: "MessageQ_config \<Rightarrow> u16" where
  "mq_start C = ucast (qc_numReservedEntries C)"

definition MessageQ_take_slot ::
  "mq_env \<Rightarrow> MessageQ_config \<Rightarrow> ptr \<Rightarrow> ptr \<Rightarrow> ptr \<Rightarrow> MessageQ_Params \<Rightarrow> mq_state \<Rightarrow>
   ((nat + u16) \<times> mq_state) res" where
  "MessageQ_take_slot E C objHeap junk obj params s =
     (if mp_queueIndex params \<noteq> MessageQ_ANY then
        let queueIndex = mp_queueIndex params in
        if qc_numReservedEntries C \<le> ucast queueIndex then Ok (Inl 5, s)
        else
          res_bind (arr_get (qm_queues (qs_mod s)) (unat queueIndex)) (\<lambda>q.
          if q \<noteq> NULL then Ok (Inl 5, s)
          else Ok (Inr queueIndex,
                 upd_mod (\<lambda>m. m\<lparr>qm_queues := (qm_queues m)[unat queueIndex := obj]\<rparr>) s))
      else
        res_bind (MessageQ_find_slot (qm_queues (qs_mod s)) (unat (mq_start C))
                    (unat (qm_numQueues (qs_mod s)))) (\<lambda>slot.
        case slot of
          Some i \<Rightarrow> Ok (Inr (of_nat i), upd_mod (\<lambda>m. m\<lparr>qm_queues := (qm_queues m)[i := obj]\<rparr>) s)
        | None \<Rightarrow>
            if qc_maxRuntimeEntries C \<noteq> NameServer_ALLOWGROWTH then Ok (Inl 1, s)
            else
              res_bind (MessageQ_grow E objHeap junk obj s) (\<lambda>(queueIndex, s1).
              if queueIndex = MessageQ_INVALIDMESSAGEQ then Ok (Inl 2, s1)
              else Ok (Inr queueIndex, s1))))"

text \<open>Then it sets the instance up, once it has a synchronizer.\<close>

definition MessageQ_setup ::
  "mq_env \<Rightarrow> MessageQ_config \<Rightarrow> ptr \<Rightarrow> string option \<Rightarrow> u16 \<Rightarrow> mq_state \<Rightarrow> (nat \<times> mq_state) res" where
  "MessageQ_setup E C obj name queueIndex s3 =
     res_bind (List_Instance_init (mq_normalList (qs_obj s3 obj)) (qs_list s3)) (\<lambda>l4.
     res_bind (List_Instance_init (mq_highList (qs_obj s3 obj)) l4) (\<lambda>l5.
     let s5 = s3\<lparr>qs_list := l5\<rparr>;
         queuePort = queueIndex + MessageQ_PORTOFFSET;
         s6 = upd_obj obj (\<lambda>q. q\<lparr>mq_queue := push_bit 16 (ucast (qc_self C)) OR ucast queuePort,
                mq_unblocked := False\<rparr>) s5;
         s7 = (case name of None \<Rightarrow> s6
               | Some nm \<Rightarrow> upd_obj obj (\<lambda>q. q\<lparr>mq_nsKey := me_nsAdd E nm (mq_queue (qs_obj s6 obj))\<rparr>) s6) in
     if name \<noteq> None \<and> mq_nsKey (qs_obj s7 obj) = NULL then Ok (4, s7)
     else
       res_bind (MessageQ_bind_loop E (qm_regTrans (qs_mod s7)) (mq_queue (qs_obj s7 obj))
                   [1, 2, 3, 4, 5, 6, 7] MessageQ_E_FAIL s7) (\<lambda>(bound, s8).
       Ok (if bound then 0 else 6, s8))))"

definition MessageQ_Instance_init ::
  "mq_env \<Rightarrow> MessageQ_config \<Rightarrow> ptr \<Rightarrow> ptr \<Rightarrow> ptr \<Rightarrow> string option \<Rightarrow> MessageQ_Params \<Rightarrow> mq_state \<Rightarrow>
   (nat \<times> mq_state) res" where
  "MessageQ_Instance_init E C objHeap junk obj name params s =
     res_bind (MessageQ_take_slot E C objHeap junk obj params (mq_call MGate_enter s)) (\<lambda>(slot, s1).
     case slot of
       Inl failed \<Rightarrow> Ok (failed, mq_call MGate_leave s1)
     | Inr queueIndex \<Rightarrow>
         if mp_synchronizer params = NULL \<and> me_semCreate E = NULL
         then Ok (3, mq_call MGate_leave s1)
         else
           let s2 = (if mp_synchronizer params = NULL
                     then upd_obj obj (\<lambda>q. q\<lparr>mq_syncSemHandle := me_semCreate E,
                            mq_synchronizer := me_semCreate E\<rparr>) s1
                     else upd_obj obj (\<lambda>q. q\<lparr>mq_syncSemHandle := NULL,
                            mq_synchronizer := mp_synchronizer params\<rparr>) s1) in
           MessageQ_setup E C obj name queueIndex (mq_call MGate_leave s2))"

definition MessageQ_Instance_finalize ::
  "mq_env \<Rightarrow> ptr \<Rightarrow> nat \<Rightarrow> mq_state \<Rightarrow> mq_state res" where
  "MessageQ_Instance_finalize E obj status s =
     (if status = 5 then Ok s
      else
        res_bind (MessageQ_unbind_loop E (qm_regTrans (qs_mod s)) (mq_queue (qs_obj s obj))
                    [1, 2, 3, 4, 5, 6, 7] s) (\<lambda>s1.
        let sem = mq_syncSemHandle (qs_obj s1 obj);
            s2 = (if sem \<noteq> NULL
                  then upd_obj obj (\<lambda>q. q\<lparr>mq_syncSemHandle := NULL\<rparr>) (mq_call (Sem_delete sem) s1)
                  else s1);
            s3 = mq_call MGate_enter s2;
            queueIndex = MessageQ_getQueueIndex (mq_queue (qs_obj s3 obj)) in
        res_bind (arr_set (qm_queues (qs_mod s3)) (unat queueIndex) NULL) (\<lambda>qs.
        let s4 = mq_call MGate_leave (upd_mod (\<lambda>m. m\<lparr>qm_queues := qs\<rparr>) s3) in
        Ok (if mq_nsKey (qs_obj s4 obj) \<noteq> NULL then mq_call (NS_remove (mq_nsKey (qs_obj s4 obj))) s4
            else s4))))"

text \<open>
  Creation as the XDC runtime does it: an instance that fails to initialise is finalized and no
  handle is returned.
\<close>

definition MessageQ_instance ::
  "mq_env \<Rightarrow> MessageQ_config \<Rightarrow> ptr \<Rightarrow> ptr \<Rightarrow> ptr \<Rightarrow> string option \<Rightarrow> MessageQ_Params \<Rightarrow>
   mq_state \<Rightarrow> (ptr \<times> mq_state) res" where
  "MessageQ_instance E C objHeap junk obj name params s =
     res_bind (MessageQ_Instance_init E C objHeap junk obj name params s) (\<lambda>(st, s1).
     if st = 0 then Ok (obj, s1)
     else res_bind (MessageQ_Instance_finalize E obj st s1) (\<lambda>s2. Ok (NULL, s2)))"

definition MessageQ_create2 ::
  "mq_env \<Rightarrow> MessageQ_config \<Rightarrow> ptr \<Rightarrow> ptr \<Rightarrow> ptr \<Rightarrow> string option \<Rightarrow> MessageQ_Params option \<Rightarrow>
   mq_state \<Rightarrow> (ptr \<times> mq_state) res" where
  "MessageQ_create2 E C objHeap junk obj name params s =
     MessageQ_instance E C objHeap junk obj name
       (case params of None \<Rightarrow> MessageQ_Params_init
        | Some p \<Rightarrow> MessageQ_Params_init\<lparr>mp_synchronizer := mp_synchronizer p,
                      mp_queueIndex := mp_queueIndex p\<rparr>) s"

text \<open>
  The parameter block of \<open>MessageQ_create\<close>: its first word is a version number, read as a
  signed integer, or the synchronizer of the structure in use before there were versions.
\<close>

record MessageQ_ParamsBlock =
  pb_version :: u32
  pb_synchronizer :: ptr
  pb_queueIndex :: u16

definition MessageQ_create ::
  "mq_env \<Rightarrow> MessageQ_config \<Rightarrow> ptr \<Rightarrow> ptr \<Rightarrow> ptr \<Rightarrow> string option \<Rightarrow> MessageQ_ParamsBlock option \<Rightarrow>
   mq_state \<Rightarrow> (ptr \<times> mq_state) res" where
  "MessageQ_create E C objHeap junk obj name pp s =
     (case pp of None \<Rightarrow> MessageQ_instance E C objHeap junk obj name MessageQ_Params_init s
      | Some p \<Rightarrow>
          if pb_version p = 0 \<or> 100 < sint (pb_version p) then
            MessageQ_instance E C objHeap junk obj name
              (MessageQ_Params_init\<lparr>mp_synchronizer := pb_version p\<rparr>) s
          else if pb_version p = 2 then
            MessageQ_instance E C objHeap junk obj name
              (MessageQ_Params_init\<lparr>mp_synchronizer := pb_synchronizer p,
                 mp_queueIndex := pb_queueIndex p\<rparr>) s
          else
            Assert_isTrue (qc_asserts C) False A_unnamed (
            MessageQ_instance E C objHeap junk obj name MessageQ_Params_init s))"

definition MessageQ_delete ::
  "mq_env \<Rightarrow> ptr \<Rightarrow> mq_state \<Rightarrow> (MessageQ_status \<times> ptr \<times> mq_state) res" where
  "MessageQ_delete E obj s =
     res_bind (MessageQ_Instance_finalize E obj 0 s) (\<lambda>s1. Ok (MessageQ_S_SUCCESS, NULL, s1))"

text \<open>\<open>Module_startup\<close>: the static queues take the first slots, the others are free.\<close>

definition MessageQ_Module_startup :: "ptr list \<Rightarrow> mq_state \<Rightarrow> mq_state res" where
  "MessageQ_Module_startup statics s =
     (let n = unat (qm_numQueues (qs_mod s)) in
      if length (qm_queues (qs_mod s)) < max (length statics) n then Err Bad_access
      else Ok (upd_mod (\<lambda>m. m\<lparr>qm_queues := statics @ replicate (n - length statics) NULL @
             drop (max n (length statics)) (qm_queues m)\<rparr>) s))"

section \<open>Queue ids and header fields\<close>

lemma halves_bit:
  "bit (push_bit 16 (ucast (p :: u16)) OR ucast (q :: u16) :: u32) n \<longleftrightarrow>
     (if n < 16 then bit q n else n < 32 \<and> bit p (n - 16))"
  by (auto simp: bit_or_iff bit_push_bit_iff bit_ucast_iff dest: bit_imp_le_length)

lemma halves_low: "(ucast (push_bit 16 (ucast (p :: u16)) OR ucast (q :: u16) :: u32) :: u16) = q"
  by (rule bit_word_eqI) (simp add: bit_ucast_iff halves_bit)

lemma halves_high:
  "(ucast (drop_bit 16 (push_bit 16 (ucast (p :: u16)) OR ucast (q :: u16) :: u32)) :: u16) = p"
  by (rule bit_word_eqI) (simp only: bit_ucast_iff bit_drop_bit_eq comp_def halves_bit, simp)

lemma halves_join:
  "push_bit 16 (ucast (ucast (drop_bit 16 (w :: u32)) :: u16)) OR ucast (ucast w :: u16) = w"
  by (rule bit_word_eqI) (auto simp: halves_bit bit_ucast_iff bit_drop_bit_eq)

lemma bit_0xFFFF: "bit (0xFFFF :: u32) n \<longleftrightarrow> n < 16"
  using bit_mask_iff [of 16 n, where 'a = u32] by (auto simp: mask_eq_exp_minus_1)

lemma low_and_mask: "(ucast (0xFFFF AND (w :: u32)) :: u16) = ucast w"
  by (rule bit_word_eqI) (simp only: bit_ucast_iff bit_and_iff bit_0xFFFF, simp)

lemma getQueueIndex_openQueueId [simp]: "MessageQ_getQueueIndex (MessageQ_openQueueId i p) = i"
  by (simp add: MessageQ_getQueueIndex_def MessageQ_openQueueId_def low_and_mask halves_low Let_def)

lemma getProcId_openQueueId [simp]: "MessageQ_getProcId (MessageQ_openQueueId i p) = p"
  unfolding MessageQ_getProcId_def MessageQ_openQueueId_def Let_def by (rule halves_high)

lemma openQueueId_parts: "MessageQ_openQueueId (MessageQ_getQueueIndex q) (MessageQ_getProcId q) = q"
  by (simp add: MessageQ_getQueueIndex_def MessageQ_getProcId_def MessageQ_openQueueId_def
      low_and_mask halves_join Let_def)

lemma getReplyQueue_set: "MessageQ_getReplyQueue (qs_msg (MessageQ_setReplyQueue h m s) m) = mq_queue (qs_obj s h)"
  by (simp add: MessageQ_getReplyQueue_def MessageQ_setReplyQueue_def Let_def halves_join)

text \<open>The fields of the flags: two bits of priority, three of transport id.\<close>

lemma bit_3: "bit (3 :: u16) n \<longleftrightarrow> n < 2"
  using bit_mask_iff [of 2 n, where 'a = u16] by (auto simp: mask_eq_exp_minus_1)

lemma bit_28: "bit (push_bit 2 7 :: u16) n \<longleftrightarrow> 2 \<le> n \<and> n < 5"
proof -
  have "push_bit 2 (7 :: u16) = push_bit 2 (mask 3)" by (simp add: mask_eq_exp_minus_1)
  moreover have "bit (push_bit 2 (mask 3) :: u16) n \<longleftrightarrow> 2 \<le> n \<and> n < 5"
    by (auto simp: bit_push_bit_iff bit_mask_iff)
  ultimately show ?thesis by metis
qed

lemma flags_upd: "mg_flags (m\<lparr>mg_flags := x\<rparr>) = x"
  by simp

lemmas flag_bits = bit_and_iff bit_or_iff bit_not_iff possible_bit_word bit_3 bit_28

lemma getMsgPri_set: "MessageQ_getMsgPri (MessageQ_setMsgPri pri m) = pri AND MessageQ_PRIORITYMASK"
  unfolding MessageQ_getMsgPri_def MessageQ_setMsgPri_def MessageQ_PRIORITYMASK_def flags_upd
  by (rule bit_word_eqI) (auto simp only: flag_bits)

lemma getTransportId_setMsgPri [simp]:
  "MessageQ_getTransportId (MessageQ_setMsgPri pri m) = MessageQ_getTransportId m"
proof -
  have "mg_flags (MessageQ_setMsgPri pri m) AND push_bit 2 7 = mg_flags m AND push_bit 2 7"
    unfolding MessageQ_setMsgPri_def MessageQ_PRIORITYMASK_def flags_upd
    by (rule bit_word_eqI) (auto simp only: flag_bits)
  then show ?thesis unfolding MessageQ_getTransportId_def by simp
qed

lemma bit_tid:
  assumes "tid \<le> 7" and "bit (of_nat tid :: u16) n"
  shows "n < 3"
proof (rule ccontr)
  assume n: "\<not> n < 3"
  have "take_bit 3 tid = tid" using assms(1) by (simp add: take_bit_nat_eq_self)
  then have "\<not> bit tid n" using n by (metis bit_take_bit_iff)
  then show False using assms(2) by (simp add: bit_of_nat_iff)
qed

lemma getTransportId_set:
  assumes "tid \<le> 7"
  shows "MessageQ_getTransportId (MessageQ_setTransportId tid m) = tid"
proof -
  have "drop_bit 2 (mg_flags (MessageQ_setTransportId tid m) AND push_bit 2 7) = (of_nat tid :: u16)"
    unfolding MessageQ_setTransportId_def flags_upd
  proof (rule bit_word_eqI)
    fix n
    have "bit (of_nat tid :: u16) n \<Longrightarrow> n < 3" using bit_tid [OF assms] .
    then show "bit (drop_bit 2 ((mg_flags m AND NOT (push_bit 2 7) OR push_bit 2 (of_nat tid))
        AND push_bit 2 7)) n = bit (of_nat tid :: u16) n"
      by (simp only: bit_drop_bit_eq comp_def flag_bits) (auto simp: bit_push_bit_iff)
  qed
  then have "MessageQ_getTransportId (MessageQ_setTransportId tid m) = unat (of_nat tid :: u16)"
    unfolding MessageQ_getTransportId_def by simp
  then show ?thesis using assms by (simp add: unat_of_nat_small)
qed

lemma getMsgPri_setTransportId [simp]:
  "MessageQ_getMsgPri (MessageQ_setTransportId tid m) = MessageQ_getMsgPri m"
  unfolding MessageQ_getMsgPri_def MessageQ_setTransportId_def MessageQ_PRIORITYMASK_def flags_upd
  by (rule bit_word_eqI) (auto simp only: flag_bits bit_push_bit_iff)

section \<open>A queue as a mailbox\<close>

text \<open>The priority of a message: what its flags say, the reserved priority being a high one.\<close>

definition mq_priority :: "MsgHeader \<Rightarrow> mail_priority" where
  "mq_priority m =
     (if MessageQ_getMsgPri m = MessageQ_URGENTPRI then Urgent
      else if MessageQ_getMsgPri m = MessageQ_NORMALPRI then Normal else High)"

lemma mq_priority_flags: "mg_flags m' = mg_flags m \<Longrightarrow> mq_priority m' = mq_priority m"
  by (simp add: mq_priority_def MessageQ_getMsgPri_def)

text \<open>The queue at \<open>obj\<close> holds \<open>hi\<close> in its list of high priority and \<open>lo\<close> in the other.\<close>

definition mq_lists :: "MessageQ_Object \<Rightarrow> list_mem \<Rightarrow> ptr list \<times> ptr list \<Rightarrow> bool" where
  "mq_lists ob l q \<longleftrightarrow>
     list_ring (mq_highList ob) l (fst q) \<and> list_ring (mq_normalList ob) l (snd q) \<and>
     set (mq_highList ob # fst q) \<inter> set (mq_normalList ob # snd q) = {}"

definition mq_nodes :: "MessageQ_Object \<Rightarrow> ptr list \<times> ptr list \<Rightarrow> ptr set" where
  "mq_nodes ob q = set (mq_highList ob # fst q) \<union> set (mq_normalList ob # snd q)"

lemma right_of_mem: "right_of h vs \<in> set (h # vs)"
  and left_of_mem: "left_of h us \<in> set (h # us)"
  by (rule neighbour_mem)+

lemma mq_lists_frame:
  assumes "mq_lists ob l q" and "list_frame W l l'" and "W \<inter> mq_nodes ob q = {}"
  shows "mq_lists ob l' q"
  using assms list_ring_frame [OF assms(2)] unfolding mq_lists_def mq_nodes_def by blast

lemma mq_lists_send:
  assumes l: "mq_lists ob l (hi, lo)" and m: "m \<noteq> NULL" "m \<notin> mq_nodes ob (hi, lo)"
  shows "\<exists>l'. (if p = Urgent then List_putHead (mq_highList ob) m l
      else List_put (if p = Normal then mq_normalList ob else mq_highList ob) m l) = Ok ((), l') \<and>
    mq_lists ob l' (mail_send p m (hi, lo)) \<and> list_frame (insert m (mq_nodes ob (hi, lo))) l l'"
proof -
  let ?h = "mq_highList ob" and ?n = "mq_normalList ob"
  have R: "list_ring ?h l hi" "list_ring ?n l lo" "set (?h # hi) \<inter> set (?n # lo) = {}"
    using l by (simp_all add: mq_lists_def)
  have fresh: "m \<notin> set (?h # hi)" "m \<notin> set (?n # lo)" using m(2) by (auto simp: mq_nodes_def)
  show ?thesis
  proof (cases p)
    case Normal
    obtain l' where l': "List_put ?n m l = Ok ((), l')" "list_ring ?n l' (lo @ [m])"
      "list_frame {?n, m, left_of ?n lo} l l'" using List_put_last [OF R(2) fresh(2) m(1)] by blast
    have "{?n, m, left_of ?n lo} \<inter> set (?h # hi) = {}" using R(3) fresh left_of_mem [of ?n lo] by auto
    then have "list_ring ?h l' hi" using list_ring_frame [OF l'(3) R(1)] by blast
    moreover have "list_frame (insert m (mq_nodes ob (hi, lo))) l l'"
      using l'(3) left_of_mem [of ?n lo] by (auto simp: list_frame_def mq_nodes_def)
    ultimately show ?thesis using l' R(3) fresh Normal by (auto simp: mq_lists_def)
  next
    case High
    obtain l' where l': "List_put ?h m l = Ok ((), l')" "list_ring ?h l' (hi @ [m])"
      "list_frame {?h, m, left_of ?h hi} l l'" using List_put_last [OF R(1) fresh(1) m(1)] by blast
    have "{?h, m, left_of ?h hi} \<inter> set (?n # lo) = {}" using R(3) fresh left_of_mem [of ?h hi] by auto
    then have "list_ring ?n l' lo" using list_ring_frame [OF l'(3) R(2)] by blast
    moreover have "list_frame (insert m (mq_nodes ob (hi, lo))) l l'"
      using l'(3) left_of_mem [of ?h hi] by (auto simp: list_frame_def mq_nodes_def)
    ultimately show ?thesis using l' R(3) fresh High by (auto simp: mq_lists_def)
  next
    case Urgent
    obtain l' where l': "List_putHead ?h m l = Ok ((), l')" "list_ring ?h l' (m # hi)"
      "list_frame {?h, m, right_of ?h hi} l l'" using List_putHead_first [OF R(1) fresh(1) m(1)] by blast
    have "{?h, m, right_of ?h hi} \<inter> set (?n # lo) = {}" using R(3) fresh right_of_mem [of ?h hi] by auto
    then have "list_ring ?n l' lo" using list_ring_frame [OF l'(3) R(2)] by blast
    moreover have "list_frame (insert m (mq_nodes ob (hi, lo))) l l'"
      using l'(3) right_of_mem [of ?h hi] by (auto simp: list_frame_def mq_nodes_def)
    ultimately show ?thesis using l' R(3) fresh Urgent by (auto simp: mq_lists_def)
  qed
qed

lemma mq_lists_take_high:
  assumes "mq_lists ob l (m # hi, lo)"
  shows "\<exists>l'. List_get (mq_highList ob) l = Ok (m, l') \<and> mq_lists ob l' (hi, lo) \<and>
    list_frame (mq_nodes ob (hi, lo)) l l' \<and> m \<noteq> NULL"
proof -
  let ?h = "mq_highList ob" and ?n = "mq_normalList ob"
  have R: "list_ring ?h l (m # hi)" "list_ring ?n l lo" "set (?h # m # hi) \<inter> set (?n # lo) = {}"
    using assms by (simp_all add: mq_lists_def)
  obtain l' where l': "List_get ?h l = Ok (m, l')" "list_ring ?h l' hi"
    "list_frame {?h, right_of ?h hi} l l'" using List_get_first [OF R(1)] by blast
  have "{?h, right_of ?h hi} \<inter> set (?n # lo) = {}" using R(3) right_of_mem [of ?h hi] by auto
  then have "list_ring ?n l' lo" using list_ring_frame [OF l'(3) R(2)] by blast
  moreover have "list_frame (mq_nodes ob (hi, lo)) l l'"
    using l'(3) right_of_mem [of ?h hi] by (auto simp: list_frame_def mq_nodes_def)
  moreover have "m \<noteq> NULL" using list_ring_parts(3) [OF R(1)] by simp
  ultimately show ?thesis using l' R(3) by (auto simp: mq_lists_def)
qed

lemma mq_lists_take_normal:
  assumes "mq_lists ob l (hi, m # lo)"
  shows "\<exists>l'. List_get (mq_normalList ob) l = Ok (m, l') \<and> mq_lists ob l' (hi, lo) \<and>
    list_frame (mq_nodes ob (hi, lo)) l l' \<and> m \<noteq> NULL"
proof -
  let ?h = "mq_highList ob" and ?n = "mq_normalList ob"
  have R: "list_ring ?h l hi" "list_ring ?n l (m # lo)" "set (?h # hi) \<inter> set (?n # m # lo) = {}"
    using assms by (simp_all add: mq_lists_def)
  obtain l' where l': "List_get ?n l = Ok (m, l')" "list_ring ?n l' lo"
    "list_frame {?n, right_of ?n lo} l l'" using List_get_first [OF R(2)] by blast
  have "{?n, right_of ?n lo} \<inter> set (?h # hi) = {}" using R(3) right_of_mem [of ?n lo] by auto
  then have "list_ring ?h l' hi" using list_ring_frame [OF l'(3) R(1)] by blast
  moreover have "list_frame (mq_nodes ob (hi, lo)) l l'"
    using l'(3) right_of_mem [of ?n lo] by (auto simp: list_frame_def mq_nodes_def)
  moreover have "m \<noteq> NULL" using list_ring_parts(3) [OF R(2)] by simp
  ultimately show ?thesis using l' R(3) by (auto simp: mq_lists_def)
qed

lemma mq_lists_empty:
  assumes "mq_lists ob l q"
  shows "fst q = [] \<Longrightarrow> \<exists>l'. List_get (mq_highList ob) l = Ok (NULL, l') \<and> li_elem l' = li_elem l"
    and "snd q = [] \<Longrightarrow> \<exists>l'. List_get (mq_normalList ob) l = Ok (NULL, l') \<and> li_elem l' = li_elem l"
  using assms List_get_empty by (auto simp: mq_lists_def)

lemma mq_lists_same: "li_elem l' = li_elem l \<Longrightarrow> mq_lists ob l' q = mq_lists ob l q"
  by (simp add: mq_lists_def list_ring_def)

text \<open>
  The queue \<open>obj\<close> is reached by the id \<open>qid\<close> on this processor, in the table of queues.
\<close>

definition mq_routed :: "MessageQ_config \<Rightarrow> u32 \<Rightarrow> ptr \<Rightarrow> mq_state \<Rightarrow> bool" where
  "mq_routed C qid obj s \<longleftrightarrow>
     MessageQ_getProcId qid = qc_self C \<and>
     MessageQ_getQueueIndex qid < qm_numQueues (qs_mod s) \<and>
     length (qm_queues (qs_mod s)) = unat (qm_numQueues (qs_mod s)) \<and>
     qm_queues (qs_mod s) ! unat (MessageQ_getQueueIndex qid) = obj \<and> obj \<noteq> NULL"

definition mq_nohook :: "mq_state \<Rightarrow> bool" where
  "mq_nohook s \<longleftrightarrow> qm_putHookFxn (qs_mod s) = NULL"

lemma MessageQ_put_local_lists:
  assumes "mq_routed C qid obj s" and "mq_nohook s"
    and "mq_lists (qs_obj s obj) (qs_list s) (hi, lo)"
    and "m \<noteq> NULL" and "m \<notin> mq_nodes (qs_obj s obj) (hi, lo)"
  shows "\<exists>s'. MessageQ_put E C qid m s = Ok (MessageQ_S_SUCCESS, s') \<and>
    mq_lists (qs_obj s obj) (qs_list s') (mail_send (mq_priority (qs_msg s m)) m (hi, lo)) \<and>
    list_frame (insert m (mq_nodes (qs_obj s obj) (hi, lo))) (qs_list s) (qs_list s') \<and>
    qs_obj s' = qs_obj s \<and> qs_mod s' = qs_mod s \<and>
    qs_msg s' = (qs_msg s)(m := (qs_msg s m)\<lparr>mg_dstId := ucast qid, mg_dstProc := ucast (drop_bit 16 qid)\<rparr>) \<and>
    qs_calls s' = Sync_signal (mq_synchronizer (qs_obj s obj)) # qs_calls s"
proof -
  let ?ob = "qs_obj s obj"
  define p where "p = mq_priority (qs_msg s m)"
  define s1 where "s1 = upd_msg m (\<lambda>h. h\<lparr>mg_dstId := ucast qid, mg_dstProc := ucast (drop_bit 16 qid)\<rparr>) s"
  obtain l' where l': "(if p = Urgent then List_putHead (mq_highList ?ob) m (qs_list s)
      else List_put (if p = Normal then mq_normalList ?ob else mq_highList ?ob) m (qs_list s)) = Ok ((), l')"
    "mq_lists ?ob l' (mail_send p m (hi, lo))"
    "list_frame (insert m (mq_nodes ?ob (hi, lo))) (qs_list s) l'"
    using mq_lists_send [OF assms(3-5)] by blast
  have pri: "MessageQ_getMsgPri (qs_msg s1 m) = MessageQ_getMsgPri (qs_msg s m)"
    by (simp add: s1_def MessageQ_getMsgPri_def)
  have "(if MessageQ_getMsgPri (qs_msg s1 m) = MessageQ_URGENTPRI
         then on_list (List_putHead (mq_highList ?ob) m) s1
         else on_list (List_put (if MessageQ_getMsgPri (qs_msg s1 m) = MessageQ_NORMALPRI
             then mq_normalList ?ob else mq_highList ?ob) m) s1) = Ok ((), s1\<lparr>qs_list := l'\<rparr>)"
    using l'(1) unfolding pri
    by (auto simp: p_def mq_priority_def on_list_def s1_def split: if_splits)
  moreover have s1: "qs_obj s1 = qs_obj s" "qs_mod s1 = qs_mod s" by (simp_all add: s1_def)
  ultimately have "MessageQ_put_local C qid m s1 =
      Ok (MessageQ_S_SUCCESS, mq_call (Sync_signal (mq_synchronizer ?ob)) (s1\<lparr>qs_list := l'\<rparr>))"
    using assms(1)
    by (simp add: MessageQ_put_local_def mq_routed_def word_less_nat_alt Let_def split del: if_split cong: if_cong)
  then have "MessageQ_put E C qid m s =
      Ok (MessageQ_S_SUCCESS, mq_call (Sync_signal (mq_synchronizer ?ob)) (s1\<lparr>qs_list := l'\<rparr>))"
    using assms(1,2,4)
    by (simp add: MessageQ_put_def mq_routed_def mq_nohook_def s1_def Let_def)
  then show ?thesis
    using l'(2,3) by (simp add: p_def s1_def)
qed

section \<open>Receiving\<close>

lemma get_loop_found: "m \<noteq> NULL \<Longrightarrow> MessageQ_get_loop E obj timeout n m s = Ok (MessageQ_S_SUCCESS, m, s)"
  by (simp add: MessageQ_get_loop.simps)

lemma get_loop_round:
  "MessageQ_get_loop E obj timeout (Suc n) NULL s =
     res_bind (on_list (List_get (mq_normalList (qs_obj s obj))) s) (\<lambda>(m1, s1).
     if m1 \<noteq> NULL then MessageQ_get_loop E obj timeout n m1 s1
     else
       case me_wait E (mq_synchronizer (qs_obj s1 obj)) timeout s1 of
         (Wait_timeout, s2) \<Rightarrow> Ok (MessageQ_E_TIMEOUT, NULL, s2)
       | (Wait_error, s2) \<Rightarrow> Ok (MessageQ_E_FAIL, NULL, s2)
       | (Wait_success, s2) \<Rightarrow>
           if mq_unblocked (qs_obj s2 obj) then Ok (MessageQ_E_UNBLOCKED, NULL, s2)
           else MessageQ_get E n obj timeout s2)"
  unfolding MessageQ_get_def by (subst MessageQ_get_loop.simps) simp

text \<open>A message that waits is returned at once, without waiting on the synchronizer.\<close>

lemma MessageQ_get_waiting:
  assumes "mq_lists (qs_obj s obj) (qs_list s) q" and "mail_waiting q = m # ms"
  shows "\<exists>s'. MessageQ_get E (Suc n) obj timeout s = Ok (MessageQ_S_SUCCESS, m, s') \<and> m \<noteq> NULL \<and>
    mq_lists (qs_obj s obj) (qs_list s') (snd (mail_receive NULL q)) \<and> fst (mail_receive NULL q) = m \<and>
    list_frame (mq_nodes (qs_obj s obj) q) (qs_list s) (qs_list s') \<and>
    s'\<lparr>qs_list := qs_list s\<rparr> = s"
proof -
  obtain hi lo where q: "q = (hi, lo)" by (cases q)
  let ?ob = "qs_obj s obj"
  show ?thesis
  proof (cases hi)
    case (Cons x hi')
    then have x: "x = m" using assms(2) q by (simp add: mail_waiting_def)
    obtain l' where l': "List_get (mq_highList ?ob) (qs_list s) = Ok (m, l')" "mq_lists ?ob l' (hi', lo)"
      "list_frame (mq_nodes ?ob (hi', lo)) (qs_list s) l'" "m \<noteq> NULL"
      using mq_lists_take_high [of ?ob "qs_list s" m hi' lo] assms(1) q Cons x by blast
    have "list_frame (mq_nodes ?ob q) (qs_list s) l'"
      using l'(3) q Cons by (auto simp: list_frame_def mq_nodes_def)
    then show ?thesis using l' q Cons x
      by (simp add: MessageQ_get_def on_list_def get_loop_found get_loop_round)
  next
    case Nil
    then obtain lo' where lo: "lo = m # lo'" using assms(2) q by (simp add: mail_waiting_def)
    obtain l0 where l0: "List_get (mq_highList ?ob) (qs_list s) = Ok (NULL, l0)" "li_elem l0 = li_elem (qs_list s)"
      using mq_lists_empty(1) [OF assms(1)] q Nil by auto
    then have "mq_lists ?ob l0 ([], m # lo')" using assms(1) q Nil lo mq_lists_same by blast
    then obtain l' where l': "List_get (mq_normalList ?ob) l0 = Ok (m, l')" "mq_lists ?ob l' ([], lo')"
      "list_frame (mq_nodes ?ob ([], lo')) l0 l'" "m \<noteq> NULL"
      using mq_lists_take_normal by blast
    have "list_frame (mq_nodes ?ob q) (qs_list s) l'"
      using l'(3) q Nil lo l0(2) by (auto simp: list_frame_def mq_nodes_def)
    then show ?thesis using l0 l' q Nil lo
      by (simp add: MessageQ_get_def on_list_def get_loop_found get_loop_round)
  qed
qed

text \<open>With none waiting, it waits, and what it does then depends on how the waiting ended.\<close>

definition list_quiet :: "mq_state \<Rightarrow> mq_state \<Rightarrow> bool" where
  "list_quiet s s1 \<longleftrightarrow> li_elem (qs_list s1) = li_elem (qs_list s) \<and> s1\<lparr>qs_list := qs_list s\<rparr> = s"

lemma list_quiet_parts:
  assumes "list_quiet s s1"
  shows "qs_obj s1 = qs_obj s" and "qs_mod s1 = qs_mod s" and "qs_msg s1 = qs_msg s"
    and "qs_calls s1 = qs_calls s"
  using assms unfolding list_quiet_def by (cases s; cases s1; simp)+

lemma MessageQ_get_none:
  assumes "mq_lists (qs_obj s obj) (qs_list s) ([], [])"
  shows "\<exists>s1. list_quiet s s1 \<and> MessageQ_get E (Suc n) obj timeout s =
    (case me_wait E (mq_synchronizer (qs_obj s obj)) timeout s1 of
       (Wait_timeout, s2) \<Rightarrow> Ok (MessageQ_E_TIMEOUT, NULL, s2)
     | (Wait_error, s2) \<Rightarrow> Ok (MessageQ_E_FAIL, NULL, s2)
     | (Wait_success, s2) \<Rightarrow>
         if mq_unblocked (qs_obj s2 obj) then Ok (MessageQ_E_UNBLOCKED, NULL, s2)
         else MessageQ_get E n obj timeout s2)"
proof -
  let ?ob = "qs_obj s obj"
  obtain l0 where l0: "List_get (mq_highList ?ob) (qs_list s) = Ok (NULL, l0)" "li_elem l0 = li_elem (qs_list s)"
    using mq_lists_empty(1) [OF assms] by auto
  then have "mq_lists ?ob l0 ([], [])" using assms mq_lists_same by blast
  then obtain l1 where l1: "List_get (mq_normalList ?ob) l0 = Ok (NULL, l1)" "li_elem l1 = li_elem l0"
    using mq_lists_empty(2) by fastforce
  have "list_quiet s (s\<lparr>qs_list := l1\<rparr>)" using l0(2) l1(2) by (simp add: list_quiet_def)
  moreover have "MessageQ_get E (Suc n) obj timeout s =
    (case me_wait E (mq_synchronizer ?ob) timeout (s\<lparr>qs_list := l1\<rparr>) of
       (Wait_timeout, s2) \<Rightarrow> Ok (MessageQ_E_TIMEOUT, NULL, s2)
     | (Wait_error, s2) \<Rightarrow> Ok (MessageQ_E_FAIL, NULL, s2)
     | (Wait_success, s2) \<Rightarrow>
         if mq_unblocked (qs_obj s2 obj) then Ok (MessageQ_E_UNBLOCKED, NULL, s2)
         else MessageQ_get E n obj timeout s2)"
    using l0(1) l1(1)
    by (subst MessageQ_get_def) (simp add: on_list_def get_loop_round)
  ultimately show ?thesis by blast
qed

section \<open>The contract of a mailbox\<close>

text \<open>
  A queue among the lists of the processor. \<open>P\<close> gives the priority of every message. Of its
  synchronizer no more is asked than that a wait leaves the module as it was (no other thread
  sends in the middle of it) and that one that succeeds has used up one of the signals still
  pending, of which there are \<open>pend\<close> after the calls made so far; it may succeed on a signal of
  a message that is gone already, time out or fail as it likes.
\<close>

definition mq_sync :: "mq_env \<Rightarrow> ptr \<Rightarrow> (mq_call list \<Rightarrow> nat) \<Rightarrow> bool" where
  "mq_sync E y pend \<longleftrightarrow>
     (\<forall>t s w s'. me_wait E y t s = (w, s') \<longrightarrow>
        (\<exists>k. s' = s\<lparr>qs_calls := k\<rparr> \<and> (w = Wait_success \<longrightarrow> pend k < pend (qs_calls s))))"

definition mq_box ::
  "mq_env \<Rightarrow> MessageQ_config \<Rightarrow> u32 \<Rightarrow> ptr \<Rightarrow> MessageQ_Object \<Rightarrow> (ptr \<Rightarrow> mail_priority) \<Rightarrow>
   (mq_call list \<Rightarrow> nat) \<Rightarrow> mq_state \<Rightarrow> ptr list \<times> ptr list \<Rightarrow> bool" where
  "mq_box E C qid obj ob P pend s q \<longleftrightarrow>
     mq_routed C qid obj s \<and> mq_nohook s \<and> qs_obj s obj = ob \<and> mq_lists ob (qs_list s) q \<and>
     (\<forall>m. mq_priority (qs_msg s m) = P m) \<and> mq_sync E (mq_synchronizer ob) pend"

definition mq_fit :: "MessageQ_Object \<Rightarrow> ptr \<Rightarrow> bool" where
  "mq_fit ob m \<longleftrightarrow> m \<noteq> NULL \<and> m \<noteq> mq_highList ob \<and> m \<noteq> mq_normalList ob"

text \<open>A call of \<open>MessageQ_get\<close>, with rounds enough for the signals that are pending.\<close>

definition mq_take ::
  "mq_env \<Rightarrow> (mq_call list \<Rightarrow> nat) \<Rightarrow> ptr \<Rightarrow> u32 \<Rightarrow> mq_state \<Rightarrow> (ptr \<times> mq_state) res" where
  "mq_take E pend obj timeout s =
     res_bind (MessageQ_get E (Suc (pend (qs_calls s))) obj timeout s) (\<lambda>(st, m, s'). Ok (m, s'))"

lemma mq_nodes_waiting:
  "mq_nodes ob q = {mq_highList ob, mq_normalList ob} \<union> set (mail_waiting q)"
  by (auto simp: mq_nodes_def mail_waiting_def)

lemma same_but_list:
  assumes "s'\<lparr>qs_list := l\<rparr> = s"
  shows "qs_obj s' = qs_obj s" "qs_mod s' = qs_mod s" "qs_msg s' = qs_msg s" "qs_calls s' = qs_calls s"
  using assms by (cases s; cases s'; simp)+

lemma mq_routed_mod: "qs_mod s' = qs_mod s \<Longrightarrow> mq_routed C qid obj s' = mq_routed C qid obj s"
  by (simp add: mq_routed_def)

lemma mq_box_parts:
  assumes "mq_box E C qid obj ob P pend s q"
  shows "mq_routed C qid obj s" and "mq_nohook s" and "qs_obj s obj = ob"
    and "mq_lists ob (qs_list s) q" and "mq_priority (qs_msg s m) = P m"
    and "mq_sync E (mq_synchronizer ob) pend"
  using assms by (simp_all add: mq_box_def)

lemma mq_box_intro:
  assumes "mq_box E C qid obj ob P pend s q" and "qs_obj s' = qs_obj s" and "qs_mod s' = qs_mod s"
    and "\<And>m. mg_flags (qs_msg s' m) = mg_flags (qs_msg s m)" and "mq_lists ob (qs_list s') q'"
  shows "mq_box E C qid obj ob P pend s' q'"
proof -
  have "mq_priority (qs_msg s' m) = P m" for m
    using mq_box_parts(5) [OF assms(1)] mq_priority_flags [OF assms(4)] by simp
  then show ?thesis
    using mq_box_parts [OF assms(1)] assms(2,3,5)
    by (simp add: mq_box_def mq_nohook_def mq_routed_mod [OF assms(3)])
qed

lemma mq_box_send:
  assumes b: "mq_box E C qid obj ob P pend s q" and f: "mq_fit ob m" "m \<notin> set (mail_waiting q)"
  shows "\<exists>s'. MessageQ_put E C qid m s = Ok (MessageQ_S_SUCCESS, s') \<and>
    mq_box E C qid obj ob P pend s' (mail_send (P m) m q)"
proof -
  obtain hi lo where q: "q = (hi, lo)" by (cases q)
  note B = mq_box_parts [OF b]
  have l: "mq_lists (qs_obj s obj) (qs_list s) (hi, lo)" using B(3,4) q by simp
  have m: "m \<noteq> NULL" "m \<notin> mq_nodes (qs_obj s obj) (hi, lo)"
    using f q B(3) by (auto simp: mq_nodes_waiting mq_fit_def)
  obtain s' where s': "MessageQ_put E C qid m s = Ok (MessageQ_S_SUCCESS, s')"
    "mq_lists (qs_obj s obj) (qs_list s') (mail_send (mq_priority (qs_msg s m)) m (hi, lo))"
    "qs_obj s' = qs_obj s" "qs_mod s' = qs_mod s"
    "qs_msg s' = (qs_msg s)(m := (qs_msg s m)\<lparr>mg_dstId := ucast qid, mg_dstProc := ucast (drop_bit 16 qid)\<rparr>)"
    using MessageQ_put_local_lists [OF B(1,2) l m, of E] by blast
  have "mq_box E C qid obj ob P pend s' (mail_send (P m) m q)"
    by (rule mq_box_intro [OF b s'(3,4)]) (use s'(2,5) B(3,5) q in simp_all)
  then show ?thesis using s'(1) by blast
qed

text \<open>On an empty queue it waits until the signals are used up, and comes out with nothing.\<close>

lemma MessageQ_get_nothing:
  assumes "mq_sync E (mq_synchronizer (qs_obj s obj)) pend"
    and "mq_lists (qs_obj s obj) (qs_list s) ([], [])" and "pend (qs_calls s) < n"
  shows "\<exists>st s'. MessageQ_get E n obj timeout s = Ok (st, NULL, s') \<and> st \<noteq> MessageQ_S_SUCCESS \<and>
    li_elem (qs_list s') = li_elem (qs_list s) \<and> qs_obj s' = qs_obj s \<and> qs_mod s' = qs_mod s \<and>
    qs_msg s' = qs_msg s"
  using assms
proof (induction n arbitrary: s)
  case (Suc n)
  let ?y = "mq_synchronizer (qs_obj s obj)"
  obtain s1 where s1: "list_quiet s s1" "MessageQ_get E (Suc n) obj timeout s =
    (case me_wait E ?y timeout s1 of
       (Wait_timeout, s2) \<Rightarrow> Ok (MessageQ_E_TIMEOUT, NULL, s2)
     | (Wait_error, s2) \<Rightarrow> Ok (MessageQ_E_FAIL, NULL, s2)
     | (Wait_success, s2) \<Rightarrow>
         if mq_unblocked (qs_obj s2 obj) then Ok (MessageQ_E_UNBLOCKED, NULL, s2)
         else MessageQ_get E n obj timeout s2)"
    using MessageQ_get_none [OF Suc.prems(2)] by blast
  note Q = list_quiet_parts [OF s1(1)]
  have el: "li_elem (qs_list s1) = li_elem (qs_list s)" using s1(1) by (simp add: list_quiet_def)
  obtain w s2 where w: "me_wait E ?y timeout s1 = (w, s2)" by fastforce
  then obtain k where s2: "s2 = s1\<lparr>qs_calls := k\<rparr>" "w = Wait_success \<Longrightarrow> pend k < pend (qs_calls s1)"
    using Suc.prems(1) unfolding mq_sync_def by blast
  show ?case
  proof (cases "w = Wait_success \<and> \<not> mq_unblocked (qs_obj s2 obj)")
    case True
    have "pend (qs_calls s2) < n" using s2 True Suc.prems(3) by (simp add: Q(4))
    moreover have "mq_lists (qs_obj s2 obj) (qs_list s2) ([], [])"
      using Suc.prems(2) mq_lists_same [OF el] by (simp add: s2(1) Q(1))
    ultimately obtain st s' where "MessageQ_get E n obj timeout s2 = Ok (st, NULL, s')"
      "st \<noteq> MessageQ_S_SUCCESS" "li_elem (qs_list s') = li_elem (qs_list s2)" "qs_obj s' = qs_obj s2"
      "qs_mod s' = qs_mod s2" "qs_msg s' = qs_msg s2"
      using Suc.IH [of s2] Suc.prems(1) by (auto simp: s2(1) Q(1))
    then show ?thesis using True s1(2) w by (simp add: s2(1) Q el)
  next
    case False
    then show ?thesis using s1(2) w by (cases w) (simp_all add: s2(1) Q el)
  qed
qed simp

lemma mq_box_receive:
  assumes b: "mq_box E C qid obj ob P pend s q"
  shows "\<exists>s'. mq_take E pend obj timeout s = Ok (fst (mail_receive NULL q), s') \<and>
    mq_box E C qid obj ob P pend s' (snd (mail_receive NULL q))"
proof -
  note B = mq_box_parts [OF b]
  have l: "mq_lists (qs_obj s obj) (qs_list s) q" using B(3,4) by simp
  show ?thesis
  proof (cases "mail_waiting q")
    case (Cons m ms)
    obtain s' where s': "MessageQ_get E (Suc (pend (qs_calls s))) obj timeout s = Ok (MessageQ_S_SUCCESS, m, s')"
      "mq_lists (qs_obj s obj) (qs_list s') (snd (mail_receive NULL q))" "fst (mail_receive NULL q) = m"
      "s'\<lparr>qs_list := qs_list s\<rparr> = s" using MessageQ_get_waiting [OF l Cons] by blast
    note S = same_but_list [OF s'(4)]
    have "mq_box E C qid obj ob P pend s' (snd (mail_receive NULL q))"
      by (rule mq_box_intro [OF b S(1,2)]) (use s'(2) S(3) B(3) in simp_all)
    then show ?thesis using s'(1,3) by (simp add: mq_take_def)
  next
    case Nil
    then have q: "q = ([], [])" by (cases q) (simp add: mail_waiting_def)
    obtain st s' where s': "MessageQ_get E (Suc (pend (qs_calls s))) obj timeout s = Ok (st, NULL, s')"
      "li_elem (qs_list s') = li_elem (qs_list s)" "qs_obj s' = qs_obj s" "qs_mod s' = qs_mod s"
      "qs_msg s' = qs_msg s"
      using MessageQ_get_nothing [of E s obj pend "Suc (pend (qs_calls s))" timeout] l B(3,6) q by auto
    have "mq_lists ob (qs_list s') ([], [])" using B(4) q mq_lists_same [OF s'(2)] by simp
    then have "mq_box E C qid obj ob P pend s' ([], [])"
      by (rule mq_box_intro [OF b s'(3,4), rotated]) (simp add: s'(5))
    then show ?thesis using s'(1) q by (simp add: mq_take_def)
  qed
qed

interpretation mq: mailbox "mq_box E C qid obj ob P pend" "mq_fit ob" P NULL MessageQ_S_SUCCESS
  "MessageQ_put E C qid" "mq_take E pend obj timeout"
proof
  fix s q m
  show "mq_box E C qid obj ob P pend s q \<Longrightarrow> mq_fit ob m \<Longrightarrow> m \<notin> set (mail_waiting q) \<Longrightarrow>
      \<exists>s'. MessageQ_put E C qid m s = Ok (MessageQ_S_SUCCESS, s') \<and>
        mq_box E C qid obj ob P pend s' (mail_send (P m) m q)"
    by (rule mq_box_send)
  show "mq_box E C qid obj ob P pend s q \<Longrightarrow>
      \<exists>s'. mq_take E pend obj timeout s = Ok (fst (mail_receive NULL q), s') \<and>
        mq_box E C qid obj ob P pend s' (snd (mail_receive NULL q))"
    by (rule mq_box_receive)
  assume "mq_box E C qid obj ob P pend s q" and m: "m \<in> set (mail_waiting q)"
  then have l: "mq_lists ob (qs_list s) q" by (simp add: mq_box_def)
  then show "mq_fit ob m"
    using m list_ring_parts(2,3) [of "mq_highList ob" "qs_list s" "fst q"]
      list_ring_parts(2,3) [of "mq_normalList ob" "qs_list s" "snd q"]
    by (auto simp: mq_fit_def mq_lists_def mail_waiting_def)
qed (simp add: mq_fit_def)

section \<open>Counting\<close>

lemma count_loop_ring:
  assumes "list_ring h l (us @ vs)" and "length vs < fuel"
  shows "MessageQ_count_loop h fuel (list_pos h (left_of h us)) k l = Ok (k + length vs)"
  using assms
proof (induction vs arbitrary: us fuel k)
  case Nil
  then obtain n where n: "fuel = Suc n" by (cases fuel) auto
  show ?case
    using List_next_ring [OF Nil(1)] n
    by (subst MessageQ_count_loop.simps) (simp add: list_pos_def)
next
  case (Cons v vs)
  then obtain n where n: "fuel = Suc n" by (cases fuel) auto
  have "v \<noteq> h" "v \<noteq> NULL" using list_ring_parts(2,3) [OF Cons.prems(1)] by auto
  then have "List_next h (list_pos h (left_of h us)) l = Ok v" "list_pos h (left_of h (us @ [v])) = v"
    using List_next_ring [OF Cons.prems(1)] by (simp_all add: list_pos_def)
  moreover have "MessageQ_count_loop h n (list_pos h (left_of h (us @ [v]))) (k + 1) l =
      Ok (k + 1 + length vs)"
    using Cons n by (intro Cons.IH) simp_all
  ultimately show ?case
    using n \<open>v \<noteq> NULL\<close> by (subst MessageQ_count_loop.simps) simp
qed

lemma MessageQ_count_waiting:
  assumes "mq_lists (qs_obj s obj) (qs_list s) q" and "length (mail_waiting q) < fuel"
  shows "MessageQ_count fuel obj s = Ok (length (mail_waiting q))"
  using count_loop_ring [of "mq_highList (qs_obj s obj)" "qs_list s" "[]" "fst q" fuel 0]
    count_loop_ring [of "mq_normalList (qs_obj s obj)" "qs_list s" "[]" "snd q" fuel "length (fst q)"] assms
  by (simp add: MessageQ_count_def mq_lists_def mail_waiting_def list_pos_def)

end
