(* ===== verification/MessageQ_Table.thy ===== *)
theory MessageQ_Table
imports MessageQ
begin

text \<open>
  The table of queues of \<open>ti/sdo/ipc/MessageQ.c\<close>: the ids it hands out, its growth, and what
  creating and deleting a queue does to it.
\<close>

section \<open>The table of queues\<close>

text \<open>
  Every queue in the table has the id of its slot, and every other slot is free. Slots are few
  enough for the ids to be told apart from the invalid one.
\<close>

definition mq_slot_id :: "MessageQ_config \<Rightarrow> nat \<Rightarrow> u32" where
  "mq_slot_id C i = MessageQ_openQueueId (of_nat i) (qc_self C)"

definition mq_table :: "MessageQ_config \<Rightarrow> mq_state \<Rightarrow> bool" where
  "mq_table C s \<longleftrightarrow>
     length (qm_queues (qs_mod s)) = unat (qm_numQueues (qs_mod s)) \<and>
     (\<forall>i < length (qm_queues (qs_mod s)). qm_queues (qs_mod s) ! i \<noteq> NULL \<longrightarrow>
        mq_queue (qs_obj s (qm_queues (qs_mod s) ! i)) = mq_slot_id C i) \<and>
     (\<forall>i < length (qm_queues (qs_mod s)). \<forall>j < length (qm_queues (qs_mod s)).
        qm_queues (qs_mod s) ! i = qm_queues (qs_mod s) ! j \<longrightarrow> qm_queues (qs_mod s) ! i \<noteq> NULL \<longrightarrow> i = j)"

lemma mq_slot_id_parts:
  assumes "i < 2 ^ 16"
  shows "unat (MessageQ_getQueueIndex (mq_slot_id C i)) = i"
    and "MessageQ_getProcId (mq_slot_id C i) = qc_self C"
  using assms by (simp_all add: mq_slot_id_def unat_of_nat_small)

lemma find_slot_Some:
  assumes "MessageQ_find_slot qs i n = Ok (Some k)"
  shows "i \<le> k \<and> k < n \<and> k < length qs \<and> qs ! k = NULL"
  using assms
proof (induction qs i n rule: MessageQ_find_slot.induct)
  case (1 qs i n)
  note step = 1(2) [unfolded MessageQ_find_slot.simps [of qs i n]]
  then have i: "i < n" "i < length qs" by (auto simp: arr_get_def split: if_splits)
  show ?case
  proof (cases "qs ! i = NULL")
    case True
    then show ?thesis using step i by simp
  next
    case False
    then show ?thesis using step i 1(1) [of "qs ! i"] by simp
  qed
qed

lemma find_slot_total:
  assumes "n \<le> length qs"
  shows "(\<exists>k. MessageQ_find_slot qs i n = Ok (Some k)) \<or>
    MessageQ_find_slot qs i n = Ok None \<and> (\<forall>k. i \<le> k \<and> k < n \<longrightarrow> qs ! k \<noteq> NULL)"
  using assms
proof (induction qs i n rule: MessageQ_find_slot.induct)
  case (1 qs i n)
  note step = MessageQ_find_slot.simps [of qs i n]
  show ?case
  proof (cases "i < n \<and> qs ! i \<noteq> NULL")
    case True
    then have "(\<exists>k. MessageQ_find_slot qs (Suc i) n = Ok (Some k)) \<or>
      MessageQ_find_slot qs (Suc i) n = Ok None \<and> (\<forall>k. Suc i \<le> k \<and> k < n \<longrightarrow> qs ! k \<noteq> NULL)"
      using 1 by blast
    moreover have "qs ! k \<noteq> NULL" if "i \<le> k" "k < n" "\<forall>k. Suc i \<le> k \<and> k < n \<longrightarrow> qs ! k \<noteq> NULL" for k
      using that True by (cases "k = i") auto
    moreover have "MessageQ_find_slot qs i n = MessageQ_find_slot qs (Suc i) n"
      using step True 1(2) by simp
    ultimately show ?thesis by auto
  next
    case False
    then show ?thesis using step 1(2) by auto
  qed
qed

lemma grow_bytes:
  "unat (n * 4) div 4 = unat n mod 0x4000" for n :: u16
proof -
  have "unat (n * 4) = unat n * 4 mod 0x10000"
    by (simp add: unat_word_ariths)
  also have "\<dots> = (unat n mod 0x4000) * 4" by (simp add: mult_mod_left)
  finally show ?thesis by simp
qed

text \<open>Growing keeps the table and adds the queue at its end, as long as its size fits 16 bits.\<close>

lemma MessageQ_grow_appends:
  assumes "length (qm_queues (qs_mod s)) = unat (qm_numQueues (qs_mod s))"
    and "qm_numQueues (qs_mod s) < 0x4000"
    and "me_alloc E h (ucast (qm_numQueues (qs_mod s) * of_nat sizeof_MessageQ_Handle) +
           of_nat sizeof_MessageQ_Handle) \<noteq> NULL"
  shows "\<exists>s'. MessageQ_grow E h junk obj s = Ok (qm_numQueues (qs_mod s), s') \<and>
    qm_queues (qs_mod s') = qm_queues (qs_mod s) @ [obj] \<and>
    qm_numQueues (qs_mod s') = qm_numQueues (qs_mod s) + 1 \<and>
    qm_regTrans (qs_mod s') = qm_regTrans (qs_mod s) \<and>
    qs_obj s' = qs_obj s \<and> qs_list s' = qs_list s \<and> qs_msg s' = qs_msg s"
proof -
  have n: "unat (qm_numQueues (qs_mod s)) mod 0x4000 = unat (qm_numQueues (qs_mod s))"
    using assms(2) by (simp add: word_less_nat_alt)
  have "arr_set (take (unat (qm_numQueues (qs_mod s))) (qm_queues (qs_mod s)) @ [junk])
      (unat (qm_numQueues (qs_mod s))) obj = Ok (qm_queues (qs_mod s) @ [obj])"
    using assms(1) by (simp add: list_update_append)
  then show ?thesis
    using assms(3) by (simp add: MessageQ_grow_def Let_def grow_bytes n)
qed

text \<open>From 16384 queues on, the size in bytes wraps and the new array is too small.\<close>

lemma MessageQ_grow_overruns:
  assumes "0x4000 \<le> qm_numQueues (qs_mod s)"
    and "me_alloc E h (ucast (qm_numQueues (qs_mod s) * of_nat sizeof_MessageQ_Handle) +
           of_nat sizeof_MessageQ_Handle) \<noteq> NULL"
  shows "MessageQ_grow E h junk obj s = Err Bad_access"
proof -
  have "unat (qm_numQueues (qs_mod s)) mod 0x4000 < 0x4000" by simp
  moreover have "0x4000 \<le> unat (qm_numQueues (qs_mod s))"
    using assms(1) by (simp add: word_le_nat_alt)
  ultimately show ?thesis
    using assms(2) by (simp add: MessageQ_grow_def Let_def grow_bytes arr_set_def)
qed

text \<open>
  The slot a queue gets was free, and nothing else changes; a failure changes nothing, unless the
  table cannot be allocated.
\<close>

definition slot_taken :: "ptr \<Rightarrow> mq_state \<Rightarrow> u16 \<Rightarrow> mq_state \<Rightarrow> bool" where
  "slot_taken obj s k s1 \<longleftrightarrow>
     qs_obj s1 = qs_obj s \<and> qs_list s1 = qs_list s \<and> qs_msg s1 = qs_msg s \<and>
     qm_regTrans (qs_mod s1) = qm_regTrans (qs_mod s) \<and>
     (k < qm_numQueues (qs_mod s) \<and> qm_queues (qs_mod s) ! unat k = NULL \<and>
      qm_numQueues (qs_mod s1) = qm_numQueues (qs_mod s) \<and>
      qm_queues (qs_mod s1) = (qm_queues (qs_mod s))[unat k := obj] \<or>
      k = qm_numQueues (qs_mod s) \<and> qm_numQueues (qs_mod s1) = qm_numQueues (qs_mod s) + 1 \<and>
      unat k + 1 < 2 ^ 16 \<and> qm_queues (qs_mod s1) = qm_queues (qs_mod s) @ [obj])"

lemma MessageQ_take_slot_free:
  assumes "length (qm_queues (qs_mod s)) = unat (qm_numQueues (qs_mod s))"
    and "mp_queueIndex params = MessageQ_ANY"
    and "unat (qc_numReservedEntries C) \<le> k" and "k < unat (qm_numQueues (qs_mod s))"
    and "qm_queues (qs_mod s) ! k = NULL"
  shows "\<exists>k' s1. MessageQ_take_slot E C h junk obj params s = Ok (Inr k', s1) \<and>
    slot_taken obj s k' s1 \<and> k' < qm_numQueues (qs_mod s)"
proof -
  have "unat (qc_numReservedEntries C) < 2 ^ 16"
    using assms(3,4) unat_below [of "qm_numQueues (qs_mod s)"] by simp
  then have "unat (mq_start C) = unat (qc_numReservedEntries C)"
    by (simp add: mq_start_def unsigned_ucast_eq take_bit_nat_eq_self)
  then obtain i where i: "MessageQ_find_slot (qm_queues (qs_mod s)) (unat (mq_start C))
      (unat (qm_numQueues (qs_mod s))) = Ok (Some i)"
    using find_slot_total [of "unat (qm_numQueues (qs_mod s))" "qm_queues (qs_mod s)"
        "unat (mq_start C)"] assms by auto
  have b: "i < unat (qm_numQueues (qs_mod s))" "qm_queues (qs_mod s) ! i = NULL"
    using find_slot_Some [OF i] by auto
  then have w: "unat (of_nat i :: u16) = i"
    using unat_below [of "qm_numQueues (qs_mod s)"] by (intro unat_of_nat_small) simp
  show ?thesis
    using i b assms(2) w
    by (intro exI [of _ "of_nat i"] exI [of _ "upd_mod (\<lambda>m. m\<lparr>qm_queues := (qm_queues m)[i := obj]\<rparr>) s"])
      (simp add: MessageQ_take_slot_def slot_taken_def word_less_nat_alt)
qed

lemma MessageQ_take_slot_grow:
  assumes "length (qm_queues (qs_mod s)) = unat (qm_numQueues (qs_mod s))"
    and "mp_queueIndex params = MessageQ_ANY"
    and "\<And>k. unat (mq_start C) \<le> k \<Longrightarrow> k < unat (qm_numQueues (qs_mod s)) \<Longrightarrow>
      qm_queues (qs_mod s) ! k \<noteq> NULL"
  shows "qc_maxRuntimeEntries C \<noteq> NameServer_ALLOWGROWTH \<Longrightarrow>
      MessageQ_take_slot E C h junk obj params s = Ok (Inl 1, s)"
    and "qc_maxRuntimeEntries C = NameServer_ALLOWGROWTH \<Longrightarrow> qm_numQueues (qs_mod s) < 0x4000 \<Longrightarrow>
      me_alloc E h (ucast (qm_numQueues (qs_mod s) * of_nat sizeof_MessageQ_Handle) +
           of_nat sizeof_MessageQ_Handle) \<noteq> NULL \<Longrightarrow>
      \<exists>s1. MessageQ_take_slot E C h junk obj params s = Ok (Inr (qm_numQueues (qs_mod s)), s1) \<and>
        slot_taken obj s (qm_numQueues (qs_mod s)) s1"
proof -
  have none: "MessageQ_find_slot (qm_queues (qs_mod s)) (unat (mq_start C))
      (unat (qm_numQueues (qs_mod s))) = Ok None"
    using find_slot_total [of "unat (qm_numQueues (qs_mod s))" "qm_queues (qs_mod s)"
        "unat (mq_start C)"] find_slot_Some assms(1,3) by (metis order_refl)
  then show "qc_maxRuntimeEntries C \<noteq> NameServer_ALLOWGROWTH \<Longrightarrow>
      MessageQ_take_slot E C h junk obj params s = Ok (Inl 1, s)"
    using assms(2) by (simp add: MessageQ_take_slot_def)
  assume g: "qc_maxRuntimeEntries C = NameServer_ALLOWGROWTH" "qm_numQueues (qs_mod s) < 0x4000"
    "me_alloc E h (ucast (qm_numQueues (qs_mod s) * of_nat sizeof_MessageQ_Handle) +
           of_nat sizeof_MessageQ_Handle) \<noteq> NULL"
  obtain s1 where s1: "MessageQ_grow E h junk obj s = Ok (qm_numQueues (qs_mod s), s1)"
    "qm_queues (qs_mod s1) = qm_queues (qs_mod s) @ [obj]"
    "qm_numQueues (qs_mod s1) = qm_numQueues (qs_mod s) + 1"
    "qm_regTrans (qs_mod s1) = qm_regTrans (qs_mod s)"
    "qs_obj s1 = qs_obj s" "qs_list s1 = qs_list s" "qs_msg s1 = qs_msg s"
    using MessageQ_grow_appends [OF assms(1) g(2,3)] by blast
  have "qm_numQueues (qs_mod s) \<noteq> MessageQ_INVALIDMESSAGEQ"
    using g(2) by (auto simp: MessageQ_INVALIDMESSAGEQ_def)
  then have "MessageQ_take_slot E C h junk obj params s = Ok (Inr (qm_numQueues (qs_mod s)), s1)"
    using none assms(2) g(1) s1(1) by (simp add: MessageQ_take_slot_def)
  moreover have "slot_taken obj s (qm_numQueues (qs_mod s)) s1"
    using s1 g(2) by (simp add: slot_taken_def word_less_nat_alt)
  ultimately show "\<exists>s1. MessageQ_take_slot E C h junk obj params s = Ok (Inr (qm_numQueues (qs_mod s)), s1) \<and>
        slot_taken obj s (qm_numQueues (qs_mod s)) s1" by blast
qed

text \<open>A reserved index is refused when it is not one, or taken.\<close>

lemma MessageQ_take_slot_reserved:
  assumes "mp_queueIndex params \<noteq> MessageQ_ANY"
    and "length (qm_queues (qs_mod s)) = unat (qm_numQueues (qs_mod s))"
    and "qc_numReservedEntries C \<le> ucast (qm_numQueues (qs_mod s))"
  shows "if ucast (mp_queueIndex params) < qc_numReservedEntries C \<and>
           qm_queues (qs_mod s) ! unat (mp_queueIndex params) = NULL
         then \<exists>s1. MessageQ_take_slot E C h junk obj params s = Ok (Inr (mp_queueIndex params), s1) \<and>
           slot_taken obj s (mp_queueIndex params) s1
         else MessageQ_take_slot E C h junk obj params s = Ok (Inl 5, s)"
proof -
  have "ucast (mp_queueIndex params) < qc_numReservedEntries C \<Longrightarrow>
      unat (mp_queueIndex params) < length (qm_queues (qs_mod s)) \<and>
      mp_queueIndex params < qm_numQueues (qs_mod s)"
    using assms(2,3) unat_below [of "mp_queueIndex params"] unat_below [of "qm_numQueues (qs_mod s)"]
    by (simp add: word_less_nat_alt word_le_nat_alt unsigned_ucast_eq take_bit_nat_eq_self)
  then show ?thesis
    using assms(1) by (auto simp: MessageQ_take_slot_def slot_taken_def Let_def not_less [symmetric])
qed

section \<open>Creating and deleting queues\<close>

text \<open>The registered transports can be bound to any queue.\<close>

definition mq_binds :: "mq_env \<Rightarrow> RegisteredTransport list \<Rightarrow> nat list \<Rightarrow> bool" where
  "mq_binds E rs tids \<longleftrightarrow> (\<forall>tid \<in> set tids. tid < length rs \<and>
     (rt_transport (rs ! tid) \<noteq> NULL \<longrightarrow>
        rt_type (rs ! tid) = TransportType_INetworkTransport \<and>
        me_downCast E (rt_transport (rs ! tid)) \<noteq> NULL \<and>
        (\<forall>q. me_bind E (me_downCast E (rt_transport (rs ! tid))) q)))"

definition only_calls :: "mq_state \<Rightarrow> mq_state \<Rightarrow> bool" where
  "only_calls s s' \<longleftrightarrow> qs_list s' = qs_list s \<and> qs_msg s' = qs_msg s \<and> qs_obj s' = qs_obj s \<and>
     qs_mod s' = qs_mod s"

lemma bind_loop_ok:
  assumes "mq_binds E rs tids"
  shows "\<exists>s'. MessageQ_bind_loop E rs q tids st s = Ok (True, s') \<and> only_calls s s'"
  using assms
proof (induction tids arbitrary: st s)
  case Nil
  then show ?case by (simp add: only_calls_def)
next
  case (Cons tid tids)
  then have t: "tid < length rs" "mq_binds E rs tids" by (simp_all add: mq_binds_def)
  show ?case
  proof (cases "rt_transport (rs ! tid) = NULL")
    case True
    then show ?thesis using Cons.IH [OF t(2)] t(1) by simp
  next
    case False
    let ?n = "me_downCast E (rt_transport (rs ! tid))"
    have "rt_type (rs ! tid) = TransportType_INetworkTransport" "?n \<noteq> NULL" "me_bind E ?n q"
      using Cons.prems False by (simp_all add: mq_binds_def)
    then show ?thesis
      using Cons.IH [OF t(2), of MessageQ_S_SUCCESS "mq_call (Net_bind ?n q) s"] t(1) False
      by (auto simp: only_calls_def)
  qed
qed

lemma unbind_loop_ok:
  assumes "\<forall>tid \<in> set tids. tid < length rs"
  shows "\<exists>s'. MessageQ_unbind_loop E rs q tids s = Ok s' \<and> only_calls s s'"
  using assms
proof (induction tids arbitrary: s)
  case (Cons tid tids)
  then show ?case
    using Cons.IH [of s] Cons.IH [of "mq_call (Net_unbind (me_downCast E (rt_transport (rs ! tid))) q) s"]
    by (auto simp: only_calls_def Let_def split: TransportType.split)
qed (simp add: only_calls_def)

lemma mq_slot_id_word: "mq_slot_id C (unat k) = push_bit 16 (ucast (qc_self C)) OR ucast (k + MessageQ_PORTOFFSET)"
  by (simp add: mq_slot_id_def MessageQ_openQueueId_def Let_def)

lemma MessageQ_setup_ok:
  assumes heads: "mq_normalList (qs_obj s obj) \<noteq> NULL" "mq_highList (qs_obj s obj) \<noteq> NULL"
      "mq_highList (qs_obj s obj) \<noteq> mq_normalList (qs_obj s obj)"
    and bind: "mq_binds E (qm_regTrans (qs_mod s)) [1, 2, 3, 4, 5, 6, 7]"
    and named: "\<And>nm. name = Some nm \<Longrightarrow> me_nsAdd E nm (mq_slot_id C (unat k)) \<noteq> NULL"
  shows "\<exists>s'. MessageQ_setup E C obj name k s = Ok (0, s') \<and> qs_mod s' = qs_mod s \<and>
    qs_msg s' = qs_msg s \<and> (\<forall>a. a \<noteq> obj \<longrightarrow> qs_obj s' a = qs_obj s a) \<and>
    mq_queue (qs_obj s' obj) = mq_slot_id C (unat k) \<and> \<not> mq_unblocked (qs_obj s' obj) \<and>
    mq_lists (qs_obj s' obj) (qs_list s') ([], []) \<and>
    list_frame {mq_normalList (qs_obj s obj), mq_highList (qs_obj s obj)} (qs_list s) (qs_list s')"
proof -
  let ?n = "mq_normalList (qs_obj s obj)" and ?h = "mq_highList (qs_obj s obj)"
  obtain l4 where l4: "List_Instance_init ?n (qs_list s) = Ok l4" "list_ring ?n l4 []"
    "list_frame {?n} (qs_list s) l4" using List_Instance_init_ring [OF heads(1)] by blast
  obtain l5 where l5: "List_Instance_init ?h l4 = Ok l5" "list_ring ?h l5 []" "list_frame {?h} l4 l5"
    using List_Instance_init_ring [OF heads(2)] by blast
  have n5: "list_ring ?n l5 []" by (rule list_ring_frame [OF l5(3) l4(2)]) (use heads(3) in simp)
  have fr: "list_frame {?n, ?h} (qs_list s) l5" using l4(3) l5(3) by (auto simp: list_frame_def)
  define q where "q = mq_slot_id C (unat k)"
  define s6 where "s6 = upd_obj obj (\<lambda>o'. o'\<lparr>mq_queue := q, mq_unblocked := False\<rparr>) (s\<lparr>qs_list := l5\<rparr>)"
  define s7 where "s7 = (case name of None \<Rightarrow> s6
     | Some nm \<Rightarrow> upd_obj obj (\<lambda>o'. o'\<lparr>mq_nsKey := me_nsAdd E nm q\<rparr>) s6)"
  have s7: "qs_mod s7 = qs_mod s" "qs_msg s7 = qs_msg s" "qs_list s7 = l5"
    "\<forall>a. a \<noteq> obj \<longrightarrow> qs_obj s7 a = qs_obj s a" "mq_queue (qs_obj s7 obj) = q"
    "\<not> mq_unblocked (qs_obj s7 obj)" "mq_normalList (qs_obj s7 obj) = ?n" "mq_highList (qs_obj s7 obj) = ?h"
    by (auto simp: s7_def s6_def split: option.split)
  have key: "\<not> (name \<noteq> None \<and> mq_nsKey (qs_obj s7 obj) = NULL)"
    using named by (auto simp: s7_def s6_def q_def)
  obtain s8 where s8: "MessageQ_bind_loop E (qm_regTrans (qs_mod s7)) q [1, 2, 3, 4, 5, 6, 7] MessageQ_E_FAIL s7 =
      Ok (True, s8)" "only_calls s7 s8"
    using bind_loop_ok [OF bind, of q MessageQ_E_FAIL s7] s7(1) by auto
  have q: "push_bit 16 (ucast (qc_self C)) OR ucast (k + MessageQ_PORTOFFSET) = q"
    by (simp add: q_def mq_slot_id_word)
  have s6q: "mq_queue (qs_obj s6 obj) = q" by (simp add: s6_def)
  have "MessageQ_setup E C obj name k s = Ok (0, s8)"
    unfolding MessageQ_setup_def l4(1) res_bind_simps l5(1) Let_def q s6_def [symmetric] s6q
      s7_def [symmetric] s7(5)
    using key s8(1) by (simp del: MessageQ_bind_loop.simps)
  moreover have "mq_lists (qs_obj s8 obj) (qs_list s8) ([], [])"
    using s8(2) s7 n5 l5(2) heads(3) by (simp add: mq_lists_def only_calls_def)
  ultimately show ?thesis
    using s8(2) s7 fr q_def by (simp add: only_calls_def)
qed

text \<open>A queue on which no other relies: not in the table, its list heads used by none.\<close>

definition mq_fresh :: "ptr \<Rightarrow> mq_state \<Rightarrow> bool" where
  "mq_fresh obj s \<longleftrightarrow> obj \<noteq> NULL \<and> obj \<notin> set (qm_queues (qs_mod s)) \<and>
     mq_normalList (qs_obj s obj) \<noteq> NULL \<and> mq_highList (qs_obj s obj) \<noteq> NULL \<and>
     mq_highList (qs_obj s obj) \<noteq> mq_normalList (qs_obj s obj)"

lemma mq_tableI:
  assumes "length qs = unat (qm_numQueues (qs_mod s))" and "qm_queues (qs_mod s) = qs"
    and "\<And>i. i < length qs \<Longrightarrow> qs ! i \<noteq> NULL \<Longrightarrow> mq_queue (qs_obj s (qs ! i)) = mq_slot_id C i"
  shows "mq_table C s"
proof -
  have lim: "i < 2 ^ 16" if "i < length qs" for i
    using that assms(1) unat_below [of "qm_numQueues (qs_mod s)"] by simp
  have "i = j" if "i < length qs" "j < length qs" "qs ! i = qs ! j" "qs ! i \<noteq> NULL" for i j
  proof -
    have "mq_slot_id C i = mq_slot_id C j" using assms(3) that by metis
    then show ?thesis
      using mq_slot_id_parts(1) [OF lim [OF that(1)]] mq_slot_id_parts(1) [OF lim [OF that(2)]] by metis
  qed
  then show ?thesis using assms by (simp add: mq_table_def)
qed

lemma mq_table_slot:
  assumes t: "mq_table C s" and f: "obj \<notin> set (qm_queues (qs_mod s))" and k: "slot_taken obj s k s1"
    and m: "qs_mod s2 = qs_mod s1" and o2: "\<And>a. a \<noteq> obj \<Longrightarrow> qs_obj s2 a = qs_obj s a"
    and q: "mq_queue (qs_obj s2 obj) = mq_slot_id C (unat k)"
  shows "mq_table C s2"
proof -
  have T: "length (qm_queues (qs_mod s)) = unat (qm_numQueues (qs_mod s))"
    "\<And>i. i < length (qm_queues (qs_mod s)) \<Longrightarrow> qm_queues (qs_mod s) ! i \<noteq> NULL \<Longrightarrow>
      mq_queue (qs_obj s (qm_queues (qs_mod s) ! i)) = mq_slot_id C i"
    using t by (auto simp: mq_table_def)
  have old: "mq_queue (qs_obj s2 (qm_queues (qs_mod s) ! i)) = mq_slot_id C i"
    if "i < length (qm_queues (qs_mod s))" "qm_queues (qs_mod s) ! i \<noteq> NULL" for i
  proof -
    have "qm_queues (qs_mod s) ! i \<noteq> obj" using f that(1) by (metis nth_mem)
    then show ?thesis using o2 T(2) that by simp
  qed
  consider "unat k < length (qm_queues (qs_mod s))" "qm_numQueues (qs_mod s1) = qm_numQueues (qs_mod s)"
      "qm_queues (qs_mod s1) = (qm_queues (qs_mod s))[unat k := obj]"
    | "unat k = length (qm_queues (qs_mod s))" "unat (qm_numQueues (qs_mod s1)) = Suc (unat k)"
      "qm_queues (qs_mod s1) = qm_queues (qs_mod s) @ [obj]"
    using k T(1) unfolding slot_taken_def
    by (auto simp: word_less_nat_alt unat_word_ariths)
  then show ?thesis
  proof cases
    case 1
    then show ?thesis
      using T(1) old q by (intro mq_tableI [OF _ refl]) (auto simp: m nth_list_update split: if_splits)
  next
    case 2
    then show ?thesis
      using T(1) old q by (intro mq_tableI [OF _ refl]) (auto simp: m nth_append less_Suc_eq)
  qed
qed

text \<open>
  Once a slot is taken the rest of \<open>Instance_init\<close> cannot fail, given a synchronizer, transports
  that bind and a name server that has room.
\<close>

lemma MessageQ_Instance_init_ok:
  assumes t: "mq_table C s" and f: "mq_fresh obj s"
    and slot: "MessageQ_take_slot E C h junk obj params (mq_call MGate_enter s) = Ok (Inr k, s1)"
      "slot_taken obj (mq_call MGate_enter s) k s1"
    and sync: "mp_synchronizer params \<noteq> NULL \<or> me_semCreate E \<noteq> NULL"
    and bind: "mq_binds E (qm_regTrans (qs_mod s)) [1, 2, 3, 4, 5, 6, 7]"
    and named: "\<And>nm. name = Some nm \<Longrightarrow> me_nsAdd E nm (mq_slot_id C (unat k)) \<noteq> NULL"
  shows "\<exists>s'. MessageQ_Instance_init E C h junk obj name params s = Ok (0, s') \<and> mq_table C s' \<and>
    qm_queues (qs_mod s') = qm_queues (qs_mod s1) \<and> qm_numQueues (qs_mod s') = qm_numQueues (qs_mod s1) \<and>
    qm_regTrans (qs_mod s') = qm_regTrans (qs_mod s) \<and>
    mq_queue (qs_obj s' obj) = mq_slot_id C (unat k) \<and>
    mq_lists (qs_obj s' obj) (qs_list s') ([], []) \<and>
    (\<forall>a. a \<noteq> obj \<longrightarrow> qs_obj s' a = qs_obj s a) \<and>
    list_frame {mq_normalList (qs_obj s obj), mq_highList (qs_obj s obj)} (qs_list s) (qs_list s')"
proof -
  define s2 where "s2 = mq_call MGate_leave
     (if mp_synchronizer params = NULL
      then upd_obj obj (\<lambda>q. q\<lparr>mq_syncSemHandle := me_semCreate E, mq_synchronizer := me_semCreate E\<rparr>) s1
      else upd_obj obj (\<lambda>q. q\<lparr>mq_syncSemHandle := NULL, mq_synchronizer := mp_synchronizer params\<rparr>) s1)"
  have S1: "qs_obj s1 = qs_obj s" "qs_list s1 = qs_list s" "qm_regTrans (qs_mod s1) = qm_regTrans (qs_mod s)"
    using slot(2) by (simp_all add: slot_taken_def)
  have s2: "qs_mod s2 = qs_mod s1" "qs_list s2 = qs_list s1" "\<And>a. a \<noteq> obj \<Longrightarrow> qs_obj s2 a = qs_obj s1 a"
    "mq_normalList (qs_obj s2 obj) = mq_normalList (qs_obj s obj)"
    "mq_highList (qs_obj s2 obj) = mq_highList (qs_obj s obj)"
    by (auto simp: s2_def S1)
  have F: "mq_normalList (qs_obj s2 obj) \<noteq> NULL" "mq_highList (qs_obj s2 obj) \<noteq> NULL"
    "mq_highList (qs_obj s2 obj) \<noteq> mq_normalList (qs_obj s2 obj)"
    using f by (simp_all add: mq_fresh_def s2)
  have bind2: "mq_binds E (qm_regTrans (qs_mod s2)) [1, 2, 3, 4, 5, 6, 7]"
    using bind by (simp add: s2 S1)
  obtain s' where s': "MessageQ_setup E C obj name k s2 = Ok (0, s')" "qs_mod s' = qs_mod s2"
    "\<forall>a. a \<noteq> obj \<longrightarrow> qs_obj s' a = qs_obj s2 a" "mq_queue (qs_obj s' obj) = mq_slot_id C (unat k)"
    "mq_lists (qs_obj s' obj) (qs_list s') ([], [])"
    "list_frame {mq_normalList (qs_obj s2 obj), mq_highList (qs_obj s2 obj)} (qs_list s2) (qs_list s')"
    using MessageQ_setup_ok [OF F bind2 named] by blast
  have "MessageQ_Instance_init E C h junk obj name params s = Ok (0, s')"
    using slot(1) sync s'(1)
    by (simp add: MessageQ_Instance_init_def Let_def s2_def [symmetric])
  moreover have "mq_table C s'"
    by (rule mq_table_slot [of C "mq_call MGate_enter s" obj k s1])
      (use t f slot(2) s' s2 S1 in \<open>auto simp: mq_table_def mq_fresh_def\<close>)
  ultimately show ?thesis using s' s2 S1 by simp
qed

lemma MessageQ_Instance_finalize_ok:
  assumes t: "mq_table C s" and k: "k < length (qm_queues (qs_mod s))" "qm_queues (qs_mod s) ! k = obj"
    "obj \<noteq> NULL" and r: "length (qm_regTrans (qs_mod s)) = 8"
  shows "\<exists>s'. MessageQ_Instance_finalize E obj 0 s = Ok s' \<and> mq_table C s' \<and>
    qm_queues (qs_mod s') = (qm_queues (qs_mod s))[k := NULL] \<and>
    qs_list s' = qs_list s \<and> (\<forall>a. a \<noteq> obj \<longrightarrow> qs_obj s' a = qs_obj s a)"
proof -
  have T: "length (qm_queues (qs_mod s)) = unat (qm_numQueues (qs_mod s))"
    "mq_queue (qs_obj s obj) = mq_slot_id C k"
    using t k by (auto simp: mq_table_def)
  have lim: "k < 2 ^ 16" using k(1) T(1) unat_below [of "qm_numQueues (qs_mod s)"] by simp
  obtain s1 where s1: "MessageQ_unbind_loop E (qm_regTrans (qs_mod s)) (mq_queue (qs_obj s obj))
      [1, 2, 3, 4, 5, 6, 7] s = Ok s1" "only_calls s s1"
    using unbind_loop_ok [of "[1, 2, 3, 4, 5, 6, 7]" "qm_regTrans (qs_mod s)" E "mq_queue (qs_obj s obj)" s] r
    by auto
  define s2 where "s2 = (if mq_syncSemHandle (qs_obj s1 obj) \<noteq> NULL
      then upd_obj obj (\<lambda>q. q\<lparr>mq_syncSemHandle := NULL\<rparr>) (mq_call (Sem_delete (mq_syncSemHandle (qs_obj s1 obj))) s1)
      else s1)"
  have s2: "qs_mod s2 = qs_mod s" "qs_list s2 = qs_list s" "\<And>a. a \<noteq> obj \<Longrightarrow> qs_obj s2 a = qs_obj s a"
    "mq_queue (qs_obj s2 obj) = mq_slot_id C k" "\<And>a. mq_queue (qs_obj s2 a) = mq_queue (qs_obj s a)"
    using s1(2) T(2) by (auto simp: s2_def only_calls_def)
  define s4 where "s4 = mq_call MGate_leave (upd_mod (\<lambda>m. m\<lparr>qm_queues := (qm_queues (qs_mod s))[k := NULL]\<rparr>)
      (mq_call MGate_enter s2))"
  have "unat (MessageQ_getQueueIndex (mq_queue (qs_obj s2 obj))) = k"
    using mq_slot_id_parts(1) [OF lim] s2(4) by simp
  then have fin: "MessageQ_Instance_finalize E obj 0 s =
      Ok (if mq_nsKey (qs_obj s4 obj) \<noteq> NULL then mq_call (NS_remove (mq_nsKey (qs_obj s4 obj))) s4 else s4)"
    using s1(1) k(1) s2(1)
    by (simp add: MessageQ_Instance_finalize_def Let_def s2_def [symmetric] s4_def
        del: MessageQ_unbind_loop.simps)
  have "mq_table C s4"
    by (rule mq_tableI [OF _ refl])
      (use T(1) t s2 k(1) in \<open>auto simp: s4_def mq_table_def nth_list_update split: if_splits\<close>)
  then have "mq_table C (mq_call c s4)" for c by (simp add: mq_table_def)
  then show ?thesis
    using fin \<open>mq_table C s4\<close> s2 by (auto simp: s4_def)
qed

text \<open>
  When no semaphore can be made, the instance fails after it took a slot, but finalizing it works
  out the slot from an id that was never set: the fault is an access outside the table, or the
  wrong queue is taken out.
\<close>

lemma MessageQ_create_no_semaphore:
  assumes "MessageQ_take_slot E C h junk obj MessageQ_Params_init (mq_call MGate_enter s) = Ok (Inr k, s1)"
    and "slot_taken obj (mq_call MGate_enter s) k s1" and "me_semCreate E = NULL"
    and "mq_queue (qs_obj s obj) = 0" and "mq_syncSemHandle (qs_obj s obj) = NULL"
    and "length (qm_queues (qs_mod s1)) \<le> 0xFF80" and "length (qm_regTrans (qs_mod s)) = 8"
  shows "MessageQ_Instance_init E C h junk obj name MessageQ_Params_init s = Ok (3, mq_call MGate_leave s1)"
    and "MessageQ_create2 E C h junk obj name None s = Err Bad_access"
proof -
  show init: "MessageQ_Instance_init E C h junk obj name MessageQ_Params_init s = Ok (3, mq_call MGate_leave s1)"
    using assms(1,3) by (simp add: MessageQ_Instance_init_def MessageQ_Params_init_def)
  let ?s = "mq_call MGate_leave s1"
  have S1: "qs_obj s1 = qs_obj s" "qm_regTrans (qs_mod s1) = qm_regTrans (qs_mod s)"
    using assms(2) by (simp_all add: slot_taken_def)
  obtain s2 where s2: "MessageQ_unbind_loop E (qm_regTrans (qs_mod ?s)) (mq_queue (qs_obj ?s obj))
      [1, 2, 3, 4, 5, 6, 7] ?s = Ok s2" "only_calls ?s s2"
    using unbind_loop_ok [of "[1, 2, 3, 4, 5, 6, 7]" "qm_regTrans (qs_mod ?s)" E "mq_queue (qs_obj ?s obj)" ?s]
      assms(7) S1 by auto
  have idx: "unat (MessageQ_getQueueIndex 0) = 0xFF80"
    by (simp add: MessageQ_getQueueIndex_def MessageQ_PORTOFFSET_def)
  have "MessageQ_Instance_finalize E obj 3 ?s = Err Bad_access"
    using s2 S1 assms(4-6) idx
    by (simp add: MessageQ_Instance_finalize_def Let_def arr_set_def only_calls_def
        del: MessageQ_unbind_loop.simps)
  then show "MessageQ_create2 E C h junk obj name None s = Err Bad_access"
    using init by (simp add: MessageQ_create2_def MessageQ_instance_def)
qed

text \<open>
  Parameters of the old kind whose synchronizer lies in the upper half of the address space read
  as a negative version: the block is refused, or, without assertions, the synchronizer ignored.
\<close>

lemma MessageQ_create_legacy_high:
  assumes "0x80000000 \<le> pb_version p"
  shows "MessageQ_create E C h junk obj name (Some p) s =
    (if qc_asserts C then Err (Assertion A_unnamed)
     else MessageQ_create2 E C h junk obj name None s)"
proof -
  have "uint (pb_version p) div 2 ^ 31 = 1"
    using assms uint_bounded [of "pb_version p"] by (simp add: word_le_def)
  then have "bit (uint (pb_version p)) 31" by (simp add: bit_iff_odd)
  then have "sint (pb_version p) < 0" by (simp add: sint_uint signed_take_bit_negative_iff)
  then show ?thesis
    by (auto simp: MessageQ_create_def MessageQ_create2_def Assert_isTrue_def)
qed

text \<open>The whole life of a queue that takes a free slot.\<close>

lemma MessageQ_create_free:
  assumes t: "mq_table C s" and f: "mq_fresh obj s"
    and p: "mp_queueIndex params = MessageQ_ANY" "unat (qc_numReservedEntries C) \<le> k"
      "k < unat (qm_numQueues (qs_mod s))" "qm_queues (qs_mod s) ! k = NULL"
    and sync: "mp_synchronizer params \<noteq> NULL \<or> me_semCreate E \<noteq> NULL"
    and bind: "mq_binds E (qm_regTrans (qs_mod s)) [1, 2, 3, 4, 5, 6, 7]"
    and named: "\<And>nm i. name = Some nm \<Longrightarrow> me_nsAdd E nm i \<noteq> NULL"
  shows "\<exists>s' i. MessageQ_Instance_init E C h junk obj name params s = Ok (0, s') \<and> mq_table C s' \<and>
    i < length (qm_queues (qs_mod s)) \<and> qm_queues (qs_mod s) ! i = NULL \<and>
    qm_queues (qs_mod s') = (qm_queues (qs_mod s))[i := obj] \<and>
    mq_queue (qs_obj s' obj) = MessageQ_openQueueId (of_nat i) (qc_self C) \<and>
    mq_lists (qs_obj s' obj) (qs_list s') ([], []) \<and>
    qm_regTrans (qs_mod s') = qm_regTrans (qs_mod s)"
proof -
  have len: "length (qm_queues (qs_mod s)) = unat (qm_numQueues (qs_mod s))"
    using t by (simp add: mq_table_def)
  obtain k' s1 where s1: "MessageQ_take_slot E C h junk obj params (mq_call MGate_enter s) = Ok (Inr k', s1)"
    "slot_taken obj (mq_call MGate_enter s) k' s1" "k' < qm_numQueues (qs_mod s)"
    using MessageQ_take_slot_free [of "mq_call MGate_enter s" params C k E h junk obj] p len by auto
  have st: "qm_queues (qs_mod s) ! unat k' = NULL \<and> qm_queues (qs_mod s1) = (qm_queues (qs_mod s))[unat k' := obj]"
    using s1(2,3) by (auto simp: slot_taken_def)
  obtain s' where "MessageQ_Instance_init E C h junk obj name params s = Ok (0, s')" "mq_table C s'"
    "qm_queues (qs_mod s') = qm_queues (qs_mod s1)" "mq_queue (qs_obj s' obj) = mq_slot_id C (unat k')"
    "mq_lists (qs_obj s' obj) (qs_list s') ([], [])" "qm_regTrans (qs_mod s') = qm_regTrans (qs_mod s)"
    using MessageQ_Instance_init_ok [OF t f s1(1,2) sync bind named] by blast
  then show ?thesis
    using st s1(3) len
    by (intro exI [of _ s'] exI [of _ "unat k'"]) (simp add: mq_slot_id_def word_less_nat_alt)
qed

lemma MessageQ_create_delete_free:
  assumes "mq_table C s" and "mq_fresh obj s"
    and "mp_queueIndex params = MessageQ_ANY" and "unat (qc_numReservedEntries C) \<le> k"
    and "k < unat (qm_numQueues (qs_mod s))" and "qm_queues (qs_mod s) ! k = NULL"
    and "mp_synchronizer params \<noteq> NULL \<or> me_semCreate E \<noteq> NULL"
    and "mq_binds E (qm_regTrans (qs_mod s)) [1, 2, 3, 4, 5, 6, 7]"
    and "length (qm_regTrans (qs_mod s)) = 8"
    and "\<And>nm i. name = Some nm \<Longrightarrow> me_nsAdd E nm i \<noteq> NULL"
  shows "\<exists>s1 s2. MessageQ_Instance_init E C h junk obj name params s = Ok (0, s1) \<and>
    MessageQ_delete E obj s1 = Ok (MessageQ_S_SUCCESS, NULL, s2) \<and> mq_table C s2 \<and>
    qm_queues (qs_mod s2) = qm_queues (qs_mod s)"
proof -
  obtain s1 i where s1: "MessageQ_Instance_init E C h junk obj name params s = Ok (0, s1)" "mq_table C s1"
    "i < length (qm_queues (qs_mod s))" "qm_queues (qs_mod s) ! i = NULL"
    "qm_queues (qs_mod s1) = (qm_queues (qs_mod s))[i := obj]" "length (qm_regTrans (qs_mod s1)) = 8"
    using MessageQ_create_free [OF assms(1-8,10)] assms(9) by metis
  obtain s2 where s2: "MessageQ_Instance_finalize E obj 0 s1 = Ok s2" "mq_table C s2"
    "qm_queues (qs_mod s2) = (qm_queues (qs_mod s1))[i := NULL]"
    using MessageQ_Instance_finalize_ok [OF s1(2), of i obj E] s1(3,5,6) assms(2)
    by (auto simp: mq_fresh_def)
  have "qm_queues (qs_mod s2) = qm_queues (qs_mod s)"
    using s2(3) s1(4,5) by (metis list_update_id list_update_overwrite)
  then show ?thesis using s1(1) s2 by (auto simp: MessageQ_delete_def)
qed

lemma MessageQ_create_faults:
  assumes t: "mq_table C s" and f: "mq_fresh obj s" and k: "unat (qc_numReservedEntries C) \<le> k"
    "k < unat (qm_numQueues (qs_mod s))" "qm_queues (qs_mod s) ! k = NULL"
    and e: "me_semCreate E = NULL" "mq_queue (qs_obj s obj) = 0" "mq_syncSemHandle (qs_obj s obj) = NULL"
    "qm_numQueues (qs_mod s) < 0xFF80" "length (qm_regTrans (qs_mod s)) = 8"
  shows "MessageQ_create2 E C h junk obj name None s = Err Bad_access"
proof -
  have len: "length (qm_queues (qs_mod s)) = unat (qm_numQueues (qs_mod s))"
    using t by (simp add: mq_table_def)
  obtain k' s1 where s1: "MessageQ_take_slot E C h junk obj MessageQ_Params_init (mq_call MGate_enter s) =
      Ok (Inr k', s1)" "slot_taken obj (mq_call MGate_enter s) k' s1" "k' < qm_numQueues (qs_mod s)"
    using MessageQ_take_slot_free [of "mq_call MGate_enter s" MessageQ_Params_init C k E h junk obj] k len
    by (auto simp: MessageQ_Params_init_def)
  have "length (qm_queues (qs_mod s1)) \<le> 0xFF80"
    using s1(2,3) len e(4) by (auto simp: slot_taken_def word_less_nat_alt)
  then show ?thesis using MessageQ_create_no_semaphore(2) [OF s1(1,2) e(1-3) _ e(5)] by blast
qed

end
