(* ===== verification/NotifyDriverCirc.thy ===== *)
theory NotifyDriverCirc
imports SharedRegion Queues
begin

text \<open>
  The notification driver of \<open>ti/sdo/ipc/notifyDrivers/NotifyDriverCirc.c\<close>: two circular
  buffers of events in shared memory, one for each direction, the sender's end and the
  interrupt service routine at the other.
\<close>

section \<open>State\<close>

record EventEntry =
  ev_eventid :: u32
  ev_payload :: u32

text \<open>The configuration: \<open>numMsgs\<close>, from which \<open>maxIndex\<close> and \<open>modIndex\<close> are computed.\<close>

record circ_config =
  cc_numMsgs :: u32
  cc_enableStats :: bool
  cc_asserts :: bool
  cc_self :: u16

definition circ_maxIndex :: "circ_config \<Rightarrow> u32" where
  "circ_maxIndex F = cc_numMsgs F - 1"

definition circ_modIndex :: "circ_config \<Rightarrow> u32" where
  "circ_modIndex F = cc_numMsgs F div 4"

record NotifyDriverCirc_Params =
  cp_sharedAddr :: ptr
  cp_cacheEnabled :: bool
  cp_cacheLineSize :: sizeT
  cp_remoteProcId :: u16

record NotifyDriverCirc_Object =
  cd_putBuffer :: ptr
  cd_putReadIndex :: ptr
  cd_putWriteIndex :: ptr
  cd_getBuffer :: ptr
  cd_getReadIndex :: ptr
  cd_getWriteIndex :: ptr
  cd_evtRegMask :: u32
  cd_opCacheSize :: sizeT
  cd_spinCount :: u32
  cd_notifyHandle :: ptr
  cd_remoteProcId :: u16
  cd_cacheEnabled :: bool

text \<open>
  The shared memory: entries and index words by address. The log (newest first) has the cache
  operations and interrupt controls; the events handed to \<open>Notify_exec\<close> are kept in order.
\<close>

datatype circ_event =
    C_inv ptr sizeT | C_wb ptr sizeT | C_wait
  | Int_register u16 | Int_unregister u16 | Int_send u16 u32 | Int_clear u16
  | Int_enable u16 | Int_disable u16
  | Circ_write ptr

record circ_mem =
  cm_entry :: "ptr \<Rightarrow> EventEntry"
  cm_word :: "ptr \<Rightarrow> u32"
  cm_log :: "circ_event list"
  cm_exec :: "(ptr \<times> EventEntry) list"

abbreviation sizeof_EventEntry :: sizeT where "sizeof_EventEntry \<equiv> 8"
abbreviation sizeof_Bits32 :: sizeT where "sizeof_Bits32 \<equiv> 4"
abbreviation sizeof_Ptr :: sizeT where "sizeof_Ptr \<equiv> 4"

definition clog :: "circ_event \<Rightarrow> circ_mem \<Rightarrow> circ_mem" where
  "clog e m = m\<lparr>cm_log := e # cm_log m\<rparr>"

definition clog_if :: "bool \<Rightarrow> circ_event \<Rightarrow> circ_mem \<Rightarrow> circ_mem" where
  "clog_if b e m = (if b then clog e m else m)"

definition put_word :: "ptr \<Rightarrow> u32 \<Rightarrow> circ_mem \<Rightarrow> circ_mem" where
  "put_word a x m = clog (Circ_write a) (m\<lparr>cm_word := (cm_word m)(a := x)\<rparr>)"

definition put_entry :: "ptr \<Rightarrow> EventEntry \<Rightarrow> circ_mem \<Rightarrow> circ_mem" where
  "put_entry a x m = clog (Circ_write a) (m\<lparr>cm_entry := (cm_entry m)(a := x)\<rparr>)"

lemma clog_simps [simp]:
  "cm_entry (clog e m) = cm_entry m" "cm_word (clog e m) = cm_word m"
  "cm_log (clog e m) = e # cm_log m" "cm_exec (clog e m) = cm_exec m"
  "cm_entry (clog_if b e m) = cm_entry m" "cm_word (clog_if b e m) = cm_word m"
  "cm_log (clog_if b e m) = (if b then e # cm_log m else cm_log m)" "cm_exec (clog_if b e m) = cm_exec m"
  "cm_entry (put_word a x m) = cm_entry m" "cm_word (put_word a x m) = (cm_word m)(a := x)"
  "cm_log (put_word a x m) = Circ_write a # cm_log m" "cm_exec (put_word a x m) = cm_exec m"
  "cm_entry (put_entry a y m) = (cm_entry m)(a := y)" "cm_word (put_entry a y m) = cm_word m"
  "cm_log (put_entry a y m) = Circ_write a # cm_log m" "cm_exec (put_entry a y m) = cm_exec m"
  by (simp_all add: clog_def clog_if_def put_word_def put_entry_def)

section \<open>Layout\<close>

text \<open>The alignment in use: the cache line of the parameters, or of the region when smaller.\<close>

definition circ_minAlign :: "SharedRegion_Module \<Rightarrow> NotifyDriverCirc_Params \<Rightarrow> sizeT res" where
  "circ_minAlign M p =
     (let minAlign = (if cp_cacheLineSize p = 0 then sizeof_Ptr else cp_cacheLineSize p);
          regionId = SharedRegion_getId M (cp_sharedAddr p) in
      if regionId \<noteq> SharedRegion_INVALIDREGIONID then
        res_bind (SharedRegion_getCacheLineSize M regionId) (\<lambda>c.
        Ok (if c < minAlign then c else minAlign))
      else Ok minAlign)"

definition circ_bufSize :: "circ_config \<Rightarrow> sizeT \<Rightarrow> sizeT" where
  "circ_bufSize F minAlign = Ipc_roundup (sizeof_EventEntry * cc_numMsgs F) minAlign"

definition circ_ctrlSize :: "sizeT \<Rightarrow> sizeT" where
  "circ_ctrlSize minAlign = Ipc_roundup sizeof_Bits32 minAlign"

definition NotifyDriverCirc_sharedMemReq ::
  "SharedRegion_Module \<Rightarrow> circ_config \<Rightarrow> NotifyDriverCirc_Params \<Rightarrow> sizeT res" where
  "NotifyDriverCirc_sharedMemReq M F p =
     res_bind (circ_minAlign M p) (\<lambda>minAlign.
     Ok (2 * (circ_bufSize F minAlign + 2 * circ_ctrlSize minAlign)))"

text \<open>The ends of the two buffers in an instance.\<close>

definition circ_layout ::
  "ptr \<Rightarrow> u32 \<Rightarrow> u32 \<Rightarrow> sizeT \<Rightarrow> sizeT \<Rightarrow> NotifyDriverCirc_Object \<Rightarrow> NotifyDriverCirc_Object" where
  "circ_layout addr localIndex remoteIndex bufSize ctrlSize obj =
     (let totalSelfSize = bufSize + 2 * ctrlSize;
          putBuffer = addr + localIndex * totalSelfSize;
          getBuffer = addr + remoteIndex * totalSelfSize in
      obj\<lparr>cd_putBuffer := putBuffer,
          cd_putWriteIndex := putBuffer + bufSize,
          cd_putReadIndex := putBuffer + bufSize + ctrlSize,
          cd_getBuffer := getBuffer,
          cd_getWriteIndex := getBuffer + bufSize,
          cd_getReadIndex := getBuffer + bufSize + ctrlSize,
          cd_opCacheSize := putBuffer + bufSize + ctrlSize - putBuffer\<rparr>)"

definition NotifyDriverCirc_Instance_init ::
  "SharedRegion_Module \<Rightarrow> circ_config \<Rightarrow> NotifyDriverCirc_Params \<Rightarrow> u16 \<Rightarrow> NotifyDriverCirc_Object \<Rightarrow>
   circ_mem \<Rightarrow> (NotifyDriverCirc_Object \<times> circ_mem) res" where
  "NotifyDriverCirc_Instance_init M F p invalidId obj0 m =
     Assert_isTrue (cc_asserts F) (cp_remoteProcId p \<noteq> invalidId \<and> cp_remoteProcId p \<noteq> cc_self F) A_invParam (
     let regionId = SharedRegion_getId M (cp_sharedAddr p) in
     res_bind (if regionId \<noteq> SharedRegion_INVALIDREGIONID
               then res_bind (SharedRegion_isCacheEnabled M regionId) (\<lambda>c. Ok (c \<and> cp_cacheEnabled p))
               else Ok (cp_cacheEnabled p)) (\<lambda>cacheEnabled.
     res_bind (circ_minAlign M p) (\<lambda>minAlign.
     if cc_asserts F \<and> minAlign = 0 then Err Div_by_zero else
     Assert_isTrue (cc_asserts F) (cp_sharedAddr p mod minAlign = 0) A_addrNotCacheAligned (
     let (localIndex, remoteIndex) = (if cc_self F < cp_remoteProcId p then (0, 1) else (1, 0));
         bufSize = circ_bufSize F minAlign;
         ctrlSize = circ_ctrlSize minAlign;
         obj = (circ_layout (cp_sharedAddr p) localIndex remoteIndex bufSize ctrlSize obj0)
                 \<lparr>cd_cacheEnabled := cacheEnabled, cd_remoteProcId := cp_remoteProcId p, cd_spinCount := 0\<rparr>;
         m1 = put_word (cd_putReadIndex obj) 0 (put_word (cd_putWriteIndex obj) 0 m);
         m2 = clog_if cacheEnabled (C_inv (cd_getBuffer obj) (bufSize + 2 * ctrlSize))
                (clog_if cacheEnabled (C_wb (cd_putReadIndex obj) sizeof_Bits32)
                  (clog_if cacheEnabled (C_wb (cd_putWriteIndex obj) sizeof_Bits32) m1)) in
     Ok (obj, clog (Int_register (cd_remoteProcId obj)) m2)))))"

definition NotifyDriverCirc_Instance_finalize ::
  "circ_config \<Rightarrow> NotifyDriverCirc_Object \<Rightarrow> circ_mem \<Rightarrow> circ_mem" where
  "NotifyDriverCirc_Instance_finalize F obj m =
     (let m1 = clog (Int_unregister (cd_remoteProcId obj)) m in
      if cd_cacheEnabled obj then
        if cc_self F < cd_remoteProcId obj
        then clog (C_inv (cd_putBuffer obj) ((cd_getBuffer obj - cd_putBuffer obj) * 2)) m1
        else clog (C_inv (cd_getBuffer obj) ((cd_putBuffer obj - cd_getBuffer obj) * 2)) m1
      else m1)"

section \<open>Registering\<close>

definition NotifyDriverCirc_registerEvent ::
  "NotifyDriverCirc_Object \<Rightarrow> u32 \<Rightarrow> NotifyDriverCirc_Object" where
  "NotifyDriverCirc_registerEvent obj eventId = obj\<lparr>cd_evtRegMask := SET_BIT (cd_evtRegMask obj) eventId\<rparr>"

definition NotifyDriverCirc_unregisterEvent ::
  "NotifyDriverCirc_Object \<Rightarrow> u32 \<Rightarrow> NotifyDriverCirc_Object" where
  "NotifyDriverCirc_unregisterEvent obj eventId = obj\<lparr>cd_evtRegMask := CLEAR_BIT (cd_evtRegMask obj) eventId\<rparr>"

definition NotifyDriverCirc_disable :: "NotifyDriverCirc_Object \<Rightarrow> circ_mem \<Rightarrow> circ_mem" where
  "NotifyDriverCirc_disable obj m = clog (Int_disable (cd_remoteProcId obj)) m"

definition NotifyDriverCirc_enable :: "circ_config \<Rightarrow> circ_mem \<Rightarrow> circ_mem res" where
  "NotifyDriverCirc_enable F m = Assert_isTrue (cc_asserts F) False A_notSupported (Ok m)"

definition NotifyDriverCirc_disableEvent :: "circ_config \<Rightarrow> u32 \<Rightarrow> circ_mem \<Rightarrow> circ_mem res" where
  "NotifyDriverCirc_disableEvent F eventId m = Assert_isTrue (cc_asserts F) False A_notSupported (Ok m)"

definition NotifyDriverCirc_enableEvent :: "NotifyDriverCirc_Object \<Rightarrow> circ_mem \<Rightarrow> circ_mem" where
  "NotifyDriverCirc_enableEvent obj m = clog (Int_enable (cd_remoteProcId obj)) m"

definition NotifyDriverCirc_setNotifyHandle ::
  "NotifyDriverCirc_Object \<Rightarrow> ptr \<Rightarrow> NotifyDriverCirc_Object" where
  "NotifyDriverCirc_setNotifyHandle obj h = obj\<lparr>cd_notifyHandle := h\<rparr>"

section \<open>Sending\<close>

text \<open>
  The loop that waits for a free entry, over the read index as last seen: the write index when
  there is one, \<open>None\<close> when the caller does not want to wait. \<open>other\<close> is what the receiving
  processor does between two looks at the read index.
\<close>

fun circ_send_loop ::
  "(circ_mem \<Rightarrow> circ_mem) \<Rightarrow> circ_config \<Rightarrow> NotifyDriverCirc_Object \<Rightarrow> bool \<Rightarrow> nat \<Rightarrow> bool \<Rightarrow> u32 \<Rightarrow>
   circ_mem \<Rightarrow> (u32 option \<times> circ_mem) res" where
  "circ_send_loop other F obj waitClear fuel loop readIndex m =
     (let writeIndex = cm_word m (cd_putWriteIndex obj) in
      if (writeIndex + 1) AND circ_maxIndex F \<noteq> readIndex then Ok (Some writeIndex, m)
      else if loop \<and> \<not> waitClear then Ok (None, m)
      else case fuel of 0 \<Rightarrow> Err Out_of_fuel
        | Suc n \<Rightarrow>
            let m1 = other (clog_if (cd_cacheEnabled obj) (C_inv (cd_putReadIndex obj) sizeof_Bits32) m) in
            circ_send_loop other F obj waitClear n True (cm_word m1 (cd_putReadIndex obj)) m1)"

declare circ_send_loop.simps [simp del]

text \<open>\<open>NotifyDriverCirc_sendEvent\<close>: whether the event was sent. The spin statistics are left out.\<close>

definition NotifyDriverCirc_sendEvent ::
  "(circ_mem \<Rightarrow> circ_mem) \<Rightarrow> circ_config \<Rightarrow> nat \<Rightarrow> NotifyDriverCirc_Object \<Rightarrow> u32 \<Rightarrow> u32 \<Rightarrow> bool \<Rightarrow>
   circ_mem \<Rightarrow> (bool \<times> circ_mem) res" where
  "NotifyDriverCirc_sendEvent other F fuel obj eventId payload waitClear m =
     res_bind (circ_send_loop other F obj waitClear fuel False (cm_word m (cd_putReadIndex obj)) m)
       (\<lambda>(slot, m1). case slot of None \<Rightarrow> Ok (False, m1)
        | Some writeIndex \<Rightarrow>
            let c = cd_cacheEnabled obj;
                eventEntry = cd_putBuffer obj + writeIndex * sizeof_EventEntry;
                m2 = put_entry eventEntry \<lparr>ev_eventid = eventId, ev_payload = payload\<rparr> m1;
                m3 = clog_if c (C_wb eventEntry sizeof_EventEntry) m2;
                m4 = put_word (cd_putWriteIndex obj) ((writeIndex + 1) AND circ_maxIndex F) m3;
                m5 = clog_if c (C_wb (cd_putWriteIndex obj) sizeof_Bits32) m4 in
            Ok (True, clog (Int_send (cd_remoteProcId obj) eventId) m5))"

section \<open>Receiving\<close>

text \<open>The loop of the interrupt service routine; \<open>Notify_exec\<close> gets the registered events.\<close>

fun circ_isr_loop ::
  "circ_config \<Rightarrow> NotifyDriverCirc_Object \<Rightarrow> nat \<Rightarrow> u32 \<Rightarrow> u32 \<Rightarrow> circ_mem \<Rightarrow> circ_mem res" where
  "circ_isr_loop F obj fuel writeIndex readIndex m =
     (if writeIndex = readIndex then Ok m
      else case fuel of 0 \<Rightarrow> Err Out_of_fuel
        | Suc n \<Rightarrow>
            let eventEntry = cm_entry m (cd_getBuffer obj + readIndex * sizeof_EventEntry);
                m1 = (if TEST_BIT (cd_evtRegMask obj) (ev_eventid eventEntry)
                      then m\<lparr>cm_exec := cm_exec m @ [(cd_notifyHandle obj, eventEntry)]\<rparr> else m);
                readIndex1 = (readIndex + 1) AND circ_maxIndex F;
                m2 = put_word (cd_getReadIndex obj) readIndex1 m1 in
            if cd_cacheEnabled obj \<and> circ_modIndex F = 0 then Err Div_by_zero
            else
              circ_isr_loop F obj n writeIndex readIndex1
                (clog_if (cd_cacheEnabled obj \<and> readIndex1 mod circ_modIndex F = 0)
                  (C_wb (cd_getReadIndex obj) sizeof_Bits32) m2))"

declare circ_isr_loop.simps [simp del]

definition NotifyDriverCirc_isr ::
  "circ_config \<Rightarrow> nat \<Rightarrow> NotifyDriverCirc_Object \<Rightarrow> circ_mem \<Rightarrow> circ_mem res" where
  "NotifyDriverCirc_isr F fuel obj m =
     (let c = cd_cacheEnabled obj;
          m1 = clog_if c (C_inv (cd_getWriteIndex obj) sizeof_Ptr)
                 (clog_if c (C_inv (cd_getBuffer obj) (cd_opCacheSize obj)) m);
          m2 = clog_if c C_wait (clog (Int_clear (cd_remoteProcId obj)) m1) in
      circ_isr_loop F obj fuel (cm_word m2 (cd_getWriteIndex obj)) (cm_word m2 (cd_getReadIndex obj)) m2)"

section \<open>The events a buffer holds\<close>

text \<open>
  The buffer at \<open>buf\<close> with the write index at \<open>wi\<close> and the read index at \<open>ri\<close> holds
  the events \<open>evs\<close>, of at most one fewer than its \<open>2 ^ k\<close> entries.
\<close>

definition circ_holds :: "nat \<Rightarrow> ptr \<Rightarrow> ptr \<Rightarrow> ptr \<Rightarrow> circ_mem \<Rightarrow> EventEntry list \<Rightarrow> bool" where
  "circ_holds k buf wi ri m evs \<longleftrightarrow>
     unat (cm_word m ri) < 2 ^ k \<and> length evs < 2 ^ k \<and>
     unat (cm_word m wi) = (unat (cm_word m ri) + length evs) mod 2 ^ k \<and>
     (\<forall>i < length evs.
        cm_entry m (buf + of_nat ((unat (cm_word m ri) + i) mod 2 ^ k) * sizeof_EventEntry) = evs ! i)"

text \<open>A configuration with \<open>2 ^ k\<close> entries.\<close>

definition circ_sized :: "circ_config \<Rightarrow> nat \<Rightarrow> bool" where
  "circ_sized F k \<longleftrightarrow> 2 \<le> k \<and> k \<le> 28 \<and> cc_numMsgs F = 2 ^ k"

lemma circ_maxIndex_and:
  assumes "circ_sized F k"
  shows "unat (x AND circ_maxIndex F) = unat x mod 2 ^ k"
  using assms by (intro mask_and_unat) (simp_all add: circ_sized_def circ_maxIndex_def)

lemma circ_modIndex_pos:
  assumes "circ_sized F k"
  shows "circ_modIndex F \<noteq> 0"
proof -
  have "unat (circ_modIndex F) = 2 ^ k div 4"
    using assms unat_pow2 [where 'a = 32, of k] by (simp add: circ_sized_def circ_modIndex_def unat_div)
  moreover have "(2::nat) ^ 2 \<le> 2 ^ k"
    using assms by (intro power_increasing) (simp_all add: circ_sized_def)
  then have "0 < (2::nat) ^ k div 4" by (simp add: div_greater_zero_iff)
  ultimately show ?thesis by (metis less_irrefl unat_0)
qed

text \<open>Entries at different indices are at different addresses.\<close>

lemma circ_entry_inj:
  assumes "k \<le> 28" and "i < 2 ^ k" and "j < 2 ^ k"
    and "(buf :: ptr) + of_nat i * sizeof_EventEntry = buf + of_nat j * sizeof_EventEntry"
  shows "i = j"
proof -
  have lim: "unat (of_nat n * (8 :: ptr)) = n * 8" if "n < 2 ^ k" for n
  proof -
    have "(2::nat) ^ k \<le> 2 ^ 28" using assms(1) by (intro power_increasing) simp_all
    then have "n * 8 < 2 ^ 32" using that by simp
    then show ?thesis using unat_of_nat_small [of "n * 8", where 'a = 32] by simp
  qed
  have "of_nat i * (8 :: ptr) = of_nat j * 8" using assms(4) by simp
  then show ?thesis using lim assms(2,3) by (metis mult_cancel2 zero_neq_numeral)
qed

lemma mod_shift_le:
  fixes r i j n :: nat
  assumes "j < n" and "(r + j) mod n = (r + i) mod n" and "i \<le> j"
  shows "i = j"
proof -
  have "n dvd (r + j) - (r + i)" using assms(2,3) by (subst mod_eq_dvd_iff_nat [symmetric]) auto
  then have "n dvd j - i" by simp
  then have "j - i = 0" using assms(1) dvd_imp_le [of n "j - i"] by fastforce
  then show ?thesis using assms(3) by simp
qed

lemma mod_shift_inj:
  fixes r i j n :: nat
  assumes "i < n" and "j < n" and "(r + i) mod n = (r + j) mod n"
  shows "i = j"
  using assms mod_shift_le [of j n r i] mod_shift_le [of i n r j] by (cases "i \<le> j") auto

text \<open>The sender sees a full buffer exactly when all entries but one are in use.\<close>

lemma circ_full_iff:
  assumes F: "circ_sized F k" and h: "circ_holds k buf wi ri m evs"
  shows "(cm_word m wi + 1) AND circ_maxIndex F = cm_word m ri \<longleftrightarrow> Suc (length evs) = 2 ^ k"
proof -
  have small: "unat (cm_word m wi) < 2 ^ k" using h by (simp add: circ_holds_def)
  have "(2::nat) ^ k \<le> 2 ^ 28" using F by (intro power_increasing) (simp_all add: circ_sized_def)
  then have "unat (cm_word m wi + 1) = unat (cm_word m wi) + 1"
    using small by (subst unat_plus_no_wrap) simp_all
  then have w1: "unat ((cm_word m wi + 1) AND circ_maxIndex F) =
      (unat (cm_word m ri) + Suc (length evs)) mod 2 ^ k"
    using circ_maxIndex_and [OF F] h by (simp add: circ_holds_def mod_Suc_eq)
  have r: "unat (cm_word m ri) < 2 ^ k" "length evs < 2 ^ k" using h by (simp_all add: circ_holds_def)
  have "(unat (cm_word m ri) + Suc (length evs)) mod 2 ^ k = unat (cm_word m ri) \<longleftrightarrow> Suc (length evs) = 2 ^ k"
  proof (cases "Suc (length evs) < 2 ^ k")
    case True
    then show ?thesis
      using mod_shift_inj [of 0 "2 ^ k" "Suc (length evs)" "unat (cm_word m ri)"] r by auto
  next
    case False
    then have "Suc (length evs) = 2 ^ k" using r(2) by simp
    then show ?thesis using r(1) by simp
  qed
  then show ?thesis using w1 by (simp add: word_eq_unat)
qed

text \<open>Putting an entry behind the last one and moving the write index on.\<close>

lemma circ_holds_put:
  assumes F: "circ_sized F k" and h: "circ_holds k buf wi ri m evs" and ne: "wi \<noteq> ri"
    and room: "Suc (length evs) < 2 ^ k"
    and e: "cm_entry m' = (cm_entry m)(buf + cm_word m wi * sizeof_EventEntry := x)"
    and w: "cm_word m' = (cm_word m)(wi := (cm_word m wi + 1) AND circ_maxIndex F)"
  shows "circ_holds k buf wi ri m' (evs @ [x])"
proof -
  define r where "r = unat (cm_word m ri)"
  have R: "r < 2 ^ k" "length evs < 2 ^ k" "unat (cm_word m wi) = (r + length evs) mod 2 ^ k"
    "\<And>i. i < length evs \<Longrightarrow> cm_entry m (buf + of_nat ((r + i) mod 2 ^ k) * sizeof_EventEntry) = evs ! i"
    using h by (simp_all add: circ_holds_def r_def)
  have K: "k \<le> 28" using F by (simp add: circ_sized_def)
  have "(2::nat) ^ k \<le> 2 ^ 28" using K by (intro power_increasing) simp_all
  then have "(2::nat) ^ k \<le> 268435456" by simp
  moreover have "(r + length evs) mod 2 ^ k < 2 ^ k" by simp
  ultimately have "unat (cm_word m wi) + 1 < 4294967296" unfolding R(3) by linarith
  then have lim: "unat (cm_word m wi) + 1 < 2 ^ 32" by simp
  then have w1: "unat ((cm_word m wi + 1) AND circ_maxIndex F) = (r + Suc (length evs)) mod 2 ^ k"
    using circ_maxIndex_and [OF F, of "cm_word m wi + 1"] R(3)
    by (simp add: unat_plus_no_wrap mod_Suc_eq)
  have wi: "cm_word m wi = of_nat ((r + length evs) mod 2 ^ k)"
    by (simp add: R(3) [symmetric])
  have old: "buf + of_nat ((r + i) mod 2 ^ k) * sizeof_EventEntry \<noteq> buf + cm_word m wi * sizeof_EventEntry"
    if i: "i < length evs" for i
  proof
    assume *: "buf + of_nat ((r + i) mod 2 ^ k) * sizeof_EventEntry = buf + cm_word m wi * sizeof_EventEntry"
    have "(r + i) mod 2 ^ k = (r + length evs) mod 2 ^ k"
      by (rule circ_entry_inj [OF K _ _ * [unfolded wi]]) simp_all
    then show False using mod_shift_inj [of i "2 ^ k" "length evs" r] R(2) i by simp
  qed
  have "cm_entry m' (buf + of_nat ((r + i) mod 2 ^ k) * sizeof_EventEntry) = (evs @ [x]) ! i"
    if "i < Suc (length evs)" for i
    using that old [of i] R(4) [of i] wi by (cases "i = length evs") (auto simp: e nth_append)
  then show ?thesis
    using R w1 ne room by (simp add: circ_holds_def w r_def [symmetric])
qed

lemma circ_holds_next:
  assumes F: "circ_sized F k" and h: "circ_holds k buf wi ri m (x # evs)" and ne: "wi \<noteq> ri"
    and e: "cm_entry m' = cm_entry m"
    and w: "cm_word m' = (cm_word m)(ri := (cm_word m ri + 1) AND circ_maxIndex F)"
  shows "circ_holds k buf wi ri m' evs" and "cm_entry m (buf + cm_word m ri * sizeof_EventEntry) = x"
proof -
  define r where "r = unat (cm_word m ri)"
  have R: "r < 2 ^ k" "Suc (length evs) < 2 ^ k" "unat (cm_word m wi) = (r + Suc (length evs)) mod 2 ^ k"
    "\<And>i. i < Suc (length evs) \<Longrightarrow>
      cm_entry m (buf + of_nat ((r + i) mod 2 ^ k) * sizeof_EventEntry) = (x # evs) ! i"
    using h by (simp_all add: circ_holds_def r_def)
  have "(2::nat) ^ k \<le> 2 ^ 28" using F by (intro power_increasing) (simp_all add: circ_sized_def)
  then have w1: "unat ((cm_word m ri + 1) AND circ_maxIndex F) = Suc r mod 2 ^ k"
    using circ_maxIndex_and [OF F, of "cm_word m ri + 1"] R(1) by (simp add: unat_plus_no_wrap r_def)
  have "cm_word m ri = of_nat r" by (simp add: r_def)
  then show "cm_entry m (buf + cm_word m ri * sizeof_EventEntry) = x"
    using R(1) R(4) [of 0] by simp
  have "cm_entry m (buf + of_nat ((Suc r mod 2 ^ k + i) mod 2 ^ k) * sizeof_EventEntry) = evs ! i"
    if "i < length evs" for i
    using R(4) [of "Suc i"] that by (simp add: mod_add_left_eq)
  moreover have "(r + Suc (length evs)) mod 2 ^ k = (Suc r mod 2 ^ k + length evs) mod 2 ^ k"
    by (simp add: mod_add_left_eq)
  ultimately show "circ_holds k buf wi ri m' evs"
    using R w1 ne by (simp add: circ_holds_def w e)
qed

section \<open>What the driver does\<close>

text \<open>The two ends of an instance: separate words, and \<open>k\<close> for the size.\<close>

definition circ_wired :: "circ_config \<Rightarrow> nat \<Rightarrow> NotifyDriverCirc_Object \<Rightarrow> bool" where
  "circ_wired F k obj \<longleftrightarrow> circ_sized F k \<and>
     cd_putWriteIndex obj \<noteq> cd_putReadIndex obj \<and> cd_getWriteIndex obj \<noteq> cd_getReadIndex obj"

text \<open>The buffer an instance puts events into, and the one it takes them from.\<close>

abbreviation circ_out :: "nat \<Rightarrow> NotifyDriverCirc_Object \<Rightarrow> circ_mem \<Rightarrow> EventEntry list \<Rightarrow> bool" where
  "circ_out k obj \<equiv> circ_holds k (cd_putBuffer obj) (cd_putWriteIndex obj) (cd_putReadIndex obj)"

abbreviation circ_in :: "nat \<Rightarrow> NotifyDriverCirc_Object \<Rightarrow> circ_mem \<Rightarrow> EventEntry list \<Rightarrow> bool" where
  "circ_in k obj \<equiv> circ_holds k (cd_getBuffer obj) (cd_getWriteIndex obj) (cd_getReadIndex obj)"

lemma circ_holds_log [simp]:
  "circ_holds k buf wi ri (clog e m) evs = circ_holds k buf wi ri m evs"
  "circ_holds k buf wi ri (clog_if b e m) evs = circ_holds k buf wi ri m evs"
  by (simp_all add: circ_holds_def)

lemma circ_send_slot:
  assumes F: "circ_wired F k obj" and h: "circ_out k obj m evs" and room: "Suc (length evs) < 2 ^ k"
  shows "circ_send_loop other F obj waitClear fuel loop (cm_word m (cd_putReadIndex obj)) m =
    Ok (Some (cm_word m (cd_putWriteIndex obj)), m)"
proof -
  have "(cm_word m (cd_putWriteIndex obj) + 1) AND circ_maxIndex F \<noteq> cm_word m (cd_putReadIndex obj)"
    using circ_full_iff [of F k, OF _ h] F room by (simp add: circ_wired_def)
  then show ?thesis by (subst circ_send_loop.simps) simp
qed

lemma circ_send_full:
  assumes F: "circ_wired F k obj" and h: "circ_out k obj m evs" and full: "Suc (length evs) = 2 ^ k"
  shows "circ_send_loop other F obj waitClear (Suc n) loop (cm_word m (cd_putReadIndex obj)) m =
    (if loop \<and> \<not> waitClear then Ok (None, m)
     else let m1 = other (clog_if (cd_cacheEnabled obj) (C_inv (cd_putReadIndex obj) sizeof_Bits32) m) in
       circ_send_loop other F obj waitClear n True (cm_word m1 (cd_putReadIndex obj)) m1)"
proof -
  have "(cm_word m (cd_putWriteIndex obj) + 1) AND circ_maxIndex F = cm_word m (cd_putReadIndex obj)"
    using circ_full_iff [of F k, OF _ h] F full by (simp add: circ_wired_def)
  then show ?thesis by (subst circ_send_loop.simps) simp
qed

text \<open>Putting the event into a slot that was found.\<close>

definition circ_deposit :: "circ_config \<Rightarrow> NotifyDriverCirc_Object \<Rightarrow> EventEntry \<Rightarrow> circ_mem \<Rightarrow> circ_mem \<Rightarrow> bool" where
  "circ_deposit F obj x m m' \<longleftrightarrow>
     cm_entry m' = (cm_entry m)(cd_putBuffer obj + cm_word m (cd_putWriteIndex obj) * sizeof_EventEntry := x) \<and>
     cm_word m' = (cm_word m)(cd_putWriteIndex obj := (cm_word m (cd_putWriteIndex obj) + 1) AND circ_maxIndex F) \<and>
     cm_exec m' = cm_exec m"

lemma circ_deposit_holds:
  assumes F: "circ_wired F k obj" and h: "circ_out k obj m evs" and room: "Suc (length evs) < 2 ^ k"
    and d: "circ_deposit F obj x m m'"
  shows "circ_out k obj m' (evs @ [x])"
  using circ_holds_put [of F k, OF _ h _ room] F d by (simp add: circ_wired_def circ_deposit_def)

lemma NotifyDriverCirc_sendEvent_room:
  assumes "circ_wired F k obj" and "circ_out k obj m evs" and "Suc (length evs) < 2 ^ k"
  shows "\<exists>m'. NotifyDriverCirc_sendEvent other F fuel obj eventId payload waitClear m = Ok (True, m') \<and>
    circ_deposit F obj \<lparr>ev_eventid = eventId, ev_payload = payload\<rparr> m m' \<and>
    circ_out k obj m' (evs @ [\<lparr>ev_eventid = eventId, ev_payload = payload\<rparr>])"
proof -
  have "\<exists>m'. NotifyDriverCirc_sendEvent other F fuel obj eventId payload waitClear m = Ok (True, m') \<and>
    circ_deposit F obj \<lparr>ev_eventid = eventId, ev_payload = payload\<rparr> m m'"
    by (simp add: NotifyDriverCirc_sendEvent_def circ_send_slot [OF assms] circ_deposit_def Let_def)
  then show ?thesis using circ_deposit_holds [OF assms] by blast
qed

text \<open>
  A full buffer that stays full: a sender that does not wait gives up, nothing is overwritten.
\<close>

lemma NotifyDriverCirc_sendEvent_full:
  assumes F: "circ_wired F k obj" and h: "circ_out k obj m evs" and full: "Suc (length evs) = 2 ^ k"
    and other: "\<And>m'. cm_word (other m') = cm_word m' \<and> cm_entry (other m') = cm_entry m' \<and>
      cm_exec (other m') = cm_exec m'"
  shows "\<exists>m'. NotifyDriverCirc_sendEvent other F (Suc (Suc n)) obj eventId payload False m = Ok (False, m') \<and>
    cm_word m' = cm_word m \<and> cm_entry m' = cm_entry m \<and> cm_exec m' = cm_exec m"
proof -
  define m1 where "m1 = other (clog_if (cd_cacheEnabled obj) (C_inv (cd_putReadIndex obj) sizeof_Bits32) m)"
  have m1: "cm_word m1 = cm_word m" "cm_entry m1 = cm_entry m" "cm_exec m1 = cm_exec m"
    using other by (simp_all add: m1_def)
  have h1: "circ_out k obj m1 evs" using h by (simp add: circ_holds_def m1)
  show ?thesis
    using m1 circ_send_full [OF F h1 full, of other False n True]
    by (simp add: NotifyDriverCirc_sendEvent_def circ_send_full [OF F h full] m1_def [symmetric])
qed

text \<open>
  A sender that waits gets through as soon as the receiver has taken an event: the buffer stays
  full for \<open>n\<close> looks at the index and has room at the next.
\<close>

lemma circ_send_waits:
  assumes F: "circ_wired F k obj"
    and full: "\<And>i. i \<le> n \<Longrightarrow> \<exists>evs. circ_out k obj (M i) evs \<and> Suc (length evs) = 2 ^ k"
    and step: "\<And>i. i \<le> n \<Longrightarrow>
      M (Suc i) = other (clog_if (cd_cacheEnabled obj) (C_inv (cd_putReadIndex obj) sizeof_Bits32) (M i))"
    and room: "\<exists>evs. circ_out k obj (M (Suc n)) evs \<and> Suc (length evs) < 2 ^ k"
  shows "circ_send_loop other F obj True (Suc n + j) loop (cm_word (M 0) (cd_putReadIndex obj)) (M 0) =
    Ok (Some (cm_word (M (Suc n)) (cd_putWriteIndex obj)), M (Suc n))"
  using full step room
proof (induction n arbitrary: M loop)
  case 0
  obtain evs where "circ_out k obj (M 0) evs" "Suc (length evs) = 2 ^ k" using 0(1) by blast
  then have "circ_send_loop other F obj True (Suc j) loop (cm_word (M 0) (cd_putReadIndex obj)) (M 0) =
      circ_send_loop other F obj True j True (cm_word (M 1) (cd_putReadIndex obj)) (M 1)"
    using circ_send_full [OF F, of "M 0" evs other True j loop] 0(2) by (simp add: Let_def)
  then show ?case using circ_send_slot [OF F] 0(3) by auto
next
  case (Suc n)
  obtain evs where "circ_out k obj (M 0) evs" "Suc (length evs) = 2 ^ k" using Suc.prems(1) by blast
  then have "circ_send_loop other F obj True (Suc (Suc n) + j) loop (cm_word (M 0) (cd_putReadIndex obj)) (M 0) =
      circ_send_loop other F obj True (Suc n + j) True (cm_word (M 1) (cd_putReadIndex obj)) (M 1)"
    using circ_send_full [OF F, of "M 0" evs other True "Suc n + j" loop] Suc.prems(2) by (simp add: Let_def)
  moreover have "circ_send_loop other F obj True (Suc n + j) True
        (cm_word (M (Suc 0)) (cd_putReadIndex obj)) (M (Suc 0)) =
      Ok (Some (cm_word (M (Suc (Suc n))) (cd_putWriteIndex obj)), M (Suc (Suc n)))"
  proof (rule Suc.IH [of "\<lambda>i. M (Suc i)"])
    show "\<exists>evs. circ_out k obj (M (Suc i)) evs \<and> Suc (length evs) = 2 ^ k" if "i \<le> n" for i
      using Suc.prems(1) [of "Suc i"] that by simp
    show "M (Suc (Suc i)) = other (clog_if (cd_cacheEnabled obj)
        (C_inv (cd_putReadIndex obj) sizeof_Bits32) (M (Suc i)))" if "i \<le> n" for i
      using Suc.prems(2) [of "Suc i"] that by simp
  qed (rule Suc.prems(3))
  ultimately show ?case by simp
qed

lemma NotifyDriverCirc_sendEvent_waits:
  assumes F: "circ_wired F k obj"
    and full: "\<And>i. i \<le> n \<Longrightarrow> \<exists>evs. circ_out k obj (M i) evs \<and> Suc (length evs) = 2 ^ k"
    and step: "\<And>i. i \<le> n \<Longrightarrow>
      M (Suc i) = other (clog_if (cd_cacheEnabled obj) (C_inv (cd_putReadIndex obj) sizeof_Bits32) (M i))"
    and room: "circ_out k obj (M (Suc n)) evs" "Suc (length evs) < 2 ^ k"
  shows "\<exists>m'. NotifyDriverCirc_sendEvent other F (Suc n) obj eventId payload True (M 0) = Ok (True, m') \<and>
    circ_out k obj m' (evs @ [\<lparr>ev_eventid = eventId, ev_payload = payload\<rparr>])"
proof -
  have loop: "circ_send_loop other F obj True (Suc n) False (cm_word (M 0) (cd_putReadIndex obj)) (M 0) =
    Ok (Some (cm_word (M (Suc n)) (cd_putWriteIndex obj)), M (Suc n))"
    using circ_send_waits [where M = M and n = n and j = 0 and loop = False, OF F full step] room by auto
  have "\<exists>m'. NotifyDriverCirc_sendEvent other F (Suc n) obj eventId payload True (M 0) = Ok (True, m') \<and>
    circ_deposit F obj \<lparr>ev_eventid = eventId, ev_payload = payload\<rparr> (M (Suc n)) m'"
    by (simp add: NotifyDriverCirc_sendEvent_def loop circ_deposit_def Let_def)
  then show ?thesis using circ_deposit_holds [OF F room] by blast
qed

text \<open>
  The service routine empties the buffer: it ends, and \<open>Notify_exec\<close> gets those of the events
  that are registered, in order.
\<close>

definition circ_registered :: "NotifyDriverCirc_Object \<Rightarrow> EventEntry list \<Rightarrow> EventEntry list" where
  "circ_registered obj = filter (\<lambda>e. TEST_BIT (cd_evtRegMask obj) (ev_eventid e))"

lemma circ_isr_drains:
  assumes F: "circ_wired F k obj" and "circ_in k obj m evs" and "length evs \<le> fuel"
  shows "\<exists>m'. circ_isr_loop F obj fuel (cm_word m (cd_getWriteIndex obj)) (cm_word m (cd_getReadIndex obj)) m =
      Ok m' \<and> circ_in k obj m' [] \<and> cm_entry m' = cm_entry m \<and>
    (\<forall>a. a \<noteq> cd_getReadIndex obj \<longrightarrow> cm_word m' a = cm_word m a) \<and>
    cm_exec m' = cm_exec m @ map (Pair (cd_notifyHandle obj)) (circ_registered obj evs)"
  using assms(2,3)
proof (induction evs arbitrary: m fuel)
  case Nil
  then have "cm_word m (cd_getWriteIndex obj) = cm_word m (cd_getReadIndex obj)"
    by (simp add: circ_holds_def word_eq_unat)
  then show ?case using Nil by (subst circ_isr_loop.simps) (simp add: circ_registered_def)
next
  case (Cons x evs)
  obtain n where n: "fuel = Suc n" using Cons.prems(2) by (cases fuel) auto
  have S: "circ_sized F k" "cd_getWriteIndex obj \<noteq> cd_getReadIndex obj" using F by (simp_all add: circ_wired_def)
  let ?w = "cd_getWriteIndex obj" and ?r = "cd_getReadIndex obj"
  have ne: "cm_word m ?w \<noteq> cm_word m ?r"
  proof
    assume "cm_word m ?w = cm_word m ?r"
    then have "(unat (cm_word m ?r) + Suc (length evs)) mod 2 ^ k = (unat (cm_word m ?r) + 0) mod 2 ^ k"
      using Cons.prems(1) by (simp add: circ_holds_def)
    then show False
      using mod_shift_inj [of "Suc (length evs)" "2 ^ k" 0 "unat (cm_word m ?r)"] Cons.prems(1)
      unfolding circ_holds_def by (metis length_Cons nat.distinct(1) zero_less_numeral zero_less_power)
  qed
  define r1 where "r1 = (cm_word m ?r + 1) AND circ_maxIndex F"
  define m1 where "m1 = (if TEST_BIT (cd_evtRegMask obj) (ev_eventid x)
      then m\<lparr>cm_exec := cm_exec m @ [(cd_notifyHandle obj, x)]\<rparr> else m)"
  define m3 where "m3 = clog_if (cd_cacheEnabled obj \<and> r1 mod circ_modIndex F = 0) (C_wb ?r sizeof_Bits32)
      (put_word ?r r1 m1)"
  have m3: "cm_entry m3 = cm_entry m" "cm_word m3 = (cm_word m)(?r := r1)"
    "cm_exec m3 = cm_exec m @ map (Pair (cd_notifyHandle obj)) (circ_registered obj [x])"
    by (auto simp: m3_def m1_def circ_registered_def)
  note N = circ_holds_next [OF S(1) Cons.prems(1) S(2) m3(1) m3(2) [unfolded r1_def]]
  have step: "circ_isr_loop F obj fuel (cm_word m ?w) (cm_word m ?r) m = circ_isr_loop F obj n (cm_word m ?w) r1 m3"
    using ne circ_modIndex_pos [OF S(1)] N(2)
    by (subst circ_isr_loop.simps) (simp add: n Let_def r1_def m3_def m1_def)
  have words: "cm_word m3 ?w = cm_word m ?w" "cm_word m3 ?r = r1" using m3(2) S(2) by simp_all
  have reg: "circ_registered obj (x # evs) = circ_registered obj [x] @ circ_registered obj evs"
    by (simp add: circ_registered_def)
  obtain m' where m': "circ_isr_loop F obj n (cm_word m ?w) r1 m3 = Ok m'" "circ_in k obj m' []"
    "cm_entry m' = cm_entry m3" "\<forall>a. a \<noteq> ?r \<longrightarrow> cm_word m' a = cm_word m3 a"
    "cm_exec m' = cm_exec m3 @ map (Pair (cd_notifyHandle obj)) (circ_registered obj evs)"
    using Cons.IH [OF N(1), of n] Cons.prems(2) n words by auto
  show ?case
    using m' m3 by (intro exI [of _ m']) (simp add: step reg)
qed

lemma NotifyDriverCirc_isr_drains:
  assumes "circ_wired F k obj" and "circ_in k obj m evs" and "length evs \<le> fuel"
  shows "\<exists>m'. NotifyDriverCirc_isr F fuel obj m = Ok m' \<and> circ_in k obj m' [] \<and> cm_entry m' = cm_entry m \<and>
    (\<forall>a. a \<noteq> cd_getReadIndex obj \<longrightarrow> cm_word m' a = cm_word m a) \<and>
    cm_exec m' = cm_exec m @ map (Pair (cd_notifyHandle obj)) (circ_registered obj evs)"
proof -
  define m2 where "m2 = clog_if (cd_cacheEnabled obj) C_wait (clog (Int_clear (cd_remoteProcId obj))
    (clog_if (cd_cacheEnabled obj) (C_inv (cd_getWriteIndex obj) sizeof_Ptr)
      (clog_if (cd_cacheEnabled obj) (C_inv (cd_getBuffer obj) (cd_opCacheSize obj)) m)))"
  have "circ_in k obj m2 evs" using assms(2) by (simp add: m2_def)
  from circ_isr_drains [OF assms(1) this assms(3)] show ?thesis
    by (simp add: NotifyDriverCirc_isr_def m2_def Let_def)
qed

section \<open>Two processors\<close>

text \<open>The buffer one instance fills is the one the other empties.\<close>

definition circ_meet :: "NotifyDriverCirc_Object \<Rightarrow> NotifyDriverCirc_Object \<Rightarrow> bool" where
  "circ_meet A B \<longleftrightarrow> cd_getBuffer B = cd_putBuffer A \<and> cd_getWriteIndex B = cd_putWriteIndex A \<and>
     cd_getReadIndex B = cd_putReadIndex A"

lemma circ_init_eq:
  assumes "NotifyDriverCirc_Instance_init M F p invalid obj0 m = Ok (A, m')" and "circ_minAlign M p = Ok n"
  shows "cd_putBuffer A = cp_sharedAddr p +
      (if cc_self F < cp_remoteProcId p then 0 else 1) * (circ_bufSize F n + 2 * circ_ctrlSize n)"
    and "cd_putWriteIndex A = cd_putBuffer A + circ_bufSize F n"
    and "cd_putReadIndex A = cd_putBuffer A + circ_bufSize F n + circ_ctrlSize n"
    and "cd_getBuffer A = cp_sharedAddr p +
      (if cc_self F < cp_remoteProcId p then 1 else 0) * (circ_bufSize F n + 2 * circ_ctrlSize n)"
    and "cd_getWriteIndex A = cd_getBuffer A + circ_bufSize F n"
    and "cd_getReadIndex A = cd_getBuffer A + circ_bufSize F n + circ_ctrlSize n"
    and "cm_word m' = (cm_word m)(cd_putWriteIndex A := 0, cd_putReadIndex A := 0)"
  using assms
  by (auto simp: NotifyDriverCirc_Instance_init_def circ_layout_def Let_def Assert_isTrue_def
      res_bind_eq_Ok split: if_splits)

text \<open>Two processors that initialise their instances alike have ends that meet.\<close>

lemma circ_init_meet:
  assumes a: "NotifyDriverCirc_Instance_init M F p invalid objA m = Ok (A, m1)"
    and b: "NotifyDriverCirc_Instance_init M (F\<lparr>cc_self := cp_remoteProcId p\<rparr>)
      (p\<lparr>cp_remoteProcId := cc_self F\<rparr>) invalid objB m1 = Ok (B, m2)"
    and n: "circ_minAlign M p = Ok n" and d: "cc_self F \<noteq> cp_remoteProcId p"
  shows "circ_meet A B \<and> circ_meet B A"
proof -
  have n': "circ_minAlign M (p\<lparr>cp_remoteProcId := cc_self F\<rparr>) = Ok n"
    using n by (simp add: circ_minAlign_def split del: if_split cong: if_cong)
  have s: "circ_bufSize (F\<lparr>cc_self := cp_remoteProcId p\<rparr>) n = circ_bufSize F n"
    by (simp add: circ_bufSize_def)
  have "cp_remoteProcId p < cc_self F \<longleftrightarrow> \<not> cc_self F < cp_remoteProcId p" using d by auto
  then show ?thesis
    using circ_init_eq(1-6) [OF a n] circ_init_eq(1-6) [OF b n'] s
    by (simp add: circ_meet_def)
qed

lemma circ_ctrlSize_pos:
  assumes "n = 2 ^ j" and "j < 31"
  shows "circ_ctrlSize n \<noteq> 0"
proof -
  have "(2::nat) ^ j \<le> 2 ^ 30" using assms(2) by (intro power_increasing) simp_all
  then have "unat (circ_ctrlSize n) = round_up 4 (2 ^ j)"
    using assms unat_Ipc_roundup [of n j "4"] by (simp add: circ_ctrlSize_def)
  then have "4 \<le> unat (circ_ctrlSize n)" using round_up_bounds(1) [of "2 ^ j" 4] by simp
  then show ?thesis by auto
qed

lemma circ_init_empty:
  assumes a: "NotifyDriverCirc_Instance_init M F p invalid objA m = Ok (A, m1)"
    and n: "circ_minAlign M p = Ok (2 ^ j)" and "j < 31" and "circ_sized F k"
  shows "circ_wired F k A \<and> circ_out k A m1 []"
  using circ_init_eq [OF a n] circ_ctrlSize_pos [OF refl assms(3)] assms(4)
  by (auto simp: circ_wired_def circ_holds_def)

text \<open>
  Runs of events sent without waiting and of interrupts served. An event is accepted or refused;
  those accepted reach \<open>Notify_exec\<close> in order, or are still in the buffer.
\<close>

datatype circ_op = Emit EventEntry | Serve

fun circ_step ::
  "circ_config \<Rightarrow> nat \<Rightarrow> NotifyDriverCirc_Object \<Rightarrow> NotifyDriverCirc_Object \<Rightarrow> circ_op \<Rightarrow> circ_mem \<Rightarrow>
   (bool \<times> circ_mem) res" where
  "circ_step F k A B (Emit e) m =
     NotifyDriverCirc_sendEvent (\<lambda>m. m) F 2 A (ev_eventid e) (ev_payload e) False m"
| "circ_step F k A B Serve m = res_bind (NotifyDriverCirc_isr F (2 ^ k) B m) (\<lambda>m'. Ok (True, m'))"

fun circ_accepted :: "circ_op list \<Rightarrow> bool list \<Rightarrow> EventEntry list" where
  "circ_accepted (Emit e # ops) (r # rs) = (if r then [e] else []) @ circ_accepted ops rs"
| "circ_accepted (Serve # ops) (r # rs) = circ_accepted ops rs"
| "circ_accepted ops rs = []"

lemma circ_run_in_order:
  assumes A: "circ_wired F k A" and B: "circ_wired F k B" and J: "circ_meet A B"
    and "circ_out k A m evs"
  shows "\<exists>rs m' evs' ds. run_ops (circ_step F k A B) ops m = Ok (rs, m') \<and> circ_out k A m' evs' \<and>
    cm_exec m' = cm_exec m @ map (Pair (cd_notifyHandle B)) (circ_registered B ds) \<and>
    evs @ circ_accepted ops rs = ds @ evs'"
  using assms(4)
proof (induction ops arbitrary: m evs)
  case Nil
  then show ?case by (intro exI [of _ "[]"] exI [of _ m] exI [of _ evs]) (simp add: circ_registered_def)
next
  case (Cons op ops)
  show ?case
  proof (cases op)
    case (Emit e)
    have eta: "\<lparr>ev_eventid = ev_eventid e, ev_payload = ev_payload e\<rparr> = e" by simp
    have "\<exists>r m1 evs1. NotifyDriverCirc_sendEvent (\<lambda>m. m) F 2 A (ev_eventid e) (ev_payload e) False m = Ok (r, m1) \<and>
      circ_out k A m1 evs1 \<and> evs1 = evs @ (if r then [e] else []) \<and> cm_exec m1 = cm_exec m"
    proof (cases "Suc (length evs) < 2 ^ k")
      case True
      obtain m1 where "NotifyDriverCirc_sendEvent (\<lambda>m. m) F 2 A (ev_eventid e) (ev_payload e) False m = Ok (True, m1)"
        "cm_exec m1 = cm_exec m" "circ_out k A m1 (evs @ [e])"
        using NotifyDriverCirc_sendEvent_room [OF A Cons.prems True, of "\<lambda>m. m" 2 "ev_eventid e" "ev_payload e" False]
        unfolding eta circ_deposit_def by blast
      then show ?thesis by (intro exI [of _ True] exI [of _ m1]) simp
    next
      case False
      then have full: "Suc (length evs) = 2 ^ k" using Cons.prems by (simp add: circ_holds_def)
      obtain m1 where "NotifyDriverCirc_sendEvent (\<lambda>m. m) F (Suc (Suc 0)) A (ev_eventid e) (ev_payload e) False m =
          Ok (False, m1)" "cm_word m1 = cm_word m" "cm_entry m1 = cm_entry m" "cm_exec m1 = cm_exec m"
        using NotifyDriverCirc_sendEvent_full [OF A Cons.prems full, of "\<lambda>m. m" 0] by auto
      then show ?thesis
        using Cons.prems by (intro exI [of _ False] exI [of _ m1]) (simp add: circ_holds_def numeral_2_eq_2)
    qed
    then obtain r m1 evs1 where s: "circ_step F k A B op m = Ok (r, m1)" "circ_out k A m1 evs1"
      "evs1 = evs @ (if r then [e] else [])" "cm_exec m1 = cm_exec m"
      unfolding Emit circ_step.simps by blast
    obtain rs m' evs' ds where IH: "run_ops (circ_step F k A B) ops m1 = Ok (rs, m')" "circ_out k A m' evs'"
      "cm_exec m' = cm_exec m1 @ map (Pair (cd_notifyHandle B)) (circ_registered B ds)"
      "evs1 @ circ_accepted ops rs = ds @ evs'" using Cons.IH [OF s(2)] by blast
    have "run_ops (circ_step F k A B) (op # ops) m = Ok (r # rs, m')"
      by (simp only: run_ops.simps s(1) res_bind_simps prod.case IH(1))
    moreover have "evs @ circ_accepted (op # ops) (r # rs) = ds @ evs'"
      using s(3) IH(4) Emit by simp
    ultimately show ?thesis using IH(2,3) s(4) by metis
  next
    case Serve
    have "circ_in k B m evs" using Cons.prems J by (simp add: circ_meet_def)
    moreover have "length evs \<le> 2 ^ k" using Cons.prems by (simp add: circ_holds_def)
    ultimately obtain m1 where m1: "NotifyDriverCirc_isr F (2 ^ k) B m = Ok m1" "circ_in k B m1 []"
      "cm_exec m1 = cm_exec m @ map (Pair (cd_notifyHandle B)) (circ_registered B evs)"
      using NotifyDriverCirc_isr_drains [OF B] by blast
    have "circ_out k A m1 []" using m1(2) J by (simp add: circ_meet_def)
    then obtain rs m' evs' ds where IH: "run_ops (circ_step F k A B) ops m1 = Ok (rs, m')" "circ_out k A m' evs'"
      "cm_exec m' = cm_exec m1 @ map (Pair (cd_notifyHandle B)) (circ_registered B ds)"
      "[] @ circ_accepted ops rs = ds @ evs'" using Cons.IH by blast
    have "circ_registered B (evs @ ds) = circ_registered B evs @ circ_registered B ds"
      by (simp add: circ_registered_def)
    then have "cm_exec m' = cm_exec m @ map (Pair (cd_notifyHandle B)) (circ_registered B (evs @ ds))"
      using IH(3) m1(3) by simp
    moreover have "run_ops (circ_step F k A B) (op # ops) m = Ok (True # rs, m')"
      using m1(1) by (simp only: run_ops.simps Serve circ_step.simps res_bind_simps prod.case IH(1))
    moreover have "evs @ circ_accepted (op # ops) (True # rs) = (evs @ ds) @ evs'"
      using IH(4) Serve by simp
    ultimately show ?thesis using IH(2) by metis
  qed
qed

end
