(* ===== verification/NotifyDriverShm.thy ===== *)
theory NotifyDriverShm
imports SharedRegion Queues
begin

text \<open>
  The notification driver of \<open>ti/sdo/ipc/notifyDrivers/NotifyDriverShm.c\<close>: for each direction
  a control structure and one slot for each event in shared memory, which the sender raises and
  the interrupt service routine of the receiver lowers, lowest event first.
\<close>

section \<open>State\<close>

abbreviation shm_S_SUCCESS :: int where "shm_S_SUCCESS \<equiv> 0"
abbreviation shm_E_TIMEOUT :: int where "shm_E_TIMEOUT \<equiv> -6"
abbreviation shm_E_EVTNOTREGISTERED :: int where "shm_E_EVTNOTREGISTERED \<equiv> -14"
abbreviation shm_E_EVTDISABLED :: int where "shm_E_EVTDISABLED \<equiv> -15"
abbreviation shm_E_NOTINITIALIZED :: int where "shm_E_NOTINITIALIZED \<equiv> -16"

definition NotifyDriverShm_DOWN :: u32 where "NotifyDriverShm_DOWN = 0"
definition NotifyDriverShm_UP :: u32 where "NotifyDriverShm_UP = 1"
definition NotifyDriverShm_INIT_STAMP :: u32 where "NotifyDriverShm_INIT_STAMP = 0xA9C8B7D6"

lemma shm_UP_DOWN [simp]:
  "NotifyDriverShm_UP \<noteq> NotifyDriverShm_DOWN" "NotifyDriverShm_DOWN \<noteq> NotifyDriverShm_UP"
  by (simp_all add: NotifyDriverShm_UP_def NotifyDriverShm_DOWN_def)

record ShmEntry =
  se_flag :: u32
  se_payload :: u32

record ProcCtrl =
  pc_recvInitStatus :: u32
  pc_sendInitStatus :: u32
  pc_eventRegMask :: u32
  pc_eventEnableMask :: u32

abbreviation sizeof_ShmEntry :: sizeT where "sizeof_ShmEntry \<equiv> 12"
abbreviation sizeof_ProcCtrl :: sizeT where "sizeof_ProcCtrl \<equiv> 16"

record shm_config =
  shc_numEvents :: u32
  shc_pollCount :: u32
  shc_asserts :: bool
  shc_self :: u16
  shc_invalidId :: u16

record NotifyDriverShm_Params =
  shp_sharedAddr :: ptr
  shp_cacheEnabled :: bool
  shp_cacheLineSize :: sizeT
  shp_remoteProcId :: u16

text \<open>The identifiers of the interrupts, which only the interrupt module reads, are left out.\<close>

record NotifyDriverShm_Object =
  sd_selfProcCtrl :: ptr
  sd_otherProcCtrl :: ptr
  sd_selfEventChart :: ptr
  sd_otherEventChart :: ptr
  sd_notifyHandle :: ptr
  sd_regChart :: "u32 list"
  sd_selfId :: u32
  sd_otherId :: u32
  sd_remoteProcId :: u16
  sd_nesting :: u32
  sd_cacheEnabled :: bool
  sd_eventEntrySize :: sizeT

text \<open>
  Shared memory, coherent; the log (newest first) has the cache operations and the interrupt
  controls, and the events handed to \<open>Notify_exec\<close> are kept in order.
\<close>

datatype shm_event =
    Sh_inv ptr sizeT | Sh_wbInv ptr sizeT | Sh_hwi_disable | Sh_hwi_restore
  | Sh_register u16 | Sh_unregister u16 | Sh_send u16 u32 | Sh_clear u16 | Sh_enable u16 | Sh_disable u16
  | Sh_free ptr

record shm_mem =
  sm_ctrl :: "ptr \<Rightarrow> ProcCtrl"
  sm_entry :: "ptr \<Rightarrow> ShmEntry"
  sm_log :: "shm_event list"
  sm_exec :: "(ptr \<times> u32 \<times> u32) list"

definition shlog :: "shm_event \<Rightarrow> shm_mem \<Rightarrow> shm_mem" where
  "shlog e m = m\<lparr>sm_log := e # sm_log m\<rparr>"

definition shlog_if :: "bool \<Rightarrow> shm_event \<Rightarrow> shm_mem \<Rightarrow> shm_mem" where
  "shlog_if b e m = (if b then shlog e m else m)"

definition put_ctrl :: "ptr \<Rightarrow> (ProcCtrl \<Rightarrow> ProcCtrl) \<Rightarrow> shm_mem \<Rightarrow> shm_mem" where
  "put_ctrl a f m = m\<lparr>sm_ctrl := (sm_ctrl m)(a := f (sm_ctrl m a))\<rparr>"

definition put_slot :: "ptr \<Rightarrow> (ShmEntry \<Rightarrow> ShmEntry) \<Rightarrow> shm_mem \<Rightarrow> shm_mem" where
  "put_slot a f m = m\<lparr>sm_entry := (sm_entry m)(a := f (sm_entry m a))\<rparr>"

definition shm_exec :: "NotifyDriverShm_Object \<Rightarrow> u32 \<Rightarrow> u32 \<Rightarrow> shm_mem \<Rightarrow> shm_mem" where
  "shm_exec obj eventId payload m = m\<lparr>sm_exec := sm_exec m @ [(sd_notifyHandle obj, eventId, payload)]\<rparr>"

lemma shm_mem_simps [simp]:
  "sm_ctrl (shlog e m) = sm_ctrl m" "sm_entry (shlog e m) = sm_entry m" "sm_exec (shlog e m) = sm_exec m"
  "sm_ctrl (shlog_if b e m) = sm_ctrl m" "sm_entry (shlog_if b e m) = sm_entry m"
  "sm_exec (shlog_if b e m) = sm_exec m"
  "sm_ctrl (put_ctrl a f m) = (sm_ctrl m)(a := f (sm_ctrl m a))" "sm_entry (put_ctrl a f m) = sm_entry m"
  "sm_exec (put_ctrl a f m) = sm_exec m"
  "sm_ctrl (put_slot a g m) = sm_ctrl m" "sm_entry (put_slot a g m) = (sm_entry m)(a := g (sm_entry m a))"
  "sm_exec (put_slot a g m) = sm_exec m"
  "sm_ctrl (shm_exec obj x y m) = sm_ctrl m" "sm_entry (shm_exec obj x y m) = sm_entry m"
  "sm_exec (shm_exec obj x y m) = sm_exec m @ [(sd_notifyHandle obj, x, y)]"
  by (simp_all add: shlog_def shlog_if_def put_ctrl_def put_slot_def shm_exec_def)

section \<open>Layout\<close>

text \<open>\<open>EVENTENTRY\<close>, and the alignment in use: the cache line of the parameters, or of the region when smaller.\<close>

definition EVENTENTRY :: "ptr \<Rightarrow> sizeT \<Rightarrow> u32 \<Rightarrow> ptr" where
  "EVENTENTRY eventChart entrySize eventId = eventChart + entrySize * eventId"

definition shm_minAlign :: "SharedRegion_Module \<Rightarrow> NotifyDriverShm_Params \<Rightarrow> sizeT res" where
  "shm_minAlign M p =
     (let minAlign = (if shp_cacheLineSize p = 0 then 4 else shp_cacheLineSize p);
          regionId = SharedRegion_getId M (shp_sharedAddr p) in
      if regionId \<noteq> SharedRegion_INVALIDREGIONID then
        res_bind (SharedRegion_getCacheLineSize M regionId) (\<lambda>c. Ok (if c < minAlign then c else minAlign))
      else Ok minAlign)"

definition NotifyDriverShm_sharedMemReq ::
  "SharedRegion_Module \<Rightarrow> shm_config \<Rightarrow> NotifyDriverShm_Params \<Rightarrow> sizeT res" where
  "NotifyDriverShm_sharedMemReq M F p =
     res_bind (shm_minAlign M p) (\<lambda>minAlign.
     Ok (Ipc_roundup sizeof_ProcCtrl minAlign * 2 + Ipc_roundup sizeof_ShmEntry minAlign * 2 * shc_numEvents F))"

text \<open>Which side is which, and where its structures lie.\<close>

definition shm_layout ::
  "shm_config \<Rightarrow> ptr \<Rightarrow> bool \<Rightarrow> sizeT \<Rightarrow> NotifyDriverShm_Object \<Rightarrow> NotifyDriverShm_Object" where
  "shm_layout F addr lower minAlign obj =
     (let selfId = (if lower then 0 else 1); otherId = (if lower then 1 else 0);
          procCtrlSize = Ipc_roundup sizeof_ProcCtrl minAlign;
          eventEntrySize = Ipc_roundup sizeof_ShmEntry minAlign in
      obj\<lparr>sd_selfId := selfId, sd_otherId := otherId, sd_eventEntrySize := eventEntrySize,
          sd_selfProcCtrl := addr + selfId * procCtrlSize,
          sd_otherProcCtrl := addr + otherId * procCtrlSize,
          sd_selfEventChart := addr + 2 * procCtrlSize + eventEntrySize * shc_numEvents F * selfId,
          sd_otherEventChart := addr + 2 * procCtrlSize + eventEntrySize * shc_numEvents F * otherId\<rparr>)"

text \<open>
  \<open>mem\<close> is whether there is memory for the chart of registered events, which starts out with
  \<open>-1\<close> everywhere. The status is that of an XDCtools constructor.
\<close>

definition NotifyDriverShm_Instance_init ::
  "SharedRegion_Module \<Rightarrow> shm_config \<Rightarrow> bool \<Rightarrow> NotifyDriverShm_Params \<Rightarrow> NotifyDriverShm_Object \<Rightarrow>
   shm_mem \<Rightarrow> (int \<times> NotifyDriverShm_Object \<times> shm_mem) res" where
  "NotifyDriverShm_Instance_init M F mem p obj0 m =
     Assert_isTrue (shc_asserts F)
       (shp_remoteProcId p \<noteq> shc_invalidId F \<and> shp_remoteProcId p \<noteq> shc_self F) A_invParam (
     let regionId = SharedRegion_getId M (shp_sharedAddr p) in
     res_bind (if regionId \<noteq> SharedRegion_INVALIDREGIONID
               then res_bind (SharedRegion_isCacheEnabled M regionId) (\<lambda>c. Ok (c \<and> shp_cacheEnabled p))
               else Ok (shp_cacheEnabled p)) (\<lambda>cacheEnabled.
     res_bind (shm_minAlign M p) (\<lambda>minAlign.
     if shc_asserts F \<and> minAlign = 0 then Err Div_by_zero else
     Assert_isTrue (shc_asserts F) (shp_sharedAddr p mod minAlign = 0) A_addrNotCacheAligned (
     let obj = (shm_layout F (shp_sharedAddr p) (shc_self F < shp_remoteProcId p) minAlign obj0)
                 \<lparr>sd_cacheEnabled := cacheEnabled, sd_remoteProcId := shp_remoteProcId p, sd_nesting := 0\<rparr> in
     if \<not> mem then Ok (1, obj, m)
     else
       let obj1 = obj\<lparr>sd_regChart := replicate (unat (shc_numEvents F)) (-1)\<rparr>;
           m1 = put_ctrl (sd_selfProcCtrl obj1) (\<lambda>c. c\<lparr>pc_eventEnableMask := 0xFFFFFFFF\<rparr>) m;
           m2 = shlog_if cacheEnabled (Sh_wbInv (sd_selfProcCtrl obj1) sizeof_ProcCtrl) m1 in
       Ok (0, obj1, shlog (Sh_register (sd_remoteProcId obj1)) m2)))))"

definition NotifyDriverShm_Instance_finalize ::
  "ptr \<Rightarrow> NotifyDriverShm_Object \<Rightarrow> int \<Rightarrow> shm_mem \<Rightarrow> shm_mem" where
  "NotifyDriverShm_Instance_finalize chart obj status m =
     (if status = 0 then
        shlog (Sh_free chart) (shlog (Sh_unregister (sd_remoteProcId obj))
          (shlog (Sh_wbInv (sd_selfProcCtrl obj) sizeof_ProcCtrl)
            (put_ctrl (sd_selfProcCtrl obj) (\<lambda>c. c\<lparr>pc_recvInitStatus := 0, pc_sendInitStatus := 0\<rparr>) m)))
      else m)"

definition NotifyDriverShm_setNotifyHandle ::
  "NotifyDriverShm_Object \<Rightarrow> ptr \<Rightarrow> shm_mem \<Rightarrow> NotifyDriverShm_Object \<times> shm_mem" where
  "NotifyDriverShm_setNotifyHandle obj h m =
     (obj\<lparr>sd_notifyHandle := h\<rparr>,
      shlog_if (sd_cacheEnabled obj) (Sh_wbInv (sd_selfProcCtrl obj) sizeof_ProcCtrl)
        (put_ctrl (sd_selfProcCtrl obj)
          (\<lambda>c. c\<lparr>pc_recvInitStatus := NotifyDriverShm_INIT_STAMP,
                pc_sendInitStatus := NotifyDriverShm_INIT_STAMP\<rparr>) m))"

section \<open>Registering\<close>

definition NotifyDriverShm_disable :: "NotifyDriverShm_Object \<Rightarrow> shm_mem \<Rightarrow> shm_mem" where
  "NotifyDriverShm_disable obj m = shlog (Sh_disable (sd_remoteProcId obj)) m"

definition NotifyDriverShm_enable :: "NotifyDriverShm_Object \<Rightarrow> shm_mem \<Rightarrow> shm_mem" where
  "NotifyDriverShm_enable obj m = shlog (Sh_enable (sd_remoteProcId obj)) m"

text \<open>
  The chart of registered events: insertion at the first free index \<open>i\<close> moves greater events up
  by one (the inner loop, from \<open>i - 1\<close> down), removal moves the events behind down by one.
\<close>

fun chart_shift :: "u32 \<Rightarrow> u32 list \<Rightarrow> nat \<Rightarrow> u32 list \<times> nat" where
  "chart_shift eventId chart 0 = (chart, 0)"
| "chart_shift eventId chart (Suc j) =
     (if eventId < chart ! j then chart_shift eventId (chart[Suc j := chart ! j]) j else (chart, Suc j))"

fun chart_insert :: "u32 \<Rightarrow> u32 list \<Rightarrow> nat \<Rightarrow> nat \<Rightarrow> u32 list" where
  "chart_insert eventId chart 0 i = chart"
| "chart_insert eventId chart (Suc n) i =
     (if chart ! i = -1 then (let (chart1, k) = chart_shift eventId chart i in chart1[k := eventId])
      else chart_insert eventId chart n (Suc i))"

fun chart_close :: "u32 list \<Rightarrow> nat \<Rightarrow> nat \<Rightarrow> u32 list" where
  "chart_close chart 0 j = chart"
| "chart_close chart (Suc n) j =
     (if chart ! j \<noteq> -1 then chart_close (chart[j - 1 := chart ! j, j := -1]) n (Suc j) else chart)"

fun chart_remove :: "u32 \<Rightarrow> u32 list \<Rightarrow> nat \<Rightarrow> nat \<Rightarrow> u32 list" where
  "chart_remove eventId chart 0 i = chart"
| "chart_remove eventId chart (Suc n) i =
     (if eventId = chart ! i then chart_close (chart[i := -1]) n (Suc i)
      else chart_remove eventId chart n (Suc i))"

definition shm_lower :: "NotifyDriverShm_Object \<Rightarrow> u32 \<Rightarrow> shm_mem \<Rightarrow> shm_mem" where
  "shm_lower obj eventId m =
     (let eventEntry = EVENTENTRY (sd_selfEventChart obj) (sd_eventEntrySize obj) eventId in
      shlog_if (sd_cacheEnabled obj) (Sh_wbInv eventEntry sizeof_ShmEntry)
        (put_slot eventEntry (\<lambda>e. e\<lparr>se_flag := NotifyDriverShm_DOWN\<rparr>) m))"

definition NotifyDriverShm_registerEvent ::
  "NotifyDriverShm_Object \<Rightarrow> u32 \<Rightarrow> shm_mem \<Rightarrow> NotifyDriverShm_Object \<times> shm_mem" where
  "NotifyDriverShm_registerEvent obj eventId m =
     (let m1 = NotifyDriverShm_disable obj m;
          obj1 = obj\<lparr>sd_regChart := chart_insert eventId (sd_regChart obj) (length (sd_regChart obj)) 0\<rparr>;
          m2 = shm_lower obj1 eventId m1;
          m3 = put_ctrl (sd_selfProcCtrl obj1)
                 (\<lambda>c. c\<lparr>pc_eventRegMask := SET_BIT (pc_eventRegMask c) eventId\<rparr>) m2;
          m4 = shlog_if (sd_cacheEnabled obj1) (Sh_wbInv (sd_selfProcCtrl obj1) sizeof_ProcCtrl) m3
      in (obj1, NotifyDriverShm_enable obj1 m4))"

definition NotifyDriverShm_unregisterEvent ::
  "NotifyDriverShm_Object \<Rightarrow> u32 \<Rightarrow> shm_mem \<Rightarrow> NotifyDriverShm_Object \<times> shm_mem" where
  "NotifyDriverShm_unregisterEvent obj eventId m =
     (let m1 = NotifyDriverShm_disable obj m;
          m2 = put_ctrl (sd_selfProcCtrl obj)
                 (\<lambda>c. c\<lparr>pc_eventRegMask := CLEAR_BIT (pc_eventRegMask c) eventId\<rparr>) m1;
          m3 = shlog_if (sd_cacheEnabled obj) (Sh_wbInv (sd_selfProcCtrl obj) sizeof_ProcCtrl) m2;
          m4 = shm_lower obj eventId m3;
          obj1 = obj\<lparr>sd_regChart := chart_remove eventId (sd_regChart obj) (length (sd_regChart obj)) 0\<rparr>
      in (obj1, NotifyDriverShm_enable obj1 m4))"

definition NotifyDriverShm_disableEvent ::
  "shm_config \<Rightarrow> NotifyDriverShm_Object \<Rightarrow> u32 \<Rightarrow> shm_mem \<Rightarrow> shm_mem res" where
  "NotifyDriverShm_disableEvent F obj eventId m =
     Assert_isTrue (shc_asserts F) (eventId < shc_numEvents F) A_invArgument (
     let c = sd_cacheEnabled obj;
         m1 = shlog Sh_hwi_restore (put_ctrl (sd_selfProcCtrl obj)
                (\<lambda>c. c\<lparr>pc_eventEnableMask := CLEAR_BIT (pc_eventEnableMask c) eventId\<rparr>)
                (shlog Sh_hwi_disable m));
         m2 = shlog_if c (Sh_wbInv (sd_selfProcCtrl obj) sizeof_ProcCtrl) m1;
         eventEntry = EVENTENTRY (sd_selfEventChart obj) (sd_eventEntrySize obj) eventId;
         m3 = NotifyDriverShm_disable obj (shlog_if c (Sh_inv eventEntry sizeof_ShmEntry) m2);
         m4 = (if se_flag (sm_entry m3 eventEntry) = NotifyDriverShm_UP
               then shm_exec obj eventId (se_payload (sm_entry m3 eventEntry)) (shm_lower obj eventId m3)
               else m3)
     in Ok (NotifyDriverShm_enable obj m4))"

definition NotifyDriverShm_enableEvent ::
  "shm_config \<Rightarrow> NotifyDriverShm_Object \<Rightarrow> u32 \<Rightarrow> shm_mem \<Rightarrow> shm_mem res" where
  "NotifyDriverShm_enableEvent F obj eventId m =
     Assert_isTrue (shc_asserts F) (eventId < shc_numEvents F) A_invArgument (
     let m1 = shlog Sh_hwi_restore (put_ctrl (sd_selfProcCtrl obj)
                (\<lambda>c. c\<lparr>pc_eventEnableMask := SET_BIT (pc_eventEnableMask c) eventId\<rparr>)
                (shlog Sh_hwi_disable m))
     in Ok (shlog_if (sd_cacheEnabled obj) (Sh_wbInv (sd_selfProcCtrl obj) sizeof_ProcCtrl) m1))"

section \<open>Sending and receiving\<close>

text \<open>
  The loop that waits for the slot to be lowered: whether it was (\<open>False\<close> is the time-out).
  \<open>other\<close> is what the receiver does between two looks at the flag.
\<close>

fun shm_wait ::
  "(shm_mem \<Rightarrow> shm_mem) \<Rightarrow> shm_config \<Rightarrow> NotifyDriverShm_Object \<Rightarrow> nat \<Rightarrow> u32 \<Rightarrow> ptr \<Rightarrow> shm_mem \<Rightarrow>
   (bool \<times> shm_mem) res" where
  "shm_wait other F obj n i eventEntry m =
     (if se_flag (sm_entry m eventEntry) = NotifyDriverShm_DOWN then Ok (True, m)
      else
        let m1 = shlog Sh_hwi_restore m; i1 = i + 1 in
        if i1 \<noteq> -1 \<and> i1 = shc_pollCount F then Ok (False, m1)
        else case n of 0 \<Rightarrow> Err Out_of_fuel
          | Suc k \<Rightarrow>
              shm_wait other F obj k i1 eventEntry
                (shlog Sh_hwi_disable
                  (other (shlog_if (sd_cacheEnabled obj) (Sh_inv eventEntry sizeof_ShmEntry) m1))))"

declare shm_wait.simps [simp del]

definition NotifyDriverShm_sendEvent ::
  "(shm_mem \<Rightarrow> shm_mem) \<Rightarrow> shm_config \<Rightarrow> nat \<Rightarrow> NotifyDriverShm_Object \<Rightarrow> u32 \<Rightarrow> u32 \<Rightarrow> bool \<Rightarrow>
   shm_mem \<Rightarrow> (int \<times> shm_mem) res" where
  "NotifyDriverShm_sendEvent other F n obj eventId payload waitClear m =
     (let eventEntry = EVENTENTRY (sd_otherEventChart obj) (sd_eventEntrySize obj) eventId;
          c = sd_cacheEnabled obj;
          m1 = shlog_if c (Sh_inv (sd_otherProcCtrl obj) sizeof_ProcCtrl) m;
          ctrl = sm_ctrl m1 (sd_otherProcCtrl obj) in
      if pc_recvInitStatus ctrl \<noteq> NotifyDriverShm_INIT_STAMP then Ok (shm_E_NOTINITIALIZED, m1)
      else if \<not> TEST_BIT (pc_eventEnableMask ctrl) eventId then Ok (shm_E_EVTDISABLED, m1)
      else if \<not> TEST_BIT (pc_eventRegMask ctrl) eventId then Ok (shm_E_EVTNOTREGISTERED, m1)
      else
        res_bind (if waitClear
            then shm_wait other F obj n 0 eventEntry
              (shlog Sh_hwi_disable (shlog_if c (Sh_inv eventEntry sizeof_ShmEntry) m1))
            else Ok (True, shlog Sh_hwi_disable m1)) (\<lambda>(clear, m2).
        if \<not> clear then Ok (shm_E_TIMEOUT, m2)
        else
          let m3 = put_slot eventEntry
                (\<lambda>e. e\<lparr>se_payload := payload, se_flag := NotifyDriverShm_UP\<rparr>) m2;
              m4 = shlog_if c (Sh_wbInv eventEntry sizeof_ShmEntry) m3;
              m5 = shlog (Sh_send (sd_remoteProcId obj) eventId) m4
          in Ok (shm_S_SUCCESS, shlog Sh_hwi_restore m5)))"

text \<open>The rounds of the service routine, from index \<open>i\<close> of the chart on.\<close>

fun shm_isr_loop ::
  "nat \<Rightarrow> NotifyDriverShm_Object \<Rightarrow> nat \<Rightarrow> shm_mem \<Rightarrow> shm_mem res" where
  "shm_isr_loop 0 obj i m = Err Out_of_fuel"
| "shm_isr_loop (Suc n) obj i m =
     (let numEvents = length (sd_regChart obj);
          next_round = (\<lambda>i m. if i < numEvents then shm_isr_loop n obj i m else Ok m) in
      res_bind (arr_get (sd_regChart obj) i) (\<lambda>eventId.
      if eventId = -1 then Ok m
      else if \<not> TEST_BIT (pc_eventEnableMask (sm_ctrl m (sd_selfProcCtrl obj))) eventId
      then next_round (Suc i) m
      else
        let eventEntry = EVENTENTRY (sd_selfEventChart obj) (sd_eventEntrySize obj) eventId;
            m1 = shlog_if (sd_cacheEnabled obj) (Sh_inv eventEntry sizeof_ShmEntry) m in
        if se_flag (sm_entry m1 eventEntry) = NotifyDriverShm_UP then
          let payload = se_payload (sm_entry m1 eventEntry);
              m2 = shm_exec obj eventId payload (shm_lower obj eventId m1)
          in next_round 0 m2
        else next_round (Suc i) m1))"

definition NotifyDriverShm_isr :: "nat \<Rightarrow> NotifyDriverShm_Object \<Rightarrow> shm_mem \<Rightarrow> shm_mem res" where
  "NotifyDriverShm_isr n obj m = shm_isr_loop n obj 0 (shlog (Sh_clear (sd_remoteProcId obj)) m)"

end
