(* ===== verification/NotifyDriverShm_Slots.thy ===== *)
theory NotifyDriverShm_Slots
imports NotifyDriverShm
begin

text \<open>
  What the two ends of a \<open>NotifyDriverShm\<close> line do together: the chart of registered events is
  a sorted list, and every event has one slot that holds at most one payload.
\<close>

section \<open>The chart of registered events\<close>

definition chart_of :: "nat \<Rightarrow> u32 list \<Rightarrow> u32 list" where
  "chart_of n evs = evs @ replicate (n - length evs) (-1)"

lemma insort_snoc_less: "x < u \<Longrightarrow> sorted (us @ [u]) \<Longrightarrow> insort x (us @ [u]) = insort x us @ [u]"
  by (induction us) auto

lemma insort_last: "\<forall>y\<in>set us. y < x \<Longrightarrow> insort x us = us @ [x]"
  by (induction us) auto

lemma chart_shift_insort:
  assumes "sorted us" and "x \<notin> set us"
  shows "(let (c, k) = chart_shift x (us @ y # zs) (length us) in c[k := x]) = insort x us @ zs"
  using assms
proof (induction us arbitrary: y zs rule: rev_induct)
  case (snoc u us)
  show ?case
  proof (cases "x < u")
    case True
    then show ?thesis
      using snoc.IH [of u "u # zs"] snoc.prems insort_snoc_less [OF True, of us]
      by (simp add: nth_append list_update_append sorted_append)
  next
    case False
    then have "\<forall>v\<in>set (us @ [u]). v < x" using snoc.prems by (fastforce simp: sorted_append)
    from insort_last [OF this] show ?thesis using False
      by (simp add: nth_append list_update_append)
  qed
qed simp

lemma chart_insert_free:
  "-1 \<notin> set us \<Longrightarrow> length us < n \<Longrightarrow>
   chart_insert x (ys @ us @ -1 # zs) n (length ys) =
     (let (c, k) = chart_shift x (ys @ us @ -1 # zs) (length ys + length us) in c[k := x])"
proof (induction us arbitrary: ys n)
  case Nil
  then show ?case by (cases n) auto
next
  case (Cons u us)
  then obtain m where m: "n = Suc m" "length us < m" by (cases n) auto
  with Cons.IH [of m "ys @ [u]"] Cons.prems show ?case by auto
qed

lemma chart_insert_insort:
  assumes "sorted evs" and "-1 \<notin> set evs" and "x \<notin> set evs" and "length evs < n"
  shows "chart_insert x (chart_of n evs) n 0 = chart_of n (insort x evs)"
proof -
  obtain k where k: "n - length evs = Suc k" using assms(4) by (cases "n - length evs") auto
  then have "k = n - length (insort x evs)" by simp
  then show ?thesis
    using chart_insert_free [OF assms(2,4), of x "[]" "replicate k (-1)"] k
      chart_shift_insort [OF assms(1,3), of "-1" "replicate k (-1)"]
    by (simp add: chart_of_def)
qed

lemma chart_close_shift:
  "-1 \<notin> set vs \<Longrightarrow> length vs \<le> n \<Longrightarrow> (rs = [] \<and> n = length vs \<or> (\<exists>rs'. rs = -1 # rs')) \<Longrightarrow>
   chart_close (us @ -1 # vs @ rs) n (Suc (length us)) = us @ vs @ -1 # rs"
proof (induction vs arbitrary: us n)
  case Nil
  then show ?case by (cases n) (auto simp: nth_append)
next
  case (Cons v vs)
  then obtain m where m: "n = Suc m" "length vs \<le> m" by (cases n) auto
  with Cons.IH [of m "us @ [v]"] Cons.prems show ?case
    by (auto simp: nth_append list_update_append)
qed

lemma chart_remove_found:
  "x \<notin> set us \<Longrightarrow> length us < n \<Longrightarrow>
   chart_remove x (ys @ us @ x # zs) n (length ys) =
     chart_close (ys @ us @ -1 # zs) (n - length us - 1) (Suc (length ys + length us))"
proof (induction us arbitrary: ys n)
  case Nil
  then show ?case by (cases n) (auto simp: nth_append list_update_append)
next
  case (Cons u us)
  then obtain m where m: "n = Suc m" "length us < m" by (cases n) auto
  with Cons.IH [of m "ys @ [u]"] Cons.prems show ?case by (auto simp: nth_append)
qed

lemma chart_remove_missing:
  "x \<notin> set (drop i chart) \<Longrightarrow> i + n \<le> length chart \<Longrightarrow> chart_remove x chart n i = chart"
proof (induction n arbitrary: i)
  case (Suc n)
  then have "drop i chart = chart ! i # drop (Suc i) chart" by (simp add: Cons_nth_drop_Suc)
  with Suc show ?case by auto
qed simp

lemma chart_remove_remove1:
  assumes "-1 \<notin> set evs" and "x \<noteq> -1" and "length evs \<le> n"
  shows "chart_remove x (chart_of n evs) n 0 = chart_of n (remove1 x evs)"
proof (cases "x \<in> set evs")
  case True
  then obtain us vs where evs: "evs = us @ x # vs" "x \<notin> set us" by (meson split_list_first)
  let ?r = "replicate (n - length evs) (-1 :: u32)"
  have r: "?r = [] \<and> n - length us - 1 = length vs \<or> (\<exists>rs'. ?r = -1 # rs')"
    using evs assms(3) by (cases "n - length evs") auto
  have "chart_remove x (us @ x # vs @ ?r) n 0 = chart_close (us @ -1 # vs @ ?r) (n - length us - 1) (Suc (length us))"
    using chart_remove_found [OF evs(2), of n "[]" "vs @ ?r"] evs assms(3) by simp
  also have "\<dots> = us @ vs @ -1 # ?r"
    by (rule chart_close_shift) (use evs assms r in auto)
  finally show ?thesis
    using evs assms(3) by (simp add: chart_of_def remove1_append Suc_diff_le flip: replicate_Suc)
next
  case False
  then have "chart_remove x (chart_of n evs) n 0 = chart_of n evs"
    using assms by (intro chart_remove_missing) (auto simp: chart_of_def)
  then show ?thesis using False by (simp add: remove1_idem)
qed

lemma chart_of_nth:
  "i < length evs \<Longrightarrow> chart_of n evs ! i = evs ! i"
  "length evs \<le> i \<Longrightarrow> i < n \<Longrightarrow> chart_of n evs ! i = -1"
  "length evs \<le> n \<Longrightarrow> length (chart_of n evs) = n"
  by (simp_all add: chart_of_def nth_append)

section \<open>Slots\<close>

text \<open>
  The events registered at the receiver, those it has enabled, the payload waiting in each slot,
  and what the receiver has handed to \<open>Notify_exec\<close>.
\<close>

record slot_table =
  st_evs :: "u32 list"
  st_on :: "u32 \<Rightarrow> bool"
  st_slot :: "u32 \<Rightarrow> u32 option"
  st_exec :: "(u32 \<times> u32) list"

text \<open>A sender and a receiver over the same structures, with different slots for different events.\<close>

definition slot_at :: "NotifyDriverShm_Object \<Rightarrow> u32 \<Rightarrow> ptr" where
  "slot_at ro e = EVENTENTRY (sd_selfEventChart ro) (sd_eventEntrySize ro) e"

definition shm_wired :: "shm_config \<Rightarrow> NotifyDriverShm_Object \<Rightarrow> NotifyDriverShm_Object \<Rightarrow> bool" where
  "shm_wired F so ro \<longleftrightarrow> shc_numEvents F \<le> 32 \<and> sd_otherProcCtrl so = sd_selfProcCtrl ro \<and>
     sd_otherEventChart so = sd_selfEventChart ro \<and> sd_eventEntrySize so = sd_eventEntrySize ro \<and>
     (\<forall>e < shc_numEvents F. \<forall>f < shc_numEvents F. slot_at ro e = slot_at ro f \<longrightarrow> e = f)"

definition slot_rel :: "ShmEntry \<Rightarrow> u32 option \<Rightarrow> bool" where
  "slot_rel x p \<longleftrightarrow> (case p of None \<Rightarrow> se_flag x = NotifyDriverShm_DOWN
     | Some y \<Rightarrow> se_flag x = NotifyDriverShm_UP \<and> se_payload x = y)"

definition ctrl_rel :: "u32 \<Rightarrow> ProcCtrl \<Rightarrow> slot_table \<Rightarrow> bool" where
  "ctrl_rel N c a \<longleftrightarrow> pc_recvInitStatus c = NotifyDriverShm_INIT_STAMP \<and>
     (\<forall>e<N. TEST_BIT (pc_eventEnableMask c) e = st_on a e \<and> TEST_BIT (pc_eventRegMask c) e = (e \<in> set (st_evs a)))"

definition shm_rel ::
  "shm_config \<Rightarrow> NotifyDriverShm_Object \<Rightarrow> NotifyDriverShm_Object \<Rightarrow> shm_mem \<Rightarrow> slot_table \<Rightarrow> bool" where
  "shm_rel F so ro m a \<longleftrightarrow> shm_wired F so ro \<and>
     sd_regChart ro = chart_of (unat (shc_numEvents F)) (st_evs a) \<and>
     sorted (st_evs a) \<and> distinct (st_evs a) \<and> (\<forall>e\<in>set (st_evs a). e < shc_numEvents F) \<and>
     ctrl_rel (shc_numEvents F) (sm_ctrl m (sd_selfProcCtrl ro)) a \<and>
     (\<forall>e < shc_numEvents F. slot_rel (sm_entry m (slot_at ro e)) (st_slot a e)) \<and>
     sm_exec m = map (\<lambda>(e, p). (sd_notifyHandle ro, e, p)) (st_exec a)"

lemma shm_relD:
  assumes "shm_rel F so ro m a"
  shows "shm_wired F so ro" and "sd_regChart ro = chart_of (unat (shc_numEvents F)) (st_evs a)"
    and "sorted (st_evs a)" and "distinct (st_evs a)" and "\<And>e. e \<in> set (st_evs a) \<Longrightarrow> e < shc_numEvents F"
    and "ctrl_rel (shc_numEvents F) (sm_ctrl m (sd_selfProcCtrl ro)) a"
    and "\<And>e. e < shc_numEvents F \<Longrightarrow> slot_rel (sm_entry m (slot_at ro e)) (st_slot a e)"
    and "sm_exec m = map (\<lambda>(e, p). (sd_notifyHandle ro, e, p)) (st_exec a)"
  using assms by (simp_all add: shm_rel_def)

lemma shm_small_event: "N \<le> 32 \<Longrightarrow> e < N \<Longrightarrow> unat e < 32" for e N :: u32
  by (simp add: word_less_nat_alt word_le_nat_alt)

lemma not_event_m1: "N \<le> 32 \<Longrightarrow> e < N \<Longrightarrow> e \<noteq> -1" for e N :: u32
  using shm_small_event [of N e] by auto

lemma shm_evs_length:
  assumes "distinct evs" and "\<forall>e\<in>set evs. e < (N :: u32)"
  shows "length evs \<le> unat N" and "x \<notin> set evs \<Longrightarrow> x < N \<Longrightarrow> length evs < unat N"
proof -
  have len: "length xs \<le> unat N" if "distinct xs" "\<forall>e\<in>set xs. e < N" for xs
  proof -
    have inj: "inj_on unat (set xs)" by (auto simp: inj_on_def word_eq_unat)
    have "unat ` set xs \<subseteq> {..<unat N}" using that(2) by (auto simp: word_less_nat_alt)
    from card_mono [OF _ this] have "card (set xs) \<le> unat N" by (simp add: card_image [OF inj])
    then show ?thesis using distinct_card [OF that(1)] by simp
  qed
  from len [OF assms] show "length evs \<le> unat N" .
  show "length evs < unat N" if "x \<notin> set evs" "x < N"
    using len [of "x # evs"] assms that by simp
qed

text \<open>A change of memory at the slot of \<open>e\<close>, of the control structure, of the chart.\<close>

lemma shm_rel_change:
  assumes R: "shm_rel F so ro m a" and e: "e < shc_numEvents F"
    and obj: "ro' = ro\<lparr>sd_regChart := chart_of (unat (shc_numEvents F)) evs\<rparr>"
    and evs: "sorted evs" "distinct evs" "\<forall>x\<in>set evs. x < shc_numEvents F"
    and ctrl: "ctrl_rel (shc_numEvents F) (sm_ctrl m' (sd_selfProcCtrl ro)) (a\<lparr>st_evs := evs, st_on := on\<rparr>)"
    and slot: "\<And>b. b \<noteq> slot_at ro e \<Longrightarrow> sm_entry m' b = sm_entry m b"
      "slot_rel (sm_entry m' (slot_at ro e)) p"
    and ex: "sm_exec m' = sm_exec m @ map (\<lambda>(e, p). (sd_notifyHandle ro, e, p)) xs"
  shows "shm_rel F so ro' m' (a\<lparr>st_evs := evs, st_on := on, st_slot := (st_slot a)(e := p), st_exec := st_exec a @ xs\<rparr>)"
proof -
  note R' = shm_relD [OF R]
  have same: "slot_at ro' f = slot_at ro f" for f by (simp add: slot_at_def obj)
  have "slot_rel (sm_entry m' (slot_at ro f)) (((st_slot a)(e := p)) f)" if f: "f < shc_numEvents F" for f
  proof (cases "f = e")
    case False
    then have "slot_at ro f \<noteq> slot_at ro e" using R'(1) f e by (auto simp: shm_wired_def)
    then show ?thesis using R'(7) [OF f] slot(1) False by simp
  qed (use slot(2) in simp)
  moreover have "shm_wired F so ro'" using R'(1) same by (simp add: shm_wired_def obj)
  moreover have "ctrl_rel (shc_numEvents F) (sm_ctrl m' (sd_selfProcCtrl ro))
      (a\<lparr>st_evs := evs, st_on := on, st_slot := (st_slot a)(e := p), st_exec := st_exec a @ xs\<rparr>)"
    using ctrl by (simp add: ctrl_rel_def)
  ultimately show ?thesis
    using evs R'(8) ex unfolding shm_rel_def same by (simp add: obj)
qed

lemma shm_rel_cong:
  assumes "shm_rel F so ro m a" and "sm_ctrl m' = sm_ctrl m" and "sm_entry m' = sm_entry m"
    and "sm_exec m' = sm_exec m"
  shows "shm_rel F so ro m' a"
  using assms by (simp add: shm_rel_def)

section \<open>The service routine\<close>

definition slot_pending :: "slot_table \<Rightarrow> u32 \<Rightarrow> bool" where
  "slot_pending a e \<longleftrightarrow> st_on a e \<and> st_slot a e \<noteq> None"

definition slots_served :: "slot_table \<Rightarrow> slot_table" where
  "slots_served a = a\<lparr>st_slot := (\<lambda>e. if e \<in> set (st_evs a) \<and> slot_pending a e then None else st_slot a e),
     st_exec := st_exec a @ map (\<lambda>e. (e, the (st_slot a e))) (filter (slot_pending a) (st_evs a))\<rparr>"

lemma slots_served_none: "\<forall>e\<in>set (st_evs a). \<not> slot_pending a e \<Longrightarrow> slots_served a = a"
proof -
  assume none: "\<forall>e\<in>set (st_evs a). \<not> slot_pending a e"
  then have "(\<lambda>e. if e \<in> set (st_evs a) \<and> slot_pending a e then None else st_slot a e) = st_slot a"
    by (intro ext) auto
  moreover have "filter (slot_pending a) (st_evs a) = []" using none by (simp add: filter_empty_conv)
  ultimately show ?thesis by (simp add: slots_served_def)
qed

text \<open>Serving the first pending event leaves the others.\<close>

lemma slots_served_step:
  assumes evs: "st_evs a = us @ e # vs" "distinct (st_evs a)" and us: "\<forall>x\<in>set us. \<not> slot_pending a x"
    and e: "st_on a e" "st_slot a e = Some p"
    and b: "b = a\<lparr>st_slot := (st_slot a)(e := None), st_exec := st_exec a @ [(e, p)]\<rparr>"
  shows "filter (slot_pending a) (st_evs a) = e # filter (slot_pending b) (st_evs b)" and "slots_served b = slots_served a"
proof -
  have same: "slot_pending b x = slot_pending a x" if "x \<noteq> e" for x using that by (simp add: slot_pending_def b)
  have none: "\<not> slot_pending b e" and some: "slot_pending a e" using e by (simp_all add: slot_pending_def b)
  have out: "e \<notin> set us" "e \<notin> set vs" using evs by auto
  have nb: "st_evs b = us @ e # vs" using evs(1) by (simp add: b)
  have f: "filter (slot_pending b) us = []" "filter (slot_pending a) us = []" "filter (slot_pending b) vs = filter (slot_pending a) vs"
    using us out same by (metis filter_False, metis filter_False, metis filter_cong)
  then show first: "filter (slot_pending a) (st_evs a) = e # filter (slot_pending b) (st_evs b)"
    using none some evs(1) nb by simp
  have "map (\<lambda>x. (x, the (st_slot b x))) (filter (slot_pending b) (st_evs b)) =
      map (\<lambda>x. (x, the (st_slot a x))) (filter (slot_pending b) (st_evs b))"
    using none by (auto simp: b)
  then have "st_exec (slots_served b) = st_exec (slots_served a)" using e first by (simp add: slots_served_def b)
  moreover have "st_slot (slots_served b) = st_slot (slots_served a)"
    using same e evs(1) by (auto simp: slots_served_def b fun_eq_iff slot_pending_def)
  ultimately show "slots_served b = slots_served a" by (simp add: slots_served_def b)
qed

lemma isr_loop_serves:
  assumes "shm_rel F so ro m a" and "\<forall>x\<in>set (take i (st_evs a)). \<not> slot_pending a x"
    and "i < unat (shc_numEvents F)"
    and "length (filter (slot_pending a) (st_evs a)) * (length (st_evs a) + 1) + (length (st_evs a) - i) < n"
  shows "\<exists>t. shm_isr_loop n ro i m = Ok t \<and> shm_rel F so ro t (slots_served a)"
  using assms
proof (induction n arbitrary: i m a)
  case (Suc n)
  note R = shm_relD [OF Suc.prems(1)]
  let ?N = "shc_numEvents F" and ?evs = "st_evs a"
  have len: "length ?evs \<le> unat ?N" using shm_evs_length(1) [OF R(4)] R(5) by blast
  have numEvents: "length (sd_regChart ro) = unat ?N" using R(2) len by (simp add: chart_of_nth)
  have get: "arr_get (sd_regChart ro) i = Ok (chart_of (unat ?N) ?evs ! i)"
    using numEvents Suc.prems(3) R(2) by simp
  show ?case
  proof (cases "i < length ?evs")
    case False
    then have "shm_isr_loop (Suc n) ro i m = Ok m"
      using get Suc.prems(3) by (simp add: chart_of_nth Let_def)
    moreover have "slots_served a = a" using Suc.prems(2) False by (intro slots_served_none) simp
    ultimately show ?thesis using Suc.prems(1) by simp
  next
    case True
    let ?e = "?evs ! i"
    have eN: "?e < ?N" using R(5) True by simp
    then have e1: "?e \<noteq> -1" using R(1) by (auto simp: shm_wired_def)
    have get': "arr_get (sd_regChart ro) i = Ok ?e" using get True by (simp add: chart_of_nth)
    have on: "TEST_BIT (pc_eventEnableMask (sm_ctrl m (sd_selfProcCtrl ro))) ?e = st_on a ?e"
      using R(6) eN by (simp add: ctrl_rel_def)
    have sl: "slot_rel (sm_entry m (slot_at ro ?e)) (st_slot a ?e)" using R(7) [OF eN] .
    have evs: "?evs = take i ?evs @ ?e # drop (Suc i) ?evs" using True by (simp add: id_take_nth_drop)
    have skip: "\<exists>t. (if Suc i < length (sd_regChart ro) then shm_isr_loop n ro (Suc i) m1 else Ok m1) = Ok t \<and>
        shm_rel F so ro t (slots_served a)"
      if m1: "shm_rel F so ro m1 a" and no: "\<not> slot_pending a ?e" for m1
    proof -
      have none: "\<forall>x\<in>set (take (Suc i) ?evs). \<not> slot_pending a x"
        using Suc.prems(2) no True by (auto simp: take_Suc_conv_app_nth)
      show ?thesis
      proof (cases "Suc i < unat ?N")
        case True
        with Suc.IH [OF m1 none True] Suc.prems(4) \<open>i < length ?evs\<close> numEvents show ?thesis by simp
      next
        case False
        then have "length ?evs \<le> Suc i" using len by simp
        then have "slots_served a = a" using none by (intro slots_served_none) simp
        then show ?thesis using False m1 numEvents by simp
      qed
    qed
    show ?thesis
    proof (cases "slot_pending a ?e")
      case False
      show ?thesis
      proof (cases "st_on a ?e")
        case True
        then have "st_slot a ?e = None" using False by (simp add: slot_pending_def)
        then have "se_flag (sm_entry m (slot_at ro ?e)) \<noteq> NotifyDriverShm_UP" using sl by (simp add: slot_rel_def)
        then show ?thesis
          using skip [OF shm_rel_cong [OF Suc.prems(1)] False] get' e1 on True
          by (simp add: Let_def slot_at_def)
      next
        case off: False
        then show ?thesis using skip [OF Suc.prems(1) False] get' e1 on by (simp add: Let_def)
      qed
    next
      case pend: True
      then obtain p where p: "st_on a ?e" "st_slot a ?e = Some p" by (auto simp: slot_pending_def)
      let ?b = "a\<lparr>st_slot := (st_slot a)(?e := None), st_exec := st_exec a @ [(?e, p)]\<rparr>"
      let ?m1 = "shlog_if (sd_cacheEnabled ro) (Sh_inv (slot_at ro ?e) sizeof_ShmEntry) m"
      let ?m2 = "shm_exec ro ?e p (shm_lower ro ?e ?m1)"
      have up: "se_flag (sm_entry m (slot_at ro ?e)) = NotifyDriverShm_UP" "se_payload (sm_entry m (slot_at ro ?e)) = p"
        using sl p(2) by (simp_all add: slot_rel_def)
      have "shm_rel F so (ro\<lparr>sd_regChart := chart_of (unat ?N) ?evs\<rparr>) ?m2
          (a\<lparr>st_evs := ?evs, st_on := st_on a, st_slot := (st_slot a)(?e := None), st_exec := st_exec a @ [(?e, p)]\<rparr>)"
        by (rule shm_rel_change [OF Suc.prems(1) eN])
          (use R in \<open>auto simp: shm_lower_def slot_at_def slot_rel_def Let_def\<close>)
      then have b: "shm_rel F so ro ?m2 ?b" by (simp flip: R(2))
      note first = slots_served_step [OF evs R(4) Suc.prems(2) p refl]
      have "length (filter (slot_pending ?b) ?evs) * (length ?evs + 1) + length ?evs < n"
        using Suc.prems(4) first(1) by simp
      then obtain t where "shm_isr_loop n ro 0 ?m2 = Ok t" "shm_rel F so ro t (slots_served ?b)"
        using Suc.IH [OF b, of 0] Suc.prems(3) by auto
      then show ?thesis
        using get' e1 on p up first(2) numEvents Suc.prems(3)
        by (simp add: Let_def slot_at_def)
    qed
  qed
qed simp

section \<open>The operations on the slots\<close>

text \<open>
  The polls of a waiting sender: the counter is counted up before it is compared, so that a poll
  count of 0 stands for \<open>2^32\<close> polls; with \<open>-1\<close>, the default, it never gives up.
\<close>

definition shm_polls :: "shm_config \<Rightarrow> nat" where
  "shm_polls F = (if shc_pollCount F = 0 then 2 ^ 32 else unat (shc_pollCount F))"

lemma shm_next_poll:
  assumes "unat i < shm_polls F"
  shows "i + 1 = shc_pollCount F \<longleftrightarrow> unat i + 1 = shm_polls F"
    and "i + 1 \<noteq> shc_pollCount F \<Longrightarrow> unat (i + 1) = unat i + 1"
proof -
  have suc: "unat (i + 1) = (unat i + 1) mod 2 ^ 32" by (simp add: unat_word_ariths)
  have "i + 1 = shc_pollCount F \<longleftrightarrow> unat (i + 1) = unat (shc_pollCount F)" by (simp add: word_eq_unat)
  moreover have "unat i < 2 ^ 32" "unat (shc_pollCount F) < 2 ^ 32"
    using unat_below [of i] unat_below [of "shc_pollCount F"] by simp_all
  ultimately show "i + 1 = shc_pollCount F \<longleftrightarrow> unat i + 1 = shm_polls F"
    and "i + 1 \<noteq> shc_pollCount F \<Longrightarrow> unat (i + 1) = unat i + 1"
    using assms suc by (cases "unat i + 1 = 2 ^ 32"; auto simp: shm_polls_def split: if_splits)+
qed

text \<open>A sender that finds the slot taken and nobody to lower it gives up after its polls.\<close>

lemma shm_wait_timeout:
  assumes "se_flag (sm_entry m x) \<noteq> NotifyDriverShm_DOWN" and "unat i < shm_polls F"
    and "shc_pollCount F \<noteq> -1" and "shm_polls F \<le> unat i + n + 1"
  shows "\<exists>m'. shm_wait id F so n i x m = Ok (False, m') \<and> sm_ctrl m' = sm_ctrl m \<and>
    sm_entry m' = sm_entry m \<and> sm_exec m' = sm_exec m"
  using assms
proof (induction n arbitrary: i m)
  case 0
  then have "i + 1 = shc_pollCount F" by (simp add: shm_next_poll(1))
  with 0 show ?case by (simp add: shm_wait.simps [of _ _ _ 0])
next
  case (Suc n)
  show ?case
  proof (cases "i + 1 = shc_pollCount F")
    case True
    with Suc.prems show ?thesis by (simp add: shm_wait.simps [of _ _ _ "Suc n"])
  next
    case False
    note suc = shm_next_poll(2) [OF Suc.prems(2) False]
    then have "unat (i + 1) < shm_polls F" using Suc.prems(2) False shm_next_poll(1) [OF Suc.prems(2)] by auto
    moreover define m1 where "m1 = shlog Sh_hwi_disable
        (shlog_if (sd_cacheEnabled so) (Sh_inv x sizeof_ShmEntry) (shlog Sh_hwi_restore m))"
    have same: "sm_ctrl m1 = sm_ctrl m" "sm_entry m1 = sm_entry m" "sm_exec m1 = sm_exec m"
      by (simp_all add: m1_def)
    ultimately have "\<exists>m'. shm_wait id F so n (i + 1) x m1 = Ok (False, m') \<and> sm_ctrl m' = sm_ctrl m1 \<and>
        sm_entry m' = sm_entry m1 \<and> sm_exec m' = sm_exec m1"
      by (intro Suc.IH) (use Suc.prems suc in simp_all)
    moreover have "shm_wait id F so (Suc n) i x m = shm_wait id F so n (i + 1) x m1"
      using Suc.prems(1) False by (simp add: shm_wait.simps [of _ _ _ "Suc n"] m1_def Let_def)
    ultimately show ?thesis using same by metis
  qed
qed

text \<open>With the default poll count it looks at the slot for ever.\<close>

lemma shm_wait_forever:
  assumes "se_flag (sm_entry m x) \<noteq> NotifyDriverShm_DOWN" and "shc_pollCount F = -1"
  shows "shm_wait id F so n i x m = Err Out_of_fuel"
  using assms
proof (induction n arbitrary: i m)
  case 0
  then show ?case by (simp add: shm_wait.simps [of _ _ _ 0])
next
  case (Suc n)
  then show ?case by (subst shm_wait.simps) (simp add: Let_def id_def)
qed

lemma shm_wait_down:
  "se_flag (sm_entry m x) = NotifyDriverShm_DOWN \<Longrightarrow> shm_wait other F so n i x m = Ok (True, m)"
  by (simp add: shm_wait.simps)

text \<open>What becomes of the table.\<close>

datatype shm_op =
    S_send u32 u32 bool | S_serve | S_register u32 | S_unregister u32 | S_disable u32 | S_enable u32

fun shm_step ::
  "nat \<Rightarrow> shm_config \<Rightarrow> NotifyDriverShm_Object \<Rightarrow> shm_op \<Rightarrow> NotifyDriverShm_Object \<times> shm_mem \<Rightarrow>
   (int \<times> NotifyDriverShm_Object \<times> shm_mem) res" where
  "shm_step n F so (S_send e p w) (ro, m) =
     res_bind (NotifyDriverShm_sendEvent id F n so e p w m) (\<lambda>(r, t). Ok (r, ro, t))"
| "shm_step n F so S_serve (ro, m) = res_bind (NotifyDriverShm_isr n ro m) (\<lambda>t. Ok (0, ro, t))"
| "shm_step n F so (S_register e) (ro, m) = Ok (0, NotifyDriverShm_registerEvent ro e m)"
| "shm_step n F so (S_unregister e) (ro, m) = Ok (0, NotifyDriverShm_unregisterEvent ro e m)"
| "shm_step n F so (S_disable e) (ro, m) =
     res_bind (NotifyDriverShm_disableEvent F ro e m) (\<lambda>t. Ok (0, ro, t))"
| "shm_step n F so (S_enable e) (ro, m) =
     res_bind (NotifyDriverShm_enableEvent F ro e m) (\<lambda>t. Ok (0, ro, t))"

fun shm_spec :: "shm_op \<Rightarrow> slot_table \<Rightarrow> int \<times> slot_table" where
  "shm_spec (S_send e p w) a =
     (if \<not> st_on a e then (shm_E_EVTDISABLED, a)
      else if e \<notin> set (st_evs a) then (shm_E_EVTNOTREGISTERED, a)
      else if w \<and> st_slot a e \<noteq> None then (shm_E_TIMEOUT, a)
      else (shm_S_SUCCESS, a\<lparr>st_slot := (st_slot a)(e := Some p)\<rparr>))"
| "shm_spec S_serve a = (0, slots_served a)"
| "shm_spec (S_register e) a = (0, a\<lparr>st_evs := insort e (st_evs a), st_slot := (st_slot a)(e := None)\<rparr>)"
| "shm_spec (S_unregister e) a = (0, a\<lparr>st_evs := remove1 e (st_evs a), st_slot := (st_slot a)(e := None)\<rparr>)"
| "shm_spec (S_disable e) a =
     (0, a\<lparr>st_on := (st_on a)(e := False), st_slot := (st_slot a)(e := None),
          st_exec := st_exec a @ (case st_slot a e of None \<Rightarrow> [] | Some p \<Rightarrow> [(e, p)])\<rparr>)"
| "shm_spec (S_enable e) a = (0, a\<lparr>st_on := (st_on a)(e := True)\<rparr>)"

text \<open>
  Events are in range and an event is registered once (\<open>Notify\<close> sees to that). Nobody serves
  the line in the middle of a send, so with the default poll count a waiting send is made only when
  the event's slot is free (or the event masked or not registered). \<open>n\<close> rounds are enough for the
  polls, when they end, and for every event's slot.
\<close>

definition shm_rounds :: "nat \<Rightarrow> shm_config \<Rightarrow> bool" where
  "shm_rounds n F \<longleftrightarrow> (shc_pollCount F \<noteq> -1 \<longrightarrow> shm_polls F \<le> n) \<and>
     (unat (shc_numEvents F) + 1) * (unat (shc_numEvents F) + 1) < n"

fun shm_allowed :: "shm_config \<Rightarrow> shm_op \<Rightarrow> slot_table \<Rightarrow> bool" where
  "shm_allowed F (S_register e) a \<longleftrightarrow> e < shc_numEvents F \<and> e \<notin> set (st_evs a)"
| "shm_allowed F (S_send e p w) a \<longleftrightarrow> e < shc_numEvents F \<and>
     (w \<and> shc_pollCount F = -1 \<and> st_on a e \<and> e \<in> set (st_evs a) \<longrightarrow> st_slot a e = None)"
| "shm_allowed F S_serve a \<longleftrightarrow> 0 < shc_numEvents F"
| "shm_allowed F (S_unregister e) a \<longleftrightarrow> e < shc_numEvents F"
| "shm_allowed F (S_disable e) a \<longleftrightarrow> e < shc_numEvents F"
| "shm_allowed F (S_enable e) a \<longleftrightarrow> e < shc_numEvents F"

lemma shm_send_rel:
  assumes R: "shm_rel F so ro m a" and ok: "shm_allowed F (S_send e p w) a" and n: "shm_rounds n F"
  shows "\<exists>t. NotifyDriverShm_sendEvent id F n so e p w m = Ok (fst (shm_spec (S_send e p w) a), t) \<and>
    shm_rel F so ro t (snd (shm_spec (S_send e p w) a))"
proof -
  note R' = shm_relD [OF R]
  have e: "e < shc_numEvents F" using ok by simp
  let ?m1 = "shlog_if (sd_cacheEnabled so) (Sh_inv (sd_selfProcCtrl ro) sizeof_ProcCtrl) m"
  let ?x = "slot_at ro e"
  have wired: "sd_otherProcCtrl so = sd_selfProcCtrl ro"
    "EVENTENTRY (sd_otherEventChart so) (sd_eventEntrySize so) e = ?x"
    using R'(1) by (simp_all add: shm_wired_def slot_at_def)
  have ctrl: "pc_recvInitStatus (sm_ctrl m (sd_selfProcCtrl ro)) = NotifyDriverShm_INIT_STAMP"
    "TEST_BIT (pc_eventEnableMask (sm_ctrl m (sd_selfProcCtrl ro))) e = st_on a e"
    "TEST_BIT (pc_eventRegMask (sm_ctrl m (sd_selfProcCtrl ro))) e = (e \<in> set (st_evs a))"
    using R'(6) e by (simp_all add: ctrl_rel_def)
  have R1: "shm_rel F so ro ?m1 a" by (rule shm_rel_cong [OF R]) simp_all
  note run = NotifyDriverShm_sendEvent_def Let_def wired ctrl
  let ?w1 = "shlog Sh_hwi_disable (shlog_if (sd_cacheEnabled so) (Sh_inv ?x sizeof_ShmEntry) ?m1)"
  have sent: "shm_rel F so ro t (a\<lparr>st_slot := (st_slot a)(e := Some p)\<rparr>)"
    if "sm_ctrl t = sm_ctrl m" "sm_exec t = sm_exec m"
      "sm_entry t = (sm_entry m)(?x := (sm_entry m ?x)\<lparr>se_payload := p, se_flag := NotifyDriverShm_UP\<rparr>)" for t
  proof -
    have "shm_rel F so (ro\<lparr>sd_regChart := chart_of (unat (shc_numEvents F)) (st_evs a)\<rparr>) t
        (a\<lparr>st_evs := st_evs a, st_on := st_on a, st_slot := (st_slot a)(e := Some p), st_exec := st_exec a @ []\<rparr>)"
      by (rule shm_rel_change [OF R e]) (use R' that in \<open>auto simp: slot_rel_def\<close>)
    then show ?thesis by (simp flip: R'(2))
  qed
  show ?thesis
  proof (cases "st_on a e \<and> e \<in> set (st_evs a)")
    case False
    then show ?thesis using R1 by (auto simp: run)
  next
    case True
    show ?thesis
    proof (cases "w \<and> st_slot a e \<noteq> None")
      case True
      then have "se_flag (sm_entry ?w1 ?x) \<noteq> NotifyDriverShm_DOWN"
        using R'(7) [OF e] by (auto simp: slot_rel_def)
      moreover have "shc_pollCount F \<noteq> -1" using ok True \<open>st_on a e \<and> e \<in> set (st_evs a)\<close> by auto
      moreover have "0 < shm_polls F" by (auto simp: shm_polls_def word_eq_unat)
      ultimately obtain t where
        "shm_wait id F so n 0 ?x ?w1 = Ok (False, t)" "sm_ctrl t = sm_ctrl m" "sm_entry t = sm_entry m"
        "sm_exec t = sm_exec m" using shm_wait_timeout [of ?w1 ?x 0 F n so] n by (auto simp: shm_rounds_def)
      then show ?thesis
        using True \<open>st_on a e \<and> e \<in> set (st_evs a)\<close> shm_rel_cong [OF R, of t] by (simp add: run)
    next
      case False
      have "w \<Longrightarrow> se_flag (sm_entry ?w1 ?x) = NotifyDriverShm_DOWN"
        using R'(7) [OF e] False by (simp add: slot_rel_def)
      with shm_wait_down [of ?w1 ?x] have wait: "w \<Longrightarrow> shm_wait id F so n 0 ?x ?w1 = Ok (True, ?w1)" by blast
      show ?thesis
        using False \<open>st_on a e \<and> e \<in> set (st_evs a)\<close> wait sent
        by (cases w) (simp_all add: run)
    qed
  qed
qed

lemma shm_register_rel:
  assumes R: "shm_rel F so ro m a" and e: "e < shc_numEvents F" and new: "e \<notin> set (st_evs a)"
  shows "case NotifyDriverShm_registerEvent ro e m of (ro', t) \<Rightarrow>
    shm_rel F so ro' t (snd (shm_spec (S_register e) a))"
proof -
  note R' = shm_relD [OF R]
  let ?N = "shc_numEvents F" and ?evs = "insort e (st_evs a)"
  have len: "length (st_evs a) < unat ?N" using shm_evs_length(2) [OF R'(4) _ new e] R'(5) by blast
  have m1: "-1 \<notin> set (st_evs a)"
    using R'(1,5) not_event_m1 [of "shc_numEvents F"] unfolding shm_wired_def by blast
  have chart: "chart_insert e (sd_regChart ro) (length (sd_regChart ro)) 0 = chart_of (unat ?N) ?evs"
    using chart_insert_insort [OF R'(3) m1 new len] R'(2) len by (simp add: chart_of_nth)
  have small: "unat f < 32" if "f < ?N" for f using R'(1) that shm_small_event by (auto simp: shm_wired_def)
  obtain t where t: "NotifyDriverShm_registerEvent ro e m = (ro\<lparr>sd_regChart := chart_of (unat ?N) ?evs\<rparr>, t)"
    "sm_ctrl t = (sm_ctrl m)(sd_selfProcCtrl ro := (sm_ctrl m (sd_selfProcCtrl ro))
      \<lparr>pc_eventRegMask := SET_BIT (pc_eventRegMask (sm_ctrl m (sd_selfProcCtrl ro))) e\<rparr>)"
    "sm_entry t = (sm_entry m)(slot_at ro e := (sm_entry m (slot_at ro e))\<lparr>se_flag := NotifyDriverShm_DOWN\<rparr>)"
    "sm_exec t = sm_exec m"
    by (simp add: NotifyDriverShm_registerEvent_def NotifyDriverShm_enable_def NotifyDriverShm_disable_def
        shm_lower_def slot_at_def chart Let_def)
  have "shm_rel F so (ro\<lparr>sd_regChart := chart_of (unat ?N) ?evs\<rparr>) t
      (a\<lparr>st_evs := ?evs, st_on := st_on a, st_slot := (st_slot a)(e := None), st_exec := st_exec a @ []\<rparr>)"
  proof (rule shm_rel_change [OF R e refl])
    show "ctrl_rel ?N (sm_ctrl t (sd_selfProcCtrl ro)) (a\<lparr>st_evs := ?evs, st_on := st_on a\<rparr>)"
      using R'(6) TEST_SET_BIT [OF small [OF e] small] by (auto simp: ctrl_rel_def t(2) set_insort_key)
  qed (use R'(3,4,5) e new t in \<open>auto simp: sorted_insort distinct_insort set_insort_key slot_rel_def\<close>)
  then show ?thesis using t(1) by simp
qed

lemma shm_unregister_rel:
  assumes R: "shm_rel F so ro m a" and e: "e < shc_numEvents F"
  shows "case NotifyDriverShm_unregisterEvent ro e m of (ro', t) \<Rightarrow>
    shm_rel F so ro' t (snd (shm_spec (S_unregister e) a))"
proof -
  note R' = shm_relD [OF R]
  let ?N = "shc_numEvents F" and ?evs = "remove1 e (st_evs a)"
  have len: "length (st_evs a) \<le> unat ?N" using shm_evs_length(1) [OF R'(4)] R'(5) by blast
  have m1: "-1 \<notin> set (st_evs a)" "e \<noteq> -1"
    using R'(1,5) e not_event_m1 [of "shc_numEvents F"] unfolding shm_wired_def by blast+
  have chart: "chart_remove e (sd_regChart ro) (length (sd_regChart ro)) 0 = chart_of (unat ?N) ?evs"
    using chart_remove_remove1 [OF m1 len] R'(2) len by (simp add: chart_of_nth)
  have small: "unat f < 32" if "f < ?N" for f using R'(1) that shm_small_event by (auto simp: shm_wired_def)
  obtain t where t: "NotifyDriverShm_unregisterEvent ro e m = (ro\<lparr>sd_regChart := chart_of (unat ?N) ?evs\<rparr>, t)"
    "sm_ctrl t = (sm_ctrl m)(sd_selfProcCtrl ro := (sm_ctrl m (sd_selfProcCtrl ro))
      \<lparr>pc_eventRegMask := CLEAR_BIT (pc_eventRegMask (sm_ctrl m (sd_selfProcCtrl ro))) e\<rparr>)"
    "sm_entry t = (sm_entry m)(slot_at ro e := (sm_entry m (slot_at ro e))\<lparr>se_flag := NotifyDriverShm_DOWN\<rparr>)"
    "sm_exec t = sm_exec m"
    by (simp add: NotifyDriverShm_unregisterEvent_def NotifyDriverShm_enable_def NotifyDriverShm_disable_def
        shm_lower_def slot_at_def chart Let_def)
  have "shm_rel F so (ro\<lparr>sd_regChart := chart_of (unat ?N) ?evs\<rparr>) t
      (a\<lparr>st_evs := ?evs, st_on := st_on a, st_slot := (st_slot a)(e := None), st_exec := st_exec a @ []\<rparr>)"
  proof (rule shm_rel_change [OF R e refl])
    show "ctrl_rel ?N (sm_ctrl t (sd_selfProcCtrl ro)) (a\<lparr>st_evs := ?evs, st_on := st_on a\<rparr>)"
      using R'(4,6) TEST_CLEAR_BIT [OF small [OF e] small] by (auto simp: ctrl_rel_def t(2))
  qed (use R'(3,4,5) t in \<open>auto simp: sorted_remove1 slot_rel_def\<close>)
  then show ?thesis using t(1) by simp
qed

lemma shm_disable_rel:
  assumes R: "shm_rel F so ro m a" and e: "e < shc_numEvents F"
  shows "\<exists>t. NotifyDriverShm_disableEvent F ro e m = Ok t \<and>
    shm_rel F so ro t (snd (shm_spec (S_disable e) a))"
proof -
  note R' = shm_relD [OF R]
  let ?N = "shc_numEvents F" and ?x = "slot_at ro e" and ?c = "sd_selfProcCtrl ro"
  let ?xs = "case st_slot a e of None \<Rightarrow> [] | Some p \<Rightarrow> [(e, p)]"
  have small: "unat f < 32" if "f < ?N" for f using R'(1) that shm_small_event by (auto simp: shm_wired_def)
  have sl: "slot_rel (sm_entry m ?x) (st_slot a e)" using R'(7) [OF e] .
  obtain t where t: "NotifyDriverShm_disableEvent F ro e m = Ok t"
    "sm_ctrl t = (sm_ctrl m)(?c := (sm_ctrl m ?c)
      \<lparr>pc_eventEnableMask := CLEAR_BIT (pc_eventEnableMask (sm_ctrl m ?c)) e\<rparr>)"
    "sm_entry t = (if st_slot a e = None then sm_entry m
      else (sm_entry m)(?x := (sm_entry m ?x)\<lparr>se_flag := NotifyDriverShm_DOWN\<rparr>))"
    "sm_exec t = sm_exec m @ map (\<lambda>(e, p). (sd_notifyHandle ro, e, p)) ?xs"
    using sl e
    by (cases "st_slot a e")
      (simp_all add: NotifyDriverShm_disableEvent_def NotifyDriverShm_enable_def NotifyDriverShm_disable_def
        shm_lower_def slot_at_def slot_rel_def Let_def)
  have "shm_rel F so (ro\<lparr>sd_regChart := chart_of (unat ?N) (st_evs a)\<rparr>) t
      (a\<lparr>st_evs := st_evs a, st_on := (st_on a)(e := False), st_slot := (st_slot a)(e := None),
        st_exec := st_exec a @ ?xs\<rparr>)"
  proof (rule shm_rel_change [OF R e refl])
    show "ctrl_rel ?N (sm_ctrl t ?c) (a\<lparr>st_evs := st_evs a, st_on := (st_on a)(e := False)\<rparr>)"
      using R'(6) TEST_CLEAR_BIT [OF small [OF e] small] by (auto simp: ctrl_rel_def t(2))
    show "slot_rel (sm_entry t ?x) None" using sl by (auto simp: t(3) slot_rel_def)
  qed (use R'(3,4,5) t in auto)
  then show ?thesis using t(1) by (simp flip: R'(2))
qed

lemma shm_enable_rel:
  assumes R: "shm_rel F so ro m a" and e: "e < shc_numEvents F"
  shows "\<exists>t. NotifyDriverShm_enableEvent F ro e m = Ok t \<and>
    shm_rel F so ro t (snd (shm_spec (S_enable e) a))"
proof -
  note R' = shm_relD [OF R]
  let ?N = "shc_numEvents F" and ?c = "sd_selfProcCtrl ro"
  have small: "unat f < 32" if "f < ?N" for f using R'(1) that shm_small_event by (auto simp: shm_wired_def)
  obtain t where t: "NotifyDriverShm_enableEvent F ro e m = Ok t"
    "sm_ctrl t = (sm_ctrl m)(?c := (sm_ctrl m ?c)
      \<lparr>pc_eventEnableMask := SET_BIT (pc_eventEnableMask (sm_ctrl m ?c)) e\<rparr>)"
    "sm_entry t = sm_entry m" "sm_exec t = sm_exec m"
    using e by (simp add: NotifyDriverShm_enableEvent_def Let_def)
  have "shm_rel F so (ro\<lparr>sd_regChart := chart_of (unat ?N) (st_evs a)\<rparr>) t
      (a\<lparr>st_evs := st_evs a, st_on := (st_on a)(e := True), st_slot := (st_slot a)(e := st_slot a e),
        st_exec := st_exec a @ []\<rparr>)"
  proof (rule shm_rel_change [OF R e refl])
    show "ctrl_rel ?N (sm_ctrl t ?c) (a\<lparr>st_evs := st_evs a, st_on := (st_on a)(e := True)\<rparr>)"
      using R'(6) TEST_SET_BIT [OF small [OF e] small] by (auto simp: ctrl_rel_def t(2))
  qed (use R'(3,4,5,7) e t in auto)
  then show ?thesis using t(1) by (simp flip: R'(2))
qed

lemma shm_serve_rel:
  assumes R: "shm_rel F so ro m a" and N: "0 < shc_numEvents F" and n: "shm_rounds n F"
  shows "\<exists>t. NotifyDriverShm_isr n ro m = Ok t \<and> shm_rel F so ro t (slots_served a)"
proof -
  note R' = shm_relD [OF R]
  let ?N = "unat (shc_numEvents F)"
  have len: "length (st_evs a) \<le> ?N" using shm_evs_length(1) [OF R'(4)] R'(5) by blast
  then have "length (filter (slot_pending a) (st_evs a)) \<le> ?N" by (meson length_filter_le order_trans)
  then have "length (filter (slot_pending a) (st_evs a)) * (length (st_evs a) + 1) \<le> ?N * (?N + 1)"
    using len by (intro mult_le_mono) simp_all
  then have fuel: "length (filter (slot_pending a) (st_evs a)) * (length (st_evs a) + 1) + (length (st_evs a) - 0) < n"
    using n len by (simp add: shm_rounds_def)
  have "shm_rel F so ro (shlog (Sh_clear (sd_remoteProcId ro)) m) a" by (rule shm_rel_cong [OF R]) simp_all
  from isr_loop_serves [OF this _ _ fuel] N show ?thesis
    by (simp add: NotifyDriverShm_isr_def word_less_nat_alt)
qed

text \<open>
  A waiting sender that finds the slot taken, with the default poll count: on its own it never
  returns; when the receiver's service routine runs once between two of its looks, it puts its
  payload in the slot that is then free.
\<close>

definition shm_served_by :: "nat \<Rightarrow> NotifyDriverShm_Object \<Rightarrow> shm_mem \<Rightarrow> shm_mem" where
  "shm_served_by n ro m = (case NotifyDriverShm_isr n ro m of Ok t \<Rightarrow> t | Err e \<Rightarrow> m)"

lemma shm_wait_send:
  assumes R: "shm_rel F so ro m a" and e: "e < shc_numEvents F" and F: "shc_pollCount F = -1"
    and busy: "st_on a e" "e \<in> set (st_evs a)" "st_slot a e \<noteq> None"
  shows "NotifyDriverShm_sendEvent id F n so e p True m = Err Out_of_fuel"
    and "(unat (shc_numEvents F) + 1) * (unat (shc_numEvents F) + 1) < k \<Longrightarrow> \<exists>t.
      NotifyDriverShm_sendEvent (shm_served_by k ro) F (Suc n) so e p True m = Ok (shm_S_SUCCESS, t) \<and>
      shm_rel F so ro t (slots_served a\<lparr>st_slot := (st_slot (slots_served a))(e := Some p)\<rparr>)"
proof -
  note R' = shm_relD [OF R]
  let ?x = "slot_at ro e"
  have wired: "sd_otherProcCtrl so = sd_selfProcCtrl ro"
    "EVENTENTRY (sd_otherEventChart so) (sd_eventEntrySize so) e = ?x"
    using R'(1) by (simp_all add: shm_wired_def slot_at_def)
  have ctrl: "pc_recvInitStatus (sm_ctrl m (sd_selfProcCtrl ro)) = NotifyDriverShm_INIT_STAMP"
    "TEST_BIT (pc_eventEnableMask (sm_ctrl m (sd_selfProcCtrl ro))) e"
    "TEST_BIT (pc_eventRegMask (sm_ctrl m (sd_selfProcCtrl ro))) e"
    using R'(6) e busy by (simp_all add: ctrl_rel_def)
  define w where "w = shlog Sh_hwi_disable (shlog_if (sd_cacheEnabled so) (Sh_inv ?x sizeof_ShmEntry)
      (shlog_if (sd_cacheEnabled so) (Sh_inv (sd_selfProcCtrl ro) sizeof_ProcCtrl) m))"
  define w1 where "w1 = shlog_if (sd_cacheEnabled so) (Sh_inv ?x sizeof_ShmEntry) (shlog Sh_hwi_restore w)"
  have up: "se_flag (sm_entry w ?x) \<noteq> NotifyDriverShm_DOWN"
    using R'(7) [OF e] busy(3) by (auto simp: slot_rel_def w_def)
  show "NotifyDriverShm_sendEvent id F n so e p True m = Err Out_of_fuel"
    using shm_wait_forever [OF up F, of so n 0]
    by (simp add: NotifyDriverShm_sendEvent_def Let_def wired ctrl w_def)
  assume k: "(unat (shc_numEvents F) + 1) * (unat (shc_numEvents F) + 1) < k"
  have R1: "shm_rel F so ro w1 a" by (rule shm_rel_cong [OF R]) (simp_all add: w_def w1_def)
  have N: "0 < shc_numEvents F" using e by (auto simp: word_less_nat_alt)
  have "shm_rounds k (F\<lparr>shc_pollCount := -1\<rparr>)" using k by (simp add: shm_rounds_def)
  then have "shm_rounds k F" using F by (simp add: shm_rounds_def)
  from shm_serve_rel [OF R1 N this] obtain u where u: "NotifyDriverShm_isr k ro w1 = Ok u"
    "shm_rel F so ro u (slots_served a)" by blast
  note U = shm_relD [OF u(2)]
  have "st_slot (slots_served a) e = None" using busy by (simp add: slots_served_def slot_pending_def)
  then have down: "se_flag (sm_entry u ?x) = NotifyDriverShm_DOWN" using U(7) [OF e] by (simp add: slot_rel_def)
  have "shm_wait (shm_served_by k ro) F so (Suc n) 0 ?x w =
      shm_wait (shm_served_by k ro) F so n 1 ?x (shlog Sh_hwi_disable u)"
    using up F u(1) by (simp add: shm_wait.simps [of _ _ _ "Suc n"] Let_def shm_served_by_def w1_def)
  then have wait: "shm_wait (shm_served_by k ro) F so (Suc n) 0 ?x w = Ok (True, shlog Sh_hwi_disable u)"
    using shm_wait_down [of "shlog Sh_hwi_disable u" ?x] down by simp
  obtain t where t: "NotifyDriverShm_sendEvent (shm_served_by k ro) F (Suc n) so e p True m = Ok (shm_S_SUCCESS, t)"
    "sm_ctrl t = sm_ctrl u" "sm_exec t = sm_exec u"
    "sm_entry t = (sm_entry u)(?x := (sm_entry u ?x)\<lparr>se_payload := p, se_flag := NotifyDriverShm_UP\<rparr>)"
    using wait by (simp add: NotifyDriverShm_sendEvent_def Let_def wired ctrl w_def)
  let ?b = "slots_served a"
  have "shm_rel F so (ro\<lparr>sd_regChart := chart_of (unat (shc_numEvents F)) (st_evs ?b)\<rparr>) t
      (?b\<lparr>st_evs := st_evs ?b, st_on := st_on ?b, st_slot := (st_slot ?b)(e := Some p), st_exec := st_exec ?b @ []\<rparr>)"
    by (rule shm_rel_change [OF u(2) e]) (use U t in \<open>auto simp: slot_rel_def\<close>)
  then show "\<exists>t. NotifyDriverShm_sendEvent (shm_served_by k ro) F (Suc n) so e p True m = Ok (shm_S_SUCCESS, t) \<and>
      shm_rel F so ro t (?b\<lparr>st_slot := (st_slot ?b)(e := Some p)\<rparr>)"
    using t(1) by (simp flip: U(2))
qed

definition shm_pair_rel ::
  "shm_config \<Rightarrow> NotifyDriverShm_Object \<Rightarrow> NotifyDriverShm_Object \<times> shm_mem \<Rightarrow> slot_table \<Rightarrow> bool" where
  "shm_pair_rel F so s a \<longleftrightarrow> shm_rel F so (fst s) (snd s) a"

lemma shm_step_refines:
  assumes "shm_pair_rel F so s a" and "shm_allowed F op a" and n: "shm_rounds n F"
  shows "\<exists>t. shm_step n F so op s = Ok (fst (shm_spec op a), t) \<and> shm_pair_rel F so t (snd (shm_spec op a))"
proof -
  obtain ro m where s: "s = (ro, m)" by (cases s)
  have R: "shm_rel F so ro m a" using assms(1) s by (simp add: shm_pair_rel_def)
  show ?thesis
  proof (cases op)
    case (S_send e p w)
    obtain t where t: "NotifyDriverShm_sendEvent id F n so e p w m = Ok (fst (shm_spec op a), t)"
      "shm_rel F so ro t (snd (shm_spec op a))"
      using shm_send_rel [OF R _ n, of e p w] assms(2) S_send by blast
    have "shm_step n F so op s = Ok (fst (shm_spec op a), ro, t)" using t(1) S_send s by simp
    with t(2) show ?thesis by (intro exI [of _ "(ro, t)"]) (simp add: shm_pair_rel_def)
  next
    case S_serve
    then show ?thesis using shm_serve_rel [OF R _ n] assms(2) s by (auto simp: shm_pair_rel_def)
  next
    case (S_register e)
    then show ?thesis using shm_register_rel [OF R, of e] assms(2) s
      by (auto simp: shm_pair_rel_def split: prod.splits)
  next
    case (S_unregister e)
    then show ?thesis using shm_unregister_rel [OF R, of e] assms(2) s
      by (auto simp: shm_pair_rel_def split: prod.splits)
  next
    case (S_disable e)
    then show ?thesis using shm_disable_rel [OF R, of e] assms(2) s by (auto simp: shm_pair_rel_def)
  next
    case (S_enable e)
    then show ?thesis using shm_enable_rel [OF R, of e] assms(2) s by (auto simp: shm_pair_rel_def)
  qed
qed

lemma shm_run_refines:
  assumes "shm_pair_rel F so s a" and "shm_rounds n F" and "allowed_run (shm_allowed F) shm_spec ops a"
  shows "\<exists>t. run_ops (shm_step n F so) ops s = Ok (fst (spec_run shm_spec ops a), t) \<and>
    shm_pair_rel F so t (snd (spec_run shm_spec ops a))"
  by (rule run_ops_refine [of "shm_pair_rel F so" "shm_allowed F"])
    (use shm_step_refines assms in auto)

end
