(* ===== verification/Notify.thy ===== *)
theory Notify
imports MultiProc UtilsList
begin

text \<open>
  The notification manager of \<open>ti/sdo/ipc/Notify.c\<close>: for each remote processor and interrupt
  line an instance with one callback for each event and, behind it, the list of listeners that
  share the event; the processor's line to itself is served by the module.
\<close>

section \<open>State\<close>

abbreviation Notify_S_SUCCESS :: int where "Notify_S_SUCCESS \<equiv> 0"
abbreviation Notify_E_FAIL :: int where "Notify_E_FAIL \<equiv> -1"
abbreviation Notify_E_INVALIDARG :: int where "Notify_E_INVALIDARG \<equiv> -2"
abbreviation Notify_E_MEMORY :: int where "Notify_E_MEMORY \<equiv> -3"
abbreviation Notify_E_ALREADYEXISTS :: int where "Notify_E_ALREADYEXISTS \<equiv> -4"
abbreviation Notify_E_NOTFOUND :: int where "Notify_E_NOTFOUND \<equiv> -5"
abbreviation Notify_E_RESOURCE :: int where "Notify_E_RESOURCE \<equiv> -10"
abbreviation Notify_E_EVTNOTREGISTERED :: int where "Notify_E_EVTNOTREGISTERED \<equiv> -14"
abbreviation Notify_E_EVTDISABLED :: int where "Notify_E_EVTDISABLED \<equiv> -15"

text \<open>
  A pointer to a callback: none, the module's own \<open>execMany\<close>, or a function of the client,
  known by its address.
\<close>

datatype notify_fxn = Fxn_NULL | Fxn_execMany | Fxn_user u32

record EventCallback =
  ec_fnNotifyCbck :: notify_fxn
  ec_cbckArg :: ptr

text \<open>An instance; \<open>no_eventList\<close> is the address of its array of lists.\<close>

record Notify_Object =
  no_nesting :: u32
  no_driverHandle :: ptr
  no_remoteProcId :: u16
  no_lineId :: u16
  no_callbacks :: "EventCallback list"
  no_eventList :: ptr

text \<open>
  The configuration, and what generated code and other modules answer: the address of the
  \<open>i\<close>th list of an array (\<open>List_Object_get\<close>), the set-up proxy, and the status a driver gives
  to an event.
\<close>

record notify_config =
  nfc_asserts :: bool
  nfc_numEvents :: u32
  nfc_numLines :: u16
  nfc_reservedEvents :: u16
  nfc_numProcessors :: u16
  nfc_listGet :: "ptr \<Rightarrow> u32 \<Rightarrow> ptr"
  nfc_proxy_attach :: "u16 \<Rightarrow> ptr \<Rightarrow> int"
  nfc_proxy_numIntLines :: "u16 \<Rightarrow> u16"
  nfc_proxy_sharedMemReq :: "u16 \<Rightarrow> ptr \<Rightarrow> sizeT"
  nfc_driver_send :: "ptr \<Rightarrow> u32 \<Rightarrow> u32 \<Rightarrow> bool \<Rightarrow> int"

text \<open>
  The log, newest first: the module's gate and the calls to the drivers. The client's functions
  that are called are kept in order with their arguments.
\<close>

datatype notify_event =
    N_enterModule | N_leaveModule | N_free ptr
  | Drv_disable ptr | Drv_enable ptr | Drv_disableEvent ptr u32 | Drv_enableEvent ptr u32
  | Drv_registerEvent ptr u32 | Drv_unregisterEvent ptr u32
  | Drv_sendEvent ptr u32 u32 bool | Drv_setNotifyHandle ptr ptr | Drv_delete ptr

record notify_call =
  nl_fxn :: u32
  nl_procId :: u16
  nl_lineId :: u16
  nl_eventId :: u32
  nl_arg :: ptr
  nl_payload :: u32

record notify_state =
  nt_handles :: "ptr list list"
  nt_obj :: "ptr \<Rightarrow> Notify_Object"
  nt_listener :: "ptr \<Rightarrow> EventCallback"
  nt_list :: list_mem
  nt_localEnableMask :: u32
  nt_log :: "notify_event list"
  nt_calls :: "notify_call list"

definition nlog :: "notify_event \<Rightarrow> notify_state \<Rightarrow> notify_state" where
  "nlog e s = s\<lparr>nt_log := e # nt_log s\<rparr>"

definition nlog_if :: "bool \<Rightarrow> notify_event \<Rightarrow> notify_state \<Rightarrow> notify_state" where
  "nlog_if b e s = (if b then nlog e s else s)"

definition nhwi :: "hwi_call \<Rightarrow> notify_state \<Rightarrow> notify_state" where
  "nhwi c s = s\<lparr>nt_list := hwi c (nt_list s)\<rparr>"

definition put_obj :: "ptr \<Rightarrow> Notify_Object \<Rightarrow> notify_state \<Rightarrow> notify_state" where
  "put_obj h ob s = s\<lparr>nt_obj := (nt_obj s)(h := ob)\<rparr>"

text \<open>An operation on the lists, within the module's state.\<close>

definition on_lists :: "(list_mem \<Rightarrow> list_mem res) \<Rightarrow> notify_state \<Rightarrow> notify_state res" where
  "on_lists f s = res_bind (f (nt_list s)) (\<lambda>l. Ok (s\<lparr>nt_list := l\<rparr>))"

section \<open>Finding the instance\<close>

definition stripped :: "u32 \<Rightarrow> u32" where
  "stripped eventId = eventId AND 0xFFFF"

definition Notify_SYSTEMKEY :: u32 where "Notify_SYSTEMKEY = 0xC1D2"

definition ISRESERVED :: "notify_config \<Rightarrow> u32 \<Rightarrow> bool" where
  "ISRESERVED F eventId \<longleftrightarrow>
     ucast (nfc_reservedEvents F) \<le> stripped eventId \<or> drop_bit 16 eventId = Notify_SYSTEMKEY"

definition notify_handle :: "MultiProc_Module \<Rightarrow> u16 \<Rightarrow> u16 \<Rightarrow> notify_state \<Rightarrow> ptr res" where
  "notify_handle P procId lineId s =
     res_bind (arr_get (nt_handles s) (unat (MultiProc_getClusterId P procId))) (\<lambda>row.
     arr_get row (unat lineId))"

definition set_notify_handle ::
  "MultiProc_Module \<Rightarrow> u16 \<Rightarrow> u16 \<Rightarrow> ptr \<Rightarrow> notify_state \<Rightarrow> notify_state res" where
  "set_notify_handle P procId lineId h s =
     (let c = unat (MultiProc_getClusterId P procId) in
      res_bind (arr_get (nt_handles s) c) (\<lambda>row.
      res_bind (arr_set row (unat lineId) h) (\<lambda>row1.
      res_bind (arr_set (nt_handles s) c row1) (\<lambda>rows. Ok (s\<lparr>nt_handles := rows\<rparr>)))))"

text \<open>The checks of the arguments, and the registered instance; an access through \<open>NULL\<close> faults.\<close>

definition line_checked :: "notify_config \<Rightarrow> u16 \<Rightarrow> u16 \<Rightarrow> 'a res \<Rightarrow> 'a res" where
  "line_checked F procId lineId k =
     Assert_isTrue (nfc_asserts F) (procId < nfc_numProcessors F \<and> lineId < nfc_numLines F) A_invArgument k"

definition event_checked :: "notify_config \<Rightarrow> u16 \<Rightarrow> u16 \<Rightarrow> u32 \<Rightarrow> 'a res \<Rightarrow> 'a res" where
  "event_checked F procId lineId eventId k =
     line_checked F procId lineId (
     Assert_isTrue (nfc_asserts F) (stripped eventId < nfc_numEvents F) A_invArgument (
     Assert_isTrue (nfc_asserts F) (ISRESERVED F eventId) A_reservedEvent k))"

definition notify_instance ::
  "notify_config \<Rightarrow> MultiProc_Module \<Rightarrow> u16 \<Rightarrow> u16 \<Rightarrow> notify_state \<Rightarrow> (ptr \<Rightarrow> Notify_Object \<Rightarrow> 'a res) \<Rightarrow> 'a res" where
  "notify_instance F P procId lineId s k =
     res_bind (notify_handle P procId lineId s) (\<lambda>h.
     Assert_isTrue (nfc_asserts F) (h \<noteq> NULL) A_notRegistered (
     if h = NULL then Err Bad_access else k h (nt_obj s h)))"

section \<open>Attaching and lines\<close>

definition Notify_attach :: "notify_config \<Rightarrow> MultiProc_Module \<Rightarrow> u16 \<Rightarrow> ptr \<Rightarrow> int" where
  "Notify_attach F P remoteProcId sharedAddr =
     (if nfc_numProcessors F \<le> remoteProcId \<or> remoteProcId = MultiProc_self P then Notify_E_INVALIDARG
      else nfc_proxy_attach F remoteProcId sharedAddr)"

definition Notify_intLineRegistered ::
  "notify_config \<Rightarrow> MultiProc_Module \<Rightarrow> u16 \<Rightarrow> u16 \<Rightarrow> notify_state \<Rightarrow> bool res" where
  "Notify_intLineRegistered F P procId lineId s =
     line_checked F procId lineId (
     res_bind (notify_handle P procId lineId s) (\<lambda>h. Ok (h \<noteq> NULL)))"

definition Notify_numIntLines :: "notify_config \<Rightarrow> MultiProc_Module \<Rightarrow> u16 \<Rightarrow> u16" where
  "Notify_numIntLines F P procId =
     (if MultiProc_self P = procId then 1 else nfc_proxy_numIntLines F procId)"

definition Notify_sharedMemReq :: "notify_config \<Rightarrow> MultiProc_Module \<Rightarrow> u16 \<Rightarrow> ptr \<Rightarrow> sizeT" where
  "Notify_sharedMemReq F P procId sharedAddr =
     (if procId = MultiProc_self P then 0 else nfc_proxy_sharedMemReq F procId sharedAddr)"

section \<open>Disabling and enabling\<close>

definition Notify_disable ::
  "notify_config \<Rightarrow> MultiProc_Module \<Rightarrow> u16 \<Rightarrow> u16 \<Rightarrow> notify_state \<Rightarrow> (u32 \<times> notify_state) res" where
  "Notify_disable F P procId lineId s =
     line_checked F procId lineId (
     notify_instance F P procId lineId s (\<lambda>h ob.
     let s1 = nlog N_enterModule s;
         nesting = no_nesting ob + 1;
         s2 = put_obj h (ob\<lparr>no_nesting := nesting\<rparr>) s1;
         s3 = nlog_if (nesting = 1 \<and> procId \<noteq> MultiProc_self P) (Drv_disable (no_driverHandle ob)) s2
     in Ok (nesting, nlog N_leaveModule s3)))"

definition Notify_restore ::
  "notify_config \<Rightarrow> MultiProc_Module \<Rightarrow> u16 \<Rightarrow> u16 \<Rightarrow> u32 \<Rightarrow> notify_state \<Rightarrow> notify_state res" where
  "Notify_restore F P procId lineId key s =
     line_checked F procId lineId (
     notify_instance F P procId lineId s (\<lambda>h ob.
     Assert_isTrue (nfc_asserts F) (key = no_nesting ob) A_outOfOrderNesting (
     let s1 = nlog N_enterModule s;
         nesting = no_nesting ob - 1;
         s2 = put_obj h (ob\<lparr>no_nesting := nesting\<rparr>) s1;
         s3 = nlog_if (nesting = 0 \<and> procId \<noteq> MultiProc_self P) (Drv_enable (no_driverHandle ob)) s2
     in Ok (nlog N_leaveModule s3))))"

definition Notify_disableEvent ::
  "notify_config \<Rightarrow> MultiProc_Module \<Rightarrow> u16 \<Rightarrow> u16 \<Rightarrow> u32 \<Rightarrow> notify_state \<Rightarrow> notify_state res" where
  "Notify_disableEvent F P procId lineId eventId s =
     event_checked F procId lineId eventId (
     notify_instance F P procId lineId s (\<lambda>h ob.
     if procId \<noteq> MultiProc_self P then
       Ok (nlog (Drv_disableEvent (no_driverHandle ob) (stripped eventId)) s)
     else
       (let s1 = nhwi Hwi_disable s;
            s2 = s1\<lparr>nt_localEnableMask := CLEAR_BIT (nt_localEnableMask s1) (stripped eventId)\<rparr>
        in Ok (nhwi Hwi_restore s2))))"

definition Notify_enableEvent ::
  "notify_config \<Rightarrow> MultiProc_Module \<Rightarrow> u16 \<Rightarrow> u16 \<Rightarrow> u32 \<Rightarrow> notify_state \<Rightarrow> notify_state res" where
  "Notify_enableEvent F P procId lineId eventId s =
     event_checked F procId lineId eventId (
     notify_instance F P procId lineId s (\<lambda>h ob.
     if procId \<noteq> MultiProc_self P then
       Ok (nlog (Drv_enableEvent (no_driverHandle ob) (stripped eventId)) s)
     else
       (let s1 = nhwi Hwi_disable s;
            s2 = s1\<lparr>nt_localEnableMask := SET_BIT (nt_localEnableMask s1) (stripped eventId)\<rparr>
        in Ok (nhwi Hwi_restore s2))))"

definition Notify_eventAvailable ::
  "notify_config \<Rightarrow> MultiProc_Module \<Rightarrow> u16 \<Rightarrow> u16 \<Rightarrow> u32 \<Rightarrow> notify_state \<Rightarrow> bool res" where
  "Notify_eventAvailable F P procId lineId eventId s =
     line_checked F procId lineId (
     Assert_isTrue (nfc_asserts F) (stripped eventId < nfc_numEvents F) A_invArgument (
     res_bind (notify_handle P procId lineId s) (\<lambda>h.
     if h = NULL then Ok False
     else if \<not> ISRESERVED F eventId then Ok False
     else
       res_bind (arr_get (no_callbacks (nt_obj s h)) (unat (stripped eventId))) (\<lambda>c.
       Ok (ec_fnNotifyCbck c = Fxn_NULL)))))"

section \<open>Registering\<close>

definition set_callback :: "ptr \<Rightarrow> nat \<Rightarrow> EventCallback \<Rightarrow> notify_state \<Rightarrow> notify_state res" where
  "set_callback h i c s =
     res_bind (arr_set (no_callbacks (nt_obj s h)) i c) (\<lambda>cs.
     Ok (put_obj h ((nt_obj s h)\<lparr>no_callbacks := cs\<rparr>) s))"

definition Notify_registerEventSingle ::
  "notify_config \<Rightarrow> MultiProc_Module \<Rightarrow> u16 \<Rightarrow> u16 \<Rightarrow> u32 \<Rightarrow> notify_fxn \<Rightarrow> ptr \<Rightarrow> notify_state \<Rightarrow>
   (int \<times> notify_state) res" where
  "Notify_registerEventSingle F P procId lineId eventId fnNotifyCbck cbckArg s =
     event_checked F procId lineId eventId (
     let s1 = nlog N_enterModule s in
     notify_instance F P procId lineId s1 (\<lambda>h ob.
     res_bind (arr_get (no_callbacks ob) (unat (stripped eventId))) (\<lambda>c.
     if ec_fnNotifyCbck c \<noteq> Fxn_NULL then Ok (Notify_E_ALREADYEXISTS, nlog N_leaveModule s1)
     else
       res_bind (set_callback h (unat (stripped eventId))
           \<lparr>ec_fnNotifyCbck = fnNotifyCbck, ec_cbckArg = cbckArg\<rparr> s1) (\<lambda>s2.
       Ok (Notify_S_SUCCESS,
           nlog N_leaveModule
             (nlog_if (procId \<noteq> MultiProc_self P)
               (Drv_registerEvent (no_driverHandle ob) (stripped eventId)) s2))))))"

text \<open>The listener's memory is an argument: what \<open>Memory_alloc\<close> returns, \<open>NULL\<close> when it fails.\<close>

definition Notify_registerEvent ::
  "notify_config \<Rightarrow> MultiProc_Module \<Rightarrow> ptr \<Rightarrow> u16 \<Rightarrow> u16 \<Rightarrow> u32 \<Rightarrow> notify_fxn \<Rightarrow> ptr \<Rightarrow> notify_state \<Rightarrow>
   (int \<times> notify_state) res" where
  "Notify_registerEvent F P listener procId lineId eventId fnNotifyCbck cbckArg s =
     event_checked F procId lineId eventId (
     let s1 = nlog N_enterModule s in
     notify_instance F P procId lineId s1 (\<lambda>h ob.
     if listener = NULL then Ok (Notify_E_MEMORY, nlog N_leaveModule s1)
     else
       let s2 = s1\<lparr>nt_listener := (nt_listener s1)
             (listener := \<lparr>ec_fnNotifyCbck = fnNotifyCbck, ec_cbckArg = cbckArg\<rparr>)\<rparr>;
           eventList = nfc_listGet F (no_eventList ob) (stripped eventId) in
       if eventList = NULL then Ok (Notify_E_RESOURCE, nlog N_leaveModule s2)
       else
         res_bind (List_empty eventList (nt_list s2)) (\<lambda>listWasEmpty.
         res_bind (on_lists (\<lambda>l. res_bind (List_put eventList listener l) (\<lambda>(_, l1). Ok l1)) s2) (\<lambda>s3.
         res_bind (if listWasEmpty then
             res_bind (Notify_registerEventSingle F P procId lineId eventId Fxn_execMany h s3)
               (\<lambda>(status, s4). Assert_isTrue (nfc_asserts F) (status = Notify_S_SUCCESS) A_internal (Ok s4))
           else Ok s3) (\<lambda>s5.
         Ok (Notify_S_SUCCESS, nlog N_leaveModule s5))))))"

definition Notify_unregisterEventSingle ::
  "notify_config \<Rightarrow> MultiProc_Module \<Rightarrow> u16 \<Rightarrow> u16 \<Rightarrow> u32 \<Rightarrow> notify_state \<Rightarrow> (int \<times> notify_state) res" where
  "Notify_unregisterEventSingle F P procId lineId eventId s =
     event_checked F procId lineId eventId (
     let s1 = nlog N_enterModule s in
     notify_instance F P procId lineId s1 (\<lambda>h ob.
     res_bind (arr_get (no_callbacks ob) (unat (stripped eventId))) (\<lambda>c.
     if ec_fnNotifyCbck c \<noteq> Fxn_NULL then
       let s2 = nlog_if (procId \<noteq> MultiProc_self P)
             (Drv_unregisterEvent (no_driverHandle ob) (stripped eventId)) s1 in
       res_bind (set_callback h (unat (stripped eventId)) \<lparr>ec_fnNotifyCbck = Fxn_NULL, ec_cbckArg = 0\<rparr> s2)
         (\<lambda>s3. Ok (Notify_S_SUCCESS, nlog N_leaveModule s3))
     else Ok (Notify_E_FAIL, nlog N_leaveModule s1))))"

text \<open>
  The search of \<open>Notify_unregisterEvent\<close>: from a listener on, with the number seen before it.
  It gives the listener found (\<open>NULL\<close> for none) and the number seen.
\<close>

fun find_listener ::
  "nat \<Rightarrow> ptr \<Rightarrow> notify_fxn \<Rightarrow> ptr \<Rightarrow> notify_state \<Rightarrow> ptr \<Rightarrow> u32 \<Rightarrow> (ptr \<times> u32) res" where
  "find_listener 0 eventList fn arg s listener seen = Err Out_of_fuel"
| "find_listener (Suc n) eventList fn arg s listener seen =
     (if listener = NULL then Ok (NULL, seen)
      else if nt_listener s listener = \<lparr>ec_fnNotifyCbck = fn, ec_cbckArg = arg\<rparr>
      then Ok (listener, seen + 1)
      else
        res_bind (List_next eventList listener (nt_list s)) (\<lambda>l1.
        find_listener n eventList fn arg s l1 (seen + 1)))"

definition Notify_unregisterEvent ::
  "nat \<Rightarrow> notify_config \<Rightarrow> MultiProc_Module \<Rightarrow> u16 \<Rightarrow> u16 \<Rightarrow> u32 \<Rightarrow> notify_fxn \<Rightarrow> ptr \<Rightarrow> notify_state \<Rightarrow>
   (int \<times> notify_state) res" where
  "Notify_unregisterEvent n F P procId lineId eventId fnNotifyCbck cbckArg s =
     event_checked F procId lineId eventId (
     let s1 = nlog N_enterModule s in
     notify_instance F P procId lineId s1 (\<lambda>h ob.
     let eventList = nfc_listGet F (no_eventList ob) (stripped eventId) in
     if eventList = NULL then Ok (Notify_E_NOTFOUND, s1)
     else
       res_bind (List_empty eventList (nt_list s1)) (\<lambda>empty.
       if empty then Ok (Notify_E_NOTFOUND, s1)
       else
         res_bind (List_next eventList NULL (nt_list s1)) (\<lambda>l0.
         res_bind (find_listener n eventList fnNotifyCbck cbckArg s1 l0 0) (\<lambda>(listener, seen).
         if listener = NULL then Ok (Notify_E_NOTFOUND, nlog N_leaveModule s1)
         else
           res_bind (List_next eventList listener (nt_list s1)) (\<lambda>after.
           res_bind (if seen = 1 \<and> after = NULL then
               res_bind (Notify_unregisterEventSingle F P procId lineId eventId s1) (\<lambda>(status, s2).
               Assert_isTrue (nfc_asserts F) (status = Notify_S_SUCCESS) A_internal (
               on_lists (List_remove listener) s2))
             else
               res_bind (on_lists (List_remove listener) (nhwi Hwi_disable s1)) (\<lambda>s2.
               Ok (nhwi Hwi_restore s2))) (\<lambda>s3.
           Ok (Notify_S_SUCCESS, nlog N_leaveModule (nlog (N_free listener) s3)))))))))"

section \<open>Delivering\<close>

text \<open>
  The rounds of \<open>execMany\<close>. A listener's function that is \<open>NULL\<close> is an access through \<open>NULL\<close>; a
  client cannot name \<open>execMany\<close>, which is internal to the module.
\<close>

definition call_user ::
  "notify_fxn \<Rightarrow> u16 \<Rightarrow> u16 \<Rightarrow> u32 \<Rightarrow> ptr \<Rightarrow> u32 \<Rightarrow> notify_state \<Rightarrow> notify_state res" where
  "call_user fn procId lineId eventId arg payload s =
     (case fn of
        Fxn_user f \<Rightarrow> Ok (s\<lparr>nt_calls := nt_calls s @
          [\<lparr>nl_fxn = f, nl_procId = procId, nl_lineId = lineId, nl_eventId = eventId,
            nl_arg = arg, nl_payload = payload\<rparr>]\<rparr>)
      | _ \<Rightarrow> Err Bad_access)"

fun execMany_loop ::
  "nat \<Rightarrow> ptr \<Rightarrow> u16 \<Rightarrow> u16 \<Rightarrow> u32 \<Rightarrow> u32 \<Rightarrow> ptr \<Rightarrow> notify_state \<Rightarrow> notify_state res" where
  "execMany_loop 0 eventList procId lineId eventId payload listener s = Err Out_of_fuel"
| "execMany_loop (Suc n) eventList procId lineId eventId payload listener s =
     (if listener = NULL then Ok s
      else
        (let c = nt_listener s listener in
         res_bind (call_user (ec_fnNotifyCbck c) procId lineId eventId (ec_cbckArg c) payload s) (\<lambda>s1.
         res_bind (List_next eventList listener (nt_list s1)) (\<lambda>l1.
         execMany_loop n eventList procId lineId eventId payload l1 s1))))"

definition Notify_execMany ::
  "nat \<Rightarrow> notify_config \<Rightarrow> u16 \<Rightarrow> u16 \<Rightarrow> u32 \<Rightarrow> ptr \<Rightarrow> u32 \<Rightarrow> notify_state \<Rightarrow> notify_state res" where
  "Notify_execMany n F procId lineId eventId obj payload s =
     (let eventList = nfc_listGet F (no_eventList (nt_obj s obj)) eventId in
      Assert_isTrue (nfc_asserts F) (eventList \<noteq> NULL) A_internal (
      if eventList = NULL then Ok s
      else
        res_bind (List_next eventList NULL (nt_list s)) (\<lambda>l0.
        execMany_loop n eventList procId lineId eventId payload l0 s)))"

definition Notify_exec ::
  "nat \<Rightarrow> notify_config \<Rightarrow> ptr \<Rightarrow> u32 \<Rightarrow> u32 \<Rightarrow> notify_state \<Rightarrow> notify_state res" where
  "Notify_exec n F obj eventId payload s =
     (let ob = nt_obj s obj in
      res_bind (arr_get (no_callbacks ob) (unat eventId)) (\<lambda>c.
      Assert_isTrue (nfc_asserts F) (ec_fnNotifyCbck c \<noteq> Fxn_NULL) A_internal (
      if ec_fnNotifyCbck c = Fxn_execMany then
        Notify_execMany n F (no_remoteProcId ob) (no_lineId ob) eventId (ec_cbckArg c) payload s
      else
        call_user (ec_fnNotifyCbck c) (no_remoteProcId ob) (no_lineId ob) eventId (ec_cbckArg c) payload s)))"

definition Notify_sendEvent ::
  "nat \<Rightarrow> notify_config \<Rightarrow> MultiProc_Module \<Rightarrow> u16 \<Rightarrow> u16 \<Rightarrow> u32 \<Rightarrow> u32 \<Rightarrow> bool \<Rightarrow> notify_state \<Rightarrow>
   (int \<times> notify_state) res" where
  "Notify_sendEvent n F P procId lineId eventId payload waitClear s =
     event_checked F procId lineId eventId (
     notify_instance F P procId lineId s (\<lambda>h ob.
     if procId \<noteq> MultiProc_self P then
       Ok (nfc_driver_send F (no_driverHandle ob) (stripped eventId) payload waitClear,
           nlog (Drv_sendEvent (no_driverHandle ob) (stripped eventId) payload waitClear) s)
     else
       (let s1 = nhwi Hwi_disable s in
        res_bind (arr_get (no_callbacks ob) (unat (stripped eventId))) (\<lambda>c.
        res_bind (
          if ec_fnNotifyCbck c = Fxn_NULL then Ok (Notify_E_EVTNOTREGISTERED, s1)
          else if no_nesting ob \<noteq> 0 then Ok (Notify_E_FAIL, s1)
          else if \<not> TEST_BIT (nt_localEnableMask s1) (stripped eventId) then Ok (Notify_E_EVTDISABLED, s1)
          else res_bind (Notify_exec n F h (stripped eventId) payload s1) (\<lambda>s2.
               Ok (Notify_S_SUCCESS, s2))) (\<lambda>(status, s3).
        Ok (status, nhwi Hwi_restore s3))))))"

section \<open>Instances\<close>

text \<open>
  The arguments \<open>callbacks\<close> and \<open>evLists\<close> are what the two allocations return. The result is the
  status of an XDCtools constructor: zero for success, else how much is to be undone.
\<close>

fun construct_lists :: "notify_config \<Rightarrow> ptr \<Rightarrow> nat \<Rightarrow> u32 \<Rightarrow> notify_state \<Rightarrow> notify_state res" where
  "construct_lists F evLists 0 i s = Ok s"
| "construct_lists F evLists (Suc k) i s =
     res_bind (on_lists (List_Instance_init (nfc_listGet F evLists i)) s) (\<lambda>s1.
     construct_lists F evLists k (i + 1) s1)"

definition Notify_Instance_init ::
  "notify_config \<Rightarrow> MultiProc_Module \<Rightarrow> ptr \<Rightarrow> ptr \<Rightarrow> ptr \<Rightarrow> ptr \<Rightarrow> u16 \<Rightarrow> u16 \<Rightarrow> notify_state \<Rightarrow>
   (int \<times> notify_state) res" where
  "Notify_Instance_init F P callbacks evLists h driverHandle remoteProcId lineId s =
     line_checked F remoteProcId lineId (
     res_bind (notify_handle P remoteProcId lineId s) (\<lambda>old.
     Assert_isTrue (nfc_asserts F) (old = NULL) A_alreadyRegistered (
     let ob = (nt_obj s h)\<lparr>no_remoteProcId := remoteProcId, no_lineId := lineId, no_nesting := 0\<rparr> in
     if callbacks = NULL then Ok (2, put_obj h ob s)
     else
       let ob1 = ob\<lparr>no_callbacks :=
             replicate (unat (nfc_numEvents F)) \<lparr>ec_fnNotifyCbck = Fxn_NULL, ec_cbckArg = 0\<rparr>,
             no_eventList := evLists\<rparr> in
       if evLists = NULL then Ok (1, put_obj h ob1 s)
       else
         res_bind (construct_lists F evLists (unat (nfc_numEvents F)) 0 s) (\<lambda>s1.
         let s2 = put_obj h (ob1\<lparr>no_driverHandle := driverHandle\<rparr>) s1;
             s3 = nlog_if (driverHandle \<noteq> NULL) (Drv_setNotifyHandle driverHandle h) s2 in
         res_bind (set_notify_handle P remoteProcId lineId h s3) (\<lambda>s4. Ok (0, s4))))))"

text \<open>The callbacks' memory is freed with the address \<open>callbacks\<close> it was allocated at.\<close>

definition Notify_Instance_finalize ::
  "MultiProc_Module \<Rightarrow> ptr \<Rightarrow> ptr \<Rightarrow> int \<Rightarrow> notify_state \<Rightarrow> notify_state res" where
  "Notify_Instance_finalize P callbacks h status s =
     (let ob = nt_obj s h in
      if status = 0 then
        res_bind (set_notify_handle P (no_remoteProcId ob) (no_lineId ob) NULL s) (\<lambda>s1.
        Ok (nlog (N_free callbacks) (nlog (N_free (no_eventList ob)) s1)))
      else if status = 1 then Ok (nlog (N_free callbacks) s)
      else Ok s)"

text \<open>The rounds of \<open>detach\<close>, one for each line, from line \<open>i\<close> on.\<close>

fun detach_lines ::
  "MultiProc_Module \<Rightarrow> (ptr \<Rightarrow> ptr) \<Rightarrow> u16 \<Rightarrow> nat \<Rightarrow> u16 \<Rightarrow> notify_state \<Rightarrow> notify_state res" where
  "detach_lines P cbs remoteProcId 0 i s = Ok s"
| "detach_lines P cbs remoteProcId (Suc k) i s =
     res_bind (notify_handle P remoteProcId i s) (\<lambda>h.
     res_bind (if h = NULL then Ok s
       else
         res_bind (Notify_Instance_finalize P (cbs h) h 0 s) (\<lambda>s1.
         Ok (nlog (Drv_delete (no_driverHandle (nt_obj s h))) s1))) (\<lambda>s2.
     detach_lines P cbs remoteProcId k (i + 1) s2))"

definition Notify_detach ::
  "notify_config \<Rightarrow> MultiProc_Module \<Rightarrow> (ptr \<Rightarrow> ptr) \<Rightarrow> u16 \<Rightarrow> notify_state \<Rightarrow> (int \<times> notify_state) res" where
  "Notify_detach F P cbs remoteProcId s =
     res_bind (detach_lines P cbs remoteProcId (unat (nfc_numLines F)) 0 s) (\<lambda>s1.
     Ok (Notify_S_SUCCESS, s1))"

text \<open>
  The start-up of the module creates the loopback instance, once the processor knows its id; the
  answer tells whether it is done (\<open>Startup_DONE\<close>).
\<close>

definition Notify_Module_startup ::
  "notify_config \<Rightarrow> MultiProc_Module \<Rightarrow> bool \<Rightarrow> ptr \<Rightarrow> ptr \<Rightarrow> ptr \<Rightarrow> notify_state \<Rightarrow>
   (bool \<times> notify_state) res" where
  "Notify_Module_startup F P startupDone callbacks evLists h s =
     (let procId = MultiProc_self P in
      if \<not> startupDone \<and> procId = MultiProc_INVALIDID then Ok (False, s)
      else
        Assert_isTrue (nfc_asserts F) (procId \<noteq> MultiProc_INVALIDID) A_invalidMultiProcId (
        res_bind (Notify_Instance_init F P callbacks evLists h NULL procId 0 s) (\<lambda>(_, s1).
        Ok (True, s1))))"

end
