(* ===== verification/Notify_Lines.thy ===== *)
theory Notify_Lines
imports Notify Queues
begin

text \<open>
  What a line of \<open>Notify\<close> does, as a table: for each event the listeners in the order they
  registered, or one single callback, and the disabling of the line and of its events. Every
  operation keeps the relation between the module's memory and the table.
\<close>

section \<open>The table\<close>

type_synonym listeners = "(ptr \<times> EventCallback) list"

text \<open>A listener is known by the address of its memory; the callers see only the callbacks.\<close>

record notify_table =
  na_many :: "u32 \<Rightarrow> listeners"
  na_single :: "u32 \<Rightarrow> EventCallback option"
  na_nesting :: u32
  na_mask :: "u32 \<Rightarrow> bool"
  na_calls :: "notify_call list"
  na_gate :: int

text \<open>
  \<open>na_gate\<close> counts how often the module's gate is held, \<open>na_mask\<close> are the events enabled on
  the loopback line.
\<close>

definition na_used :: "notify_table \<Rightarrow> u32 \<Rightarrow> bool" where
  "na_used a e \<longleftrightarrow> na_many a e \<noteq> [] \<or> na_single a e \<noteq> None"

fun remove_first :: "EventCallback \<Rightarrow> listeners \<Rightarrow> listeners" where
  "remove_first cb [] = []"
| "remove_first cb (p # ps) = (if snd p = cb then ps else p # remove_first cb ps)"

lemma remove_first_snd: "map snd (remove_first cb ps) = remove1 cb (map snd ps)"
  by (induction ps) auto

lemma remove_first_split:
  "cb \<notin> snd ` set us \<Longrightarrow> remove_first cb (us @ (x, cb) # vs) = us @ vs"
  by (induction us) auto

lemma listener_split:
  assumes "cb \<in> snd ` set ps"
  obtains us x vs where "ps = us @ (x, cb) # vs" and "cb \<notin> snd ` set us"
  using assms
proof (induction ps arbitrary: thesis)
  case Nil
  then show ?case by simp
next
  case (Cons p ps)
  show ?case
  proof (cases "snd p = cb")
    case True
    then show ?thesis using Cons.prems(1) [of "[]" "fst p" ps] by (cases p) auto
  next
    case False
    then obtain us x vs where "ps = us @ (x, cb) # vs" "cb \<notin> snd ` set us"
      using Cons.IH Cons.prems(2) by auto
    then show ?thesis using Cons.prems(1) [of "p # us" x vs] False by auto
  qed
qed

section \<open>The lists of a line\<close>

definition cell :: "(u32 \<Rightarrow> ptr) \<Rightarrow> (u32 \<Rightarrow> listeners) \<Rightarrow> u32 \<Rightarrow> ptr set" where
  "cell H many e = set (H e # map fst (many e))"

definition lists_rel ::
  "u32 \<Rightarrow> (u32 \<Rightarrow> ptr) \<Rightarrow> list_mem \<Rightarrow> (ptr \<Rightarrow> EventCallback) \<Rightarrow> (u32 \<Rightarrow> listeners) \<Rightarrow> bool" where
  "lists_rel N H l lis many \<longleftrightarrow>
     (\<forall>e<N. list_ring (H e) l (map fst (many e)) \<and> (\<forall>p\<in>set (many e). lis (fst p) = snd p)) \<and>
     (\<forall>e<N. \<forall>f<N. e \<noteq> f \<longrightarrow> cell H many e \<inter> cell H many f = {})"

lemma lists_rel_ring:
  assumes "lists_rel N H l lis many" and "e < N"
  shows "list_ring (H e) l (map fst (many e))" and "\<And>p. p \<in> set (many e) \<Longrightarrow> lis (fst p) = snd p"
    and "H e \<noteq> NULL"
  using assms list_ring_parts(3) [of "H e" l "map fst (many e)" "H e"] by (auto simp: lists_rel_def)

lemma lists_rel_hwi [simp]: "lists_rel N H (hwi c l) lis many = lists_rel N H l lis many"
  by (simp add: lists_rel_def)

text \<open>A change within the list of one event, around an element \<open>x\<close> that no other list has.\<close>

lemma lists_rel_step:
  assumes R: "lists_rel N H l lis many" and e: "e < N"
    and ring: "list_ring (H e) l' (map fst xs)" and frame: "list_frame W l l'"
    and W: "W \<subseteq> insert x (cell H many e)" and xs: "fst ` set xs \<subseteq> insert x (cell H many e)"
    and x: "\<And>f. f < N \<Longrightarrow> f \<noteq> e \<Longrightarrow> x \<notin> cell H many f"
    and lis: "\<And>p. p \<in> set xs \<Longrightarrow> lis' (fst p) = snd p" "\<And>y. y \<noteq> x \<Longrightarrow> lis' y = lis y"
  shows "lists_rel N H l' lis' (many(e := xs))"
proof -
  have far: "insert x (cell H many e) \<inter> cell H many f = {}" if "f < N" "f \<noteq> e" for f
    using R that e x [OF that] unfolding lists_rel_def by blast
  have other: "list_ring (H f) l' (map fst (many f)) \<and> (\<forall>p\<in>set (many f). lis' (fst p) = snd p)"
    if f: "f < N" "f \<noteq> e" for f
  proof
    have "W \<inter> cell H many f = {}" using far [OF f] W by blast
    then have "W \<inter> set (H f # map fst (many f)) = {}" by (simp only: cell_def)
    with list_ring_frame [OF frame lists_rel_ring(1) [OF R f(1)]]
    show "list_ring (H f) l' (map fst (many f))" .
    show "\<forall>p\<in>set (many f). lis' (fst p) = snd p"
    proof
      fix p assume p: "p \<in> set (many f)"
      then have "fst p \<noteq> x" using far [OF f] by (auto simp: cell_def)
      with p show "lis' (fst p) = snd p"
        using lis(2) lists_rel_ring(2) [OF R f(1)] by simp
    qed
  qed
  have sub: "cell H (many(e := xs)) e \<subseteq> insert x (cell H many e)"
    using xs by (auto simp: cell_def)
  have cells: "cell H (many(e := xs)) f = cell H many f" if "f \<noteq> e" for f
    using that by (simp add: cell_def)
  have disj: "cell H (many(e := xs)) f \<inter> cell H (many(e := xs)) g = {}"
    if fg: "f < N" "g < N" "f \<noteq> g" for f g
  proof -
    consider "f = e" | "g = e" | "f \<noteq> e" "g \<noteq> e" by blast
    then show ?thesis
    proof cases
      case 1
      then show ?thesis using far [of g] sub cells [of g] fg by auto
    next
      case 2
      then show ?thesis using far [of f] sub cells [of f] fg by auto
    next
      case 3
      then show ?thesis using R fg cells [of f] cells [of g] by (simp add: lists_rel_def)
    qed
  qed
  have "list_ring (H f) l' (map fst ((many(e := xs)) f)) \<and>
      (\<forall>p\<in>set ((many(e := xs)) f). lis' (fst p) = snd p)" if "f < N" for f
    using other [OF that] ring lis(1) by (cases "f = e") simp_all
  then show ?thesis using disj unfolding lists_rel_def by blast
qed

lemma lists_rel_put:
  assumes R: "lists_rel N H l lis many" and e: "e < N" and x: "x \<noteq> NULL"
    and fresh: "\<And>f. f < N \<Longrightarrow> x \<notin> cell H many f"
  shows "\<exists>l'. List_put (H e) x l = Ok ((), l') \<and> lists_rel N H l' (lis(x := c)) (many(e := many e @ [(x, c)]))"
proof -
  note ring = lists_rel_ring [OF R e]
  have x': "x \<notin> set (H e # map fst (many e))" using fresh [OF e] by (simp add: cell_def)
  obtain l' where l': "List_put (H e) x l = Ok ((), l')" "list_ring (H e) l' (map fst (many e) @ [x])"
    "list_frame {H e, x, left_of (H e) (map fst (many e))} l l'"
    using List_put_last [OF ring(1) x' x] by blast
  have "lists_rel N H l' (lis(x := c)) (many(e := many e @ [(x, c)]))"
  proof (rule lists_rel_step [OF R e _ l'(3), where x = x])
    show "{H e, x, left_of (H e) (map fst (many e))} \<subseteq> insert x (cell H many e)"
      using neighbour_mem(1) [of "H e" "map fst (many e)"] by (auto simp: cell_def)
    show "(lis(x := c)) (fst p) = snd p" if "p \<in> set (many e @ [(x, c)])" for p
      using that x' ring(2) by force
  qed (use l'(2) fresh in \<open>auto simp: cell_def\<close>)
  with l'(1) show ?thesis by blast
qed

lemma lists_rel_remove:
  assumes R: "lists_rel N H l lis many" and e: "e < N" and split: "many e = us @ (x, c) # vs"
  shows "\<exists>l'. List_remove x l = Ok l' \<and> lists_rel N H l' lis (many(e := us @ vs))"
proof -
  note ring = lists_rel_ring [OF R e]
  obtain l' where l': "List_remove x l = Ok l'" "list_ring (H e) l' (map fst us @ map fst vs)"
    "list_frame {left_of (H e) (map fst us), right_of (H e) (map fst vs)} l l'"
    using List_remove_member [of "H e" l "map fst us" x "map fst vs"] ring(1) split by auto
  have x: "x \<in> cell H many e" using split by (simp add: cell_def)
  have "lists_rel N H l' lis (many(e := us @ vs))"
  proof (rule lists_rel_step [OF R e _ l'(3), where x = x])
    show "{left_of (H e) (map fst us), right_of (H e) (map fst vs)} \<subseteq> insert x (cell H many e)"
      using neighbour_mem(1) [of "H e" "map fst us"] neighbour_mem(2) [of "H e" "map fst vs"] split
      by (auto simp: cell_def)
    show "x \<notin> cell H many f" if "f < N" "f \<noteq> e" for f
      using R that e x unfolding lists_rel_def by blast
    show "lis (fst p) = snd p" if "p \<in> set (us @ vs)" for p
      using ring(2) [of p] that split by auto
  qed (use l'(2) split in \<open>auto simp: cell_def\<close>)
  with l'(1) show ?thesis by blast
qed

section \<open>The two loops\<close>

text \<open>A ring of listeners has fewer than \<open>2 ^ 32\<close> elements.\<close>

lemma list_ring_length:
  assumes "list_ring h s xs"
  shows "length xs < 2 ^ 32"
proof -
  have "distinct (h # xs)" using list_ring_parts(2) [OF assms] .
  then have "length (h # xs) = card (set (h # xs))" by (rule distinct_card [symmetric])
  also have "\<dots> \<le> card (UNIV :: ptr set)" by (rule card_mono) auto
  also have "\<dots> = 2 ^ 32" by (simp add: card_word)
  finally show ?thesis by simp
qed

lemma ring_pos_next:
  assumes "list_ring h s (us @ x # vs)"
  shows "List_next h x s = Ok (list_pos h (right_of h vs))" and "x \<noteq> h" and "x \<noteq> NULL"
proof -
  show "x \<noteq> h" "x \<noteq> NULL" using list_ring_member(3,6) [OF assms] by auto
  then show "List_next h x s = Ok (list_pos h (right_of h vs))"
    using List_next_ring [of h s "us @ [x]" vs] assms by (simp add: left_of_def list_pos_def)
qed

lemma ring_first:
  assumes "list_ring h s xs"
  shows "List_next h NULL s = Ok (list_pos h (right_of h xs))"
  using List_next_ring [of h s "[]" xs] assms by (simp add: left_of_def list_pos_def)

lemma list_pos_simps [simp]:
  "list_pos h h = NULL"
  "x \<noteq> h \<Longrightarrow> list_pos h x = x"
  by (simp_all add: list_pos_def)

lemma callback_eta [simp]:
  "\<lparr>ec_fnNotifyCbck = ec_fnNotifyCbck c, ec_cbckArg = ec_cbckArg c\<rparr> = c"
  by simp

lemma find_listener_found:
  assumes "list_ring h (nt_list s) (ys @ map fst us @ x # zs)"
    and "\<forall>p\<in>set us. nt_listener s (fst p) = snd p" and "nt_listener s x = cb" and "cb \<notin> snd ` set us"
    and "length us < n"
  shows "find_listener n h (ec_fnNotifyCbck cb) (ec_cbckArg cb) s
      (list_pos h (right_of h (map fst us @ x # zs))) k = Ok (x, k + of_nat (length us) + 1)"
  using assms
proof (induction us arbitrary: n k ys)
  case Nil
  then show ?case using ring_pos_next(2,3) [of h "nt_list s" ys x zs] by (cases n) auto
next
  case (Cons u us)
  note u = ring_pos_next [of h "nt_list s" ys "fst u" "map fst us @ x # zs"]
  from Cons.prems obtain m where n: "n = Suc m" "length us < m" by (cases n) auto
  have "nt_listener s (fst u) \<noteq> cb" using Cons.prems(2,4) by auto
  with Cons.IH [of "ys @ [fst u]" m "k + 1"] Cons.prems n u show ?case
    by (auto simp: ac_simps)
qed

lemma find_listener_none:
  assumes "list_ring h (nt_list s) (ys @ map fst us)"
    and "\<forall>p\<in>set us. nt_listener s (fst p) = snd p" and "cb \<notin> snd ` set us" and "length us < n"
  shows "find_listener n h (ec_fnNotifyCbck cb) (ec_cbckArg cb) s
      (list_pos h (right_of h (map fst us))) k = Ok (NULL, k + of_nat (length us))"
  using assms
proof (induction us arbitrary: n k ys)
  case Nil
  then show ?case by (cases n) auto
next
  case (Cons u us)
  note u = ring_pos_next [of h "nt_list s" ys "fst u" "map fst us"]
  from Cons.prems obtain m where n: "n = Suc m" "length us < m" by (cases n) auto
  have "nt_listener s (fst u) \<noteq> cb" using Cons.prems(2,3) by auto
  with Cons.IH [of "ys @ [fst u]" m "k + 1"] Cons.prems n u show ?case
    by (auto simp: ac_simps)
qed

text \<open>The call a listener gets.\<close>

definition user_fxn :: "notify_fxn \<Rightarrow> u32" where
  "user_fxn fn = (case fn of Fxn_user f \<Rightarrow> f | _ \<Rightarrow> 0)"

definition is_user :: "EventCallback \<Rightarrow> bool" where
  "is_user c \<longleftrightarrow> (\<exists>f. ec_fnNotifyCbck c = Fxn_user f)"

definition the_call :: "u16 \<Rightarrow> u16 \<Rightarrow> u32 \<Rightarrow> u32 \<Rightarrow> EventCallback \<Rightarrow> notify_call" where
  "the_call procId lineId e payload c =
     \<lparr>nl_fxn = user_fxn (ec_fnNotifyCbck c), nl_procId = procId, nl_lineId = lineId, nl_eventId = e,
      nl_arg = ec_cbckArg c, nl_payload = payload\<rparr>"

lemma call_user_eq:
  "is_user c \<Longrightarrow> call_user (ec_fnNotifyCbck c) procId lineId e (ec_cbckArg c) payload s =
     Ok (s\<lparr>nt_calls := nt_calls s @ [the_call procId lineId e payload c]\<rparr>)"
  by (auto simp: is_user_def call_user_def the_call_def user_fxn_def)

lemma execMany_loop_more:
  assumes "execMany_loop m h procId lineId e payload l s = Ok t" and "m \<le> n"
  shows "execMany_loop n h procId lineId e payload l s = Ok t"
  using assms
proof (induction m arbitrary: n l s)
  case (Suc m)
  then obtain k where "n = Suc k" "m \<le> k" by (cases n) auto
  with Suc show ?case by (auto simp: Let_def res_bind_eq_Ok split: if_splits)
qed simp

lemma execMany_loop_calls:
  assumes "list_ring h (nt_list s) (ys @ map fst us)"
    and "\<forall>p\<in>set us. nt_listener s (fst p) = snd p \<and> is_user (snd p)" and "length us < n"
  shows "execMany_loop n h procId lineId e payload (list_pos h (right_of h (map fst us))) s =
     Ok (s\<lparr>nt_calls := nt_calls s @ map (the_call procId lineId e payload \<circ> snd) us\<rparr>)"
  using assms
proof (induction us arbitrary: n s ys)
  case Nil
  then show ?case by (cases n) auto
next
  case (Cons u us)
  let ?t = "s\<lparr>nt_calls := nt_calls s @ [the_call procId lineId e payload (snd u)]\<rparr>"
  note u = ring_pos_next [of h "nt_list s" ys "fst u" "map fst us"]
  from Cons.prems obtain m where n: "n = Suc m" "length us < m" by (cases n) auto
  have c: "nt_listener s (fst u) = snd u" "is_user (snd u)" using Cons.prems(2) by auto
  have "execMany_loop m h procId lineId e payload (list_pos h (right_of h (map fst us))) ?t =
      Ok (?t\<lparr>nt_calls := nt_calls ?t @ map (the_call procId lineId e payload \<circ> snd) us\<rparr>)"
    using Cons.IH [of ?t "ys @ [fst u]" m] Cons.prems n by simp
  with u Cons.prems(1) n c call_user_eq [OF c(2), of procId lineId e payload s] show ?case
    by (simp add: Let_def)
qed

section \<open>The relation to the module's memory\<close>

lemma nlog_simps [simp]:
  "nt_handles (nlog e s) = nt_handles s" "nt_obj (nlog e s) = nt_obj s"
  "nt_listener (nlog e s) = nt_listener s" "nt_list (nlog e s) = nt_list s"
  "nt_localEnableMask (nlog e s) = nt_localEnableMask s" "nt_calls (nlog e s) = nt_calls s"
  "nt_log (nlog e s) = e # nt_log s"
  by (simp_all add: nlog_def)

lemma nlog_if_simps [simp]:
  "nt_handles (nlog_if b e s) = nt_handles s" "nt_obj (nlog_if b e s) = nt_obj s"
  "nt_listener (nlog_if b e s) = nt_listener s" "nt_list (nlog_if b e s) = nt_list s"
  "nt_localEnableMask (nlog_if b e s) = nt_localEnableMask s" "nt_calls (nlog_if b e s) = nt_calls s"
  "nt_log (nlog_if b e s) = (if b then e # nt_log s else nt_log s)"
  by (simp_all add: nlog_if_def)

lemma nhwi_simps [simp]:
  "nt_handles (nhwi c s) = nt_handles s" "nt_obj (nhwi c s) = nt_obj s"
  "nt_listener (nhwi c s) = nt_listener s" "nt_list (nhwi c s) = hwi c (nt_list s)"
  "nt_localEnableMask (nhwi c s) = nt_localEnableMask s" "nt_calls (nhwi c s) = nt_calls s"
  "nt_log (nhwi c s) = nt_log s"
  by (simp_all add: nhwi_def)

lemma put_obj_simps [simp]:
  "nt_handles (put_obj h ob s) = nt_handles s" "nt_obj (put_obj h ob s) = (nt_obj s)(h := ob)"
  "nt_listener (put_obj h ob s) = nt_listener s" "nt_list (put_obj h ob s) = nt_list s"
  "nt_localEnableMask (put_obj h ob s) = nt_localEnableMask s" "nt_calls (put_obj h ob s) = nt_calls s"
  "nt_log (put_obj h ob s) = nt_log s"
  by (simp_all add: put_obj_def)

text \<open>What the log says of the gate and of the driver \<open>d\<close>.\<close>

fun module_gate :: "notify_event list \<Rightarrow> int" where
  "module_gate [] = 0"
| "module_gate (N_enterModule # es) = module_gate es + 1"
| "module_gate (N_leaveModule # es) = module_gate es - 1"
| "module_gate (e # es) = module_gate es"

fun drv_registered :: "ptr \<Rightarrow> notify_event list \<Rightarrow> u32 \<Rightarrow> bool" where
  "drv_registered d [] x = False"
| "drv_registered d (Drv_registerEvent d' y # es) x = (d = d' \<and> x = y \<or> drv_registered d es x)"
| "drv_registered d (Drv_unregisterEvent d' y # es) x = ((d \<noteq> d' \<or> x \<noteq> y) \<and> drv_registered d es x)"
| "drv_registered d (e # es) x = drv_registered d es x"

fun drv_disabled :: "ptr \<Rightarrow> notify_event list \<Rightarrow> bool" where
  "drv_disabled d [] = False"
| "drv_disabled d (Drv_disable d' # es) = (d = d' \<or> drv_disabled d es)"
| "drv_disabled d (Drv_enable d' # es) = (d \<noteq> d' \<and> drv_disabled d es)"
| "drv_disabled d (e # es) = drv_disabled d es"

text \<open>The callback the instance \<open>h\<close> keeps for an event.\<close>

definition callback_of :: "ptr \<Rightarrow> notify_table \<Rightarrow> u32 \<Rightarrow> EventCallback" where
  "callback_of h a e =
     (if na_many a e \<noteq> [] then \<lparr>ec_fnNotifyCbck = Fxn_execMany, ec_cbckArg = h\<rparr>
      else case na_single a e of
        None \<Rightarrow> \<lparr>ec_fnNotifyCbck = Fxn_NULL, ec_cbckArg = 0\<rparr>
      | Some c \<Rightarrow> c)"

definition table_ok :: "u32 \<Rightarrow> notify_table \<Rightarrow> bool" where
  "table_ok N a \<longleftrightarrow> (\<forall>e<N. (na_many a e \<noteq> [] \<longrightarrow> na_single a e = None) \<and>
     (\<forall>p\<in>set (na_many a e). is_user (snd p)) \<and> (\<forall>c. na_single a e = Some c \<longrightarrow> is_user c))"

definition object_rel ::
  "u32 \<Rightarrow> ptr \<Rightarrow> u16 \<Rightarrow> u16 \<Rightarrow> ptr \<Rightarrow> ptr \<Rightarrow> Notify_Object \<Rightarrow> notify_table \<Rightarrow> bool" where
  "object_rel N h procId lineId d L ob a \<longleftrightarrow>
     length (no_callbacks ob) = unat N \<and> (\<forall>e<N. no_callbacks ob ! unat e = callback_of h a e) \<and>
     no_nesting ob = na_nesting a \<and> no_remoteProcId ob = procId \<and> no_lineId ob = lineId \<and>
     no_driverHandle ob = d \<and> no_eventList ob = L"

definition driver_rel :: "u32 \<Rightarrow> ptr \<Rightarrow> notify_event list \<Rightarrow> notify_table \<Rightarrow> bool" where
  "driver_rel N d log a \<longleftrightarrow> (\<forall>e<N. drv_registered d log e \<longleftrightarrow> na_used a e) \<and>
     (drv_disabled d log \<longleftrightarrow> na_nesting a \<noteq> 0)"

text \<open>The line is the pair of processor and line; \<open>d\<close> is its driver and \<open>L\<close> its array of lists.\<close>

record notify_line =
  ln_procId :: u16
  ln_lineId :: u16
  ln_handle :: ptr
  ln_driver :: ptr
  ln_lists :: ptr

definition is_local :: "MultiProc_Module \<Rightarrow> notify_line \<Rightarrow> bool" where
  "is_local P ln \<longleftrightarrow> ln_procId ln = MultiProc_self P"

definition line_found :: "notify_config \<Rightarrow> MultiProc_Module \<Rightarrow> notify_line \<Rightarrow> notify_state \<Rightarrow> bool" where
  "line_found F P ln s \<longleftrightarrow>
     notify_handle P (ln_procId ln) (ln_lineId ln) s = Ok (ln_handle ln) \<and> ln_handle ln \<noteq> NULL \<and>
     ln_procId ln < nfc_numProcessors F \<and> ln_lineId ln < nfc_numLines F \<and> nfc_numEvents F \<le> 32"

definition notify_rel ::
  "notify_config \<Rightarrow> MultiProc_Module \<Rightarrow> notify_line \<Rightarrow> notify_state \<Rightarrow> notify_table \<Rightarrow> bool" where
  "notify_rel F P ln s a \<longleftrightarrow> (let N = nfc_numEvents F; h = ln_handle ln in
     line_found F P ln s \<and> table_ok N a \<and>
     object_rel N h (ln_procId ln) (ln_lineId ln) (ln_driver ln) (ln_lists ln) (nt_obj s h) a \<and>
     lists_rel N (nfc_listGet F (ln_lists ln)) (nt_list s) (nt_listener s) (na_many a) \<and>
     (is_local P ln \<longrightarrow> (\<forall>e<N. TEST_BIT (nt_localEnableMask s) e = na_mask a e)) \<and>
     (\<not> is_local P ln \<longrightarrow> driver_rel N (ln_driver ln) (nt_log s) a) \<and>
     nt_calls s = na_calls a \<and> module_gate (nt_log s) = na_gate a)"

lemma notify_handle_cong:
  "nt_handles t = nt_handles s \<Longrightarrow> notify_handle P procId lineId t = notify_handle P procId lineId s"
  by (simp add: notify_handle_def)

lemma line_found_cong: "nt_handles t = nt_handles s \<Longrightarrow> line_found F P ln t = line_found F P ln s"
  using notify_handle_cong [of t s] by (simp add: line_found_def)

definition event_fine :: "notify_config \<Rightarrow> u32 \<Rightarrow> bool" where
  "event_fine F eventId \<longleftrightarrow> stripped eventId < nfc_numEvents F \<and> ISRESERVED F eventId"

lemma found_checks:
  assumes "line_found F P ln s"
  shows "line_checked F (ln_procId ln) (ln_lineId ln) k = k"
    and "event_fine F eventId \<Longrightarrow> event_checked F (ln_procId ln) (ln_lineId ln) eventId k = k"
    and "notify_instance F P (ln_procId ln) (ln_lineId ln) s g = g (ln_handle ln) (nt_obj s (ln_handle ln))"
  using assms
  by (simp_all add: line_found_def line_checked_def event_checked_def event_fine_def notify_instance_def)

lemma found_instance:
  assumes "line_found F P ln s" and "nt_handles t = nt_handles s"
  shows "notify_instance F P (ln_procId ln) (ln_lineId ln) t g = g (ln_handle ln) (nt_obj t (ln_handle ln))"
  using found_checks(3) [of F P ln t] assms line_found_cong by blast

lemma object_rel_set:
  assumes "object_rel N h procId lineId d L ob a" and "e < N"
    and "callback_of h a' e = c" and "\<And>f. f \<noteq> e \<Longrightarrow> callback_of h a' f = callback_of h a f"
    and "na_nesting a' = na_nesting a"
  shows "object_rel N h procId lineId d L (ob\<lparr>no_callbacks := (no_callbacks ob)[unat e := c]\<rparr>) a'"
  using assms unfolding object_rel_def
  by (auto simp: nth_list_update word_eq_unat [symmetric] word_less_nat_alt)

lemma object_rel_at:
  assumes "object_rel N h procId lineId d L ob a" and "e < N"
  shows "arr_get (no_callbacks ob) (unat e) = Ok (callback_of h a e)"
    and "unat e < length (no_callbacks ob)"
  using assms by (auto simp: object_rel_def word_less_nat_alt arr_get_def)

lemma callback_null_iff:
  assumes "table_ok N a" and "e < N"
  shows "ec_fnNotifyCbck (callback_of h a e) = Fxn_NULL \<longleftrightarrow> \<not> na_used a e"
    and "ec_fnNotifyCbck (callback_of h a e) = Fxn_execMany \<longleftrightarrow> na_many a e \<noteq> []"
  using assms by (auto simp: callback_of_def na_used_def table_ok_def is_user_def split: option.splits)

lemma set_callback_eq:
  "i < length (no_callbacks (nt_obj s h)) \<Longrightarrow> set_callback h i c s =
     Ok (put_obj h ((nt_obj s h)\<lparr>no_callbacks := (no_callbacks (nt_obj s h))[i := c]\<rparr>) s)"
  by (simp add: set_callback_def)

text \<open>The two single-callback operations, on a line that is found.\<close>

definition with_callback :: "notify_line \<Rightarrow> u32 \<Rightarrow> EventCallback \<Rightarrow> notify_state \<Rightarrow> notify_state" where
  "with_callback ln e c s =
     put_obj (ln_handle ln)
       ((nt_obj s (ln_handle ln))\<lparr>no_callbacks := (no_callbacks (nt_obj s (ln_handle ln)))[unat e := c]\<rparr>) s"

lemma with_callback_simps [simp]:
  "nt_handles (with_callback ln e c s) = nt_handles s" "nt_listener (with_callback ln e c s) = nt_listener s"
  "nt_list (with_callback ln e c s) = nt_list s"
  "nt_localEnableMask (with_callback ln e c s) = nt_localEnableMask s"
  "nt_calls (with_callback ln e c s) = nt_calls s" "nt_log (with_callback ln e c s) = nt_log s"
  by (simp_all add: with_callback_def)

lemma registerEventSingle_eq:
  assumes "line_found F P ln s" and "event_fine F eventId"
    and "unat (stripped eventId) < length (no_callbacks (nt_obj s (ln_handle ln)))"
  shows "Notify_registerEventSingle F P (ln_procId ln) (ln_lineId ln) eventId fn arg s =
    (let ob = nt_obj s (ln_handle ln); e = stripped eventId; s1 = nlog N_enterModule s in
     if ec_fnNotifyCbck (no_callbacks ob ! unat e) \<noteq> Fxn_NULL
     then Ok (Notify_E_ALREADYEXISTS, nlog N_leaveModule s1)
     else Ok (Notify_S_SUCCESS, nlog N_leaveModule (nlog_if (\<not> is_local P ln)
       (Drv_registerEvent (no_driverHandle ob) e)
       (with_callback ln e \<lparr>ec_fnNotifyCbck = fn, ec_cbckArg = arg\<rparr> s1))))"
  using assms(3)
  by (simp add: Notify_registerEventSingle_def found_checks(2) [OF assms(1,2)]
      found_instance [OF assms(1)] Let_def set_callback_eq with_callback_def is_local_def)

lemma unregisterEventSingle_eq:
  assumes "line_found F P ln s" and "event_fine F eventId"
    and "unat (stripped eventId) < length (no_callbacks (nt_obj s (ln_handle ln)))"
  shows "Notify_unregisterEventSingle F P (ln_procId ln) (ln_lineId ln) eventId s =
    (let ob = nt_obj s (ln_handle ln); e = stripped eventId; s1 = nlog N_enterModule s in
     if ec_fnNotifyCbck (no_callbacks ob ! unat e) \<noteq> Fxn_NULL
     then Ok (Notify_S_SUCCESS, nlog N_leaveModule (with_callback ln e \<lparr>ec_fnNotifyCbck = Fxn_NULL, ec_cbckArg = 0\<rparr>
       (nlog_if (\<not> is_local P ln) (Drv_unregisterEvent (no_driverHandle ob) e) s1)))
     else Ok (Notify_E_FAIL, nlog N_leaveModule s1))"
  using assms(3)
  by (simp add: Notify_unregisterEventSingle_def found_checks(2) [OF assms(1,2)]
      found_instance [OF assms(1)] Let_def set_callback_eq with_callback_def is_local_def)

section \<open>Every operation keeps the relation\<close>

text \<open>
  The change of one event's entry: the callback, the lists and what the driver was told are to
  fit the new entry.
\<close>

lemma notify_relI:
  assumes "line_found F P ln s" and "table_ok (nfc_numEvents F) a"
    and "object_rel (nfc_numEvents F) (ln_handle ln) (ln_procId ln) (ln_lineId ln) (ln_driver ln)
           (ln_lists ln) (nt_obj s (ln_handle ln)) a"
    and "lists_rel (nfc_numEvents F) (nfc_listGet F (ln_lists ln)) (nt_list s) (nt_listener s) (na_many a)"
    and "is_local P ln \<Longrightarrow> \<forall>e<nfc_numEvents F. TEST_BIT (nt_localEnableMask s) e = na_mask a e"
    and "\<not> is_local P ln \<Longrightarrow> driver_rel (nfc_numEvents F) (ln_driver ln) (nt_log s) a"
    and "nt_calls s = na_calls a" and "module_gate (nt_log s) = na_gate a"
  shows "notify_rel F P ln s a"
  using assms by (simp add: notify_rel_def Let_def)

lemma notify_relD:
  assumes "notify_rel F P ln s a"
  shows "line_found F P ln s" and "table_ok (nfc_numEvents F) a"
    and "object_rel (nfc_numEvents F) (ln_handle ln) (ln_procId ln) (ln_lineId ln) (ln_driver ln)
           (ln_lists ln) (nt_obj s (ln_handle ln)) a"
    and "lists_rel (nfc_numEvents F) (nfc_listGet F (ln_lists ln)) (nt_list s) (nt_listener s) (na_many a)"
    and "is_local P ln \<Longrightarrow> \<forall>e<nfc_numEvents F. TEST_BIT (nt_localEnableMask s) e = na_mask a e"
    and "\<not> is_local P ln \<Longrightarrow> driver_rel (nfc_numEvents F) (ln_driver ln) (nt_log s) a"
    and "nt_calls s = na_calls a" and "module_gate (nt_log s) = na_gate a"
  using assms by (simp_all add: notify_rel_def Let_def)

lemma callback_upd:
  "f \<noteq> e \<Longrightarrow> callback_of h (a\<lparr>na_many := (na_many a)(e := xs)\<rparr>) f = callback_of h a f"
  "f \<noteq> e \<Longrightarrow> callback_of h (a\<lparr>na_single := (na_single a)(e := c)\<rparr>) f = callback_of h a f"
  "callback_of h (a\<lparr>na_gate := g\<rparr>) f = callback_of h a f"
  by (simp_all add: callback_of_def)

lemma rel_gate [simp]:
  "table_ok N (a\<lparr>na_gate := g\<rparr>) = table_ok N a"
  "object_rel N h p l d L ob (a\<lparr>na_gate := g\<rparr>) = object_rel N h p l d L ob a"
  "driver_rel N d log (a\<lparr>na_gate := g\<rparr>) = driver_rel N d log a"
  by (simp_all add: table_ok_def object_rel_def callback_upd driver_rel_def na_used_def)

lemma notify_rel_silent:
  assumes R: "notify_rel F P ln s a" and "nt_handles t = nt_handles s" and "nt_obj t = nt_obj s"
    and "nt_listener t = nt_listener s" and "li_elem (nt_list t) = li_elem (nt_list s)"
    and "nt_localEnableMask t = nt_localEnableMask s" and "nt_calls t = nt_calls s"
    and "\<And>N d. driver_rel N d (nt_log t) a = driver_rel N d (nt_log s) a"
    and "module_gate (nt_log t) = module_gate (nt_log s) + k"
  shows "notify_rel F P ln t (a\<lparr>na_gate := na_gate a + k\<rparr>)"
proof -
  note R' = notify_relD [OF R]
  have "lists_rel N H (nt_list t) lis many = lists_rel N H (nt_list s) lis many" for N H lis many
    using assms(5) by (simp add: lists_rel_def list_ring_def)
  moreover have "line_found F P ln t" using R'(1) line_found_cong [OF assms(2)] by simp
  ultimately show ?thesis using R' assms(3-) by (intro notify_relI) simp_all
qed

lemma notify_rel_same:
  assumes "notify_rel F P ln s a" and "nt_handles t = nt_handles s" and "nt_obj t = nt_obj s"
    and "nt_listener t = nt_listener s" and "li_elem (nt_list t) = li_elem (nt_list s)"
    and "nt_localEnableMask t = nt_localEnableMask s" and "nt_calls t = nt_calls s"
    and "\<And>N d. driver_rel N d (nt_log t) a = driver_rel N d (nt_log s) a"
    and "module_gate (nt_log t) = module_gate (nt_log s)"
  shows "notify_rel F P ln t a"
  using notify_rel_silent [OF assms(1-8), of 0] assms(9) by simp

lemma driver_rel_gate [simp]:
  "driver_rel N d (N_enterModule # log) a = driver_rel N d log a"
  "driver_rel N d (N_leaveModule # log) a = driver_rel N d log a"
  "driver_rel N d (N_free x # log) a = driver_rel N d log a"
  "driver_rel N d (Drv_sendEvent d' e p w # log) a = driver_rel N d log a"
  "driver_rel N d (Drv_disableEvent d' e # log) a = driver_rel N d log a"
  "driver_rel N d (Drv_enableEvent d' e # log) a = driver_rel N d log a"
  by (simp_all add: driver_rel_def)

lemma registerSingle_rel:
  assumes R: "notify_rel F P ln s a" and e: "event_fine F eventId" "e = stripped eventId" and c: "is_user c"
  shows "\<exists>t. Notify_registerEventSingle F P (ln_procId ln) (ln_lineId ln) eventId
        (ec_fnNotifyCbck c) (ec_cbckArg c) s =
      Ok (if na_used a e then Notify_E_ALREADYEXISTS else Notify_S_SUCCESS, t) \<and>
    notify_rel F P ln t (if na_used a e then a else a\<lparr>na_single := (na_single a)(e := Some c)\<rparr>)"
proof -
  note R' = notify_relD [OF R]
  have lt: "e < nfc_numEvents F" using e by (simp add: event_fine_def)
  note at = object_rel_at [OF R'(3) lt]
  note eq = registerEventSingle_eq [OF R'(1) e(1) at(2) [unfolded e(2)],
      of "ec_fnNotifyCbck c" "ec_cbckArg c"]
  have cb: "no_callbacks (nt_obj s (ln_handle ln)) ! unat e = callback_of (ln_handle ln) a e"
    using at by simp
  have used: "ec_fnNotifyCbck (callback_of (ln_handle ln) a e) = Fxn_NULL \<longleftrightarrow> \<not> na_used a e"
    using callback_null_iff(1) [OF R'(2) lt] .
  show ?thesis
  proof (cases "na_used a e")
    case True
    have "notify_rel F P ln (nlog N_leaveModule (nlog N_enterModule s)) a"
      by (rule notify_rel_same [OF R]) simp_all
    with True eq cb used e(2) show ?thesis by (simp add: Let_def)
  next
    case False
    let ?a = "a\<lparr>na_single := (na_single a)(e := Some c)\<rparr>"
    let ?t = "nlog N_leaveModule (nlog_if (\<not> is_local P ln) (Drv_registerEvent (ln_driver ln) e)
       (with_callback ln e c (nlog N_enterModule s)))"
    have m: "na_many a e = []" using False by (simp add: na_used_def)
    have "notify_rel F P ln ?t ?a"
    proof (rule notify_relI)
      show "line_found F P ln ?t" using R'(1) line_found_cong [of ?t s] by simp
      show "table_ok (nfc_numEvents F) ?a" using R'(2) m c by (auto simp: table_ok_def)
      show "object_rel (nfc_numEvents F) (ln_handle ln) (ln_procId ln) (ln_lineId ln) (ln_driver ln)
          (ln_lists ln) (nt_obj ?t (ln_handle ln)) ?a"
        using object_rel_set [OF R'(3) lt, of ?a c] m callback_upd(2)
        by (simp add: with_callback_def callback_of_def)
      show "driver_rel (nfc_numEvents F) (ln_driver ln) (nt_log ?t) ?a" if "\<not> is_local P ln"
        using R'(6) that by (auto simp: driver_rel_def na_used_def)
    qed (use R' in simp_all)
    moreover have "no_driverHandle (nt_obj s (ln_handle ln)) = ln_driver ln"
      using R'(3) by (simp add: object_rel_def)
    ultimately show ?thesis using False eq cb used e(2) by (simp add: Let_def)
  qed
qed

lemma unregisterSingle_rel:
  assumes R: "notify_rel F P ln s a" and e: "event_fine F eventId" "e = stripped eventId"
    and m: "na_many a e = []"
  shows "\<exists>t. Notify_unregisterEventSingle F P (ln_procId ln) (ln_lineId ln) eventId s =
      Ok (if na_used a e then Notify_S_SUCCESS else Notify_E_FAIL, t) \<and>
    notify_rel F P ln t (a\<lparr>na_single := (na_single a)(e := None)\<rparr>)"
proof -
  note R' = notify_relD [OF R]
  have lt: "e < nfc_numEvents F" using e by (simp add: event_fine_def)
  note at = object_rel_at [OF R'(3) lt]
  note eq = unregisterEventSingle_eq [OF R'(1) e(1) at(2) [unfolded e(2)]]
  have cb: "no_callbacks (nt_obj s (ln_handle ln)) ! unat e = callback_of (ln_handle ln) a e"
    using at by simp
  have used: "ec_fnNotifyCbck (callback_of (ln_handle ln) a e) = Fxn_NULL \<longleftrightarrow> \<not> na_used a e"
    using callback_null_iff(1) [OF R'(2) lt] .
  show ?thesis
  proof (cases "na_used a e")
    case False
    then have "a\<lparr>na_single := (na_single a)(e := None)\<rparr> = a" by (auto simp: na_used_def fun_upd_idem)
    moreover have "notify_rel F P ln (nlog N_leaveModule (nlog N_enterModule s)) a"
      by (rule notify_rel_same [OF R]) simp_all
    ultimately show ?thesis using False eq cb used e(2) by (simp add: Let_def)
  next
    case True
    let ?a = "a\<lparr>na_single := (na_single a)(e := None)\<rparr>"
    let ?c = "\<lparr>ec_fnNotifyCbck = Fxn_NULL, ec_cbckArg = 0\<rparr>"
    let ?t = "nlog N_leaveModule (with_callback ln e ?c
       (nlog_if (\<not> is_local P ln) (Drv_unregisterEvent (ln_driver ln) e) (nlog N_enterModule s)))"
    have "notify_rel F P ln ?t ?a"
    proof (rule notify_relI)
      show "line_found F P ln ?t" using R'(1) line_found_cong [of ?t s] by simp
      show "table_ok (nfc_numEvents F) ?a" using R'(2) by (auto simp: table_ok_def)
      show "object_rel (nfc_numEvents F) (ln_handle ln) (ln_procId ln) (ln_lineId ln) (ln_driver ln)
          (ln_lists ln) (nt_obj ?t (ln_handle ln)) ?a"
        using object_rel_set [OF R'(3) lt, of ?a ?c] m callback_upd(2)
        by (simp add: with_callback_def callback_of_def)
      show "driver_rel (nfc_numEvents F) (ln_driver ln) (nt_log ?t) ?a" if "\<not> is_local P ln"
        using R'(6) that m by (auto simp: driver_rel_def na_used_def)
    qed (use R' in simp_all)
    moreover have "no_driverHandle (nt_obj s (ln_handle ln)) = ln_driver ln"
      using R'(3) by (simp add: object_rel_def)
    ultimately show ?thesis using True eq cb used e(2) by (simp add: Let_def)
  qed
qed

text \<open>The memory of a new listener is none that the line uses.\<close>

definition listener_fresh :: "notify_config \<Rightarrow> notify_line \<Rightarrow> notify_table \<Rightarrow> ptr \<Rightarrow> bool" where
  "listener_fresh F ln a x \<longleftrightarrow> x \<noteq> NULL \<and>
     (\<forall>f<nfc_numEvents F. x \<noteq> nfc_listGet F (ln_lists ln) f \<and> x \<notin> fst ` set (na_many a f))"

lemma register_rel:
  assumes R: "notify_rel F P ln s a" and e: "event_fine F eventId" "e = stripped eventId"
    and c: "is_user c" and single: "na_single a e = None" and x: "listener_fresh F ln a x"
  shows "\<exists>t. Notify_registerEvent F P x (ln_procId ln) (ln_lineId ln) eventId
        (ec_fnNotifyCbck c) (ec_cbckArg c) s = Ok (Notify_S_SUCCESS, t) \<and>
    notify_rel F P ln t (a\<lparr>na_many := (na_many a)(e := na_many a e @ [(x, c)])\<rparr>)"
proof -
  note R' = notify_relD [OF R]
  let ?h = "ln_handle ln" and ?H = "nfc_listGet F (ln_lists ln)"
  let ?a = "a\<lparr>na_many := (na_many a)(e := na_many a e @ [(x, c)])\<rparr>"
  let ?cb = "\<lparr>ec_fnNotifyCbck = Fxn_execMany, ec_cbckArg = ?h\<rparr>"
  have lt: "e < nfc_numEvents F" using e by (simp add: event_fine_def)
  note at = object_rel_at [OF R'(3) lt]
  have fields: "no_eventList (nt_obj s ?h) = ln_lists ln" "no_driverHandle (nt_obj s ?h) = ln_driver ln"
    using R'(3) by (simp_all add: object_rel_def)
  note ring = lists_rel_ring [OF R'(4) lt]
  have x0: "x \<noteq> NULL" and fresh: "x \<notin> cell ?H (na_many a) f" if "f < nfc_numEvents F" for f
    using x that by (auto simp: listener_fresh_def cell_def)
  obtain l' where l': "List_put (?H e) x (nt_list s) = Ok ((), l')"
    "lists_rel (nfc_numEvents F) ?H l' ((nt_listener s)(x := c)) ((na_many a)(e := na_many a e @ [(x, c)]))"
    using lists_rel_put [OF R'(4) lt, of x c] x0 [OF lt] fresh by blast
  let ?s1 = "nlog N_enterModule s"
  let ?s3 = "?s1\<lparr>nt_listener := (nt_listener s)(x := c), nt_list := l'\<rparr>"
  have empty: "List_empty (?H e) (nt_list s) = Ok (na_many a e = [])"
    using List_empty_ring [OF ring(1)] by simp
  have found3: "line_found F P ln ?s3" using R'(1) line_found_cong [of ?s3 s] by simp
  have cb: "no_callbacks (nt_obj s ?h) ! unat e = callback_of ?h a e" using at by simp
  have nul: "ec_fnNotifyCbck (callback_of ?h a e) = Fxn_NULL" if "na_many a e = []"
    using callback_null_iff(1) [OF R'(2) lt, of ?h] that single by (simp add: na_used_def)
  have tab: "table_ok (nfc_numEvents F) ?a" using R'(2) single c by (auto simp: table_ok_def)
  have obj: "object_rel (nfc_numEvents F) ?h (ln_procId ln) (ln_lineId ln) (ln_driver ln) (ln_lists ln)
      ((nt_obj s ?h)\<lparr>no_callbacks := (no_callbacks (nt_obj s ?h))[unat e := ?cb]\<rparr>) ?a"
    using object_rel_set [OF R'(3) lt, of ?a ?cb] callback_upd(1) by (simp add: callback_of_def)
  show ?thesis
  proof (cases "na_many a e = []")
    case True
    let ?t4 = "nlog N_leaveModule (nlog_if (\<not> is_local P ln) (Drv_registerEvent (ln_driver ln) e)
        (with_callback ln e ?cb (nlog N_enterModule ?s3)))"
    have "Notify_registerEventSingle F P (ln_procId ln) (ln_lineId ln) eventId Fxn_execMany ?h ?s3 =
        Ok (Notify_S_SUCCESS, ?t4)"
      using registerEventSingle_eq [OF found3 e(1), of Fxn_execMany ?h] at(2) cb nul [OF True] e(2) fields
      by (simp add: Let_def)
    moreover have "notify_rel F P ln (nlog N_leaveModule ?t4) ?a"
    proof (rule notify_relI)
      show "line_found F P ln (nlog N_leaveModule ?t4)"
        using R'(1) line_found_cong [of "nlog N_leaveModule ?t4" s] by simp
      show "driver_rel (nfc_numEvents F) (ln_driver ln) (nt_log (nlog N_leaveModule ?t4)) ?a"
        if "\<not> is_local P ln"
        using R'(6) that True single by (auto simp: driver_rel_def na_used_def)
    qed (use R' tab obj l'(2) in \<open>simp_all add: with_callback_def\<close>)
    ultimately show ?thesis
      using True empty l'(1) x0 [OF lt] ring(3) fields e(2)
      by (simp add: Notify_registerEvent_def found_checks(2) [OF R'(1) e(1)] found_instance [OF R'(1)]
          Let_def on_lists_def)
  next
    case False
    have same: "(nt_obj s ?h)\<lparr>no_callbacks := (no_callbacks (nt_obj s ?h))[unat e := ?cb]\<rparr> = nt_obj s ?h"
      using cb False at(2) by (simp add: callback_of_def list_update_same_conv)
    have "notify_rel F P ln (nlog N_leaveModule ?s3) ?a"
    proof (rule notify_relI)
      show "line_found F P ln (nlog N_leaveModule ?s3)"
        using R'(1) line_found_cong [of "nlog N_leaveModule ?s3" s] by simp
      show "driver_rel (nfc_numEvents F) (ln_driver ln) (nt_log (nlog N_leaveModule ?s3)) ?a"
        if "\<not> is_local P ln"
        using R'(6) that False by (auto simp: driver_rel_def na_used_def)
    qed (use R' tab obj l'(2) same in simp_all)
    then show ?thesis
      using False empty l'(1) x0 [OF lt] ring(3) fields e(2)
      by (simp add: Notify_registerEvent_def found_checks(2) [OF R'(1) e(1)] found_instance [OF R'(1)]
          Let_def on_lists_def)
  qed
qed

text \<open>The first listener that matches goes; without one nothing changes, but for the gate.\<close>

lemma unregister_none_rel:
  assumes R: "notify_rel F P ln s a" and e: "event_fine F eventId" "e = stripped eventId"
    and none: "c \<notin> snd ` set (na_many a e)" and n: "length (na_many a e) < n"
  shows "\<exists>t. Notify_unregisterEvent n F P (ln_procId ln) (ln_lineId ln) eventId
        (ec_fnNotifyCbck c) (ec_cbckArg c) s = Ok (Notify_E_NOTFOUND, t) \<and>
    notify_rel F P ln t (if na_many a e = [] then a\<lparr>na_gate := na_gate a + 1\<rparr> else a)"
proof -
  note R' = notify_relD [OF R]
  let ?h = "ln_handle ln" and ?H = "nfc_listGet F (ln_lists ln)"
  let ?s1 = "nlog N_enterModule s"
  have lt: "e < nfc_numEvents F" using e by (simp add: event_fine_def)
  note ring = lists_rel_ring [OF R'(4) lt]
  have fields: "no_eventList (nt_obj s ?h) = ln_lists ln" using R'(3) by (simp add: object_rel_def)
  have empty: "List_empty (?H e) (nt_list s) = Ok (na_many a e = [])"
    using List_empty_ring [OF ring(1)] by simp
  show ?thesis
  proof (cases "na_many a e = []")
    case True
    have "notify_rel F P ln ?s1 (a\<lparr>na_gate := na_gate a + 1\<rparr>)"
      by (rule notify_rel_silent [OF R]) simp_all
    with True empty ring(3) fields e(2) show ?thesis
      by (simp add: Notify_unregisterEvent_def found_checks(2) [OF R'(1) e(1)] found_instance [OF R'(1)]
          Let_def)
  next
    case False
    have "notify_rel F P ln (nlog N_leaveModule ?s1) a"
      by (rule notify_rel_same [OF R]) simp_all
    moreover have "find_listener n (?H e) (ec_fnNotifyCbck c) (ec_cbckArg c) ?s1
        (list_pos (?H e) (right_of (?H e) (map fst (na_many a e)))) 0 =
        Ok (NULL, 0 + of_nat (length (na_many a e)))"
      by (rule find_listener_none [where ys = "[]"]) (use ring none n in simp_all)
    ultimately show ?thesis
      using False empty ring_first [OF ring(1)] ring(3) fields e(2)
      by (simp add: Notify_unregisterEvent_def found_checks(2) [OF R'(1) e(1)] found_instance [OF R'(1)]
          Let_def)
  qed
qed

text \<open>The way out for an event without listeners leaves the module's gate entered.\<close>

lemma unregister_empty_gate:
  assumes "notify_rel F P ln s a" and e: "event_fine F eventId" and m: "na_many a (stripped eventId) = []"
  shows "\<exists>t. Notify_unregisterEvent n F P (ln_procId ln) (ln_lineId ln) eventId fn arg s =
      Ok (Notify_E_NOTFOUND, t) \<and> module_gate (nt_log t) = module_gate (nt_log s) + 1"
proof -
  note R' = notify_relD [OF assms(1)]
  have lt: "stripped eventId < nfc_numEvents F" using e by (simp add: event_fine_def)
  note ring = lists_rel_ring [OF R'(4) lt]
  have "List_empty (nfc_listGet F (ln_lists ln) (stripped eventId)) (nt_list s) = Ok True"
    using List_empty_ring [OF ring(1)] m by simp
  moreover have "no_eventList (nt_obj s (ln_handle ln)) = ln_lists ln" using R'(3) by (simp add: object_rel_def)
  ultimately show ?thesis
    by (simp add: Notify_unregisterEvent_def found_checks(2) [OF R'(1) e] found_instance [OF R'(1)] Let_def)
qed

lemma unregister_found_rel:
  assumes R: "notify_rel F P ln s a" and e: "event_fine F eventId" "e = stripped eventId"
    and split: "na_many a e = us @ (x, c) # vs" and first: "c \<notin> snd ` set us"
    and n: "length (na_many a e) < n"
  shows "\<exists>t. Notify_unregisterEvent n F P (ln_procId ln) (ln_lineId ln) eventId
        (ec_fnNotifyCbck c) (ec_cbckArg c) s = Ok (Notify_S_SUCCESS, t) \<and>
    notify_rel F P ln t (a\<lparr>na_many := (na_many a)(e := us @ vs)\<rparr>)"
proof -
  note R' = notify_relD [OF R]
  let ?h = "ln_handle ln" and ?H = "nfc_listGet F (ln_lists ln)"
  let ?s1 = "nlog N_enterModule s" and ?a = "a\<lparr>na_many := (na_many a)(e := us @ vs)\<rparr>"
  have lt: "e < nfc_numEvents F" using e by (simp add: event_fine_def)
  note ring = lists_rel_ring [OF R'(4) lt]
  note at = object_rel_at [OF R'(3) lt]
  have fields: "no_eventList (nt_obj s ?h) = ln_lists ln" "no_driverHandle (nt_obj s ?h) = ln_driver ln"
    using R'(3) by (simp_all add: object_rel_def)
  have empty: "List_empty (?H e) (nt_list s) = Ok False"
    using List_empty_ring [OF ring(1)] split by simp
  have ring': "list_ring (?H e) (nt_list s) (map fst us @ x # map fst vs)" using ring(1) split by simp
  have found: "find_listener n (?H e) (ec_fnNotifyCbck c) (ec_cbckArg c) ?s1
      (list_pos (?H e) (right_of (?H e) (map fst us @ x # map fst vs))) 0 = Ok (x, 0 + of_nat (length us) + 1)"
    by (rule find_listener_found [where ys = "[]"])
      (use ring' ring(2) split first n in auto)
  have next_x: "List_next (?H e) x (nt_list s) = Ok (list_pos (?H e) (right_of (?H e) (map fst vs)))"
    and x: "x \<noteq> ?H e" "x \<noteq> NULL" using ring_pos_next [OF ring'] by simp_all
  have last: "list_pos (?H e) (right_of (?H e) (map fst vs)) = NULL \<longleftrightarrow> vs = []"
    using list_ring_parts(2,3) [OF ring'] by (cases vs) auto
  have len: "length us + 1 < 2 ^ 32" using list_ring_length [OF ring'] by simp
  have one: "(of_nat (length us) + 1 = (1 :: u32)) \<longleftrightarrow> us = []"
  proof
    assume "of_nat (length us) + 1 = (1 :: u32)"
    then have "of_nat (length us) = (0 :: u32)" by simp
    then have "unat (of_nat (length us) :: u32) = 0" by simp
    then show "us = []" using unat_of_nat_small [of "length us", where 'a = 32] len by simp
  qed simp
  have cb: "no_callbacks (nt_obj s ?h) ! unat e = callback_of ?h a e" using at by simp
  have many: "callback_of ?h a e = \<lparr>ec_fnNotifyCbck = Fxn_execMany, ec_cbckArg = ?h\<rparr>"
    using split by (simp add: callback_of_def)
  have single: "na_single a e = None" using R'(2) lt split by (auto simp: table_ok_def)
  have tab: "table_ok (nfc_numEvents F) ?a" using R'(2) single split by (auto simp: table_ok_def)
  obtain l' where l': "List_remove x (nt_list s) = Ok l'"
    "lists_rel (nfc_numEvents F) ?H l' (nt_listener s) ((na_many a)(e := us @ vs))"
    using lists_rel_remove [OF R'(4) lt split] by blast
  obtain l2 where l2: "List_remove x (hwi Hwi_disable (nt_list s)) = Ok l2"
    "lists_rel (nfc_numEvents F) ?H l2 (nt_listener s) ((na_many a)(e := us @ vs))"
    using lists_rel_remove [of "nfc_numEvents F" ?H "hwi Hwi_disable (nt_list s)" "nt_listener s"
        "na_many a" e us x c vs] lt split R'(4) by auto
  note run = Notify_unregisterEvent_def found_checks(2) [OF R'(1) e(1)] found_instance [OF R'(1)]
      Let_def on_lists_def
  show ?thesis
  proof (cases "us = [] \<and> vs = []")
    case True
    let ?nul = "\<lparr>ec_fnNotifyCbck = Fxn_NULL, ec_cbckArg = 0\<rparr>"
    let ?t2 = "nlog N_leaveModule (with_callback ln e ?nul
       (nlog_if (\<not> is_local P ln) (Drv_unregisterEvent (ln_driver ln) e) (nlog N_enterModule ?s1)))"
    let ?t = "nlog N_leaveModule (nlog (N_free x) (?t2\<lparr>nt_list := l'\<rparr>))"
    have "line_found F P ln ?s1" using R'(1) line_found_cong [of ?s1 s] by simp
    then have un: "Notify_unregisterEventSingle F P (ln_procId ln) (ln_lineId ln) eventId ?s1 =
        Ok (Notify_S_SUCCESS, ?t2)"
      using unregisterEventSingle_eq [of F P ln ?s1, OF _ e(1)] at(2) cb many e(2) fields
      by (simp add: Let_def)
    have "notify_rel F P ln ?t ?a"
    proof (rule notify_relI)
      show "line_found F P ln ?t" using R'(1) line_found_cong [of ?t s] by simp
      show "object_rel (nfc_numEvents F) ?h (ln_procId ln) (ln_lineId ln) (ln_driver ln)
          (ln_lists ln) (nt_obj ?t ?h) ?a"
        using object_rel_set [OF R'(3) lt, of ?a ?nul] True single callback_upd(1)
        by (simp add: with_callback_def callback_of_def)
      show "driver_rel (nfc_numEvents F) (ln_driver ln) (nt_log ?t) ?a" if "\<not> is_local P ln"
        using R'(6) that True single by (auto simp: driver_rel_def na_used_def)
    qed (use R' tab l'(2) in simp_all)
    with True empty ring_first [OF ring'] found next_x last x l'(1) un ring(3) fields e(2) split
    show ?thesis by (simp add: run)
  next
    case False
    then have el: "\<not> (of_nat (length us) = (0 :: u32) \<and>
        list_pos (?H e) (right_of (?H e) (map fst vs)) = NULL)" using one last by simp
    let ?t = "nlog N_leaveModule (nlog (N_free x) (nhwi Hwi_restore
        ((nhwi Hwi_disable ?s1)\<lparr>nt_list := l2\<rparr>)))"
    have same: "(nt_obj s ?h)\<lparr>no_callbacks := (no_callbacks (nt_obj s ?h))[unat e := callback_of ?h a e]\<rparr>
        = nt_obj s ?h"
      using cb at(2) by (simp add: list_update_same_conv)
    have "notify_rel F P ln ?t ?a"
    proof (rule notify_relI)
      show "line_found F P ln ?t" using R'(1) line_found_cong [of ?t s] by simp
      show "object_rel (nfc_numEvents F) ?h (ln_procId ln) (ln_lineId ln) (ln_driver ln)
          (ln_lists ln) (nt_obj ?t ?h) ?a"
        using object_rel_set [OF R'(3) lt, of ?a "callback_of ?h a e"] False many same callback_upd(1)
        by (simp add: callback_of_def)
      show "driver_rel (nfc_numEvents F) (ln_driver ln) (nt_log ?t) ?a" if "\<not> is_local P ln"
        using R'(6) that False split by (auto simp: driver_rel_def na_used_def)
    qed (use R' tab l2(2) in simp_all)
    with el empty ring_first [OF ring'] found next_x x l2(1) ring(3) fields e(2) split
    show ?thesis by (simp add: run del: de_Morgan_conj)
  qed
qed

text \<open>The callbacks that an event reaches, in the order they are called.\<close>

definition reached :: "notify_table \<Rightarrow> u32 \<Rightarrow> EventCallback list" where
  "reached a e = (if na_many a e \<noteq> [] then map snd (na_many a e)
     else case na_single a e of None \<Rightarrow> [] | Some c \<Rightarrow> [c])"

definition delivered :: "notify_line \<Rightarrow> u32 \<Rightarrow> u32 \<Rightarrow> notify_table \<Rightarrow> notify_table" where
  "delivered ln e payload a = a\<lparr>na_calls := na_calls a @
     map (the_call (ln_procId ln) (ln_lineId ln) e payload) (reached a e)\<rparr>"

lemma rel_calls [simp]:
  "table_ok N (a\<lparr>na_calls := cs\<rparr>) = table_ok N a"
  "object_rel N h p l d L ob (a\<lparr>na_calls := cs\<rparr>) = object_rel N h p l d L ob a"
  "driver_rel N d log (a\<lparr>na_calls := cs\<rparr>) = driver_rel N d log a"
  by (simp_all add: table_ok_def object_rel_def callback_of_def driver_rel_def na_used_def)

lemma notify_rel_calls:
  assumes "notify_rel F P ln s a"
  shows "notify_rel F P ln (s\<lparr>nt_calls := nt_calls s @ cs\<rparr>) (a\<lparr>na_calls := na_calls a @ cs\<rparr>)"
  using notify_relD [OF assms] line_found_cong [of "s\<lparr>nt_calls := nt_calls s @ cs\<rparr>" s]
  by (intro notify_relI) simp_all

lemma exec_rel:
  assumes R: "notify_rel F P ln s a" and e: "e < nfc_numEvents F"
    and used: "na_used a e" and n: "length (na_many a e) < n"
  shows "\<exists>t. Notify_exec n F (ln_handle ln) e payload s = Ok t \<and>
    notify_rel F P ln t (delivered ln e payload a)"
proof -
  note R' = notify_relD [OF R]
  let ?h = "ln_handle ln" and ?H = "nfc_listGet F (ln_lists ln)"
  let ?call = "the_call (ln_procId ln) (ln_lineId ln) e payload"
  note at = object_rel_at [OF R'(3) e]
  note ring = lists_rel_ring [OF R'(4) e]
  have fields: "no_eventList (nt_obj s ?h) = ln_lists ln" "no_remoteProcId (nt_obj s ?h) = ln_procId ln"
    "no_lineId (nt_obj s ?h) = ln_lineId ln" using R'(3) by (simp_all add: object_rel_def)
  show ?thesis
  proof (cases "na_many a e = []")
    case True
    then obtain c where c: "na_single a e = Some c" using used by (auto simp: na_used_def)
    then have "callback_of ?h a e = c" "is_user c"
      using True R'(2) e by (auto simp: callback_of_def table_ok_def)
    then have "Notify_exec n F ?h e payload s = Ok (s\<lparr>nt_calls := nt_calls s @ [?call c]\<rparr>)"
      using at fields call_user_eq [of c]
      by (auto simp: Notify_exec_def Let_def is_user_def)
    with notify_rel_calls [OF R, of "[?call c]"] True c show ?thesis
      by (auto simp: delivered_def reached_def)
  next
    case False
    have "\<forall>p\<in>set (na_many a e). nt_listener s (fst p) = snd p \<and> is_user (snd p)"
      using ring(2) R'(2) e by (simp add: table_ok_def)
    from execMany_loop_calls [OF _ this n, of "?H e" "[]" "ln_procId ln" "ln_lineId ln" e payload] ring(1)
    have "Notify_exec n F ?h e payload s =
        Ok (s\<lparr>nt_calls := nt_calls s @ map (?call \<circ> snd) (na_many a e)\<rparr>)"
      using at fields ring_first [OF ring(1)] ring(3) False
      by (simp add: Notify_exec_def Notify_execMany_def Let_def callback_of_def)
    with notify_rel_calls [OF R, of "map (?call \<circ> snd) (na_many a e)"] False show ?thesis
      by (auto simp: delivered_def reached_def)
  qed
qed

text \<open>The status of an event sent on the loopback line.\<close>

definition local_status :: "notify_table \<Rightarrow> u32 \<Rightarrow> int" where
  "local_status a e =
     (if \<not> na_used a e then Notify_E_EVTNOTREGISTERED
      else if na_nesting a \<noteq> 0 then Notify_E_FAIL
      else if \<not> na_mask a e then Notify_E_EVTDISABLED
      else Notify_S_SUCCESS)"

lemma sendEvent_local_rel:
  assumes R: "notify_rel F P ln s a" and e: "event_fine F eventId" "e = stripped eventId"
    and loc: "is_local P ln" and n: "length (na_many a e) < n"
  shows "\<exists>t. Notify_sendEvent n F P (ln_procId ln) (ln_lineId ln) eventId payload waitClear s =
      Ok (local_status a e, t) \<and>
    notify_rel F P ln t (if local_status a e = Notify_S_SUCCESS then delivered ln e payload a else a)"
proof -
  note R' = notify_relD [OF R]
  let ?h = "ln_handle ln" and ?s1 = "nhwi Hwi_disable s"
  have lt: "e < nfc_numEvents F" using e by (simp add: event_fine_def)
  note at = object_rel_at [OF R'(3) lt]
  have nest: "no_nesting (nt_obj s ?h) = na_nesting a" using R'(3) by (simp add: object_rel_def)
  have mask: "TEST_BIT (nt_localEnableMask s) e = na_mask a e" using R'(5) [OF loc] lt by simp
  have nul: "ec_fnNotifyCbck (callback_of ?h a e) = Fxn_NULL \<longleftrightarrow> \<not> na_used a e"
    using callback_null_iff(1) [OF R'(2) lt] .
  have R1: "notify_rel F P ln ?s1 a" by (rule notify_rel_same [OF R]) simp_all
  have self: "MultiProc_self P = ln_procId ln" using loc by (simp add: is_local_def)
  note run = Notify_sendEvent_def found_checks(2) [OF R'(1) e(1)] found_instance [OF R'(1)] Let_def
  show ?thesis
  proof (cases "local_status a e = Notify_S_SUCCESS")
    case True
    then have ok: "na_used a e" "na_nesting a = 0" "na_mask a e"
      by (auto simp: local_status_def split: if_splits)
    obtain t where t: "Notify_exec n F ?h e payload ?s1 = Ok t" "notify_rel F P ln t (delivered ln e payload a)"
      using exec_rel [OF R1 lt ok(1) n] by blast
    moreover have "notify_rel F P ln (nhwi Hwi_restore t) (delivered ln e payload a)"
      by (rule notify_rel_same [OF t(2)]) simp_all
    ultimately show ?thesis using True ok at nest mask nul self e(2)
      by (simp add: run)
  next
    case False
    have "notify_rel F P ln (nhwi Hwi_restore ?s1) a"
      by (rule notify_rel_same [OF R1]) simp_all
    with False at nest mask nul self e(2) show ?thesis
      by (auto simp: run local_status_def split: if_splits)
  qed
qed

lemma sendEvent_remote_rel:
  assumes R: "notify_rel F P ln s a" and e: "event_fine F eventId" and rem: "\<not> is_local P ln"
  shows "\<exists>t. Notify_sendEvent n F P (ln_procId ln) (ln_lineId ln) eventId payload waitClear s =
      Ok (nfc_driver_send F (ln_driver ln) (stripped eventId) payload waitClear, t) \<and>
    notify_rel F P ln t a"
proof -
  note R' = notify_relD [OF R]
  have "no_driverHandle (nt_obj s (ln_handle ln)) = ln_driver ln" using R'(3) by (simp add: object_rel_def)
  moreover have "notify_rel F P ln (nlog (Drv_sendEvent (ln_driver ln) (stripped eventId) payload waitClear) s) a"
    by (rule notify_rel_same [OF R]) simp_all
  ultimately show ?thesis using rem
    by (simp add: Notify_sendEvent_def found_checks(2) [OF R'(1) e] found_instance [OF R'(1)] Let_def
        is_local_def)
qed

text \<open>The whole line, one nesting level at a time; single events.\<close>

lemma rel_nesting:
  "table_ok N (a\<lparr>na_nesting := k\<rparr>) = table_ok N a"
  "object_rel N h p l d L ob a \<Longrightarrow> object_rel N h p l d L (ob\<lparr>no_nesting := k\<rparr>) (a\<lparr>na_nesting := k\<rparr>)"
  by (simp_all add: table_ok_def object_rel_def callback_of_def)

lemma disable_rel:
  assumes R: "notify_rel F P ln s a" and small: "na_nesting a + 1 \<noteq> 0"
  shows "\<exists>t. Notify_disable F P (ln_procId ln) (ln_lineId ln) s = Ok (na_nesting a + 1, t) \<and>
    notify_rel F P ln t (a\<lparr>na_nesting := na_nesting a + 1\<rparr>)"
proof -
  note R' = notify_relD [OF R]
  let ?h = "ln_handle ln"
  have fields: "no_nesting (nt_obj s ?h) = na_nesting a" "no_driverHandle (nt_obj s ?h) = ln_driver ln"
    using R'(3) by (simp_all add: object_rel_def)
  let ?k = "na_nesting a + 1" and ?ob = "nt_obj s ?h"
  let ?t = "nlog N_leaveModule (nlog_if (?k = 1 \<and> \<not> is_local P ln) (Drv_disable (ln_driver ln))
     (put_obj ?h (?ob\<lparr>no_nesting := ?k\<rparr>) (nlog N_enterModule s)))"
  have "notify_rel F P ln ?t (a\<lparr>na_nesting := ?k\<rparr>)"
  proof (rule notify_relI)
    show "line_found F P ln ?t" using R'(1) line_found_cong [of ?t s] by simp
    show "driver_rel (nfc_numEvents F) (ln_driver ln) (nt_log ?t) (a\<lparr>na_nesting := ?k\<rparr>)" if "\<not> is_local P ln"
      using R'(6) that small by (auto simp: driver_rel_def na_used_def)
  qed (use R' rel_nesting in simp_all)
  then show ?thesis using fields
    by (simp add: Notify_disable_def found_checks [OF R'(1)] Let_def is_local_def)
qed

lemma restore_rel:
  assumes R: "notify_rel F P ln s a" and nested: "na_nesting a \<noteq> 0"
  shows "\<exists>t. Notify_restore F P (ln_procId ln) (ln_lineId ln) (na_nesting a) s = Ok t \<and>
    notify_rel F P ln t (a\<lparr>na_nesting := na_nesting a - 1\<rparr>)"
proof -
  note R' = notify_relD [OF R]
  let ?h = "ln_handle ln"
  have fields: "no_nesting (nt_obj s ?h) = na_nesting a" "no_driverHandle (nt_obj s ?h) = ln_driver ln"
    using R'(3) by (simp_all add: object_rel_def)
  let ?k = "na_nesting a - 1" and ?ob = "nt_obj s ?h"
  let ?t = "nlog N_leaveModule (nlog_if (?k = 0 \<and> \<not> is_local P ln) (Drv_enable (ln_driver ln))
     (put_obj ?h (?ob\<lparr>no_nesting := ?k\<rparr>) (nlog N_enterModule s)))"
  have "notify_rel F P ln ?t (a\<lparr>na_nesting := ?k\<rparr>)"
  proof (rule notify_relI)
    show "line_found F P ln ?t" using R'(1) line_found_cong [of ?t s] by simp
    show "driver_rel (nfc_numEvents F) (ln_driver ln) (nt_log ?t) (a\<lparr>na_nesting := ?k\<rparr>)" if "\<not> is_local P ln"
      using R'(6) that nested by (auto simp: driver_rel_def na_used_def)
  qed (use R' rel_nesting in simp_all)
  then show ?thesis using fields
    by (simp add: Notify_restore_def found_checks [OF R'(1)] Let_def is_local_def)
qed

lemma rel_mask [simp]:
  "table_ok N (a\<lparr>na_mask := m\<rparr>) = table_ok N a"
  "object_rel N h p l d L ob (a\<lparr>na_mask := m\<rparr>) = object_rel N h p l d L ob a"
  "driver_rel N d log (a\<lparr>na_mask := m\<rparr>) = driver_rel N d log a"
  by (simp_all add: table_ok_def object_rel_def callback_of_def driver_rel_def na_used_def)

definition masked :: "MultiProc_Module \<Rightarrow> notify_line \<Rightarrow> u32 \<Rightarrow> bool \<Rightarrow> notify_table \<Rightarrow> notify_table" where
  "masked P ln e b a = (if is_local P ln then a\<lparr>na_mask := (na_mask a)(e := b)\<rparr> else a)"

lemma mask_rel:
  assumes R: "notify_rel F P ln s a" and e: "event_fine F eventId" "e = stripped eventId"
  shows "\<exists>t. Notify_disableEvent F P (ln_procId ln) (ln_lineId ln) eventId s = Ok t \<and>
      notify_rel F P ln t (masked P ln e False a)"
    and "\<exists>t. Notify_enableEvent F P (ln_procId ln) (ln_lineId ln) eventId s = Ok t \<and>
      notify_rel F P ln t (masked P ln e True a)"
proof -
  note R' = notify_relD [OF R]
  have "e < nfc_numEvents F" "nfc_numEvents F \<le> 32" using e R'(1) by (auto simp: event_fine_def line_found_def)
  then have small: "unat f < 32" if "f = e \<or> f < nfc_numEvents F" for f
    using that by (auto simp: word_less_nat_alt word_le_nat_alt)
  note run = found_checks(2) [OF R'(1) e(1)] found_instance [OF R'(1)] Let_def is_local_def masked_def
  let ?m = "\<lambda>g. (nhwi Hwi_disable s)\<lparr>nt_localEnableMask := g (nt_localEnableMask s) e\<rparr>"
  have local: "notify_rel F P ln (nhwi Hwi_restore (?m g)) (a\<lparr>na_mask := (na_mask a)(e := b)\<rparr>)"
    if "is_local P ln" and g: "\<And>m f. f < nfc_numEvents F \<Longrightarrow> TEST_BIT (g m e) f = (if f = e then b else TEST_BIT m f)"
    for g b
  proof (rule notify_relI)
    show "line_found F P ln (nhwi Hwi_restore (?m g))"
      using R'(1) line_found_cong [of "nhwi Hwi_restore (?m g)" s] by simp
  qed (use R' that in simp_all)
  have remote: "notify_rel F P ln (nlog (Drv_disableEvent d e) s) a" "notify_rel F P ln (nlog (Drv_enableEvent d e) s) a" for d
    by (rule notify_rel_same [OF R]; simp)+
  show "\<exists>t. Notify_disableEvent F P (ln_procId ln) (ln_lineId ln) eventId s = Ok t \<and>
      notify_rel F P ln t (masked P ln e False a)"
    using local [of CLEAR_BIT False] TEST_CLEAR_BIT [OF small small] remote e(2)
    by (simp add: Notify_disableEvent_def run)
  show "\<exists>t. Notify_enableEvent F P (ln_procId ln) (ln_lineId ln) eventId s = Ok t \<and>
      notify_rel F P ln t (masked P ln e True a)"
    using local [of SET_BIT True] TEST_SET_BIT [OF small small] remote e(2)
    by (simp add: Notify_enableEvent_def run)
qed

lemma eventAvailable_rel:
  assumes R: "notify_rel F P ln s a" and e: "event_fine F eventId"
  shows "Notify_eventAvailable F P (ln_procId ln) (ln_lineId ln) eventId s = Ok (\<not> na_used a (stripped eventId))"
proof -
  note R' = notify_relD [OF R]
  have lt: "stripped eventId < nfc_numEvents F" using e by (simp add: event_fine_def)
  have "notify_handle P (ln_procId ln) (ln_lineId ln) s = Ok (ln_handle ln)" "ln_handle ln \<noteq> NULL"
    using R'(1) by (simp_all add: line_found_def)
  then show ?thesis
    using object_rel_at [OF R'(3) lt] callback_null_iff(1) [OF R'(2) lt] lt e
    by (simp add: Notify_eventAvailable_def found_checks(1) [OF R'(1)] event_fine_def)
qed

section \<open>Runs\<close>

text \<open>
  The operations on a line. A listener is given with the memory \<open>Memory_alloc\<close> returns for it;
  \<open>N_deliver\<close> is the driver handing over an event.
\<close>

datatype notify_op =
    N_register ptr u32 EventCallback | N_unregister u32 EventCallback
  | N_registerSingle u32 EventCallback | N_unregisterSingle u32
  | N_send u32 u32 | N_deliver u32 u32
  | N_disable | N_restore u32 | N_disableEvent u32 | N_enableEvent u32 | N_available u32

definition no_answer :: "notify_state res \<Rightarrow> (int \<times> notify_state) res" where
  "no_answer r = res_bind r (\<lambda>s. Ok (0, s))"

fun notify_step ::
  "nat \<Rightarrow> notify_config \<Rightarrow> MultiProc_Module \<Rightarrow> notify_line \<Rightarrow> notify_op \<Rightarrow> notify_state \<Rightarrow>
   (int \<times> notify_state) res" where
  "notify_step n F P ln (N_register x ev c) s =
     Notify_registerEvent F P x (ln_procId ln) (ln_lineId ln) ev (ec_fnNotifyCbck c) (ec_cbckArg c) s"
| "notify_step n F P ln (N_unregister ev c) s =
     Notify_unregisterEvent n F P (ln_procId ln) (ln_lineId ln) ev (ec_fnNotifyCbck c) (ec_cbckArg c) s"
| "notify_step n F P ln (N_registerSingle ev c) s =
     Notify_registerEventSingle F P (ln_procId ln) (ln_lineId ln) ev (ec_fnNotifyCbck c) (ec_cbckArg c) s"
| "notify_step n F P ln (N_unregisterSingle ev) s =
     Notify_unregisterEventSingle F P (ln_procId ln) (ln_lineId ln) ev s"
| "notify_step n F P ln (N_send ev payload) s =
     Notify_sendEvent n F P (ln_procId ln) (ln_lineId ln) ev payload True s"
| "notify_step n F P ln (N_deliver e payload) s =
     no_answer (Notify_exec n F (ln_handle ln) e payload s)"
| "notify_step n F P ln N_disable s =
     res_bind (Notify_disable F P (ln_procId ln) (ln_lineId ln) s) (\<lambda>(key, t). Ok (uint key, t))"
| "notify_step n F P ln (N_restore key) s =
     no_answer (Notify_restore F P (ln_procId ln) (ln_lineId ln) key s)"
| "notify_step n F P ln (N_disableEvent ev) s =
     no_answer (Notify_disableEvent F P (ln_procId ln) (ln_lineId ln) ev s)"
| "notify_step n F P ln (N_enableEvent ev) s =
     no_answer (Notify_enableEvent F P (ln_procId ln) (ln_lineId ln) ev s)"
| "notify_step n F P ln (N_available ev) s =
     res_bind (Notify_eventAvailable F P (ln_procId ln) (ln_lineId ln) ev s) (\<lambda>b. Ok (of_bool b, s))"

text \<open>What they do to the table.\<close>

fun notify_spec ::
  "notify_config \<Rightarrow> MultiProc_Module \<Rightarrow> notify_line \<Rightarrow> notify_op \<Rightarrow> notify_table \<Rightarrow> int \<times> notify_table" where
  "notify_spec F P ln (N_register x ev c) a =
     (Notify_S_SUCCESS,
      a\<lparr>na_many := (na_many a)(stripped ev := na_many a (stripped ev) @ [(x, c)])\<rparr>)"
| "notify_spec F P ln (N_unregister ev c) a = (let e = stripped ev in
     if c \<in> snd ` set (na_many a e)
     then (Notify_S_SUCCESS, a\<lparr>na_many := (na_many a)(e := remove_first c (na_many a e))\<rparr>)
     else (Notify_E_NOTFOUND, if na_many a e = [] then a\<lparr>na_gate := na_gate a + 1\<rparr> else a))"
| "notify_spec F P ln (N_registerSingle ev c) a = (let e = stripped ev in
     if na_used a e then (Notify_E_ALREADYEXISTS, a)
     else (Notify_S_SUCCESS, a\<lparr>na_single := (na_single a)(e := Some c)\<rparr>))"
| "notify_spec F P ln (N_unregisterSingle ev) a = (let e = stripped ev in
     (if na_used a e then Notify_S_SUCCESS else Notify_E_FAIL, a\<lparr>na_single := (na_single a)(e := None)\<rparr>))"
| "notify_spec F P ln (N_send ev payload) a = (let e = stripped ev in
     if is_local P ln then
       (local_status a e, if local_status a e = Notify_S_SUCCESS then delivered ln e payload a else a)
     else (nfc_driver_send F (ln_driver ln) e payload True, a))"
| "notify_spec F P ln (N_deliver e payload) a = (0, delivered ln e payload a)"
| "notify_spec F P ln N_disable a = (uint (na_nesting a + 1), a\<lparr>na_nesting := na_nesting a + 1\<rparr>)"
| "notify_spec F P ln (N_restore key) a = (0, a\<lparr>na_nesting := na_nesting a - 1\<rparr>)"
| "notify_spec F P ln (N_disableEvent ev) a = (0, masked P ln (stripped ev) False a)"
| "notify_spec F P ln (N_enableEvent ev) a = (0, masked P ln (stripped ev) True a)"
| "notify_spec F P ln (N_available ev) a = (of_bool (\<not> na_used a (stripped ev)), a)"

text \<open>
  What the clients keep to: events in range and not reserved, callbacks that are functions,
  fresh memory, the two kinds of registration not mixed for an event, nested keys, and a driver
  that hands over registered events only. \<open>n\<close> is a bound of the listeners of an event.
\<close>

fun notify_allowed ::
  "nat \<Rightarrow> notify_config \<Rightarrow> MultiProc_Module \<Rightarrow> notify_line \<Rightarrow> notify_op \<Rightarrow> notify_table \<Rightarrow> bool" where
  "notify_allowed n F P ln (N_register x ev c) a \<longleftrightarrow>
     event_fine F ev \<and> is_user c \<and> na_single a (stripped ev) = None \<and> listener_fresh F ln a x"
| "notify_allowed n F P ln (N_unregister ev c) a \<longleftrightarrow>
     event_fine F ev \<and> length (na_many a (stripped ev)) < n"
| "notify_allowed n F P ln (N_registerSingle ev c) a \<longleftrightarrow> event_fine F ev \<and> is_user c"
| "notify_allowed n F P ln (N_unregisterSingle ev) a \<longleftrightarrow>
     event_fine F ev \<and> na_many a (stripped ev) = []"
| "notify_allowed n F P ln (N_send ev payload) a \<longleftrightarrow>
     event_fine F ev \<and> length (na_many a (stripped ev)) < n"
| "notify_allowed n F P ln (N_deliver e payload) a \<longleftrightarrow>
     e < nfc_numEvents F \<and> na_used a e \<and> length (na_many a e) < n"
| "notify_allowed n F P ln N_disable a \<longleftrightarrow> na_nesting a + 1 \<noteq> 0"
| "notify_allowed n F P ln (N_restore key) a \<longleftrightarrow> key = na_nesting a \<and> key \<noteq> 0"
| "notify_allowed n F P ln (N_disableEvent ev) a \<longleftrightarrow> event_fine F ev"
| "notify_allowed n F P ln (N_enableEvent ev) a \<longleftrightarrow> event_fine F ev"
| "notify_allowed n F P ln (N_available ev) a \<longleftrightarrow> event_fine F ev"

lemma notify_step_refines:
  assumes R: "notify_rel F P ln s a" and "notify_allowed n F P ln op a"
  shows "\<exists>t. notify_step n F P ln op s = Ok (fst (notify_spec F P ln op a), t) \<and>
    notify_rel F P ln t (snd (notify_spec F P ln op a))"
proof (cases op)
  case (N_unregister ev c)
  let ?e = "stripped ev"
  show ?thesis
  proof (cases "c \<in> snd ` set (na_many a ?e)")
    case True
    then obtain us x vs where "na_many a ?e = us @ (x, c) # vs" "c \<notin> snd ` set us"
      by (rule listener_split)
    with unregister_found_rel [OF R, of ev ?e us x c vs n] N_unregister assms(2) True
    show ?thesis by (simp add: Let_def remove_first_split)
  next
    case False
    with unregister_none_rel [OF R, of ev ?e c n] N_unregister assms(2)
    show ?thesis by (simp add: Let_def)
  qed
next
  case (N_send ev payload)
  then show ?thesis
    using sendEvent_local_rel [OF R, of ev "stripped ev" n payload True] assms(2)
      sendEvent_remote_rel [OF R, of ev n payload True]
    by (cases "is_local P ln") (simp_all add: Let_def)
next
  case (N_registerSingle ev c)
  then show ?thesis using registerSingle_rel [OF R, of ev "stripped ev" c] assms(2)
    by (auto simp: Let_def)
next
  case (N_unregisterSingle ev)
  then show ?thesis using unregisterSingle_rel [OF R, of ev "stripped ev"] assms(2)
    by (auto simp: Let_def)
next
  case (N_register x ev c)
  then show ?thesis using register_rel [OF R, of ev "stripped ev" c x] assms(2) by auto
next
  case (N_deliver e payload)
  then show ?thesis using exec_rel [OF R, of e n payload] assms(2) by (auto simp: no_answer_def)
next
  case N_disable
  then show ?thesis using disable_rel [OF R] assms(2) by auto
next
  case (N_restore key)
  then show ?thesis using restore_rel [OF R] assms(2) by (auto simp: no_answer_def)
next
  case (N_disableEvent ev)
  then show ?thesis using mask_rel(1) [OF R, of ev "stripped ev"] assms(2) by (auto simp: no_answer_def)
next
  case (N_enableEvent ev)
  then show ?thesis using mask_rel(2) [OF R, of ev "stripped ev"] assms(2) by (auto simp: no_answer_def)
next
  case (N_available ev)
  then show ?thesis using eventAvailable_rel [OF R, of ev] R assms(2) by auto
qed

text \<open>Any run the clients may make is one of the table.\<close>

lemma notify_run_refines:
  assumes "notify_rel F P ln s a"
    and "allowed_run (notify_allowed n F P ln) (notify_spec F P ln) ops a"
  shows "\<exists>t. run_ops (notify_step n F P ln) ops s = Ok (fst (spec_run (notify_spec F P ln) ops a), t) \<and>
    notify_rel F P ln t (snd (spec_run (notify_spec F P ln) ops a))"
  by (rule run_ops_refine [of "notify_rel F P ln" "notify_allowed n F P ln"])
    (use notify_step_refines assms in auto)

lemma exec_more:
  assumes "Notify_exec m F h e payload s = Ok t" and "m \<le> n"
  shows "Notify_exec n F h e payload s = Ok t"
proof -
  have many: "Notify_execMany n F p l e ob payload s = Ok t"
    if "Notify_execMany m F p l e ob payload s = Ok t" for p l ob
    using that execMany_loop_more [OF _ assms(2)]
    by (auto simp: Notify_execMany_def Let_def Assert_isTrue_eq_Ok res_bind_eq_Ok split: if_splits)
  obtain c where c: "arr_get (no_callbacks (nt_obj s h)) (unat e) = Ok c"
    using assms(1) by (auto simp: Notify_exec_def Let_def res_bind_eq_Ok)
  show ?thesis
    using assms(1) many
    by (simp add: Notify_exec_def Let_def c Assert_isTrue_eq_Ok split: if_splits)
qed

text \<open>With rounds enough for the listeners and one more, a delivery returns.\<close>

lemma exec_returns:
  assumes R: "notify_rel F P ln s a" and e: "e < nfc_numEvents F" and used: "na_used a e"
  shows "\<exists>t. (\<forall>n>length (na_many a e). Notify_exec n F (ln_handle ln) e payload s = Ok t) \<and>
    nt_calls t = nt_calls s @ map (the_call (ln_procId ln) (ln_lineId ln) e payload) (reached a e)"
proof -
  let ?h = "ln_handle ln" and ?k = "length (na_many a e)"
  obtain t where t: "Notify_exec (Suc ?k) F ?h e payload s = Ok t" "notify_rel F P ln t (delivered ln e payload a)"
    using exec_rel [OF R e used, of "Suc ?k" payload] by auto
  have "Notify_exec n F ?h e payload s = Ok t" if n: "?k < n" for n
    using exec_more [OF t(1), of n] n by simp
  moreover have "nt_calls t = nt_calls s @ map (the_call (ln_procId ln) (ln_lineId ln) e payload) (reached a e)"
    using notify_relD(7) [OF t(2)] notify_relD(7) [OF R] by (simp add: delivered_def)
  ultimately show ?thesis by blast
qed

section \<open>Creating and detaching a line\<close>

lemma construct_lists_ring:
  fixes i N :: u32
  assumes "unat i + k = unat N"
    and "\<And>e. e < N \<Longrightarrow> nfc_listGet F L e \<noteq> NULL"
    and "\<And>e f. e < N \<Longrightarrow> f < N \<Longrightarrow> nfc_listGet F L e = nfc_listGet F L f \<Longrightarrow> e = f"
    and "\<And>e. e < i \<Longrightarrow> list_ring (nfc_listGet F L e) (nt_list s) []"
  shows "\<exists>l. construct_lists F L k i s = Ok (s\<lparr>nt_list := l\<rparr>) \<and>
    (\<forall>e<N. list_ring (nfc_listGet F L e) l [])"
  using assms(1,4)
proof (induction k arbitrary: i s)
  case 0
  then have "i = N" by (simp add: word_eq_unat)
  with 0 show ?case by (intro exI [of _ "nt_list s"]) simp
next
  case (Suc k)
  let ?H = "nfc_listGet F L"
  have iN: "i < N" using Suc.prems(1) by (simp add: word_less_nat_alt)
  then have suc: "unat (i + 1) = unat i + 1"
    using Suc.prems(1) unat_below [of N] by (intro unat_plus_no_wrap [THEN trans]) simp_all
  obtain l where l: "List_Instance_init (?H i) (nt_list s) = Ok l" "list_ring (?H i) l []"
    "list_frame {?H i} (nt_list s) l"
    using List_Instance_init_ring [of "?H i" "nt_list s"] assms(2) [OF iN] by blast
  have rings: "list_ring (?H e) l []" if e: "e < i + 1" for e
  proof (cases "e = i")
    case False
    then have ei: "e < i" using e suc by (simp add: word_less_nat_alt word_eq_unat)
    then have "?H e \<noteq> ?H i" using assms(3) [of e i] iN by (auto simp: word_less_nat_alt)
    then show ?thesis using list_ring_frame [OF l(3) Suc.prems(2) [OF ei]] by simp
  qed (use l(2) in simp)
  obtain l' where "construct_lists F L k (i + 1) (s\<lparr>nt_list := l\<rparr>) = Ok (s\<lparr>nt_list := l'\<rparr>)"
    "\<forall>e<N. list_ring (?H e) l' []"
    using Suc.IH [of "i + 1" "s\<lparr>nt_list := l\<rparr>"] Suc.prems(1) suc rings by auto
  with l(1) show ?case by (auto simp: on_lists_def)
qed

text \<open>The line of a new instance: nothing registered, nothing disabled.\<close>

definition fresh_table :: "notify_state \<Rightarrow> notify_table" where
  "fresh_table s = \<lparr>na_many = (\<lambda>_. []), na_single = (\<lambda>_. None), na_nesting = 0,
     na_mask = TEST_BIT (nt_localEnableMask s), na_calls = nt_calls s, na_gate = module_gate (nt_log s)\<rparr>"

definition line_free :: "MultiProc_Module \<Rightarrow> notify_line \<Rightarrow> notify_state \<Rightarrow> bool" where
  "line_free P ln s \<longleftrightarrow> notify_handle P (ln_procId ln) (ln_lineId ln) s = Ok NULL"

lemma set_notify_handle_found:
  assumes "notify_handle P procId lineId s = Ok old"
  shows "\<exists>hs. set_notify_handle P procId lineId h s = Ok (s\<lparr>nt_handles := hs\<rparr>) \<and>
    notify_handle P procId lineId (s\<lparr>nt_handles := hs\<rparr>) = Ok h"
  using assms
  by (auto simp: notify_handle_def set_notify_handle_def Let_def res_bind_eq_Ok arr_get_eq_Ok)

lemma set_notify_handle_other:
  assumes "set_notify_handle P procId lineId h s = Ok t" and "lineId' \<noteq> lineId"
  shows "notify_handle P procId lineId' t = notify_handle P procId lineId' s"
  using assms
  by (auto simp: notify_handle_def set_notify_handle_def Let_def res_bind_eq_Ok arr_get_eq_Ok arr_set_eq_Ok
      arr_get_def word_eq_unat)

lemma Instance_init_rel:
  assumes free: "line_free P ln s" and h: "ln_handle ln \<noteq> NULL" and L: "ln_lists ln \<noteq> NULL"
    and cb: "callbacks \<noteq> NULL"
    and args: "ln_procId ln < nfc_numProcessors F" "ln_lineId ln < nfc_numLines F" "nfc_numEvents F \<le> 32"
    and hdr: "\<And>e. e < nfc_numEvents F \<Longrightarrow> nfc_listGet F (ln_lists ln) e \<noteq> NULL"
      "\<And>e f. e < nfc_numEvents F \<Longrightarrow> f < nfc_numEvents F \<Longrightarrow>
        nfc_listGet F (ln_lists ln) e = nfc_listGet F (ln_lists ln) f \<Longrightarrow> e = f"
    and drv: "\<not> is_local P ln \<Longrightarrow> driver_rel (nfc_numEvents F) (ln_driver ln) (nt_log s) (fresh_table s)"
  shows "\<exists>t. Notify_Instance_init F P callbacks (ln_lists ln) (ln_handle ln) (ln_driver ln)
      (ln_procId ln) (ln_lineId ln) s = Ok (0, t) \<and> notify_rel F P ln t (fresh_table s) \<and>
    (\<forall>j. j \<noteq> ln_lineId ln \<longrightarrow> notify_handle P (ln_procId ln) j t = notify_handle P (ln_procId ln) j s) \<and>
    (\<forall>h. h \<noteq> ln_handle ln \<longrightarrow> nt_obj t h = nt_obj s h)"
proof -
  let ?N = "nfc_numEvents F" and ?h = "ln_handle ln" and ?a = "fresh_table s"
  have "\<exists>l. construct_lists F (ln_lists ln) (unat ?N) 0 s = Ok (s\<lparr>nt_list := l\<rparr>) \<and>
      (\<forall>e<?N. list_ring (nfc_listGet F (ln_lists ln) e) l [])"
  proof (rule construct_lists_ring)
    show "e = f" if "e < ?N" "f < ?N" "nfc_listGet F (ln_lists ln) e = nfc_listGet F (ln_lists ln) f" for e f
      using that by (rule hdr(2))
  qed (use hdr(1) in simp_all)
  then obtain l where l: "construct_lists F (ln_lists ln) (unat ?N) 0 s = Ok (s\<lparr>nt_list := l\<rparr>)"
    "\<forall>e<?N. list_ring (nfc_listGet F (ln_lists ln) e) l []" by blast
  let ?ob = "(nt_obj s ?h)\<lparr>no_remoteProcId := ln_procId ln, no_lineId := ln_lineId ln, no_nesting := 0,
      no_callbacks := replicate (unat ?N) \<lparr>ec_fnNotifyCbck = Fxn_NULL, ec_cbckArg = 0\<rparr>,
      no_eventList := ln_lists ln, no_driverHandle := ln_driver ln\<rparr>"
  let ?s3 = "nlog_if (ln_driver ln \<noteq> NULL) (Drv_setNotifyHandle (ln_driver ln) ?h)
      (put_obj ?h ?ob (s\<lparr>nt_list := l\<rparr>))"
  have "notify_handle P (ln_procId ln) (ln_lineId ln) ?s3 = Ok NULL"
    using free notify_handle_cong [of ?s3 s] by (simp add: line_free_def)
  then obtain hs where hs: "set_notify_handle P (ln_procId ln) (ln_lineId ln) ?h ?s3 = Ok (?s3\<lparr>nt_handles := hs\<rparr>)"
    "notify_handle P (ln_procId ln) (ln_lineId ln) (?s3\<lparr>nt_handles := hs\<rparr>) = Ok ?h"
    using set_notify_handle_found by blast
  have "Notify_Instance_init F P callbacks (ln_lists ln) ?h (ln_driver ln) (ln_procId ln) (ln_lineId ln) s =
      Ok (0, ?s3\<lparr>nt_handles := hs\<rparr>)"
    using args free L cb l(1) hs(1)
    by (simp add: Notify_Instance_init_def line_checked_def line_free_def Let_def)
  moreover have "notify_rel F P ln (?s3\<lparr>nt_handles := hs\<rparr>) ?a"
  proof (rule notify_relI)
    show "line_found F P ln (?s3\<lparr>nt_handles := hs\<rparr>)" using hs(2) h args by (simp add: line_found_def)
    show "object_rel ?N ?h (ln_procId ln) (ln_lineId ln) (ln_driver ln) (ln_lists ln)
        (nt_obj (?s3\<lparr>nt_handles := hs\<rparr>) ?h) ?a"
      by (simp add: object_rel_def fresh_table_def callback_of_def word_less_nat_alt)
    show "lists_rel ?N (nfc_listGet F (ln_lists ln)) (nt_list (?s3\<lparr>nt_handles := hs\<rparr>))
        (nt_listener (?s3\<lparr>nt_handles := hs\<rparr>)) (na_many ?a)"
      using l(2) hdr by (auto simp: lists_rel_def fresh_table_def cell_def)
    show "driver_rel ?N (ln_driver ln) (nt_log (?s3\<lparr>nt_handles := hs\<rparr>)) ?a" if "\<not> is_local P ln"
      using drv [OF that] by (auto simp: driver_rel_def)
  qed (simp_all add: table_ok_def fresh_table_def)
  moreover have "notify_handle P (ln_procId ln) j (?s3\<lparr>nt_handles := hs\<rparr>) = notify_handle P (ln_procId ln) j s"
    if "j \<noteq> ln_lineId ln" for j
    using set_notify_handle_other [OF hs(1) that] notify_handle_cong [of ?s3 s] by simp
  moreover have "nt_obj (?s3\<lparr>nt_handles := hs\<rparr>) h' = nt_obj s h'" if "h' \<noteq> ?h" for h'
    using that by simp
  ultimately show ?thesis by blast
qed

text \<open>After \<open>detach\<close> no line to the processor is registered.\<close>

definition lines_wired :: "MultiProc_Module \<Rightarrow> u16 \<Rightarrow> u16 \<Rightarrow> notify_state \<Rightarrow> bool" where
  "lines_wired P procId numLines s \<longleftrightarrow> (\<forall>i<numLines. \<exists>h. notify_handle P procId i s = Ok h \<and>
     (h \<noteq> NULL \<longrightarrow> no_remoteProcId (nt_obj s h) = procId \<and> no_lineId (nt_obj s h) = i))"

lemma detach_lines_clear:
  assumes "lines_wired P procId numLines s" and "unat i + k = unat numLines"
    and "\<And>j. j < i \<Longrightarrow> notify_handle P procId j s = Ok NULL"
  shows "\<exists>t. detach_lines P cbs procId k i s = Ok t \<and>
    (\<forall>j<numLines. notify_handle P procId j t = Ok NULL)"
  using assms
proof (induction k arbitrary: i s)
  case 0
  then have "i = numLines" by (simp add: word_eq_unat)
  with 0 show ?case by simp
next
  case (Suc k)
  have i: "i < numLines" using Suc.prems(2) by (simp add: word_less_nat_alt)
  then have suc: "unat (i + 1) = unat i + 1"
    using Suc.prems(2) unat_below [of numLines] by (intro unat_plus_no_wrap [THEN trans]) simp_all
  obtain h where h: "notify_handle P procId i s = Ok h"
    "h \<noteq> NULL \<Longrightarrow> no_remoteProcId (nt_obj s h) = procId \<and> no_lineId (nt_obj s h) = i"
    using Suc.prems(1) i unfolding lines_wired_def by blast
  have step: "\<exists>t. (if h = NULL then Ok s
       else res_bind (Notify_Instance_finalize P (cbs h) h 0 s) (\<lambda>s1.
         Ok (nlog (Drv_delete (no_driverHandle (nt_obj s h))) s1))) = Ok t \<and>
     nt_obj t = nt_obj s \<and> notify_handle P procId i t = Ok NULL \<and>
     (\<forall>j. j \<noteq> i \<longrightarrow> notify_handle P procId j t = notify_handle P procId j s)"
  proof (cases "h = NULL")
    case True
    with h(1) show ?thesis by simp
  next
    case False
    obtain hs where hs: "set_notify_handle P procId i NULL s = Ok (s\<lparr>nt_handles := hs\<rparr>)"
      "notify_handle P procId i (s\<lparr>nt_handles := hs\<rparr>) = Ok NULL"
      using set_notify_handle_found [OF h(1)] by blast
    let ?t = "nlog (Drv_delete (no_driverHandle (nt_obj s h))) (nlog (N_free (cbs h))
        (nlog (N_free (no_eventList (nt_obj s h))) (s\<lparr>nt_handles := hs\<rparr>)))"
    have "notify_handle P procId j ?t = notify_handle P procId j (s\<lparr>nt_handles := hs\<rparr>)" for j
      by (rule notify_handle_cong) simp
    then show ?thesis
      using False h(2) hs set_notify_handle_other [OF hs(1)]
      by (simp add: Notify_Instance_finalize_def Let_def)
  qed
  then obtain t where t: "detach_lines P cbs procId (Suc k) i s = detach_lines P cbs procId k (i + 1) t"
    "nt_obj t = nt_obj s" "notify_handle P procId i t = Ok NULL"
    "\<And>j. j \<noteq> i \<Longrightarrow> notify_handle P procId j t = notify_handle P procId j s"
    using h(1) by auto
  have "lines_wired P procId numLines t" unfolding lines_wired_def
  proof (intro allI impI)
    fix j assume "j < numLines"
    then show "\<exists>h. notify_handle P procId j t = Ok h \<and>
        (h \<noteq> NULL \<longrightarrow> no_remoteProcId (nt_obj t h) = procId \<and> no_lineId (nt_obj t h) = j)"
      using Suc.prems(1) t(2,3) t(4) [of j] unfolding lines_wired_def by (cases "j = i") auto
  qed
  moreover have "notify_handle P procId j t = Ok NULL" if "j < i + 1" for j
  proof (cases "j = i")
    case False
    then have "j < i" using that suc by (simp add: word_less_nat_alt word_eq_unat)
    then show ?thesis using Suc.prems(3) t(4) [OF False] by simp
  qed (use t(3) in simp)
  ultimately show ?case using Suc.IH [of t "i + 1"] Suc.prems(2) suc t(1) by simp
qed

lemma Instance_init_wired:
  assumes "lines_wired P (ln_procId ln) (nfc_numLines F) s" and R: "notify_rel F P ln t a"
    and "\<And>j. j \<noteq> ln_lineId ln \<Longrightarrow> notify_handle P (ln_procId ln) j t = notify_handle P (ln_procId ln) j s"
    and "\<And>h. h \<noteq> ln_handle ln \<Longrightarrow> nt_obj t h = nt_obj s h"
    and "\<And>j. j < nfc_numLines F \<Longrightarrow> notify_handle P (ln_procId ln) j s \<noteq> Ok (ln_handle ln)"
  shows "lines_wired P (ln_procId ln) (nfc_numLines F) t"
  unfolding lines_wired_def
proof (intro allI impI)
  fix j assume j: "j < nfc_numLines F"
  note R' = notify_relD [OF R]
  show "\<exists>h. notify_handle P (ln_procId ln) j t = Ok h \<and>
      (h \<noteq> NULL \<longrightarrow> no_remoteProcId (nt_obj t h) = ln_procId ln \<and> no_lineId (nt_obj t h) = j)"
  proof (cases "j = ln_lineId ln")
    case True
    with R'(1,3) show ?thesis by (auto simp: line_found_def object_rel_def)
  next
    case False
    obtain h where h: "notify_handle P (ln_procId ln) j s = Ok h"
      "h \<noteq> NULL \<longrightarrow> no_remoteProcId (nt_obj s h) = ln_procId ln \<and> no_lineId (nt_obj s h) = j"
      using assms(1) j unfolding lines_wired_def by blast
    then have "h \<noteq> ln_handle ln" using assms(5) [OF j] by auto
    with h assms(3) [OF False] assms(4) [of h] show ?thesis by simp
  qed
qed

lemma Notify_detach_clears:
  assumes "lines_wired P procId (nfc_numLines F) s"
  shows "\<exists>t. Notify_detach F P cbs procId s = Ok (Notify_S_SUCCESS, t) \<and>
    (\<forall>j<nfc_numLines F. notify_handle P procId j t = Ok NULL)"
  using detach_lines_clear [OF assms, of 0 "unat (nfc_numLines F)" cbs]
  by (auto simp: Notify_detach_def)

end
