(* ===== verification/NameServer_Tables.thy ===== *)
theory NameServer_Tables
imports NameServer
begin

text \<open>
  Creation, growth and deletion of the tables of \<open>ti/sdo/utils/NameServer.c\<close>: a new table of
  a fixed size is empty, a growing one gives back every block it takes, two adders can race, and
  the answers of other processors.
\<close>

section \<open>The blocks a heap has handed out\<close>

text \<open>A block: its heap, its address and its size.\<close>

type_synonym block = "ptr \<times> ptr \<times> sizeT"

fun ns_held :: "ns_call list \<Rightarrow> block multiset" where
  "ns_held [] = {#}"
| "ns_held (NH_alloc h n a # cs) = (if a = NULL then ns_held cs else add_mset (h, a, n) (ns_held cs))"
| "ns_held (NH_free h a n # cs) = ns_held cs - {#(h, a, n)#}"
| "ns_held (NG_enter # cs) = ns_held cs"
| "ns_held (NG_leave # cs) = ns_held cs"
| "ns_held (NG_hwi c # cs) = ns_held cs"
| "ns_held (NE_raise e # cs) = ns_held cs"

text \<open>Every release is of a block that is held, by its heap, its address and its size.\<close>

fun ns_frees_held :: "ns_call list \<Rightarrow> bool" where
  "ns_frees_held [] \<longleftrightarrow> True"
| "ns_frees_held (NH_free h a n # cs) \<longleftrightarrow> (h, a, n) \<in># ns_held cs \<and> ns_frees_held cs"
| "ns_frees_held (NH_alloc h n a # cs) \<longleftrightarrow> ns_frees_held cs"
| "ns_frees_held (NG_enter # cs) \<longleftrightarrow> ns_frees_held cs"
| "ns_frees_held (NG_leave # cs) \<longleftrightarrow> ns_frees_held cs"
| "ns_frees_held (NG_hwi c # cs) \<longleftrightarrow> ns_frees_held cs"
| "ns_frees_held (NE_raise e # cs) \<longleftrightarrow> ns_frees_held cs"

text \<open>What heaps do: a new block is at none of the addresses in use, nor where the list heads are.\<close>

definition ns_heaps_ok :: "ns_env \<Rightarrow> ptr \<Rightarrow> bool" where
  "ns_heaps_ok E obj \<longleftrightarrow>
     (\<forall>cs h n. ne_alloc E cs h n \<noteq> NULL \<longrightarrow>
        ne_alloc E cs h n \<notin> (fst \<circ> snd) ` set_mset (ns_held cs) \<and>
        ne_alloc E cs h n \<noteq> ne_nameList E obj \<and> ne_alloc E cs h n \<noteq> ne_freeList E obj)"

text \<open>The blocks of an entry of a table that grows.\<close>

definition ns_blocks :: "ns_state \<Rightarrow> ptr \<Rightarrow> ptr \<Rightarrow> block multiset" where
  "ns_blocks s obj e =
     (let heap = no_tableHeap (nv_obj s obj); t = nv_entry s e in
      {#(heap, e, sizeof_TableEntry), (heap, te_name t, of_nat (length (ns_name s e) + 1))#} +
      (if ns_words s obj then {#} else {#(heap, te_value t, no_maxValueLen (nv_obj s obj))#}))"

text \<open>A growing table that holds its entries' blocks beside those of \<open>base\<close>.\<close>

definition ns_growing :: "ns_env \<Rightarrow> ptr \<Rightarrow> block multiset \<Rightarrow> ns_state \<Rightarrow> ptr list \<Rightarrow> bool" where
  "ns_growing E obj base s xs \<longleftrightarrow>
     ns_tab E obj s xs [] \<and> no_numDynamic (nv_obj s obj) = NameServer_ALLOWGROWTH \<and>
     no_numStatic (nv_obj s obj) = 0 \<and>
     ns_held (nv_calls s) = base + (\<Sum>e\<in>#mset xs. ns_blocks s obj e) \<and> ns_frees_held (nv_calls s)"

lemma ns_held_hwi [simp]: "ns_held (NG_leave # NG_enter # cs) = ns_held cs"
  by simp

lemma ns_growing_held:
  assumes "ns_growing E obj base s xs" and "e \<in> set xs"
  shows "e \<in> (fst \<circ> snd) ` set_mset (ns_held (nv_calls s))"
    and "te_name (nv_entry s e) \<in> (fst \<circ> snd) ` set_mset (ns_held (nv_calls s))"
    and "\<not> ns_words s obj \<Longrightarrow> te_value (nv_entry s e) \<in> (fst \<circ> snd) ` set_mset (ns_held (nv_calls s))"
proof -
  have sub: "set_mset (ns_blocks s obj e) \<subseteq> set_mset (ns_held (nv_calls s))"
    using assms by (auto simp: ns_growing_def)
  have b: "b \<in># ns_blocks s obj e \<Longrightarrow> fst (snd b) \<in> (fst \<circ> snd) ` set_mset (ns_held (nv_calls s))" for b
    using sub by force
  let ?heap = "no_tableHeap (nv_obj s obj)"
  show "e \<in> (fst \<circ> snd) ` set_mset (ns_held (nv_calls s))"
    using b [of "(?heap, e, sizeof_TableEntry)"] by (simp add: ns_blocks_def Let_def)
  show "te_name (nv_entry s e) \<in> (fst \<circ> snd) ` set_mset (ns_held (nv_calls s))"
    using b [of "(?heap, te_name (nv_entry s e), of_nat (length (ns_name s e) + 1))"]
    by (simp add: ns_blocks_def Let_def)
  show "te_value (nv_entry s e) \<in> (fst \<circ> snd) ` set_mset (ns_held (nv_calls s))" if "\<not> ns_words s obj"
    using b [of "(?heap, te_value (nv_entry s e), no_maxValueLen (nv_obj s obj))"] that
    by (simp add: ns_blocks_def Let_def)
qed

section \<open>Adding to a growing table\<close>

lemma ns_tab_agree:
  assumes "ns_tab E obj s xs ys" and "nv_list s' = nv_list s" and "nv_obj s' = nv_obj s"
    and "\<forall>d \<in> set xs \<union> set ys. nv_entry s' d = nv_entry s d"
  shows "ns_tab E obj s' xs ys"
proof -
  have "inj_on (\<lambda>e. f (nv_entry s' e)) (set xs \<union> set ys) = inj_on (\<lambda>e. f (nv_entry s e)) (set xs \<union> set ys)"
    for f :: "TableEntry \<Rightarrow> ptr"
    using assms(4) by (intro inj_on_cong) auto
  then show ?thesis using assms by (simp add: ns_tab_def)
qed

lemma ns_view_agree:
  assumes "nv_obj s' = nv_obj s" and "nv_str s' = nv_str s" and "nv_buf s' = nv_buf s"
    and "\<forall>d \<in> set xs. nv_entry s' d = nv_entry s d"
  shows "ns_view s' obj xs = ns_view s obj xs"
    and "(\<Sum>e\<in>#mset xs. ns_blocks s' obj e) = (\<Sum>e\<in>#mset xs. ns_blocks s obj e)"
proof -
  show "ns_view s' obj xs = ns_view s obj xs"
    using assms by (auto simp: ns_view_def ns_name_def ns_val_def)
  have "ns_blocks s' obj e = ns_blocks s obj e" if "e \<in># mset xs" for e
    using assms that by (simp add: ns_blocks_def ns_name_def Let_def)
  then show "(\<Sum>e\<in>#mset xs. ns_blocks s' obj e) = (\<Sum>e\<in>#mset xs. ns_blocks s obj e)"
    by (intro arg_cong [of _ _ sum_mset] image_mset_cong) 
qed

lemma ns_growing_agree:
  assumes "ns_growing E obj base s xs" and "nv_list s' = nv_list s" and "nv_obj s' = nv_obj s"
    and "nv_str s' = nv_str s" and "nv_buf s' = nv_buf s"
    and "\<forall>d \<in> set xs. nv_entry s' d = nv_entry s d"
    and "ns_held (nv_calls s') = ns_held (nv_calls s)" and "ns_frees_held (nv_calls s')"
  shows "ns_growing E obj base s' xs"
  using assms ns_view_agree(2) [OF assms(3-6)] ns_tab_agree [of E obj s xs "[]" s']
  by (auto simp: ns_growing_def)

text \<open>A block fresh from the heap is at a new address.\<close>

lemma ns_fresh:
  assumes "ns_heaps_ok E obj" and "ne_alloc E cs h n \<noteq> NULL"
  shows "\<And>b. b \<in># ns_held cs \<Longrightarrow> fst (snd b) \<noteq> ne_alloc E cs h n"
    and "ne_alloc E cs h n \<noteq> ne_nameList E obj" and "ne_alloc E cs h n \<noteq> ne_freeList E obj"
  using assms by (force simp: ns_heaps_ok_def)+

lemma ns_fresh_entry:
  assumes "ns_growing E obj base s xs" and "ns_heaps_ok E obj" and "ne_alloc E cs h n \<noteq> NULL"
    and "ns_held (nv_calls s) \<subseteq># ns_held cs" and "d \<in> set xs"
  shows "ne_alloc E cs h n \<noteq> d" and "ne_alloc E cs h n \<noteq> te_name (nv_entry s d)"
    and "\<not> ns_words s obj \<Longrightarrow> ne_alloc E cs h n \<noteq> te_value (nv_entry s d)"
proof -
  have "(fst \<circ> snd) ` set_mset (ns_held (nv_calls s)) \<subseteq> (fst \<circ> snd) ` set_mset (ns_held cs)"
    using set_mset_mono [OF assms(4)] by (rule image_mono)
  then have "ne_alloc E cs h n \<notin> (fst \<circ> snd) ` set_mset (ns_held (nv_calls s))"
    using assms(2,3) unfolding ns_heaps_ok_def by blast
  then show "ne_alloc E cs h n \<noteq> d" and "ne_alloc E cs h n \<noteq> te_name (nv_entry s d)"
    and "\<not> ns_words s obj \<Longrightarrow> ne_alloc E cs h n \<noteq> te_value (nv_entry s d)"
    using ns_growing_held [OF assms(1,5)] by metis+
qed


text \<open>
  A new entry, with all three blocks, or none at all when the heap cannot give one of the first
  two. When it cannot give the third, the code goes on to read the entry it has released.
\<close>

definition ns_values_ok :: "ns_env \<Rightarrow> ns_state \<Rightarrow> ptr \<Rightarrow> bool" where
  "ns_values_ok E s obj \<longleftrightarrow> ns_words s obj \<or>
     (\<forall>cs. ne_alloc E cs (no_tableHeap (nv_obj s obj)) (no_maxValueLen (nv_obj s obj)) \<noteq> NULL)"

lemma ns_newEntry_None:
  assumes heap_def: "heap = no_tableHeap (nv_obj s obj)" and G: "ns_growing E obj base s xs" and H: "ns_heaps_ok E obj"
    and none: "ne_alloc E (nv_calls s) heap sizeof_TableEntry = NULL \<or>
      ne_alloc E (NH_alloc heap sizeof_TableEntry (ne_alloc E (nv_calls s) heap sizeof_TableEntry) # nv_calls s)
        heap (of_nat (length n + 1)) = NULL"
  shows "\<exists>s'. NameServer_newEntry E obj n s = Ok (NULL, s') \<and> nv_obj s' = nv_obj s \<and>
    ns_view s' obj xs = ns_view s obj xs \<and> ns_growing E obj base s' xs"
proof -
  let ?s1 = "s\<lparr>nv_list := hwi Hwi_restore (hwi Hwi_disable (nv_list s))\<rparr>"
  have T: "ns_tab E obj s xs []" and D: "no_numDynamic (nv_obj s obj) = NameServer_ALLOWGROWTH"
    using G by (simp_all add: ns_growing_def)
  have get: "ns_on_list (List_get (ne_freeList E obj)) s = Ok (NULL, ?s1)"
    using List_get_empty [OF ns_tabD(2) [OF T]] by (simp add: ns_on_list_def)
  have G1: "ns_growing E obj base ?s1 xs"
    using G ns_view_agree(2) [of ?s1 s xs obj] by (simp add: ns_growing_def ns_tab_def)
  let ?e = "ne_alloc E (nv_calls s) heap sizeof_TableEntry"
  show ?thesis
  proof (cases "?e = NULL")
    case True
    let ?s2 = "ns_log (NH_alloc heap sizeof_TableEntry NULL) ?s1"
    have "NameServer_newEntry E obj n s = Ok (NULL, ?s2)"
      using get D True by (simp add: NameServer_newEntry_def ns_alloc_def heap_def)
    moreover have "ns_growing E obj base ?s2 xs"
      by (rule ns_growing_agree [OF G1]) (use G in \<open>auto simp: ns_growing_def\<close>)
    ultimately show ?thesis by simp
  next
    case False
    let ?n = "of_nat (length n + 1)"
    let ?c1 = "NH_alloc heap sizeof_TableEntry ?e # nv_calls s"
    have n0: "ne_alloc E ?c1 heap ?n = NULL" using none False by (simp add: heap_def)
    let ?s4 = "ns_upd_entry ?e (\<lambda>t. t\<lparr>te_name := NULL\<rparr>) (ns_log (NH_alloc heap ?n NULL)
      ((ns_log (NH_alloc heap sizeof_TableEntry ?e) ?s1)\<lparr>nv_size := (nv_size s)(?e := 20)\<rparr>))"
    have "NameServer_newEntry E obj n s = Ok (NULL, ns_free heap ?e sizeof_TableEntry ?s4)"
      using get D False n0 by (simp add: NameServer_newEntry_def ns_alloc_def heap_def Let_def)
    moreover have d: "?e \<noteq> d" if "d \<in> set xs" for d
      by (rule ns_fresh_entry(1) [OF G H False _ that]) simp
    have "ns_growing E obj base (ns_free heap ?e sizeof_TableEntry ?s4) xs"
      by (rule ns_growing_agree [OF G1]) (use G d False in \<open>auto simp: ns_growing_def\<close>)
    moreover have "ns_view (ns_free heap ?e sizeof_TableEntry ?s4) obj xs = ns_view s obj xs"
      by (rule ns_view_agree(1)) (use d in auto)
    ultimately show ?thesis by simp
  qed
qed


text \<open>The blocks of an entry about to be filled.\<close>

definition ns_new_blocks :: "ns_state \<Rightarrow> ptr \<Rightarrow> ptr \<Rightarrow> nat \<Rightarrow> block multiset" where
  "ns_new_blocks s obj e len =
     (let heap = no_tableHeap (nv_obj s obj); t = nv_entry s e in
      {#(heap, e, sizeof_TableEntry), (heap, te_name t, of_nat (len + 1))#} +
      (if ns_words s obj then {#} else {#(heap, te_value t, no_maxValueLen (nv_obj s obj))#}))"

text \<open>A state with a new entry \<open>e\<close> over three fresh blocks.\<close>

lemma ns_pending_fresh:
  assumes G: "ns_growing E obj base s xs" and room: "Suc (length xs) \<le> ne_fuel E"
    and s': "list_ring (ne_nameList E obj) (nv_list s') xs" "list_ring (ne_freeList E obj) (nv_list s') []"
      "nv_obj s' = nv_obj s" "\<forall>d. d \<noteq> e \<longrightarrow> nv_entry s' d = nv_entry s d"
    and e: "e \<noteq> NULL" "e \<noteq> ne_nameList E obj" "e \<noteq> ne_freeList E obj"
    and new: "\<forall>d \<in> set xs. e \<noteq> d \<and> te_name (nv_entry s' e) \<noteq> te_name (nv_entry s d) \<and>
      (ns_words s obj \<or> te_value (nv_entry s' e) \<noteq> te_value (nv_entry s d))"
  shows "ns_pending E obj s' e xs []"
proof -
  have T: "ns_tab E obj s xs []" using G by (simp add: ns_growing_def)
  have old: "\<forall>d \<in> set xs. nv_entry s' d = nv_entry s d" using s'(4) new by auto
  have inj: "inj_on (\<lambda>d. f (nv_entry s' d)) (set xs) = inj_on (\<lambda>d. f (nv_entry s d)) (set xs)"
    for f :: "TableEntry \<Rightarrow> ptr"
    using old by (intro inj_on_cong) auto
  have "ns_tab E obj s' xs []"
    using T s'(1-3) old inj by (simp add: ns_tab_def)
  moreover have "e \<notin> set xs" using new by auto
  moreover have "inj_on (\<lambda>d. te_name (nv_entry s' d)) (insert e (set xs))"
    using T old new inj [of te_name] by (auto simp: ns_tab_def)
  moreover have "inj_on (\<lambda>d. te_value (nv_entry s' d)) (insert e (set xs))" if "\<not> ns_words s obj"
    using T old new inj [of te_value] that by (auto simp: ns_tab_def)
  ultimately show ?thesis using e room s'(3) by (auto simp: ns_pending_def)
qed

lemma ns_newEntry_Some:
  assumes heap: "heap = no_tableHeap (nv_obj s obj)"
    and G: "ns_growing E obj base s xs" and H: "ns_heaps_ok E obj" and V: "ns_values_ok E s obj"
    and room: "Suc (length xs) \<le> ne_fuel E" and n: "length n < unat (no_maxNameLen (nv_obj s obj))"
    and some: "ne_alloc E (nv_calls s) heap sizeof_TableEntry \<noteq> NULL"
      "ne_alloc E (NH_alloc heap sizeof_TableEntry (ne_alloc E (nv_calls s) heap sizeof_TableEntry) # nv_calls s)
        heap (of_nat (length n + 1)) \<noteq> NULL"
  shows "\<exists>e s'. NameServer_newEntry E obj n s = Ok (e, s') \<and> e \<noteq> NULL \<and> nv_obj s' = nv_obj s \<and>
    ns_view s' obj xs = ns_view s obj xs \<and> ns_pending E obj s' e xs [] \<and>
    nv_size s' (te_name (nv_entry s' e)) = length n + 1 \<and>
    (\<not> ns_words s obj \<longrightarrow> nv_size s' (te_value (nv_entry s' e)) = unat (no_maxValueLen (nv_obj s obj))) \<and>
    (\<forall>d \<in> set xs. nv_entry s' d = nv_entry s d) \<and> ns_frees_held (nv_calls s') \<and>
    ns_held (nv_calls s') = ns_held (nv_calls s) + ns_new_blocks s' obj e (length n)"
proof -
  let ?l = "hwi Hwi_restore (hwi Hwi_disable (nv_list s))"
  have T: "ns_tab E obj s xs []" and D: "no_numDynamic (nv_obj s obj) = NameServer_ALLOWGROWTH"
    using G by (simp_all add: ns_growing_def)
  have get: "ns_on_list (List_get (ne_freeList E obj)) s = Ok (NULL, s\<lparr>nv_list := ?l\<rparr>)"
    using List_get_empty [OF ns_tabD(2) [OF T]] by (simp add: ns_on_list_def)
  have "length n + 1 < 2 ^ 32" using n unat_below [of "no_maxNameLen (nv_obj s obj)"] by simp
  then have len: "unat (of_nat (length n + 1) :: u32) = length n + 1" by (intro unat_of_nat_small) simp
  define e where "e = ne_alloc E (nv_calls s) heap sizeof_TableEntry"
  let ?c1 = "NH_alloc heap sizeof_TableEntry e # nv_calls s"
  define n1 where "n1 = ne_alloc E ?c1 heap (of_nat (length n + 1))"
  let ?c2 = "NH_alloc heap (of_nat (length n + 1)) n1 # ?c1"
  have ne: "e \<noteq> NULL" "n1 \<noteq> NULL" using some by (simp_all add: e_def n1_def)
  have h1: "ns_held ?c1 = add_mset (heap, e, sizeof_TableEntry) (ns_held (nv_calls s))"
    and h2: "ns_held ?c2 = add_mset (heap, n1, of_nat (length n + 1)) (ns_held ?c1)" using ne by simp_all
  have e: "e \<noteq> ne_nameList E obj" "e \<noteq> ne_freeList E obj"
    using ns_fresh(2,3) [OF H] ne(1) by (simp_all add: e_def)
  have new: "e \<noteq> d" "n1 \<noteq> te_name (nv_entry s d)" if "d \<in> set xs" for d
    using ns_fresh_entry(1) [OF G H _ _ that, of "nv_calls s" heap sizeof_TableEntry]
      ns_fresh_entry(2) [OF G H _ _ that, of ?c1 heap "of_nat (length n + 1)"] ne
    by (simp_all add: e_def n1_def)
  let ?s3 = "s\<lparr>nv_list := ?l, nv_calls := ?c2, nv_size := (nv_size s)(e := 20, n1 := length n + 1),
      nv_entry := (nv_entry s)(e := (nv_entry s e)\<lparr>te_name := n1\<rparr>)\<rparr>"
  have frees: "ns_frees_held (nv_calls s)" using G by (simp add: ns_growing_def)
  have R: "list_ring (ne_nameList E obj) ?l xs" "list_ring (ne_freeList E obj) ?l []"
    using ns_tabD(1,2) [OF T] by simp_all
  show ?thesis
  proof (cases "ns_words s obj")
    case True
    have "NameServer_newEntry E obj n s = Ok (e, ?s3)"
      using get D ne len True heap
      by (simp add: NameServer_newEntry_def ns_alloc_def Let_def e_def n1_def ns_log_def ns_upd_entry_def)
    moreover have "ns_pending E obj ?s3 e xs []"
      by (rule ns_pending_fresh [OF G room]) (use R ne e new True in auto)
    moreover have "ns_view ?s3 obj xs = ns_view s obj xs"
      by (rule ns_view_agree(1)) (use new in auto)
    ultimately show ?thesis using ne new True frees h1 h2
      by (intro exI [of _ e] exI [of _ ?s3]) (auto simp: ns_new_blocks_def heap Let_def)
  next
    case False
    define v where "v = ne_alloc E ?c2 heap (no_maxValueLen (nv_obj s obj))"
    let ?c3 = "NH_alloc heap (no_maxValueLen (nv_obj s obj)) v # ?c2"
    have v: "v \<noteq> NULL" using V False by (simp add: ns_values_ok_def v_def heap)
    have newv: "v \<noteq> te_value (nv_entry s d)" if "d \<in> set xs" for d
      using ns_fresh_entry(3) [OF G H _ _ that False, of ?c2 heap "no_maxValueLen (nv_obj s obj)"] v ne
      by (simp add: v_def subset_mset.le_add_same_cancel1 add_mset_commute)
    have "v \<noteq> n1"
      using ns_fresh(1) [OF H, of ?c2 heap "no_maxValueLen (nv_obj s obj)" "(heap, n1, of_nat (length n + 1))"] v ne
      by (simp add: v_def)
    let ?s6 = "?s3\<lparr>nv_calls := ?c3, nv_size := (nv_size ?s3)(v := unat (no_maxValueLen (nv_obj s obj))),
      nv_entry := (nv_entry s)(e := (nv_entry s e)\<lparr>te_name := n1, te_value := v\<rparr>)\<rparr>"
    have "NameServer_newEntry E obj n s = Ok (e, ?s6)"
      using get D ne len False heap v
      by (simp add: NameServer_newEntry_def ns_alloc_def Let_def e_def n1_def v_def ns_log_def ns_upd_entry_def)
    moreover have "ns_pending E obj ?s6 e xs []"
      by (rule ns_pending_fresh [OF G room]) (use R ne e new newv in auto)
    moreover have "ns_view ?s6 obj xs = ns_view s obj xs"
      by (rule ns_view_agree(1)) (use new in auto)
    ultimately show ?thesis using ne new False frees h1 h2 v \<open>v \<noteq> n1\<close>
      by (intro exI [of _ e] exI [of _ ?s6]) (auto simp: ns_new_blocks_def heap Let_def)
  qed
qed


lemma ns_held_quiet:
  "set cs \<subseteq> {NG_enter, NG_leave, NE_raise NS_E_entryExists} \<Longrightarrow>
    ns_held (cs @ X) = ns_held X \<and> (ns_frees_held (cs @ X) \<longleftrightarrow> ns_frees_held X)"
  by (induction cs) auto

lemma ns_growing_calls:
  assumes "ns_growing E obj base s xs" and "ns_held cs = ns_held (nv_calls s)" and "ns_frees_held cs"
  shows "ns_growing E obj base (s\<lparr>nv_calls := cs\<rparr>) xs"
  by (rule ns_growing_agree [OF assms(1)]) (use assms(2,3) in auto)

lemma NameServer_insert_growing:
  assumes G: "ns_growing E obj base s xs" and H: "ns_heaps_ok E obj" and V: "ns_values_ok E s obj"
    and room: "Suc (length xs) \<le> ne_fuel E"
    and f: "ns_fit (no_maxNameLen (nv_obj s obj)) (no_maxValueLen (nv_obj s obj)) n v"
  shows "\<exists>e s'. NameServer_add_insert E obj n v (of_nat (length v)) s = Ok (e, s') \<and> nv_obj s' = nv_obj s \<and>
    (if e = NULL then ns_growing E obj base s' xs \<and> ns_view s' obj xs = ns_view s obj xs
     else ns_growing E obj base s' (xs @ [e]) \<and> ns_view s' obj (xs @ [e]) = ns_view s obj xs @ [(n, v)])"
proof -
  define heap where "heap = no_tableHeap (nv_obj s obj)"
  let ?e = "ne_alloc E (nv_calls s) heap sizeof_TableEntry"
  let ?n1 = "ne_alloc E (NH_alloc heap sizeof_TableEntry ?e # nv_calls s) heap (of_nat (length n + 1))"
  show ?thesis
  proof (cases "?e = NULL \<or> ?n1 = NULL")
    case True
    then obtain s' where "NameServer_newEntry E obj n s = Ok (NULL, s')" "nv_obj s' = nv_obj s"
        "ns_view s' obj xs = ns_view s obj xs" "ns_growing E obj base s' xs"
      using ns_newEntry_None [OF heap_def G H] by blast
    then show ?thesis by (intro exI [of _ NULL] exI [of _ s']) (simp add: NameServer_add_insert_def)
  next
    case False
    have nlen: "length n < unat (no_maxNameLen (nv_obj s obj))" using f by (simp add: ns_fit_def)
    obtain e t where t: "NameServer_newEntry E obj n s = Ok (e, t)" "e \<noteq> NULL" "nv_obj t = nv_obj s"
        "ns_view t obj xs = ns_view s obj xs" "ns_pending E obj t e xs []"
        "nv_size t (te_name (nv_entry t e)) = length n + 1"
        "\<not> ns_words s obj \<Longrightarrow> nv_size t (te_value (nv_entry t e)) = unat (no_maxValueLen (nv_obj s obj))"
        "\<forall>d \<in> set xs. nv_entry t d = nv_entry s d" "ns_frees_held (nv_calls t)"
        "ns_held (nv_calls t) = ns_held (nv_calls s) + ns_new_blocks t obj e (length n)"
      using ns_newEntry_Some [OF heap_def G H V room nlen] False by blast
    have f': "ns_fit (no_maxNameLen (nv_obj t obj)) (no_maxValueLen (nv_obj t obj)) n v"
      using f t(3) by simp
    have val: "length v \<le> nv_size t (te_value (nv_entry t e))" if "\<not> ns_words t obj"
      using that f t(3,7) by (simp add: ns_fit_def)
    obtain s1 s' where s': "NameServer_fill obj e n v (of_nat (length v)) t = Ok s1"
        "ns_on_list (List_put (ne_nameList E obj) e) s1 = Ok ((), s')" "ns_tab E obj s' (xs @ [e]) []"
        "ns_view s' obj (xs @ [e]) = ns_view t obj xs @ [(n, v)]" "nv_obj s' = nv_obj t"
        "nv_calls s' = nv_calls t" "\<forall>d. te_name (nv_entry s' d) = te_name (nv_entry t d)"
        "\<not> ns_words t obj \<longrightarrow> (\<forall>d. te_value (nv_entry s' d) = te_value (nv_entry t d))"
      using ns_pending_put [OF t(5) f' _ val] t(6) by auto
    have names: "map (ns_name s') (xs @ [e]) = map (ns_name s) xs @ [n]"
      using arg_cong [OF s'(4), of "map fst"] arg_cong [OF t(4), of "map fst"] by (simp add: ns_view_def o_def)
    then have nm: "ns_name s' e = n" "\<And>d. d \<in> set xs \<Longrightarrow> ns_name s' d = ns_name s d" by auto
    have "ns_blocks s' obj e = ns_new_blocks t obj e (length n)"
      using s'(5,7,8) nm(1) by (auto simp: ns_blocks_def ns_new_blocks_def Let_def)
    moreover have "ns_blocks s' obj d = ns_blocks s obj d" if "d \<in># mset xs" for d
      using s'(5,7,8) t(3,8) nm(2) that by (auto simp: ns_blocks_def Let_def)
    then have "(\<Sum>d\<in>#mset xs. ns_blocks s' obj d) = (\<Sum>d\<in>#mset xs. ns_blocks s obj d)"
      by (intro arg_cong [of _ _ sum_mset] image_mset_cong)
    ultimately have "ns_growing E obj base s' (xs @ [e])"
      using G s'(3,5,6) t(3,9,10) by (simp add: ns_growing_def ac_simps)
    then show ?thesis using t(1-4) s'(1,2,4,5)
      by (intro exI [of _ e] exI [of _ s']) (simp add: NameServer_add_insert_def)
  qed
qed

lemma NameServer_add_growing:
  assumes G: "ns_growing E obj base s xs" and H: "ns_heaps_ok E obj" and V: "ns_values_ok E s obj"
    and room: "Suc (length xs) \<le> ne_fuel E"
    and f: "ns_fit (no_maxNameLen (nv_obj s obj)) (no_maxValueLen (nv_obj s obj)) n v"
  shows "\<exists>e s' xs'. NameServer_add E C obj n v (of_nat (length v)) s = Ok (e, s') \<and> nv_obj s' = nv_obj s \<and>
    ns_growing E obj base s' xs' \<and> length xs' \<le> Suc (length xs) \<and>
    ns_view s' obj xs' = ns_view s obj xs @ (if e = NULL then [] else [(n, v)])"
proof -
  have T: "ns_tab E obj s xs []" using G by (simp add: ns_growing_def)
  let ?dup = "no_checkExisting (nv_obj s obj) \<and> n \<in> fst ` set (ns_view s obj xs)"
  obtain cs where c: "NameServer_add_check E C obj n (of_nat (length v)) s =
      Ok (\<not> ?dup, s\<lparr>nv_calls := cs @ nv_calls s\<rparr>)" "set cs \<subseteq> {NG_enter, NG_leave, NE_raise NS_E_entryExists}"
    using NameServer_add_check_tab [OF T f] by blast
  let ?s = "s\<lparr>nv_calls := cs @ nv_calls s\<rparr>"
  have "ns_frees_held (nv_calls s)" using G by (simp add: ns_growing_def)
  then have G1: "ns_growing E obj base ?s xs"
    using ns_held_quiet [OF c(2), of "nv_calls s"] by (intro ns_growing_calls [OF G]) simp_all
  show ?thesis
  proof (cases ?dup)
    case True
    then have "NameServer_add E C obj n v (of_nat (length v)) s = Ok (NULL, ?s)"
      using c(1) by (simp add: NameServer_add_def)
    then show ?thesis using G1 by (intro exI [of _ NULL] exI [of _ ?s] exI [of _ xs]) simp
  next
    case False
    have V1: "ns_values_ok E ?s obj" using V by (simp add: ns_values_ok_def)
    have f1: "ns_fit (no_maxNameLen (nv_obj ?s obj)) (no_maxValueLen (nv_obj ?s obj)) n v" using f by simp
    obtain e s' where s': "NameServer_add_insert E obj n v (of_nat (length v)) ?s = Ok (e, s')" "nv_obj s' = nv_obj s"
        "if e = NULL then ns_growing E obj base s' xs \<and> ns_view s' obj xs = ns_view s obj xs
         else ns_growing E obj base s' (xs @ [e]) \<and> ns_view s' obj (xs @ [e]) = ns_view s obj xs @ [(n, v)]"
      using NameServer_insert_growing [OF G1 H V1 room f1] by auto
    have "NameServer_add E C obj n v (of_nat (length v)) s = Ok (e, s')"
      using c(1) False s'(1) by (simp add: NameServer_add_def if_not_P)
    then show ?thesis using s'(2,3)
      by (intro exI [of _ e] exI [of _ s'] exI [of _ "if e = NULL then xs else xs @ [e]"]) (simp split: if_splits)
  qed
qed


section \<open>Removing from a growing table\<close>

text \<open>The releases of one entry's blocks, as removal and finalization make them.\<close>

definition ns_release :: "ptr \<Rightarrow> ptr \<Rightarrow> ns_state \<Rightarrow> ns_state" where
  "ns_release obj e s =
     (let o1 = nv_obj s obj; heap = no_tableHeap o1; t = nv_entry s e;
          s2 = (if no_maxValueLen o1 \<noteq> sizeof_UInt32
                then ns_free heap (te_value t) (no_maxValueLen o1) s else s);
          s3 = ns_free heap (te_name t) (of_nat (length (nv_str s2 (te_name t)) + 1)) s2 in
      ns_free heap e sizeof_TableEntry s3)"

lemma ns_release_simps [simp]:
  "nv_list (ns_release obj e s) = nv_list s" "nv_entry (ns_release obj e s) = nv_entry s"
  "nv_str (ns_release obj e s) = nv_str s" "nv_buf (ns_release obj e s) = nv_buf s"
  "nv_obj (ns_release obj e s) = nv_obj s" "nv_size (ns_release obj e s) = nv_size s"
  by (simp_all add: ns_release_def Let_def)

lemma ns_release_held:
  assumes "ns_blocks s obj e \<subseteq># ns_held (nv_calls s)" and "ns_frees_held (nv_calls s)"
  shows "ns_held (nv_calls (ns_release obj e s)) = ns_held (nv_calls s) - ns_blocks s obj e"
    and "ns_frees_held (nv_calls (ns_release obj e s))"
proof -
  obtain R where R: "ns_held (nv_calls s) = ns_blocks s obj e + R"
    using assms(1) by (auto simp: subset_mset.le_iff_add)
  then show "ns_held (nv_calls (ns_release obj e s)) = ns_held (nv_calls s) - ns_blocks s obj e"
    by (cases "ns_words s obj") (simp_all add: ns_release_def ns_blocks_def ns_name_def Let_def)
  show "ns_frees_held (nv_calls (ns_release obj e s))"
    using R assms(2)
    by (cases "ns_words s obj") (simp_all add: ns_release_def ns_blocks_def ns_name_def Let_def)
qed

lemma NameServer_removeLocal_growing:
  assumes G: "ns_growing E obj base s (us @ e # vs)"
  shows "\<exists>s'. NameServer_removeLocal E obj e s = Ok s' \<and> nv_obj s' = nv_obj s \<and>
    ns_growing E obj base s' (us @ vs) \<and> ns_view s' obj (us @ vs) = ns_view s obj (us @ vs)"
proof -
  let ?N = "ne_nameList E obj" and ?F = "ne_freeList E obj"
  have T: "ns_tab E obj s (us @ e # vs) []" and D: "no_numDynamic (nv_obj s obj) = NameServer_ALLOWGROWTH"
    using G by (simp_all add: ns_growing_def)
  have dis: "set (?N # us @ e # vs) \<inter> set (?F # []) = {}" using T by (simp add: ns_tab_def)
  obtain l where l: "List_remove e (nv_list s) = Ok l" "list_ring ?N l (us @ vs)"
      "list_frame {left_of ?N us, right_of ?N vs} (nv_list s) l"
    using List_remove_member [OF ns_tabD(1) [OF T]] by blast
  have F: "list_ring ?F l []"
    by (rule list_ring_frame [OF l(3) ns_tabD(2) [OF T]])
      (use dis neighbour_mem(1) [of ?N us] neighbour_mem(2) [of ?N vs] in auto)
  let ?s1 = "ns_log NG_leave (ns_log NG_enter (s\<lparr>nv_list := l\<rparr>))"
  have T1: "ns_tab E obj ?s1 (us @ vs) []"
    using T l(2) F by (auto simp: ns_tab_def inj_on_def)
  have B: "ns_blocks ?s1 obj d = ns_blocks s obj d" for d by (simp add: ns_blocks_def Let_def)
  have held: "ns_held (nv_calls ?s1) = (base + (\<Sum>d\<in>#mset (us @ vs). ns_blocks s obj d)) + ns_blocks s obj e"
    and frees: "ns_frees_held (nv_calls ?s1)"
    using G by (simp_all add: ns_growing_def ac_simps)
  have R: "ns_held (nv_calls (ns_release obj e ?s1)) = base + (\<Sum>d\<in>#mset (us @ vs). ns_blocks s obj d)"
    "ns_frees_held (nv_calls (ns_release obj e ?s1))"
    using ns_release_held [of ?s1 obj e] held frees B by simp_all
  have "NameServer_removeLocal E obj e s = Ok (ns_release obj e ?s1)"
    using l(1) D by (simp add: NameServer_removeLocal_def ns_release_def ns_log_list Let_def)
  moreover have "ns_tab E obj (ns_release obj e ?s1) (us @ vs) []"
    by (rule ns_tab_agree [OF T1]) simp_all
  moreover have "(\<Sum>d\<in>#mset (us @ vs). ns_blocks (ns_release obj e ?s1) obj d) =
      (\<Sum>d\<in>#mset (us @ vs). ns_blocks s obj d)"
    by (rule ns_view_agree(2)) simp_all
  ultimately have "ns_growing E obj base (ns_release obj e ?s1) (us @ vs)"
    using G R by (simp add: ns_growing_def)
  moreover have "ns_view (ns_release obj e ?s1) obj (us @ vs) = ns_view s obj (us @ vs)"
    by (rule ns_view_agree(1)) simp_all
  ultimately show ?thesis
    using \<open>NameServer_removeLocal E obj e s = Ok (ns_release obj e ?s1)\<close> by simp
qed

lemma NameServer_remove_growing:
  assumes G: "ns_growing E obj base s xs"
  shows "\<exists>st xs' s'. NameServer_remove E obj n s = Ok (st, s') \<and> nv_obj s' = nv_obj s \<and>
    ns_growing E obj base s' xs' \<and> length xs' \<le> length xs \<and>
    ns_view s' obj xs' = del_name n (ns_view s obj xs)"
proof -
  have T: "ns_tab E obj s xs []" and k: "no_numStatic (nv_obj s obj) = 0" using G by (simp_all add: ns_growing_def)
  have nul: "NULL \<notin> set xs" using ns_tabD(4) [OF T] .
  let ?e = "first_that (\<lambda>e. ns_name s e = n) xs"
  have find: "ns_find (\<lambda>e. nv_str s (te_name (nv_entry s e)) = n) (ne_nameList E obj) (nv_list s) (ne_fuel E) NULL = Ok ?e"
    by (rule ns_find_name [OF T])
  have quiet: "ns_growing E obj base (ns_log c s) xs" if "c \<in> {NG_enter, NG_leave}" "ns_growing E obj base s xs" for s c xs
    by (rule ns_growing_agree [OF that(2)]) (use that in \<open>auto simp: ns_growing_def\<close>)
  show ?thesis
  proof (cases "?e = NULL")
    case True
    then have "NameServer_remove E obj n s = Ok (NameServer_E_INVALIDARG, ns_log NG_leave (ns_log NG_enter s))"
      using find k by (simp add: NameServer_remove_def)
    moreover have "ns_growing E obj base (ns_log NG_leave (ns_log NG_enter s)) xs" using quiet G by simp
    moreover have "del_name n (ns_view s obj xs) = ns_view s obj xs"
      using True ns_view_lookup(1) [OF nul, of s n obj] del_name_absent by metis
    ultimately show ?thesis
      by (intro exI [of _ NameServer_E_INVALIDARG] exI [of _ xs] exI [of _ "ns_log NG_leave (ns_log NG_enter s)"]) simp
  next
    case False
    then obtain us vs where sp: "xs = us @ ?e # vs" "ns_name s ?e = n" "\<forall>x \<in> set us. ns_name s x \<noteq> n"
      using first_that_split(2) [OF nul, of "\<lambda>e. ns_name s e = n"] by blast
    have "ns_growing E obj base (ns_log NG_enter s) (us @ ?e # vs)" using quiet G sp(1) by simp
    then obtain s' where s': "NameServer_removeLocal E obj ?e (ns_log NG_enter s) = Ok s'" "nv_obj s' = nv_obj s"
        "ns_growing E obj base s' (us @ vs)" "ns_view s' obj (us @ vs) = ns_view s obj (us @ vs)"
      using NameServer_removeLocal_growing by fastforce
    have "NameServer_remove E obj n s = Ok (NameServer_S_SUCCESS, ns_log NG_leave s')"
      using find k False s'(1) by (simp add: NameServer_remove_def)
    moreover have "ns_view s obj (us @ vs) = del_name n (ns_view s obj xs)"
      using ns_view_split [of 0 xs us ?e vs s n obj] sp by simp
    moreover have "ns_growing E obj base (ns_log NG_leave s') (us @ vs)" using quiet s'(3) by simp
    moreover have "length (us @ vs) \<le> length xs" using arg_cong [OF sp(1), of length] by simp
    ultimately show ?thesis using s'(2,4)
      by (intro exI [of _ NameServer_S_SUCCESS] exI [of _ "us @ vs"] exI [of _ "ns_log NG_leave s'"]) simp
  qed
qed

section \<open>Deleting a growing table\<close>


lemma NameServer_release_loop_ring:
  assumes "list_ring (ne_nameList E obj) (nv_list s) (us @ vs)" and "length vs \<le> fuel"
    and "ns_held (nv_calls s) = base + (\<Sum>e\<in>#mset vs. ns_blocks s obj e)" and "ns_frees_held (nv_calls s)"
  shows "\<exists>s'. NameServer_release_loop E obj fuel (list_pos (ne_nameList E obj) (right_of (ne_nameList E obj) vs)) s =
      Ok s' \<and> ns_held (nv_calls s') = base \<and> ns_frees_held (nv_calls s')"
  using assms
proof (induction vs arbitrary: us fuel s)
  case Nil
  then show ?case by (subst NameServer_release_loop.simps) simp
next
  case (Cons v vs)
  let ?N = "ne_nameList E obj"
  note R = Cons.prems(1)
  have v: "list_pos ?N v = v" "v \<noteq> NULL"
    using list_pos_mem [OF R] list_ring_member(6) [OF R] by simp_all
  have R2: "list_ring ?N (nv_list s) ((us @ [v]) @ vs)" using R by simp
  have step: "List_next ?N v (nv_list s) = Ok (list_pos ?N (right_of ?N vs))"
    using List_next_ring [OF R2] v by simp
  obtain f where f: "fuel = Suc f" "length vs \<le> f" using Cons.prems(2) by (cases fuel) auto
  let ?t = "ns_release obj v s"
  have B: "ns_blocks ?t obj d = ns_blocks s obj d" for d by (simp add: ns_blocks_def ns_name_def Let_def)
  have "ns_held (nv_calls ?t) = base + (\<Sum>e\<in>#mset vs. ns_blocks ?t obj e)" "ns_frees_held (nv_calls ?t)"
    using ns_release_held [of s obj v] Cons.prems(3,4) by (simp_all add: B)
  from Cons.IH [where us = "us @ [v]" and s = ?t and fuel = f, OF _ f(2) this] R2
  obtain s' where "NameServer_release_loop E obj f (list_pos ?N (right_of ?N vs)) ?t = Ok s'"
      "ns_held (nv_calls s') = base" "ns_frees_held (nv_calls s')" by auto
  moreover have "NameServer_release_loop E obj fuel v s =
      NameServer_release_loop E obj f (list_pos ?N (right_of ?N vs)) ?t"
    using v step f by (subst NameServer_release_loop.simps) (simp add: ns_release_def Let_def)
  ultimately show ?case using v by simp
qed

lemma NameServer_finalize_growing:
  assumes G: "ns_growing E obj base s xs"
  shows "\<exists>s'. NameServer_Instance_finalize E obj s = Ok s' \<and> ns_held (nv_calls s') = base \<and>
    ns_frees_held (nv_calls s')"
proof -
  let ?N = "ne_nameList E obj"
  have T: "ns_tab E obj s xs []" and D: "no_numDynamic (nv_obj s obj) = NameServer_ALLOWGROWTH"
    and held: "ns_held (nv_calls s) = base + (\<Sum>e\<in>#mset xs. ns_blocks s obj e)" "ns_frees_held (nv_calls s)"
    using G by (simp_all add: ns_growing_def)
  have R: "list_ring ?N (nv_list s) ([] @ xs)" using ns_tabD(1) [OF T] by simp
  have first: "List_next ?N NULL (nv_list s) = Ok (list_pos ?N (right_of ?N xs))"
    using List_next_ring [OF R] by simp
  from NameServer_release_loop_ring [OF R ns_tabD(3) [OF T] held] first D
  show ?thesis by (simp add: NameServer_Instance_finalize_def)
qed

text \<open>A new instance that may grow is an empty table and takes nothing from the heap.\<close>

lemma ns_Instance_init_growing:
  assumes grow: "np_maxRuntimeEntries p = NameServer_ALLOWGROWTH"
    and heads: "ne_nameList E obj \<noteq> NULL" "ne_freeList E obj \<noteq> NULL" "ne_nameList E obj \<noteq> ne_freeList E obj"
    and frees: "ns_frees_held (nv_calls s)"
  shows "\<exists>s'. NameServer_Instance_init E obj n p s = Ok (0, s') \<and>
    ns_growing E obj (ns_held (nv_calls s)) s' [] \<and> ns_view s' obj [] = [] \<and>
    no_maxNameLen (nv_obj s' obj) = np_maxNameLen p \<and>
    no_maxValueLen (nv_obj s' obj) = (if np_maxValueLen p < sizeof_UInt32 then sizeof_UInt32 else np_maxValueLen p) \<and>
    no_checkExisting (nv_obj s' obj) = np_checkExisting p"
proof -
  obtain l1 where l1: "List_Instance_init (ne_freeList E obj) (nv_list s) = Ok l1" "list_ring (ne_freeList E obj) l1 []"
    using List_Instance_init_ring [OF heads(2)] by blast
  obtain l2 where l2: "List_Instance_init (ne_nameList E obj) l1 = Ok l2" "list_ring (ne_nameList E obj) l2 []"
      "list_frame {ne_nameList E obj} l1 l2"
    using List_Instance_init_ring [OF heads(1)] by blast
  have "list_ring (ne_freeList E obj) l2 []"
    by (rule list_ring_frame [OF l2(3) l1(2)]) (use heads(3) in simp)
  then show ?thesis using grow heads(3) frees l1(1) l2(1,2)
    by (simp add: NameServer_Instance_init_def ns_growing_def ns_tab_def ns_view_def)
qed

text \<open>
  The life of a growing instance: any additions, look-ups and removals, then its finalization.
\<close>

definition ns_life :: "ns_env \<Rightarrow> ns_config \<Rightarrow> ptr \<Rightarrow> u32 \<Rightarrow> u8 list name_op \<Rightarrow> ns_state \<Rightarrow>
    (u8 list name_res \<times> ns_state) res" where
  "ns_life E C obj valueLen op s = (case op of
     Register n v \<Rightarrow> res_bind (ns_op_add E C obj n v s) (\<lambda>(b, s1). Ok (Registered b, s1))
   | Lookup n \<Rightarrow> res_bind (ns_op_get E C obj valueLen n s) (\<lambda>(x, s1). Ok (Found x, s1))
   | Unregister n \<Rightarrow> res_bind (ns_op_remove E obj n s) (\<lambda>(b, s1). Ok (Unregistered b, s1)))"

definition ns_op_fit :: "u32 \<Rightarrow> u32 \<Rightarrow> u8 list name_op \<Rightarrow> bool" where
  "ns_op_fit nameLen valueLen op \<longleftrightarrow> (case op of Register n v \<Rightarrow> ns_fit nameLen valueLen n v | _ \<Rightarrow> True)"

lemma ns_life_name_step: "name_table.name_step (ns_op_add E C obj) (ns_op_get E C obj valueLen) (ns_op_remove E obj) =
    ns_life E C obj valueLen"
  by (simp add: fun_eq_iff ns.name_step_def ns_life_def)

lemma ns_life_allowed:
  assumes "\<forall>op \<in> set ops. ns_op_fit nameLen valueLen op"
  shows "allowed_run (name_table.name_allowed (ns_fit nameLen valueLen)) g ops t"
  using assms
proof (induction ops arbitrary: t)
  case (Cons op ops)
  then have "name_table.name_allowed (ns_fit nameLen valueLen) op t" for t
    by (cases op) (simp_all add: ns_op_fit_def ns.name_allowed.simps)
  then show ?case using Cons by (simp add: split_beta Let_def)
qed simp

text \<open>On a table of a fixed size, any such operations answer as the specification does.\<close>

lemma ns_life_refines:
  assumes "ns_holds E obj nameLen valueLen chk k c s t" and "\<forall>op \<in> set ops. ns_op_fit nameLen valueLen op"
  shows "\<exists>s'. run_ops (ns_life E C obj valueLen) ops s = Ok (fst (spec_run (name_spec (Some c) chk k) ops t), s') \<and>
    ns_holds E obj nameLen valueLen chk k c s' (snd (spec_run (name_spec (Some c) chk k) ops t))"
  using ns.name_run_refines [OF assms(1) ns_life_allowed [OF assms(2)], of C]
  by (simp add: ns_life_name_step)

lemma ns_life_step:
  assumes G: "ns_growing E obj base s xs" and H: "ns_heaps_ok E obj" and V: "ns_values_ok E s obj"
    and room: "Suc (length xs) \<le> ne_fuel E"
    and f: "ns_op_fit (no_maxNameLen (nv_obj s obj)) (no_maxValueLen (nv_obj s obj)) op"
  shows "\<exists>r s' xs'. ns_life E C obj (no_maxValueLen (nv_obj s obj)) op s = Ok (r, s') \<and> nv_obj s' = nv_obj s \<and>
    ns_growing E obj base s' xs' \<and> length xs' \<le> Suc (length xs)"
proof (cases op)
  case (Register n v)
  then have f': "ns_fit (no_maxNameLen (nv_obj s obj)) (no_maxValueLen (nv_obj s obj)) n v"
    using f by (simp add: ns_op_fit_def)
  obtain e s' xs' where "NameServer_add E C obj n v (of_nat (length v)) s = Ok (e, s')" "nv_obj s' = nv_obj s"
      "ns_growing E obj base s' xs'" "length xs' \<le> Suc (length xs)"
    using NameServer_add_growing [OF G H V room f', of C] by blast
  then show ?thesis using Register by (auto simp: ns_life_def ns_op_add_def)
next
  case (Lookup n)
  have T: "ns_tab E obj s xs []" using G by (simp add: ns_growing_def)
  obtain st len' s' cs where g: "NameServer_getLocal E C obj n (no_maxValueLen (nv_obj s obj)) s =
      Ok ((st, map_of (ns_view s obj xs) n, len'), s')" "s' = s\<lparr>nv_calls := cs @ nv_calls s\<rparr>"
      "set cs \<subseteq> {NG_enter, NG_leave, NE_raise NS_E_entryExists}"
    using NameServer_getLocal_tab [OF T order_refl, of C n] by blast
  have "ns_growing E obj base s' xs"
    unfolding g(2) using ns_held_quiet [OF g(3), of "nv_calls s"] G
    by (intro ns_growing_calls [OF G]) (simp_all add: ns_growing_def)
  then show ?thesis using Lookup g(1,2) by (auto simp: ns_life_def ns_op_get_def)
next
  case (Unregister n)
  obtain st xs' s' where "NameServer_remove E obj n s = Ok (st, s')" "nv_obj s' = nv_obj s"
      "ns_growing E obj base s' xs'" "length xs' \<le> length xs"
    using NameServer_remove_growing [OF G, of n] by blast
  then show ?thesis using Unregister le_SucI by (auto simp: ns_life_def ns_op_remove_def)
qed

lemma ns_life_run:
  assumes "ns_growing E obj base s xs" and H: "ns_heaps_ok E obj" and V: "ns_values_ok E s obj"
    and "length xs + length ops \<le> ne_fuel E"
    and "\<forall>op \<in> set ops. ns_op_fit (no_maxNameLen (nv_obj s obj)) (no_maxValueLen (nv_obj s obj)) op"
  shows "\<exists>rs s' xs'. run_ops (ns_life E C obj (no_maxValueLen (nv_obj s obj))) ops s = Ok (rs, s') \<and>
    ns_growing E obj base s' xs'"
  using assms(1,3-5)
proof (induction ops arbitrary: s xs)
  case Nil
  then show ?case by auto
next
  case (Cons op ops)
  obtain r s1 xs1 where s1: "ns_life E C obj (no_maxValueLen (nv_obj s obj)) op s = Ok (r, s1)" "nv_obj s1 = nv_obj s"
      "ns_growing E obj base s1 xs1" "length xs1 \<le> Suc (length xs)"
    using ns_life_step [OF Cons.prems(1) H Cons.prems(2), of op C] Cons.prems(3,4) by auto
  have "ns_values_ok E s1 obj" using Cons.prems(2) s1(2) by (simp add: ns_values_ok_def)
  moreover have "length xs1 + length ops \<le> ne_fuel E" using s1(4) Cons.prems(3) by simp
  ultimately obtain rs s' xs' where "run_ops (ns_life E C obj (no_maxValueLen (nv_obj s obj))) ops s1 = Ok (rs, s')"
      "ns_growing E obj base s' xs'"
    using Cons.IH [OF s1(3)] Cons.prems(4) s1(2) by auto
  then show ?case using s1(1) by auto
qed

theorem NameServer_gives_back:
  assumes grow: "np_maxRuntimeEntries p = NameServer_ALLOWGROWTH"
    and heads: "ne_nameList E obj \<noteq> NULL" "ne_freeList E obj \<noteq> NULL" "ne_nameList E obj \<noteq> ne_freeList E obj"
    and frees: "ns_frees_held (nv_calls s)" and H: "ns_heaps_ok E obj"
    and vals: "np_maxValueLen p \<le> sizeof_UInt32 \<or> (\<forall>cs h n. ne_alloc E cs h n \<noteq> NULL)"
    and fuel: "length ops \<le> ne_fuel E"
    and valueLen: "valueLen = (if np_maxValueLen p < sizeof_UInt32 then sizeof_UInt32 else np_maxValueLen p)"
    and fit: "\<forall>op \<in> set ops. ns_op_fit (np_maxNameLen p) valueLen op"
  shows "\<exists>s0 rs s1 s2. NameServer_Instance_init E obj n p s = Ok (0, s0) \<and>
    run_ops (ns_life E C obj valueLen) ops s0 = Ok (rs, s1) \<and>
    NameServer_Instance_finalize E obj s1 = Ok s2 \<and>
    ns_held (nv_calls s2) = ns_held (nv_calls s) \<and> ns_frees_held (nv_calls s2)"
proof -
  obtain s0 where s0: "NameServer_Instance_init E obj n p s = Ok (0, s0)"
      "ns_growing E obj (ns_held (nv_calls s)) s0 []" "no_maxNameLen (nv_obj s0 obj) = np_maxNameLen p"
      "no_maxValueLen (nv_obj s0 obj) = valueLen"
    using ns_Instance_init_growing [OF grow heads frees] valueLen by blast
  have "ns_values_ok E s0 obj"
    using vals s0(4) valueLen by (auto simp: ns_values_ok_def)
  then obtain rs s1 xs where s1: "run_ops (ns_life E C obj valueLen) ops s0 = Ok (rs, s1)"
      "ns_growing E obj (ns_held (nv_calls s)) s1 xs"
    using ns_life_run [OF s0(2) H, of ops C] s0(3,4) fuel fit by auto
  then show ?thesis using s0(1) NameServer_finalize_growing [OF s1(2)] by auto
qed


section \<open>Creating a table of a fixed size\<close>

text \<open>
  The parts of a table of \<open>d\<close> entries: the entries, their names and their values, in blocks
  at \<open>t\<close>, \<open>n\<close> and \<open>v\<close>. The blocks are apart and do not wrap around.
\<close>

definition ns_ent :: "ptr \<Rightarrow> nat \<Rightarrow> ptr" where
  "ns_ent t i = t + of_nat i * sizeof_TableEntry"

definition ns_part :: "ptr \<Rightarrow> u32 \<Rightarrow> nat \<Rightarrow> ptr" where
  "ns_part b len i = b + of_nat i * len"

definition ns_layout :: "ns_env \<Rightarrow> ptr \<Rightarrow> ptr \<Rightarrow> ptr \<Rightarrow> ptr \<Rightarrow> u32 \<Rightarrow> u32 \<Rightarrow> nat \<Rightarrow> bool" where
  "ns_layout E obj t n v nameLen valueLen d \<longleftrightarrow>
     distinct (map (ns_ent t) [0..<d]) \<and>
     {NULL, ne_nameList E obj, ne_freeList E obj} \<inter> set (map (ns_ent t) [0..<d]) = {} \<and>
     distinct (map (ns_part n nameLen) [0..<d] @
       (if valueLen = sizeof_UInt32 then [] else map (ns_part v valueLen) [0..<d]))"

lemma ns_layoutD:
  assumes "ns_layout E obj t n v nameLen valueLen d" and "i < d" and "j < d"
  shows "ns_ent t i = ns_ent t j \<longleftrightarrow> i = j"
    and "ns_ent t i \<noteq> NULL" and "ns_ent t i \<noteq> ne_nameList E obj" and "ns_ent t i \<noteq> ne_freeList E obj"
    and "ns_part n nameLen i = ns_part n nameLen j \<longleftrightarrow> i = j"
    and "valueLen \<noteq> sizeof_UInt32 \<Longrightarrow> ns_part v valueLen i = ns_part v valueLen j \<longleftrightarrow> i = j"
    and "valueLen \<noteq> sizeof_UInt32 \<Longrightarrow> ns_part n nameLen i \<noteq> ns_part v valueLen j"
proof -
  have I: "ns_ent t i \<in> set (map (ns_ent t) [0..<d])" "ns_part n nameLen i \<in> set (map (ns_part n nameLen) [0..<d])"
    "ns_part v valueLen j \<in> set (map (ns_part v valueLen) [0..<d])"
    using assms(2,3) by simp_all
  show "ns_ent t i \<noteq> NULL" and "ns_ent t i \<noteq> ne_nameList E obj" and "ns_ent t i \<noteq> ne_freeList E obj"
    using I(1) assms(1) unfolding ns_layout_def by blast+
  show "ns_ent t i = ns_ent t j \<longleftrightarrow> i = j" and "ns_part n nameLen i = ns_part n nameLen j \<longleftrightarrow> i = j"
    and "valueLen \<noteq> sizeof_UInt32 \<Longrightarrow> ns_part v valueLen i = ns_part v valueLen j \<longleftrightarrow> i = j"
    using assms by (auto simp: ns_layout_def distinct_map inj_on_eq_iff)
  show "ns_part n nameLen i \<noteq> ns_part v valueLen j" if "valueLen \<noteq> sizeof_UInt32"
  proof -
    have "set (map (ns_part n nameLen) [0..<d]) \<inter> set (map (ns_part v valueLen) [0..<d]) = {}"
      using assms(1) that by (simp add: ns_layout_def)
    then show ?thesis using I(2,3) by (metis disjoint_iff)
  qed
qed

text \<open>After \<open>i\<close> rounds of \<open>postInit\<close>.\<close>

definition ns_laid :: "ns_env \<Rightarrow> ptr \<Rightarrow> NameServer_Object \<Rightarrow> nat \<Rightarrow> ns_state \<Rightarrow> bool" where
  "ns_laid E obj O1 i s \<longleftrightarrow>
     nv_obj s obj = O1 \<and> list_ring (ne_nameList E obj) (nv_list s) [] \<and>
     list_ring (ne_freeList E obj) (nv_list s) (map (ns_ent (no_table O1)) [0..<i]) \<and>
     (\<forall>j<i. te_name (nv_entry s (ns_ent (no_table O1) j)) = ns_part (no_names O1) (no_maxNameLen O1) j \<and>
        nv_size s (ns_part (no_names O1) (no_maxNameLen O1) j) = unat (no_maxNameLen O1) \<and>
        (no_maxValueLen O1 \<noteq> sizeof_UInt32 \<longrightarrow>
           te_value (nv_entry s (ns_ent (no_table O1) j)) = ns_part (no_values O1) (no_maxValueLen O1) j \<and>
           nv_size s (ns_part (no_values O1) (no_maxValueLen O1) j) = unat (no_maxValueLen O1)))"

lemma ns_part_size: "(i::nat) < d \<Longrightarrow> d * len \<le> all \<Longrightarrow> min len (all - i * len) = len"
proof -
  assume "i < d" "d * len \<le> all"
  then have "Suc i * len \<le> all" using mult_le_mono1 [of "Suc i" d len] by linarith
  then show ?thesis by simp
qed

lemma NameServer_postInit_loop_laid:
  assumes lay: "ns_layout E obj (no_table O1) (no_names O1) (no_values O1) (no_maxNameLen O1) (no_maxValueLen O1) d"
    and O1: "no_numStatic O1 = 0" "sizeof_UInt32 \<le> no_maxValueLen O1"
    and sizes: "d * 20 \<le> sizes (no_table O1)" "d * unat (no_maxNameLen O1) \<le> sizes (no_names O1)"
      "no_maxValueLen O1 \<noteq> sizeof_UInt32 \<Longrightarrow> d * unat (no_maxValueLen O1) \<le> sizes (no_values O1)"
    and ne: "ne_nameList E obj \<noteq> ne_freeList E obj"
    and "i + m = d" and "ns_laid E obj O1 i s"
  shows "\<exists>s'. NameServer_postInit_loop E obj sizes m i s = Ok s' \<and> ns_laid E obj O1 d s'"
  using assms(8-)
proof (induction m arbitrary: i s)
  case 0
  then show ?case by simp
next
  case (Suc m)
  let ?N = "ne_nameList E obj" and ?F = "ne_freeList E obj"
  let ?ent = "ns_ent (no_table O1)" and ?nm = "ns_part (no_names O1) (no_maxNameLen O1)"
    and ?vl = "ns_part (no_values O1) (no_maxValueLen O1)"
  have i: "i < d" using Suc.prems(1) by simp
  note L = ns_layoutD [OF lay i]
  have old: "nv_obj s obj = O1" "list_ring ?N (nv_list s) []" "list_ring ?F (nv_list s) (map ?ent [0..<i])"
    using Suc.prems(2) by (simp_all add: ns_laid_def)
  have "?ent i \<notin> ?ent ` {0..<i}"
  proof
    assume "?ent i \<in> ?ent ` {0..<i}"
    then obtain j where "j < i" "?ent i = ?ent j" by auto
    then show False using L(1) [of j] i by simp
  qed
  then have new: "?ent i \<notin> set (?F # map ?ent [0..<i])" using L(4) [OF i] by simp
  obtain l where l: "List_put ?F (?ent i) (nv_list s) = Ok ((), l)" "list_ring ?F l (map ?ent [0..<i] @ [?ent i])"
      "list_frame {?F, ?ent i, left_of ?F (map ?ent [0..<i])} (nv_list s) l"
    using List_put_last [OF old(3) new L(2) [OF i]] by blast
  have "left_of ?F (map ?ent [0..<i]) \<noteq> ?N"
    using neighbour_mem(1) [of ?F "map ?ent [0..<i]"] ne ns_layoutD(3) [OF lay] i by auto
  then have N: "list_ring ?N l []"
    by (intro list_ring_frame [OF l(3) old(2)]) (use ne L(3) [OF i] in auto)
  have apart: "?ent j \<noteq> ?ent i" "?nm j \<noteq> ?nm i" if "j < i" for j
    using L(1,5) [of j] that i by auto
  have apartv: "?vl j \<noteq> ?vl i" "?vl j \<noteq> ?nm i" "?nm j \<noteq> ?vl i" "?vl i \<noteq> ?nm i"
    if "j < i" "no_maxValueLen O1 \<noteq> sizeof_UInt32" for j
    using L(6,7) [of j] ns_layoutD(7) [OF lay _ i that(2), of j] L(7) [OF i that(2)] that i by auto
  have self: "?nm i \<noteq> ?vl i" if "no_maxValueLen O1 \<noteq> sizeof_UInt32" using L(7) [OF i that] .
  have big: "\<not> sizes (no_table O1) < (i + 1) * 20" using sizes(1) i by simp
  have part: "min (unat (no_maxNameLen O1)) (sizes (no_names O1) - i * unat (no_maxNameLen O1)) = unat (no_maxNameLen O1)"
    by (rule ns_part_size [OF i sizes(2)])
  let ?s1 = "s\<lparr>nv_entry := (nv_entry s)(?ent i := (nv_entry s (?ent i))\<lparr>te_name := ?nm i\<rparr>),
      nv_size := (nv_size s)(?nm i := unat (no_maxNameLen O1))\<rparr>"
  show ?case
  proof (cases "no_maxValueLen O1 = sizeof_UInt32")
    case True
    let ?t = "?s1\<lparr>nv_list := l\<rparr>"
    have "ns_laid E obj O1 (Suc i) ?t"
      using Suc.prems(2) N l(2) True apart by (auto simp: ns_laid_def less_Suc_eq)
    from Suc.IH [OF _ this] Suc.prems(1) obtain s' where
      s': "NameServer_postInit_loop E obj sizes m (Suc i) ?t = Ok s'" "ns_laid E obj O1 d s'" by auto
    have "NameServer_postInit_loop E obj sizes (Suc m) i s = NameServer_postInit_loop E obj sizes m (Suc i) ?t"
      using old(1) O1(1) True l(1) big part
      by (simp add: Let_def ns_ent_def ns_part_def ns_on_list_def ns_upd_entry_def)
    then show ?thesis using s' by simp
  next
    case False
    then have gt: "sizeof_UInt32 < no_maxValueLen O1" using O1(2) by simp
    have partv: "min (unat (no_maxValueLen O1)) (sizes (no_values O1) - i * unat (no_maxValueLen O1)) = unat (no_maxValueLen O1)"
      by (rule ns_part_size [OF i sizes(3) [OF False]])
    let ?t = "s\<lparr>nv_entry := (nv_entry s)(?ent i := (nv_entry s (?ent i))\<lparr>te_name := ?nm i, te_value := ?vl i,
          te_len := no_maxValueLen O1\<rparr>),
        nv_size := (nv_size s)(?nm i := unat (no_maxNameLen O1), ?vl i := unat (no_maxValueLen O1)), nv_list := l\<rparr>"
    have "ns_laid E obj O1 (Suc i) ?t"
      using Suc.prems(2) N l(2) False apart apartv self by (auto simp: ns_laid_def less_Suc_eq)
    from Suc.IH [OF _ this] Suc.prems(1) obtain s' where
      s': "NameServer_postInit_loop E obj sizes m (Suc i) ?t = Ok s'" "ns_laid E obj O1 d s'" by auto
    have "NameServer_postInit_loop E obj sizes (Suc m) i s = NameServer_postInit_loop E obj sizes m (Suc i) ?t"
      using old(1) O1(1) gt l(1) big part partv
      by (simp add: Let_def ns_ent_def ns_part_def ns_on_list_def ns_upd_entry_def)
    then show ?thesis using s' by simp
  qed
qed


lemma ns_laid_holds:
  assumes "ns_laid E obj O1 d s" and "no_numStatic O1 = 0" and "no_numDynamic O1 \<noteq> NameServer_ALLOWGROWTH"
    and "ns_layout E obj (no_table O1) (no_names O1) (no_values O1) (no_maxNameLen O1) (no_maxValueLen O1) d"
    and "d \<le> ne_fuel E" and "ne_nameList E obj \<noteq> ne_freeList E obj"
  shows "ns_holds E obj (no_maxNameLen O1) (no_maxValueLen O1) (no_checkExisting O1) 0 d s []"
proof -
  let ?ent = "ns_ent (no_table O1)"
  note L = ns_layoutD [OF assms(4)]
  have laid: "nv_obj s obj = O1" "list_ring (ne_nameList E obj) (nv_list s) []"
    "list_ring (ne_freeList E obj) (nv_list s) (map ?ent [0..<d])"
    using assms(1) by (simp_all add: ns_laid_def)
  have ent: "te_name (nv_entry s (?ent j)) = ns_part (no_names O1) (no_maxNameLen O1) j"
    "nv_size s (ns_part (no_names O1) (no_maxNameLen O1) j) = unat (no_maxNameLen O1)"
    "no_maxValueLen O1 \<noteq> sizeof_UInt32 \<Longrightarrow>
       te_value (nv_entry s (?ent j)) = ns_part (no_values O1) (no_maxValueLen O1) j \<and>
       nv_size s (ns_part (no_values O1) (no_maxValueLen O1) j) = unat (no_maxValueLen O1)" if "j < d" for j
    using assms(1) that by (simp_all add: ns_laid_def)
  have "inj_on (\<lambda>e. te_name (nv_entry s e)) (?ent ` {0..<d})"
    using ent(1) L(1,5) by (intro inj_onI) force
  moreover have "inj_on (\<lambda>e. te_value (nv_entry s e)) (?ent ` {0..<d})" if "no_maxValueLen O1 \<noteq> sizeof_UInt32"
    using ent(3) L(1) L(6) [OF _ _ that] that by (intro inj_onI) force
  moreover have "ne_nameList E obj \<notin> ?ent ` {0..<d}" using L(3) by (metis atLeastLessThan_iff imageE)
  ultimately have "ns_tab E obj s [] (map ?ent [0..<d])"
    using laid assms(5,6) by (simp add: ns_tab_def)
  moreover have "ns_slot s obj (?ent j)" if "j < d" for j
    using ent [OF that] laid(1) by (simp add: ns_slot_def)
  ultimately have "ns_fixed E obj s [] (map ?ent [0..<d])"
    using assms(2,3) laid(1) by (simp add: ns_fixed_def)
  then show ?thesis
    using laid(1) assms(2) unfolding ns_holds_def
    by (intro conjI exI [of _ "[]"] exI [of _ "map ?ent [0..<d]"]) (simp_all add: ns_view_def)
qed

text \<open>The sizes of the three blocks are those asked for, when none of the products wraps around.\<close>

lemma NameServer_Instance_init_fixed:
  fixes E p s
  assumes heap: "heap = (if np_tableHeap p = NULL then ne_objHeap E else np_tableHeap p)"
    and V: "valueLen = (if np_maxValueLen p < sizeof_UInt32 then sizeof_UInt32 else np_maxValueLen p)"
    and D: "dyn = np_maxRuntimeEntries p" "dyn \<noteq> NameServer_ALLOWGROWTH" "unat dyn \<le> ne_fuel E"
    and t: "t = ne_alloc E (nv_calls s) heap (sizeof_TableEntry * dyn)"
      "cs1 = NH_alloc heap (sizeof_TableEntry * dyn) t # nv_calls s"
    and v: "v = (if valueLen = sizeof_UInt32 then NULL else ne_alloc E cs1 heap (valueLen * dyn))"
      "cs2 = (if valueLen = sizeof_UInt32 then cs1 else NH_alloc heap (valueLen * dyn) v # cs1)"
    and n: "n = ne_alloc E cs2 heap (np_maxNameLen p * dyn)"
    and got: "t \<noteq> NULL" "n \<noteq> NULL" "t \<noteq> n" "valueLen \<noteq> sizeof_UInt32 \<Longrightarrow> v \<noteq> NULL \<and> v \<noteq> t \<and> v \<noteq> n"
    and lay: "ns_layout E obj t n v (np_maxNameLen p) valueLen (unat dyn)"
    and wrap: "unat dyn * 20 < 2 ^ 32" "unat dyn * unat (np_maxNameLen p) < 2 ^ 32" "unat dyn * unat valueLen < 2 ^ 32"
    and heads: "ne_nameList E obj \<noteq> NULL" "ne_freeList E obj \<noteq> NULL" "ne_nameList E obj \<noteq> ne_freeList E obj"
  shows "\<exists>s'. NameServer_Instance_init E obj name p s = Ok (0, s') \<and>
    ns_holds E obj (np_maxNameLen p) valueLen (np_checkExisting p) 0 (unat dyn) s' []"
proof -
  obtain l1 where l1: "List_Instance_init (ne_freeList E obj) (nv_list s) = Ok l1" "list_ring (ne_freeList E obj) l1 []"
    using List_Instance_init_ring [OF heads(2)] by blast
  obtain l2 where l2: "List_Instance_init (ne_nameList E obj) l1 = Ok l2" "list_ring (ne_nameList E obj) l2 []"
      "list_frame {ne_nameList E obj} l1 l2"
    using List_Instance_init_ring [OF heads(1)] by blast
  have free: "list_ring (ne_freeList E obj) l2 []"
    by (rule list_ring_frame [OF l2(3) l1(2)]) (use heads(3) in simp)
  let ?O = "\<lparr>no_name = Some name, no_maxNameLen = np_maxNameLen p, no_maxValueLen = valueLen, no_numStatic = 0,
    no_numDynamic = dyn, no_table = t, no_names = n, no_values = v, no_tableHeap = heap,
    no_checkExisting = np_checkExisting p, no_refCount = 1\<rparr>"
  have mult: "unat (sizeof_TableEntry * dyn) = unat dyn * 20"
    "unat (np_maxNameLen p * dyn) = unat dyn * unat (np_maxNameLen p)" "unat (valueLen * dyn) = unat dyn * unat valueLen"
    using wrap by (simp_all add: unat_word_ariths mult.commute)
  define size1 where "size1 = (nv_size s)(t := unat dyn * 20)"
  define size2 where "size2 = (if valueLen = sizeof_UInt32 then size1 else size1(v := unat dyn * unat valueLen))"
  define size3 where "size3 = size2(n := unat dyn * unat (np_maxNameLen p))"
  let ?s = "s\<lparr>nv_list := l2, nv_calls := NH_alloc heap (np_maxNameLen p * dyn) n # cs2,
    nv_size := size3, nv_obj := (nv_obj s)(obj := ?O)\<rparr>"
  have "sizeof_UInt32 \<le> valueLen" using V by (simp add: not_less)
  moreover have "ns_laid E obj ?O 0 ?s" using l2(2) free by (simp add: ns_laid_def)
  ultimately have "\<exists>s'. NameServer_postInit_loop E obj size3 (unat dyn) 0 ?s = Ok s' \<and> ns_laid E obj ?O (unat dyn) s'"
    using lay heads(3) got
    by (intro NameServer_postInit_loop_laid) (auto simp: size3_def size2_def size1_def)
  then obtain s' where s': "NameServer_postInit_loop E obj size3 (unat dyn) 0 ?s = Ok s'" "ns_laid E obj ?O (unat dyn) s'"
    by blast
  note folds = heap [symmetric] V [symmetric] D(1) [symmetric] t [symmetric] n [symmetric]
  have "NameServer_Instance_init E obj name p s = res_bind (NameServer_postInit E obj ?s) (\<lambda>s9. Ok (0, s9))"
  proof (cases "valueLen = sizeof_UInt32")
    case True
    then have "v = NULL" "cs2 = cs1" using v by simp_all
    moreover from this have "ne_alloc E cs1 heap (np_maxNameLen p * dyn) = n" using n by simp
    ultimately show ?thesis using True
      by (simp add: NameServer_Instance_init_def ns_alloc_def Let_def ns_upd_obj_def ns_log_def folds
          got(1,2) mult(1,2) l1(1) l2(1) D(2) size1_def size2_def size3_def)
  next
    case False
    then have "ne_alloc E cs1 heap (valueLen * dyn) = v" "NH_alloc heap (valueLen * dyn) v # cs1 = cs2"
      using v by simp_all
    then show ?thesis using False got(4)
      by (simp add: NameServer_Instance_init_def ns_alloc_def Let_def ns_upd_obj_def ns_log_def folds
          got(1,2) mult l1(1) l2(1) D(2) size1_def size2_def size3_def)
  qed
  then have "NameServer_Instance_init E obj name p s = Ok (0, s')"
    using s'(1) by (simp add: NameServer_postInit_def)
  moreover have "ns_holds E obj (np_maxNameLen p) valueLen (np_checkExisting p) 0 (unat dyn) s' []"
    using ns_laid_holds [OF s'(2)] D(2,3) lay heads(3) by simp
  ultimately show ?thesis by blast
qed


section \<open>Checking and adding are two steps\<close>

text \<open>
  \<open>NameServer_add\<close> looks for the name inside the gate and adds outside it. When two adders
  both look before either adds, both succeed.
\<close>

lemma NameServer_insert_holds:
  assumes H: "ns_holds E obj nameLen valueLen chk k c s t" and f: "ns_fit nameLen valueLen n v" and "length t < c"
  shows "\<exists>e s'. NameServer_add_insert E obj n v (of_nat (length v)) s = Ok (e, s') \<and> e \<noteq> NULL \<and>
    ns_holds E obj nameLen valueLen chk k c s' (t @ [(n, v)])"
proof -
  obtain xs ys where X: "ns_fixed E obj s xs ys" "t = ns_view s obj xs" "length xs + length ys = c"
    using H by (auto simp: ns_holds_def)
  then obtain y ys' where y: "ys = y # ys'" using assms(3) by (cases ys) (auto simp: ns_view_def)
  have f': "ns_fit (no_maxNameLen (nv_obj s obj)) (no_maxValueLen (nv_obj s obj)) n v"
    using H f by (simp add: ns_holds_def)
  have "y \<noteq> NULL" using ns_tabD(5) [of E obj s xs ys] X(1) y by (auto simp: ns_fixed_def)
  moreover obtain s' where s': "NameServer_add_insert E obj n v (of_nat (length v)) s = Ok (y, s')"
      "ns_fixed E obj s' (xs @ [y]) ys'" "ns_view s' obj (xs @ [y]) = t @ [(n, v)]" "nv_obj s' = nv_obj s"
    using NameServer_insert_fixed [OF X(1) [unfolded y] f'] X(2) by blast
  moreover have "length (xs @ [y]) + length ys' = c" using X(3) y by simp
  ultimately show ?thesis using H unfolding ns_holds_def by metis
qed

lemma NameServer_add_check_holds:
  assumes H: "ns_holds E obj nameLen valueLen chk k c s t" and f: "ns_fit nameLen valueLen n v" and "n \<notin> fst ` set t"
  shows "\<exists>s'. NameServer_add_check E C obj n (of_nat (length v)) s = Ok (True, s') \<and>
    ns_holds E obj nameLen valueLen chk k c s' t"
proof -
  obtain xs ys where X: "ns_fixed E obj s xs ys" "t = ns_view s obj xs" "length xs + length ys = c"
    using H by (auto simp: ns_holds_def)
  have T: "ns_tab E obj s xs ys" using X(1) by (simp add: ns_fixed_def)
  have f': "ns_fit (no_maxNameLen (nv_obj s obj)) (no_maxValueLen (nv_obj s obj)) n v"
    using H f by (simp add: ns_holds_def)
  obtain cs where "NameServer_add_check E C obj n (of_nat (length v)) s = Ok (True, s\<lparr>nv_calls := cs @ nv_calls s\<rparr>)"
    using NameServer_add_check_tab [OF T f', of C] assms(3) X(2) by auto
  moreover have "ns_holds E obj nameLen valueLen chk k c (s\<lparr>nv_calls := cs @ nv_calls s\<rparr>) t"
    using H by (simp add: ns_holds_def)
  ultimately show ?thesis by blast
qed

lemma NameServer_add_race:
  assumes H: "ns_holds E obj nameLen valueLen True k c s t" and "n \<notin> fst ` set t" and "length t + 2 \<le> c"
    and f: "ns_fit nameLen valueLen n v" "ns_fit nameLen valueLen n w"
  shows "\<exists>s1 s2 s3 s4 e1 e2.
    NameServer_add_check E C obj n (of_nat (length v)) s = Ok (True, s1) \<and>
    NameServer_add_check E C obj n (of_nat (length w)) s1 = Ok (True, s2) \<and>
    NameServer_add_insert E obj n v (of_nat (length v)) s2 = Ok (e1, s3) \<and> e1 \<noteq> NULL \<and>
    NameServer_add_insert E obj n w (of_nat (length w)) s3 = Ok (e2, s4) \<and> e2 \<noteq> NULL \<and>
    ns_holds E obj nameLen valueLen True k c s4 (t @ [(n, v), (n, w)])"
proof -
  obtain s1 where s1: "NameServer_add_check E C obj n (of_nat (length v)) s = Ok (True, s1)"
      "ns_holds E obj nameLen valueLen True k c s1 t"
    using NameServer_add_check_holds [OF H f(1) assms(2)] by blast
  obtain s2 where s2: "NameServer_add_check E C obj n (of_nat (length w)) s1 = Ok (True, s2)"
      "ns_holds E obj nameLen valueLen True k c s2 t"
    using NameServer_add_check_holds [OF s1(2) f(2) assms(2)] by blast
  obtain e1 s3 where s3: "NameServer_add_insert E obj n v (of_nat (length v)) s2 = Ok (e1, s3)" "e1 \<noteq> NULL"
      "ns_holds E obj nameLen valueLen True k c s3 (t @ [(n, v)])"
    using NameServer_insert_holds [OF s2(2) f(1)] assms(3) by auto
  obtain e2 s4 where s4: "NameServer_add_insert E obj n w (of_nat (length w)) s3 = Ok (e2, s4)" "e2 \<noteq> NULL"
      "ns_holds E obj nameLen valueLen True k c s4 ((t @ [(n, v)]) @ [(n, w)])"
    using NameServer_insert_holds [OF s3(3) f(2)] assms(3) by auto
  show ?thesis using s1(1) s2(1) s3(1,2) s4 by auto
qed

section \<open>Opening an instance again\<close>

text \<open>What a growing instance holds of its parameters.\<close>

lemma NameServer_Instance_init_heap:
  assumes "np_maxRuntimeEntries p = NameServer_ALLOWGROWTH"
    and "NameServer_Instance_init E obj name p s = Ok (st, s1)"
  shows "nv_obj s1 obj = \<lparr>no_name = Some name, no_maxNameLen = np_maxNameLen p,
      no_maxValueLen = (if np_maxValueLen p < sizeof_UInt32 then sizeof_UInt32 else np_maxValueLen p),
      no_numStatic = 0, no_numDynamic = NameServer_ALLOWGROWTH, no_table = NULL, no_names = NULL, no_values = NULL,
      no_tableHeap = (if np_tableHeap p = NULL then ne_objHeap E else np_tableHeap p),
      no_checkExisting = np_checkExisting p, no_refCount = 1\<rparr>"
    and "st = 0" and "nv_static s1 = nv_static s" and "nv_dynamic s1 = nv_dynamic s"
  using assms by (simp_all add: NameServer_Instance_init_def Let_def res_bind_eq_Ok) auto

text \<open>
  Created and created once more with the same parameters: one more reference exactly when the
  parameters name the heap (or the module has none of its own to choose) and ask for values of at
  least four bytes, so that the instance holds what was asked for.
\<close>

lemma NameServer_reopen:
  assumes c: "ns_create E name p s = Ok (obj, s1)" and "obj \<noteq> NULL"
    and grow: "np_maxRuntimeEntries p = NameServer_ALLOWGROWTH"
    and none: "ns_named s1 name (nv_static s) = NULL" "ns_named s1 name (nv_dynamic s @ [obj]) = obj"
  shows "\<exists>s2. NameServer_create E name (Some p) s1 = Ok (obj, s2) \<and>
    (if (np_tableHeap p \<noteq> NULL \<or> ne_objHeap E = NULL) \<and> sizeof_UInt32 \<le> np_maxValueLen p
     then no_refCount (nv_obj s2 obj) = 2 \<and> nv_calls s2 = NG_leave # NG_enter # nv_calls s1
     else no_refCount (nv_obj s2 obj) = 1 \<and>
       nv_calls s2 = NE_raise NS_E_paramMismatch # NG_leave # NG_enter # nv_calls s1)"
    and "NameServer_create E name None s1 = Err Bad_access"
proof -
  obtain st s0 where i: "NameServer_Instance_init E obj name p s = Ok (st, s0)"
      "s1 = s0\<lparr>nv_dynamic := nv_dynamic s0 @ [obj]\<rparr>"
    using c assms(2) by (auto simp: ns_create_def Let_def res_bind_eq_Ok split: if_splits)
  note I = NameServer_Instance_init_heap [OF grow i(1)]
  have h: "NameServer_getHandle name s1 = (obj, ns_log NG_leave (ns_log NG_enter s1))"
    using none I(3,4) assms(2) by (simp add: NameServer_getHandle_def i(2) ns_named_def)
  have o: "nv_obj s1 obj = nv_obj s0 obj" by (simp add: i(2))
  show "\<exists>s2. NameServer_create E name (Some p) s1 = Ok (obj, s2) \<and>
    (if (np_tableHeap p \<noteq> NULL \<or> ne_objHeap E = NULL) \<and> sizeof_UInt32 \<le> np_maxValueLen p
     then no_refCount (nv_obj s2 obj) = 2 \<and> nv_calls s2 = NG_leave # NG_enter # nv_calls s1
     else no_refCount (nv_obj s2 obj) = 1 \<and>
       nv_calls s2 = NE_raise NS_E_paramMismatch # NG_leave # NG_enter # nv_calls s1)"
    using assms(2) grow by (auto simp: NameServer_create_def h o I(1) not_le)
  show "NameServer_create E name None s1 = Err Bad_access"
    using assms(2) by (simp add: NameServer_create_def h)
qed

section \<open>Asking other processors\<close>

text \<open>
  What is to be expected of it, over the replies that the drivers would give if each of them were
  asked in turn with the length the one before left: those that do not know the name or time out
  are passed over, and the answer is that of the last one asked; the value is that of the last
  one that gave any.
\<close>

fun ns_replies :: "ns_env \<Rightarrow> string option \<Rightarrow> string \<Rightarrow> u32 \<Rightarrow> ptr list \<Rightarrow> ns_answer list" where
  "ns_replies E inst name len [] = []"
| "ns_replies E inst name len (h # hs) =
     (case ne_remoteGet E h inst name len of (status, bytes, len') \<Rightarrow>
        (status, bytes, len') # ns_replies E inst name len' hs)"

definition ns_missed :: "ns_answer \<Rightarrow> bool" where
  "ns_missed r \<longleftrightarrow> fst r = NameServer_E_NOTFOUND \<or> fst r = NameServer_E_TIMEOUT"

definition ns_asked :: "ns_answer list \<Rightarrow> ns_answer list" where
  "ns_asked rs = takeWhile ns_missed rs @ take 1 (dropWhile ns_missed rs)"

definition ns_outcome :: "ns_answer \<Rightarrow> ns_answer list \<Rightarrow> ns_answer" where
  "ns_outcome r rs =
     (fst (last (r # rs)),
      fst (snd (last (r # filter (\<lambda>x. fst (snd x) \<noteq> None) rs))),
      snd (snd (last (r # rs))))"

lemma ns_outcome_step:
  "ns_outcome r [] = r"
  "ns_outcome r (x # rs) = ns_outcome (fst x, (case fst (snd x) of None \<Rightarrow> fst (snd r) | Some b \<Rightarrow> Some b), snd (snd x)) rs"
  by (auto simp: ns_outcome_def split: option.splits)

lemma ns_final_missed: "ns_final r \<longleftrightarrow> \<not> ns_missed r"
  by (auto simp: ns_final_def ns_missed_def NameServer_E_NOTFOUND_def NameServer_E_TIMEOUT_def)

text \<open>A list of other processors that ends with the invalid id, as long as the cluster at most.\<close>

lemma ns_ask_list_remote:
  assumes "drop i procId = ps @ MultiProc_INVALIDID # qs" and "length ps \<le> n"
    and "\<forall>p \<in> set ps. p \<noteq> MultiProc_INVALIDID \<and> p \<noteq> MultiProc_self (nc_procs C) \<and> unat (p - b) < length (nv_remote s)"
    and "\<not> nc_singleProcessor C" and "ns_missed r"
  shows "ns_ask_list E C obj name (Ok b) procId n i r s =
    Ok (ns_outcome r (ns_asked (ns_replies E (no_name (nv_obj s obj)) name (snd (snd r))
          (filter (\<lambda>h. h \<noteq> NULL) (map (\<lambda>p. nv_remote s ! unat (p - b)) ps)))), s)"
  using assms
proof (induction ps arbitrary: i n r)
  case Nil
  then have "i < length procId" "procId ! i = MultiProc_INVALIDID"
    by (metis append_Nil drop_all list.distinct(1) not_le, metis append_Nil nth_via_drop)
  then show ?case by (subst ns_ask_list.simps) (simp add: ns_asked_def ns_outcome_step)
next
  case (Cons p ps)
  have i: "i < length procId" using Cons.prems(1) by (metis append_Cons drop_all list.distinct(1) not_le)
  have p: "procId ! i = p" using Cons.prems(1) by (simp add: nth_via_drop)
  have d: "drop (Suc i) procId = ps @ MultiProc_INVALIDID # qs"
    using Cons.prems(1) by (metis append_Cons drop_Suc list.sel(3) tl_drop)
  obtain m where n: "n = Suc m" "length ps \<le> m" using Cons.prems(2) by (cases n) auto
  let ?h = "nv_remote s ! unat (p - b)" and ?inst = "no_name (nv_obj s obj)"
  let ?r = "ns_ask E ?h ?inst name r"
  have step: "ns_ask_list E C obj name (Ok b) procId n i r s =
      (if ns_missed ?r then ns_ask_list E C obj name (Ok b) procId m (Suc i) ?r s else Ok (?r, s))"
    using i p n Cons.prems(3,4) by (subst ns_ask_list.simps) (simp add: ns_final_missed)
  note IH = Cons.IH [OF d n(2) _ Cons.prems(4), of ?r]
  show ?case
  proof (cases "?h = NULL")
    case True
    then have "?r = r" by (simp add: ns_ask_def)
    then show ?thesis using step IH Cons.prems(3,5) True by simp
  next
    case False
    obtain st bytes len where a: "ne_remoteGet E ?h ?inst name (snd (snd r)) = (st, bytes, len)" by (metis prod_cases3)
    have r: "?r = (st, (case bytes of None \<Rightarrow> fst (snd r) | Some b \<Rightarrow> Some b), len)"
      using False a by (simp add: ns_ask_def)
    have same: "ns_missed ?r = ns_missed (st, bytes, len)" by (simp add: r ns_missed_def)
    show ?thesis
    proof (cases "ns_missed (st, bytes, len)")
      case True
      then show ?thesis using step IH Cons.prems(3) False a same r
        by (simp add: ns_asked_def ns_outcome_step)
    next
      case fin: False
      then show ?thesis using step False a same r by (simp add: ns_asked_def ns_outcome_step)
    qed
  qed
qed

lemma NameServer_get_remote:
  assumes "\<not> nc_singleProcessor C" and "mpc_procAddrMode (nc_multiProc C) = ProcAddrMode_Cluster"
    and "b = MultiProc_getBaseIdOfCluster (nc_procs C)"
    and "length ps \<le> unat (MultiProc_getNumProcsInCluster (nc_multiProc C))"
    and "\<forall>p \<in> set ps. p \<noteq> MultiProc_INVALIDID \<and> p \<noteq> MultiProc_self (nc_procs C) \<and> unat (p - b) < length (nv_remote s)"
  shows "NameServer_get E C obj name len (Some (ps @ [MultiProc_INVALIDID])) s =
    Ok (ns_outcome (NameServer_E_NOTFOUND, None, len) (ns_asked (ns_replies E (no_name (nv_obj s obj)) name len
          (filter (\<lambda>h. h \<noteq> NULL) (map (\<lambda>p. nv_remote s ! unat (p - b)) ps)))), s)"
  using ns_ask_list_remote [of 0 "ps @ [MultiProc_INVALIDID]" ps "[]" _ C b s "(NameServer_E_NOTFOUND, None, len)" E obj name]
    assms
  by (simp add: NameServer_get_def ns_missed_def)

text \<open>
  Without the invalid id, a list that fills the cluster is read one place past its end unless
  some processor gives a final answer.
\<close>

lemma ns_ask_list_overrun:
  assumes "length procId \<le> i + n" and "i \<le> length procId"
    and "\<forall>p \<in> set (drop i procId). p \<noteq> MultiProc_INVALIDID \<and> p \<noteq> MultiProc_self (nc_procs C) \<and>
      unat (p - b) < length (nv_remote s) \<and> nv_remote s ! unat (p - b) = NULL"
    and "\<not> nc_singleProcessor C" and "\<not> ns_final r"
  shows "ns_ask_list E C obj name (Ok b) procId n i r s = Err Bad_access"
  using assms
proof (induction n arbitrary: i)
  case 0
  then show ?case by (subst ns_ask_list.simps) (simp add: arr_get_def)
next
  case (Suc n)
  show ?case
  proof (cases "i < length procId")
    case True
    then have "procId ! i \<in> set (drop i procId)" by (metis Cons_nth_drop_Suc list.set_intros(1))
    then have p: "procId ! i \<noteq> MultiProc_INVALIDID" "procId ! i \<noteq> MultiProc_self (nc_procs C)"
        "unat (procId ! i - b) < length (nv_remote s)" "nv_remote s ! unat (procId ! i - b) = NULL"
      using Suc.prems(3) by auto
    have "set (drop (Suc i) procId) \<subseteq> set (drop i procId)"
      using True by (metis Cons_nth_drop_Suc set_subset_Cons)
    then have "ns_ask_list E C obj name (Ok b) procId n (Suc i) r s = Err Bad_access"
      using Suc.prems True by (intro Suc.IH) auto
    then show ?thesis using True p Suc.prems(4,5)
      by (subst ns_ask_list.simps) (simp add: ns_ask_def)
  next
    case False
    then show ?thesis by (subst ns_ask_list.simps) (simp add: arr_get_def)
  qed
qed

end
