(* ===== verification/Examples.thy ===== *)
theory Examples
imports SharedRegion_Runs HeapBufMP HeapMemMP GatePeterson GatePetersonN MessageQ_Table NotifyDriverCirc NotifyDriverShm_Slots Notify_Lines NameServer_Tables
begin

text \<open>
  A concrete system that the properties are applied to: two shared regions of a 32-bit target
  with translation and assertions on, the first cached, and in it a list, a pool of blocks and a
  variable-size heap.
\<close>

section \<open>Regions\<close>

definition ex_build :: build where
  "ex_build = \<lparr>b_armA = False, b_64P = True\<rparr>"

definition ex_entry :: "ptr \<Rightarrow> sizeT \<Rightarrow> bool \<Rightarrow> string \<Rightarrow> SharedRegion_Entry" where
  "ex_entry b n c nm = \<lparr>re_base = b, re_len = n, re_ownerProcId = 0, re_isValid = True,
     re_cacheEnable = c, re_cacheLineSize = 128, re_createHeap = True, re_name = Some nm\<rparr>"

definition ex_sr :: SharedRegion_Module where
  "ex_sr = \<lparr>sr_regions =
       [\<lparr>rg_entry = ex_entry 0x80000000 0x100000 True ''ddr'', rg_reservedSize = 0, rg_heap = 0x100\<rparr>,
        \<lparr>rg_entry = ex_entry 0xA0000000 0x10000 False ''ocm'', rg_reservedSize = 0, rg_heap = 0x200\<rparr>],
     sr_translate = True, sr_numOffsetBits = 28, sr_offsetMask = 0x0FFFFFFF,
     sr_cacheLineSize = 128, sr_asserts = True, sr_self = 0, sr_typeAlign = 8\<rparr>"

lemma ex_sr_simps [simp]:
  "sr_translate ex_sr" "sr_asserts ex_sr" "sr_numOffsetBits ex_sr = 28"
  "SharedRegion_numEntries ex_sr = 2" "sr_typeAlign ex_sr = 8" "sr_self ex_sr = 0"
  by (simp_all add: ex_sr_def SharedRegion_numEntries_def)

lemma ex_sr_entries [simp]:
  "sr_regions ex_sr ! 0 = \<lparr>rg_entry = ex_entry 0x80000000 0x100000 True ''ddr'', rg_reservedSize = 0, rg_heap = 0x100\<rparr>"
  "sr_regions ex_sr ! Suc 0 = \<lparr>rg_entry = ex_entry 0xA0000000 0x10000 False ''ocm'', rg_reservedSize = 0, rg_heap = 0x200\<rparr>"
  "length (sr_regions ex_sr) = 2"
  by (simp_all add: ex_sr_def)

lemma ex_valid: "valid_entry ex_sr i \<longleftrightarrow> i = 0 \<or> i = 1"
  by (auto simp: valid_entry_def ex_entry_def less_Suc_eq numeral_2_eq_2)

lemma ex_sr_wf: "sr_wf ex_sr"
  unfolding sr_wf_def ex_valid
  by (auto simp: ex_sr_def entry_fits_def entries_disjoint_def ex_entry_def
      SharedRegion_numEntries_def)

lemma ex_in_region:
  "in_region ex_sr 0 a \<longleftrightarrow> 0x80000000 \<le> unat a \<and> unat a < 0x80100000"
  "in_region ex_sr 1 a \<longleftrightarrow> 0xA0000000 \<le> unat a \<and> unat a < 0xA0010000"
  by (auto simp: in_region_def ex_valid ex_entry_def)

lemma ex_portable:
  assumes "0x80000000 \<le> unat a" and "unat a < 0x80100000"
  shows "sr_portable ex_sr a" and "SharedRegion_getId ex_sr a = 0" and "sr_cached ex_sr a"
proof -
  have r: "in_region ex_sr 0 a" using assms by (simp add: ex_in_region)
  have "a \<noteq> NULL" using assms(1) by auto
  moreover have "srptr_of ex_sr 0 a \<noteq> SharedRegion_INVALIDSRPTR"
    using srptr_of_invalid(1) [OF ex_sr_wf r] by auto
  ultimately show "sr_portable ex_sr a"
    by (intro sr_portable_in_region(1) [OF ex_sr_wf _ r]) simp_all
  show id0: "SharedRegion_getId ex_sr a = 0" using getId_in_region [OF ex_sr_wf r] by simp
  show "sr_cached ex_sr a"
    by (simp add: sr_cached_def id0 SharedRegion_isCacheEnabled_def ex_entry_def)
qed

section \<open>A list\<close>

definition ex_list :: ListMP_Object where
  "ex_list = \<lparr>lo_attrs = 0x80001000, lo_gate = 0x300, lo_regionId = 0, lo_cacheEnabled = True,
     lo_cacheLineSize = 128, lo_objType = ObjType_CREATEDYNAMIC, lo_nsKey = NULL,
     lo_allocSize = 0\<rparr>"

text \<open>The memory in which that list holds two elements.\<close>

definition ex_list_mem :: lmp_mem where
  "ex_list_mem = \<lparr>lm_elem = (\<lambda>a.
       if a = 0x80001008 then \<lparr>le_next = sr_enc ex_sr 0x80002000, le_prev = sr_enc ex_sr 0x80002080\<rparr>
       else if a = 0x80002000 then \<lparr>le_next = sr_enc ex_sr 0x80002080, le_prev = sr_enc ex_sr 0x80001008\<rparr>
       else if a = 0x80002080 then \<lparr>le_next = sr_enc ex_sr 0x80001008, le_prev = sr_enc ex_sr 0x80002000\<rparr>
       else \<lparr>le_next = 0, le_prev = 0\<rparr>),
     lm_attrs = (\<lambda>a. \<lparr>la_status = ListMP_CREATED, la_gateMPAddr = 0x300\<rparr>), lm_log = []\<rparr>"

lemma ex_list_ring: "lmp_ring ex_sr ex_list [0x80002000, 0x80002080] ex_list_mem"
  using ex_portable [of "0x80001008"] ex_portable [of "0x80002000"] ex_portable [of "0x80002080"]
  by (auto simp: lmp_ring_def dring_def ListMP_head_def ex_list_def ex_list_mem_def)

section \<open>A heap\<close>

text \<open>A heap of 4 KB whose attributes are at the start of the first region.\<close>

definition ex_heap :: HeapMemMP_Object where
  "ex_heap = \<lparr>mo_attrs = 0x80000000, mo_gate = 0x300, mo_objType = ObjType_CREATEDYNAMIC,
     mo_nsKey = NULL, mo_cacheEnabled = True, mo_regionId = 0, mo_allocSize = 0,
     mo_buf = 0x80000080, mo_minAlign = 128, mo_bufSize = 0x1000\<rparr>"

lemma ex_heap_addr:
  assumes "0x80000000 \<le> unat a" and "unat a < 0x80100000"
  shows "heap_addr ex_sr 0 a"
  using sr_portableD [OF ex_portable(1) [OF assms]] ex_portable(2) [OF assms]
  by (simp add: heap_addr_def)

lemma ex_heap_site: "hm_site ex_sr ex_heap 7"
proof -
  have "heap_addr ex_sr (mo_regionId ex_heap) a"
    if "unat (mo_buf ex_heap) \<le> unat a \<and>
        unat a < unat (mo_buf ex_heap) + unat (mo_bufSize ex_heap) \<and> 2 ^ 7 dvd unat a" for a
    using ex_heap_addr [of a] that by (simp add: ex_heap_def)
  then show ?thesis
    unfolding hm_site_def by (auto simp: ex_heap_def HeapMemMP_head_def)
qed

text \<open>Its memory after creation, by way of \<open>HeapMemMP_restore\<close>.\<close>

definition ex_heap_mem0 :: mm_mem where
  "ex_heap_mem0 = \<lparr>mm_hdr = (\<lambda>a. \<lparr>mh_next = 0, mh_size = 0\<rparr>),
     mm_attrs = (\<lambda>a. \<lparr>ma_status = HeapMemMP_CREATED, ma_bufPtr = sr_enc ex_sr 0x80000080,
                      ma_gateMPAddr = 0x300\<rparr>), mm_log = []\<rparr>"

definition ex_heap_mem :: mm_mem where
  "ex_heap_mem = HeapMemMP_restore ex_sr ex_heap ex_heap_mem0"

lemma ex_heap_inv: "hm_inv ex_sr ex_heap 7 ex_heap_mem [(0x80000080, 0x1000)]"
proof -
  have "hm_inv ex_sr ex_heap 7 ex_heap_mem [(mo_buf ex_heap, mo_bufSize ex_heap)]"
    unfolding ex_heap_mem_def
    by (rule HeapMemMP_restore_inv [OF ex_heap_site])
      (use sr_portableD(3) [OF ex_portable(1), of "0x80000080"] in
        \<open>simp_all add: ex_heap_def ex_heap_mem0_def\<close>)
  then show ?thesis by (simp add: ex_heap_def)
qed

lemma ex_heap_live: "hm_live ex_sr ex_heap 7 ex_heap_mem {}"
  using ex_heap_inv
  by (auto simp: hm_live_def hm_tiles_def hm_buffer_def hm_hi_def ex_heap_def)

section \<open>A pool\<close>

text \<open>Two blocks of 128 bytes, both free.\<close>

definition ex_pool :: HeapBufMP_Object where
  "ex_pool = \<lparr>hb_attrs = 0x80003000, hb_gate = 0x300, hb_objType = ObjType_CREATEDYNAMIC,
     hb_nsKey = NULL, hb_cacheEnabled = True, hb_regionId = 0, hb_allocSize = 0,
     hb_buf = 0x80002000, hb_freeList = Some ex_list, hb_align = 128, hb_numBlocks = 2,
     hb_blockSize = 128, hb_exact = False\<rparr>"

definition ex_pool_mem :: hb_mem where
  "ex_pool_mem = \<lparr>hm_list = ex_list_mem, hm_attrs = (\<lambda>a.
     \<lparr>ha_status = HeapBufMP_CREATED, ha_gateMPAddr = 0x300, ha_bufPtr = sr_enc ex_sr 0x80002000,
      ha_numFreeBlocks = 2, ha_minFreeBlocks = - 1, ha_blockSize = 128, ha_align = 128,
      ha_numBlocks = 2, ha_exact = 0\<rparr>)\<rparr>"

lemma ex_pool_blocks: "hb_blocks ex_pool = [0x80002000, 0x80002080]"
  by (simp add: hb_blocks_def hb_block_def ex_pool_def upt_conv_Cons)

lemma ex_pool_geometry: "hb_geometry ex_sr ex_pool ex_list"
  using ex_portable(1) [of "0x80002000"] ex_portable(1) [of "0x80002080"]
  unfolding hb_geometry_def ex_pool_blocks
  by (simp add: ex_pool_def lmp_fit_def ListMP_head_def ex_list_def)

lemma ex_pool_inv: "hb_inv ex_sr True ex_pool ex_list ex_pool_mem [0x80002000, 0x80002080] {}"
  using ex_pool_geometry ex_list_ring ex_pool_blocks
  by (simp add: hb_inv_def lmp_repr_def ex_pool_mem_def) (simp add: ex_pool_def)

lemma ex_pool_live: "hb_live ex_sr True ex_pool ex_list ex_pool_mem {}"
proof -
  have "hb_align ex_pool = 2 ^ 7" by (simp add: ex_pool_def)
  then have "\<exists>a<32. hb_align ex_pool = 2 ^ a" by (intro exI [of _ 7]) simp
  then show ?thesis using ex_pool_inv by (auto simp: hb_live_def)
qed

section \<open>A gate\<close>

text \<open>Two processors, without caches, that both spin in \<open>enter\<close>.\<close>

definition ex_gate :: gp_state where
  "ex_gate = gp_steps False Side1 6 (gp_steps False Side0 6
     (GatePeterson_enter False Side1 (GatePeterson_enter False Side0 GatePeterson_postInit)))"

lemma ex_gate_reach: "gp_reach False w ex_gate"
  unfolding ex_gate_def
  by (intro gp_reach_steps gp_reach.move [OF gp_reach.move [OF gp_reach.start gp_step.enter] gp_step.enter])
    (simp_all add: GatePeterson_postInit_def GatePeterson_enter_def gp_access_defs)

lemma ex_gate_spin: "gs_pc ex_gate Side0 = Spin_flag" "gs_pc ex_gate Side1 = Spin_flag"
  by (simp_all add: ex_gate_def eval_nat_numeral GatePeterson_postInit_def GatePeterson_enter_def
      GatePeterson_enter_step_def gp_access_defs)

section \<open>Message queues\<close>

text \<open>
  A processor with a table of two queues: one exists in slot 0 and is empty, the other slot is
  free. Messages at three addresses have normal, high and urgent priority.
\<close>

definition ex_mqc :: MessageQ_config where
  "ex_mqc = \<lparr>qc_asserts = True, qc_traceFlag = False, qc_numReservedEntries = 0,
     qc_maxRuntimeEntries = NameServer_ALLOWGROWTH, qc_self = 0, qc_numProcessors = 2,
     qc_procAddrMode = ProcAddrMode_Global, qc_baseIdOfCluster = 0\<rparr>"

text \<open>Synchronizers that are counting semaphores: the signals no wait has taken yet.\<close>

fun ex_pend :: "ptr \<Rightarrow> mq_call list \<Rightarrow> nat" where
  "ex_pend y [] = 0"
| "ex_pend y (c # cs) =
     (if c = Sync_signal y then Suc (ex_pend y cs)
      else if c = Sync_taken y then ex_pend y cs - 1 else ex_pend y cs)"

definition ex_mqe :: mq_env where
  "ex_mqe = \<lparr>me_alloc = (\<lambda>h n. 0x90000000), me_semCreate = 0x500,
     me_wait = (\<lambda>y t s. if 0 < ex_pend y (qs_calls s) then (Wait_success, mq_call (Sync_taken y) s)
       else (Wait_timeout, s)), me_transportPut = (\<lambda>t m. True),
     me_downCast = (\<lambda>t. t), me_netPut = (\<lambda>t m. True), me_bind = (\<lambda>t q. True),
     me_unbind = (\<lambda>t q. True), me_putHook = (\<lambda>f q m. m), me_nsAdd = (\<lambda>n q. 0x700),
     me_nsGet = (\<lambda>n. None), me_syncBlocking = (\<lambda>y. True)\<rparr>"

definition ex_queue :: MessageQ_Object where
  "ex_queue = \<lparr>mq_queue = MessageQ_openQueueId 0 0, mq_synchronizer = 0x500,
     mq_normalList = 0x80004100, mq_highList = 0x80004200, mq_nsKey = NULL,
     mq_syncSemHandle = NULL, mq_unblocked = False\<rparr>"

definition ex_header :: "u16 \<Rightarrow> MsgHeader" where
  "ex_header fl = \<lparr>mg_msgSize = 64, mg_flags = fl, mg_msgId = 0xFFFF, mg_dstId = 0xFFFF, mg_dstProc = 0,
     mg_replyId = 0xFFFF, mg_replyProc = 0, mg_srcProc = 0, mg_heapId = 0, mg_seqNum = 0\<rparr>"

definition ex_mq :: mq_state where
  "ex_mq = \<lparr>qs_list = \<lparr>li_elem = (\<lambda>a. \<lparr>el_next = a, el_prev = a\<rparr>), li_log = []\<rparr>,
     qs_msg = (\<lambda>a. ex_header (if a = 0x80005000 then 0x2000 else if a = 0x80005100 then 0x2001 else 0x2003)),
     qs_obj = (\<lambda>a. if a = 0x80004000 then ex_queue
       else ex_queue\<lparr>mq_queue := 0, mq_normalList := 0x80006100, mq_highList := 0x80006200\<rparr>),
     qs_mod = \<lparr>qm_transports = [[NULL, NULL], [0x600, NULL]], qm_queues = [0x80004000, NULL],
       qm_queuesAddr = 0x80007000, qm_heaps = [0x100], qm_numQueues = 2, qm_numHeaps = 1,
       qm_freeHookFxn = NULL, qm_putHookFxn = NULL, qm_canFreeQueues = False, qm_seqNum = 0,
       qm_regTrans = replicate 8 \<lparr>rt_transport = NULL, rt_type = TransportType_Invalid\<rparr>\<rparr>,
     qs_calls = []\<rparr>"

lemma ex_mq_sync: "mq_sync ex_mqe sem (ex_pend sem)"
  unfolding mq_sync_def
proof (intro allI impI)
  fix t s w s'
  assume w: "me_wait ex_mqe sem t s = (w, s')"
  show "\<exists>k. s' = s\<lparr>qs_calls := k\<rparr> \<and> (w = Wait_success \<longrightarrow> ex_pend sem k < ex_pend sem (qs_calls s))"
    using w by (intro exI [of _ "qs_calls s'"]) (auto simp: ex_mqe_def mq_call_def split: if_splits)
qed

lemma ex_mq_box:
  "mq_box ex_mqe ex_mqc (MessageQ_openQueueId 0 0) 0x80004000 ex_queue
     (\<lambda>m. mq_priority (qs_msg ex_mq m)) (ex_pend 0x500) ex_mq ([], [])"
  using ex_mq_sync [of "0x500"]
  by (simp add: mq_box_def mq_routed_def mq_nohook_def mq_lists_def list_ring_def dring_def ex_mq_def
      ex_mqc_def ex_queue_def)

lemma ex_mq_table: "mq_table ex_mqc ex_mq"
  by (rule mq_tableI) (auto simp: ex_mq_def ex_mqc_def ex_queue_def mq_slot_id_def less_Suc_eq)

lemma ex_mq_fresh: "mq_fresh 0x80006000 ex_mq"
  by (simp add: mq_fresh_def ex_mq_def)

lemma ex_mq_binds: "mq_binds E (qm_regTrans (qs_mod ex_mq)) [1, 2, 3, 4, 5, 6, 7]"
  by (simp add: mq_binds_def ex_mq_def)

lemma ex_mq_priority [simp]:
  "mq_priority (qs_msg ex_mq 0x80005000) = Normal" "mq_priority (qs_msg ex_mq 0x80005100) = High"
  "mq_priority (qs_msg ex_mq 0x80005200) = Urgent"
  by (simp_all add: mq_priority_def MessageQ_getMsgPri_def MessageQ_PRIORITYMASK_def MessageQ_URGENTPRI_def
      MessageQ_NORMALPRI_def ex_mq_def ex_header_def)

section \<open>Notification\<close>

text \<open>The two instances of processors 0 and 1 over buffers of four entries, both empty.\<close>

definition ex_circ_config :: circ_config where
  "ex_circ_config = \<lparr>cc_numMsgs = 4, cc_enableStats = False, cc_asserts = True, cc_self = 0\<rparr>"

definition ex_circ_params :: NotifyDriverCirc_Params where
  "ex_circ_params = \<lparr>cp_sharedAddr = 0x80008000, cp_cacheEnabled = True, cp_cacheLineSize = 128,
     cp_remoteProcId = 1\<rparr>"

definition ex_circ :: "ptr \<Rightarrow> ptr \<Rightarrow> u16 \<Rightarrow> NotifyDriverCirc_Object" where
  "ex_circ a b r = \<lparr>cd_putBuffer = a, cd_putReadIndex = a + 256, cd_putWriteIndex = a + 128,
     cd_getBuffer = b, cd_getReadIndex = b + 256, cd_getWriteIndex = b + 128, cd_evtRegMask = 0x30,
     cd_opCacheSize = 256, cd_spinCount = 0, cd_notifyHandle = 0x800, cd_remoteProcId = r,
     cd_cacheEnabled = True\<rparr>"

definition ex_circA :: NotifyDriverCirc_Object where "ex_circA = ex_circ 0x80008000 0x80008180 1"
definition ex_circB :: NotifyDriverCirc_Object where "ex_circB = ex_circ 0x80008180 0x80008000 0"

definition ex_circ_mem :: circ_mem where
  "ex_circ_mem = \<lparr>cm_entry = (\<lambda>a. \<lparr>ev_eventid = 0, ev_payload = 0\<rparr>), cm_word = (\<lambda>a. 0), cm_log = [],
     cm_exec = []\<rparr>"

lemma ex_circ_wired: "circ_wired ex_circ_config 2 ex_circA" "circ_wired ex_circ_config 2 ex_circB"
  "circ_meet ex_circA ex_circB" "circ_out 2 ex_circA ex_circ_mem []"
  by (simp_all add: circ_wired_def circ_sized_def circ_meet_def circ_holds_def ex_circA_def ex_circB_def
      ex_circ_def ex_circ_config_def ex_circ_mem_def)

lemma ex_circ_minAlign: "circ_minAlign ex_sr ex_circ_params = Ok 128"
proof -
  have "SharedRegion_getId ex_sr 0x80008000 = 0" using ex_portable(2) [of "0x80008000"] by simp
  then show ?thesis
    by (simp add: circ_minAlign_def ex_circ_params_def SharedRegion_getCacheLineSize_def
        SharedRegion_INVALIDREGIONID_def ex_entry_def Let_def)
qed

lemma ex_circ_init:
  "\<exists>A m1. NotifyDriverCirc_Instance_init ex_sr ex_circ_config ex_circ_params 0xFFFF objA m = Ok (A, m1)"
  "\<exists>B m2. NotifyDriverCirc_Instance_init ex_sr (ex_circ_config\<lparr>cc_self := cp_remoteProcId ex_circ_params\<rparr>)
    (ex_circ_params\<lparr>cp_remoteProcId := cc_self ex_circ_config\<rparr>) 0xFFFF objB m = Ok (B, m2)"
proof -
  have id0: "SharedRegion_getId ex_sr 0x80008000 = 0" and c: "sr_cached ex_sr 0x80008000"
    using ex_portable [of "0x80008000"] by simp_all
  then have c0: "SharedRegion_isCacheEnabled ex_sr 0 = Ok True"
    by (simp add: SharedRegion_isCacheEnabled_def ex_entry_def)
  have al: "circ_minAlign ex_sr (ex_circ_params\<lparr>cp_remoteProcId := 0\<rparr>) = Ok 128"
    using ex_circ_minAlign by (simp add: circ_minAlign_def ex_circ_params_def)
  show "\<exists>A m1. NotifyDriverCirc_Instance_init ex_sr ex_circ_config ex_circ_params 0xFFFF objA m = Ok (A, m1)"
    unfolding NotifyDriverCirc_Instance_init_def ex_circ_minAlign
    by (simp add: ex_circ_config_def ex_circ_params_def id0 c0 SharedRegion_INVALIDREGIONID_def Let_def)
  show "\<exists>B m2. NotifyDriverCirc_Instance_init ex_sr (ex_circ_config\<lparr>cc_self := cp_remoteProcId ex_circ_params\<rparr>)
    (ex_circ_params\<lparr>cp_remoteProcId := cc_self ex_circ_config\<rparr>) 0xFFFF objB m = Ok (B, m2)"
    using al
    by (simp add: NotifyDriverCirc_Instance_init_def ex_circ_config_def ex_circ_params_def id0 c0
        SharedRegion_INVALIDREGIONID_def Let_def)
qed

text \<open>The buffer full, and a receiver that takes one event.\<close>

definition ex_circ_full :: circ_mem where
  "ex_circ_full = ex_circ_mem\<lparr>cm_word := (\<lambda>a. if a = 0x80008080 then 3 else 0)\<rparr>"

definition ex_circ_other :: "circ_mem \<Rightarrow> circ_mem" where
  "ex_circ_other m = m\<lparr>cm_word := (cm_word m)(0x80008100 := 1)\<rparr>"

lemma ex_circ_full:
  "circ_out 2 ex_circA ex_circ_full (replicate 3 \<lparr>ev_eventid = 0, ev_payload = 0\<rparr>)"
  by (simp add: circ_holds_def ex_circ_full_def ex_circA_def ex_circ_def ex_circ_mem_def nth_replicate)

lemma ex_circ_is_full: "\<exists>evs. circ_out 2 ex_circA ex_circ_full evs \<and> length evs = 3"
  using ex_circ_full by (intro exI conjI) (assumption, simp)

lemma ex_circ_drained:
  "circ_out 2 ex_circA (ex_circ_other (clog e ex_circ_full)) (replicate 2 \<lparr>ev_eventid = 0, ev_payload = 0\<rparr>)"
  by (simp add: circ_holds_def ex_circ_full_def ex_circ_other_def ex_circA_def ex_circ_def ex_circ_mem_def
      clog_def nth_replicate)

lemma ex_circ_clog: "clog_if (cd_cacheEnabled ex_circA) e m = clog e m"
  by (simp add: clog_if_def ex_circA_def ex_circ_def)


section \<open>Names\<close>

text \<open>
  A heap that answers with addresses of its own, counting the calls made, and never with one that
  is in use or where the instance at \<open>ex_ns_obj\<close> keeps its lists.
\<close>

definition ex_ns_obj :: ptr where "ex_ns_obj = 0x80100000"

definition ex_ns_alloc :: "ns_call list \<Rightarrow> ptr \<Rightarrow> sizeT \<Rightarrow> ptr" where
  "ex_ns_alloc cs h n =
     (let a = 0x90000000 + 0x1000 * of_nat (length cs) in
      if a \<in> {0x80100008, 0x80100010} \<or> a \<in> (fst \<circ> snd) ` set_mset (ns_held cs) then NULL else a)"

definition ex_nse :: ns_env where
  "ex_nse = \<lparr>ne_alloc = ex_ns_alloc, ne_objHeap = 0x700, ne_newObj = (\<lambda>cs. ex_ns_obj),
     ne_freeList = (\<lambda>a. a + 8), ne_nameList = (\<lambda>a. a + 16),
     ne_remoteGet = (\<lambda>h inst n len. if h = 0x40 then (0, Some [1, 2, 3, 4], 4) else (NameServer_E_NOTFOUND, None, len)),
     ne_fuel = 100\<rparr>"

definition ex_ns_config :: ns_config where
  "ex_ns_config = \<lparr>nc_asserts = True, nc_singleProcessor = False,
     nc_multiProc = \<lparr>mpc_asserts = True, mpc_numProcessors = 6, mpc_numProcsInCluster = 3,
       mpc_nameList = [Some ''HOST'', Some ''DSP1'', Some ''DSP2''], mpc_procAddrMode = ProcAddrMode_Cluster\<rparr>,
     nc_procs = \<lparr>mpm_id = 2, mpm_baseIdOfCluster = 2, mpm_clusterProcList = [2, 3, 4]\<rparr>\<rparr>"

definition ex_ns :: ns_state where
  "ex_ns = \<lparr>nv_list = \<lparr>li_elem = (\<lambda>a. \<lparr>el_next = 0, el_prev = 0\<rparr>), li_log = []\<rparr>,
     nv_entry = (\<lambda>a. \<lparr>te_name = 0, te_len = 0, te_value = 0\<rparr>), nv_str = (\<lambda>a. []), nv_buf = (\<lambda>a. []),
     nv_size = (\<lambda>a. 0), nv_obj = (\<lambda>a. \<lparr>no_name = None, no_maxNameLen = 0, no_maxValueLen = 0,
       no_numStatic = 0, no_numDynamic = 0, no_table = 0, no_names = 0, no_values = 0, no_tableHeap = 0,
       no_checkExisting = False, no_refCount = 0\<rparr>),
     nv_static = [], nv_dynamic = [], nv_remote = [0, 0x30, 0x40], nv_calls = []\<rparr>"

definition ex_ns_params :: NameServer_Params where
  "ex_ns_params = \<lparr>np_maxRuntimeEntries = 2, np_tableHeap = NULL, np_checkExisting = True,
     np_maxValueLen = 8, np_maxNameLen = 16\<rparr>"

lemma ex_ns_heads: "ne_nameList ex_nse ex_ns_obj = 0x80100010" "ne_freeList ex_nse ex_ns_obj = 0x80100008"
  "ne_alloc ex_nse = ex_ns_alloc" "ne_objHeap ex_nse = 0x700" "ne_fuel ex_nse = 100"
  by (simp_all add: ex_nse_def ex_ns_obj_def)

text \<open>Parameters that name a heap and ask for values of four bytes.\<close>

definition ex_ns_explicit :: NameServer_Params where
  "ex_ns_explicit = NameServer_Params_init\<lparr>np_tableHeap := 0x720, np_maxValueLen := 4\<rparr>"

lemma ex_ns_create_growing:
  assumes "np_maxRuntimeEntries p = NameServer_ALLOWGROWTH"
  shows "\<exists>s1. ns_create ex_nse ''T'' p ex_ns = Ok (ex_ns_obj, s1) \<and> no_name (nv_obj s1 ex_ns_obj) = Some ''T''"
proof -
  obtain s0 where s0: "NameServer_Instance_init ex_nse ex_ns_obj ''T'' p ex_ns = Ok (0, s0)"
    using ns_Instance_init_growing [OF assms, of ex_nse ex_ns_obj ex_ns "''T''"] ex_ns_heads
    by (auto simp: ex_ns_def)
  then show ?thesis
    using NameServer_Instance_init_heap(1) [OF assms s0] by (simp add: ns_create_def ex_nse_def ex_ns_obj_def)
qed

lemma ex_ns_heaps_ok: "ns_heaps_ok ex_nse ex_ns_obj"
  unfolding ns_heaps_ok_def ex_ns_heads by (auto simp: ex_ns_alloc_def Let_def)

lemma ex_ns_allocs:
  "ex_ns_alloc [] h n = 0x90000000"
  "ex_ns_alloc [NH_alloc h n 0x90000000] h' n' = 0x90001000"
  "ex_ns_alloc [NH_alloc h' n' 0x90001000, NH_alloc h n 0x90000000] h'' n'' = 0x90002000"
  by (simp_all add: ex_ns_alloc_def Let_def)

lemma ex_ns_layout: "ns_layout ex_nse ex_ns_obj 0x90000000 0x90002000 0x90001000 16 8 2"
proof -
  have "[0..<2] = [0, 1::nat]" by (simp add: upt_rec)
  then show ?thesis by (simp add: ns_layout_def ex_ns_heads ns_ent_def ns_part_def)
qed

lemma ex_ns_created:
  "\<exists>s'. NameServer_Instance_init ex_nse ex_ns_obj ''T'' ex_ns_params ex_ns = Ok (0, s') \<and>
    ns_holds ex_nse ex_ns_obj 16 8 True 0 2 s' []"
  using NameServer_Instance_init_fixed [OF refl refl refl _ _ refl refl refl refl refl, of ex_ns_params ex_nse
      ex_ns ex_ns_obj "''T''"] ex_ns_layout
  by (simp add: ex_ns_params_def ex_ns_heads ex_ns_allocs ex_ns_def NameServer_ALLOWGROWTH_def)

lemma ex_ns_fit: "ns_fit 16 8 ''abc'' [1, 2]" "ns_fit 16 8 ''abc'' [3]" "ns_fit 16 4 ''abc'' (u32_bytes x)"
  by (auto simp: ns_fit_def)

section \<open>Notifications\<close>

text \<open>The loopback line of processor 0 and the line to processor 1, one line a processor.\<close>

definition ex_nc :: notify_config where
  "ex_nc = \<lparr>nfc_asserts = True, nfc_numEvents = 32, nfc_numLines = 1, nfc_reservedEvents = 5,
     nfc_numProcessors = 2, nfc_listGet = (\<lambda>L e. L + 8 * e), nfc_proxy_attach = (\<lambda>_ _. 0),
     nfc_proxy_numIntLines = (\<lambda>_. 1), nfc_proxy_sharedMemReq = (\<lambda>_ _. 0x100),
     nfc_driver_send = (\<lambda>_ _ _ _. 0)\<rparr>"

definition ex_np :: MultiProc_Module where
  "ex_np = \<lparr>mpm_id = 0, mpm_baseIdOfCluster = 0, mpm_clusterProcList = [0, 1]\<rparr>"

definition ex_nline :: notify_line where
  "ex_nline = \<lparr>ln_procId = 0, ln_lineId = 0, ln_handle = 0x500, ln_driver = NULL, ln_lists = 0x1000\<rparr>"

definition ex_nrline :: notify_line where
  "ex_nrline = \<lparr>ln_procId = 1, ln_lineId = 0, ln_handle = 0x600, ln_driver = 0x700, ln_lists = 0x1200\<rparr>"

definition ex_ns0 :: notify_state where
  "ex_ns0 = \<lparr>nt_handles = [[NULL], [NULL]],
     nt_obj = (\<lambda>_. \<lparr>no_nesting = 0, no_driverHandle = 0, no_remoteProcId = 0, no_lineId = 0,
        no_callbacks = [], no_eventList = 0\<rparr>),
     nt_listener = (\<lambda>_. \<lparr>ec_fnNotifyCbck = Fxn_NULL, ec_cbckArg = 0\<rparr>),
     nt_list = \<lparr>li_elem = (\<lambda>_. \<lparr>el_next = 0, el_prev = 0\<rparr>), li_log = []\<rparr>,
     nt_localEnableMask = 0xFFFFFFFF, nt_log = [], nt_calls = []\<rparr>"

definition ex_ncb :: "ptr \<Rightarrow> EventCallback" where
  "ex_ncb arg = \<lparr>ec_fnNotifyCbck = Fxn_user 0xF0, ec_cbckArg = arg\<rparr>"

lemma ex_nc_simps [simp]:
  "nfc_asserts ex_nc" "nfc_numEvents ex_nc = 32" "nfc_numLines ex_nc = 1" "nfc_numProcessors ex_nc = 2"
  "nfc_listGet ex_nc L e = L + 8 * e"
  by (simp_all add: ex_nc_def)

lemma ex_nline_simps [simp]:
  "ln_procId ex_nline = 0" "ln_lineId ex_nline = 0" "ln_handle ex_nline = 0x500"
  "ln_driver ex_nline = NULL" "ln_lists ex_nline = 0x1000" "is_local ex_np ex_nline"
  "ln_procId ex_nrline = 1" "ln_lineId ex_nrline = 0" "ln_handle ex_nrline = 0x600"
  "ln_driver ex_nrline = 0x700" "ln_lists ex_nrline = 0x1200" "\<not> is_local ex_np ex_nrline"
  by (simp_all add: ex_nline_def ex_nrline_def is_local_def ex_np_def MultiProc_self_def)

lemma ex_event_fine: "5 \<le> stripped e \<Longrightarrow> stripped e < 32 \<Longrightarrow> event_fine ex_nc e"
  by (simp add: event_fine_def ISRESERVED_def ex_nc_def)

lemma ex_is_user [simp]: "is_user (ex_ncb arg)"
  by (simp add: is_user_def ex_ncb_def)

text \<open>The addresses of an array of 32 lists of 8 bytes each.\<close>

lemma ex_nheaders:
  assumes "e < 32" and "L = 0x1000 \<or> L = 0x1200"
  shows "unat (L + 8 * e :: ptr) = unat L + 8 * unat e"
proof -
  have e: "unat e < 32" using assms(1) by (simp add: word_less_nat_alt)
  then have "unat (8 * e) = 8 * unat e" by (simp add: unat_word_ariths)
  moreover have "unat L + 8 * unat e < 2 ^ 32" using e assms(2) by auto
  ultimately show ?thesis using unat_plus_no_wrap [where a = L and b = "8 * e"] by simp
qed

lemma ex_nfree: "line_free ex_np ex_nline ex_ns0" "line_free ex_np ex_nrline ex_ns0"
  by (simp_all add: line_free_def notify_handle_def ex_ns0_def MultiProc_getClusterId_def ex_np_def)

lemma ex_nlists:
  "\<forall>e<nfc_numEvents ex_nc. nfc_listGet ex_nc (ln_lists ex_nline) e \<noteq> NULL \<and>
    (\<forall>f<nfc_numEvents ex_nc. nfc_listGet ex_nc (ln_lists ex_nline) e = nfc_listGet ex_nc (ln_lists ex_nline) f \<longrightarrow> e = f)"
proof (intro allI impI conjI)
  fix e assume "e < nfc_numEvents ex_nc"
  then have e: "unat (0x1000 + 8 * e) = 0x1000 + 8 * unat e"
    using ex_nheaders [where e = e and L = "0x1000"] by simp
  then show "nfc_listGet ex_nc (ln_lists ex_nline) e \<noteq> NULL" by (auto simp: word_eq_unat)
  fix f assume "f < nfc_numEvents ex_nc"
    and eq: "nfc_listGet ex_nc (ln_lists ex_nline) e = nfc_listGet ex_nc (ln_lists ex_nline) f"
  then have "unat (0x1000 + 8 * f) = 0x1000 + 8 * unat f"
    using ex_nheaders [where e = f and L = "0x1000"] by simp
  with e eq have "8 * unat e = 8 * unat f" by simp
  then show "e = f" by (simp add: word_eq_unat)
qed

lemma ex_ncreate:
  "\<exists>t. Notify_Instance_init ex_nc ex_np 0x300 0x1000 0x500 NULL 0 0 ex_ns0 = Ok (0, t) \<and>
     notify_rel ex_nc ex_np ex_nline t (fresh_table ex_ns0)"
  using Instance_init_rel [OF ex_nfree(1), where callbacks = "0x300" and F = ex_nc] ex_nlists by auto

text \<open>Event 10 of the loopback line with listeners \<open>xs\<close>, and what the operations make of it.\<close>

definition ex_ntable :: "listeners \<Rightarrow> u32 \<Rightarrow> notify_call list \<Rightarrow> notify_table" where
  "ex_ntable xs k cs = \<lparr>na_many = (\<lambda>e. if e = 10 then xs else []), na_single = (\<lambda>_. None),
     na_nesting = k, na_mask = TEST_BIT 0xFFFFFFFF, na_calls = cs, na_gate = 0\<rparr>"

lemma ex_event10: "stripped 10 = 10" "event_fine ex_nc 10" "TEST_BIT 0xFFFFFFFF 10"
proof -
  show st: "stripped 10 = 10" by (simp add: stripped_def)
  show "event_fine ex_nc 10" by (rule ex_event_fine) (simp_all add: st)
qed (simp add: TEST_BIT_def)

lemma ex_ntable_fresh: "fresh_table ex_ns0 = ex_ntable [] 0 []"
  by (simp add: ex_ntable_def fresh_table_def ex_ns0_def fun_eq_iff)

lemma ex_ntable_spec:
  "notify_spec ex_nc ex_np ex_nline (N_register x 10 c) (ex_ntable xs k cs) = (0, ex_ntable (xs @ [(x, c)]) k cs)"
  "c \<in> snd ` set xs \<Longrightarrow> notify_spec ex_nc ex_np ex_nline (N_unregister 10 c) (ex_ntable xs k cs) =
     (0, ex_ntable (remove_first c xs) k cs)"
  "xs \<noteq> [] \<Longrightarrow> notify_spec ex_nc ex_np ex_nline (N_send 10 p) (ex_ntable xs k cs) =
     (if k = 0 then (0, ex_ntable xs k (cs @ map (the_call 0 0 10 p \<circ> snd) xs))
      else (Notify_E_FAIL, ex_ntable xs k cs))"
  "notify_spec ex_nc ex_np ex_nline N_disable (ex_ntable xs k cs) = (uint (k + 1), ex_ntable xs (k + 1) cs)"
  "notify_spec ex_nc ex_np ex_nline (N_restore key) (ex_ntable xs k cs) = (0, ex_ntable xs (k - 1) cs)"
  by (simp_all add: ex_ntable_def ex_event10 fun_eq_iff Let_def local_status_def na_used_def delivered_def
      reached_def)

lemma ex_ntable_allowed:
  "x = 0x2000 \<or> x = 0x2010 \<Longrightarrow> is_user c \<Longrightarrow> x \<notin> fst ` set xs \<Longrightarrow>
     notify_allowed n ex_nc ex_np ex_nline (N_register x 10 c) (ex_ntable xs k cs)"
  "length xs < n \<Longrightarrow> notify_allowed n ex_nc ex_np ex_nline (N_unregister 10 c) (ex_ntable xs k cs)"
  "length xs < n \<Longrightarrow> notify_allowed n ex_nc ex_np ex_nline (N_send 10 p) (ex_ntable xs k cs)"
  "k + 1 \<noteq> 0 \<Longrightarrow> notify_allowed n ex_nc ex_np ex_nline N_disable (ex_ntable xs k cs)"
  "k \<noteq> 0 \<Longrightarrow> notify_allowed n ex_nc ex_np ex_nline (N_restore k) (ex_ntable xs k cs)"
proof -
  assume x: "x = 0x2000 \<or> x = 0x2010" "is_user c" "x \<notin> fst ` set xs"
  have "x \<noteq> 0x1000 + 8 * f" if "f < 32" for f
    using ex_nheaders [where e = f and L = "0x1000"] that x(1)
    by (auto simp: word_less_nat_alt word_eq_unat)
  then show "notify_allowed n ex_nc ex_np ex_nline (N_register x 10 c) (ex_ntable xs k cs)"
    using x by (auto simp: listener_fresh_def ex_ntable_def ex_event10)
qed (simp_all add: ex_ntable_def ex_event10)

lemma ex_ntable_state: "\<exists>s. notify_rel ex_nc ex_np ex_nline s (ex_ntable [] 0 [])"
  using ex_ncreate ex_ntable_fresh by auto

section \<open>A line of \<open>NotifyDriverShm\<close>\<close>

definition ex_shm_config :: shm_config where
  "ex_shm_config = \<lparr>shc_numEvents = 32, shc_pollCount = 3, shc_asserts = True, shc_self = 1, shc_invalidId = 0xFFFF\<rparr>"

definition ex_shm_object :: "u16 \<Rightarrow> bool \<Rightarrow> NotifyDriverShm_Object" where
  "ex_shm_object remote lower = shm_layout ex_shm_config 0x80009000 lower 128
     \<lparr>sd_selfProcCtrl = 0, sd_otherProcCtrl = 0, sd_selfEventChart = 0, sd_otherEventChart = 0,
      sd_notifyHandle = 0x70, sd_regChart = replicate 32 (-1), sd_selfId = 0, sd_otherId = 0,
      sd_remoteProcId = remote, sd_nesting = 0, sd_cacheEnabled = True, sd_eventEntrySize = 0\<rparr>"

definition ex_shm_mem :: shm_mem where
  "ex_shm_mem = \<lparr>sm_ctrl = (\<lambda>_. \<lparr>pc_recvInitStatus = NotifyDriverShm_INIT_STAMP,
       pc_sendInitStatus = NotifyDriverShm_INIT_STAMP, pc_eventRegMask = 0, pc_eventEnableMask = -1\<rparr>),
     sm_entry = (\<lambda>_. \<lparr>se_flag = NotifyDriverShm_DOWN, se_payload = 0\<rparr>), sm_log = [], sm_exec = []\<rparr>"

definition ex_shm_slots :: slot_table where
  "ex_shm_slots = \<lparr>st_evs = [], st_on = (\<lambda>_. True), st_slot = (\<lambda>_. None), st_exec = []\<rparr>"

definition ex_shm_ops :: "shm_op list" where
  "ex_shm_ops = [S_send 5 1 True, S_register 7, S_register 5, S_send 7 1 True, S_send 5 2 True, S_send 5 3 True,
     S_serve, S_disable 7, S_send 7 4 False]"

lemma shm_slots_apart:
  fixes e f :: u32
  assumes "e < 32" and "f < 32" and "128 * e = 128 * f" shows "e = f"
proof -
  have "unat (128 * e) = 128 * unat e" "unat (128 * f) = 128 * unat f"
    using assms(1,2) by (simp_all add: unat_word_ariths word_less_nat_alt)
  then show ?thesis using assms(3) by (simp add: word_eq_unat)
qed

lemma ex_shm_wired: "shm_wired ex_shm_config (ex_shm_object 1 False) (ex_shm_object 0 True)"
  by (simp add: shm_wired_def slot_at_def EVENTENTRY_def ex_shm_object_def shm_layout_def ex_shm_config_def
      Ipc_roundup_def shm_slots_apart)

lemma ex_shm_chart: "sd_regChart (ex_shm_object i b) = replicate 32 (-1)"
  by (simp add: ex_shm_object_def shm_layout_def Let_def)

lemma TEST_BIT_extremes:
  "TEST_BIT 0 e = False" "unat e < 32 \<Longrightarrow> TEST_BIT (- 1) e = True"
  by (simp add: TEST_BIT_def) (simp add: TEST_BIT_iff)

lemma ex_shm_rel: "shm_pair_rel ex_shm_config (ex_shm_object 1 False) (ex_shm_object 0 True, ex_shm_mem) ex_shm_slots"
  unfolding shm_pair_rel_def shm_rel_def fst_conv snd_conv
  using ex_shm_wired ex_shm_chart
  by (simp add: ex_shm_mem_def ex_shm_slots_def ctrl_rel_def slot_rel_def TEST_BIT_extremes chart_of_def
      ex_shm_config_def word_less_nat_alt)

text \<open>The same with the default poll count, event 5 registered and its slot filled.\<close>

definition ex_shm_default :: shm_config where
  "ex_shm_default = ex_shm_config\<lparr>shc_pollCount := -1\<rparr>"

definition ex_shm_busy :: slot_table where
  "ex_shm_busy = ex_shm_slots\<lparr>st_evs := [5], st_slot := (st_slot ex_shm_slots)(5 := Some 2)\<rparr>"

lemma ex_shm_busy_rel: "\<exists>ro m. shm_rel ex_shm_default (ex_shm_object 1 False) ro m ex_shm_busy"
proof -
  let ?ops = "[S_register 5, S_send 5 2 True]"
  have "shm_pair_rel ex_shm_default (ex_shm_object 1 False) (ex_shm_object 0 True, ex_shm_mem) ex_shm_slots"
    using ex_shm_rel by (simp add: shm_pair_rel_def shm_rel_def shm_wired_def ex_shm_default_def)
  moreover have "shm_rounds 2000 ex_shm_default"
    by (simp add: shm_rounds_def ex_shm_default_def ex_shm_config_def)
  moreover have "allowed_run (shm_allowed ex_shm_default) shm_spec ?ops ex_shm_slots"
    by (simp add: ex_shm_slots_def ex_shm_default_def ex_shm_config_def)
  ultimately obtain t where
    "shm_pair_rel ex_shm_default (ex_shm_object 1 False) t (snd (spec_run shm_spec ?ops ex_shm_slots))"
    using shm_run_refines by blast
  moreover have "snd (spec_run shm_spec ?ops ex_shm_slots) = ex_shm_busy"
    by (simp add: ex_shm_slots_def ex_shm_busy_def fun_eq_iff)
  ultimately show ?thesis unfolding shm_pair_rel_def by (cases t) auto
qed

section \<open>A start-up of the regions\<close>

text \<open>
  Two regions, of which another processor owns the second; 256 bytes of the first are reserved,
  and no heap has been made yet.
\<close>

definition ex_regions :: region_state where
  "ex_regions = \<lparr>rs_mod = \<lparr>sr_regions =
       [\<lparr>rg_entry = ex_entry 0x80000000 0x100000 True ''ddr'', rg_reservedSize = 0x100, rg_heap = NULL\<rparr>,
        \<lparr>rg_entry = (ex_entry 0xA0000000 0x10000 False ''ocm'')\<lparr>re_ownerProcId := 1\<rparr>,
         rg_reservedSize = 0, rg_heap = NULL\<rparr>, \<lparr>rg_entry = (ex_entry 0 0 False '''')\<lparr>re_isValid := False\<rparr>,
         rg_reservedSize = 0, rg_heap = NULL\<rparr>],
       sr_translate = True, sr_numOffsetBits = 28, sr_offsetMask = 0x0FFFFFFF,
       sr_cacheLineSize = 128, sr_asserts = True, sr_self = 0, sr_typeAlign = 8\<rparr>,
     rs_mem = \<lparr>mm_hdr = (\<lambda>a. \<lparr>mh_next = 0, mh_size = 0\<rparr>),
       mm_attrs = (\<lambda>a. \<lparr>ma_status = 0, ma_bufPtr = 0, ma_gateMPAddr = 0\<rparr>), mm_log = []\<rparr>,
     rs_heaps = (\<lambda>_. None), rs_fresh = [(0x600, ex_heap), (0x640, ex_heap)], rs_released = []\<rparr>"

definition ex_region_env :: ipc_env where
  "ex_region_env = \<lparr>env_defaultGate = 0x300, env_gateAddr = (\<lambda>g. 0x80000080), env_gateOpen = Some,
     env_alloc = (\<lambda>h n al. NULL), env_nsAdd = (\<lambda>nm v. 1)\<rparr>"

lemma ex_regions_index: "i < 3 \<Longrightarrow> i = 0 \<or> i = 1 \<or> i = (2::nat)" by auto

lemma ex_regions_ok: "region_ok ex_regions"
proof -
  have v: "valid_entry (rs_mod ex_regions) i \<longleftrightarrow> i = 0 \<or> i = 1" for i
    using ex_regions_index [of i]
    by (auto simp: valid_entry_def ex_regions_def ex_entry_def SharedRegion_numEntries_def less_Suc_eq numeral_3_eq_3)
  have "sr_wf (rs_mod ex_regions)"
    unfolding sr_wf_def v
    by (auto simp: ex_regions_def entry_fits_def entries_disjoint_def ex_entry_def SharedRegion_numEntries_def)
  moreover have "heaps_ok (map rg_heap (sr_regions (rs_mod ex_regions))) (rs_heaps ex_regions) (rs_fresh ex_regions)"
    by (auto simp: heaps_ok_def ex_regions_def less_Suc_eq)
  ultimately show ?thesis by (simp add: region_ok_def)
qed

lemma ex_regions_room: "heap_room (rs_region ex_regions 0)"
  unfolding heap_room_def
  by (intro exI [of _ 7]) (simp add: rs_region_def ex_regions_def ex_entry_def heap_align_def)

lemma ex_regions_start: "\<exists>t. SharedRegion_start ex_region_env ex_regions = Ok (SR_SUCCESS, t) \<and> rg_heap (rs_region t 0) = 0x600"
  by (simp add: SharedRegion_start_def all_regions_def ex_regions_def ex_entry_def SharedRegion_numEntries_def
      rs_region_def upt_rec start_region_def region_heap_params_def HeapMemMP_sharedMemReq_def SharedRegion_getId_def
      region_contains_def SharedRegion_INVALIDREGIONID_def HeapMemMP_create_def HeapMemMP_getRTSCParams_def
      HeapMemMP_Params_init_def heap_instance_def HeapMemMP_Instance_init_def SharedRegion_getCacheLineSize_def
      SharedRegion_isCacheEnabled_def heap_minAlign_def HeapMemMP_postInit_def Ipc_roundup_def ex_heap_def
      SharedRegion_getSRPtr_def rs_put_def region_set_heap_def Let_def ex_region_env_def)

definition ex_region_ops :: "region_op list" where
  "ex_region_ops = [R_setEntry 2 ((ex_entry 0x90000000 0x1000 False ''shm'')\<lparr>re_createHeap := False\<rparr>), R_start,
     R_clearReserved, R_reserve 2 24, R_stop, R_clearEntry 1]"

lemma ex_region_fits: "\<forall>op\<in>set ex_region_ops. region_op_fits (sr_numOffsetBits (rs_mod ex_regions)) op"
  by (simp add: ex_region_ops_def ex_entry_def entry_fits_def ex_regions_def)

lemma ex_region_run: "\<exists>t. run_ops (region_step ex_region_env) ex_region_ops ex_regions = Ok ([(), (), (), (), (), ()], t) \<and>
   re_isValid (rg_entry (rs_region t 2))"
  by (simp add: ex_region_ops_def SharedRegion_start_def all_regions_def ex_regions_def ex_entry_def SharedRegion_numEntries_def
      rs_region_def upt_rec start_region_def region_heap_params_def HeapMemMP_sharedMemReq_def SharedRegion_getId_def
      region_contains_def SharedRegion_INVALIDREGIONID_def HeapMemMP_create_def HeapMemMP_getRTSCParams_def
      HeapMemMP_Params_init_def heap_instance_def HeapMemMP_Instance_init_def SharedRegion_getCacheLineSize_def
      SharedRegion_isCacheEnabled_def heap_minAlign_def HeapMemMP_postInit_def Ipc_roundup_def ex_heap_def
      SharedRegion_getSRPtr_def rs_put_def region_set_heap_def Let_def ex_region_env_def ignoring_def
      SharedRegion_setEntry_def SharedRegion_checkOverlap_def setEntry_heap_def SharedRegion_stop_def stop_region_def
      HeapMemMP_delete_def heap_finalize_def HeapMemMP_Instance_finalize_def SharedRegion_clearEntry_def
      SharedRegion_reserveMemory_def SharedRegion_clearReservedMemory_def clear_region_def set_region_def created_dynamic_def
      SharedRegion_entryInit_def)

end
