(* ===== verification/Spec2Isabelle.thy ===== *)
theory Spec2Isabelle
imports Examples
begin

text \<open>
  A model of the inter-processor communication modules of TI IPC (\<open>src/packages/ti/sdo\<close>):
  the services that SYS/BIOS processors of one system-on-chip use to share memory, take turns,
  name things and send messages and notifications, with the theorems that make them correct.

  \<^bold>\<open>The parts and how they fit.\<close> \<open>MultiProc\<close> says which processor this is.
  \<open>SharedRegion\<close> cuts memory into regions and turns the address of a byte on one processor
  into a portable shared-region pointer and back. \<open>ListMP\<close> keeps doubly linked lists of such
  pointers; the pools of \<open>HeapBufMP\<close> keep their free blocks on one, the heap of
  \<open>HeapMemMP\<close> a chain of free blocks of its own. These work under a gate, of which
  \<open>GatePeterson\<close> is the one for two processors and \<open>GatePetersonN\<close> the one for more, and call
  the cache where a region is cached.
  \<open>List\<close> is the list of one processor; \<open>NameServer\<close> keeps its entries on two of them
  and \<open>MessageQ\<close> each queue's messages, by priority. \<open>Notify\<close> registers
  the listeners of an event on the same lists; its driver \<open>NotifyDriverCirc\<close> carries
  notifications through a circular buffer in each direction, \<open>NotifyDriverShm\<close> through one slot
  for each event.

  \<^bold>\<open>Theories.\<close> \<open>IPC_Prelude\<close>: machine types (32-bit words for pointers and sizes),
  faults and results, assertions, arrays, the rounding and bit macros, logs of gate and cache
  events. \<open>Queues\<close> and \<open>NameTables\<close>: the interfaces (a queue, one with insertion at the
  head, a double-ended queue, a mailbox with priorities; a table of names) as locales, with what
  follows from their laws for any run of operations. \<open>LinkedRings\<close>: rings of doubly linked
  elements, for both list modules. Then one theory for each source file, named after it:
  \<open>SharedRegion\<close>, \<open>ListMP\<close>, \<open>HeapBufMP\<close>, \<open>HeapMemMP\<close> (with \<open>FreeList\<close> for the
  free chain and \<open>Heaps\<close> for the contract of an allocator), \<open>SharedRegionHeap\<close> and
  \<open>SharedRegion_Runs\<close> (the operations of \<open>SharedRegion\<close> that work on the heaps of the
  regions, and what they keep), \<open>GatePeterson\<close>,
  \<open>GatePetersonN\<close>, \<open>UtilsList\<close> (\<open>utils/List.c\<close>), \<open>MultiProc\<close>, \<open>NameServer\<close> and \<open>NameServer_Tables\<close>
  (creation, growth, deletion, races and remote look-ups), \<open>MessageQ\<close> and
  \<open>MessageQ_Table\<close> (the table of queues), \<open>Notify\<close> and \<open>Notify_Lines\<close> (a line as a
  table of listeners), \<open>NotifyDriverCirc\<close>, \<open>NotifyDriverShm\<close> and
  \<open>NotifyDriverShm_Slots\<close> (the line as a table of slots). \<open>Examples\<close> builds one
  concrete system for the properties to be applied to. Definitions bear the names of the C
  functions; records those of the structures, their fields with a prefix.

  \<^bold>\<open>How code becomes a definition.\<close> Memory is a function from addresses to the cells a
  module keeps there, in an explicit state. A run ends with \<open>Ok\<close> and a result or with \<open>Err\<close>
  and a fault: a failed assertion (where the configuration has them on), an access through a bad
  pointer or outside an array, a division by zero, a read of freed memory. Gate, cache, heap and
  interrupt calls are kept in logs, newest first. A loop is structural recursion, recursion with a
  measure, or takes fuel and answers \<open>Out_of_fuel\<close> when it runs out; a theorem about such a
  loop shows that the fuel it names is enough: the length of the list walked (lists and name
  tables), the entries in the buffer (the service routine), the rounds a sender or a receiver
  waits, the signals a queue's synchronizer still holds. What lies outside the
  sources (heaps of the runtime, semaphores, transports, remote
  drivers) is a record of functions that the operations take.

  \<^bold>\<open>What the lemmas show.\<close> Each component theory has a representation predicate (a region
  table in order, a ring that holds a list, the free blocks of a pool, the invariant of the gate,
  the lists of a queue, the entries of a name table, the listeners of a line, the events of a
  buffer), that every operation
  keeps it on every branch, and the operation's effect in terms of what it represents. The
  interpretations of the locales (\<open>lmp\<close>, \<open>ul\<close>, \<open>hb\<close>, \<open>hm\<close>, \<open>mq\<close>, \<open>ns\<close>) then give the run
  theorems below. The gates are interleavings of steps of two or of \<open>N\<close> processors, each
  behind a cache of its own, with reachable states and an invariant by rule induction (a processor
  nests its enters less than \<open>2^32\<close> deep, where the counter wraps); for \<open>N\<close>
  the processors with a claim of a stage are counted.

  \<^bold>\<open>Not modelled.\<close> The other gates, heaps, drivers and the
  start-up handshake of the same package are next in the plan (in that order:
  \<open>HeapMultiBufMP\<close>, \<open>GateMP\<close>,
  \<open>Ipc\<close>, the transports). Device set-up, interrupt registers, power management and exception
  handling are hardware glue; the Linux and QNX trees run the same services over sockets, threads
  and drivers of the operating system; loaders and tests are left out. Weak memory is modelled
  only where the code defends against it (the caches of the two gates); elsewhere the
  position of cache calls is recorded and memory is coherent.
\<close>

text \<open>C1. On a well-formed region table with translation on, an address inside a region is found in that region by SharedRegion_getId, and turning it into an SRPtr with SharedRegion_getSRPtr and back with SharedRegion_getPtr gives the address again, unless it is the one address whose SRPtr is the reserved invalid value.\<close>

theorem sharedregion_roundtrip:
  assumes "sr_wf M" and "sr_translate M" and "in_region M i a" and "a \<noteq> NULL"
    and "\<not> (Suc i = 2 ^ (32 - sr_numOffsetBits M) \<and>
            unat a + 1 = unat (re_base (rg_entry (sr_regions M ! i))) + 2 ^ sr_numOffsetBits M)"
  shows "unat (SharedRegion_getId M a) = i \<and>
    (\<exists>p. SharedRegion_getSRPtr M a (SharedRegion_getId M a) = Ok p \<and>
         p \<noteq> SharedRegion_INVALIDSRPTR \<and> SharedRegion_getPtr M p = Ok a)"
proof -
  have ok: "srptr_of M i a \<noteq> SharedRegion_INVALIDSRPTR"
    using srptr_of_invalid [OF assms(1,3)] assms(5) by blast
  have "i < SharedRegion_numEntries M" using assms(3) by (simp add: in_region_def valid_entry_def)
  then show ?thesis
    using getId_in_region [OF assms(1,3)] getSRPtr_in_region [OF assms(1-4)]
      getPtr_srptr_of [OF assms(1-3) ok] ok unat_region_id [OF assms(1)] by simp
qed

lemma sharedregion_roundtrip_witness:
  "unat (SharedRegion_getId ex_sr 0xA0000040) = 1 \<and>
    (\<exists>p. SharedRegion_getSRPtr ex_sr 0xA0000040 (SharedRegion_getId ex_sr 0xA0000040) = Ok p \<and>
         p \<noteq> SharedRegion_INVALIDSRPTR \<and> SharedRegion_getPtr ex_sr p = Ok 0xA0000040)"
  by (rule sharedregion_roundtrip [OF ex_sr_wf]) (simp_all add: ex_in_region [unfolded One_nat_def])

text \<open>C2. Whatever is done to the region table (entries that fit the address space set and cleared, memory reserved, heaps created, opened, closed and deleted at start-up, attachment, detachment and stop), the valid regions never overlap, no address is in two of them, and the heap of a region, where it has one, is a live instance that no other region has.\<close>

theorem sharedregion_stays_apart:
  assumes "region_ok s" and "\<forall>op\<in>set ops. region_op_fits (sr_numOffsetBits (rs_mod s)) op"
    and "run_ops (region_step env) ops s = Ok (us, t)"
  shows "sr_wf (rs_mod t) \<and>
    (\<forall>i j a. in_region (rs_mod t) i a \<longrightarrow> in_region (rs_mod t) j a \<longrightarrow> i = j) \<and>
    (\<forall>i < SharedRegion_numEntries (rs_mod t). rg_heap (rs_region t i) \<noteq> NULL \<longrightarrow>
       (\<exists>obj. rs_heaps t (rg_heap (rs_region t i)) = Some obj) \<and>
       (\<forall>j < SharedRegion_numEntries (rs_mod t). i \<noteq> j \<longrightarrow>
          rg_heap (rs_region t i) \<noteq> rg_heap (rs_region t j)))"
proof -
  have "region_inv (SharedRegion_numEntries (rs_mod s)) (sr_numOffsetBits (rs_mod s)) s"
    using assms(1) by (simp add: region_inv_def)
  from region_run_keeps [OF this assms(2,3)] have ok: "region_ok t" by (simp add: region_inv_def)
  note H = region_okD(2) [OF ok, unfolded heaps_ok_def]
  show ?thesis
    using region_okD(1) [OF ok] in_region_unique [OF region_okD(1) [OF ok]] H
    by (simp add: rs_region_def SharedRegion_numEntries_def)
qed

lemma sharedregion_stays_apart_witness:
  "\<exists>t. run_ops (region_step ex_region_env) ex_region_ops ex_regions = Ok ([(), (), (), (), (), ()], t) \<and>
     sr_wf (rs_mod t) \<and> re_isValid (rg_entry (rs_region t 2))"
  using ex_region_run sharedregion_stays_apart [OF ex_regions_ok ex_region_fits] by blast

text \<open>C3. Every heap that SharedRegion_start makes in a region outgrows it: whenever the region had no heap, has room for one and comes out with one, the end of the heap's buffer lies beyond the end of the region, as the size handed to the heap is twice what is left in the region.\<close>

theorem sharedregion_heap_overruns:
  assumes "region_ok s" and "i < SharedRegion_numEntries (rs_mod s)" and "heap_room (rs_region s i)"
    and "rg_heap (rs_region s i) = NULL" and "SharedRegion_start env s = Ok (st, t)"
    and "rg_heap (rs_region t i) \<noteq> NULL"
  shows "\<exists>obj. rs_heaps t (rg_heap (rs_region t i)) = Some obj \<and>
    unat (re_base (rg_entry (rs_region s i))) + unat (re_len (rg_entry (rs_region s i)))
      < unat (mo_buf obj) + unat (mo_bufSize obj)"
  using start_overruns [OF assms] by (auto simp: heap_overruns_def)

lemma sharedregion_heap_overruns_witness:
  "\<exists>t obj. SharedRegion_start ex_region_env ex_regions = Ok (SR_SUCCESS, t) \<and> rs_heaps t 0x600 = Some obj \<and>
     0x80100000 < unat (mo_buf obj) + unat (mo_bufSize obj)"
proof -
  obtain t where t: "SharedRegion_start ex_region_env ex_regions = Ok (SR_SUCCESS, t)" "rg_heap (rs_region t 0) = 0x600"
    using ex_regions_start by blast
  have "0 < SharedRegion_numEntries (rs_mod ex_regions)" "rg_heap (rs_region ex_regions 0) = NULL"
    "unat (re_base (rg_entry (rs_region ex_regions 0))) + unat (re_len (rg_entry (rs_region ex_regions 0))) = 0x80100000"
    by (simp_all add: ex_regions_def SharedRegion_numEntries_def rs_region_def ex_entry_def)
  with sharedregion_heap_overruns [OF ex_regions_ok _ ex_regions_room _ t(1)] t show ?thesis by auto
qed

text \<open>C4. Any run of ListMP_putTail and ListMP_getHead calls on a list that holds xs, each put being of a portable element that is not on the list, never goes wrong and gives exactly the answers of a first-in first-out queue (NULL when it is empty), and the list then holds what the queue holds.\<close>

theorem listmp_runs_as_queue:
  assumes "lmp_ring M obj xs s"
    and "allowed_run (queue_allowed (lmp_fit M obj)) (queue_spec NULL) ops xs"
  shows "\<exists>s'. run_ops (queue_step (ListMP_putTail B M obj) (ListMP_getHead B M obj)) ops s =
      Ok (fst (spec_run (queue_spec NULL) ops xs), s') \<and>
    lmp_ring M obj (snd (spec_run (queue_spec NULL) ops xs)) s'"
  using lmp.queue_run_refines [of M obj s xs ops B] assms by (simp add: lmp_repr_def)

lemma listmp_runs_as_queue_witness:
  "\<exists>s'. run_ops (queue_step (ListMP_putTail ex_build ex_sr ex_list) (ListMP_getHead ex_build ex_sr ex_list))
      [Get, Put 0x80002100, Get, Get, Get] ex_list_mem =
      Ok ([0x80002000, 0x80002100, 0x80002080, 0x80002100, NULL], s') \<and>
    lmp_ring ex_sr ex_list [] s'"
  using listmp_runs_as_queue [OF ex_list_ring, of "[Get, Put 0x80002100, Get, Get, Get]" ex_build]
    ex_portable(1) [of "0x80002100"]
  by (simp add: lmp_fit_def ListMP_head_def ex_list_def)

text \<open>C5. Whatever sequence of HeapMemMP_alloc and HeapMemMP_free calls a client makes on a heap (requests being non-empty, aligned to a power of two and small enough not to wrap around 32 bits; frees being of blocks it holds), no assertion fails, no loop runs on, and at the end the blocks it holds do not overlap and, with the free blocks, tile the whole buffer, so that nothing is lost.\<close>

theorem heapmem_client_safe:
  assumes "hm_live M obj k s {}" and "\<forall>op \<in> set ops. heap_op_ok (hm_req k) op"
  shows "\<exists>held s'. heap_client (HeapMemMP_alloc M (Suc (unat (mo_bufSize obj))) obj)
      (HeapMemMP_free M (Suc (unat (mo_bufSize obj))) obj) ops [] s = Ok (held, s') \<and>
    blocks_apart held \<and> hm_live M obj k s' (set held)"
  using hm.client_run [of M obj k s "[]" ops] assms by auto

lemma heapmem_client_safe_witness:
  "\<exists>held s'. heap_client (HeapMemMP_alloc ex_sr 4097 ex_heap) (HeapMemMP_free ex_sr 4097 ex_heap)
      [Alloc 100 8, Alloc 300 0x100, Free 1, Alloc 64 128] [] ex_heap_mem = Ok (held, s') \<and>
    blocks_apart held \<and> hm_live ex_sr ex_heap 7 s' (set held)"
proof -
  have "hm_req 7 100 8" "hm_req 7 300 0x100" "hm_req 7 64 128"
    unfolding hm_req_def round_up_def
    by (simp, rule exI [of _ 3], simp) (simp, rule exI [of _ 8], simp, simp, rule exI [of _ 7], simp)
  then show ?thesis
    using heapmem_client_safe [OF ex_heap_live, of "[Alloc 100 8, Alloc 300 0x100, Free 1, Alloc 64 128]"]
    by (simp add: ex_heap_def)
qed

text \<open>C6. Whatever the two processors of a GatePeterson gate do, as long as neither nests its enters 2^32 deep (where the 32-bit counter wraps), and whenever their caches write back or fetch lines on their own, with caching on or off: the two are never inside the gate at the same time, and the nesting counter of a processor is 0 exactly when it is outside or on the last step of its last leave.\<close>

theorem gate_mutual_exclusion:
  assumes "gp_reach c False s"
  shows "\<not> (gs_pc s Side0 = Inside \<and> gs_pc s Side1 = Inside) \<and>
    (\<forall>p. gs_nested s p = 0 \<longleftrightarrow> gs_pc s p = Outside \<or> gs_pc s p = Flag_cleared)"
  using gp_exclusive [OF gp_reach_ok [OF assms], of Side0] gp_reach_counts [OF assms]
  by (simp add: gp_counts_def)

lemma gate_mutual_exclusion_witness:
  "\<not> (gs_pc (GatePeterson_enter True Side0 GatePeterson_postInit) Side0 = Inside \<and>
      gs_pc (GatePeterson_enter True Side0 GatePeterson_postInit) Side1 = Inside) \<and>
   (\<forall>p. gs_nested (GatePeterson_enter True Side0 GatePeterson_postInit) p = 0 \<longleftrightarrow>
      gs_pc (GatePeterson_enter True Side0 GatePeterson_postInit) p = Outside \<or>
      gs_pc (GatePeterson_enter True Side0 GatePeterson_postInit) p = Flag_cleared)"
  by (rule gate_mutual_exclusion [OF gp_reach.move [OF gp_reach.start gp_step.enter]])
    (simp_all add: GatePeterson_postInit_def)

text \<open>C7. When both processors of a GatePeterson gate spin in enter, one of them is through after four more steps of its own, so that they cannot wait for each other for ever, however deep the enters have been nested (w).\<close>

theorem gate_no_deadlock:
  assumes "gp_reach c w s" and "gs_pc s Side0 = Spin_flag" and "gs_pc s Side1 = Spin_flag"
  shows "\<exists>p. gs_pc (gp_steps c p 4 s) p = Inside"
proof -
  have "gs_pc s q = Spin_flag" for q using assms(2,3) by (cases q) simp_all
  then show ?thesis by (rule gp_no_deadlock [OF gp_reach_ok [OF assms(1)]])
qed

lemma gate_no_deadlock_witness: "\<exists>p. gs_pc (gp_steps False p 4 ex_gate) p = Inside"
  by (rule gate_no_deadlock [OF ex_gate_reach ex_gate_spin])

text \<open>C8. In every state that the N processors of GatePetersonN can reach from the initialised gate, by entering, leaving and stepping in any interleaving while their caches fetch and drop clean lines at any time (or with caching off), at most one processor is inside the gate. Entering is nested as deep as one likes short of 2^32 times, where the 32-bit counter of the code wraps to 0.\<close>

theorem gate_n_mutual_exclusion:
  assumes "gn_reach c False N s" and "p < N" and "q < N" and "nm_pc s p = S_in" and "nm_pc s q = S_in"
  shows "p = q"
  by (rule gn_exclusion [OF gn_reach_ok [OF assms(1)] assms(2-)])

lemma gate_n_mutual_exclusion_witness:
  "\<exists>s. gn_reach True False 3 s \<and> nm_pc s 1 = S_in \<and> (\<forall>q<3. nm_pc s q = S_in \<longrightarrow> q = 1)"
proof -
  let ?ms = "[G_enter 0, G_step 0, G_step 0, G_enter 1] @ replicate 20 (G_step 1)"
  have run: "case gn_run True False 3 ?ms GatePetersonN_postInit of Some s \<Rightarrow> nm_pc s 1 = S_in | None \<Rightarrow> False"
    by (simp add: GatePetersonN_postInit_def GatePetersonN_enter_def GatePetersonN_enter_step_def
        gn_stage_def gn_check_def gn_access_defs GatePetersonN_NOT_INTERESTED_def numeral_eq_Suc)
  show ?thesis
  proof (cases "gn_run True False 3 ?ms GatePetersonN_postInit")
    case (Some s)
    have s: "gn_reach True False 3 s" by (rule gn_run_reach [OF gn_reach.start Some])
    have i: "nm_pc s 1 = S_in" using run Some by simp
    have "q = 1" if "q < 3" "nm_pc s q = S_in" for q
      by (rule gate_n_mutual_exclusion [OF s that(1) _ that(2) i]) simp
    with s i show ?thesis by blast
  qed (use run in simp)
qed

text \<open>C9. If a cache may write a dirty line back of its own accord, two processors can both be inside the gate: GatePetersonN_enter writes its stage and its name before it writes the first of the two back, and the name may reach memory before the stage does.\<close>

theorem gate_n_early_write_back:
  "\<exists>s. gn_reach True True 2 s \<and> nm_pc s 0 = S_in \<and> nm_pc s 1 = S_in"
proof (cases "gn_run True True 2 gn_early GatePetersonN_postInit")
  case (Some s)
  have "gn_reach True True 2 s" by (rule gn_run_reach [OF gn_reach.start Some])
  with gn_early_run Some show ?thesis by auto
qed (use gn_early_run in simp)

section \<open>Message queues\<close>

text \<open>C10. On any run of MessageQ_put and MessageQ_get calls, one after the other, on a queue, whatever the priorities, nothing goes wrong, every call returns (with one round of get's loop more than there are pending signals), and the messages received together with those that wait at the end are exactly those that waited at the start and those sent: none is lost and none is delivered twice. The synchronizer may be any whose waits leave the module alone (no other thread acts in the middle of one) and succeed only on a signal still pending, such as the default SyncSem, which every put signals: the waits may succeed, time out or fail, with any timeout, and get goes round its loop while they succeed. The queue is on this processor and no put hook is set.\<close>

theorem messageq_no_loss:
  assumes "mq_box E C qid obj ob P pend s q"
    and "allowed_run (mail_allowed (mq_fit ob)) (mail_spec P NULL) ops q"
  shows "\<exists>rs s' q'. run_ops (mail_step (MessageQ_put E C qid) (mq_take E pend obj t)) ops s = Ok (rs, s') \<and>
    mq_box E C qid obj ob P pend s' q' \<and>
    mset (mail_received NULL ops rs) + mset (mail_waiting q') = mset (mail_waiting q) + mset (mail_sent ops)"
  by (rule mq.mail_run_conserved [OF assms])

lemma messageq_no_loss_witness:
  "\<exists>rs s' q'. run_ops (mail_step (MessageQ_put ex_mqe ex_mqc (MessageQ_openQueueId 0 0))
      (mq_take ex_mqe (ex_pend 0x500) 0x80004000 10)) [Send 0x80005000, Receive, Send 0x80005100, Send 0x80005200, Receive] ex_mq =
      Ok (rs, s') \<and>
    mset (mail_received NULL [Send 0x80005000, Receive, Send 0x80005100, Send 0x80005200, Receive] rs) +
      mset (mail_waiting q') = {#0x80005000, 0x80005100, 0x80005200#}"
  using messageq_no_loss [OF ex_mq_box,
      of "[Send 0x80005000, Receive, Send 0x80005100, Send 0x80005200, Receive]" 10]
  by (fastforce simp: mq_fit_def ex_queue_def mail_waiting_def)

text \<open>C11. A run of MessageQ_put and MessageQ_get calls, one after the other, on a queue gives the answers of the specification, in which an urgent message overtakes all that wait, those of high (or the reserved) priority come before those of normal priority, each kind keeps its order otherwise, and only an empty queue gives none. The synchronizer may be any whose waits leave the module alone (no other thread acts in the middle of one) and succeed only on a signal still pending, such as the default SyncSem, which every put signals: the waits may succeed, time out or fail, with any timeout, and get goes round its loop while they succeed. The queue is on this processor and no put hook is set.\<close>

theorem messageq_priorities:
  assumes "mq_box E C qid obj ob P pend s q"
    and "allowed_run (mail_allowed (mq_fit ob)) (mail_spec P NULL) ops q"
  shows "\<exists>s'. run_ops (mail_step (MessageQ_put E C qid) (mq_take E pend obj t)) ops s =
      Ok (fst (spec_run (mail_spec P NULL) ops q), s') \<and>
    mq_box E C qid obj ob P pend s' (snd (spec_run (mail_spec P NULL) ops q))"
  by (rule mq.mail_run_refines [OF assms])

lemma messageq_priorities_witness:
  "\<exists>s'. run_ops (mail_step (MessageQ_put ex_mqe ex_mqc (MessageQ_openQueueId 0 0))
      (mq_take ex_mqe (ex_pend 0x500) 0x80004000 10))
      [Send 0x80005000, Send 0x80005100, Send 0x80005200, Receive, Receive, Receive, Receive] ex_mq =
      Ok ([0x80005000, 0x80005100, 0x80005200, 0x80005200, 0x80005100, 0x80005000, NULL], s')"
  using messageq_priorities [OF ex_mq_box,
      of "[Send 0x80005000, Send 0x80005100, Send 0x80005200, Receive, Receive, Receive, Receive]" 10]
  by (fastforce simp: mq_fit_def ex_queue_def mail_waiting_def)

text \<open>C12. On a run of MessageQ_put and MessageQ_get calls, one after the other, messages of normal priority are received in the order in which they were sent, whatever messages of other priorities come in between. The synchronizer may be any whose waits leave the module alone (no other thread acts in the middle of one) and succeed only on a signal still pending, such as the default SyncSem, which every put signals: the waits may succeed, time out or fail, with any timeout, and get goes round its loop while they succeed. The queue is on this processor and no put hook is set.\<close>

theorem messageq_normal_in_order:
  assumes "mq_box E C qid obj ob P pend s ([], lo)" and "\<forall>m \<in> set lo. P m = Normal"
    and "allowed_run (mail_allowed (mq_fit ob)) (mail_spec P NULL) ops ([], lo)"
  shows "\<exists>rs s' q'. run_ops (mail_step (MessageQ_put E C qid) (mq_take E pend obj t)) ops s = Ok (rs, s') \<and>
    mq_box E C qid obj ob P pend s' q' \<and>
    filter (\<lambda>m. P m = Normal) (mail_received NULL ops rs) @ snd q' =
      lo @ filter (\<lambda>m. P m = Normal) (mail_sent ops)"
proof -
  have "NULL \<notin> set (mail_waiting ([], lo))" using mq.repr_fit [OF assms(1)] mq.nil_unfit [of ob] by blast
  then have "filter (\<lambda>m. P m = Normal) (mail_received NULL ops (fst (spec_run (mail_spec P NULL) ops ([], lo)))) @
      snd (snd (spec_run (mail_spec P NULL) ops ([], lo))) = lo @ filter (\<lambda>m. P m = Normal) (mail_sent ops)"
    using mail_run_order [OF _ assms(3) mq.nil_unfit] assms(2) by simp
  then show ?thesis using mq.mail_run_refines [OF assms(1,3)] by blast
qed

lemma messageq_normal_in_order_witness:
  "\<exists>rs s' q'. run_ops (mail_step (MessageQ_put ex_mqe ex_mqc (MessageQ_openQueueId 0 0))
      (mq_take ex_mqe (ex_pend 0x500) 0x80004000 10)) [Send 0x80005000, Send 0x80005200, Receive, Receive] ex_mq = Ok (rs, s') \<and>
    filter (\<lambda>m. mq_priority (qs_msg ex_mq m) = Normal)
      (mail_received NULL [Send 0x80005000, Send 0x80005200, Receive, Receive] rs) @ snd q' = [0x80005000]"
  using messageq_normal_in_order [OF ex_mq_box, of "[Send 0x80005000, Send 0x80005200, Receive, Receive]" 10]
  by (fastforce simp: mq_fit_def ex_queue_def mail_waiting_def)

text \<open>C13. Putting a message on a queue changes no other list of the processor: any list whose head and elements are neither the queue's nor the message itself holds what it held before, and no queue object and no other message header changes.\<close>

theorem messageq_put_isolated:
  assumes "mq_routed C qid obj s" and "mq_nohook s"
    and "mq_lists (qs_obj s obj) (qs_list s) (hi, lo)"
    and "m \<noteq> NULL" and "m \<notin> mq_nodes (qs_obj s obj) (hi, lo)"
    and "list_ring h (qs_list s) xs"
    and "set (h # xs) \<inter> insert m (mq_nodes (qs_obj s obj) (hi, lo)) = {}"
  shows "\<exists>s'. MessageQ_put E C qid m s = Ok (MessageQ_S_SUCCESS, s') \<and>
    list_ring h (qs_list s') xs \<and> qs_obj s' = qs_obj s \<and> (\<forall>a. a \<noteq> m \<longrightarrow> qs_msg s' a = qs_msg s a)"
proof -
  obtain s' where s': "MessageQ_put E C qid m s = Ok (MessageQ_S_SUCCESS, s')"
    "list_frame (insert m (mq_nodes (qs_obj s obj) (hi, lo))) (qs_list s) (qs_list s')" "qs_obj s' = qs_obj s"
    "qs_msg s' = (qs_msg s)(m := (qs_msg s m)\<lparr>mg_dstId := ucast qid, mg_dstProc := ucast (drop_bit 16 qid)\<rparr>)"
    using MessageQ_put_local_lists [OF assms(1-5), of E] by blast
  then show ?thesis using list_ring_frame [OF s'(2) assms(6)] assms(7) by auto
qed

lemma messageq_put_isolated_witness:
  "\<exists>s'. MessageQ_put ex_mqe ex_mqc (MessageQ_openQueueId 0 0) 0x80005000 ex_mq = Ok (MessageQ_S_SUCCESS, s') \<and>
    list_ring 0x80006100 (qs_list s') [] \<and> qs_obj s' = qs_obj ex_mq \<and>
    (\<forall>a. a \<noteq> 0x80005000 \<longrightarrow> qs_msg s' a = qs_msg ex_mq a)"
  by (rule messageq_put_isolated [OF mq_box_parts(1,2) [OF ex_mq_box], of "[]" "[]"])
    (simp_all add: mq_lists_def list_ring_def dring_def mq_nodes_def ex_mq_def ex_queue_def)

text \<open>C14. MessageQ_get on an empty queue waits on its synchronizer; when the wait times out, fails, or ends after MessageQ_unblock, it returns no message and says so; when a message arrived in the meantime it returns that message.\<close>

theorem messageq_get_times_out:
  assumes "mq_lists (qs_obj s obj) (qs_list s) ([], [])"
  shows "\<exists>s1. list_quiet s s1 \<and> (\<forall>w s2. me_wait E (mq_synchronizer (qs_obj s obj)) timeout s1 = (w, s2) \<longrightarrow>
    (w = Wait_timeout \<longrightarrow> MessageQ_get E (Suc (Suc n)) obj timeout s = Ok (MessageQ_E_TIMEOUT, NULL, s2)) \<and>
    (w = Wait_error \<longrightarrow> MessageQ_get E (Suc (Suc n)) obj timeout s = Ok (MessageQ_E_FAIL, NULL, s2)) \<and>
    (w = Wait_success \<longrightarrow> mq_unblocked (qs_obj s2 obj) \<longrightarrow>
       MessageQ_get E (Suc (Suc n)) obj timeout s = Ok (MessageQ_E_UNBLOCKED, NULL, s2)) \<and>
    (\<forall>q m ms. w = Wait_success \<longrightarrow> \<not> mq_unblocked (qs_obj s2 obj) \<longrightarrow>
       mq_lists (qs_obj s2 obj) (qs_list s2) q \<longrightarrow> mail_waiting q = m # ms \<longrightarrow>
       (\<exists>s3. MessageQ_get E (Suc (Suc n)) obj timeout s = Ok (MessageQ_S_SUCCESS, m, s3))))"
proof -
  obtain s1 where s1: "list_quiet s s1" "MessageQ_get E (Suc (Suc n)) obj timeout s =
    (case me_wait E (mq_synchronizer (qs_obj s obj)) timeout s1 of
       (Wait_timeout, s2) \<Rightarrow> Ok (MessageQ_E_TIMEOUT, NULL, s2)
     | (Wait_error, s2) \<Rightarrow> Ok (MessageQ_E_FAIL, NULL, s2)
     | (Wait_success, s2) \<Rightarrow>
         if mq_unblocked (qs_obj s2 obj) then Ok (MessageQ_E_UNBLOCKED, NULL, s2)
         else MessageQ_get E (Suc n) obj timeout s2)"
    using MessageQ_get_none [OF assms] by blast
  show ?thesis
    by (rule exI [of _ s1]) (use s1 MessageQ_get_waiting [of _ obj _ _ _ E n timeout] in fastforce)
qed

lemma messageq_get_times_out_witness:
  "\<exists>s2. MessageQ_get ex_mqe 2 0x80004000 10 ex_mq = Ok (MessageQ_E_TIMEOUT, NULL, s2)"
proof -
  have "mq_lists (qs_obj ex_mq 0x80004000) (qs_list ex_mq) ([], [])"
    using mq_box_parts(3,4) [OF ex_mq_box] by simp
  then obtain s1 where "list_quiet ex_mq s1"
    "\<And>w s2. me_wait ex_mqe (mq_synchronizer (qs_obj ex_mq 0x80004000)) 10 s1 = (w, s2) \<Longrightarrow> w = Wait_timeout \<Longrightarrow>
       MessageQ_get ex_mqe (Suc (Suc 0)) 0x80004000 10 ex_mq = Ok (MessageQ_E_TIMEOUT, NULL, s2)"
    using messageq_get_times_out [of ex_mq "0x80004000" ex_mqe 10 0] by blast
  moreover from this(1) have "me_wait ex_mqe (mq_synchronizer (qs_obj ex_mq 0x80004000)) 10 s1 = (Wait_timeout, s1)"
    using list_quiet_parts(4) [of ex_mq s1] by (simp add: ex_mqe_def ex_mq_def)
  ultimately show ?thesis by (simp add: numeral_2_eq_2)
qed

text \<open>C15. MessageQ_count ends and gives the number of messages that wait on a queue, of both kinds together, when it may take one step more than there are messages.\<close>

theorem messageq_count_waiting:
  assumes "mq_lists (qs_obj s obj) (qs_list s) q" and "length (mail_waiting q) < fuel"
  shows "MessageQ_count fuel obj s = Ok (length (mail_waiting q))"
  by (rule MessageQ_count_waiting [OF assms])

lemma messageq_count_waiting_witness: "MessageQ_count 1 0x80004000 ex_mq = Ok 0"
proof -
  have "mq_lists (qs_obj ex_mq 0x80004000) (qs_list ex_mq) ([], [])"
    using mq_box_parts(3,4) [OF ex_mq_box] by simp
  from messageq_count_waiting [OF this, of 1] show ?thesis by (simp add: mail_waiting_def)
qed

text \<open>C16. The queue index and the processor are recovered from the queue id that MessageQ_openQueueId makes of them, and every 32-bit id is the one made of its own parts, so that different queues have different ids.\<close>

theorem messageq_id_roundtrip:
  "MessageQ_getQueueIndex (MessageQ_openQueueId i p) = i \<and> MessageQ_getProcId (MessageQ_openQueueId i p) = p \<and>
   MessageQ_openQueueId (MessageQ_getQueueIndex qid) (MessageQ_getProcId qid) = qid"
  using openQueueId_parts by simp

text \<open>C17. The priority, the transport id and the reply queue written to a message header are read back, and setting the priority and setting the transport id (of at most 7) do not disturb each other.\<close>

theorem messageq_header_fields:
  assumes "tid \<le> 7"
  shows "MessageQ_getMsgPri (MessageQ_setTransportId tid (MessageQ_setMsgPri pri m)) = pri AND 3 \<and>
    MessageQ_getTransportId (MessageQ_setMsgPri pri (MessageQ_setTransportId tid m)) = tid \<and>
    MessageQ_getReplyQueue (qs_msg (MessageQ_setReplyQueue obj msg s) msg) = mq_queue (qs_obj s obj)"
  using assms getTransportId_set getMsgPri_set getReplyQueue_set by (simp add: MessageQ_PRIORITYMASK_def)

lemma messageq_header_fields_witness:
  "MessageQ_getTransportId (MessageQ_setMsgPri 3 (MessageQ_setTransportId 5 (ex_header 0x2000))) = 5"
  using messageq_header_fields [of 5 3 "ex_header 0x2000"] by simp

text \<open>C18. With a free slot in the table, a synchronizer, transports that bind and room in the name server, creating a queue succeeds: it takes a slot that was free, its id tells its slot and its processor, it is empty, and the table stays well-formed, every queue in it having the id of its slot.\<close>

theorem messageq_create_ok:
  assumes "mq_table C s" and "mq_fresh obj s"
    and "mp_queueIndex params = MessageQ_ANY" and "unat (qc_numReservedEntries C) \<le> k"
    and "k < unat (qm_numQueues (qs_mod s))" and "qm_queues (qs_mod s) ! k = NULL"
    and "mp_synchronizer params \<noteq> NULL \<or> me_semCreate E \<noteq> NULL"
    and "mq_binds E (qm_regTrans (qs_mod s)) [1, 2, 3, 4, 5, 6, 7]"
    and "\<forall>nm i. name = Some nm \<longrightarrow> me_nsAdd E nm i \<noteq> NULL"
  shows "\<exists>s' i. MessageQ_Instance_init E C h junk obj name params s = Ok (0, s') \<and> mq_table C s' \<and>
    i < length (qm_queues (qs_mod s)) \<and> qm_queues (qs_mod s) ! i = NULL \<and>
    qm_queues (qs_mod s') = (qm_queues (qs_mod s))[i := obj] \<and>
    mq_queue (qs_obj s' obj) = MessageQ_openQueueId (of_nat i) (qc_self C) \<and>
    mq_lists (qs_obj s' obj) (qs_list s') ([], [])"
  using MessageQ_create_free [OF assms(1-8)] assms(9) by blast

lemma messageq_create_ok_witness:
  "\<exists>s' i. MessageQ_Instance_init ex_mqe ex_mqc 0x100 0 0x80006000 (Some ''q'') MessageQ_Params_init ex_mq =
      Ok (0, s') \<and> mq_table ex_mqc s' \<and>
    i < length (qm_queues (qs_mod ex_mq)) \<and> qm_queues (qs_mod ex_mq) ! i = NULL \<and>
    qm_queues (qs_mod s') = (qm_queues (qs_mod ex_mq))[i := 0x80006000] \<and>
    mq_queue (qs_obj s' 0x80006000) = MessageQ_openQueueId (of_nat i) (qc_self ex_mqc) \<and>
    mq_lists (qs_obj s' 0x80006000) (qs_list s') ([], [])"
  by (rule messageq_create_ok [OF ex_mq_table ex_mq_fresh _ _ _ _ _ ex_mq_binds, of _ 1])
    (simp_all add: MessageQ_Params_init_def ex_mqc_def ex_mqe_def ex_mq_def)



text \<open>C20. MessageQ_grow keeps every queue in its slot and adds the new one at the end as long as the table has fewer than 16384 slots; from that size on the size in bytes wraps around 16 bits, the new array is too small, and the new queue is written behind its end.\<close>

theorem messageq_grow_bounds:
  assumes "length (qm_queues (qs_mod s)) = unat (qm_numQueues (qs_mod s))"
    and "\<forall>h n. me_alloc E h n \<noteq> NULL"
  shows "if qm_numQueues (qs_mod s) < 0x4000
    then \<exists>s'. MessageQ_grow E h junk obj s = Ok (qm_numQueues (qs_mod s), s') \<and>
      qm_queues (qs_mod s') = qm_queues (qs_mod s) @ [obj] \<and>
      qm_numQueues (qs_mod s') = qm_numQueues (qs_mod s) + 1
    else MessageQ_grow E h junk obj s = Err Bad_access"
  using MessageQ_grow_appends [OF assms(1), of E h junk obj] MessageQ_grow_overruns [of s E h junk obj] assms(2)
  by (auto simp: not_less)

lemma messageq_grow_bounds_witness:
  "\<exists>s'. MessageQ_grow ex_mqe 0x100 0 0x80006000 ex_mq = Ok (2, s') \<and>
    qm_queues (qs_mod s') = [0x80004000, NULL, 0x80006000]"
  using messageq_grow_bounds [of ex_mq ex_mqe "0x100" 0 "0x80006000"] by (auto simp: ex_mq_def ex_mqe_def)

text \<open>C21. When SyncSem_create has no memory, MessageQ_create fails after the new queue took its slot; the clean-up then computes the slot from an id that was never set and writes far outside the table of queues.\<close>

theorem messageq_failed_create_faults:
  assumes "mq_table C s" and "mq_fresh obj s" and "unat (qc_numReservedEntries C) \<le> k"
    and "k < unat (qm_numQueues (qs_mod s))" and "qm_queues (qs_mod s) ! k = NULL"
    and "me_semCreate E = NULL" and "mq_queue (qs_obj s obj) = 0"
    and "mq_syncSemHandle (qs_obj s obj) = NULL"
    and "qm_numQueues (qs_mod s) < 0xFF80" and "length (qm_regTrans (qs_mod s)) = 8"
  shows "MessageQ_create2 E C h junk obj name None s = Err Bad_access"
  by (rule MessageQ_create_faults [OF assms])

lemma messageq_failed_create_faults_witness:
  "MessageQ_create2 (ex_mqe\<lparr>me_semCreate := NULL\<rparr>) ex_mqc 0x100 0 0x80006000 None None ex_mq = Err Bad_access"
  by (rule messageq_failed_create_faults [OF ex_mq_table ex_mq_fresh, of 1])
    (simp_all add: ex_mqc_def ex_mqe_def ex_mq_def ex_queue_def)

text \<open>C22. MessageQ_create with parameters of the old kind, whose first word is the synchronizer, fails (or without assertions ignores the synchronizer) when that handle lies in the upper half of the address space, since it is read as a negative version number.\<close>

theorem messageq_legacy_params:
  assumes "0x80000000 \<le> pb_version p"
  shows "MessageQ_create E C h junk obj name (Some p) s =
    (if qc_asserts C then Err (Assertion A_unnamed) else MessageQ_create2 E C h junk obj name None s)"
  by (rule MessageQ_create_legacy_high [OF assms])

lemma messageq_legacy_params_witness:
  "MessageQ_create ex_mqe ex_mqc 0x100 0 0x80006000 None
     (Some \<lparr>pb_version = 0x80008000, pb_synchronizer = 0, pb_queueIndex = 0\<rparr>) ex_mq =
   Err (Assertion A_unnamed)"
  using messageq_legacy_params [of "\<lparr>pb_version = 0x80008000, pb_synchronizer = 0, pb_queueIndex = 0\<rparr>"
      ex_mqe ex_mqc "0x100" 0 "0x80006000" None ex_mq]
  by (simp add: ex_mqc_def)

section \<open>Notification driver\<close>

text \<open>C23. On any run of events sent by one processor without waiting and of interrupts served by the other, no access goes wrong, every service routine ends, and the events accepted reach Notify_exec (those that are registered) in the order sent or are still in the buffer: none is lost, repeated or overwritten.\<close>

theorem notify_circ_in_order:
  assumes "circ_wired F k A" and "circ_wired F k B" and "circ_meet A B" and "circ_out k A m evs"
  shows "\<exists>rs m' evs' ds. run_ops (circ_step F k A B) ops m = Ok (rs, m') \<and> circ_out k A m' evs' \<and>
    cm_exec m' = cm_exec m @ map (Pair (cd_notifyHandle B)) (circ_registered B ds) \<and>
    evs @ circ_accepted ops rs = ds @ evs'"
  by (rule circ_run_in_order [OF assms])

lemma notify_circ_in_order_witness:
  "\<exists>rs m' evs' ds. run_ops (circ_step ex_circ_config 2 ex_circA ex_circB)
      [Emit \<lparr>ev_eventid = 4, ev_payload = 7\<rparr>, Emit \<lparr>ev_eventid = 1, ev_payload = 8\<rparr>, Serve] ex_circ_mem =
      Ok (rs, m') \<and> circ_out 2 ex_circA m' evs' \<and>
    cm_exec m' = cm_exec ex_circ_mem @ map (Pair (cd_notifyHandle ex_circB)) (circ_registered ex_circB ds) \<and>
    [] @ circ_accepted [Emit \<lparr>ev_eventid = 4, ev_payload = 7\<rparr>, Emit \<lparr>ev_eventid = 1, ev_payload = 8\<rparr>, Serve] rs =
      ds @ evs'"
  by (rule notify_circ_in_order [OF ex_circ_wired])

text \<open>C24. When two processors initialise the driver with the same shared address and alignment, each naming the other as the remote one, the buffer and the indices that each of them writes are those that the other reads, and a buffer is empty after its writer's initialisation.\<close>

theorem notify_circ_ends_meet:
  assumes "NotifyDriverCirc_Instance_init M F p invalid objA m = Ok (A, m1)"
    and "NotifyDriverCirc_Instance_init M (F\<lparr>cc_self := cp_remoteProcId p\<rparr>)
      (p\<lparr>cp_remoteProcId := cc_self F\<rparr>) invalid objB m1 = Ok (B, m2)"
    and "circ_minAlign M p = Ok (2 ^ j)" and "j < 31" and "cc_self F \<noteq> cp_remoteProcId p" and "circ_sized F k"
  shows "circ_meet A B \<and> circ_meet B A \<and> circ_wired F k A \<and> circ_out k A m1 []"
  using circ_init_meet [OF assms(1-3,5)] circ_init_empty [OF assms(1,3,4,6)] by blast

lemma notify_circ_ends_meet_witness:
  "\<exists>A m1 B m2. NotifyDriverCirc_Instance_init ex_sr ex_circ_config ex_circ_params 0xFFFF ex_circA ex_circ_mem = Ok (A, m1) \<and>
    NotifyDriverCirc_Instance_init ex_sr (ex_circ_config\<lparr>cc_self := cp_remoteProcId ex_circ_params\<rparr>)
      (ex_circ_params\<lparr>cp_remoteProcId := cc_self ex_circ_config\<rparr>) 0xFFFF ex_circB m1 = Ok (B, m2) \<and>
    circ_meet A B \<and> circ_meet B A \<and> circ_out 2 A m1 []"
proof -
  obtain A m1 where A: "NotifyDriverCirc_Instance_init ex_sr ex_circ_config ex_circ_params 0xFFFF ex_circA ex_circ_mem =
      Ok (A, m1)" using ex_circ_init(1) by blast
  obtain B m2 where B: "NotifyDriverCirc_Instance_init ex_sr (ex_circ_config\<lparr>cc_self := cp_remoteProcId ex_circ_params\<rparr>)
      (ex_circ_params\<lparr>cp_remoteProcId := cc_self ex_circ_config\<rparr>) 0xFFFF ex_circB m1 = Ok (B, m2)"
    using ex_circ_init(2) by blast
  have "circ_minAlign ex_sr ex_circ_params = Ok (2 ^ 7)" using ex_circ_minAlign by simp
  from notify_circ_ends_meet [OF A B this, of 2] A B show ?thesis
    by (auto simp: ex_circ_config_def ex_circ_params_def circ_sized_def)
qed

text \<open>C25. Any run of sends, service routines, registrations and (un)maskings, one after the other, on a NotifyDriverShm line does what the same run does on a table of slots: a send answers E_EVTDISABLED, E_EVTNOTREGISTERED or, when told to wait, with the slot taken and sendEventPollCount not at its default -1, E_TIMEOUT, and otherwise fills the event's slot; a service routine hands over every registered, enabled and filled slot once, lowest event first, and empties it; the rounds given suffice (as many as polls, 2^32 for a count of 0, and one for each slot and pass). With the default poll count a send never gives up: the runs are then those in which a waiting send meets a free, masked or unregistered slot (what happens otherwise is C38). Events are in range and an event is registered at most once.\<close>

theorem notify_shm_runs_as_slots:
  assumes "shm_pair_rel F so (ro, m) a" and "shm_rounds n F" and "allowed_run (shm_allowed F) shm_spec ops a"
  shows "\<exists>ro' m'. run_ops (shm_step n F so) ops (ro, m) = Ok (fst (spec_run shm_spec ops a), ro', m') \<and>
    shm_pair_rel F so (ro', m') (snd (spec_run shm_spec ops a))"
  using shm_run_refines [OF assms] by auto

lemma notify_shm_runs_as_slots_witness:
  "\<exists>ro m. run_ops (shm_step 2000 ex_shm_config (ex_shm_object 1 False)) ex_shm_ops
      (ex_shm_object 0 True, ex_shm_mem) = Ok ([-14, 0, 0, 0, 0, -6, 0, 0, -15], ro, m) \<and>
    map snd (sm_exec m) = [(5, 2), (7, 1)]"
proof -
  have ok: "allowed_run (shm_allowed ex_shm_config) shm_spec ex_shm_ops ex_shm_slots"
    by (simp add: ex_shm_ops_def ex_shm_slots_def ex_shm_config_def)
  have n: "shm_rounds 2000 ex_shm_config" by (simp add: shm_rounds_def shm_polls_def ex_shm_config_def)
  have r: "fst (spec_run shm_spec ex_shm_ops ex_shm_slots) = [-14, 0, 0, 0, 0, -6, 0, 0, -15]"
    "st_exec (snd (spec_run shm_spec ex_shm_ops ex_shm_slots)) = [(5, 2), (7, 1)]"
    by (simp_all add: ex_shm_ops_def ex_shm_slots_def slots_served_def slot_pending_def)
  from notify_shm_runs_as_slots [OF ex_shm_rel n ok] obtain ro m
    where t: "run_ops (shm_step 2000 ex_shm_config (ex_shm_object 1 False)) ex_shm_ops
        (ex_shm_object 0 True, ex_shm_mem) = Ok ([-14, 0, 0, 0, 0, -6, 0, 0, -15], ro, m)"
      "shm_pair_rel ex_shm_config (ex_shm_object 1 False) (ro, m) (snd (spec_run shm_spec ex_shm_ops ex_shm_slots))"
    unfolding r(1) by blast
  have "sm_exec m = map (\<lambda>(e, p). (sd_notifyHandle ro, e, p)) [(5, 2), (7, 1)]"
    using t(2) r(2) by (simp add: shm_pair_rel_def shm_rel_def)
  with t(1) show ?thesis by auto
qed

text \<open>C26. A sender that waits for room gets its event in as soon as the receiver has taken one: if the buffer is seen full at n further looks at the read index and not at the next, sendEvent returns success after n + 1 rounds with the event last in the buffer.\<close>

theorem notify_circ_waiting_sender:
  assumes "circ_wired F k obj"
    and "\<forall>i \<le> n. \<exists>evs. circ_out k obj (M i) evs \<and> Suc (length evs) = 2 ^ k"
    and "\<forall>i \<le> n. M (Suc i) = peer (clog_if (cd_cacheEnabled obj) (C_inv (cd_putReadIndex obj) sizeof_Bits32) (M i))"
    and "circ_out k obj (M (Suc n)) evs" and "Suc (length evs) < 2 ^ k"
  shows "\<exists>m'. NotifyDriverCirc_sendEvent peer F (Suc n) obj eventId payload True (M 0) = Ok (True, m') \<and>
    circ_out k obj m' (evs @ [\<lparr>ev_eventid = eventId, ev_payload = payload\<rparr>])"
  by (rule NotifyDriverCirc_sendEvent_waits [where M = M]) (use assms in blast)+

lemma notify_circ_waiting_sender_witness:
  "\<exists>m'. NotifyDriverCirc_sendEvent ex_circ_other ex_circ_config 1 ex_circA 4 9 True ex_circ_full = Ok (True, m') \<and>
    circ_out 2 ex_circA m' (replicate 2 \<lparr>ev_eventid = 0, ev_payload = 0\<rparr> @ [\<lparr>ev_eventid = 4, ev_payload = 9\<rparr>])"
  using notify_circ_waiting_sender [OF ex_circ_wired(1), of 0
      "\<lambda>i. if i = 0 then ex_circ_full else ex_circ_other (clog (C_inv (cd_putReadIndex ex_circA) sizeof_Bits32) ex_circ_full)"
      ex_circ_other "replicate 2 \<lparr>ev_eventid = 0, ev_payload = 0\<rparr>" 4 9]
    ex_circ_drained ex_circ_clog ex_circ_is_full
  by simp

section \<open>Notifications\<close>

text \<open>C27. Any run of Notify's operations that the clients may make on a line gives the answers of a table: listeners of an event are called in the order they registered and until the first matching one is unregistered, a single callback excludes them, an event sent on the loopback line is refused while nothing is registered, the line is disabled or the event is disabled, and the driver of a remote line has an event registered exactly while somebody listens and is disabled exactly while the nesting count is not zero.\<close>

theorem notify_runs_as_table:
  assumes "notify_rel F P ln s a"
    and "allowed_run (notify_allowed n F P ln) (notify_spec F P ln) ops a"
  shows "\<exists>t. run_ops (notify_step n F P ln) ops s = Ok (fst (spec_run (notify_spec F P ln) ops a), t) \<and>
    notify_rel F P ln t (snd (spec_run (notify_spec F P ln) ops a))"
  by (rule notify_run_refines [OF assms])

lemma notify_runs_as_table_witness:
  "\<exists>s t. run_ops (notify_step 8 ex_nc ex_np ex_nline)
      [N_register 0x2000 10 (ex_ncb 1), N_register 0x2010 10 (ex_ncb 2), N_send 10 7,
       N_unregister 10 (ex_ncb 1), N_disable, N_send 10 8, N_restore 1, N_send 10 9] s =
      Ok ([0, 0, 0, 0, 1, Notify_E_FAIL, 0, 0], t) \<and>
    map (\<lambda>c. (nl_arg c, nl_payload c)) (nt_calls t) = [(1, 7), (2, 7), (2, 9)]"
proof -
  let ?ops = "[N_register 0x2000 10 (ex_ncb 1), N_register 0x2010 10 (ex_ncb 2), N_send 10 7,
       N_unregister 10 (ex_ncb 1), N_disable, N_send 10 8, N_restore 1, N_send 10 9]"
  let ?a = "ex_ntable [] 0 []"
  have "ex_ncb 2 \<noteq> ex_ncb 1" by (simp add: ex_ncb_def)
  then have run: "spec_run (notify_spec ex_nc ex_np ex_nline) ?ops ?a = ([0, 0, 0, 0, 1, Notify_E_FAIL, 0, 0],
      ex_ntable [(0x2010, ex_ncb 2)] 0 [the_call 0 0 10 7 (ex_ncb 1), the_call 0 0 10 7 (ex_ncb 2),
        the_call 0 0 10 9 (ex_ncb 2)])"
    and ok: "allowed_run (notify_allowed 8 ex_nc ex_np ex_nline) (notify_spec ex_nc ex_np ex_nline) ?ops ?a"
    by (simp_all add: ex_ntable_spec ex_ntable_allowed del: notify_spec.simps notify_allowed.simps)
  obtain s where "notify_rel ex_nc ex_np ex_nline s ?a" using ex_ntable_state by blast
  from notify_runs_as_table [OF this ok] run
  obtain t where t: "run_ops (notify_step 8 ex_nc ex_np ex_nline) ?ops s = Ok ([0, 0, 0, 0, 1, Notify_E_FAIL, 0, 0], t)"
    "notify_rel ex_nc ex_np ex_nline t (ex_ntable [(0x2010, ex_ncb 2)] 0
       [the_call 0 0 10 7 (ex_ncb 1), the_call 0 0 10 7 (ex_ncb 2), the_call 0 0 10 9 (ex_ncb 2)])"
    by auto
  have "map (\<lambda>c. (nl_arg c, nl_payload c)) (nt_calls t) = [(1, 7), (2, 7), (2, 9)]"
    using notify_relD(7) [OF t(2)] by (simp add: ex_ntable_def the_call_def ex_ncb_def)
  then show ?thesis by (intro exI [of _ s] exI [of _ t] conjI t(1))
qed

text \<open>C28. Delivering a registered event on a line returns: with any number of rounds above the number of listeners Notify_exec ends, with the same state, and has called each listener once, in order, with its argument and the payload.\<close>

theorem notify_exec_returns:
  assumes "notify_rel F P ln s a" and "e < nfc_numEvents F" and "na_used a e"
  shows "\<exists>t. (\<forall>n>length (na_many a e). Notify_exec n F (ln_handle ln) e payload s = Ok t) \<and>
    nt_calls t = nt_calls s @ map (the_call (ln_procId ln) (ln_lineId ln) e payload) (reached a e)"
  by (rule exec_returns [OF assms])

lemma notify_exec_returns_witness:
  "\<exists>s t. (\<forall>n>2. Notify_exec n ex_nc 0x500 10 7 s = Ok t) \<and>
    map nl_arg (nt_calls t) = [1, 2]"
proof -
  let ?ops = "[N_register 0x2000 10 (ex_ncb 1), N_register 0x2010 10 (ex_ncb 2)]"
  let ?b = "ex_ntable [(0x2000, ex_ncb 1), (0x2010, ex_ncb 2)] 0 []"
  obtain s0 where s0: "notify_rel ex_nc ex_np ex_nline s0 (ex_ntable [] 0 [])" using ex_ntable_state by blast
  have run: "spec_run (notify_spec ex_nc ex_np ex_nline) ?ops (ex_ntable [] 0 []) = ([0, 0], ?b)"
    and ok: "allowed_run (notify_allowed 8 ex_nc ex_np ex_nline) (notify_spec ex_nc ex_np ex_nline) ?ops
      (ex_ntable [] 0 [])"
    by (simp_all add: ex_ntable_spec ex_ntable_allowed del: notify_spec.simps notify_allowed.simps)
  obtain s where s: "notify_rel ex_nc ex_np ex_nline s ?b"
    using notify_run_refines [OF s0 ok] run by auto
  have b: "na_used ?b 10" "length (na_many ?b 10) = 2" "reached ?b 10 = [ex_ncb 1, ex_ncb 2]"
    by (simp_all add: na_used_def ex_ntable_def reached_def)
  have "nt_calls s = []" using notify_relD(7) [OF s] by (simp add: ex_ntable_def)
  with notify_exec_returns [OF s _ b(1), of 7] b show ?thesis
    by (force simp: the_call_def ex_ncb_def)
qed

text \<open>C29. Notify_Instance_init on a free line with memory for its callbacks and lists registers the line with nothing listening and nothing disabled, and Notify_detach then takes every line to that processor out again.\<close>

theorem notify_create_detach:
  assumes "line_free P ln s" and "ln_handle ln \<noteq> NULL" and "ln_lists ln \<noteq> NULL" and "callbacks \<noteq> NULL"
    and "ln_procId ln < nfc_numProcessors F" and "ln_lineId ln < nfc_numLines F" and "nfc_numEvents F \<le> 32"
    and "\<forall>e<nfc_numEvents F. nfc_listGet F (ln_lists ln) e \<noteq> NULL \<and>
      (\<forall>f<nfc_numEvents F. nfc_listGet F (ln_lists ln) e = nfc_listGet F (ln_lists ln) f \<longrightarrow> e = f)"
    and "\<not> is_local P ln \<longrightarrow> driver_rel (nfc_numEvents F) (ln_driver ln) (nt_log s) (fresh_table s)"
    and "lines_wired P (ln_procId ln) (nfc_numLines F) s"
    and "\<forall>j<nfc_numLines F. notify_handle P (ln_procId ln) j s \<noteq> Ok (ln_handle ln)"
  shows "\<exists>t u. Notify_Instance_init F P callbacks (ln_lists ln) (ln_handle ln) (ln_driver ln)
      (ln_procId ln) (ln_lineId ln) s = Ok (0, t) \<and> notify_rel F P ln t (fresh_table s) \<and>
    Notify_intLineRegistered F P (ln_procId ln) (ln_lineId ln) t = Ok True \<and>
    Notify_detach F P cbs (ln_procId ln) t = Ok (Notify_S_SUCCESS, u) \<and>
    (\<forall>j<nfc_numLines F. Notify_intLineRegistered F P (ln_procId ln) j u = Ok False)"
proof -
  obtain t where t: "Notify_Instance_init F P callbacks (ln_lists ln) (ln_handle ln) (ln_driver ln)
      (ln_procId ln) (ln_lineId ln) s = Ok (0, t)" "notify_rel F P ln t (fresh_table s)"
    "\<And>j. j \<noteq> ln_lineId ln \<Longrightarrow> notify_handle P (ln_procId ln) j t = notify_handle P (ln_procId ln) j s"
    "\<And>h. h \<noteq> ln_handle ln \<Longrightarrow> nt_obj t h = nt_obj s h"
    using Instance_init_rel [OF assms(1-7)] assms(8,9) by blast
  have "lines_wired P (ln_procId ln) (nfc_numLines F) t"
    using Instance_init_wired [OF assms(10) t(2-4)] assms(11) by blast
  from Notify_detach_clears [OF this] obtain u where u: "Notify_detach F P cbs (ln_procId ln) t = Ok (Notify_S_SUCCESS, u)"
    "\<forall>j<nfc_numLines F. notify_handle P (ln_procId ln) j u = Ok NULL" by blast
  show ?thesis
    using t(1,2) u notify_relD(1) [OF t(2)] assms(5,6)
    by (auto simp: Notify_intLineRegistered_def line_found_def line_checked_def)
qed

lemma notify_create_detach_witness:
  "\<exists>t u. Notify_Instance_init ex_nc ex_np 0x300 0x1000 0x500 NULL 0 0 ex_ns0 = Ok (0, t) \<and>
    Notify_detach ex_nc ex_np (\<lambda>_. 0x300) 0 t = Ok (Notify_S_SUCCESS, u) \<and>
    Notify_intLineRegistered ex_nc ex_np 0 0 u = Ok False"
proof -
  have "lines_wired ex_np (ln_procId ex_nline) (nfc_numLines ex_nc) ex_ns0"
    "\<forall>j<nfc_numLines ex_nc. notify_handle ex_np (ln_procId ex_nline) j ex_ns0 \<noteq> Ok (ln_handle ex_nline)"
    using ex_nfree(1) by (simp_all add: lines_wired_def line_free_def)
  with notify_create_detach [OF ex_nfree(1), of "0x300" ex_nc "\<lambda>_. 0x300"] ex_nlists show ?thesis by auto
qed

text \<open>C30. Notify_unregisterEvent of an event that has no listeners answers Notify_E_NOTFOUND and leaves the module's gate entered once more than before the call.\<close>

theorem notify_unregister_keeps_gate:
  assumes "notify_rel F P ln s a" and "event_fine F eventId" and "na_many a (stripped eventId) = []"
  shows "\<exists>t. Notify_unregisterEvent n F P (ln_procId ln) (ln_lineId ln) eventId fn arg s =
      Ok (Notify_E_NOTFOUND, t) \<and> module_gate (nt_log t) = module_gate (nt_log s) + 1"
  by (rule unregister_empty_gate [OF assms])

lemma notify_unregister_keeps_gate_witness:
  "\<exists>s t. Notify_unregisterEvent 8 ex_nc ex_np 0 0 10 (Fxn_user 0xF0) 1 s = Ok (Notify_E_NOTFOUND, t) \<and>
    module_gate (nt_log s) = 0 \<and> module_gate (nt_log t) = 1"
proof -
  obtain s where s: "notify_rel ex_nc ex_np ex_nline s (ex_ntable [] 0 [])" using ex_ntable_state by blast
  have "na_many (ex_ntable [] 0 []) (stripped 10) = []" "module_gate (nt_log s) = 0"
    using notify_relD(8) [OF s] by (simp_all add: ex_ntable_def)
  with notify_unregister_keeps_gate [OF s ex_event10(2)] show ?thesis by force
qed

section \<open>Name servers\<close>

text \<open>C31. On a table of a fixed size, any run of additions, look-ups and removals with names and values that fit ends without a fault and answers as a bounded table of names: a name already there or a full table refuses an addition, a look-up gives the value of the first entry of the name, a removal takes the first entry past the static ones. A removal of a name that is not there is refused (E_INVALIDARG), where ti/ipc/NameServer.h documents success.\<close>

theorem nameserver_runs_as_table:
  assumes "ns_holds E obj nameLen valueLen chk k c s t" and "\<forall>op \<in> set ops. ns_op_fit nameLen valueLen op"
  shows "\<exists>s'. run_ops (ns_life E C obj valueLen) ops s = Ok (fst (spec_run (name_spec (Some c) chk k) ops t), s') \<and>
    ns_holds E obj nameLen valueLen chk k c s' (snd (spec_run (name_spec (Some c) chk k) ops t))"
  by (rule ns_life_refines [OF assms])

lemma nameserver_runs_as_table_witness:
  "\<exists>s s'. run_ops (ns_life ex_nse ex_ns_config ex_ns_obj 8)
      [Register ''abc'' [1, 2], Register ''abc'' [3], Lookup ''abc'', Unregister ''abc'', Lookup ''abc''] s =
    Ok ([Registered True, Registered False, Found (Some [1, 2]), Unregistered True, Found None], s') \<and>
    ns_holds ex_nse ex_ns_obj 16 8 True 0 2 s' []"
proof -
  obtain s where s: "ns_holds ex_nse ex_ns_obj 16 8 True 0 2 s []" using ex_ns_created by blast
  from nameserver_runs_as_table [OF s, of "[Register ''abc'' [1, 2], Register ''abc'' [3], Lookup ''abc'',
      Unregister ''abc'', Lookup ''abc'']" ex_ns_config] ex_ns_fit(1,2)
  show ?thesis by (auto simp: ns_op_fit_def name_full_def)
qed

text \<open>C32. Creating a table of a fixed size whose three blocks the heap grants, apart and without a wrapped size, succeeds and gives a well-formed empty table: every entry on the free list with a name buffer and (unless values are words) a value buffer of its own, of the sizes asked for.\<close>

theorem nameserver_create_fixed:
  fixes p :: NameServer_Params
  assumes "heap = (if np_tableHeap p = NULL then ne_objHeap E else np_tableHeap p)"
    and "valueLen = (if np_maxValueLen p < sizeof_UInt32 then sizeof_UInt32 else np_maxValueLen p)"
    and "dyn = np_maxRuntimeEntries p" and "dyn \<noteq> NameServer_ALLOWGROWTH" and "unat dyn \<le> ne_fuel E"
    and "t = ne_alloc E (nv_calls s) heap (sizeof_TableEntry * dyn)"
    and "cs1 = NH_alloc heap (sizeof_TableEntry * dyn) t # nv_calls s"
    and "v = (if valueLen = sizeof_UInt32 then NULL else ne_alloc E cs1 heap (valueLen * dyn))"
    and "cs2 = (if valueLen = sizeof_UInt32 then cs1 else NH_alloc heap (valueLen * dyn) v # cs1)"
    and "n = ne_alloc E cs2 heap (np_maxNameLen p * dyn)"
    and "t \<noteq> NULL" and "n \<noteq> NULL" and "t \<noteq> n" and "valueLen \<noteq> sizeof_UInt32 \<Longrightarrow> v \<noteq> NULL \<and> v \<noteq> t \<and> v \<noteq> n"
    and "ns_layout E obj t n v (np_maxNameLen p) valueLen (unat dyn)"
    and "unat dyn * 20 < 2 ^ 32" and "unat dyn * unat (np_maxNameLen p) < 2 ^ 32" and "unat dyn * unat valueLen < 2 ^ 32"
    and "ne_nameList E obj \<noteq> NULL" and "ne_freeList E obj \<noteq> NULL" and "ne_nameList E obj \<noteq> ne_freeList E obj"
  shows "\<exists>s'. NameServer_Instance_init E obj name p s = Ok (0, s') \<and>
    ns_holds E obj (np_maxNameLen p) valueLen (np_checkExisting p) 0 (unat dyn) s' []"
  by (rule NameServer_Instance_init_fixed [OF assms])

lemma nameserver_create_fixed_witness:
  "\<exists>s'. NameServer_Instance_init ex_nse ex_ns_obj ''T'' ex_ns_params ex_ns = Ok (0, s') \<and>
    ns_holds ex_nse ex_ns_obj 16 8 True 0 2 s' []"
  using nameserver_create_fixed [OF refl refl refl _ _ refl refl refl refl refl, of ex_ns_params ex_nse
      ex_ns ex_ns_obj "''T''"] ex_ns_layout
  by (simp add: ex_ns_params_def ex_ns_heads ex_ns_allocs ex_ns_def NameServer_ALLOWGROWTH_def)

text \<open>C33. A growing table leaks nothing and releases nothing it does not hold: after its creation, any additions, look-ups and removals that fit (the heap may refuse any allocation when the values are words) and its finalization, the blocks held are those held before, and every release was of a block then held, by its heap, address and size.\<close>

theorem nameserver_gives_back:
  assumes "np_maxRuntimeEntries p = NameServer_ALLOWGROWTH"
    and "ne_nameList E obj \<noteq> NULL" and "ne_freeList E obj \<noteq> NULL" and "ne_nameList E obj \<noteq> ne_freeList E obj"
    and "ns_frees_held (nv_calls s)" and "ns_heaps_ok E obj"
    and "np_maxValueLen p \<le> sizeof_UInt32 \<or> (\<forall>cs h n. ne_alloc E cs h n \<noteq> NULL)"
    and "length ops \<le> ne_fuel E"
    and "valueLen = (if np_maxValueLen p < sizeof_UInt32 then sizeof_UInt32 else np_maxValueLen p)"
    and "\<forall>op \<in> set ops. ns_op_fit (np_maxNameLen p) valueLen op"
  shows "\<exists>s0 rs s1 s2. NameServer_Instance_init E obj name p s = Ok (0, s0) \<and>
    run_ops (ns_life E C obj valueLen) ops s0 = Ok (rs, s1) \<and>
    NameServer_Instance_finalize E obj s1 = Ok s2 \<and>
    ns_held (nv_calls s2) = ns_held (nv_calls s) \<and> ns_frees_held (nv_calls s2)"
  by (rule NameServer_gives_back [OF assms])

lemma nameserver_gives_back_witness:
  "\<exists>s0 rs s1 s2. NameServer_Instance_init ex_nse ex_ns_obj ''T'' NameServer_Params_init ex_ns = Ok (0, s0) \<and>
    run_ops (ns_life ex_nse ex_ns_config ex_ns_obj 4)
      [Register ''abc'' (u32_bytes 7), Register ''abc'' (u32_bytes 8), Lookup ''abc'', Unregister ''abc''] s0 = Ok (rs, s1) \<and>
    NameServer_Instance_finalize ex_nse ex_ns_obj s1 = Ok s2 \<and>
    ns_held (nv_calls s2) = ns_held (nv_calls ex_ns) \<and> ns_frees_held (nv_calls s2)"
  by (rule nameserver_gives_back)
    (use ex_ns_heaps_ok ex_ns_fit(3) in \<open>simp_all add: NameServer_Params_init_def NameServer_Params_MAXNAMELEN_def
       ex_ns_heads ex_ns_def ns_op_fit_def\<close>)

text \<open>C34. NameServer_match answers the length of the longest non-empty registered name that starts the given string, and the value of the first entry with that name length; zero and no value when no name starts it.\<close>

theorem nameserver_longest_match:
  assumes "ns_tab E obj s xs ys" and "no_maxValueLen (nv_obj s obj) = sizeof_UInt32"
  shows "\<exists>m r. NameServer_match E C obj n s =
      Ok ((m, map_option (\<lambda>e. te_value (nv_entry s e)) r), ns_log NG_leave (ns_log NG_enter s)) \<and>
    longest_match (ns_name s) n xs m r"
  by (rule NameServer_match_longest [OF assms])

lemma nameserver_longest_match_witness:
  "\<exists>s m r. NameServer_match ex_nse ex_ns_config ex_ns_obj ''rpmsg'' s =
      Ok ((m, map_option (\<lambda>e. te_value (nv_entry s e)) r), ns_log NG_leave (ns_log NG_enter s)) \<and>
    longest_match (ns_name s) ''rpmsg'' [] m r"
proof -
  obtain s where s: "ns_growing ex_nse ex_ns_obj (ns_held (nv_calls ex_ns)) s []"
      "no_maxValueLen (nv_obj s ex_ns_obj) = sizeof_UInt32"
    using ns_Instance_init_growing [of NameServer_Params_init ex_nse ex_ns_obj ex_ns "''T''"]
    by (auto simp: ex_ns_heads ex_ns_def NameServer_Params_init_def)
  then have "ns_tab ex_nse ex_ns_obj s [] []" by (simp add: ns_growing_def)
  from nameserver_longest_match [OF this s(2)] show ?thesis by blast
qed

text \<open>C35. NameServer_add looks for the name inside the gate and adds the entry after leaving it: when two callers both look before either adds, both additions succeed and the table that checks for existing names holds the name twice.\<close>

theorem nameserver_add_race:
  assumes "ns_holds E obj nameLen valueLen True k c s t" and "n \<notin> fst ` set t" and "length t + 2 \<le> c"
    and "ns_fit nameLen valueLen n v" and "ns_fit nameLen valueLen n w"
  shows "\<exists>s1 s2 s3 s4 e1 e2.
    NameServer_add_check E C obj n (of_nat (length v)) s = Ok (True, s1) \<and>
    NameServer_add_check E C obj n (of_nat (length w)) s1 = Ok (True, s2) \<and>
    NameServer_add_insert E obj n v (of_nat (length v)) s2 = Ok (e1, s3) \<and> e1 \<noteq> NULL \<and>
    NameServer_add_insert E obj n w (of_nat (length w)) s3 = Ok (e2, s4) \<and> e2 \<noteq> NULL \<and>
    ns_holds E obj nameLen valueLen True k c s4 (t @ [(n, v), (n, w)])"
  by (rule NameServer_add_race [OF assms])

lemma nameserver_add_race_witness:
  "\<exists>s s1 s2 s3 s4 e1 e2.
    NameServer_add_check ex_nse ex_ns_config ex_ns_obj ''abc'' 2 s = Ok (True, s1) \<and>
    NameServer_add_check ex_nse ex_ns_config ex_ns_obj ''abc'' 1 s1 = Ok (True, s2) \<and>
    NameServer_add_insert ex_nse ex_ns_obj ''abc'' [1, 2] 2 s2 = Ok (e1, s3) \<and> e1 \<noteq> NULL \<and>
    NameServer_add_insert ex_nse ex_ns_obj ''abc'' [3] 1 s3 = Ok (e2, s4) \<and> e2 \<noteq> NULL \<and>
    ns_holds ex_nse ex_ns_obj 16 8 True 0 2 s4 [(''abc'', [1, 2]), (''abc'', [3])]"
proof -
  obtain s where s: "ns_holds ex_nse ex_ns_obj 16 8 True 0 2 s []" using ex_ns_created by blast
  from nameserver_add_race [OF s _ _ ex_ns_fit(1,2), of ex_ns_config] show ?thesis
    by (rule_tac x = s in exI) simp
qed

text \<open>C36. A growing instance that is created and then created again by its name with the very same parameters counts a second reference exactly when the parameters name a heap (or the module has none to choose) and ask for values of at least four bytes. Otherwise, as with the default parameters, the instance holds the heap it chose or the length it raised to four: the second creation raises a parameter mismatch and the count stays 1, although the caller gets the instance. Creating it again with no parameters at all, which is allowed the first time, reads through NULL.\<close>

theorem nameserver_default_reopen:
  assumes "ns_create E name p s = Ok (obj, s1)" and "obj \<noteq> NULL"
    and "np_maxRuntimeEntries p = NameServer_ALLOWGROWTH"
    and "ns_named s1 name (nv_static s) = NULL" and "ns_named s1 name (nv_dynamic s @ [obj]) = obj"
  shows "(\<exists>s2. NameServer_create E name (Some p) s1 = Ok (obj, s2) \<and>
      (if (np_tableHeap p \<noteq> NULL \<or> ne_objHeap E = NULL) \<and> sizeof_UInt32 \<le> np_maxValueLen p
       then no_refCount (nv_obj s2 obj) = 2 \<and> nv_calls s2 = NG_leave # NG_enter # nv_calls s1
       else no_refCount (nv_obj s2 obj) = 1 \<and>
         nv_calls s2 = NE_raise NS_E_paramMismatch # NG_leave # NG_enter # nv_calls s1)) \<and>
    NameServer_create E name None s1 = Err Bad_access"
  using NameServer_reopen [OF assms] by blast

lemma nameserver_default_reopen_witness:
  "(\<exists>s1 s2. ns_create ex_nse ''T'' NameServer_Params_init ex_ns = Ok (ex_ns_obj, s1) \<and>
     NameServer_create ex_nse ''T'' (Some NameServer_Params_init) s1 = Ok (ex_ns_obj, s2) \<and>
     hd (nv_calls s2) = NE_raise NS_E_paramMismatch \<and> no_refCount (nv_obj s2 ex_ns_obj) = 1) \<and>
   (\<exists>s1 s2. ns_create ex_nse ''T'' ex_ns_explicit ex_ns = Ok (ex_ns_obj, s1) \<and>
     NameServer_create ex_nse ''T'' (Some ex_ns_explicit) s1 = Ok (ex_ns_obj, s2) \<and>
     no_refCount (nv_obj s2 ex_ns_obj) = 2)"
proof -
  have run: "\<exists>s1 s2. ns_create ex_nse ''T'' p ex_ns = Ok (ex_ns_obj, s1) \<and>
      NameServer_create ex_nse ''T'' (Some p) s1 = Ok (ex_ns_obj, s2) \<and>
      (if np_tableHeap p \<noteq> NULL \<and> sizeof_UInt32 \<le> np_maxValueLen p then no_refCount (nv_obj s2 ex_ns_obj) = 2
       else hd (nv_calls s2) = NE_raise NS_E_paramMismatch \<and> no_refCount (nv_obj s2 ex_ns_obj) = 1)"
    if g: "np_maxRuntimeEntries p = NameServer_ALLOWGROWTH" for p
  proof -
    obtain s1 where c: "ns_create ex_nse ''T'' p ex_ns = Ok (ex_ns_obj, s1)"
      "no_name (nv_obj s1 ex_ns_obj) = Some ''T''" using ex_ns_create_growing [OF g] by blast
    have "ns_named s1 ''T'' (nv_static ex_ns) = NULL" "ns_named s1 ''T'' (nv_dynamic ex_ns @ [ex_ns_obj]) = ex_ns_obj"
      "ex_ns_obj \<noteq> NULL" "ne_objHeap ex_nse \<noteq> NULL"
      using c(2) by (simp_all add: ns_named_def ex_ns_def ex_ns_obj_def ex_nse_def)
    then show ?thesis
      using nameserver_default_reopen [OF c(1) _ g] c(1) by (auto split: if_splits)
  qed
  show ?thesis
    using run [of NameServer_Params_init] run [of ex_ns_explicit]
    by (simp add: NameServer_Params_init_def ex_ns_explicit_def)
qed

text \<open>C37. Asked for a name at a list of other processors of the cluster that ends with the invalid id, NameServer_get passes over the processors that have no driver and those whose driver does not know the name or times out, stops at the first that answers anything else (a success or another error), and gives that answer, or that of the last one asked when all are passed over (E_NOTFOUND when none is asked). This is stated over the list of the drivers' own replies.\<close>

theorem nameserver_get_remote:
  assumes "\<not> nc_singleProcessor C" and "mpc_procAddrMode (nc_multiProc C) = ProcAddrMode_Cluster"
    and "b = MultiProc_getBaseIdOfCluster (nc_procs C)"
    and "length ps \<le> unat (MultiProc_getNumProcsInCluster (nc_multiProc C))"
    and "\<forall>p \<in> set ps. p \<noteq> MultiProc_INVALIDID \<and> p \<noteq> MultiProc_self (nc_procs C) \<and> unat (p - b) < length (nv_remote s)"
  shows "NameServer_get E C obj name len (Some (ps @ [MultiProc_INVALIDID])) s =
    Ok (ns_outcome (NameServer_E_NOTFOUND, None, len) (ns_asked (ns_replies E (no_name (nv_obj s obj)) name len
          (filter (\<lambda>h. h \<noteq> NULL) (map (\<lambda>p. nv_remote s ! unat (p - b)) ps)))), s)"
  by (rule NameServer_get_remote [OF assms])

lemma nameserver_get_remote_witness:
  "NameServer_get ex_nse ex_ns_config ex_ns_obj ''abc'' 4 (Some [3, 4, MultiProc_INVALIDID]) ex_ns =
    Ok ((0, Some [1, 2, 3, 4], 4), ex_ns)"
proof -
  have C: "\<not> nc_singleProcessor ex_ns_config" "mpc_procAddrMode (nc_multiProc ex_ns_config) = ProcAddrMode_Cluster"
    "2 = MultiProc_getBaseIdOfCluster (nc_procs ex_ns_config)" "MultiProc_self (nc_procs ex_ns_config) = 2"
    "unat (MultiProc_getNumProcsInCluster (nc_multiProc ex_ns_config)) = 3" "nv_remote ex_ns = [0, 0x30, 0x40]"
    by (simp_all add: ex_ns_config_def ex_ns_def MultiProc_self_def MultiProc_getBaseIdOfCluster_def
        MultiProc_getNumProcsInCluster_def)
  have "ns_outcome (NameServer_E_NOTFOUND, None, 4) (ns_asked (ns_replies ex_nse i n 4 [0x30, 0x40])) =
      (0, Some [1, 2, 3, 4], 4)" for i n
    by (simp add: ex_nse_def ns_outcome_def ns_asked_def ns_missed_def NameServer_E_NOTFOUND_def
        NameServer_E_TIMEOUT_def)
  with nameserver_get_remote [OF C(1-3), of "[3, 4]" ex_ns ex_nse ex_ns_obj "''abc''" 4] show ?thesis
    by (simp add: C(4-6) MultiProc_INVALIDID_def)
qed

section \<open>A sender that waits\<close>

text \<open>C38. With the default sendEventPollCount (-1), a NotifyDriverShm send that is told to wait and finds the event's slot taken never gives up: if nobody serves the line it does not return, whatever number of looks it is given; if the receiver's service routine runs between its first two looks, it succeeds, all that was pending has been handed over, and its payload is in the slot.\<close>

theorem notify_shm_waiting_sender:
  assumes "shm_rel F so ro m a" and "e < shc_numEvents F" and "shc_pollCount F = -1"
    and "st_on a e" and "e \<in> set (st_evs a)" and "st_slot a e \<noteq> None"
    and "(unat (shc_numEvents F) + 1) * (unat (shc_numEvents F) + 1) < k"
  shows "(\<forall>n. NotifyDriverShm_sendEvent id F n so e p True m = Err Out_of_fuel) \<and>
    (\<exists>t. NotifyDriverShm_sendEvent (shm_served_by k ro) F (Suc n) so e p True m = Ok (shm_S_SUCCESS, t) \<and>
       shm_rel F so ro t (slots_served a\<lparr>st_slot := (st_slot (slots_served a))(e := Some p)\<rparr>))"
  using shm_wait_send(1) [OF assms(1-6)] shm_wait_send(2) [OF assms] by blast

lemma notify_shm_waiting_sender_witness:
  "\<exists>ro m t. (\<forall>n. NotifyDriverShm_sendEvent id ex_shm_default n (ex_shm_object 1 False) 5 9 True m = Err Out_of_fuel) \<and>
    NotifyDriverShm_sendEvent (shm_served_by 2000 ro) ex_shm_default 1 (ex_shm_object 1 False) 5 9 True m =
      Ok (shm_S_SUCCESS, t) \<and>
    map snd (sm_exec t) = [(5, 2)]"
proof -
  obtain ro m where r: "shm_rel ex_shm_default (ex_shm_object 1 False) ro m ex_shm_busy"
    using ex_shm_busy_rel by blast
  have "(\<forall>n. NotifyDriverShm_sendEvent id ex_shm_default n (ex_shm_object 1 False) 5 9 True m = Err Out_of_fuel) \<and>
    (\<exists>t. NotifyDriverShm_sendEvent (shm_served_by 2000 ro) ex_shm_default (Suc 0) (ex_shm_object 1 False) 5 9 True m =
        Ok (shm_S_SUCCESS, t) \<and>
       shm_rel ex_shm_default (ex_shm_object 1 False) ro t
         (slots_served ex_shm_busy\<lparr>st_slot := (st_slot (slots_served ex_shm_busy))(5 := Some 9)\<rparr>))"
    by (rule notify_shm_waiting_sender [OF r])
      (simp_all add: ex_shm_default_def ex_shm_config_def ex_shm_busy_def ex_shm_slots_def)
  moreover have "st_exec (slots_served ex_shm_busy) = [(5, 2)]"
    by (simp add: slots_served_def slot_pending_def ex_shm_busy_def ex_shm_slots_def)
  ultimately show ?thesis using shm_relD(8) by fastforce
qed

end
